(* ===== verification/TinyPrelude.thy ===== *)
theory TinyPrelude
  imports Main "HOL-Library.Word"
begin

unbundle bit_operations_syntax

named_theorems event_ops "what setting and clearing do to the bits of an event group"
named_theorems ll_flags "values of the flags of hdlc_ll_reset"

section \<open>Shared types, error codes and helper lemmas\<close>

text \<open>
  The C types of the library (\<open>uint8_t\<close>, \<open>uint16_t\<close>, \<open>uint32_t\<close>) are words of the same width, so
  that \<open>+\<close> and \<open>-\<close> wrap as they do in C. An \<open>int\<close> of the source that carries an error code or a
  length is an unbounded \<open>int\<close>; a length that the source never makes negative is a \<open>nat\<close>. The error
  codes are those of \<open>src/src/hal/tiny_types.h\<close>. The rest of the theory collects the facts on words
  and lists that the component theories share.
\<close>

type_synonym u8 = "8 word"
type_synonym u16 = "16 word"
type_synonym u32 = "32 word"

text \<open>Error codes: \<open>src/src/hal/tiny_types.h\<close>, lines 122--145.\<close>

abbreviation TINY_SUCCESS :: int where "TINY_SUCCESS \<equiv> 0"
abbreviation TINY_ERR_FAILED :: int where "TINY_ERR_FAILED \<equiv> -1"
abbreviation TINY_ERR_TIMEOUT :: int where "TINY_ERR_TIMEOUT \<equiv> -2"
abbreviation TINY_ERR_DATA_TOO_LARGE :: int where "TINY_ERR_DATA_TOO_LARGE \<equiv> -3"
abbreviation TINY_ERR_INVALID_DATA :: int where "TINY_ERR_INVALID_DATA \<equiv> -4"
abbreviation TINY_ERR_BUSY :: int where "TINY_ERR_BUSY \<equiv> -5"
abbreviation TINY_ERR_OUT_OF_SYNC :: int where "TINY_ERR_OUT_OF_SYNC \<equiv> -6"
abbreviation TINY_ERR_AGAIN :: int where "TINY_ERR_AGAIN \<equiv> -7"
abbreviation TINY_ERR_WRONG_CRC :: int where "TINY_ERR_WRONG_CRC \<equiv> -8"
abbreviation TINY_ERR_OUT_OF_MEMORY :: int where "TINY_ERR_OUT_OF_MEMORY \<equiv> -9"
abbreviation TINY_ERR_UNKNOWN_PEER :: int where "TINY_ERR_UNKNOWN_PEER \<equiv> -10"
abbreviation TINY_ERR_IO :: int where "TINY_ERR_IO \<equiv> -11"

subsection \<open>Words\<close>

lemma word_xor_eq_0_iff [simp]: "(a :: 'a::len word) XOR b = 0 \<longleftrightarrow> a = b"
  by (metis bit.xor_left_self xor.right_neutral)

lemma word_xor_left_cancel [simp]: "(c :: 'a::len word) XOR a = c XOR b \<longleftrightarrow> a = b"
  by (metis bit.xor_left_self)

lemma word_xor_right_cancel [simp]: "(a :: 'a::len word) XOR c = b XOR c \<longleftrightarrow> a = b"
  by (simp add: xor.commute [of _ c])

lemma unat_u8_less [simp]: "unat (b :: u8) < 256"
  using unsigned_less [of b] by simp


lemma push_bit_drop_bit_1: "even (c :: 'a::len word) \<Longrightarrow> push_bit 1 (drop_bit 1 c) = c"
proof (rule bit_word_eqI)
  fix n assume "even c" "n < LENGTH('a)"
  then show "bit (push_bit 1 (drop_bit 1 c)) n = bit c n"
    by (cases n) (auto simp: bit_push_bit_iff bit_drop_bit_eq bit_0 simp del: push_bit_Suc)
qed

lemma bit_255_int [simp]: "bit (255 :: int) n \<longleftrightarrow> n < 8"
  using bit_mask_iff [of 8 n, where 'a = int] by (simp add: mask_eq_exp_minus_1)

lemma word_and_0xff: "(x :: 'a::len word) AND 0xff = take_bit 8 x"
  by (rule bit_word_eqI) (auto simp: bit_simps)

lemma unat_and_0xff_less [simp]: "unat ((x :: 'a::len word) AND 0xff) < 256"
  using take_bit_nat_less_exp [of 8 "unat x"] by (simp add: word_and_0xff unsigned_take_bit_eq)

lemma drop_bit_8_byte [simp]: "drop_bit 8 (ucast (d :: u8) :: 'a::len word) = 0"
  by (rule bit_word_eqI) (auto simp: bit_simps dest: bit_imp_le_length)

text \<open>Little-endian packing of bytes into a register.\<close>

primrec pack_le :: "u8 list \<Rightarrow> 'a::len word" where
  "pack_le [] = 0"
| "pack_le (d # ds) = ucast d XOR push_bit 8 (pack_le ds)"

lemma bit_pack_le: "bit (pack_le ds :: 'a::len word) k \<Longrightarrow> k < 8 * length ds"
  by (induction ds arbitrary: k) (fastforce simp: bit_xor_iff bit_push_bit_iff bit_ucast_iff bit_imp_le_length dest: bit_imp_le_length)+

lemma pack_le_inj:
  "length ds = length es \<Longrightarrow> 8 * length ds \<le> LENGTH('a) \<Longrightarrow> (pack_le ds :: 'a::len word) = pack_le es \<Longrightarrow> ds = es"
proof (induction ds es rule: list_induct2)
  case Nil
  then show ?case by simp
next
  case (Cons d ds e es)
  have eq: "bit (pack_le (d # ds) :: 'a word) k = bit (pack_le (e # es) :: 'a word) k" for k
    using Cons.prems by simp
  have "bit d k = bit e k" if "k < 8" for k
    using eq[of k] that Cons.prems(1) by (simp add: bit_xor_iff bit_push_bit_iff bit_ucast_iff)
  then have "d = e" by (intro bit_word_eqI) simp
  have "bit (pack_le ds :: 'a word) k = bit (pack_le es :: 'a word) k" for k
  proof (cases "k + 8 < LENGTH('a)")
    case True
    then show ?thesis using eq[of "k + 8"] \<open>d = e\<close>
      by (simp add: bit_xor_iff bit_push_bit_iff) blast
  next
    case False
    then show ?thesis using Cons.prems(1) Cons.hyps bit_pack_le[of ds k, where 'a='a] bit_pack_le[of es k, where 'a='a] by auto
  qed
  then have "(pack_le ds :: 'a word) = pack_le es" by (intro bit_word_eqI) blast
  then show ?case using Cons \<open>d = e\<close> by simp
qed

lemma ucast_u32_u16_add: "(ucast (a + b :: u32) :: u16) = ucast a + ucast b"
proof transfer
  fix a b :: int
  have "take_bit 16 (take_bit 32 (a + b)) = take_bit 16 (a + b)" by (simp add: min_def)
  moreover have "take_bit 16 (take_bit 32 a + take_bit 32 b) = take_bit 16 (take_bit 16 (take_bit 32 a) + take_bit 16 (take_bit 32 b))"
    by (rule take_bit_add [symmetric])
  moreover have "\<dots> = take_bit 16 (a + b)" by (simp add: min_def take_bit_add)
  ultimately show "take_bit LENGTH(16) (take_bit LENGTH(32) (a + b)) = take_bit LENGTH(16) (take_bit LENGTH(32) a + take_bit LENGTH(32) b)"
    by simp
qed

lemma ucast_u16_u8_add: "(ucast (a + b :: u16) :: u8) = ucast a + ucast b"
proof transfer
  fix a b :: int
  have "take_bit 8 (take_bit 16 (a + b)) = take_bit 8 (a + b)" by (simp add: min_def)
  moreover have "take_bit 8 (take_bit 16 a + take_bit 16 b) = take_bit 8 (take_bit 8 (take_bit 16 a) + take_bit 8 (take_bit 16 b))"
    by (rule take_bit_add [symmetric])
  moreover have "\<dots> = take_bit 8 (a + b)" by (simp add: min_def take_bit_add)
  ultimately show "take_bit LENGTH(8) (take_bit LENGTH(16) (a + b)) = take_bit LENGTH(8) (take_bit LENGTH(16) a + take_bit LENGTH(16) b)"
    by simp
qed

lemma ucast_u16_u8_not: "(ucast (NOT a :: u16) :: u8) = NOT (ucast a)"
  by (rule bit_word_eqI) (auto simp: bit_simps)

lemma ucast_ucast_u8_u16 [simp]: "(ucast (ucast (d :: u8) :: u16) :: u8) = d"
  by (rule bit_word_eqI) (auto simp: bit_simps)

lemma ucast_ucast_u8_u32_u16 [simp]: "(ucast (ucast (d :: u8) :: u32) :: u16) = ucast d"
  by (rule bit_word_eqI) (auto simp: bit_simps)

lemma ucast_ucast_u16_u32_u16 [simp]: "(ucast (ucast (d :: u16) :: u32) :: u16) = d"
  by (rule bit_word_eqI) (auto simp: bit_simps)

lemma pack_le_u16: "pack_le [ucast x, ucast (drop_bit 8 x)] = (x :: u16)"
  by (rule bit_word_eqI) (auto simp: bit_simps not_less)

lemma pack_le_u32:
  "pack_le [ucast x, ucast (drop_bit 8 x), ucast (drop_bit 16 x), ucast (drop_bit 24 x)] = (x :: u32)"
  by (rule bit_word_eqI) (auto simp: bit_simps not_less)

end
