(* ===== verification/TinyCrc.thy ===== *)
theory TinyCrc
  imports TinyPrelude
begin

unbundle bit_operations_syntax

section \<open>Frame check sequences: src/proto/crc/tiny_crc.c\<close>

text \<open>
  The three check sequences of the framing layer (8-bit sum, FCS-16, FCS-32), byte-wise over the
  tables of the source. The tables are shown equal to the bit-wise division by the generator
  polynomials that the comments of the source name; the locale \<open>crc_register\<close> states what the
  division gives (linearity, injectivity, detection of bursts), and both table-driven updates
  interpret it.
\<close>

subsection \<open>The code\<close>

text \<open>\<open>hdlc_crc_t\<close> of \<open>tiny_crc.h\<close>, with the values of the C enumeration.\<close>

datatype hdlc_crc_t = HDLC_CRC_DEFAULT | HDLC_CRC_8 | HDLC_CRC_16 | HDLC_CRC_32 | HDLC_CRC_OFF

fun hdlc_crc_val :: "hdlc_crc_t \<Rightarrow> int" where
  "hdlc_crc_val HDLC_CRC_DEFAULT = 0"
| "hdlc_crc_val HDLC_CRC_8 = 8"
| "hdlc_crc_val HDLC_CRC_16 = 16"
| "hdlc_crc_val HDLC_CRC_32 = 32"
| "hdlc_crc_val HDLC_CRC_OFF = 255"

definition get_crc_field_size :: "hdlc_crc_t \<Rightarrow> int" where
  "get_crc_field_size crc_type =
     (if crc_type = HDLC_CRC_OFF then 0
      else let crc_type = (if crc_type = HDLC_CRC_DEFAULT then HDLC_CRC_32 else crc_type)
           in hdlc_crc_val crc_type div 8)"

definition fcstab_32 :: "u32 list" where
  "fcstab_32 = [
    0x00000000, 0x77073096, 0xee0e612c, 0x990951ba, 0x076dc419, 0x706af48f, 0xe963a535, 0x9e6495a3,
    0x0edb8832, 0x79dcb8a4, 0xe0d5e91e, 0x97d2d988, 0x09b64c2b, 0x7eb17cbd, 0xe7b82d07, 0x90bf1d91,
    0x1db71064, 0x6ab020f2, 0xf3b97148, 0x84be41de, 0x1adad47d, 0x6ddde4eb, 0xf4d4b551, 0x83d385c7,
    0x136c9856, 0x646ba8c0, 0xfd62f97a, 0x8a65c9ec, 0x14015c4f, 0x63066cd9, 0xfa0f3d63, 0x8d080df5,
    0x3b6e20c8, 0x4c69105e, 0xd56041e4, 0xa2677172, 0x3c03e4d1, 0x4b04d447, 0xd20d85fd, 0xa50ab56b,
    0x35b5a8fa, 0x42b2986c, 0xdbbbc9d6, 0xacbcf940, 0x32d86ce3, 0x45df5c75, 0xdcd60dcf, 0xabd13d59,
    0x26d930ac, 0x51de003a, 0xc8d75180, 0xbfd06116, 0x21b4f4b5, 0x56b3c423, 0xcfba9599, 0xb8bda50f,
    0x2802b89e, 0x5f058808, 0xc60cd9b2, 0xb10be924, 0x2f6f7c87, 0x58684c11, 0xc1611dab, 0xb6662d3d,
    0x76dc4190, 0x01db7106, 0x98d220bc, 0xefd5102a, 0x71b18589, 0x06b6b51f, 0x9fbfe4a5, 0xe8b8d433,
    0x7807c9a2, 0x0f00f934, 0x9609a88e, 0xe10e9818, 0x7f6a0dbb, 0x086d3d2d, 0x91646c97, 0xe6635c01,
    0x6b6b51f4, 0x1c6c6162, 0x856530d8, 0xf262004e, 0x6c0695ed, 0x1b01a57b, 0x8208f4c1, 0xf50fc457,
    0x65b0d9c6, 0x12b7e950, 0x8bbeb8ea, 0xfcb9887c, 0x62dd1ddf, 0x15da2d49, 0x8cd37cf3, 0xfbd44c65,
    0x4db26158, 0x3ab551ce, 0xa3bc0074, 0xd4bb30e2, 0x4adfa541, 0x3dd895d7, 0xa4d1c46d, 0xd3d6f4fb,
    0x4369e96a, 0x346ed9fc, 0xad678846, 0xda60b8d0, 0x44042d73, 0x33031de5, 0xaa0a4c5f, 0xdd0d7cc9,
    0x5005713c, 0x270241aa, 0xbe0b1010, 0xc90c2086, 0x5768b525, 0x206f85b3, 0xb966d409, 0xce61e49f,
    0x5edef90e, 0x29d9c998, 0xb0d09822, 0xc7d7a8b4, 0x59b33d17, 0x2eb40d81, 0xb7bd5c3b, 0xc0ba6cad,
    0xedb88320, 0x9abfb3b6, 0x03b6e20c, 0x74b1d29a, 0xead54739, 0x9dd277af, 0x04db2615, 0x73dc1683,
    0xe3630b12, 0x94643b84, 0x0d6d6a3e, 0x7a6a5aa8, 0xe40ecf0b, 0x9309ff9d, 0x0a00ae27, 0x7d079eb1,
    0xf00f9344, 0x8708a3d2, 0x1e01f268, 0x6906c2fe, 0xf762575d, 0x806567cb, 0x196c3671, 0x6e6b06e7,
    0xfed41b76, 0x89d32be0, 0x10da7a5a, 0x67dd4acc, 0xf9b9df6f, 0x8ebeeff9, 0x17b7be43, 0x60b08ed5,
    0xd6d6a3e8, 0xa1d1937e, 0x38d8c2c4, 0x4fdff252, 0xd1bb67f1, 0xa6bc5767, 0x3fb506dd, 0x48b2364b,
    0xd80d2bda, 0xaf0a1b4c, 0x36034af6, 0x41047a60, 0xdf60efc3, 0xa867df55, 0x316e8eef, 0x4669be79,
    0xcb61b38c, 0xbc66831a, 0x256fd2a0, 0x5268e236, 0xcc0c7795, 0xbb0b4703, 0x220216b9, 0x5505262f,
    0xc5ba3bbe, 0xb2bd0b28, 0x2bb45a92, 0x5cb36a04, 0xc2d7ffa7, 0xb5d0cf31, 0x2cd99e8b, 0x5bdeae1d,
    0x9b64c2b0, 0xec63f226, 0x756aa39c, 0x026d930a, 0x9c0906a9, 0xeb0e363f, 0x72076785, 0x05005713,
    0x95bf4a82, 0xe2b87a14, 0x7bb12bae, 0x0cb61b38, 0x92d28e9b, 0xe5d5be0d, 0x7cdcefb7, 0x0bdbdf21,
    0x86d3d2d4, 0xf1d4e242, 0x68ddb3f8, 0x1fda836e, 0x81be16cd, 0xf6b9265b, 0x6fb077e1, 0x18b74777,
    0x88085ae6, 0xff0f6a70, 0x66063bca, 0x11010b5c, 0x8f659eff, 0xf862ae69, 0x616bffd3, 0x166ccf45,
    0xa00ae278, 0xd70dd2ee, 0x4e048354, 0x3903b3c2, 0xa7672661, 0xd06016f7, 0x4969474d, 0x3e6e77db,
    0xaed16a4a, 0xd9d65adc, 0x40df0b66, 0x37d83bf0, 0xa9bcae53, 0xdebb9ec5, 0x47b2cf7f, 0x30b5ffe9,
    0xbdbdf21c, 0xcabac28a, 0x53b39330, 0x24b4a3a6, 0xbad03605, 0xcdd70693, 0x54de5729, 0x23d967bf,
    0xb3667a2e, 0xc4614ab8, 0x5d681b02, 0x2a6f2b94, 0xb40bbe37, 0xc30c8ea1, 0x5a05df1b, 0x2d02ef8d]"

definition crc32_byte :: "u32 \<Rightarrow> u8 \<Rightarrow> u32" where
  "crc32_byte crc d = fcstab_32 ! unat ((crc XOR ucast d) AND 0xFF) XOR drop_bit 8 crc"

text \<open>The \<open>while\<close> loop of \<open>tiny_crc32\<close> over the bytes of the buffer, then the final inversion.\<close>

definition tiny_crc32 :: "u32 \<Rightarrow> u8 list \<Rightarrow> u32" where
  "tiny_crc32 crc buf =
     foldl (\<lambda>crc p. fcstab_32 ! unat ((crc XOR ucast p) AND 0xFF) XOR drop_bit 8 crc) crc buf
     XOR NOT 0"

definition fcstab_16 :: "u16 list" where
  "fcstab_16 = [
    0x0000, 0x1189, 0x2312, 0x329b, 0x4624, 0x57ad, 0x6536, 0x74bf,
    0x8c48, 0x9dc1, 0xaf5a, 0xbed3, 0xca6c, 0xdbe5, 0xe97e, 0xf8f7,
    0x1081, 0x0108, 0x3393, 0x221a, 0x56a5, 0x472c, 0x75b7, 0x643e,
    0x9cc9, 0x8d40, 0xbfdb, 0xae52, 0xdaed, 0xcb64, 0xf9ff, 0xe876,
    0x2102, 0x308b, 0x0210, 0x1399, 0x6726, 0x76af, 0x4434, 0x55bd,
    0xad4a, 0xbcc3, 0x8e58, 0x9fd1, 0xeb6e, 0xfae7, 0xc87c, 0xd9f5,
    0x3183, 0x200a, 0x1291, 0x0318, 0x77a7, 0x662e, 0x54b5, 0x453c,
    0xbdcb, 0xac42, 0x9ed9, 0x8f50, 0xfbef, 0xea66, 0xd8fd, 0xc974,
    0x4204, 0x538d, 0x6116, 0x709f, 0x0420, 0x15a9, 0x2732, 0x36bb,
    0xce4c, 0xdfc5, 0xed5e, 0xfcd7, 0x8868, 0x99e1, 0xab7a, 0xbaf3,
    0x5285, 0x430c, 0x7197, 0x601e, 0x14a1, 0x0528, 0x37b3, 0x263a,
    0xdecd, 0xcf44, 0xfddf, 0xec56, 0x98e9, 0x8960, 0xbbfb, 0xaa72,
    0x6306, 0x728f, 0x4014, 0x519d, 0x2522, 0x34ab, 0x0630, 0x17b9,
    0xef4e, 0xfec7, 0xcc5c, 0xddd5, 0xa96a, 0xb8e3, 0x8a78, 0x9bf1,
    0x7387, 0x620e, 0x5095, 0x411c, 0x35a3, 0x242a, 0x16b1, 0x0738,
    0xffcf, 0xee46, 0xdcdd, 0xcd54, 0xb9eb, 0xa862, 0x9af9, 0x8b70,
    0x8408, 0x9581, 0xa71a, 0xb693, 0xc22c, 0xd3a5, 0xe13e, 0xf0b7,
    0x0840, 0x19c9, 0x2b52, 0x3adb, 0x4e64, 0x5fed, 0x6d76, 0x7cff,
    0x9489, 0x8500, 0xb79b, 0xa612, 0xd2ad, 0xc324, 0xf1bf, 0xe036,
    0x18c1, 0x0948, 0x3bd3, 0x2a5a, 0x5ee5, 0x4f6c, 0x7df7, 0x6c7e,
    0xa50a, 0xb483, 0x8618, 0x9791, 0xe32e, 0xf2a7, 0xc03c, 0xd1b5,
    0x2942, 0x38cb, 0x0a50, 0x1bd9, 0x6f66, 0x7eef, 0x4c74, 0x5dfd,
    0xb58b, 0xa402, 0x9699, 0x8710, 0xf3af, 0xe226, 0xd0bd, 0xc134,
    0x39c3, 0x284a, 0x1ad1, 0x0b58, 0x7fe7, 0x6e6e, 0x5cf5, 0x4d7c,
    0xc60c, 0xd785, 0xe51e, 0xf497, 0x8028, 0x91a1, 0xa33a, 0xb2b3,
    0x4a44, 0x5bcd, 0x6956, 0x78df, 0x0c60, 0x1de9, 0x2f72, 0x3efb,
    0xd68d, 0xc704, 0xf59f, 0xe416, 0x90a9, 0x8120, 0xb3bb, 0xa232,
    0x5ac5, 0x4b4c, 0x79d7, 0x685e, 0x1ce1, 0x0d68, 0x3ff3, 0x2e7a,
    0xe70e, 0xf687, 0xc41c, 0xd595, 0xa12a, 0xb0a3, 0x8238, 0x93b1,
    0x6b46, 0x7acf, 0x4854, 0x59dd, 0x2d62, 0x3ceb, 0x0e70, 0x1ff9,
    0xf78f, 0xe606, 0xd49d, 0xc514, 0xb1ab, 0xa022, 0x92b9, 0x8330,
    0x7bc7, 0x6a4e, 0x58d5, 0x495c, 0x3de3, 0x2c6a, 0x1ef1, 0x0f78]"

definition crc16_byte :: "u16 \<Rightarrow> u8 \<Rightarrow> u16" where
  "crc16_byte crc d = drop_bit 8 crc XOR fcstab_16 ! unat ((crc XOR ucast d) AND 0xff)"

definition tiny_crc16 :: "u16 \<Rightarrow> u8 list \<Rightarrow> u16" where
  "tiny_crc16 crc buf =
     foldl (\<lambda>crc p. drop_bit 8 crc XOR fcstab_16 ! unat ((crc XOR ucast p) AND 0xff)) crc buf
     XOR NOT 0"

definition chksum_byte :: "u16 \<Rightarrow> u8 \<Rightarrow> u16" where
  "chksum_byte s d = s + ucast d"

text \<open>The sum is accumulated in 32 bits and folded to 16 at the end.\<close>

definition tiny_chksum :: "u16 \<Rightarrow> u8 list \<Rightarrow> u16" where
  "tiny_chksum s buf =
     (let tmp_sum = foldl (\<lambda>(t::u32) p. t + ucast p) (ucast s) buf
      in ucast (0xFFFF - (tmp_sum AND 0xFFFF)))"

definition PPPINITFCS16 :: u16 where "PPPINITFCS16 = 0xffff"
definition PPPGOODFCS16 :: u16 where "PPPGOODFCS16 = 0xf0b8"
definition PPPINITFCS32 :: u32 where "PPPINITFCS32 = 0xffffffff"
definition PPPGOODFCS32 :: u32 where "PPPGOODFCS32 = 0xdebb20e3"
definition INITCHECKSUM :: u16 where "INITCHECKSUM = 0"

subsection \<open>Division by the generator polynomial\<close>

text \<open>
  One step divides the register by the generator, least significant bit first, as the table
  generator of RFC 1662 does. The step is linear and, when the top coefficient of the generator is
  set, injective.
\<close>

definition crc_step :: "'a::len word \<Rightarrow> 'a word \<Rightarrow> 'a word" where
  "crc_step poly c = (if odd c then drop_bit 1 c XOR poly else drop_bit 1 c)"

lemma crc_step_xor: "crc_step poly (a XOR b) = crc_step poly a XOR crc_step poly b"
  by (simp add: crc_step_def bit_0[symmetric] bit_xor_iff ac_simps)

lemma crc_steps_xor: "(crc_step poly ^^ n) (a XOR b) = (crc_step poly ^^ n) a XOR (crc_step poly ^^ n) b"
  by (induction n) (simp_all add: crc_step_xor)

lemma crc_step_0 [simp]: "crc_step poly 0 = 0"
  by (simp add: crc_step_def)

lemma crc_step_eq_0:
  assumes "bit poly (LENGTH('a) - 1)" and "crc_step poly (c :: 'a::len word) = 0" shows "c = 0"
proof (cases "odd c")
  case True
  then have "bit (crc_step poly c) (LENGTH('a) - 1)"
    using assms(1) by (simp add: crc_step_def bit_xor_iff bit_drop_bit_eq bit_imp_le_length)
  then show ?thesis using assms(2) by simp
next
  case False
  then have "drop_bit 1 c = 0" using assms(2) by (simp add: crc_step_def)
  moreover have "c = push_bit 1 (drop_bit 1 c)" using False
    by (simp add: push_bit_drop_bit_1 del: push_bit_Suc One_nat_def)
  ultimately show ?thesis by simp
qed

lemma crc_steps_eq_0:
  assumes "bit poly (LENGTH('a) - 1)" shows "(crc_step poly ^^ n) (c :: 'a::len word) = 0 \<Longrightarrow> c = 0"
  by (induction n) (auto dest: crc_step_eq_0 [OF assms])

lemma crc_steps_inj:
  assumes "bit poly (LENGTH('a) - 1)" and "(crc_step poly ^^ n) (a :: 'a::len word) = (crc_step poly ^^ n) b"
  shows "a = b"
  using crc_steps_eq_0 [OF assms(1), of n "a XOR b"] assms(2)
  by (simp add: crc_steps_xor)

lemma crc_step_push:
  assumes "\<not> bit y (LENGTH('a) - 1)"
  shows "crc_step poly (push_bit 1 (y :: 'a::len word)) = y"
proof -
  have "drop_bit 1 (push_bit 1 y) = y"
  proof (rule bit_word_eqI)
    fix n assume "n < LENGTH('a)"
    then show "bit (drop_bit 1 (push_bit 1 y)) n = bit y n"
      using assms by (cases "Suc n = LENGTH('a)") (auto simp: bit_drop_bit_eq bit_push_bit_iff simp del: push_bit_Suc dest: sym)
  qed
  then show ?thesis by (simp add: crc_step_def)
qed

lemma crc_steps_push:
  assumes "n \<le> LENGTH('a)" and "\<And>k. LENGTH('a) - n \<le> k \<Longrightarrow> \<not> bit y k"
  shows "(crc_step poly ^^ n) (push_bit n (y :: 'a::len word)) = y"
  using assms
proof (induction n)
  case 0
  then show ?case by simp
next
  case (Suc n)
  have "push_bit (Suc n) y = push_bit 1 (push_bit n y)" by simp
  moreover have "\<not> bit (push_bit n y) (LENGTH('a) - 1)"
    using Suc.prems by (simp add: bit_push_bit_iff)
  ultimately have "crc_step poly (push_bit (Suc n) y) = push_bit n y"
    using crc_step_push [of "push_bit n y" poly] by simp
  then show ?case using Suc by (simp add: funpow_swap1)
qed

locale crc_register =
  fixes upd :: "'a::len word \<Rightarrow> u8 \<Rightarrow> 'a word" and poly :: "'a word"
  assumes width: "8 \<le> LENGTH('a)"
    and poly_top: "bit poly (LENGTH('a) - 1)"
    and upd_divides: "upd c d = (crc_step poly ^^ 8) (c XOR ucast d)"
begin

lemma upd_inj_register: "upd a d = upd b d \<Longrightarrow> a = b"
  unfolding upd_divides by (drule crc_steps_inj [OF poly_top]) simp

lemma fold_inj_register: "foldl upd a ds = foldl upd b ds \<Longrightarrow> a = b"
  by (induction ds arbitrary: a b) (auto dest: upd_inj_register)

lemma fold_pack:
  "8 * length ds \<le> LENGTH('a) \<Longrightarrow>
   foldl upd c ds = (crc_step poly ^^ (8 * length ds)) (c XOR pack_le ds)"
proof (induction ds arbitrary: c)
  case Nil
  then show ?case by simp
next
  case (Cons d ds)
  have "(crc_step poly ^^ 8) (push_bit 8 (pack_le ds)) = (pack_le ds :: 'a word)"
    using Cons.prems by (intro crc_steps_push) (auto dest: bit_pack_le)
  then have "upd c d XOR pack_le ds = (crc_step poly ^^ 8) (c XOR pack_le (d # ds))"
    by (simp add: upd_divides crc_steps_xor xor.assoc)
  moreover have "8 * length (d # ds) = 8 * length ds + 8" by simp
  ultimately show ?case
    using Cons by (simp only: funpow_add o_apply foldl_Cons)
qed

text \<open>A burst of at most as many bytes as the register is wide always changes the register.\<close>

lemma burst_detected:
  assumes "length ds = length es" "8 * length ds \<le> LENGTH('a)" "ds \<noteq> es"
  shows "foldl upd c (xs @ ds @ ys) \<noteq> foldl upd c (xs @ es @ ys)"
proof
  assume "foldl upd c (xs @ ds @ ys) = foldl upd c (xs @ es @ ys)"
  then have "foldl upd (foldl upd c xs) ds = foldl upd (foldl upd c xs) es"
    by (auto dest: fold_inj_register)
  then have "pack_le ds = (pack_le es :: 'a word)"
    using assms by (auto simp: fold_pack dest!: crc_steps_inj [OF poly_top])
  then show False using pack_le_inj assms by blast
qed

text \<open>Running the register over its own complement gives a constant: the \<open>good FCS\<close> value.\<close>

lemma good_residue:
  assumes "8 * length ds = LENGTH('a)" "pack_le ds = NOT c"
  shows "foldl upd c ds = (crc_step poly ^^ LENGTH('a)) (NOT 0)"
  using assms fold_pack [of ds c] by (simp add: xor.commute) 
end


lemma crc_step8_split:
  assumes "8 \<le> LENGTH('a)"
  shows "(crc_step poly ^^ 8) (x :: 'a::len word) = drop_bit 8 x XOR (crc_step poly ^^ 8) (x AND 0xff)"
proof -
  have "x = push_bit 8 (drop_bit 8 x) XOR (x AND 0xff)"
    by (rule bit_word_eqI) (auto simp: bit_simps not_less)
  moreover have "(crc_step poly ^^ 8) (push_bit 8 (drop_bit 8 x)) = drop_bit 8 x"
    using assms by (intro crc_steps_push) (auto simp: bit_drop_bit_eq dest: bit_imp_le_length)
  ultimately show ?thesis by (metis crc_steps_xor)
qed

definition crc_entry :: "'a::len word \<Rightarrow> 'a word \<Rightarrow> 'a word" where
  "crc_entry poly c = (crc_step poly ^^ 8) c"

lemma crc_entry_unfold: "crc_entry poly c =
  crc_step poly (crc_step poly (crc_step poly (crc_step poly (crc_step poly (crc_step poly (crc_step poly (crc_step poly c)))))))"
  by (simp add: crc_entry_def numeral_eq_Suc)

lemma fcstab_16_entries: "map (crc_entry 0x8408) (map word_of_nat [0..<256]) = fcstab_16"
  by (simp add: upt_rec crc_entry_unfold crc_step_def fcstab_16_def)

lemma fcstab_32_entries: "map (crc_entry 0xedb88320) (map word_of_nat [0..<256]) = fcstab_32"
  by (simp add: upt_rec crc_entry_unfold crc_step_def fcstab_32_def)

lemma fcstab_16_nth: "fcstab_16 ! unat (x AND 0xff) = crc_entry 0x8408 (x AND 0xff)"
  by (simp flip: fcstab_16_entries)

lemma fcstab_32_nth: "fcstab_32 ! unat (x AND 0xff) = crc_entry 0xedb88320 (x AND 0xff)"
  by (simp flip: fcstab_32_entries)

lemma crc16_byte_divides: "crc16_byte c d = (crc_step 0x8408 ^^ 8) (c XOR ucast d)"
  using crc_step8_split [of "0x8408 :: u16" "c XOR ucast d"]
  by (simp add: crc16_byte_def fcstab_16_nth crc_entry_def)

lemma crc32_byte_divides: "crc32_byte c d = (crc_step 0xedb88320 ^^ 8) (c XOR ucast d)"
  using crc_step8_split [of "0xedb88320 :: u32" "c XOR ucast d"]
  by (simp add: crc32_byte_def fcstab_32_nth crc_entry_def xor.commute)

interpretation crc16: crc_register crc16_byte "0x8408"
  by unfold_locales (simp_all add: crc16_byte_divides)

interpretation crc32: crc_register crc32_byte "0xedb88320"
  by unfold_locales (simp_all add: crc32_byte_divides)

lemma tiny_crc16_fold: "tiny_crc16 c ds = NOT (foldl crc16_byte c ds)"
  by (simp add: tiny_crc16_def crc16_byte_def [abs_def])

lemma tiny_crc32_fold: "tiny_crc32 c ds = NOT (foldl crc32_byte c ds)"
  by (simp add: tiny_crc32_def crc32_byte_def [abs_def])


subsection \<open>What the check sequences promise\<close>

lemma crc16_good_const: "(crc_step 0x8408 ^^ 16) (-1 :: u16) = PPPGOODFCS16"
proof -
  have "(crc_step 0x8408 ^^ (8 + 8)) (0xffff :: u16) = crc_entry 0x8408 (crc_entry 0x8408 0xffff)"
    by (simp only: crc_entry_def funpow_add o_apply)
  moreover have all_ones: "(-1 :: u16) = 0xffff" by simp
  ultimately show ?thesis
    unfolding all_ones by (simp add: crc_entry_unfold crc_step_def PPPGOODFCS16_def)
qed

lemma crc32_good_const: "(crc_step 0xedb88320 ^^ 32) (-1 :: u32) = PPPGOODFCS32"
proof -
  have "(crc_step 0xedb88320 ^^ (8 + (8 + (8 + 8)))) (0xffffffff :: u32) =
    crc_entry 0xedb88320 (crc_entry 0xedb88320 (crc_entry 0xedb88320 (crc_entry 0xedb88320 0xffffffff)))"
    by (simp only: crc_entry_def funpow_add o_apply)
  moreover have all_ones: "(-1 :: u32) = 0xffffffff" by simp
  ultimately show ?thesis
    unfolding all_ones by (simp add: crc_entry_unfold crc_step_def PPPGOODFCS32_def)
qed

lemma fold_chksum: "ucast (foldl (\<lambda>(t::u32) p. t + ucast p) s ds) = foldl chksum_byte (ucast s) ds"
  by (induction ds arbitrary: s) (simp_all add: chksum_byte_def ucast_u32_u16_add)

lemma ucast_mask_diff: "(ucast (0xFFFF - (t AND 0xFFFF) :: u32) :: u16) = NOT (ucast t)"
proof -
  have m: "(0xFFFF :: u32) = mask 16" by (simp add: mask_eq_exp_minus_1)
  have "0xFFFF - (t AND 0xFFFF) = take_bit 16 (NOT t)"
    unfolding m take_bit_eq_mask [symmetric] by (rule take_bit_not_eq_mask_diff [symmetric])
  also have "(ucast (take_bit 16 (NOT t)) :: u16) = NOT (ucast t)"
    by (rule bit_word_eqI) (auto simp: bit_simps)
  finally show ?thesis .
qed

lemma tiny_chksum_fold: "tiny_chksum s ds = NOT (foldl chksum_byte s ds)"
  using fold_chksum [of "ucast s" ds] by (simp add: tiny_chksum_def Let_def ucast_mask_diff)

lemma ucast_chksum_low: "(ucast (foldl chksum_byte s ds) :: u8) = ucast s + sum_list ds"
  by (induction ds arbitrary: s) (simp_all add: chksum_byte_def ucast_u16_u8_add add.assoc)

lemma tiny_chksum_low: "(ucast (tiny_chksum s ds) :: u8) = NOT (ucast s + sum_list ds)"
  by (simp add: tiny_chksum_fold ucast_u16_u8_not ucast_chksum_low)

text \<open>C36: the table-driven FCS-16 is the bit-wise division of the message by the generator
  polynomial x^16 + x^12 + x^5 + 1 (reflected: 0x8408) that the comment of the source names, with
  the register complemented at the end.\<close>

theorem tiny_crc16_is_division:
  "tiny_crc16 c ds = NOT (foldl (\<lambda>c d. (crc_step 0x8408 ^^ 8) (c XOR ucast d)) c ds)"
  by (simp add: tiny_crc16_fold crc16_byte_divides [abs_def])

text \<open>The table-driven FCS-32 is the bit-wise division of the message by the generator
  polynomial of RFC 1662 (reflected: 0xedb88320), with the register complemented at the end.\<close>

theorem tiny_crc32_is_division:
  "tiny_crc32 c ds = NOT (foldl (\<lambda>c d. (crc_step 0xedb88320 ^^ 8) (c XOR ucast d)) c ds)"
  by (simp add: tiny_crc32_fold crc32_byte_divides [abs_def])

text \<open>C37: FCS-16 detects every corruption confined to two adjacent bytes of the message.\<close>

theorem crc16_burst_detected:
  assumes "length ds = length es" and "length ds \<le> 2" and "ds \<noteq> es"
  shows "tiny_crc16 c (xs @ ds @ ys) \<noteq> tiny_crc16 c (xs @ es @ ys)"
  using crc16.burst_detected [of ds es] assms by (simp add: tiny_crc16_fold)

theorem crc16_burst_detected_witness:
  "tiny_crc16 PPPINITFCS16 [1, 2, 3] \<noteq> tiny_crc16 PPPINITFCS16 [1, 4, 5]"
  using crc16_burst_detected [of "[2, 3]" "[4, 5]" PPPINITFCS16 "[1]" "[]"] by simp

text \<open>FCS-32 detects every corruption confined to four adjacent bytes of the message.\<close>

theorem crc32_burst_detected:
  assumes "length ds = length es" and "length ds \<le> 4" and "ds \<noteq> es"
  shows "tiny_crc32 c (xs @ ds @ ys) \<noteq> tiny_crc32 c (xs @ es @ ys)"
  using crc32.burst_detected [of ds es] assms by (simp add: tiny_crc32_fold)

theorem crc32_burst_detected_witness:
  "tiny_crc32 PPPINITFCS32 [1, 2, 3, 4, 5] \<noteq> tiny_crc32 PPPINITFCS32 [1, 9, 3, 8, 5]"
  using crc32_burst_detected [of "[2, 3, 4]" "[9, 3, 8]" PPPINITFCS32 "[1]" "[5]"] by simp

text \<open>The low byte of the checksum, which is what a frame carries, changes with any single
  byte of the message.\<close>

theorem chksum_byte_change_detected:
  assumes "d \<noteq> e"
  shows "(ucast (tiny_chksum s (xs @ d # ys)) :: u8) \<noteq> ucast (tiny_chksum s (xs @ e # ys))"
  using assms by (simp add: tiny_chksum_low)

theorem chksum_byte_change_detected_witness:
  "(ucast (tiny_chksum INITCHECKSUM [1, 2, 3]) :: u8) \<noteq> ucast (tiny_chksum INITCHECKSUM [1, 7, 3])"
  using chksum_byte_change_detected [of 2 7 INITCHECKSUM "[1]" "[3]"] by simp

text \<open>Appending the FCS-16 of a message, low byte first, always brings the register to the
  constant \<open>PPPGOODFCS16\<close> of the header file.\<close>

theorem crc16_good_fcs:
  "foldl crc16_byte PPPINITFCS16
     (xs @ [ucast (tiny_crc16 PPPINITFCS16 xs), ucast (drop_bit 8 (tiny_crc16 PPPINITFCS16 xs))]) = PPPGOODFCS16"
proof -
  define c where "c = foldl crc16_byte PPPINITFCS16 xs"
  have "foldl crc16_byte c [ucast (NOT c), ucast (drop_bit 8 (NOT c))] = PPPGOODFCS16"
    using crc16.good_residue [of "[ucast (NOT c), ucast (drop_bit 8 (NOT c))]" c] pack_le_u16 [of "NOT c"]
    by (simp add: crc16_good_const)
  then show ?thesis by (simp add: tiny_crc16_fold c_def)
qed

text \<open>Appending the FCS-32 of a message, low byte first, always brings the register to the
  constant \<open>PPPGOODFCS32\<close> of the header file.\<close>

theorem crc32_good_fcs:
  "foldl crc32_byte PPPINITFCS32 (xs @
     (let f = tiny_crc32 PPPINITFCS32 xs
      in [ucast f, ucast (drop_bit 8 f), ucast (drop_bit 16 f), ucast (drop_bit 24 f)])) = PPPGOODFCS32"
proof -
  define c where "c = foldl crc32_byte PPPINITFCS32 xs"
  have "foldl crc32_byte c [ucast (NOT c), ucast (drop_bit 8 (NOT c)), ucast (drop_bit 16 (NOT c)), ucast (drop_bit 24 (NOT c))] = PPPGOODFCS32"
    using crc32.good_residue [of "[ucast (NOT c), ucast (drop_bit 8 (NOT c)), ucast (drop_bit 16 (NOT c)), ucast (drop_bit 24 (NOT c))]" c] pack_le_u32 [of "NOT c"]
    by (simp add: crc32_good_const)
  then show ?thesis by (simp add: tiny_crc32_fold c_def Let_def)
qed


end
