(* ===== verification/HdlcLowLevel.thy ===== *)
theory HdlcLowLevel
  imports TinyCrc
begin

unbundle bit_operations_syntax

section \<open>Low level HDLC framing: src/proto/hdlc/low_level/hdlc.c\<close>

text \<open>
  The state machine of \<open>hdlc.c\<close>, receive and transmit side, one definition per C function.
  \<^item> A pointer is an address (\<open>nat\<close>, 0 is NULL) into the flat memory \<open>mem\<close> of the record, so that
    \<open>*handle->rx.ptr = byte\<close> is an update of \<open>mem\<close> at \<open>rx_ptr\<close>, wherever that points, and
    \<open>handle->tx.data[pos]\<close> reads \<open>mem\<close> at \<open>tx_data + pos\<close>. The buffer passed to
    \<open>hdlc_ll_run_tx\<close> is the list \<open>tx_out\<close> of the bytes written to it so far and the room \<open>tx_out_len\<close>
    that is left in it.
  \<^item> \<open>user_data\<close> is the value the C pointer refers to; a callback is a function that updates it.
    \<open>on_frame_read\<close> gets the bytes of the frame, \<open>on_frame_send\<close> the address of the data and the bytes.
  \<^item> The function pointers \<open>rx.state\<close> and \<open>tx.state\<close> are the values of \<open>rx_fn\<close> and \<open>tx_fn\<close>.
  \<^item> The library is modelled with the three check sequences compiled in, as on Linux
    (\<open>hal/linux/linux_hal.h\<close>); log output is left out.
\<close>

subsection \<open>Data\<close>

definition FLAG_SEQUENCE :: u8 where "FLAG_SEQUENCE = 0x7E"
definition FILL_BYTE :: u8 where "FILL_BYTE = 0xFF"
definition TINY_ESCAPE_CHAR :: u8 where "TINY_ESCAPE_CHAR = 0x7D"
definition TINY_ESCAPE_BIT :: u8 where "TINY_ESCAPE_BIT = 0x20"

definition HDLC_LL_RESET_BOTH :: u8 where "HDLC_LL_RESET_BOTH = 0"
definition HDLC_LL_RESET_TX_ONLY :: u8 where "HDLC_LL_RESET_TX_ONLY = 1"
definition HDLC_LL_RESET_RX_ONLY :: u8 where "HDLC_LL_RESET_RX_ONLY = 2"

declare HDLC_LL_RESET_BOTH_def [ll_flags] HDLC_LL_RESET_TX_ONLY_def [ll_flags] HDLC_LL_RESET_RX_ONLY_def [ll_flags]

datatype rx_fn = Read_start | Read_data | Read_end
datatype tx_fn = Send_start | Send_data | Send_crc | Send_end

record 'u hdlc_ll =
  mem :: "nat \<Rightarrow> u8"
  on_frame_read :: "('u \<Rightarrow> u8 list \<Rightarrow> 'u) option"
  on_frame_send :: "('u \<Rightarrow> nat \<Rightarrow> u8 list \<Rightarrow> 'u) option"
  rx_buf :: nat
  rx_buf_size :: int
  crc_type :: hdlc_crc_t
  user_data :: 'u
  phys_mtu :: int
  rx_state :: rx_fn
  rx_ptr :: nat
  rx_escape :: bool
  rx_active :: nat
  tx_state :: tx_fn
  tx_out :: "u8 list"
  tx_out_len :: nat
  tx_origin :: nat
  tx_data :: nat
  tx_len :: nat
  tx_crc :: u32
  tx_escape :: bool

text \<open>The bytes that a pointer and a length denote.\<close>

definition bytes_at :: "(nat \<Rightarrow> u8) \<Rightarrow> nat \<Rightarrow> nat \<Rightarrow> u8 list" where
  "bytes_at m p n = map (\<lambda>i. m (p + i)) [0..<n]"

subsection \<open>Initialisation and reset\<close>

text \<open>Sizes and alignment of the C structures; they differ between platforms, so they are parameters.\<close>

record c_abi =
  align_struct :: nat     \<comment> \<open>\<open>TINY_ALIGN_STRUCT_VALUE\<close>, a power of two\<close>
  sizeof_hdlc_ll :: nat   \<comment> \<open>\<open>sizeof(hdlc_ll_data_t)\<close>\<close>
  sizeof_ptr :: nat       \<comment> \<open>\<open>sizeof(tiny_fd_frame_info_t *)\<close>\<close>
  sizeof_fd_data :: nat   \<comment> \<open>\<open>sizeof(tiny_fd_data_t)\<close>\<close>
  sizeof_frame_info :: nat \<comment> \<open>\<open>sizeof(tiny_fd_frame_info_t)\<close>\<close>
  offset_header :: nat    \<comment> \<open>\<open>offsetof(tiny_fd_frame_info_t, header)\<close>\<close>
  sizeof_peer_info :: nat \<comment> \<open>\<open>sizeof(tiny_fd_peer_info_t)\<close>\<close>

text \<open>\<open>(p + A - 1) & ~(A - 1)\<close> for a power of two \<open>A\<close>.\<close>

definition align_up :: "nat \<Rightarrow> nat \<Rightarrow> nat" where
  "align_up A p = (p + A - 1) div A * A"

record 'u hdlc_ll_init_t =
  init_on_frame_read :: "('u \<Rightarrow> u8 list \<Rightarrow> 'u) option"
  init_on_frame_send :: "('u \<Rightarrow> nat \<Rightarrow> u8 list \<Rightarrow> 'u) option"
  init_buf :: nat
  init_buf_size :: int
  init_crc_type :: hdlc_crc_t
  init_user_data :: 'u
  init_mtu :: int

definition hdlc_ll_reset :: "'u hdlc_ll \<Rightarrow> u8 \<Rightarrow> 'u hdlc_ll" where
  "hdlc_ll_reset h flags =
     (let h = (if flags \<noteq> HDLC_LL_RESET_TX_ONLY then h\<lparr>rx_state := Read_start\<rparr> else h)
      in if flags \<noteq> HDLC_LL_RESET_RX_ONLY
         then h\<lparr>tx_data := 0, tx_origin := 0, tx_escape := False, tx_state := Send_start\<rparr>
         else h)"

text \<open>
  The structure lives at the aligned start of the buffer and the receive buffer follows it. The
  argument \<open>h0\<close> is what the memory of the structure held before: the fields that \<open>hdlc_ll_init\<close>
  does not assign keep it.
\<close>

definition hdlc_ll_init :: "c_abi \<Rightarrow> 'u hdlc_ll_init_t \<Rightarrow> 'u hdlc_ll \<Rightarrow> int + 'u hdlc_ll" where
  "hdlc_ll_init abi init h0 =
     (if init_buf init = 0 then Inl TINY_ERR_INVALID_DATA
      else
        let aligned_buf = align_up (align_struct abi) (init_buf init);
            offset = aligned_buf - init_buf init;
            buf_size = init_buf_size init - int offset
        in if buf_size < int (sizeof_hdlc_ll abi) then Inl TINY_ERR_OUT_OF_MEMORY
           else
             let h = h0\<lparr>rx_buf := aligned_buf + sizeof_hdlc_ll abi,
                        rx_buf_size := buf_size - int (sizeof_hdlc_ll abi),
                        crc_type := (if init_crc_type init = HDLC_CRC_OFF then HDLC_CRC_DEFAULT
                                     else init_crc_type init),
                        on_frame_read := init_on_frame_read init,
                        on_frame_send := init_on_frame_send init,
                        user_data := init_user_data init\<rparr>;
                 h = h\<lparr>phys_mtu := (if init_mtu init \<noteq> 0
                                      then init_mtu init + get_crc_field_size (crc_type h)
                                      else rx_buf_size h),
                       rx_active := rx_buf h\<rparr>
             in Inr (hdlc_ll_reset h HDLC_LL_RESET_BOTH))"

text \<open>\<open>hdlc_ll_close\<close> hands a frame that is still being sent back to the application.\<close>

definition hdlc_ll_close :: "'u hdlc_ll \<Rightarrow> int \<times> 'u hdlc_ll" where
  "hdlc_ll_close h =
     (if tx_data h \<noteq> 0 then
        (case on_frame_send h of
           None \<Rightarrow> (TINY_SUCCESS, h)
         | Some f \<Rightarrow> (TINY_SUCCESS, h\<lparr>user_data := f (user_data h) (tx_origin h)
             (bytes_at (mem h) (tx_origin h) (tx_data h - tx_origin h + tx_len h))\<rparr>))
      else (TINY_SUCCESS, h))"

definition hdlc_ll_get_buf_size :: "c_abi \<Rightarrow> int \<Rightarrow> int" where
  "hdlc_ll_get_buf_size abi mtu =
     get_crc_field_size HDLC_CRC_32 + int (sizeof_hdlc_ll abi) + mtu + int (align_struct abi) - 1"

definition hdlc_ll_get_buf_size_ex :: "c_abi \<Rightarrow> int \<Rightarrow> hdlc_crc_t \<Rightarrow> int \<Rightarrow> int" where
  "hdlc_ll_get_buf_size_ex abi mtu crc rx_window =
     (get_crc_field_size crc + mtu) * rx_window + int (sizeof_hdlc_ll abi) + int (align_struct abi) - 1"

subsection \<open>Transmit\<close>

text \<open>Copies bytes to the output buffer while there is room; returns the number copied.\<close>

fun hdlc_ll_send_tx_internal :: "'u hdlc_ll \<Rightarrow> u8 list \<Rightarrow> int \<times> 'u hdlc_ll" where
  "hdlc_ll_send_tx_internal h [] = (0, h)"
| "hdlc_ll_send_tx_internal h (b # bs) =
     (if tx_out_len h = 0 then (0, h)
      else let (sent, h) = hdlc_ll_send_tx_internal
                 (h\<lparr>tx_out := tx_out h @ [b], tx_out_len := tx_out_len h - 1\<rparr>) bs
           in (sent + 1, h))"

definition hdlc_ll_send_start :: "'u hdlc_ll \<Rightarrow> int \<times> 'u hdlc_ll" where
  "hdlc_ll_send_start h =
     (if tx_origin h = 0 then (0, h)
      else
        let data = bytes_at (mem h) (tx_data h) (tx_len h);
            h = (case crc_type h of
                   HDLC_CRC_16 \<Rightarrow> h\<lparr>tx_crc := ucast (tiny_crc16 PPPINITFCS16 data)\<rparr>
                 | HDLC_CRC_32 \<Rightarrow> h\<lparr>tx_crc := tiny_crc32 PPPINITFCS32 data\<rparr>
                 | HDLC_CRC_8 \<Rightarrow> h\<lparr>tx_crc := ucast (tiny_chksum INITCHECKSUM data)\<rparr>
                 | _ \<Rightarrow> h);
            (result, h) = hdlc_ll_send_tx_internal h [FLAG_SEQUENCE]
        in if result = 1 then (result, h\<lparr>tx_state := Send_data, tx_escape := False\<rparr>)
           else (result, h))"

text \<open>The scan for the next byte to be escaped; it looks at the byte before it looks at the length.\<close>

function scan_plain :: "(nat \<Rightarrow> u8) \<Rightarrow> nat \<Rightarrow> nat \<Rightarrow> nat \<Rightarrow> nat" where
  "scan_plain m data len pos =
     (if m (data + pos) \<noteq> FLAG_SEQUENCE \<and> m (data + pos) \<noteq> TINY_ESCAPE_CHAR \<and> pos < len
      then scan_plain m data len (pos + 1) else pos)"
  by pat_completeness auto
termination
  by (relation "measure (\<lambda>(m, data, len, pos). len - pos)") auto

declare scan_plain.simps [simp del]

definition hdlc_ll_send_data :: "'u hdlc_ll \<Rightarrow> int \<times> 'u hdlc_ll" where
  "hdlc_ll_send_data h =
     (let pos = scan_plain (mem h) (tx_data h) (tx_len h) 0;
          (result, h) =
            (if pos \<noteq> 0 then
               let (result, h) = hdlc_ll_send_tx_internal h (bytes_at (mem h) (tx_data h) pos)
               in if result > 0
                  then (result, h\<lparr>tx_data := tx_data h + nat result, tx_len := tx_len h - nat result\<rparr>)
                  else (result, h)
             else
               let b = (if tx_escape h then mem h (tx_data h) XOR TINY_ESCAPE_BIT else TINY_ESCAPE_CHAR);
                   (result, h) = hdlc_ll_send_tx_internal h [b]
               in if result > 0 then
                    let h = h\<lparr>tx_escape := \<not> tx_escape h\<rparr>
                    in if \<not> tx_escape h
                       then (result, h\<lparr>tx_data := tx_data h + 1, tx_len := tx_len h - 1\<rparr>)
                       else (result, h)
                  else (result, h))
      in if tx_len h = 0 then (result, h\<lparr>tx_state := Send_crc\<rparr>) else (result, h))"

text \<open>Here \<open>tx_len\<close> counts the bits of the check sequence that have been sent.\<close>

definition hdlc_ll_send_crc :: "'u hdlc_ll \<Rightarrow> int \<times> 'u hdlc_ll" where
  "hdlc_ll_send_crc h =
     (if int (tx_len h) = hdlc_crc_val (crc_type h) then (1, h\<lparr>tx_state := Send_end\<rparr>)
      else
        let byte = ucast (drop_bit (tx_len h) (tx_crc h)) :: u8
        in if byte \<noteq> TINY_ESCAPE_CHAR \<and> byte \<noteq> FLAG_SEQUENCE then
             let (result, h) = hdlc_ll_send_tx_internal h [byte]
             in if result = 1 then (result, h\<lparr>tx_len := tx_len h + 8\<rparr>) else (result, h)
           else
             let byte = (if tx_escape h then byte XOR TINY_ESCAPE_BIT else TINY_ESCAPE_CHAR);
                 (result, h) = hdlc_ll_send_tx_internal h [byte]
             in if result = 1 then
                  let h = h\<lparr>tx_escape := \<not> tx_escape h\<rparr>
                  in if \<not> tx_escape h then (result, h\<lparr>tx_len := tx_len h + 8\<rparr>) else (result, h)
                else (result, h))"

definition hdlc_ll_send_end :: "'u hdlc_ll \<Rightarrow> int \<times> 'u hdlc_ll" where
  "hdlc_ll_send_end h =
     (let (result, h) = hdlc_ll_send_tx_internal h [FLAG_SEQUENCE]
      in if result = 1 then
           let h = h\<lparr>tx_state := Send_start, tx_escape := False\<rparr>;
               len = tx_data h - tx_origin h;
               ptr = tx_origin h;
               h = h\<lparr>tx_origin := 0, tx_data := 0\<rparr>
           in (case on_frame_send h of
                 None \<Rightarrow> (result, h)
               | Some f \<Rightarrow> (result, h\<lparr>user_data := f (user_data h) ptr (bytes_at (mem h) ptr len)\<rparr>))
         else (result, h))"

definition tx_dispatch :: "'u hdlc_ll \<Rightarrow> int \<times> 'u hdlc_ll" where
  "tx_dispatch h =
     (case tx_state h of
        Send_start \<Rightarrow> hdlc_ll_send_start h
      | Send_data \<Rightarrow> hdlc_ll_send_data h
      | Send_crc \<Rightarrow> hdlc_ll_send_crc h
      | Send_end \<Rightarrow> hdlc_ll_send_end h)"

subsubsection \<open>Progress of the transmit states\<close>

lemma send_internal_eq: "hdlc_ll_send_tx_internal h bs =
   (int (min (length bs) (tx_out_len h)),
    h\<lparr>tx_out := tx_out h @ take (min (length bs) (tx_out_len h)) bs,
      tx_out_len := tx_out_len h - min (length bs) (tx_out_len h)\<rparr>)"
proof (induction bs arbitrary: h)
  case Nil
  then show ?case by simp
next
  case (Cons b bs)
  then show ?case by (cases "tx_out_len h") simp_all
qed

lemma send_internal_one: "tx_out_len h \<noteq> 0 \<Longrightarrow> hdlc_ll_send_tx_internal h [b] =
   (1, h\<lparr>tx_out := tx_out h @ [b], tx_out_len := tx_out_len h - 1\<rparr>)"
  by simp

lemma scan_plain_le: "pos \<le> len \<Longrightarrow> scan_plain m p len pos \<le> len"
proof (induction m p len pos rule: scan_plain.induct)
  case (1 m data len pos)
  then show ?case by (subst scan_plain.simps) auto
qed

text \<open>
  With room in the output buffer, a state function emits at least one byte, or moves from the check
  sequence to the closing flag, or has nothing to send and leaves the state alone.
\<close>

lemma hdlc_ll_send_data_progress:
  assumes "tx_out_len h \<noteq> 0" "hdlc_ll_send_data h = (r, h')"
  shows "0 < r \<and> tx_out_len h' < tx_out_len h"
  using assms scan_plain_le [of 0 "tx_len h" "mem h" "tx_data h"]
  by (auto simp: hdlc_ll_send_data_def Let_def send_internal_eq bytes_at_def min_def split: if_splits)

lemma tx_dispatch_progress:
  assumes "tx_out_len h \<noteq> 0" "tx_dispatch h = (r, h')"
  shows "0 < r \<and> tx_out_len h' < tx_out_len h
       \<or> 0 < r \<and> tx_out_len h' = tx_out_len h \<and> tx_state h = Send_crc \<and> tx_state h' = Send_end
       \<or> r = 0 \<and> h' = h"
proof (cases "tx_state h")
  case Send_start
  then show ?thesis using assms
    by (auto simp: tx_dispatch_def hdlc_ll_send_start_def Let_def send_internal_eq split: if_splits hdlc_crc_t.splits)
next
  case Send_data
  then show ?thesis using assms hdlc_ll_send_data_progress [of h r h'] by (simp add: tx_dispatch_def)
next
  case Send_crc
  then show ?thesis using assms
    by (auto simp: tx_dispatch_def hdlc_ll_send_crc_def Let_def send_internal_eq split: if_splits)
next
  case Send_end
  then show ?thesis using assms
    by (auto simp: tx_dispatch_def hdlc_ll_send_end_def Let_def send_internal_eq split: if_splits option.splits)
qed

subsubsection \<open>The transmit loop\<close>

text \<open>\<open>rep\<close> is \<open>repeated_empty_data\<close>.\<close>

function run_tx_loop :: "'u hdlc_ll \<Rightarrow> bool \<Rightarrow> 'u hdlc_ll" where
  "run_tx_loop h rep =
     (if tx_out_len h = 0 then h
      else case tx_dispatch h of (result, h') \<Rightarrow>
             if result < 0 then h'
             else if result = 0 then (if rep then h' else run_tx_loop h' True)
             else run_tx_loop h' False)"
  by pat_completeness auto
termination
proof (relation "measure (\<lambda>(h, rep). 4 * tx_out_len h + (if tx_state h = Send_crc then 2 else 0) + (if rep then 0 else 1))", goal_cases)
  case 1
  show ?case by simp
next
  case (2 h rep result h')
  then show ?case using tx_dispatch_progress [of h result h'] by auto
next
  case (3 h rep result h')
  then show ?case using tx_dispatch_progress [of h result h'] by auto
qed

declare run_tx_loop.simps [simp del]

definition hdlc_ll_run_tx :: "'u hdlc_ll \<Rightarrow> nat \<Rightarrow> int \<times> 'u hdlc_ll" where
  "hdlc_ll_run_tx h len =
     (let h = run_tx_loop (h\<lparr>tx_out := [], tx_out_len := len\<rparr>) False
      in (int len - int (tx_out_len h), h))"

definition hdlc_ll_put_frame :: "'u hdlc_ll \<Rightarrow> nat \<Rightarrow> nat \<Rightarrow> int \<times> 'u hdlc_ll" where
  "hdlc_ll_put_frame h data len =
     (if tx_origin h \<noteq> 0 then (TINY_ERR_BUSY, h)
      else if len = 0 \<or> data = 0 then (TINY_SUCCESS, h)
      else (TINY_SUCCESS, h\<lparr>tx_origin := data, tx_data := data, tx_len := len\<rparr>))"

definition hdlc_ll_put :: "'u hdlc_ll \<Rightarrow> nat \<Rightarrow> nat \<Rightarrow> int \<times> 'u hdlc_ll" where
  "hdlc_ll_put h data len = hdlc_ll_put_frame h data len"

subsection \<open>Receive\<close>

definition hdlc_ll_read_start :: "'u hdlc_ll \<Rightarrow> u8 list \<Rightarrow> int \<times> 'u hdlc_ll" where
  "hdlc_ll_read_start h data =
     (case data of
        [] \<Rightarrow> (0, h)
      | b # _ \<Rightarrow> if b \<noteq> FLAG_SEQUENCE then (1, h)
                 else (1, h\<lparr>rx_escape := False, rx_ptr := rx_active h, rx_state := Read_data\<rparr>))"

text \<open>What \<open>hdlc_ll_read_data\<close> does with one byte other than the flag.\<close>

definition read_data_byte :: "'u hdlc_ll \<Rightarrow> u8 \<Rightarrow> 'u hdlc_ll" where
  "read_data_byte h b =
     (if b = TINY_ESCAPE_CHAR then h\<lparr>rx_escape := True\<rparr>
      else if int (rx_ptr h) - int (rx_active h) < phys_mtu h then
        let h = (if rx_escape h
                 then h\<lparr>mem := (mem h)(rx_ptr h := b XOR TINY_ESCAPE_BIT), rx_escape := False\<rparr>
                 else h\<lparr>mem := (mem h)(rx_ptr h := b)\<rparr>)
        in h\<lparr>rx_ptr := rx_ptr h + 1\<rparr>
      else h)"

fun hdlc_ll_read_data :: "'u hdlc_ll \<Rightarrow> u8 list \<Rightarrow> int \<times> 'u hdlc_ll" where
  "hdlc_ll_read_data h [] = (0, h)"
| "hdlc_ll_read_data h (b # bs) =
     (if b = FLAG_SEQUENCE then (1, h\<lparr>rx_state := Read_end\<rparr>)
      else let (result, h) = hdlc_ll_read_data (read_data_byte h b) bs in (result + 1, h))"

text \<open>\<open>(calc_crc, read_crc)\<close> of \<open>hdlc_ll_read_end\<close> for the \<open>len\<close> bytes of the frame buffer.\<close>

definition frame_crcs :: "hdlc_crc_t \<Rightarrow> u8 list \<Rightarrow> u32 \<times> u32" where
  "frame_crcs crc frame =
     (let len = length frame
      in case crc of
           HDLC_CRC_8 \<Rightarrow>
             (ucast (tiny_chksum INITCHECKSUM (take (len - 1) frame)) AND 0xFF, ucast (frame ! (len - 1)))
         | HDLC_CRC_16 \<Rightarrow>
             (ucast (tiny_crc16 PPPINITFCS16 (take (len - 2) frame)),
              ucast (frame ! (len - 2)) OR push_bit 8 (ucast (frame ! (len - 1))))
         | HDLC_CRC_32 \<Rightarrow>
             (tiny_crc32 PPPINITFCS32 (take (len - 4) frame),
              ucast (frame ! (len - 4)) OR push_bit 8 (ucast (frame ! (len - 3)))
                OR push_bit 16 (ucast (frame ! (len - 2))) OR push_bit 24 (ucast (frame ! (len - 1))))
         | _ \<Rightarrow> (0, 0))"

definition hdlc_ll_read_end :: "'u hdlc_ll \<Rightarrow> int \<times> 'u hdlc_ll" where
  "hdlc_ll_read_end h =
     (if rx_ptr h = rx_active h then (0, h\<lparr>rx_escape := False, rx_state := Read_data\<rparr>)
      else
        let h = h\<lparr>rx_state := Read_start\<rparr>;
            len = int (rx_ptr h) - int (rx_active h)
        in if len > phys_mtu h then (TINY_ERR_DATA_TOO_LARGE, h)
           else if len < hdlc_crc_val (crc_type h) div 8 then (TINY_ERR_WRONG_CRC, h)
           else
             let (calc_crc, read_crc) = frame_crcs (crc_type h) (bytes_at (mem h) (rx_active h) (nat len))
             in if calc_crc \<noteq> read_crc then (TINY_ERR_WRONG_CRC, h)
                else
                  let len = len - hdlc_crc_val (crc_type h) div 8;
                      h = (case on_frame_read h of
                             None \<Rightarrow> h
                           | Some f \<Rightarrow> h\<lparr>user_data :=
                               f (user_data h) (bytes_at (mem h) (rx_active h) (nat len))\<rparr>);
                      h = h\<lparr>rx_active := nat (int (rx_active h) + phys_mtu h)\<rparr>;
                      h = (if int (rx_active h) - int (rx_buf h) + phys_mtu h > rx_buf_size h
                           then h\<lparr>rx_active := rx_buf h\<rparr> else h)
                  in (TINY_SUCCESS, h))"

definition rx_dispatch :: "'u hdlc_ll \<Rightarrow> u8 list \<Rightarrow> int \<times> 'u hdlc_ll" where
  "rx_dispatch h data =
     (case rx_state h of
        Read_start \<Rightarrow> hdlc_ll_read_start h data
      | Read_data \<Rightarrow> hdlc_ll_read_data h data
      | Read_end \<Rightarrow> hdlc_ll_read_end h)"

lemma hdlc_ll_read_data_result: "hdlc_ll_read_data h data = (r, h') \<Longrightarrow> data \<noteq> [] \<Longrightarrow> 0 < r"
proof (induction h data arbitrary: r h' rule: hdlc_ll_read_data.induct)
  case (2 h b bs)
  show ?case
  proof (cases "bs = []")
    case True
    then show ?thesis using "2.prems" by (auto split: if_splits)
  next
    case False
    then show ?thesis using "2.prems" "2.IH" by (fastforce split: if_splits prod.splits)
  qed
qed simp

lemma rx_dispatch_progress:
  "rx_dispatch h data = (r, h') \<Longrightarrow> 0 < r \<Longrightarrow> data \<noteq> []"
  by (cases "rx_state h")
     (auto simp: rx_dispatch_def hdlc_ll_read_start_def hdlc_ll_read_end_def Let_def
           split: list.splits if_splits prod.splits)

text \<open>The loop of \<open>hdlc_ll_run_rx\<close>: bytes processed so far, error so far.\<close>

function run_rx_loop :: "'u hdlc_ll \<Rightarrow> u8 list \<Rightarrow> int \<Rightarrow> int \<Rightarrow> int \<times> int \<times> 'u hdlc_ll" where
  "run_rx_loop h data result error =
     (if data \<noteq> [] \<or> rx_state h = Read_end then
        case rx_dispatch h data of (temp_result, h') \<Rightarrow>
          if temp_result \<le> 0 then (result, temp_result, h')
          else run_rx_loop h' (drop (nat temp_result) data) (result + temp_result) error
      else (result, error, h))"
  by pat_completeness auto
termination
proof (relation "measure (\<lambda>(h, data, result, error). length data)", goal_cases)
  case 1
  show ?case by simp
next
  case (2 h data result error r h')
  then show ?case using rx_dispatch_progress [of h data r h'] by (cases data) auto
qed

declare run_rx_loop.simps [simp del]

text \<open>Returns the number of processed bytes and the value stored through \<open>error\<close>.\<close>

definition hdlc_ll_run_rx :: "'u hdlc_ll \<Rightarrow> u8 list \<Rightarrow> int \<times> int \<times> 'u hdlc_ll" where
  "hdlc_ll_run_rx h data = run_rx_loop h data 0 TINY_SUCCESS"

end
