(* ===== verification/FdFramesQueue.thy ===== *)
theory FdFramesQueue
  imports HdlcLowLevel
begin

unbundle bit_operations_syntax

section \<open>The frame queues: src/proto/fd/tiny_fd_frames_queue.c\<close>

text \<open>
  A queue is a fixed table of frame slots and the index where the next lookup starts. The slots are
  records; a pointer to a slot is its index in the table, and the address of its header (which the
  low level hands back when the frame is sent) is the field \<open>f_header\<close>. \<open>f_payload\<close> is the whole
  payload area of the slot, of which the first \<open>f_len\<close> bytes are in use.
\<close>

subsection \<open>Data and operations\<close>

definition TINY_FD_QUEUE_FREE :: u8 where "TINY_FD_QUEUE_FREE = 0x01"
definition TINY_FD_QUEUE_U_FRAME :: u8 where "TINY_FD_QUEUE_U_FRAME = 0x02"
definition TINY_FD_QUEUE_S_FRAME :: u8 where "TINY_FD_QUEUE_S_FRAME = 0x04"
definition TINY_FD_QUEUE_I_FRAME :: u8 where "TINY_FD_QUEUE_I_FRAME = 0x08"

lemmas queue_type_defs = TINY_FD_QUEUE_FREE_def TINY_FD_QUEUE_U_FRAME_def
  TINY_FD_QUEUE_S_FRAME_def TINY_FD_QUEUE_I_FRAME_def

record tiny_fd_frame_info =
  f_type :: u8
  f_len :: nat
  f_address :: u8
  f_control :: u8
  f_payload :: "u8 list"
  f_header :: nat

record tiny_fd_queue =
  q_frames :: "tiny_fd_frame_info list"
  q_lookup_index :: nat
  q_mtu :: int

abbreviation q_size :: "tiny_fd_queue \<Rightarrow> nat" where
  "q_size q \<equiv> length (q_frames q)"

definition tiny_fd_queue_reset :: "tiny_fd_queue \<Rightarrow> tiny_fd_queue" where
  "tiny_fd_queue_reset q =
     q\<lparr>q_frames := map (\<lambda>f. f\<lparr>f_type := TINY_FD_QUEUE_FREE\<rparr>) (q_frames q), q_lookup_index := 0\<rparr>"

text \<open>
  \<open>tiny_fd_queue_init\<close>: the table of pointers, then the slots. The buffer is at address \<open>buffer\<close>; the
  memory was zeroed by the caller. Returns the error, or the bytes used and the queue.
\<close>

definition tiny_fd_queue_init :: "c_abi \<Rightarrow> nat \<Rightarrow> int \<Rightarrow> nat \<Rightarrow> nat \<Rightarrow> int + (nat \<times> tiny_fd_queue)" where
  "tiny_fd_queue_init abi buffer max_size max_frames mtu =
     (let slot = mtu + sizeof_frame_info abi - 2;
          first = buffer + sizeof_ptr abi * max_frames;
          ptr = first + slot * max_frames
      in if int ptr > int buffer + max_size then Inl TINY_ERR_INVALID_DATA
         else Inr (ptr - buffer,
           tiny_fd_queue_reset
             \<lparr>q_frames = map (\<lambda>i. \<lparr>f_type = 0, f_len = 0, f_address = 0, f_control = 0,
                f_payload = replicate mtu 0, f_header = first + slot * i + offset_header abi\<rparr>) [0..<max_frames],
              q_lookup_index = 0, q_mtu = int mtu\<rparr>))"

definition same_address :: "u8 \<Rightarrow> u8 \<Rightarrow> bool" where
  "same_address a b \<longleftrightarrow> a AND 0xFC = b AND 0xFC"

definition tiny_fd_queue_reset_for :: "tiny_fd_queue \<Rightarrow> u8 \<Rightarrow> tiny_fd_queue" where
  "tiny_fd_queue_reset_for q address =
     q\<lparr>q_frames := map (\<lambda>f. if same_address (f_address f) address
                           then f\<lparr>f_type := TINY_FD_QUEUE_FREE\<rparr> else f) (q_frames q)\<rparr>"

text \<open>The test on one slot in \<open>tiny_fd_queue_get_next\<close>.\<close>

definition frame_matches :: "u8 \<Rightarrow> u8 \<Rightarrow> u8 \<Rightarrow> tiny_fd_frame_info \<Rightarrow> bool" where
  "frame_matches type address arg f \<longleftrightarrow>
     f_type f AND type \<noteq> 0 \<and>
     (if f_type f = TINY_FD_QUEUE_FREE then True
      else same_address address (f_address f) \<and>
        (if f_type f \<noteq> TINY_FD_QUEUE_I_FRAME then True
         else (drop_bit 1 (f_control f)) AND 0x07 = arg))"

fun queue_find :: "tiny_fd_frame_info list \<Rightarrow> (tiny_fd_frame_info \<Rightarrow> bool) \<Rightarrow> nat \<Rightarrow> nat \<Rightarrow> nat option" where
  "queue_find fs P index 0 = None"
| "queue_find fs P index (Suc n) =
     (if P (fs ! index) then Some index
      else queue_find fs P (if index + 1 \<ge> length fs then index + 1 - length fs else index + 1) n)"

definition tiny_fd_queue_get_next :: "tiny_fd_queue \<Rightarrow> u8 \<Rightarrow> u8 \<Rightarrow> u8 \<Rightarrow> nat option" where
  "tiny_fd_queue_get_next q type address arg =
     queue_find (q_frames q) (frame_matches type address arg) (q_lookup_index q) (q_size q)"

text \<open>\<open>memcpy\<close> to the start of the payload area.\<close>

definition put_payload :: "u8 list \<Rightarrow> tiny_fd_frame_info \<Rightarrow> tiny_fd_frame_info" where
  "put_payload data f = f\<lparr>f_payload := data @ drop (length data) (f_payload f), f_len := length data\<rparr>"

definition tiny_fd_queue_allocate :: "tiny_fd_queue \<Rightarrow> u8 \<Rightarrow> u8 list \<Rightarrow> nat option \<times> tiny_fd_queue" where
  "tiny_fd_queue_allocate q type data =
     (case (if int (length data) \<le> q_mtu q then tiny_fd_queue_get_next q TINY_FD_QUEUE_FREE 0 0 else None) of
        None \<Rightarrow> (None, q)
      | Some i \<Rightarrow> (Some i, q\<lparr>q_frames := (q_frames q)[i := (put_payload data (q_frames q ! i))\<lparr>f_type := type\<rparr>]\<rparr>))"

fun header_index :: "tiny_fd_frame_info list \<Rightarrow> nat \<Rightarrow> nat \<Rightarrow> nat option" where
  "header_index [] header i = None"
| "header_index (f # fs) header i = (if f_header f = header then Some i else header_index fs header (i + 1))"

definition tiny_fd_queue_free_by_header :: "tiny_fd_queue \<Rightarrow> nat \<Rightarrow> tiny_fd_queue" where
  "tiny_fd_queue_free_by_header q header =
     (case header_index (q_frames q) header 0 of
        None \<Rightarrow> q
      | Some i \<Rightarrow> q\<lparr>q_frames := (q_frames q)[i := (q_frames q ! i)\<lparr>f_type := TINY_FD_QUEUE_FREE\<rparr>],
                   q_lookup_index := (if i + 1 \<ge> q_size q then i + 1 - q_size q else i + 1)\<rparr>)"

definition tiny_fd_queue_free :: "tiny_fd_queue \<Rightarrow> nat \<Rightarrow> tiny_fd_queue" where
  "tiny_fd_queue_free q i = tiny_fd_queue_free_by_header q (f_header (q_frames q ! i))"

definition tiny_fd_queue_get_mtu :: "tiny_fd_queue \<Rightarrow> int" where
  "tiny_fd_queue_get_mtu q = q_mtu q"

definition tiny_fd_queue_has_free_slots :: "tiny_fd_queue \<Rightarrow> bool" where
  "tiny_fd_queue_has_free_slots q \<longleftrightarrow> tiny_fd_queue_get_next q TINY_FD_QUEUE_FREE 0 0 \<noteq> None"

subsection \<open>The invariant\<close>

definition slot_wf :: "int \<Rightarrow> tiny_fd_frame_info \<Rightarrow> bool" where
  "slot_wf mtu f \<longleftrightarrow> f_type f \<in> {TINY_FD_QUEUE_FREE, TINY_FD_QUEUE_U_FRAME, TINY_FD_QUEUE_S_FRAME, TINY_FD_QUEUE_I_FRAME}
     \<and> int (length (f_payload f)) = mtu \<and> int (f_len f) \<le> mtu"

definition queue_wf :: "tiny_fd_queue \<Rightarrow> bool" where
  "queue_wf q \<longleftrightarrow> q_lookup_index q < q_size q \<and> (\<forall>f \<in> set (q_frames q). slot_wf (q_mtu q) f)
     \<and> distinct (map f_header (q_frames q))"

subsection \<open>Lookup\<close>

text \<open>The lookup visits every slot once, from the lookup index around the table.\<close>

lemma queue_find_eq:
  assumes "index < length fs"
  shows "queue_find fs P index n = find (\<lambda>i. P (fs ! i)) (map (\<lambda>k. (index + k) mod length fs) [0..<n])"
  using assms
proof (induction n arbitrary: index)
  case 0
  then show ?case by simp
next
  case (Suc n)
  define next_i where "next_i = (if index + 1 \<ge> length fs then index + 1 - length fs else index + 1)"
  have n: "next_i < length fs" "next_i = (index + 1) mod length fs"
    using Suc.prems by (auto simp: next_i_def mod_if)
  have "(next_i + k) mod length fs = (index + Suc k) mod length fs" for k
    by (simp add: n(2) mod_simps)
  then have "map (\<lambda>k. (next_i + k) mod length fs) [0..<n] = map (\<lambda>k. (index + k) mod length fs) [1..<Suc n]"
    by (simp add: map_Suc_upt [symmetric] del: upt_Suc)
  moreover have "queue_find fs P index (Suc n) = (if P (fs ! index) then Some index else queue_find fs P next_i n)"
    by (simp add: next_i_def)
  ultimately show ?case using Suc.IH [OF n(1)] Suc.prems
    by (simp add: upt_conv_Cons [of 0] del: upt_Suc queue_find.simps)
qed

lemma queue_find_Some:
  assumes "queue_find fs P index n = Some i" "index < length fs"
  shows "i < length fs \<and> P (fs ! i)"
proof -
  obtain k where "i = (index + k) mod length fs" "P (fs ! i)"
    using assms by (auto simp: queue_find_eq find_Some_iff)
  moreover have "0 < length fs" using assms(2) by linarith
  ultimately show ?thesis by simp
qed

lemma queue_find_None:
  assumes "index < length fs"
  shows "queue_find fs P index (length fs) = None \<longleftrightarrow> (\<forall>f \<in> set fs. \<not> P f)"
proof -
  have "(\<lambda>k. (index + k) mod length fs) ` {0..<length fs} = {0..<length fs}"
  proof
    have "0 < length fs" using assms by linarith
    then show "(\<lambda>k. (index + k) mod length fs) ` {0..<length fs} \<subseteq> {0..<length fs}"
      by auto
    have "i \<in> (\<lambda>k. (index + k) mod length fs) ` {0..<length fs}" if "i < length fs" for i
    proof (cases "index \<le> i")
      case True
      then show ?thesis using that by (intro image_eqI [of _ _ "i - index"]) auto
    next
      case False
      then have "(index + (i + length fs - index)) mod length fs = i" using that assms by simp
      then show ?thesis using that assms False by (intro image_eqI [of _ _ "i + length fs - index"]) auto
    qed
    then show "{0..<length fs} \<subseteq> (\<lambda>k. (index + k) mod length fs) ` {0..<length fs}" by auto
  qed
  then have "(\<forall>k \<in> {0..<length fs}. \<not> P (fs ! ((index + k) mod length fs))) \<longleftrightarrow> (\<forall>i \<in> {0..<length fs}. \<not> P (fs ! i))"
    by (metis (mono_tags, lifting) image_iff)
  then show ?thesis using assms by (simp add: queue_find_eq find_None_iff all_set_conv_all_nth atLeastLessThan_def lessThan_def)
qed

lemma get_next_Some:
  "queue_wf q \<Longrightarrow> tiny_fd_queue_get_next q type address arg = Some i \<Longrightarrow>
   i < q_size q \<and> frame_matches type address arg (q_frames q ! i)"
  unfolding tiny_fd_queue_get_next_def queue_wf_def using queue_find_Some by blast

lemma get_next_None:
  "queue_wf q \<Longrightarrow> tiny_fd_queue_get_next q type address arg = None \<longleftrightarrow>
   (\<forall>f \<in> set (q_frames q). \<not> frame_matches type address arg f)"
  unfolding tiny_fd_queue_get_next_def queue_wf_def using queue_find_None by blast

lemma matches_free [simp]:
  "slot_wf mtu f \<Longrightarrow> frame_matches TINY_FD_QUEUE_FREE a n f \<longleftrightarrow> f_type f = TINY_FD_QUEUE_FREE"
  by (auto simp: frame_matches_def slot_wf_def queue_type_defs)

lemma queue_matches_free:
  "queue_wf q \<Longrightarrow> f \<in> set (q_frames q) \<Longrightarrow> frame_matches TINY_FD_QUEUE_FREE a n f \<longleftrightarrow> f_type f = TINY_FD_QUEUE_FREE"
  using matches_free by (auto simp: queue_wf_def)

lemma matches_I:
  "slot_wf mtu f \<Longrightarrow> frame_matches TINY_FD_QUEUE_I_FRAME a n f \<longleftrightarrow>
   f_type f = TINY_FD_QUEUE_I_FRAME \<and> same_address a (f_address f) \<and> drop_bit 1 (f_control f) AND 7 = n"
  by (auto simp: frame_matches_def slot_wf_def queue_type_defs)

lemma matches_SU:
  "slot_wf mtu f \<Longrightarrow> frame_matches (TINY_FD_QUEUE_S_FRAME OR TINY_FD_QUEUE_U_FRAME) a n f \<longleftrightarrow>
   f_type f \<in> {TINY_FD_QUEUE_S_FRAME, TINY_FD_QUEUE_U_FRAME} \<and> same_address a (f_address f)"
  by (auto simp: frame_matches_def slot_wf_def queue_type_defs)

subsection \<open>The operations on single slots\<close>

lemma header_index_Some:
  "header_index fs header k = Some i \<Longrightarrow> k \<le> i \<and> i - k < length fs \<and> f_header (fs ! (i - k)) = header"
  by (induction fs header k rule: header_index.induct) (auto split: if_splits simp: nth_Cons')

lemma header_index_None: "header_index fs header k = None \<longleftrightarrow> header \<notin> f_header ` set fs"
  by (induction fs header k rule: header_index.induct) auto

lemma header_index_nth:
  assumes "distinct (map f_header fs)" "i < length fs"
  shows "header_index fs (f_header (fs ! i)) 0 = Some i"
proof -
  obtain j where j: "header_index fs (f_header (fs ! i)) 0 = Some j"
    using assms(2) header_index_None [of fs _ 0] by (metis imageI not_Some_eq nth_mem)
  have "map f_header fs ! j = map f_header fs ! i" "j < length fs"
    using header_index_Some [OF j] assms(2) by simp_all
  then have "j = i" using assms by (metis length_map nth_eq_iff_index_eq)
  then show ?thesis using j by simp
qed

text \<open>A queue with slot \<open>i\<close> replaced.\<close>

definition set_slot :: "tiny_fd_queue \<Rightarrow> nat \<Rightarrow> tiny_fd_frame_info \<Rightarrow> tiny_fd_queue" where
  "set_slot q i f = q\<lparr>q_frames := (q_frames q)[i := f]\<rparr>"

lemma set_slot_simps [simp]:
  "q_frames (set_slot q i f) = (q_frames q)[i := f]" "q_mtu (set_slot q i f) = q_mtu q"
  "q_lookup_index (set_slot q i f) = q_lookup_index q"
  by (simp_all add: set_slot_def)

lemma queue_wf_set_slot:
  assumes "queue_wf q" "i < q_size q" "slot_wf (q_mtu q) f" "f_header f = f_header (q_frames q ! i)"
  shows "queue_wf (set_slot q i f)"
proof -
  have "map f_header ((q_frames q)[i := f]) = map f_header (q_frames q)"
    using assms(2,4) by (simp add: map_update list_update_same_conv)
  then show ?thesis using assms(1,3) set_update_subset_insert [of "q_frames q" i f]
    by (auto simp: queue_wf_def simp del: map_update)
qed

lemma allocate_Some:
  assumes "queue_wf q" "tiny_fd_queue_allocate q type data = (Some i, q')"
  shows "i < q_size q" "f_type (q_frames q ! i) = TINY_FD_QUEUE_FREE" "int (length data) \<le> q_mtu q"
    and "q' = set_slot q i ((put_payload data (q_frames q ! i))\<lparr>f_type := type\<rparr>)"
proof -
  have len: "int (length data) \<le> q_mtu q" and n: "tiny_fd_queue_get_next q TINY_FD_QUEUE_FREE 0 0 = Some i"
    and q': "q' = set_slot q i ((put_payload data (q_frames q ! i))\<lparr>f_type := type\<rparr>)"
    using assms(2) by (auto simp: tiny_fd_queue_allocate_def set_slot_def split: if_splits option.splits)
  have i: "i < q_size q" "frame_matches TINY_FD_QUEUE_FREE 0 0 (q_frames q ! i)"
    using get_next_Some [OF assms(1) n] by auto
  moreover have "slot_wf (q_mtu q) (q_frames q ! i)" using assms(1) i(1) by (simp add: queue_wf_def)
  ultimately show "i < q_size q" "f_type (q_frames q ! i) = TINY_FD_QUEUE_FREE" "int (length data) \<le> q_mtu q"
    "q' = set_slot q i ((put_payload data (q_frames q ! i))\<lparr>f_type := type\<rparr>)"
    using len q' by auto
qed

lemma no_free_slot:
  assumes "queue_wf q"
  shows "tiny_fd_queue_get_next q TINY_FD_QUEUE_FREE 0 0 = None \<longleftrightarrow>
    (\<forall>f \<in> set (q_frames q). f_type f \<noteq> TINY_FD_QUEUE_FREE)"
  using get_next_None [OF assms] queue_matches_free [OF assms] by blast

lemma allocate_None:
  assumes "queue_wf q"
  shows "fst (tiny_fd_queue_allocate q type data) = None \<longleftrightarrow>
    q_mtu q < int (length data) \<or> (\<forall>f \<in> set (q_frames q). f_type f \<noteq> TINY_FD_QUEUE_FREE)"
  using no_free_slot [OF assms] by (auto simp: tiny_fd_queue_allocate_def split: option.splits)

lemma allocate_None_same: "tiny_fd_queue_allocate q type data = (None, q') \<Longrightarrow> q' = q"
  by (auto simp: tiny_fd_queue_allocate_def split: option.splits if_splits)

lemma slot_wf_put_payload:
  "slot_wf mtu f \<Longrightarrow> int (length data) \<le> mtu \<Longrightarrow>
   type \<in> {TINY_FD_QUEUE_FREE, TINY_FD_QUEUE_U_FRAME, TINY_FD_QUEUE_S_FRAME, TINY_FD_QUEUE_I_FRAME} \<Longrightarrow>
   slot_wf mtu ((put_payload data f)\<lparr>f_type := type\<rparr>)"
  by (auto simp: slot_wf_def put_payload_def)

lemma take_put_payload [simp]: "take (f_len (put_payload data f)) (f_payload (put_payload data f)) = data"
  by (simp add: put_payload_def)

lemma free_index:
  assumes "queue_wf q" "i < q_size q"
  shows "tiny_fd_queue_free q i =
    (set_slot q i ((q_frames q ! i)\<lparr>f_type := TINY_FD_QUEUE_FREE\<rparr>))
      \<lparr>q_lookup_index := (if i + 1 \<ge> q_size q then i + 1 - q_size q else i + 1)\<rparr>"
  using assms by (simp add: tiny_fd_queue_free_def tiny_fd_queue_free_by_header_def header_index_nth
      queue_wf_def set_slot_def)

lemma queue_wf_free_by_header:
  assumes "queue_wf q"
  shows "queue_wf (tiny_fd_queue_free_by_header q header)"
proof (cases "header_index (q_frames q) header 0")
  case None
  then show ?thesis using assms by (simp add: tiny_fd_queue_free_by_header_def)
next
  case (Some i)
  then have i: "i < q_size q" using header_index_Some [OF Some] by simp
  have "slot_wf (q_mtu q) (q_frames q ! i)" using assms i by (simp add: queue_wf_def)
  then have "queue_wf (set_slot q i ((q_frames q ! i)\<lparr>f_type := TINY_FD_QUEUE_FREE\<rparr>))"
    using queue_wf_set_slot [OF assms i] by (simp add: slot_wf_def)
  then show ?thesis using Some i by (auto simp: tiny_fd_queue_free_by_header_def set_slot_def queue_wf_def)
qed

lemma queue_wf_reset_for: "queue_wf q \<Longrightarrow> queue_wf (tiny_fd_queue_reset_for q address)"
  by (auto simp: queue_wf_def tiny_fd_queue_reset_for_def slot_wf_def comp_def if_distrib [of f_header] cong: if_cong)

lemma queue_wf_allocate:
  assumes "queue_wf q" "tiny_fd_queue_allocate q type data = (r, q')"
    "type \<in> {TINY_FD_QUEUE_U_FRAME, TINY_FD_QUEUE_S_FRAME, TINY_FD_QUEUE_I_FRAME}"
  shows "queue_wf q'"
proof (cases r)
  case None
  then show ?thesis using assms allocate_None_same by blast
next
  case (Some i)
  note a = allocate_Some [OF assms(1) assms(2) [unfolded Some]]
  have "slot_wf (q_mtu q) (q_frames q ! i)" using assms(1) a(1) by (simp add: queue_wf_def)
  then have "slot_wf (q_mtu q) ((put_payload data (q_frames q ! i))\<lparr>f_type := type\<rparr>)"
    using slot_wf_put_payload a(3) assms(3) by auto
  then show ?thesis using queue_wf_set_slot [OF assms(1) a(1)] a(4) by (simp add: put_payload_def)
qed

lemma free_slots_iff:
  "queue_wf q \<Longrightarrow> tiny_fd_queue_has_free_slots q \<longleftrightarrow> (\<exists>f \<in> set (q_frames q). f_type f = TINY_FD_QUEUE_FREE)"
  using no_free_slot [of q] by (auto simp: tiny_fd_queue_has_free_slots_def)

subsection \<open>The queue as a store of numbered frames\<close>

text \<open>
  The transmit window keeps the I-frames of one peer under their sequence numbers. What it needs of
  the queue is the locale \<open>frame_store\<close>: a finite map from numbers to payloads, of at most seven
  frames, that is extended by \<open>put\<close> and reduced by \<open>del\<close>.
\<close>

locale frame_store =
  fixes inv :: "'q \<Rightarrow> bool" and lookup :: "'q \<Rightarrow> u8 \<Rightarrow> u8 list option"
    and put :: "'q \<Rightarrow> u8 \<Rightarrow> u8 list \<Rightarrow> 'q option" and del :: "'q \<Rightarrow> u8 \<Rightarrow> 'q"
  assumes range: "inv q \<Longrightarrow> lookup q n = Some d \<Longrightarrow> n < 8"
    and bounded: "inv q \<Longrightarrow> card (dom (lookup q)) \<le> 7"
    and inv_put: "inv q \<Longrightarrow> n < 8 \<Longrightarrow> lookup q n = None \<Longrightarrow> put q n d = Some q' \<Longrightarrow> inv q'"
    and lookup_put: "inv q \<Longrightarrow> n < 8 \<Longrightarrow> lookup q n = None \<Longrightarrow> put q n d = Some q' \<Longrightarrow>
      lookup q' = (lookup q)(n \<mapsto> d)"
    and inv_del: "inv q \<Longrightarrow> inv (del q n)"
    and lookup_del: "inv q \<Longrightarrow> lookup (del q n) = (lookup q)(n := None)"

definition frame_seq :: "tiny_fd_frame_info \<Rightarrow> u8" where
  "frame_seq f = drop_bit 1 (f_control f) AND 7"

definition frame_data :: "tiny_fd_frame_info \<Rightarrow> u8 list" where
  "frame_data f = take (f_len f) (f_payload f)"

definition i_slot :: "u8 \<Rightarrow> u8 \<Rightarrow> tiny_fd_frame_info \<Rightarrow> bool" where
  "i_slot a n f \<longleftrightarrow> f_type f = TINY_FD_QUEUE_I_FRAME \<and> same_address a (f_address f) \<and> frame_seq f = n"

definition i_lookup :: "u8 \<Rightarrow> tiny_fd_queue \<Rightarrow> u8 \<Rightarrow> u8 list option" where
  "i_lookup a q n = map_option (\<lambda>i. frame_data (q_frames q ! i)) (tiny_fd_queue_get_next q TINY_FD_QUEUE_I_FRAME a n)"

text \<open>What \<open>__put_i_frame_to_tx_queue\<close> does to the queue.\<close>

definition i_put :: "u8 \<Rightarrow> tiny_fd_queue \<Rightarrow> u8 \<Rightarrow> u8 list \<Rightarrow> tiny_fd_queue option" where
  "i_put a q n data =
     (case tiny_fd_queue_allocate q TINY_FD_QUEUE_I_FRAME data of
        (None, q') \<Rightarrow> None
      | (Some i, q') \<Rightarrow> Some (set_slot q' i ((q_frames q' ! i)\<lparr>f_address := a, f_control := push_bit 1 n\<rparr>)))"

definition i_delete :: "u8 \<Rightarrow> tiny_fd_queue \<Rightarrow> u8 \<Rightarrow> tiny_fd_queue" where
  "i_delete a q n =
     (case tiny_fd_queue_get_next q TINY_FD_QUEUE_I_FRAME a n of None \<Rightarrow> q | Some i \<Rightarrow> tiny_fd_queue_free q i)"

definition slots_unique :: "tiny_fd_frame_info list \<Rightarrow> bool" where
  "slots_unique fs \<longleftrightarrow> (\<forall>i < length fs. \<forall>j < length fs. \<forall>a n. i_slot a n (fs ! i) \<longrightarrow> i_slot a n (fs ! j) \<longrightarrow> i = j)"

text \<open>A slot of this queue holds nothing, or a frame with the header of an I-frame.\<close>

definition i_slot_ok :: "tiny_fd_frame_info \<Rightarrow> bool" where
  "i_slot_ok f \<longleftrightarrow> f_type f = TINY_FD_QUEUE_FREE
     \<or> f_type f = TINY_FD_QUEUE_I_FRAME \<and> even (f_control f) \<and> f_address f AND 3 = 1"

definition iq_wf :: "tiny_fd_queue \<Rightarrow> bool" where
  "iq_wf q \<longleftrightarrow> queue_wf q \<and> q_size q \<le> 7 \<and> (\<forall>i < q_size q. i_slot_ok (q_frames q ! i))
     \<and> slots_unique (q_frames q)"

lemma free_not_I [simp]: "TINY_FD_QUEUE_FREE \<noteq> TINY_FD_QUEUE_I_FRAME" "TINY_FD_QUEUE_I_FRAME \<noteq> TINY_FD_QUEUE_FREE"
  by (simp_all add: queue_type_defs)

lemma same_address_refl [simp]: "same_address a a"
  by (simp add: same_address_def)

lemma i_slot_same_address: "i_slot a n f \<Longrightarrow> i_slot b n f \<longleftrightarrow> same_address a b"
  by (auto simp: i_slot_def same_address_def)

lemma get_next_I_Some:
  assumes "queue_wf q" "tiny_fd_queue_get_next q TINY_FD_QUEUE_I_FRAME a n = Some i"
  shows "i < q_size q \<and> i_slot a n (q_frames q ! i)"
proof -
  note g = get_next_Some [OF assms]
  then have "slot_wf (q_mtu q) (q_frames q ! i)" using assms(1) by (simp add: queue_wf_def)
  then show ?thesis using g by (simp add: matches_I i_slot_def frame_seq_def)
qed

lemma get_next_I_None:
  assumes "queue_wf q" "tiny_fd_queue_get_next q TINY_FD_QUEUE_I_FRAME a n = None" "i < q_size q"
  shows "\<not> i_slot a n (q_frames q ! i)"
proof -
  have "\<not> frame_matches TINY_FD_QUEUE_I_FRAME a n (q_frames q ! i)"
    using get_next_None [OF assms(1)] assms(2,3) by simp
  moreover have "slot_wf (q_mtu q) (q_frames q ! i)" using assms(1,3) by (simp add: queue_wf_def)
  ultimately show ?thesis by (simp add: matches_I i_slot_def frame_seq_def)
qed

lemma iq_wf_queue [simp, intro]: "iq_wf q \<Longrightarrow> queue_wf q"
  by (simp add: iq_wf_def)

lemma i_lookup_None:
  assumes "iq_wf q"
  shows "i_lookup a q n = None \<longleftrightarrow> (\<forall>i < q_size q. \<not> i_slot a n (q_frames q ! i))"
proof (cases "tiny_fd_queue_get_next q TINY_FD_QUEUE_I_FRAME a n")
  case None
  then show ?thesis using get_next_I_None [OF iq_wf_queue [OF assms] None] by (simp add: i_lookup_def)
next
  case (Some i)
  then show ?thesis using get_next_I_Some [OF iq_wf_queue [OF assms] Some] by (auto simp: i_lookup_def)
qed

lemma i_lookup_slot:
  assumes "iq_wf q" "i < q_size q" "i_slot a n (q_frames q ! i)"
  shows "i_lookup a q n = Some (frame_data (q_frames q ! i))"
    and "tiny_fd_queue_get_next q TINY_FD_QUEUE_I_FRAME a n = Some i"
proof -
  have wf: "queue_wf q" using assms(1) by (simp add: iq_wf_def)
  show g: "tiny_fd_queue_get_next q TINY_FD_QUEUE_I_FRAME a n = Some i"
  proof (cases "tiny_fd_queue_get_next q TINY_FD_QUEUE_I_FRAME a n")
    case None
    then show ?thesis using get_next_I_None [OF wf None assms(2)] assms(3) by simp
  next
    case (Some j)
    then have "j = i" using get_next_I_Some [OF wf Some] assms unfolding iq_wf_def slots_unique_def by blast
    then show ?thesis using Some by simp
  qed
  then show "i_lookup a q n = Some (frame_data (q_frames q ! i))" by (simp add: i_lookup_def)
qed

lemma i_lookup_Some:
  assumes "iq_wf q"
  shows "i_lookup a q n = Some d \<longleftrightarrow> (\<exists>i < q_size q. i_slot a n (q_frames q ! i) \<and> d = frame_data (q_frames q ! i))"
proof (cases "i_lookup a q n")
  case None
  then have "\<forall>i < q_size q. \<not> i_slot a n (q_frames q ! i)" using i_lookup_None [OF assms] by blast
  then show ?thesis using None by auto
next
  case (Some e)
  then have "i_lookup a q n \<noteq> None" by simp
  then obtain i where i: "i < q_size q" "i_slot a n (q_frames q ! i)"
    unfolding i_lookup_None [OF assms] by blast
  have "j = i" if "j < q_size q" "i_slot a n (q_frames q ! j)" for j
    using assms i that unfolding iq_wf_def slots_unique_def by blast
  then show ?thesis using i_lookup_slot(1) [OF assms i] i by (metis option.inject)
qed

lemma i_lookup_same_address: "same_address a b \<Longrightarrow> i_lookup a q n = i_lookup b q n"
proof -
  assume "same_address a b"
  then have "frame_matches t a n = frame_matches t b n" for t
    by (auto simp: fun_eq_iff frame_matches_def same_address_def)
  then show ?thesis by (simp add: i_lookup_def tiny_fd_queue_get_next_def)
qed

lemma u8_less_8: "(n :: u8) < 8 \<Longrightarrow> n \<in> {0, 1, 2, 3, 4, 5, 6, 7}"
proof -
  assume "n < 8"
  then have "unat n < 8" by (simp add: word_less_nat_alt)
  then have "unat n = 0 \<or> unat n = 1 \<or> unat n = 2 \<or> unat n = 3 \<or> unat n = 4 \<or> unat n = 5 \<or> unat n = 6 \<or> unat n = 7"
    by linarith
  moreover have "word_of_nat (unat n) = n" by simp
  ultimately show ?thesis by (elim disjE) (simp_all only: insert_iff, simp_all)
qed

lemma seq_of_control: "n < 8 \<Longrightarrow> drop_bit 1 (push_bit 1 n) AND 7 = (n :: u8)"
  using u8_less_8 [of n] by auto

lemma seq_of_control_mult [simp]: "n < 8 \<Longrightarrow> drop_bit (Suc 0) (n * 2) AND 7 = (n :: u8)"
  using seq_of_control [of n] by simp

lemma push_bit_low: "n < 8 \<Longrightarrow> push_bit 1 n AND 1 = (0 :: u8)"
  using u8_less_8 [of n] by auto

text \<open>Replacing one slot by an I-frame, and freeing one.\<close>

lemma iq_wf_set_slot:
  assumes "iq_wf q" "i < q_size q" "slot_wf (q_mtu q) f" "f_header f = f_header (q_frames q ! i)"
    and "i_slot_ok f"
    and "\<And>a n j. j < q_size q \<Longrightarrow> j \<noteq> i \<Longrightarrow> i_slot a n f \<Longrightarrow> \<not> i_slot a n (q_frames q ! j)"
  shows "iq_wf (set_slot q i f)"
proof -
  have "queue_wf (set_slot q i f)" using queue_wf_set_slot assms(1-4) by blast
  moreover have "i_slot_ok ((q_frames q)[i := f] ! j)"
    if "j < q_size q" for j using assms(1,5) that by (cases "j = i") (auto simp: iq_wf_def)
  moreover have "j = k" if "j < q_size q" "k < q_size q" "i_slot a n ((q_frames q)[i := f] ! j)"
    "i_slot a n ((q_frames q)[i := f] ! k)" for j k a n
  proof -
    have *: "\<forall>j < q_size q. \<forall>k < q_size q. i_slot a n (q_frames q ! j) \<longrightarrow> i_slot a n (q_frames q ! k) \<longrightarrow> j = k"
      using assms(1) by (simp add: iq_wf_def slots_unique_def)
    show ?thesis
    proof (cases "j = i \<or> k = i")
      case True
      then show ?thesis using that assms(2,6) by (metis nth_list_update_eq nth_list_update_neq)
    next
      case False
      then show ?thesis using that * by (simp add: nth_list_update_neq)
    qed
  qed
  then have "slots_unique ((q_frames q)[i := f])" unfolding slots_unique_def length_list_update by blast
  ultimately show ?thesis using assms(1) by (simp add: iq_wf_def)
qed

lemma i_lookup_set_slot:
  assumes "iq_wf q" "iq_wf (set_slot q i f)" "i < q_size q"
    and "f_type (q_frames q ! i) = TINY_FD_QUEUE_FREE" "i_slot a n f"
  shows "i_lookup b (set_slot q i f) m =
    (if same_address a b \<and> m = n then Some (frame_data f) else i_lookup b q m)"
proof (cases "i_slot b m f")
  case True
  then have "same_address a b" "m = n" using assms(5) by (auto simp: i_slot_def same_address_def)
  moreover have "i_lookup b (set_slot q i f) m = Some (frame_data f)"
    using i_lookup_slot(1) [OF assms(2), of i b m] True assms(3) by simp
  ultimately show ?thesis by simp
next
  case False
  then have "\<not> (same_address a b \<and> m = n)" using assms(5) i_slot_same_address by blast
  moreover have old: "\<not> i_slot b m (q_frames q ! i)" using assms(4) by (simp add: i_slot_def)
  have "i_lookup b (set_slot q i f) m = Some d \<longleftrightarrow> i_lookup b q m = Some d" for d
  proof -
    have "i_slot b m ((q_frames q)[i := f] ! j) \<and> d = frame_data ((q_frames q)[i := f] ! j)
        \<longleftrightarrow> i_slot b m (q_frames q ! j) \<and> d = frame_data (q_frames q ! j)" for j
      using False old assms(3) by (cases "j = i") simp_all
    then show ?thesis unfolding i_lookup_Some [OF assms(1)] i_lookup_Some [OF assms(2)] by simp
  qed
  then have "i_lookup b (set_slot q i f) m = i_lookup b q m" by (metis not_Some_eq)
  ultimately show ?thesis by auto
qed

lemma i_put_Some:
  assumes "iq_wf q" "n < 8" "i_lookup a q n = None" "i_put a q n d = Some q'" "a AND 3 = 1"
  shows "iq_wf q'" and "i_lookup b q' m = (if same_address a b \<and> m = n then Some d else i_lookup b q m)"
    and "q_size q' = q_size q" "q_mtu q' = q_mtu q"
proof -
  obtain i q1 where al: "tiny_fd_queue_allocate q TINY_FD_QUEUE_I_FRAME d = (Some i, q1)"
    and q': "q' = set_slot q1 i ((q_frames q1 ! i)\<lparr>f_address := a, f_control := push_bit 1 n\<rparr>)"
    using assms(4) by (auto simp: i_put_def split: prod.splits option.splits)
  note al = allocate_Some [OF iq_wf_queue [OF assms(1)] al]
  define f where "f = (put_payload d (q_frames q ! i))\<lparr>f_type := TINY_FD_QUEUE_I_FRAME, f_address := a, f_control := push_bit 1 n\<rparr>"
  have q'f: "q' = set_slot q i f" using al by (simp add: q' f_def set_slot_def)
  have slot: "i_slot a n f" by (simp add: f_def i_slot_def frame_seq_def assms(2))
  have "slot_wf (q_mtu q) (q_frames q ! i)" using assms(1) al(1) by (simp add: iq_wf_def queue_wf_def)
  then have wf: "slot_wf (q_mtu q) f" using al(3) by (auto simp: slot_wf_def f_def put_payload_def)
  have "\<not> i_slot c k (q_frames q ! j)" if "j < q_size q" "i_slot c k f" for c k j
    using iffD1 [OF i_lookup_None [OF assms(1)] assms(3)] that slot unfolding i_slot_def same_address_def by metis
  moreover have "i_slot_ok f" using assms(5) by (simp add: f_def i_slot_ok_def)
  ultimately show iq: "iq_wf q'" unfolding q'f using iq_wf_set_slot [OF assms(1) al(1) wf] by (simp add: f_def put_payload_def)
  show "i_lookup b q' m = (if same_address a b \<and> m = n then Some d else i_lookup b q m)"
    using i_lookup_set_slot [OF assms(1) iq [unfolded q'f] al(1,2) slot, of b m]
    by (simp add: q'f) (simp add: f_def frame_data_def put_payload_def)
  show "q_size q' = q_size q" "q_mtu q' = q_mtu q" by (simp_all add: q'f)
qed

lemma iq_wf_lookup_index: "iq_wf q \<Longrightarrow> k < q_size q \<Longrightarrow> iq_wf (q\<lparr>q_lookup_index := k\<rparr>)"
  by (simp add: iq_wf_def queue_wf_def)

lemma i_lookup_lookup_index:
  assumes "iq_wf q" "k < q_size q"
  shows "i_lookup a (q\<lparr>q_lookup_index := k\<rparr>) n = i_lookup a q n"
proof -
  have "i_lookup a (q\<lparr>q_lookup_index := k\<rparr>) n = Some d \<longleftrightarrow> i_lookup a q n = Some d" for d
    unfolding i_lookup_Some [OF assms(1)] i_lookup_Some [OF iq_wf_lookup_index [OF assms]] by simp
  then show ?thesis by (metis not_Some_eq)
qed

lemma free_slot_iq:
  assumes "iq_wf q" "i < q_size q" "i_slot a n (q_frames q ! i)"
  shows "iq_wf (tiny_fd_queue_free q i)"
    and "i_lookup b (tiny_fd_queue_free q i) m = (if same_address a b \<and> m = n then None else i_lookup b q m)"
    and "q_size (tiny_fd_queue_free q i) = q_size q" "q_mtu (tiny_fd_queue_free q i) = q_mtu q"
proof -
  define f where "f = (q_frames q ! i)\<lparr>f_type := TINY_FD_QUEUE_FREE\<rparr>"
  define k where "k = (if i + 1 \<ge> q_size q then i + 1 - q_size q else i + 1)"
  have free: "tiny_fd_queue_free q i = (set_slot q i f)\<lparr>q_lookup_index := k\<rparr>"
    using free_index [OF iq_wf_queue [OF assms(1)] assms(2)] by (simp add: f_def k_def)
  have k: "k < q_size (set_slot q i f)" using assms(2) by (auto simp: k_def)
  have no: "\<not> i_slot c l f" for c l by (simp add: f_def i_slot_def)
  have "slot_wf (q_mtu q) (q_frames q ! i)" using assms(1,2) by (simp add: iq_wf_def queue_wf_def)
  then have "slot_wf (q_mtu q) f" by (simp add: slot_wf_def f_def)
  moreover have "f_header f = f_header (q_frames q ! i)" "i_slot_ok f" by (simp_all add: f_def i_slot_ok_def)
  ultimately have iq: "iq_wf (set_slot q i f)" using iq_wf_set_slot [OF assms(1,2)] no by blast
  then show "iq_wf (tiny_fd_queue_free q i)" using iq_wf_lookup_index k by (simp add: free)
  have eq: "i_slot b m ((q_frames q)[i := f] ! j) \<and> d = frame_data ((q_frames q)[i := f] ! j)
      \<longleftrightarrow> j \<noteq> i \<and> i_slot b m (q_frames q ! j) \<and> d = frame_data (q_frames q ! j)" for j d
    using no assms(2) by (cases "j = i") simp_all
  have u: "j = i" if "j < q_size q" "i_slot a n (q_frames q ! j)" for j
    using assms that unfolding iq_wf_def slots_unique_def by blast
  have "i_lookup b (set_slot q i f) m = Some d \<longleftrightarrow> \<not> (same_address a b \<and> m = n) \<and> i_lookup b q m = Some d" for d
  proof (cases "same_address a b \<and> m = n")
    case True
    then have "i_slot b m = i_slot a n" by (auto simp: fun_eq_iff i_slot_def same_address_def)
    then show ?thesis unfolding i_lookup_Some [OF assms(1)] i_lookup_Some [OF iq] using eq u True by auto
  next
    case False
    then have "\<not> i_slot b m (q_frames q ! i)" using assms(3) by (auto simp: i_slot_def same_address_def)
    then show ?thesis unfolding i_lookup_Some [OF assms(1)] i_lookup_Some [OF iq] using eq False by auto
  qed
  then have "i_lookup b (set_slot q i f) m = (if same_address a b \<and> m = n then None else i_lookup b q m)"
    by (metis not_Some_eq)
  then show "i_lookup b (tiny_fd_queue_free q i) m = (if same_address a b \<and> m = n then None else i_lookup b q m)"
    using i_lookup_lookup_index [OF iq k] by (simp add: free)
  show "q_size (tiny_fd_queue_free q i) = q_size q" "q_mtu (tiny_fd_queue_free q i) = q_mtu q"
    by (simp_all add: free)
qed

lemma i_delete_iq:
  assumes "iq_wf q"
  shows "iq_wf (i_delete a q n)"
    and "i_lookup b (i_delete a q n) m = (if same_address a b \<and> m = n then None else i_lookup b q m)"
    and "q_size (i_delete a q n) = q_size q" "q_mtu (i_delete a q n) = q_mtu q"
proof -
  have "iq_wf (i_delete a q n) \<and> i_lookup b (i_delete a q n) m = (if same_address a b \<and> m = n then None else i_lookup b q m)
     \<and> q_size (i_delete a q n) = q_size q \<and> q_mtu (i_delete a q n) = q_mtu q"
  proof (cases "tiny_fd_queue_get_next q TINY_FD_QUEUE_I_FRAME a n")
    case None
    then have "i_lookup a q n = None" by (simp add: i_lookup_def)
    then have "same_address a b \<Longrightarrow> i_lookup b q n = None" using i_lookup_same_address by metis
    then show ?thesis using None assms by (auto simp: i_delete_def)
  next
    case (Some i)
    have i: "i < q_size q" "i_slot a n (q_frames q ! i)"
      using get_next_I_Some [OF iq_wf_queue [OF assms] Some] by auto
    show ?thesis using free_slot_iq [OF assms i] Some by (simp add: i_delete_def)
  qed
  then show "iq_wf (i_delete a q n)"
    and "i_lookup b (i_delete a q n) m = (if same_address a b \<and> m = n then None else i_lookup b q m)"
    and "q_size (i_delete a q n) = q_size q" "q_mtu (i_delete a q n) = q_mtu q" by simp_all
qed

lemma frame_seq_less_8: "frame_seq f < 8"
proof -
  have "frame_seq f \<le> 7" unfolding frame_seq_def by (rule word_and_le1)
  then show ?thesis by (simp add: word_le_nat_alt word_less_nat_alt)
qed

lemma i_lookup_range: "iq_wf q \<Longrightarrow> i_lookup a q n = Some d \<Longrightarrow> n < 8"
  using frame_seq_less_8 by (auto simp: i_lookup_Some i_slot_def)

lemma i_lookup_card:
  assumes "iq_wf q"
  shows "card (dom (i_lookup a q)) \<le> q_size q"
proof -
  have "dom (i_lookup a q) \<subseteq> (\<lambda>i. frame_seq (q_frames q ! i)) ` {0..<q_size q}"
    using i_lookup_Some [OF assms] by (auto simp: dom_def i_slot_def)
  then have "card (dom (i_lookup a q)) \<le> card ((\<lambda>i. frame_seq (q_frames q ! i)) ` {0..<q_size q})"
    by (simp add: card_mono)
  also have "\<dots> \<le> q_size q" using card_image_le [of "{0..<q_size q}"] by fastforce
  finally show ?thesis .
qed

text \<open>The frames of the peer with address field \<open>a\<close>, which ends in the bits of a one byte response address.\<close>

definition iq_of :: "u8 \<Rightarrow> tiny_fd_queue \<Rightarrow> bool" where
  "iq_of a q \<longleftrightarrow> iq_wf q \<and> a AND 3 = 1"

interpretation iq: frame_store "iq_of a" "i_lookup a" "i_put a" "i_delete a" for a
proof
  show "card (dom (i_lookup a q)) \<le> 7" if "iq_of a q" for q
    using i_lookup_card [of q a] that by (simp add: iq_wf_def iq_of_def)
  show "i_lookup a q' = (i_lookup a q)(n \<mapsto> d)"
    if "iq_of a q" "n < 8" "i_lookup a q n = None" "i_put a q n d = Some q'" for q n d q'
    using i_put_Some(2) [of q n a d q'] that by (simp add: fun_eq_iff iq_of_def)
  show "i_lookup a (i_delete a q n) = (i_lookup a q)(n := None)" if "iq_of a q" for q n
    using i_delete_iq(2) [of q a a n] that by (simp add: fun_eq_iff iq_of_def)
  show "iq_of a q'" if "iq_of a q" "n < 8" "i_lookup a q n = None" "i_put a q n d = Some q'" for q n d q'
    using i_put_Some(1) [of q n a d q'] that by (simp add: iq_of_def)
  show "iq_of a (i_delete a q n)" if "iq_of a q" for q n
    using i_delete_iq(1) [of q a n] that by (simp add: iq_of_def)
  show "n < 8" if "iq_of a q" "i_lookup a q n = Some d" for q n d
    using i_lookup_range [of q a n d] that by (simp add: iq_of_def)
qed

lemma reset_for_iq:
  assumes "iq_wf q"
  shows "iq_wf (tiny_fd_queue_reset_for q a)"
    and "i_lookup b (tiny_fd_queue_reset_for q a) m = (if same_address a b then None else i_lookup b q m)"
    and "q_size (tiny_fd_queue_reset_for q a) = q_size q" "q_mtu (tiny_fd_queue_reset_for q a) = q_mtu q"
proof -
  define r :: "tiny_fd_frame_info \<Rightarrow> tiny_fd_frame_info"
    where "r = (\<lambda>f. if same_address (f_address f) a then f\<lparr>f_type := TINY_FD_QUEUE_FREE\<rparr> else f)"
  have frames: "q_frames (tiny_fd_queue_reset_for q a) = map r (q_frames q)"
    by (simp add: tiny_fd_queue_reset_for_def r_def)
  have slot: "i_slot c n (r f) \<longleftrightarrow> \<not> same_address a c \<and> i_slot c n f" "f_type f = TINY_FD_QUEUE_FREE \<Longrightarrow> f_type (r f) = TINY_FD_QUEUE_FREE"
    "i_slot c n (r f) \<Longrightarrow> frame_data (r f) = frame_data f" for c n f
    by (auto simp: r_def i_slot_def same_address_def frame_seq_def frame_data_def)
  have "i_slot_ok f \<Longrightarrow> i_slot_ok (r f)" for f by (simp add: r_def i_slot_ok_def)
  then have "\<forall>i < q_size q. i_slot_ok (r (q_frames q ! i))"
    using assms by (simp add: iq_wf_def)
  moreover have "slots_unique (map r (q_frames q))"
    using assms slot(1) unfolding iq_wf_def slots_unique_def by (metis length_map nth_map)
  ultimately show iq: "iq_wf (tiny_fd_queue_reset_for q a)"
    using assms queue_wf_reset_for [of q a] by (simp add: iq_wf_def frames)
  show size: "q_size (tiny_fd_queue_reset_for q a) = q_size q" "q_mtu (tiny_fd_queue_reset_for q a) = q_mtu q"
    by (simp_all add: tiny_fd_queue_reset_for_def)
  have "frame_data (r (q_frames q ! i)) = frame_data (q_frames q ! i)" for i
    by (simp add: r_def frame_data_def)
  then have "i_lookup b (tiny_fd_queue_reset_for q a) m = Some d \<longleftrightarrow> \<not> same_address a b \<and> i_lookup b q m = Some d" for d
    unfolding i_lookup_Some [OF assms] i_lookup_Some [OF iq] by (auto simp: frames slot(1))
  then show "i_lookup b (tiny_fd_queue_reset_for q a) m = (if same_address a b then None else i_lookup b q m)"
    by (metis not_Some_eq)
qed

subsection \<open>Properties\<close>

text \<open>
  \<open>tiny_fd_queue_get_next\<close> finds a slot exactly when some slot matches, wherever the lookup starts,
  and the slot it returns is in the table and matches.
\<close>

theorem tiny_fd_queue_get_next_complete:
  assumes "queue_wf q"
  shows "case tiny_fd_queue_get_next q type address arg of
      None \<Rightarrow> \<forall>f \<in> set (q_frames q). \<not> frame_matches type address arg f
    | Some i \<Rightarrow> i < q_size q \<and> frame_matches type address arg (q_frames q ! i)"
  using get_next_None [OF assms] get_next_Some [OF assms] by (simp split: option.split)

definition demo_queue :: tiny_fd_queue where
  "demo_queue = \<lparr>q_frames = [
       \<lparr>f_type = TINY_FD_QUEUE_FREE, f_len = 0, f_address = 0, f_control = 0, f_payload = [0, 0], f_header = 100\<rparr>,
       \<lparr>f_type = TINY_FD_QUEUE_I_FRAME, f_len = 1, f_address = 5, f_control = 6, f_payload = [9, 0], f_header = 110\<rparr>],
     q_lookup_index = 1, q_mtu = 2\<rparr>"

lemma demo_queue_wf: "queue_wf demo_queue"
  by (simp add: demo_queue_def queue_wf_def slot_wf_def)

theorem tiny_fd_queue_get_next_complete_witness:
  "tiny_fd_queue_get_next demo_queue TINY_FD_QUEUE_I_FRAME 7 3 = Some 1"
proof -
  have m: "frame_matches TINY_FD_QUEUE_I_FRAME 7 3 (q_frames demo_queue ! 1)"
    "\<not> frame_matches TINY_FD_QUEUE_I_FRAME 7 3 (q_frames demo_queue ! 0)" "q_size demo_queue = 2"
    by (simp_all add: demo_queue_def frame_matches_def same_address_def queue_type_defs)
  then have "\<exists>f \<in> set (q_frames demo_queue). frame_matches TINY_FD_QUEUE_I_FRAME 7 3 f"
    using nth_mem [of 1 "q_frames demo_queue"] by auto
  then show ?thesis
    using tiny_fd_queue_get_next_complete [OF demo_queue_wf, of TINY_FD_QUEUE_I_FRAME 7 3] m
    by (auto simp: less_2_cases_iff split: option.splits)
qed

text \<open>
  \<open>tiny_fd_queue_allocate\<close> fails exactly when the data is longer than the mtu or no slot is free, and
  then changes nothing. Otherwise the slot it returns was free and now holds the type, the length and
  the data; no other slot changes, and the queue stays well formed.
\<close>

theorem tiny_fd_queue_allocate_spec:
  assumes "queue_wf q" "type \<in> {TINY_FD_QUEUE_U_FRAME, TINY_FD_QUEUE_S_FRAME, TINY_FD_QUEUE_I_FRAME}"
    and "tiny_fd_queue_allocate q type data = (r, q')"
  shows "queue_wf q' \<and> (case r of
      None \<Rightarrow> q' = q \<and> (q_mtu q < int (length data) \<or> (\<forall>f \<in> set (q_frames q). f_type f \<noteq> TINY_FD_QUEUE_FREE))
    | Some i \<Rightarrow> i < q_size q \<and> f_type (q_frames q ! i) = TINY_FD_QUEUE_FREE \<and> int (length data) \<le> q_mtu q
        \<and> f_type (q_frames q' ! i) = type \<and> f_len (q_frames q' ! i) = length data
        \<and> frame_data (q_frames q' ! i) = data
        \<and> (\<forall>j < q_size q. j \<noteq> i \<longrightarrow> q_frames q' ! j = q_frames q ! j))"
proof (cases r)
  case None
  then show ?thesis using allocate_None [OF assms(1), of type data] allocate_None_same [of q type data q'] assms
    by simp
next
  case (Some i)
  show ?thesis using allocate_Some [OF assms(1) assms(3) [unfolded Some]] queue_wf_allocate [OF assms(1,3,2)] Some
    by (simp add: put_payload_def frame_data_def)
qed

theorem tiny_fd_queue_allocate_spec_witness:
  "\<exists>q'. tiny_fd_queue_allocate demo_queue TINY_FD_QUEUE_I_FRAME [1, 2] = (Some 0, q') \<and> frame_data (q_frames q' ! 0) = [1, 2]"
proof -
  obtain r q' where al: "tiny_fd_queue_allocate demo_queue TINY_FD_QUEUE_I_FRAME [1, 2] = (r, q')" by fastforce
  have "f_type (q_frames demo_queue ! 1) \<noteq> TINY_FD_QUEUE_FREE" "q_size demo_queue = 2" "q_mtu demo_queue = 2"
    "\<exists>f \<in> set (q_frames demo_queue). f_type f = TINY_FD_QUEUE_FREE"
    by (simp_all add: demo_queue_def)
  then show ?thesis
    using tiny_fd_queue_allocate_spec [OF demo_queue_wf _ al] al
    by (auto simp: less_2_cases_iff split: option.splits)
qed

end
