(* ===== verification/FdIQueueControl.thy ===== *)
theory FdIQueueControl
  imports FdFramesQueue
begin

unbundle bit_operations_syntax

section \<open>Sequence numbers and the transmit window: src/proto/fd/tiny_fd_i_queue_control.c\<close>

text \<open>
  The window of a peer: the frames from \<open>confirm_ns\<close> up to \<open>last_ns\<close> (modulo 8) wait in the queue, the
  ones before \<open>next_ns\<close> have been sent. The first part is the code; then the arithmetic of sequence
  numbers; then what the window is for the layers above, a FIFO queue, proved for every store that
  meets the contract \<open>frame_store\<close>.
\<close>

subsection \<open>The code\<close>

definition seq_bits_mask :: u8 where "seq_bits_mask = 0x07"

record i_queue_control =
  last_ns :: u8
  confirm_ns :: u8
  next_ns :: u8
  next_nr :: u8

definition i_queue_control_has_unconfirmed_frames :: "i_queue_control \<Rightarrow> bool" where
  "i_queue_control_has_unconfirmed_frames c \<longleftrightarrow> confirm_ns c \<noteq> last_ns c"

definition all_frames_are_sent :: "i_queue_control \<Rightarrow> bool" where
  "all_frames_are_sent c \<longleftrightarrow> last_ns c = next_ns c"

definition i_queue_control_tx_full :: "i_queue_control \<Rightarrow> bool" where
  "i_queue_control_tx_full c =
     (let next_last_ns = (last_ns c + 1) AND seq_bits_mask;
          can_accept = (next_last_ns \<noteq> confirm_ns c)
      in \<not> can_accept)"

definition i_queue_control_get_next_frame_to_confirm :: "i_queue_control \<Rightarrow> u8" where
  "i_queue_control_get_next_frame_to_confirm c = confirm_ns c"

definition i_queue_control_get_next_frame_to_send :: "i_queue_control \<Rightarrow> u8" where
  "i_queue_control_get_next_frame_to_send c = next_ns c"

definition i_queue_control_get_next_frame_to_receive :: "i_queue_control \<Rightarrow> u8" where
  "i_queue_control_get_next_frame_to_receive c = next_nr c"

definition i_queue_control_move_to_next_ns :: "i_queue_control \<Rightarrow> i_queue_control" where
  "i_queue_control_move_to_next_ns c = c\<lparr>next_ns := (next_ns c + 1) AND seq_bits_mask\<rparr>"

definition i_queue_control_move_to_previous_ns :: "i_queue_control \<Rightarrow> i_queue_control" where
  "i_queue_control_move_to_previous_ns c = c\<lparr>next_ns := (next_ns c - 1) AND seq_bits_mask\<rparr>"

definition i_queue_control_move_to_next_frame_to_receive :: "i_queue_control \<Rightarrow> i_queue_control" where
  "i_queue_control_move_to_next_frame_to_receive c = c\<lparr>next_nr := (next_nr c + 1) AND seq_bits_mask\<rparr>"

definition reset_i_queue_control :: "i_queue_control \<Rightarrow> i_queue_control" where
  "reset_i_queue_control c = c\<lparr>confirm_ns := 0, last_ns := 0, next_ns := 0, next_nr := 0\<rparr>"

text \<open>
  The loops run over at most seven frames while the numbers are below 8 (\<open>confirm_ns\<close> goes up to
  \<open>last_ns\<close>, \<open>next_ns\<close> down to \<open>confirm_ns\<close>), so 8 rounds of fuel are never used up; the lemmas on the
  loops below show the condition on which they end.
\<close>

fun confirm_loop :: "(u8 \<Rightarrow> 's \<Rightarrow> bool \<times> 's) \<Rightarrow> u8 \<Rightarrow> nat \<Rightarrow> i_queue_control \<Rightarrow> 's \<Rightarrow> i_queue_control \<times> 's" where
  "confirm_loop cb nr 0 c s = (c, s)"
| "confirm_loop cb nr (Suc fuel) c s =
     (if nr \<noteq> confirm_ns c then
        if \<not> i_queue_control_has_unconfirmed_frames c then (c, s)
        else case cb (confirm_ns c) s of (found, s) \<Rightarrow>
          confirm_loop cb nr fuel (c\<lparr>confirm_ns := (confirm_ns c + 1) AND seq_bits_mask\<rparr>) s
      else (c, s))"

definition i_queue_control_confirm_sent_frames ::
  "(u8 \<Rightarrow> 's \<Rightarrow> bool \<times> 's) \<Rightarrow> u8 \<Rightarrow> i_queue_control \<Rightarrow> 's \<Rightarrow> bool \<times> i_queue_control \<times> 's" where
  "i_queue_control_confirm_sent_frames cb nr c s =
     (case confirm_loop cb nr 8 c s of (c, s) \<Rightarrow> (\<not> i_queue_control_tx_full c, c, s))"

fun retransmit_loop :: "u8 \<Rightarrow> nat \<Rightarrow> i_queue_control \<Rightarrow> i_queue_control" where
  "retransmit_loop nr 0 c = c"
| "retransmit_loop nr (Suc fuel) c =
     (if next_ns c \<noteq> nr then
        if confirm_ns c = next_ns c then c
        else retransmit_loop nr fuel (c\<lparr>next_ns := (next_ns c - 1) AND seq_bits_mask\<rparr>)
      else c)"

definition i_queue_control_restransmit_frame :: "u8 \<Rightarrow> i_queue_control \<Rightarrow> bool \<times> i_queue_control" where
  "i_queue_control_restransmit_frame nr c = (False, retransmit_loop nr 8 c)"

subsection \<open>Arithmetic of sequence numbers\<close>

text \<open>How many steps upwards from \<open>a\<close> to \<open>b\<close>, and the numbers on the way.\<close>

definition seq_dist :: "u8 \<Rightarrow> u8 \<Rightarrow> nat" where
  "seq_dist a b = unat ((b - a) AND 7)"

abbreviation seq_next :: "u8 \<Rightarrow> u8" where "seq_next a \<equiv> (a + 1) AND 7"
abbreviation seq_prev :: "u8 \<Rightarrow> u8" where "seq_prev a \<equiv> (a - 1) AND 7"

fun seqs :: "u8 \<Rightarrow> nat \<Rightarrow> u8 list" where
  "seqs a 0 = []"
| "seqs a (Suc n) = a # seqs (seq_next a) n"

fun seq_add :: "u8 \<Rightarrow> nat \<Rightarrow> u8" where
  "seq_add a 0 = a"
| "seq_add a (Suc n) = seq_add (seq_next a) n"

lemma and_7_less: "(a :: u8) AND 7 < 8"
proof -
  have "a AND 7 \<le> 7" by (rule word_and_le1)
  then show ?thesis by (simp add: word_le_nat_alt word_less_nat_alt)
qed

lemma seq_dist_less [simp]: "seq_dist a b < 8"
  using and_7_less [of "b - a"] by (simp add: seq_dist_def word_less_nat_alt)

lemma seq_dist_refl [simp]: "seq_dist a a = 0"
  by (simp add: seq_dist_def)

lemma seq_dist_0: "a < 8 \<Longrightarrow> b < 8 \<Longrightarrow> seq_dist a b = 0 \<longleftrightarrow> a = b"
  using u8_less_8 [of a] u8_less_8 [of b] by (auto simp: seq_dist_def)

lemma seq_dist_step: "a < 8 \<Longrightarrow> b < 8 \<Longrightarrow> a \<noteq> b \<Longrightarrow> seq_dist a b = Suc (seq_dist (seq_next a) b)"
  using u8_less_8 [of a] u8_less_8 [of b] by (auto simp: seq_dist_def)

lemma seq_dist_next: "a < 8 \<Longrightarrow> b < 8 \<Longrightarrow> seq_dist a b < 7 \<Longrightarrow> seq_dist a (seq_next b) = Suc (seq_dist a b)"
  using u8_less_8 [of a] u8_less_8 [of b] by (auto simp: seq_dist_def)

lemma seq_dist_prev: "a < 8 \<Longrightarrow> b < 8 \<Longrightarrow> a \<noteq> b \<Longrightarrow> seq_dist a b = Suc (seq_dist a (seq_prev b))"
  using u8_less_8 [of a] u8_less_8 [of b] by (auto simp: seq_dist_def)

lemma seq_dist_full: "a < 8 \<Longrightarrow> b < 8 \<Longrightarrow> seq_next b = a \<longleftrightarrow> seq_dist a b = 7"
  using u8_less_8 [of a] u8_less_8 [of b] by (auto simp: seq_dist_def)

lemma seq_dist_inj: "a < 8 \<Longrightarrow> b < 8 \<Longrightarrow> c < 8 \<Longrightarrow> seq_dist a b = seq_dist a c \<longleftrightarrow> b = c"
proof (induction "seq_dist a b" arbitrary: a rule: less_induct)
  case less
  show ?case
  proof (cases "a = b \<or> a = c")
    case True
    then show ?thesis using less.prems seq_dist_0 by metis
  next
    case False
    then have *: "seq_dist a b = Suc (seq_dist (seq_next a) b)" "seq_dist a c = Suc (seq_dist (seq_next a) c)"
      using less.prems seq_dist_step by auto
    then show ?thesis using less.hyps [of "seq_next a"] less.prems and_7_less by simp
  qed
qed

lemma seqs_length [simp]: "length (seqs a n) = n"
  by (induction a n rule: seqs.induct) simp_all

lemma seq_add_less: "a < 8 \<Longrightarrow> seq_add a n < 8"
  by (induction a n rule: seq_add.induct) (simp_all add: and_7_less)

lemma seq_add_dist: "a < 8 \<Longrightarrow> b < 8 \<Longrightarrow> seq_add a (seq_dist a b) = b"
proof (induction "seq_dist a b" arbitrary: a)
  case 0
  then show ?case using seq_dist_0 [of a b] by simp
next
  case (Suc n)
  then have "a \<noteq> b" by auto
  then have "seq_dist a b = Suc (seq_dist (seq_next a) b)" using Suc.prems by (simp add: seq_dist_step)
  then show ?case using Suc by (simp add: and_7_less)
qed

text \<open>The numbers of the frames in the window.\<close>

definition in_window :: "u8 \<Rightarrow> u8 \<Rightarrow> u8 \<Rightarrow> bool" where
  "in_window c l n \<longleftrightarrow> n < 8 \<and> seq_dist c n < seq_dist c l"

lemma in_window_empty [simp]: "\<not> in_window c c n"
  by (simp add: in_window_def)

lemma not_in_window_last: "\<not> in_window c l l"
  by (simp add: in_window_def)

lemma in_window_step:
  assumes "c < 8" "l < 8" "c \<noteq> l"
  shows "in_window c l n \<longleftrightarrow> n = c \<or> in_window (seq_next c) l n" and "\<not> in_window (seq_next c) l c"
proof -
  show "in_window c l n \<longleftrightarrow> n = c \<or> in_window (seq_next c) l n"
    using assms seq_dist_step [of c l] seq_dist_step [of c n] by (cases "n = c") (auto simp: in_window_def)
  have "seq_dist (seq_next c) c = 7" using u8_less_8 [OF assms(1)] by (auto simp: seq_dist_def)
  then show "\<not> in_window (seq_next c) l c" using seq_dist_less [of "seq_next c" l] unfolding in_window_def by linarith
qed

lemma in_window_extend:
  assumes "c < 8" "l < 8" "seq_dist c l < 7"
  shows "in_window c (seq_next l) n \<longleftrightarrow> in_window c l n \<or> n = l"
  using assms seq_dist_next [OF assms] seq_dist_inj [of c n l] by (auto simp: in_window_def less_Suc_eq)

lemma set_seqs:
  "c < 8 \<Longrightarrow> l < 8 \<Longrightarrow> set (seqs c (seq_dist c l)) = {n. in_window c l n} \<and> distinct (seqs c (seq_dist c l))"
proof (induction "seq_dist c l" arbitrary: c)
  case 0
  then have "c = l" using seq_dist_0 by metis
  then show ?case by simp
next
  case (Suc n)
  then have ne: "c \<noteq> l" by auto
  have d: "seq_dist c l = Suc (seq_dist (seq_next c) l)" using Suc.prems ne by (simp add: seq_dist_step)
  then have ih: "set (seqs (seq_next c) (seq_dist (seq_next c) l)) = {n. in_window (seq_next c) l n}
      \<and> distinct (seqs (seq_next c) (seq_dist (seq_next c) l))"
    using Suc.hyps Suc.prems and_7_less by simp
  show ?case unfolding d using ih in_window_step [OF Suc.prems ne] by auto
qed

lemma card_window: "c < 8 \<Longrightarrow> l < 8 \<Longrightarrow> card {n. in_window c l n} = seq_dist c l"
  using set_seqs [of c l] distinct_card [of "seqs c (seq_dist c l)"] by simp

lemma tx_full_iff: "confirm_ns c < 8 \<Longrightarrow> last_ns c < 8 \<Longrightarrow>
  i_queue_control_tx_full c \<longleftrightarrow> seq_dist (confirm_ns c) (last_ns c) = 7"
  by (simp add: i_queue_control_tx_full_def seq_bits_mask_def seq_dist_full)

subsection \<open>The loops\<close>

text \<open>How many frames a received N(R) confirms: those before it, or all if it is none of the window's.\<close>

definition confirmed_count :: "u8 \<Rightarrow> u8 \<Rightarrow> u8 \<Rightarrow> nat" where
  "confirmed_count c l nr =
     (if nr < 8 \<and> seq_dist c nr \<le> seq_dist c l then seq_dist c nr else seq_dist c l)"

definition control_wf :: "i_queue_control \<Rightarrow> bool" where
  "control_wf c \<longleftrightarrow> last_ns c < 8 \<and> confirm_ns c < 8 \<and> next_ns c < 8 \<and> next_nr c < 8"

lemma confirmed_count_step:
  assumes "c < 8" "l < 8" "c \<noteq> l" "nr \<noteq> c"
  shows "confirmed_count c l nr = Suc (confirmed_count (seq_next c) l nr)"
proof (cases "nr < 8")
  case True
  then show ?thesis using assms seq_dist_step [of c l] seq_dist_step [of c nr] by (auto simp: confirmed_count_def)
next
  case False
  then show ?thesis using assms seq_dist_step [of c l] by (simp add: confirmed_count_def)
qed

lemma confirm_loop_spec:
  assumes "confirm_ns c < 8" "last_ns c < 8" "confirmed_count (confirm_ns c) (last_ns c) nr < fuel"
  defines "k \<equiv> confirmed_count (confirm_ns c) (last_ns c) nr"
  shows "confirm_loop cb nr fuel c s =
    (c\<lparr>confirm_ns := seq_add (confirm_ns c) k\<rparr>, fold (\<lambda>n s. snd (cb n s)) (seqs (confirm_ns c) k) s)"
  using assms(1-3) unfolding k_def
proof (induction fuel arbitrary: c s)
  case 0
  then show ?case by simp
next
  case (Suc fuel)
  show ?case
  proof (cases "nr = confirm_ns c \<or> confirm_ns c = last_ns c")
    case True
    then have "confirmed_count (confirm_ns c) (last_ns c) nr = 0"
      using Suc.prems(1,2) by (auto simp: confirmed_count_def)
    then show ?thesis using True by (auto simp: i_queue_control_has_unconfirmed_frames_def)
  next
    case False
    define c1 where "c1 = c\<lparr>confirm_ns := seq_next (confirm_ns c)\<rparr>"
    have step: "confirmed_count (confirm_ns c) (last_ns c) nr = Suc (confirmed_count (confirm_ns c1) (last_ns c1) nr)"
      using confirmed_count_step Suc.prems(1,2) False by (simp add: c1_def)
    obtain found s1 where cb: "cb (confirm_ns c) s = (found, s1)" by fastforce
    have "confirm_loop cb nr (Suc fuel) c s = confirm_loop cb nr fuel c1 s1"
      using False cb by (simp add: i_queue_control_has_unconfirmed_frames_def c1_def seq_bits_mask_def)
    also have "\<dots> = (c1\<lparr>confirm_ns := seq_add (confirm_ns c1) (confirmed_count (confirm_ns c1) (last_ns c1) nr)\<rparr>,
        fold (\<lambda>n s. snd (cb n s)) (seqs (confirm_ns c1) (confirmed_count (confirm_ns c1) (last_ns c1) nr)) s1)"
      using Suc.IH [of c1 s1] Suc.prems step by (simp add: c1_def and_7_less)
    finally show ?thesis unfolding step using cb by (simp add: c1_def)
  qed
qed

lemma confirmed_count_less: "confirmed_count c l nr < 8"
  by (simp add: confirmed_count_def)

text \<open>
  Processing a received N(R): the callback is called for the frames from \<open>confirm_ns\<close> on, one by
  one and in order, up to but not including N(R); if N(R) is not in the window (the remote side is out
  of sync), for every frame of the window. \<open>confirm_ns\<close> ends behind the last of them, nothing else of
  the control block changes, and the result tells whether the window has room again.
\<close>

theorem confirm_sent_frames_spec:
  fixes nr :: u8
  assumes "control_wf c"
  defines "k \<equiv> confirmed_count (confirm_ns c) (last_ns c) nr"
  shows "i_queue_control_confirm_sent_frames cb nr c s =
    (seq_dist (seq_add (confirm_ns c) k) (last_ns c) \<noteq> 7, c\<lparr>confirm_ns := seq_add (confirm_ns c) k\<rparr>,
     fold (\<lambda>n s. snd (cb n s)) (seqs (confirm_ns c) k) s)"
  using confirm_loop_spec [of c nr 8 cb s] assms(1) confirmed_count_less seq_add_less
  by (simp add: i_queue_control_confirm_sent_frames_def k_def control_wf_def tx_full_iff)

definition demo_control :: i_queue_control where
  "demo_control = \<lparr>last_ns = 1, confirm_ns = 6, next_ns = 0, next_nr = 3\<rparr>"

theorem confirm_sent_frames_spec_witness:
  "i_queue_control_confirm_sent_frames (\<lambda>n s. (True, s @ [n])) 0 demo_control []
     = (True, demo_control\<lparr>confirm_ns := 0\<rparr>, [6, 7])"
proof -
  have "seq_dist 6 0 = 2" "seq_dist 6 1 = 3" "seq_dist 0 1 = 1" by (simp_all add: seq_dist_def)
  moreover have "seqs 6 2 = [6, 7]" "seq_add 6 2 = 0" by (simp_all add: numeral_2_eq_2)
  ultimately show ?thesis
    using confirm_sent_frames_spec [of demo_control "\<lambda>n s. (True, s @ [n])" 0 "[]"]
    by (simp add: demo_control_def control_wf_def confirmed_count_def)
qed

text \<open>Going back for a retransmission.\<close>

lemma retransmit_loop_spec:
  assumes "control_wf c" "nr < 8" "seq_dist (confirm_ns c) (next_ns c) < fuel"
  shows "retransmit_loop nr fuel c =
    c\<lparr>next_ns := (if seq_dist (confirm_ns c) nr \<le> seq_dist (confirm_ns c) (next_ns c) then nr else confirm_ns c)\<rparr>"
  using assms
proof (induction fuel arbitrary: c)
  case 0
  then show ?case by simp
next
  case (Suc fuel)
  consider (reached) "next_ns c = nr" | (low) "next_ns c \<noteq> nr" "confirm_ns c = next_ns c"
    | (down) "next_ns c \<noteq> nr" "confirm_ns c \<noteq> next_ns c" by blast
  then show ?case
  proof cases
    case reached
    then show ?thesis by simp
  next
    case low
    then have "seq_dist (confirm_ns c) nr \<noteq> 0" using Suc.prems by (simp add: seq_dist_0 control_wf_def)
    then show ?thesis using low by simp
  next
    case down
    define c1 where "c1 = c\<lparr>next_ns := seq_prev (next_ns c)\<rparr>"
    have d: "seq_dist (confirm_ns c) (next_ns c) = Suc (seq_dist (confirm_ns c1) (next_ns c1))"
      using seq_dist_prev [of "confirm_ns c" "next_ns c"] Suc.prems(1) down by (simp add: c1_def control_wf_def)
    have "seq_dist (confirm_ns c) nr \<noteq> seq_dist (confirm_ns c) (next_ns c)"
      using seq_dist_inj Suc.prems(1,2) down by (simp add: control_wf_def)
    then have le: "seq_dist (confirm_ns c) nr \<le> seq_dist (confirm_ns c) (next_ns c) \<longleftrightarrow>
        seq_dist (confirm_ns c1) nr \<le> seq_dist (confirm_ns c1) (next_ns c1)"
      using d by (simp add: c1_def) linarith
    have "control_wf c1" using Suc.prems(1) by (simp add: c1_def control_wf_def and_7_less)
    then have "retransmit_loop nr fuel c1 = c1\<lparr>next_ns :=
        (if seq_dist (confirm_ns c1) nr \<le> seq_dist (confirm_ns c1) (next_ns c1) then nr else confirm_ns c1)\<rparr>"
      using Suc.IH [of c1] Suc.prems d by simp
    then show ?thesis using down le by (simp add: c1_def seq_bits_mask_def)
  qed
qed

subsection \<open>The window is a FIFO queue\<close>

text \<open>
  Over any frame store, with the numbers of the window as its domain: \<open>put\<close> at \<open>last_ns\<close> appends a
  frame, and deleting \<open>confirm_ns\<close> takes the first one off.
\<close>

context frame_store
begin

definition holds :: "'q \<Rightarrow> u8 \<Rightarrow> u8 \<Rightarrow> bool" where
  "holds q c l \<longleftrightarrow> inv q \<and> c < 8 \<and> l < 8 \<and> dom (lookup q) = {n. in_window c l n}"

definition contents :: "'q \<Rightarrow> u8 \<Rightarrow> u8 \<Rightarrow> u8 list list" where
  "contents q c l = map (\<lambda>n. the (lookup q n)) (seqs c (seq_dist c l))"

lemma holds_lookup: "holds q c l \<Longrightarrow> in_window c l n \<longleftrightarrow> (\<exists>d. lookup q n = Some d)"
  by (auto simp: holds_def dom_def)

lemma contents_empty [simp]: "contents q c c = []"
  by (simp add: contents_def)

lemma contents_step:
  "c < 8 \<Longrightarrow> l < 8 \<Longrightarrow> c \<noteq> l \<Longrightarrow> contents q c l = the (lookup q c) # contents q (seq_next c) l"
  by (simp add: contents_def seq_dist_step)

lemma contents_cong:
  assumes "c < 8" "l < 8" "\<And>n. in_window c l n \<Longrightarrow> lookup q' n = lookup q n"
  shows "contents q' c l = contents q c l"
  using assms(3) set_seqs [OF assms(1,2)] by (auto simp: contents_def)

lemma contents_extend:
  "c < 8 \<Longrightarrow> l < 8 \<Longrightarrow> seq_dist c l < 7 \<Longrightarrow> contents q c (seq_next l) = contents q c l @ [the (lookup q l)]"
proof (induction "seq_dist c l" arbitrary: c)
  case 0
  then have "c = l" using seq_dist_0 by metis
  moreover have "seq_dist l (seq_next l) = Suc 0" using seq_dist_next [of l l] 0 by simp
  ultimately show ?case by (simp add: contents_def)
next
  case (Suc n)
  then have ne: "c \<noteq> l" "c \<noteq> seq_next l" using seq_dist_full [of c l] by auto
  have d: "seq_dist c l = Suc (seq_dist (seq_next c) l)" using Suc.prems ne by (simp add: seq_dist_step)
  then have "contents q (seq_next c) (seq_next l) = contents q (seq_next c) l @ [the (lookup q l)]"
    using Suc.hyps Suc.prems and_7_less by simp
  then show ?case using contents_step [of c l] contents_step [of c "seq_next l"] Suc.prems ne and_7_less by simp
qed

lemma put_appends:
  assumes "holds q c l" "put q l d = Some q'"
  shows "seq_dist c l < 7" and "holds q' c (seq_next l)" and "contents q' c (seq_next l) = contents q c l @ [d]"
proof -
  note h = assms(1) [unfolded holds_def]
  have "l \<notin> dom (lookup q)" using h not_in_window_last by simp
  then have None: "lookup q l = None" by (simp add: domIff)
  have l8: "l < 8" "c < 8" "inv q" using h by simp_all
  have q': "inv q'" "lookup q' = (lookup q)(l \<mapsto> d)"
    using inv_put [OF l8(3,1) None assms(2)] lookup_put [OF l8(3,1) None assms(2)] by simp_all
  have dom: "dom (lookup q') = insert l {n. in_window c l n}" using h by (simp add: q'(2))
  have "finite {n. in_window c l n}" by (rule finite_subset [of _ UNIV]) simp_all
  then have "card (dom (lookup q')) = Suc (seq_dist c l)"
    unfolding dom using card_window [OF l8(2,1)] not_in_window_last by simp
  then show d7: "seq_dist c l < 7" using bounded [OF q'(1)] by simp
  have "{n. in_window c (seq_next l) n} = insert l {n. in_window c l n}"
    using in_window_extend [OF l8(2,1) d7] by blast
  then show "holds q' c (seq_next l)"
    unfolding holds_def using q'(1) dom l8(2) and_7_less by simp
  have "contents q' c l = contents q c l"
  proof (rule contents_cong [OF l8(2,1)])
    fix n assume "in_window c l n"
    then have "n \<noteq> l" using not_in_window_last by blast
    then show "lookup q' n = lookup q n" by (simp add: q'(2))
  qed
  then show "contents q' c (seq_next l) = contents q c l @ [d]"
    using contents_extend [OF l8(2,1) d7, of q'] q'(2) by simp
qed

lemma delete_first:
  assumes "holds q c l" "c \<noteq> l"
  shows "holds (del q c) (seq_next c) l" and "contents (del q c) (seq_next c) l = tl (contents q c l)"
    and "lookup q c = Some (hd (contents q c l))"
proof -
  note h = assms(1) [unfolded holds_def]
  have c8: "c < 8" "l < 8" "inv q" using h by simp_all
  note win = in_window_step [OF c8(1,2) assms(2)]
  have "dom (lookup (del q c)) = {n. in_window c l n} - {c}" using h lookup_del [OF c8(3)] by simp
  moreover have "\<dots> = {n. in_window (seq_next c) l n}" using win by blast
  ultimately show "holds (del q c) (seq_next c) l"
    unfolding holds_def using inv_del c8 and_7_less by simp
  have "contents (del q c) (seq_next c) l = contents q (seq_next c) l"
  proof (rule contents_cong [OF and_7_less c8(2)])
    fix n assume "in_window (seq_next c) l n"
    then have "n \<noteq> c" using win(2) by blast
    then show "lookup (del q c) n = lookup q n" by (simp add: lookup_del [OF c8(3)])
  qed
  then show "contents (del q c) (seq_next c) l = tl (contents q c l)"
    using contents_step [OF c8(1,2) assms(2)] by simp
  have "in_window c l c" using win by simp
  then show "lookup q c = Some (hd (contents q c l))"
    using holds_lookup [OF assms(1), of c] contents_step [OF c8(1,2) assms(2)] by auto
qed

end

end
