(* ===== verification/HalEvents.thy ===== *)
theory HalEvents
  imports TinyPrelude
begin

unbundle bit_operations_syntax

section \<open>Mutexes and event groups of the HAL\<close>

text \<open>
  The portable implementation (\<open>hal/no_platform/no_platform_hal.inl\<close>) and the one for single core
  controllers (\<open>hal/single_core/hal_single_core.inl\<close>), which differ in how a step is made atomic. A
  mutex is a byte, an event group a byte of bits with a mutex. The steps of several threads are
  interleaved by a step relation; what the protocol layers rely on is the locale \<open>event_group\<close>.
\<close>

subsection \<open>Mutex\<close>

text \<open>\<open>__sync_bool_compare_and_swap\<close>: whether the swap took place, and the new value.\<close>

definition compare_and_swap :: "u8 \<Rightarrow> u8 \<Rightarrow> u8 \<Rightarrow> bool \<times> u8" where
  "compare_and_swap m old new = (if m = old then (True, new) else (False, m))"

definition mutex_create_default :: u8 where "mutex_create_default = 0"

definition mutex_try_lock_default :: "u8 \<Rightarrow> bool \<times> u8" where
  "mutex_try_lock_default m = compare_and_swap m 0 1"

definition mutex_unlock_default :: "u8 \<Rightarrow> u8" where
  "mutex_unlock_default m = snd (compare_and_swap m 1 0)"

definition sc_mutex_try_lock :: "u8 \<Rightarrow> bool \<times> u8" where
  "sc_mutex_try_lock m = (m = 0, 1)"

definition sc_mutex_unlock :: "u8 \<Rightarrow> u8" where
  "sc_mutex_unlock m = 0"

text \<open>
  Threads that lock (a loop of \<open>try_lock\<close>), hold and release a mutex, one atomic step at a time.
\<close>

datatype mutex_pc = Outside | Locking | Holding

type_synonym mutex_sys = "u8 \<times> (nat \<Rightarrow> mutex_pc)"

inductive mutex_step :: "(u8 \<Rightarrow> bool \<times> u8) \<Rightarrow> (u8 \<Rightarrow> u8) \<Rightarrow> mutex_sys \<Rightarrow> mutex_sys \<Rightarrow> bool"
  for try_lock unlock where
  want: "pc t = Outside \<Longrightarrow> mutex_step try_lock unlock (m, pc) (m, pc(t := Locking))"
| acquire: "pc t = Locking \<Longrightarrow> try_lock m = (True, m') \<Longrightarrow>
     mutex_step try_lock unlock (m, pc) (m', pc(t := Holding))"
| spin: "pc t = Locking \<Longrightarrow> try_lock m = (False, m') \<Longrightarrow> mutex_step try_lock unlock (m, pc) (m', pc)"
| release: "pc t = Holding \<Longrightarrow> mutex_step try_lock unlock (m, pc) (unlock m, pc(t := Outside))"

inductive_cases mutex_stepE: "mutex_step try_lock unlock (m, pc) s"

inductive mutex_reachable :: "(u8 \<Rightarrow> bool \<times> u8) \<Rightarrow> (u8 \<Rightarrow> u8) \<Rightarrow> mutex_sys \<Rightarrow> bool"
  for try_lock unlock where
  start: "mutex_reachable try_lock unlock (mutex_create_default, \<lambda>t. Outside)"
| step: "mutex_reachable try_lock unlock s \<Longrightarrow> mutex_step try_lock unlock s s' \<Longrightarrow>
     mutex_reachable try_lock unlock s'"

text \<open>What an implementation has to provide.\<close>

locale mutex_impl =
  fixes try_lock :: "u8 \<Rightarrow> bool \<times> u8" and unlock :: "u8 \<Rightarrow> u8"
  assumes try_free: "try_lock 0 = (True, 1)"
    and try_held: "try_lock 1 = (False, 1)"
    and unlock_held: "unlock 1 = 0"
begin

definition consistent :: "mutex_sys \<Rightarrow> bool" where
  "consistent s \<longleftrightarrow> (fst s = 0 \<and> (\<forall>t. snd s t \<noteq> Holding)
     \<or> fst s = 1 \<and> (\<exists>t. snd s t = Holding \<and> (\<forall>u. u \<noteq> t \<longrightarrow> snd s u \<noteq> Holding)))"

lemma consistentE:
  assumes "consistent (m, pc)"
  obtains (free) "m = 0" "\<forall>t. pc t \<noteq> Holding"
    | (held) t where "m = 1" "pc t = Holding" "\<forall>u. u \<noteq> t \<longrightarrow> pc u \<noteq> Holding"
  using assms unfolding consistent_def fst_conv snd_conv by blast

lemma consistent_free: "\<forall>t. pc t \<noteq> Holding \<Longrightarrow> consistent (0, pc)"
  by (simp add: consistent_def)

lemma consistent_held: "pc t = Holding \<Longrightarrow> \<forall>u. u \<noteq> t \<longrightarrow> pc u \<noteq> Holding \<Longrightarrow> consistent (1, pc)"
  unfolding consistent_def fst_conv snd_conv by blast

lemma consistent_step: "mutex_step try_lock unlock s s' \<Longrightarrow> consistent s \<Longrightarrow> consistent s'"
proof (induction rule: mutex_step.induct)
  case (want pc t m)
  from want.prems show ?case
  proof (cases rule: consistentE)
    case free
    then show ?thesis by (simp add: consistent_free)
  next
    case (held u)
    then have "u \<noteq> t" using want.hyps by force
    then show ?thesis using held consistent_held [of "pc(t := Locking)" u] by simp
  qed
next
  case (acquire pc t m m')
  from acquire.prems show ?case
  proof (cases rule: consistentE)
    case free
    then have "m' = 1" using try_free acquire.hyps by simp
    then show ?thesis using free consistent_held [of "pc(t := Holding)" t] by simp
  next
    case (held u)
    then show ?thesis using try_held acquire.hyps by simp
  qed
next
  case (spin pc t m m')
  from spin.prems show ?case
  proof (cases rule: consistentE)
    case free
    then show ?thesis using try_free spin.hyps by simp
  next
    case (held u)
    then show ?thesis using try_held spin.hyps spin.prems by simp
  qed
next
  case (release pc t m)
  from release.prems show ?case
  proof (cases rule: consistentE)
    case free
    then show ?thesis using release.hyps by simp
  next
    case (held u)
    then have "u = t" using release.hyps by metis
    then show ?thesis using held unlock_held by (simp add: consistent_free)
  qed
qed

lemma reachable_consistent: "mutex_reachable try_lock unlock s \<Longrightarrow> consistent s"
proof (induction rule: mutex_reachable.induct)
  case start
  then show ?case by (simp add: consistent_def mutex_create_default_def)
next
  case (step s s')
  then show ?case by (simp add: consistent_step)
qed

lemma mutual_exclusion:
  "mutex_reachable try_lock unlock (m, pc) \<Longrightarrow> pc t = Holding \<Longrightarrow> pc u = Holding \<Longrightarrow> t = u"
  using reachable_consistent [of "(m, pc)"] by (metis consistentE)

lemma free_when_unheld:
  "mutex_reachable try_lock unlock (m, pc) \<Longrightarrow> \<forall>t. pc t \<noteq> Holding \<Longrightarrow> m = 0"
  using reachable_consistent [of "(m, pc)"] by (metis consistentE)

end

interpretation default_mutex: mutex_impl mutex_try_lock_default mutex_unlock_default
  by unfold_locales (simp_all add: mutex_try_lock_default_def mutex_unlock_default_def compare_and_swap_def)

interpretation sc_mutex: mutex_impl sc_mutex_try_lock sc_mutex_unlock
  by unfold_locales (simp_all add: sc_mutex_try_lock_def sc_mutex_unlock_def)

text \<open>
  C38: Whatever the interleaving of any number of threads, at most one of them is between
  \<open>tiny_mutex_lock\<close> and \<open>tiny_mutex_unlock\<close>, and when none is, the next attempt to lock succeeds;
  both for the portable mutex and for the single core one.
\<close>

theorem tiny_mutex_mutual_exclusion:
  assumes "mutex_reachable mutex_try_lock_default mutex_unlock_default (m, pc)
    \<or> mutex_reachable sc_mutex_try_lock sc_mutex_unlock (m, pc)"
  shows "(\<forall>t u. pc t = Holding \<longrightarrow> pc u = Holding \<longrightarrow> t = u)
    \<and> ((\<forall>t. pc t \<noteq> Holding) \<longrightarrow> fst (mutex_try_lock_default m) \<and> fst (sc_mutex_try_lock m))"
proof -
  have "pc t = Holding \<Longrightarrow> pc u = Holding \<Longrightarrow> t = u" for t u
    using assms default_mutex.mutual_exclusion sc_mutex.mutual_exclusion by blast
  moreover have "\<forall>t. pc t \<noteq> Holding \<Longrightarrow> m = 0"
    using assms default_mutex.free_when_unheld sc_mutex.free_when_unheld by blast
  ultimately show ?thesis
    by (simp add: mutex_try_lock_default_def sc_mutex_try_lock_def compare_and_swap_def)
qed

theorem tiny_mutex_mutual_exclusion_witness:
  "\<exists>pc. mutex_reachable mutex_try_lock_default mutex_unlock_default (1, pc) \<and> pc 7 = Holding
     \<and> (\<forall>u. pc u = Holding \<longrightarrow> 7 = u)"
proof -
  define pc where "pc = (\<lambda>t::nat. Outside)(7 := Locking, 7 := Holding)"
  have r: "mutex_reachable mutex_try_lock_default mutex_unlock_default (1, pc)"
    unfolding pc_def
    by (rule mutex_reachable.step [OF mutex_reachable.step [OF mutex_reachable.start mutex_step.want [of _ 7]]
          mutex_step.acquire [of _ 7]])
      (simp_all add: mutex_create_default_def mutex_try_lock_default_def compare_and_swap_def)
  moreover have "pc 7 = Holding" by (simp add: pc_def)
  ultimately show ?thesis using tiny_mutex_mutual_exclusion [of 1 pc] by blast
qed

subsection \<open>Event groups\<close>

definition events_create_default :: u8 where "events_create_default = 0"

definition events_set_default :: "u8 \<Rightarrow> u8 \<Rightarrow> u8" where
  "events_set_default bits b = bits OR b"

definition events_clear_default :: "u8 \<Rightarrow> u8 \<Rightarrow> u8" where
  "events_clear_default bits b = bits AND NOT b"

text \<open>One look at the bits under the mutex: the bits seen, and the bits left.\<close>

definition events_check_int_default :: "u8 \<Rightarrow> u8 \<Rightarrow> bool \<Rightarrow> u8 \<times> u8" where
  "events_check_int_default bits b clear =
     (bits, if clear \<and> bits AND b \<noteq> 0 then bits AND NOT b else bits)"

text \<open>
  \<open>events_wait\<close> looks again until a requested bit is set or the time is over. \<open>env k\<close> is what the
  other threads do to the bits before the \<open>k\<close>-th look, \<open>clock k\<close> what \<open>tiny_millis\<close> returns after it
  (\<open>ts\<close> is read before the loop). A wait that never ends is \<open>None\<close>.
\<close>

partial_function (option) events_wait_loop ::
  "(nat \<Rightarrow> u8 \<Rightarrow> u8) \<Rightarrow> (nat \<Rightarrow> u32) \<Rightarrow> u32 \<Rightarrow> u32 \<Rightarrow> u8 \<Rightarrow> bool \<Rightarrow> nat \<Rightarrow> u8 \<Rightarrow> (u8 \<times> u8) option" where
  "events_wait_loop env clock ts timeout b clear k bits =
     (case events_check_int_default (env k bits) b clear of (locked, bits) \<Rightarrow>
        if locked AND b \<noteq> 0 then Some (locked, bits)
        else if clock k - ts \<ge> timeout then Some (0, bits)
        else events_wait_loop env clock ts timeout b clear (k + 1) bits)"

definition events_wait_default ::
  "(nat \<Rightarrow> u8 \<Rightarrow> u8) \<Rightarrow> (nat \<Rightarrow> u32) \<Rightarrow> u32 \<Rightarrow> u8 \<Rightarrow> u8 \<Rightarrow> bool \<Rightarrow> u32 \<Rightarrow> (u8 \<times> u8) option" where
  "events_wait_default env clock ts bits b clear timeout = events_wait_loop env clock ts timeout b clear 0 bits"

text \<open>The bits as the other threads make them, while nobody takes the requested ones.\<close>

fun env_bits :: "(nat \<Rightarrow> u8 \<Rightarrow> u8) \<Rightarrow> nat \<Rightarrow> u8 \<Rightarrow> nat \<Rightarrow> u8" where
  "env_bits env k bits 0 = env k bits"
| "env_bits env k bits (Suc n) = env_bits env (Suc k) (env k bits) n"

lemma events_wait_loop_result:
  assumes "\<forall>i < n. env_bits env k bits i AND b = 0 \<and> \<not> clock (k + i) - ts \<ge> timeout"
  defines "seen \<equiv> env_bits env k bits n"
  shows "seen AND b \<noteq> 0 \<Longrightarrow> events_wait_loop env clock ts timeout b clear k bits
      = Some (seen, if clear then seen AND NOT b else seen)"
    and "seen AND b = 0 \<Longrightarrow> clock (k + n) - ts \<ge> timeout \<Longrightarrow>
      events_wait_loop env clock ts timeout b clear k bits = Some (0, seen)"
proof -
  have "(env_bits env k bits n AND b \<noteq> 0 \<longrightarrow> events_wait_loop env clock ts timeout b clear k bits
      = Some (env_bits env k bits n, if clear then env_bits env k bits n AND NOT b else env_bits env k bits n))
    \<and> (env_bits env k bits n AND b = 0 \<longrightarrow> clock (k + n) - ts \<ge> timeout \<longrightarrow>
      events_wait_loop env clock ts timeout b clear k bits = Some (0, env_bits env k bits n))"
    using assms(1)
  proof (induction n arbitrary: k bits)
    case 0
    then show ?case by (simp add: events_wait_loop.simps [of _ _ _ _ _ _ k] events_check_int_default_def)
  next
    case (Suc n)
    have "env k bits AND b = 0 \<and> \<not> clock k - ts \<ge> timeout" using Suc.prems by force
    then have step: "events_wait_loop env clock ts timeout b clear k bits
        = events_wait_loop env clock ts timeout b clear (Suc k) (env k bits)"
      by (simp add: events_wait_loop.simps [of _ _ _ _ _ _ k] events_check_int_default_def)
    have "\<forall>i < n. env_bits env (Suc k) (env k bits) i AND b = 0 \<and> \<not> clock (Suc k + i) - ts \<ge> timeout"
      using Suc.prems by (metis Suc_less_eq add_Suc_shift env_bits.simps(2))
    from Suc.IH [OF this] show ?case by (simp add: step)
  qed
  then show "seen AND b \<noteq> 0 \<Longrightarrow> events_wait_loop env clock ts timeout b clear k bits
      = Some (seen, if clear then seen AND NOT b else seen)"
    and "seen AND b = 0 \<Longrightarrow> clock (k + n) - ts \<ge> timeout \<Longrightarrow>
      events_wait_loop env clock ts timeout b clear k bits = Some (0, seen)"
    by (simp_all add: seen_def)
qed

text \<open>
  C39: If the clock ever shows that the time is over, \<open>tiny_events_wait\<close> returns, whatever the other
  threads do. It returns at its first look that finds a requested bit, with all bits it saw, also those that were not requested, and, for
  \<open>EVENT_BITS_CLEAR\<close>, the requested ones taken from the event group; or 0 with the bits untouched, when the time is over
  and it has seen none of them.
\<close>

theorem tiny_events_wait_returns:
  assumes "clock m - ts \<ge> timeout"
  shows "\<exists>n\<le>m. (\<forall>i < n. env_bits env 0 bits i AND b = 0) \<and>
    events_wait_default env clock ts bits b clear timeout =
      (let seen = env_bits env 0 bits n
       in if seen AND b \<noteq> 0 then Some (seen, if clear then seen AND NOT b else seen) else Some (0, seen))
    \<and> (env_bits env 0 bits n AND b \<noteq> 0 \<or> clock n - ts \<ge> timeout)"
proof -
  define stop where "stop = (\<lambda>i. env_bits env 0 bits i AND b \<noteq> 0 \<or> clock i - ts \<ge> timeout)"
  define n where "n = (LEAST i. stop i)"
  have "stop m" using assms by (simp add: stop_def)
  then have n: "stop n" "n \<le> m" "\<forall>i < n. \<not> stop i"
    by (auto simp: n_def intro: LeastI Least_le dest: not_less_Least)
  have early: "\<forall>i < n. env_bits env 0 bits i AND b = 0 \<and> \<not> clock (0 + i) - ts \<ge> timeout"
    using n(3) by (simp add: stop_def)
  have "events_wait_default env clock ts bits b clear timeout =
      (let seen = env_bits env 0 bits n
       in if seen AND b \<noteq> 0 then Some (seen, if clear then seen AND NOT b else seen) else Some (0, seen))"
    using events_wait_loop_result [OF early] n(1) by (auto simp: events_wait_default_def stop_def Let_def)
  then show ?thesis using early n(1,2) by (intro exI [of _ n]) (simp add: stop_def)
qed

theorem tiny_events_wait_returns_witness:
  "\<exists>r. events_wait_default (\<lambda>k bits. if k = 2 then bits OR 4 else bits) of_nat 0 1 4 True 10 = Some r"
proof -
  have "(10 :: u32) \<le> of_nat 10 - 0" by simp
  then show ?thesis
    using tiny_events_wait_returns [of 10 of_nat 10 0 "\<lambda>k bits. if k = 2 then bits OR 4 else bits" 1 4 True]
    by (auto simp: Let_def split: if_splits)
qed

subsection \<open>What the protocol layers rely on\<close>

text \<open>
  The view of one thread between the steps of the others: \<open>tiny_events_wait\<close> takes the bits if a
  requested one is set; otherwise it times out, and only time has passed.
\<close>

definition tiny_events_wait :: "u8 \<Rightarrow> u8 \<Rightarrow> bool \<Rightarrow> u8 \<times> u8" where
  "tiny_events_wait events bits clear =
     (if events AND bits \<noteq> 0 then (events, if clear then events AND NOT bits else events) else (0, events))"

definition tiny_events_set :: "u8 \<Rightarrow> u8 \<Rightarrow> u8" where
  "tiny_events_set events bits = events_set_default events bits"

definition tiny_events_clear :: "u8 \<Rightarrow> u8 \<Rightarrow> u8" where
  "tiny_events_clear events bits = events_clear_default events bits"

declare events_set_default_def [event_ops] events_clear_default_def [event_ops] tiny_events_set_def [event_ops] tiny_events_clear_def [event_ops]

lemma env_bits_idle: "env_bits (\<lambda>k bits. bits) k bits n = bits"
  by (induction n arbitrary: k) simp_all

lemma tiny_events_wait_is_default:
  fixes clock :: "nat \<Rightarrow> u32"
  assumes "clock m - ts \<ge> timeout"
  shows "events_wait_default (\<lambda>k bits. bits) clock ts events bits clear timeout
      = Some (tiny_events_wait events bits clear)"
proof -
  define n where "n = (if events AND bits \<noteq> 0 then 0 else (LEAST i. clock i - ts \<ge> timeout))"
  have "\<forall>i < n. events AND bits = 0 \<and> \<not> clock (0 + i) - ts \<ge> timeout"
    by (auto simp: n_def dest: not_less_Least)
  moreover have "events AND bits = 0 \<Longrightarrow> clock n - ts \<ge> timeout"
    using assms by (auto simp: n_def intro: LeastI)
  ultimately show ?thesis
    using events_wait_loop_result [of n "\<lambda>k bits. bits" 0 events bits timeout clock ts clear]
    by (auto simp: events_wait_default_def tiny_events_wait_def env_bits_idle)
qed

locale event_group =
  fixes set_bits :: "u8 \<Rightarrow> u8 \<Rightarrow> u8" and clear_bits :: "u8 \<Rightarrow> u8 \<Rightarrow> u8"
    and wait_bits :: "u8 \<Rightarrow> u8 \<Rightarrow> bool \<Rightarrow> u8 \<times> u8"
  assumes bit_set: "bit (set_bits e b) n \<longleftrightarrow> bit e n \<or> bit b n"
    and bit_clear: "bit (clear_bits e b) n \<longleftrightarrow> bit e n \<and> \<not> bit b n"
    and wait_some: "bit e n \<Longrightarrow> bit b n \<Longrightarrow>
      fst (wait_bits e b c) = e \<and> snd (wait_bits e b c) = (if c then clear_bits e b else e)"
    and wait_none: "\<forall>n. \<not> (bit e n \<and> bit b n) \<Longrightarrow> wait_bits e b c = (0, e)"
begin

lemma wait_iff: "fst (wait_bits e b c) \<noteq> 0 \<longleftrightarrow> (\<exists>n. bit e n \<and> bit b n)"
proof (cases "\<exists>n. bit e n \<and> bit b n")
  case True
  then obtain n where "bit e n" "bit b n" by blast
  then show ?thesis using wait_some [of e n b c] True by auto
next
  case False
  then show ?thesis using wait_none [of e b c] by simp
qed

lemma wait_after_set: "b \<noteq> 0 \<Longrightarrow> fst (wait_bits (set_bits e b) b c) \<noteq> 0"
proof -
  assume "b \<noteq> 0"
  then obtain n where "bit b n" by (auto simp: bit_eq_iff)
  then show ?thesis by (auto simp: wait_iff bit_set)
qed

lemma wait_after_clear: "wait_bits (clear_bits e b) b c = (0, clear_bits e b)"
  by (rule wait_none) (simp add: bit_clear)

lemma wait_takes: "fst (wait_bits (snd (wait_bits e b True)) b c) = 0"
proof (cases "\<exists>n. bit e n \<and> bit b n")
  case True
  then show ?thesis using wait_some [of e _ b True] by (auto simp: wait_after_clear)
next
  case False
  then show ?thesis using wait_none [of e b] by simp
qed

lemma other_bits_kept: "\<not> bit b n \<Longrightarrow> bit (snd (wait_bits e b c)) n \<longleftrightarrow> bit e n"
  using wait_some [of e _ b c] wait_none [of e b c]
  by (cases "\<exists>n. bit e n \<and> bit b n") (auto simp: bit_clear split: if_splits)

end

interpretation ev: event_group tiny_events_set tiny_events_clear tiny_events_wait
proof
  have any: "e AND b \<noteq> 0" if "bit e n" "bit b n" for e b :: u8 and n
  proof
    assume "e AND b = 0"
    then have "\<not> bit (e AND b) n" by simp
    then show False using that by (simp add: bit_and_iff)
  qed
  show "bit (tiny_events_set e b) n \<longleftrightarrow> bit e n \<or> bit b n" for e b n
    by (simp add: event_ops bit_or_iff)
  show "bit (tiny_events_clear e b) n \<longleftrightarrow> bit e n \<and> \<not> bit b n" for e b n
    by (auto simp: event_ops bit_simps dest: bit_imp_le_length)
  show "fst (tiny_events_wait e b c) = e \<and> snd (tiny_events_wait e b c) = (if c then tiny_events_clear e b else e)"
    if "bit e n" "bit b n" for e b n c
    using any [OF that] by (simp add: tiny_events_wait_def event_ops)
  show "tiny_events_wait e b c = (0, e)" if "\<forall>n. \<not> (bit e n \<and> bit b n)" for e b c
  proof -
    have "e AND b = 0" using that by (auto simp: bit_eq_iff bit_and_iff)
    then show ?thesis by (simp add: tiny_events_wait_def)
  qed
qed

end
