(* ===== verification/FdData.thy ===== *)
theory FdData
  imports FdIQueueControl HalEvents
begin

unbundle bit_operations_syntax

section \<open>State of the full duplex protocol, peers, service queue and transmit control\<close>

text \<open>
  \<open>tiny_fd_data_t\<close> and \<open>tiny_fd_peer_info_t\<close> of \<open>tiny_fd_int.h\<close>, with \<open>tiny_fd_peers.c\<close>,
  \<open>tiny_fd_service_queue.c\<close>, \<open>tiny_fd_tx.c\<close> and \<open>tiny_fd_proto_logger.c\<close>.
  \<^item> A peer index is the C \<open>uint8_t\<close>; \<open>peer_of\<close> reads the table.
  \<^item> The callbacks of the application are not code of the library: what the protocol tells the
    application is the list \<open>calls\<close>, in order; the fields \<open>on_..._cb\<close> say whether a callback is installed.
    The mutex, which is released around a callback, is left out: one API call runs to its end.
  \<^item> \<open>tiny_millis\<close> is any clock: call number \<open>n\<close> returns \<open>clock n\<close>.
\<close>

subsection \<open>Constants\<close>

definition FD_EVENT_TX_SENDING :: u8 where "FD_EVENT_TX_SENDING = 0x01"
definition FD_EVENT_TX_DATA_AVAILABLE :: u8 where "FD_EVENT_TX_DATA_AVAILABLE = 0x02"
definition FD_EVENT_QUEUE_HAS_FREE_SLOTS :: u8 where "FD_EVENT_QUEUE_HAS_FREE_SLOTS = 0x04"
definition FD_EVENT_CAN_ACCEPT_I_FRAMES :: u8 where "FD_EVENT_CAN_ACCEPT_I_FRAMES = 0x08"
definition FD_EVENT_HAS_MARKER :: u8 where "FD_EVENT_HAS_MARKER = 0x10"

lemmas fd_event_defs = FD_EVENT_TX_SENDING_def FD_EVENT_TX_DATA_AVAILABLE_def
  FD_EVENT_QUEUE_HAS_FREE_SLOTS_def FD_EVENT_CAN_ACCEPT_I_FRAMES_def FD_EVENT_HAS_MARKER_def

definition HDLC_I_FRAME_BITS :: u8 where "HDLC_I_FRAME_BITS = 0x00"
definition HDLC_I_FRAME_MASK :: u8 where "HDLC_I_FRAME_MASK = 0x01"
definition HDLC_S_FRAME_BITS :: u8 where "HDLC_S_FRAME_BITS = 0x01"
definition HDLC_S_FRAME_MASK :: u8 where "HDLC_S_FRAME_MASK = 0x03"
definition HDLC_S_FRAME_TYPE_REJ :: u8 where "HDLC_S_FRAME_TYPE_REJ = 0x08"
definition HDLC_S_FRAME_TYPE_RR :: u8 where "HDLC_S_FRAME_TYPE_RR = 0x00"
definition HDLC_S_FRAME_TYPE_RNR :: u8 where "HDLC_S_FRAME_TYPE_RNR = 0x04"
definition HDLC_S_FRAME_TYPE_SREJ :: u8 where "HDLC_S_FRAME_TYPE_SREJ = 0x0C"
definition HDLC_S_FRAME_TYPE_MASK :: u8 where "HDLC_S_FRAME_TYPE_MASK = 0x0C"
definition HDLC_U_FRAME_BITS :: u8 where "HDLC_U_FRAME_BITS = 0x03"
definition HDLC_U_FRAME_MASK :: u8 where "HDLC_U_FRAME_MASK = 0x03"
definition HDLC_U_FRAME_TYPE_UA :: u8 where "HDLC_U_FRAME_TYPE_UA = 0x60"
definition HDLC_U_FRAME_TYPE_DM :: u8 where "HDLC_U_FRAME_TYPE_DM = 0x0C"
definition HDLC_U_FRAME_TYPE_FRMR :: u8 where "HDLC_U_FRAME_TYPE_FRMR = 0x84"
definition HDLC_U_FRAME_TYPE_RSET :: u8 where "HDLC_U_FRAME_TYPE_RSET = 0x8C"
definition HDLC_U_FRAME_TYPE_SABM :: u8 where "HDLC_U_FRAME_TYPE_SABM = 0x2C"
definition HDLC_U_FRAME_TYPE_SNRM :: u8 where "HDLC_U_FRAME_TYPE_SNRM = 0x80"
definition HDLC_U_FRAME_TYPE_DISC :: u8 where "HDLC_U_FRAME_TYPE_DISC = 0x40"
definition HDLC_U_FRAME_TYPE_UI :: u8 where "HDLC_U_FRAME_TYPE_UI = 0x00"
definition HDLC_U_FRAME_TYPE_MASK :: u8 where "HDLC_U_FRAME_TYPE_MASK = 0xEC"
definition HDLC_P_BIT :: u8 where "HDLC_P_BIT = 0x10"
definition HDLC_F_BIT :: u8 where "HDLC_F_BIT = 0x10"
definition HDLC_CR_BIT :: u8 where "HDLC_CR_BIT = 0x02"
definition HDLC_E_BIT :: u8 where "HDLC_E_BIT = 0x01"
definition TINY_FD_PRIMARY_ADDR :: u8 where "TINY_FD_PRIMARY_ADDR = 0"
definition HDLC_PRIMARY_ADDR :: u8 where "HDLC_PRIMARY_ADDR = push_bit 2 TINY_FD_PRIMARY_ADDR"
definition HDLC_INVALID_PEER_INDEX :: u8 where "HDLC_INVALID_PEER_INDEX = 0xFF"

lemmas hdlc_frame_defs = HDLC_I_FRAME_BITS_def HDLC_I_FRAME_MASK_def HDLC_S_FRAME_BITS_def HDLC_S_FRAME_MASK_def
  HDLC_U_FRAME_BITS_def HDLC_U_FRAME_MASK_def HDLC_P_BIT_def HDLC_F_BIT_def
lemmas hdlc_s_type_defs = HDLC_S_FRAME_TYPE_REJ_def HDLC_S_FRAME_TYPE_RR_def HDLC_S_FRAME_TYPE_RNR_def
  HDLC_S_FRAME_TYPE_SREJ_def HDLC_S_FRAME_TYPE_MASK_def
lemmas hdlc_u_type_defs = HDLC_U_FRAME_TYPE_UA_def HDLC_U_FRAME_TYPE_DM_def HDLC_U_FRAME_TYPE_FRMR_def
  HDLC_U_FRAME_TYPE_RSET_def HDLC_U_FRAME_TYPE_SABM_def HDLC_U_FRAME_TYPE_SNRM_def HDLC_U_FRAME_TYPE_DISC_def
  HDLC_U_FRAME_TYPE_UI_def HDLC_U_FRAME_TYPE_MASK_def
lemmas hdlc_addr_defs = HDLC_CR_BIT_def HDLC_E_BIT_def TINY_FD_PRIMARY_ADDR_def HDLC_PRIMARY_ADDR_def
  HDLC_INVALID_PEER_INDEX_def

definition TINY_FD_MODE_ABM :: u8 where "TINY_FD_MODE_ABM = 0x00"
definition TINY_FD_MODE_NRM :: u8 where "TINY_FD_MODE_NRM = 0x01"

subsection \<open>Data\<close>

datatype tiny_fd_state = TINY_FD_STATE_IDLE | TINY_FD_STATE_DISCONNECTED | TINY_FD_STATE_CONNECTING
  | TINY_FD_STATE_CONNECTED | TINY_FD_STATE_DISCONNECTING

datatype tiny_fd_frame_type = TINY_FD_FRAME_TYPE_I | TINY_FD_FRAME_TYPE_S | TINY_FD_FRAME_TYPE_U
datatype tiny_fd_frame_direction = TINY_FD_FRAME_DIRECTION_IN | TINY_FD_FRAME_DIRECTION_OUT

text \<open>The calls to the application: peer address and data, or what happened.\<close>

datatype fd_call =
    On_read u8 "u8 list"
  | On_send u8 "u8 list"
  | On_read_ui u8 "u8 list"
  | On_connect_event u8 bool
  | Log_frame tiny_fd_frame_direction tiny_fd_frame_type u8 u8 u8 "u8 list"

record tiny_fd_peer_info =
  p_state :: tiny_fd_state
  p_addr :: u8
  sent_nr :: u8
  sent_reject :: bool
  srej_req_mask :: u8
  i_queue_ctl :: i_queue_control
  last_sent_i_ts :: u32
  last_sent_frame_ts :: u32
  last_received_frame_ts :: u32
  ka_confirmed :: bool
  p_retries :: u8
  p_events :: u8

record tiny_fd_data =
  on_read_cb :: bool
  on_send_cb :: bool
  on_read_ui_cb :: bool
  on_connect_event_cb :: bool
  log_frame_cb :: bool
  send_timeout :: u16
  retry_timeout :: u16
  ka_timeout :: u16
  retries :: u8
  i_queue :: tiny_fd_queue
  s_queue :: tiny_fd_queue
  peers_count :: u8
  peers :: "tiny_fd_peer_info list"
  fd_addr :: u8
  next_peer :: u8
  last_marker_ts :: u32
  fd_mode :: u8
  events :: u8
  calls :: "fd_call list"
  clock :: "nat \<Rightarrow> u32"
  ticks :: nat

definition peer_of :: "tiny_fd_data \<Rightarrow> u8 \<Rightarrow> tiny_fd_peer_info" where
  "peer_of fd p = peers fd ! unat p"

definition upd_peer :: "u8 \<Rightarrow> (tiny_fd_peer_info \<Rightarrow> tiny_fd_peer_info) \<Rightarrow> tiny_fd_data \<Rightarrow> tiny_fd_data" where
  "upd_peer p f fd = fd\<lparr>peers := (peers fd)[unat p := f (peer_of fd p)]\<rparr>"

definition call :: "fd_call \<Rightarrow> tiny_fd_data \<Rightarrow> tiny_fd_data" where
  "call c fd = fd\<lparr>calls := calls fd @ [c]\<rparr>"

definition set_events :: "u8 \<Rightarrow> tiny_fd_data \<Rightarrow> tiny_fd_data" where
  "set_events b fd = fd\<lparr>events := tiny_events_set (events fd) b\<rparr>"

definition clear_events :: "u8 \<Rightarrow> tiny_fd_data \<Rightarrow> tiny_fd_data" where
  "clear_events b fd = fd\<lparr>events := tiny_events_clear (events fd) b\<rparr>"

definition wait_events :: "u8 \<Rightarrow> bool \<Rightarrow> tiny_fd_data \<Rightarrow> u8 \<times> tiny_fd_data" where
  "wait_events b clear fd =
     (case tiny_events_wait (events fd) b clear of (r, e) \<Rightarrow> (r, fd\<lparr>events := e\<rparr>))"

definition tiny_millis :: "tiny_fd_data \<Rightarrow> u32 \<times> tiny_fd_data" where
  "tiny_millis fd = (clock fd (ticks fd), fd\<lparr>ticks := ticks fd + 1\<rparr>)"

subsection \<open>Peers: tiny_fd_peers.c\<close>

definition is_primary_address :: "u8 \<Rightarrow> bool" where
  "is_primary_address address \<longleftrightarrow> address AND NOT HDLC_CR_BIT = HDLC_PRIMARY_ADDR OR HDLC_E_BIT"

definition is_primary_station :: "tiny_fd_data \<Rightarrow> bool" where
  "is_primary_station fd \<longleftrightarrow> is_primary_address (fd_addr fd)"

definition is_secondary_station :: "tiny_fd_data \<Rightarrow> bool" where
  "is_secondary_station fd \<longleftrightarrow> \<not> is_primary_station fd"

definition peer_to_address_field :: "tiny_fd_data \<Rightarrow> u8 \<Rightarrow> u8" where
  "peer_to_address_field fd peer = p_addr (peer_of fd peer) AND NOT HDLC_CR_BIT"

fun find_peer :: "tiny_fd_peer_info list \<Rightarrow> u8 \<Rightarrow> u8 \<Rightarrow> u8" where
  "find_peer [] address peer = HDLC_INVALID_PEER_INDEX"
| "find_peer (p # ps) address peer = (if p_addr p = address then peer else find_peer ps address (peer + 1))"

definition address_field_to_peer :: "tiny_fd_data \<Rightarrow> u8 \<Rightarrow> u8" where
  "address_field_to_peer fd address =
     (let address = address AND NOT HDLC_CR_BIT
      in if address AND HDLC_E_BIT = 0 then HDLC_INVALID_PEER_INDEX
         else if is_secondary_station fd \<or> fd_mode fd = TINY_FD_MODE_ABM
         then (if address = fd_addr fd then 0 else HDLC_INVALID_PEER_INDEX)
         else find_peer (take (unat (peers_count fd)) (peers fd)) address 0)"

text \<open>The loop goes once around the table at most; 256 rounds are more than a table can have.\<close>

fun next_peer_loop :: "tiny_fd_data \<Rightarrow> u8 \<Rightarrow> nat \<Rightarrow> u8 \<Rightarrow> u8" where
  "next_peer_loop fd start_peer 0 cur = cur"
| "next_peer_loop fd start_peer (Suc fuel) cur =
     (let cur = (if cur + 1 \<ge> peers_count fd then 0 else cur + 1)
      in if p_addr (peer_of fd cur) \<noteq> HDLC_INVALID_PEER_INDEX then cur
         else if start_peer \<noteq> cur then next_peer_loop fd start_peer fuel cur else cur)"

definition switch_to_next_peer :: "tiny_fd_data \<Rightarrow> bool \<times> tiny_fd_data" where
  "switch_to_next_peer fd =
     (let start_peer = next_peer fd;
          fd = fd\<lparr>next_peer := next_peer_loop fd start_peer 256 start_peer\<rparr>
      in (start_peer \<noteq> next_peer fd, fd))"

text \<open>The peer's address as the application knows it.\<close>

definition app_address :: "tiny_fd_data \<Rightarrow> u8 \<Rightarrow> u8" where
  "app_address fd peer =
     (if is_primary_station fd then drop_bit 2 (peer_to_address_field fd peer) else TINY_FD_PRIMARY_ADDR)"

subsection \<open>Log of frames: tiny_fd_proto_logger.c\<close>

definition get_frame_type :: "u8 \<Rightarrow> tiny_fd_frame_type" where
  "get_frame_type control =
     (if control AND HDLC_I_FRAME_MASK = HDLC_I_FRAME_BITS then TINY_FD_FRAME_TYPE_I
      else if control AND HDLC_S_FRAME_MASK = HDLC_S_FRAME_BITS then TINY_FD_FRAME_TYPE_S
      else TINY_FD_FRAME_TYPE_U)"

definition get_frame_subtype :: "u8 \<Rightarrow> u8" where
  "get_frame_subtype control =
     (case get_frame_type control of
        TINY_FD_FRAME_TYPE_I \<Rightarrow> HDLC_S_FRAME_TYPE_RR
      | TINY_FD_FRAME_TYPE_S \<Rightarrow> control AND HDLC_S_FRAME_TYPE_MASK
      | TINY_FD_FRAME_TYPE_U \<Rightarrow> control AND HDLC_U_FRAME_TYPE_MASK)"

definition get_frame_sequence :: "u8 \<Rightarrow> u8" where
  "get_frame_sequence control =
     (case get_frame_type control of TINY_FD_FRAME_TYPE_I \<Rightarrow> drop_bit 1 control AND 0x07 | _ \<Rightarrow> 0)"

definition get_awaiting_sequence :: "u8 \<Rightarrow> u8" where
  "get_awaiting_sequence control =
     (case get_frame_type control of
        TINY_FD_FRAME_TYPE_I \<Rightarrow> drop_bit 5 control
      | TINY_FD_FRAME_TYPE_S \<Rightarrow> drop_bit 5 control
      | TINY_FD_FRAME_TYPE_U \<Rightarrow> 0)"

definition tiny_fd_log_frame :: "tiny_fd_frame_direction \<Rightarrow> u8 list \<Rightarrow> tiny_fd_data \<Rightarrow> tiny_fd_data" where
  "tiny_fd_log_frame direction data fd =
     (if length data < 2 then fd
      else if log_frame_cb fd then
        let control = data ! 1
        in call (Log_frame direction (get_frame_type control) (get_frame_subtype control)
                   (get_frame_sequence control) (get_awaiting_sequence control) data) fd
      else fd)"

subsection \<open>Service queue: tiny_fd_service_queue.c\<close>

definition put_u_s_frame_to_tx_queue :: "tiny_fd_data \<Rightarrow> u8 \<Rightarrow> u8 list \<Rightarrow> nat option \<times> tiny_fd_data" where
  "put_u_s_frame_to_tx_queue fd type data =
     (case tiny_fd_queue_allocate (s_queue fd) type (drop 2 data) of
        (None, q) \<Rightarrow> (None, fd\<lparr>s_queue := q\<rparr>)
      | (Some i, q) \<Rightarrow>
          (Some i, set_events FD_EVENT_TX_DATA_AVAILABLE (fd\<lparr>s_queue :=
             set_slot q i ((q_frames q ! i)\<lparr>f_address := data ! 0, f_control := data ! 1\<rparr>)\<rparr>)))"

text \<open>Returns the slot whose bytes are to be sent.\<close>

definition tiny_fd_get_next_s_u_frame_to_send :: "tiny_fd_data \<Rightarrow> u8 \<Rightarrow> u8 \<Rightarrow> nat option \<times> tiny_fd_data" where
  "tiny_fd_get_next_s_u_frame_to_send fd peer address =
     (case tiny_fd_queue_get_next (s_queue fd) (TINY_FD_QUEUE_S_FRAME OR TINY_FD_QUEUE_U_FRAME) address 0 of
        None \<Rightarrow> (None, fd)
      | Some i \<Rightarrow>
          let control = f_control (q_frames (s_queue fd) ! i)
          in (Some i,
              if control AND HDLC_S_FRAME_MASK = HDLC_S_FRAME_BITS
              then upd_peer peer (\<lambda>p. p\<lparr>sent_nr := drop_bit 5 control\<rparr>) fd else fd))"

subsection \<open>Transmit control: tiny_fd_tx.c\<close>

definition on_frame_confirmed :: "u8 \<Rightarrow> u8 \<Rightarrow> tiny_fd_data \<Rightarrow> bool \<times> tiny_fd_data" where
  "on_frame_confirmed peer nr fd =
     (let address = peer_to_address_field fd peer
      in case tiny_fd_queue_get_next (i_queue fd) TINY_FD_QUEUE_I_FRAME address nr of
           Some i \<Rightarrow>
             let fd = (if on_send_cb fd
                       then call (On_send (app_address fd peer) (frame_data (q_frames (i_queue fd) ! i))) fd else fd);
                 fd = fd\<lparr>i_queue := tiny_fd_queue_free (i_queue fd) i\<rparr>;
                 fd = (if tiny_fd_queue_has_free_slots (i_queue fd)
                       then set_events FD_EVENT_QUEUE_HAS_FREE_SLOTS fd else fd)
             in (True, upd_peer peer (\<lambda>p. p\<lparr>p_retries := retries fd\<rparr>) fd)
         | None \<Rightarrow> (False, upd_peer peer (\<lambda>p. p\<lparr>p_retries := retries fd\<rparr>) fd))"

definition confirm_sent_frames :: "tiny_fd_data \<Rightarrow> u8 \<Rightarrow> u8 \<Rightarrow> tiny_fd_data" where
  "confirm_sent_frames fd peer nr =
     (case i_queue_control_confirm_sent_frames (on_frame_confirmed peer) nr (i_queue_ctl (peer_of fd peer)) fd of
        (room, c, fd) \<Rightarrow>
          let fd = upd_peer peer (\<lambda>p. p\<lparr>i_queue_ctl := c\<rparr>) fd
          in if room
             then upd_peer peer (\<lambda>p. p\<lparr>p_events := tiny_events_set (p_events p) FD_EVENT_CAN_ACCEPT_I_FRAMES\<rparr>) fd
             else fd)"

fun resend_loop :: "u8 \<Rightarrow> u8 \<Rightarrow> u8 \<Rightarrow> nat \<Rightarrow> tiny_fd_data \<Rightarrow> tiny_fd_data" where
  "resend_loop peer control nr 0 fd = fd"
| "resend_loop peer control nr (Suc fuel) fd =
     (let c = i_queue_ctl (peer_of fd peer)
      in if i_queue_control_get_next_frame_to_send c \<noteq> nr then
           if i_queue_control_get_next_frame_to_confirm c = i_queue_control_get_next_frame_to_send c
           then snd (put_u_s_frame_to_tx_queue fd TINY_FD_QUEUE_U_FRAME
                  [peer_to_address_field fd peer OR HDLC_CR_BIT, HDLC_U_FRAME_TYPE_FRMR OR HDLC_U_FRAME_BITS, control,
                   push_bit 5 (i_queue_control_get_next_frame_to_receive c)
                     OR push_bit 1 (i_queue_control_get_next_frame_to_send c)])
           else resend_loop peer control nr fuel
                  (upd_peer peer (\<lambda>p. p\<lparr>i_queue_ctl := i_queue_control_move_to_previous_ns (i_queue_ctl p)\<rparr>) fd)
         else fd)"

definition resend_all_unconfirmed_frames :: "tiny_fd_data \<Rightarrow> u8 \<Rightarrow> u8 \<Rightarrow> u8 \<Rightarrow> tiny_fd_data" where
  "resend_all_unconfirmed_frames fd peer control nr =
     set_events FD_EVENT_TX_DATA_AVAILABLE (resend_loop peer control nr 8 fd)"

definition put_i_frame_to_tx_queue :: "tiny_fd_data \<Rightarrow> u8 \<Rightarrow> u8 list \<Rightarrow> bool \<times> tiny_fd_data" where
  "put_i_frame_to_tx_queue fd peer data =
     (case tiny_fd_queue_allocate (i_queue fd) TINY_FD_QUEUE_I_FRAME data of
        (None, q) \<Rightarrow> (False, fd\<lparr>i_queue := q\<rparr>)
      | (Some i, q) \<Rightarrow>
          let c = i_queue_ctl (peer_of fd peer);
              fd = fd\<lparr>i_queue := set_slot q i ((q_frames q ! i)\<lparr>f_address := peer_to_address_field fd peer,
                                                              f_control := push_bit 1 (last_ns c)\<rparr>)\<rparr>;
              fd = upd_peer peer (\<lambda>p. p\<lparr>i_queue_ctl :=
                     (i_queue_ctl p)\<lparr>last_ns := (last_ns (i_queue_ctl p) + 1) AND seq_bits_mask\<rparr>\<rparr>) fd
          in (True, set_events FD_EVENT_TX_DATA_AVAILABLE fd))"

subsection \<open>Reading and updating the state\<close>

lemma upd_peer_fields [simp]:
  "on_read_cb (upd_peer p f fd) = on_read_cb fd" "on_send_cb (upd_peer p f fd) = on_send_cb fd"
  "on_read_ui_cb (upd_peer p f fd) = on_read_ui_cb fd"
  "on_connect_event_cb (upd_peer p f fd) = on_connect_event_cb fd"
  "log_frame_cb (upd_peer p f fd) = log_frame_cb fd" "send_timeout (upd_peer p f fd) = send_timeout fd"
  "retry_timeout (upd_peer p f fd) = retry_timeout fd" "ka_timeout (upd_peer p f fd) = ka_timeout fd"
  "retries (upd_peer p f fd) = retries fd" "i_queue (upd_peer p f fd) = i_queue fd"
  "s_queue (upd_peer p f fd) = s_queue fd" "peers_count (upd_peer p f fd) = peers_count fd"
  "length (peers (upd_peer p f fd)) = length (peers fd)" "fd_addr (upd_peer p f fd) = fd_addr fd"
  "next_peer (upd_peer p f fd) = next_peer fd" "last_marker_ts (upd_peer p f fd) = last_marker_ts fd"
  "fd_mode (upd_peer p f fd) = fd_mode fd" "events (upd_peer p f fd) = events fd"
  "calls (upd_peer p f fd) = calls fd" "clock (upd_peer p f fd) = clock fd" "ticks (upd_peer p f fd) = ticks fd"
  by (simp_all add: upd_peer_def)

lemma peer_of_upd_peer:
  "unat p < length (peers fd) \<Longrightarrow> peer_of (upd_peer p f fd) q = (if q = p then f (peer_of fd p) else peer_of fd q)"
  by (auto simp: peer_of_def upd_peer_def nth_list_update word_unat_eq_iff)

lemma peer_of_cong: "peers fd' = peers fd \<Longrightarrow> peer_of fd' p = peer_of fd p"
  by (simp add: peer_of_def)

lemma peer_of_simps [simp]:
  "peer_of (fd\<lparr>i_queue := q\<rparr>) p = peer_of fd p" "peer_of (fd\<lparr>s_queue := q\<rparr>) p = peer_of fd p"
  "peer_of (fd\<lparr>events := e\<rparr>) p = peer_of fd p" "peer_of (fd\<lparr>calls := cs\<rparr>) p = peer_of fd p"
  "peer_of (fd\<lparr>ticks := t\<rparr>) p = peer_of fd p" "peer_of (fd\<lparr>next_peer := n\<rparr>) p = peer_of fd p"
  "peer_of (fd\<lparr>last_marker_ts := m\<rparr>) p = peer_of fd p" "peer_of (fd\<lparr>ka_timeout := t2\<rparr>) p = peer_of fd p"
  by (simp_all add: peer_of_def)

lemma field_ops_simps [simp]:
  "peer_of (call c fd) p = peer_of fd p" "peer_of (set_events b fd) p = peer_of fd p"
  "peer_of (clear_events b fd) p = peer_of fd p"
  by (simp_all add: call_def set_events_def clear_events_def)

subsection \<open>The invariant\<close>

text \<open>The frames of a peer that wait in the queue, oldest first.\<close>

abbreviation ctl :: "tiny_fd_data \<Rightarrow> u8 \<Rightarrow> i_queue_control" where
  "ctl fd p \<equiv> i_queue_ctl (peer_of fd p)"

definition tx_window :: "tiny_fd_data \<Rightarrow> u8 \<Rightarrow> u8 list list" where
  "tx_window fd p =
     map (\<lambda>n. the (i_lookup (peer_to_address_field fd p) (i_queue fd) n))
       (seqs (confirm_ns (ctl fd p)) (seq_dist (confirm_ns (ctl fd p)) (last_ns (ctl fd p))))"

definition window_ok :: "tiny_fd_data \<Rightarrow> u8 \<Rightarrow> bool" where
  "window_ok fd p \<longleftrightarrow> dom (i_lookup (peer_to_address_field fd p) (i_queue fd))
     = {n. in_window (confirm_ns (ctl fd p)) (last_ns (ctl fd p)) n}"

definition s_queue_wf :: "tiny_fd_queue \<Rightarrow> bool" where
  "s_queue_wf q \<longleftrightarrow> queue_wf q \<and> q_mtu q = 2
     \<and> (\<forall>f \<in> set (q_frames q). f_type f \<in> {TINY_FD_QUEUE_FREE, TINY_FD_QUEUE_S_FRAME, TINY_FD_QUEUE_U_FRAME})"

definition addresses_distinct :: "tiny_fd_data \<Rightarrow> bool" where
  "addresses_distinct fd \<longleftrightarrow> (\<forall>p q. p < peers_count fd \<longrightarrow> q < peers_count fd \<longrightarrow> p \<noteq> q \<longrightarrow>
     p_addr (peer_of fd p) \<noteq> HDLC_INVALID_PEER_INDEX \<longrightarrow>
     \<not> same_address (peer_to_address_field fd p) (peer_to_address_field fd q))"

definition table_wf :: "tiny_fd_data \<Rightarrow> bool" where
  "table_wf fd \<longleftrightarrow> unat (peers_count fd) = length (peers fd) \<and> length (peers fd) < 255
     \<and> next_peer fd < peers_count fd"

text \<open>An address has its E bit set, the mark of an unregistered peer too; an unregistered peer has sent nothing.\<close>

definition peer_wf :: "tiny_fd_data \<Rightarrow> u8 \<Rightarrow> bool" where
  "peer_wf fd p \<longleftrightarrow> control_wf (ctl fd p) \<and> window_ok fd p \<and> p_addr (peer_of fd p) AND HDLC_E_BIT \<noteq> 0
     \<and> (p_addr (peer_of fd p) = HDLC_INVALID_PEER_INDEX \<longrightarrow> confirm_ns (ctl fd p) = last_ns (ctl fd p))"

text \<open>A secondary station, and a station in ABM mode, keeps its own address in the table.\<close>

definition station_ok :: "tiny_fd_data \<Rightarrow> bool" where
  "station_ok fd \<longleftrightarrow> (is_secondary_station fd \<or> fd_mode fd = TINY_FD_MODE_ABM \<longrightarrow> p_addr (peer_of fd 0) = fd_addr fd)"

lemma station_ok_cong:
  "fd_addr fd' = fd_addr fd \<Longrightarrow> fd_mode fd' = fd_mode fd \<Longrightarrow> p_addr (peer_of fd' 0) = p_addr (peer_of fd 0) \<Longrightarrow>
   station_ok fd' = station_ok fd"
  by (simp add: station_ok_def is_secondary_station_def is_primary_station_def)

definition fd_wf :: "tiny_fd_data \<Rightarrow> bool" where
  "fd_wf fd \<longleftrightarrow> table_wf fd \<and> station_ok fd \<and> iq_wf (i_queue fd) \<and> s_queue_wf (s_queue fd) \<and> addresses_distinct fd
     \<and> (\<forall>p < peers_count fd. peer_wf fd p)"

text \<open>What the invariant depends on.\<close>

lemma fd_wf_cong:
  assumes "i_queue fd' = i_queue fd" "s_queue fd' = s_queue fd" "peers_count fd' = peers_count fd"
    "next_peer fd' = next_peer fd" "length (peers fd') = length (peers fd)"
    "fd_addr fd' = fd_addr fd" "fd_mode fd' = fd_mode fd"
    "\<And>p. p < peers_count fd \<Longrightarrow> i_queue_ctl (peer_of fd' p) = i_queue_ctl (peer_of fd p)"
    "\<And>p. p < peers_count fd \<Longrightarrow> p_addr (peer_of fd' p) = p_addr (peer_of fd p)"
  shows "fd_wf fd' \<longleftrightarrow> fd_wf fd"
proof (cases "table_wf fd")
  case True
  then have "0 < peers_count fd" by (auto simp: table_wf_def word_less_nat_alt)
  then have st: "station_ok fd' = station_ok fd" using station_ok_cong assms(6,7,9) by blast
  have "addresses_distinct fd' \<longleftrightarrow> addresses_distinct fd"
    using assms(3,9) by (simp add: addresses_distinct_def peer_to_address_field_def)
  moreover have "peer_wf fd' p \<longleftrightarrow> peer_wf fd p" if "p < peers_count fd" for p
    using assms(1,8,9) that by (simp add: peer_wf_def window_ok_def peer_to_address_field_def)
  ultimately show ?thesis using assms st by (simp add: fd_wf_def table_wf_def)
next
  case False
  then have "\<not> table_wf fd'" using assms(3-5) by (simp add: table_wf_def)
  then show ?thesis using False by (simp add: fd_wf_def)
qed

lemma fd_wf_index: "fd_wf fd \<Longrightarrow> p < peers_count fd \<Longrightarrow> unat p < length (peers fd)"
  by (simp add: fd_wf_def table_wf_def word_less_nat_alt)

lemma fd_wf_simps [simp]:
  "fd_wf (call c fd) = fd_wf fd" "fd_wf (set_events b fd) = fd_wf fd" "fd_wf (clear_events b fd) = fd_wf fd"
  "fd_wf (fd\<lparr>ticks := t\<rparr>) = fd_wf fd" "fd_wf (fd\<lparr>last_marker_ts := m\<rparr>) = fd_wf fd"
  "fd_wf (fd\<lparr>events := e\<rparr>) = fd_wf fd" "fd_wf (fd\<lparr>ka_timeout := ka\<rparr>) = fd_wf fd"
  by (rule fd_wf_cong; simp add: call_def set_events_def clear_events_def)+

lemma fd_wf_upd_peer:
  assumes "fd_wf fd" "p < peers_count fd"
    and "i_queue_ctl (f (peer_of fd p)) = i_queue_ctl (peer_of fd p)" "p_addr (f (peer_of fd p)) = p_addr (peer_of fd p)"
  shows "fd_wf (upd_peer p f fd)"
  using fd_wf_cong [of "upd_peer p f fd" fd] assms fd_wf_index [OF assms(1,2)] by (simp add: peer_of_upd_peer)

lemma fd_wf_s_queue: "fd_wf fd \<Longrightarrow> s_queue_wf q \<Longrightarrow> fd_wf (fd\<lparr>s_queue := q\<rparr>)"
  by (simp add: fd_wf_def table_wf_def addresses_distinct_def peer_wf_def window_ok_def peer_to_address_field_def
      station_ok_def is_secondary_station_def is_primary_station_def)

subsection \<open>Service frames\<close>

text \<open>The two queues and the events are all that queueing a service frame touches.\<close>

lemma queue_wf_nth: "queue_wf q \<Longrightarrow> i < q_size q \<Longrightarrow> slot_wf (q_mtu q) (q_frames q ! i)"
  by (simp add: queue_wf_def)

lemma s_queue_wf_set_slot:
  assumes "s_queue_wf q" "i < q_size q" "slot_wf 2 f" "f_header f = f_header (q_frames q ! i)"
    "f_type f \<in> {TINY_FD_QUEUE_FREE, TINY_FD_QUEUE_S_FRAME, TINY_FD_QUEUE_U_FRAME}"
  shows "s_queue_wf (set_slot q i f)"
  using assms queue_wf_set_slot [of q i f] set_update_subset_insert [of "q_frames q" i f]
  by (auto simp: s_queue_wf_def)

lemma put_u_s_frame_shape:
  assumes "s_queue_wf (s_queue fd)" "put_u_s_frame_to_tx_queue fd type data = (r, fd')"
    "type \<in> {TINY_FD_QUEUE_S_FRAME, TINY_FD_QUEUE_U_FRAME}" "2 \<le> length data"
  shows "s_queue_wf (s_queue fd')" and "fd' = fd\<lparr>s_queue := s_queue fd', events := events fd'\<rparr>"
    and "r = None \<Longrightarrow> fd' = fd"
    and "r = Some i \<Longrightarrow> i < q_size (s_queue fd') \<and> f_type (q_frames (s_queue fd') ! i) = type
      \<and> f_address (q_frames (s_queue fd') ! i) = data ! 0 \<and> f_control (q_frames (s_queue fd') ! i) = data ! 1
      \<and> frame_data (q_frames (s_queue fd') ! i) = drop 2 data
      \<and> events fd' = tiny_events_set (events fd) FD_EVENT_TX_DATA_AVAILABLE"
proof -
  note wf = assms(1) [unfolded s_queue_wf_def]
  obtain o1 q where al: "tiny_fd_queue_allocate (s_queue fd) type (drop 2 data) = (o1, q)" by fastforce
  have "s_queue_wf (s_queue fd') \<and> fd' = fd\<lparr>s_queue := s_queue fd', events := events fd'\<rparr> \<and> (r = None \<longrightarrow> fd' = fd)
    \<and> (\<forall>i. r = Some i \<longrightarrow> i < q_size (s_queue fd') \<and> f_type (q_frames (s_queue fd') ! i) = type
      \<and> f_address (q_frames (s_queue fd') ! i) = data ! 0 \<and> f_control (q_frames (s_queue fd') ! i) = data ! 1
      \<and> frame_data (q_frames (s_queue fd') ! i) = drop 2 data
      \<and> events fd' = tiny_events_set (events fd) FD_EVENT_TX_DATA_AVAILABLE)"
  proof (cases o1)
    case None
    then have "q = s_queue fd" using allocate_None_same al by blast
    then have "fd' = fd" "r = None" using assms(2) al None by (auto simp: put_u_s_frame_to_tx_queue_def)
    then show ?thesis using assms(1) by simp
  next
    case (Some i)
    note a = allocate_Some [OF conjunct1 [OF wf] al [unfolded Some]]
    define f where "f = (put_payload (drop 2 data) (q_frames (s_queue fd) ! i))
      \<lparr>f_type := type, f_address := data ! 0, f_control := data ! 1\<rparr>"
    have fd': "fd' = set_events FD_EVENT_TX_DATA_AVAILABLE (fd\<lparr>s_queue := set_slot (s_queue fd) i f\<rparr>)" "r = Some i"
      using assms(2) al Some a(1,4) by (auto simp: put_u_s_frame_to_tx_queue_def f_def set_slot_def)
    have "slot_wf (q_mtu (s_queue fd)) (q_frames (s_queue fd) ! i)" using queue_wf_nth wf a(1) by blast
    then have "slot_wf 2 f" using wf a(3) assms(3) by (auto simp: f_def slot_wf_def put_payload_def)
    then have "s_queue_wf (set_slot (s_queue fd) i f)"
      using s_queue_wf_set_slot [OF assms(1) a(1)] assms(3) by (auto simp: f_def put_payload_def)
    then show ?thesis using fd' a(1) by (simp add: set_events_def) (simp add: f_def put_payload_def frame_data_def)
  qed
  then show "s_queue_wf (s_queue fd')" and "fd' = fd\<lparr>s_queue := s_queue fd', events := events fd'\<rparr>"
    and "r = None \<Longrightarrow> fd' = fd"
    and "r = Some i \<Longrightarrow> i < q_size (s_queue fd') \<and> f_type (q_frames (s_queue fd') ! i) = type
      \<and> f_address (q_frames (s_queue fd') ! i) = data ! 0 \<and> f_control (q_frames (s_queue fd') ! i) = data ! 1
      \<and> frame_data (q_frames (s_queue fd') ! i) = drop 2 data
      \<and> events fd' = tiny_events_set (events fd) FD_EVENT_TX_DATA_AVAILABLE"
    by simp_all
qed

text \<open>The state apart from the service queue and the global events.\<close>

definition same_but_service :: "tiny_fd_data \<Rightarrow> tiny_fd_data \<Rightarrow> bool" where
  "same_but_service fd fd' \<longleftrightarrow> fd' = fd\<lparr>s_queue := s_queue fd', events := events fd'\<rparr>"

lemma same_but_service_fields:
  assumes "same_but_service fd fd'"
  shows "peers fd' = peers fd" "i_queue fd' = i_queue fd" "calls fd' = calls fd" "peer_of fd' p = peer_of fd p"
    "peers_count fd' = peers_count fd" "next_peer fd' = next_peer fd" "fd_addr fd' = fd_addr fd"
    "fd_mode fd' = fd_mode fd" "on_send_cb fd' = on_send_cb fd" "on_read_cb fd' = on_read_cb fd"
    "on_connect_event_cb fd' = on_connect_event_cb fd" "on_read_ui_cb fd' = on_read_ui_cb fd"
    "log_frame_cb fd' = log_frame_cb fd" "retries fd' = retries fd" "clock fd' = clock fd" "ticks fd' = ticks fd"
    "retry_timeout fd' = retry_timeout fd" "ka_timeout fd' = ka_timeout fd"
proof -
  define q e where "q = s_queue fd'" and "e = events fd'"
  have "fd' = fd\<lparr>s_queue := q, events := e\<rparr>" using assms by (simp add: same_but_service_def q_def e_def)
  then show "peers fd' = peers fd" "i_queue fd' = i_queue fd" "calls fd' = calls fd" "peer_of fd' p = peer_of fd p"
    "peers_count fd' = peers_count fd" "next_peer fd' = next_peer fd" "fd_addr fd' = fd_addr fd"
    "fd_mode fd' = fd_mode fd" "on_send_cb fd' = on_send_cb fd" "on_read_cb fd' = on_read_cb fd"
    "on_connect_event_cb fd' = on_connect_event_cb fd" "on_read_ui_cb fd' = on_read_ui_cb fd"
    "log_frame_cb fd' = log_frame_cb fd" "retries fd' = retries fd" "clock fd' = clock fd" "ticks fd' = ticks fd"
    "retry_timeout fd' = retry_timeout fd" "ka_timeout fd' = ka_timeout fd"
    by simp_all
qed

lemma same_but_service_refl [simp]: "same_but_service fd fd"
  by (simp add: same_but_service_def)

lemma same_but_service_events [simp]: "same_but_service fd (set_events b fd)"
  by (simp add: same_but_service_def set_events_def)

lemma same_but_service_trans:
  "same_but_service a b \<Longrightarrow> same_but_service b c \<Longrightarrow> same_but_service a c"
  unfolding same_but_service_def by (cases a, cases b, cases c) simp

lemma fd_wf_same_but_service:
  assumes "same_but_service fd fd'" "fd_wf fd" "s_queue_wf (s_queue fd')"
  shows "fd_wf fd'"
  using fd_wf_s_queue [OF assms(2,3)] fd_wf_cong [of fd' "fd\<lparr>s_queue := s_queue fd'\<rparr>"]
    same_but_service_fields [OF assms(1)] by simp

lemma window_same_but_service:
  assumes "same_but_service fd fd'"
  shows "tx_window fd' p = tx_window fd p" "peer_to_address_field fd' p = peer_to_address_field fd p"
    "app_address fd' p = app_address fd p" "is_primary_station fd' = is_primary_station fd"
  using same_but_service_fields [OF assms]
  by (simp_all add: tx_window_def peer_to_address_field_def app_address_def is_primary_station_def)

lemma put_u_s_frame_preserves:
  assumes "fd_wf fd" "type \<in> {TINY_FD_QUEUE_S_FRAME, TINY_FD_QUEUE_U_FRAME}" "2 \<le> length data"
  defines "fd' \<equiv> snd (put_u_s_frame_to_tx_queue fd type data)"
  shows "fd_wf fd'" "same_but_service fd fd'"
proof -
  have s: "s_queue_wf (s_queue fd)" using assms(1) by (simp add: fd_wf_def)
  obtain r where r: "put_u_s_frame_to_tx_queue fd type data = (r, fd')" by (simp add: fd'_def prod_eq_iff)
  note sh = put_u_s_frame_shape [OF s r assms(2,3)]
  show sbs: "same_but_service fd fd'" using sh(2) by (simp add: same_but_service_def)
  show "fd_wf fd'" using fd_wf_same_but_service [OF sbs assms(1) sh(1)] .
qed

subsection \<open>Confirmation\<close>

text \<open>What confirming frames of peer \<open>p\<close> may change.\<close>

definition confirm_shape :: "u8 \<Rightarrow> tiny_fd_data \<Rightarrow> tiny_fd_data \<Rightarrow> bool" where
  "confirm_shape p fd fd' \<longleftrightarrow> fd' = fd\<lparr>i_queue := i_queue fd', events := events fd', calls := calls fd',
     peers := (peers fd)[unat p := (peer_of fd p)\<lparr>p_retries := p_retries (peer_of fd' p)\<rparr>]\<rparr>"

lemma confirm_shape_fields:
  assumes "confirm_shape p fd fd'" "unat p < length (peers fd)"
  shows "length (peers fd') = length (peers fd)" "s_queue fd' = s_queue fd" "peers_count fd' = peers_count fd"
    "next_peer fd' = next_peer fd" "fd_addr fd' = fd_addr fd" "fd_mode fd' = fd_mode fd"
    "on_send_cb fd' = on_send_cb fd" "retries fd' = retries fd"
    "peer_of fd' q = (if q = p then (peer_of fd p)\<lparr>p_retries := p_retries (peer_of fd' p)\<rparr> else peer_of fd q)"
    "peer_to_address_field fd' q = peer_to_address_field fd q" "app_address fd' q = app_address fd q"
    "ctl fd' q = ctl fd q" "p_addr (peer_of fd' q) = p_addr (peer_of fd q)"
proof -
  define iq e cs r where "iq = i_queue fd'" "e = events fd'" "cs = calls fd'" "r = p_retries (peer_of fd' p)"
  note d = this
  have fd': "fd' = fd\<lparr>i_queue := iq, events := e, calls := cs, peers := (peers fd)[unat p := (peer_of fd p)\<lparr>p_retries := r\<rparr>]\<rparr>"
    using assms(1) by (simp add: confirm_shape_def d)
  then show "length (peers fd') = length (peers fd)" "s_queue fd' = s_queue fd" "peers_count fd' = peers_count fd"
    "next_peer fd' = next_peer fd" "fd_addr fd' = fd_addr fd" "fd_mode fd' = fd_mode fd"
    "on_send_cb fd' = on_send_cb fd" "retries fd' = retries fd" by simp_all
  show q: "peer_of fd' q = (if q = p then (peer_of fd p)\<lparr>p_retries := p_retries (peer_of fd' p)\<rparr> else peer_of fd q)" for q
    using assms(2) unfolding d(4) [symmetric] by (simp add: fd' peer_of_def nth_list_update word_unat_eq_iff)
  show addr: "peer_to_address_field fd' q = peer_to_address_field fd q" for q
    using q [of q] by (simp add: peer_to_address_field_def)
  show "ctl fd' q = ctl fd q" "p_addr (peer_of fd' q) = p_addr (peer_of fd q)" using q [of q] by simp_all
  show "app_address fd' q = app_address fd q" unfolding app_address_def addr is_primary_station_def by (simp add: fd')
qed

lemma confirm_shape_refl: "confirm_shape p fd fd"
  by (simp add: confirm_shape_def peer_of_def)

lemma confirm_shape_trans:
  assumes "confirm_shape p a b" "confirm_shape p b c" "unat p < length (peers a)"
  shows "confirm_shape p a c"
proof -
  have b: "peer_of b p = (peer_of a p)\<lparr>p_retries := p_retries (peer_of b p)\<rparr>"
    using confirm_shape_fields(9) [OF assms(1,3), of p] by simp
  have "peers b = (peers a)[unat p := (peer_of a p)\<lparr>p_retries := p_retries (peer_of b p)\<rparr>]"
    using arg_cong [OF assms(1) [unfolded confirm_shape_def], of peers] by simp
  then have "(peers b)[unat p := (peer_of b p)\<lparr>p_retries := p_retries (peer_of c p)\<rparr>]
      = (peers a)[unat p := (peer_of a p)\<lparr>p_retries := p_retries (peer_of c p)\<rparr>]"
    using arg_cong [OF b, of "\<lambda>x. x\<lparr>p_retries := p_retries (peer_of c p)\<rparr>"] by simp
  then show ?thesis using assms(1,2) unfolding confirm_shape_def by (cases a, cases b, cases c) simp
qed

lemma on_frame_confirmed_step:
  assumes "iq_wf (i_queue fd)" "unat p < length (peers fd)"
    "i_lookup (peer_to_address_field fd p) (i_queue fd) n = Some d"
  defines "fd' \<equiv> snd (on_frame_confirmed p n fd)"
  shows "confirm_shape p fd fd'" and "i_queue fd' = i_delete (peer_to_address_field fd p) (i_queue fd) n"
    and "calls fd' = calls fd @ (if on_send_cb fd then [On_send (app_address fd p) d] else [])"
    and "fst (on_frame_confirmed p n fd)"
proof -
  obtain i where g: "tiny_fd_queue_get_next (i_queue fd) TINY_FD_QUEUE_I_FRAME (peer_to_address_field fd p) n = Some i"
    and d: "d = frame_data (q_frames (i_queue fd) ! i)"
    using assms(3) by (auto simp: i_lookup_def)
  have del: "i_delete (peer_to_address_field fd p) (i_queue fd) n = tiny_fd_queue_free (i_queue fd) i"
    using g by (simp add: i_delete_def)
  define cs where "cs = calls fd @ (if on_send_cb fd then [On_send (app_address fd p) d] else [])"
  define e where "e = (if tiny_fd_queue_has_free_slots (tiny_fd_queue_free (i_queue fd) i)
    then tiny_events_set (events fd) FD_EVENT_QUEUE_HAS_FREE_SLOTS else events fd)"
  have fd': "fd' = fd\<lparr>i_queue := tiny_fd_queue_free (i_queue fd) i, events := e, calls := cs,
      peers := (peers fd)[unat p := (peer_of fd p)\<lparr>p_retries := retries fd\<rparr>]\<rparr>"
    unfolding fd'_def on_frame_confirmed_def Let_def g
    by (cases fd) (simp add: upd_peer_def call_def set_events_def e_def cs_def d peer_of_def)
  have "peer_of fd' p = (peer_of fd p)\<lparr>p_retries := retries fd\<rparr>" using assms(2) by (simp add: fd' peer_of_def)
  then show "confirm_shape p fd fd'" unfolding confirm_shape_def by (simp add: fd')
  show "i_queue fd' = i_delete (peer_to_address_field fd p) (i_queue fd) n" by (simp add: fd' del)
  show "calls fd' = calls fd @ (if on_send_cb fd then [On_send (app_address fd p) d] else [])"
    by (simp add: fd' cs_def)
  show "fst (on_frame_confirmed p n fd)" unfolding on_frame_confirmed_def Let_def g by simp
qed

text \<open>Confirming \<open>k\<close> frames takes the first \<open>k\<close> off the window and reports them in order.\<close>

lemma confirm_fold:
  assumes "iq.holds a (i_queue fd) c l" "a = peer_to_address_field fd p" "unat p < length (peers fd)"
    "k \<le> seq_dist c l"
  defines "fd' \<equiv> fold (\<lambda>n fd. snd (on_frame_confirmed p n fd)) (seqs c k) fd"
  shows "confirm_shape p fd fd'" and "iq.holds a (i_queue fd') (seq_add c k) l"
    and "iq.contents a (i_queue fd') (seq_add c k) l = drop k (iq.contents a (i_queue fd) c l)"
    and "calls fd' = calls fd @ (if on_send_cb fd
           then map (On_send (app_address fd p)) (take k (iq.contents a (i_queue fd) c l)) else [])"
    and "\<not> same_address a b \<Longrightarrow> i_lookup b (i_queue fd') = i_lookup b (i_queue fd)"
    and "q_size (i_queue fd') = q_size (i_queue fd)" and "q_mtu (i_queue fd') = q_mtu (i_queue fd)"
proof -
  have "confirm_shape p fd fd' \<and> iq.holds a (i_queue fd') (seq_add c k) l
    \<and> iq.contents a (i_queue fd') (seq_add c k) l = drop k (iq.contents a (i_queue fd) c l)
    \<and> calls fd' = calls fd @ (if on_send_cb fd
           then map (On_send (app_address fd p)) (take k (iq.contents a (i_queue fd) c l)) else [])
    \<and> (\<forall>b. \<not> same_address a b \<longrightarrow> i_lookup b (i_queue fd') = i_lookup b (i_queue fd))
    \<and> q_size (i_queue fd') = q_size (i_queue fd) \<and> q_mtu (i_queue fd') = q_mtu (i_queue fd)"
    using assms(1-4) unfolding fd'_def
  proof (induction k arbitrary: c fd)
    case 0
    then show ?case by (simp add: confirm_shape_refl)
  next
    case (Suc k)
    note h = Suc.prems(1) [unfolded iq.holds_def]
    have wf: "iq_wf (i_queue fd)" using h by (simp add: iq_of_def)
    have ne: "c \<noteq> l" using Suc.prems(4) by auto
    have d: "seq_dist c l = Suc (seq_dist (seq_next c) l)" using h ne seq_dist_step by simp
    define fd1 where "fd1 = snd (on_frame_confirmed p c fd)"
    note del = iq.delete_first [OF Suc.prems(1) ne]
    have cont: "iq.contents a (i_queue fd) c l = hd (iq.contents a (i_queue fd) c l) # tl (iq.contents a (i_queue fd) c l)"
      using iq.contents_step [of c l a "i_queue fd"] h ne by simp
    note st = on_frame_confirmed_step [OF wf Suc.prems(3) del(3) [unfolded Suc.prems(2)], folded fd1_def]
    note fl = confirm_shape_fields [OF st(1) Suc.prems(3)]
    have q1: "i_queue fd1 = i_delete a (i_queue fd) c" using st(2) Suc.prems(2) by simp
    define fd2 where "fd2 = fold (\<lambda>n fd. snd (on_frame_confirmed p n fd)) (seqs (seq_next c) k) fd1"
    have ih: "confirm_shape p fd1 fd2" "iq.holds a (i_queue fd2) (seq_add (seq_next c) k) l"
      "iq.contents a (i_queue fd2) (seq_add (seq_next c) k) l = drop k (iq.contents a (i_queue fd1) (seq_next c) l)"
      "calls fd2 = calls fd1 @ (if on_send_cb fd1
           then map (On_send (app_address fd1 p)) (take k (iq.contents a (i_queue fd1) (seq_next c) l)) else [])"
      "\<forall>b. \<not> same_address a b \<longrightarrow> i_lookup b (i_queue fd2) = i_lookup b (i_queue fd1)"
      "q_size (i_queue fd2) = q_size (i_queue fd1)" "q_mtu (i_queue fd2) = q_mtu (i_queue fd1)"
      using Suc.IH [of fd1 "seq_next c"] del(1) q1 fl(1,10) Suc.prems(2-4) d unfolding fd2_def by simp_all
    have iqd: "i_lookup b (i_delete a (i_queue fd) c) = i_lookup b (i_queue fd)" if "\<not> same_address a b" for b
      using i_delete_iq(2) [OF wf] that by (auto simp: fun_eq_iff)
    have fold: "fold (\<lambda>n fd. snd (on_frame_confirmed p n fd)) (seqs c (Suc k)) fd = fd2"
      by (simp add: fd2_def fd1_def)
    have "confirm_shape p fd fd2" by (rule confirm_shape_trans [OF st(1) ih(1) Suc.prems(3)])
    moreover have "iq.contents a (i_queue fd2) (seq_add c (Suc k)) l = drop (Suc k) (iq.contents a (i_queue fd) c l)"
      using ih(3) del(2) cont q1 by (simp add: drop_Suc)
    moreover have "calls fd2 = calls fd @ (if on_send_cb fd
        then map (On_send (app_address fd p)) (take (Suc k) (iq.contents a (i_queue fd) c l)) else [])"
      using ih(4) st(3) del(2) fl(7,11) q1 Suc.prems(2) by (subst cont) simp
    moreover have "i_lookup b (i_queue fd2) = i_lookup b (i_queue fd)" if "\<not> same_address a b" for b
      using ih(5) iqd [OF that] q1 that by simp
    ultimately show ?case unfolding fold
      using ih(2,6,7) q1 i_delete_iq(3,4) [OF wf] by simp
  qed
  then show "confirm_shape p fd fd'" and "iq.holds a (i_queue fd') (seq_add c k) l"
    and "iq.contents a (i_queue fd') (seq_add c k) l = drop k (iq.contents a (i_queue fd) c l)"
    and "calls fd' = calls fd @ (if on_send_cb fd
           then map (On_send (app_address fd p)) (take k (iq.contents a (i_queue fd) c l)) else [])"
    and "\<not> same_address a b \<Longrightarrow> i_lookup b (i_queue fd') = i_lookup b (i_queue fd)"
    and "q_size (i_queue fd') = q_size (i_queue fd)" and "q_mtu (i_queue fd') = q_mtu (i_queue fd)"
    by simp_all
qed

lemma address_field_bits:
  assumes "a AND HDLC_E_BIT \<noteq> 0"
  shows "(a AND NOT HDLC_CR_BIT) AND 3 = 1"
proof (rule bit_word_eqI)
  fix n assume n: "n < LENGTH(8)"
  have "bit a 0" using assms by (simp add: HDLC_E_BIT_def and_one_eq bit_0 even_iff_mod_2_eq_zero)
  moreover have "n \<in> {0, 1, 2, 3, 4, 5, 6, 7}" using n by auto
  ultimately show "bit ((a AND NOT HDLC_CR_BIT) AND 3) n = bit (1 :: u8) n"
    by (auto simp: bit_and_iff bit_not_iff HDLC_CR_BIT_def)
qed

lemma peer_address_bits:
  assumes "fd_wf fd" "p < peers_count fd"
  shows "peer_to_address_field fd p AND 3 = 1"
  using assms address_field_bits by (simp add: fd_wf_def peer_wf_def peer_to_address_field_def)

lemma window_holds:
  assumes "fd_wf fd" "p < peers_count fd"
  shows "iq.holds (peer_to_address_field fd p) (i_queue fd) (confirm_ns (ctl fd p)) (last_ns (ctl fd p))"
    and "iq.contents (peer_to_address_field fd p) (i_queue fd) (confirm_ns (ctl fd p)) (last_ns (ctl fd p)) = tx_window fd p"
    and "control_wf (ctl fd p)"
proof -
  have p: "peer_wf fd p" using assms by (simp add: fd_wf_def)
  then show "control_wf (ctl fd p)" by (simp add: peer_wf_def)
  then show "iq.holds (peer_to_address_field fd p) (i_queue fd) (confirm_ns (ctl fd p)) (last_ns (ctl fd p))"
    using p assms(1) peer_address_bits [OF assms]
    by (simp add: iq.holds_def iq_of_def peer_wf_def window_ok_def fd_wf_def control_wf_def)
  show "iq.contents (peer_to_address_field fd p) (i_queue fd) (confirm_ns (ctl fd p)) (last_ns (ctl fd p)) = tx_window fd p"
    by (simp add: iq.contents_def tx_window_def)
qed

lemma tx_window_length: "length (tx_window fd p) = seq_dist (confirm_ns (ctl fd p)) (last_ns (ctl fd p))"
  by (simp add: tx_window_def)

text \<open>Two peers of the table, of which at least one is registered, do not share frames.\<close>

lemma peers_separate:
  assumes "fd_wf fd" "p < peers_count fd" "q < peers_count fd" "p \<noteq> q" "p_addr (peer_of fd p) \<noteq> HDLC_INVALID_PEER_INDEX"
  shows "\<not> same_address (peer_to_address_field fd p) (peer_to_address_field fd q)"
    and "\<not> same_address (peer_to_address_field fd q) (peer_to_address_field fd p)"
proof -
  show *: "\<not> same_address (peer_to_address_field fd p) (peer_to_address_field fd q)"
    using assms by (simp add: fd_wf_def addresses_distinct_def)
  show "\<not> same_address (peer_to_address_field fd q) (peer_to_address_field fd p)"
    using * unfolding same_address_def by metis
qed

lemma peer_wf_other:
  assumes "peer_wf fd q" "ctl fd' q = ctl fd q" "p_addr (peer_of fd' q) = p_addr (peer_of fd q)"
    "i_lookup (peer_to_address_field fd q) (i_queue fd') = i_lookup (peer_to_address_field fd q) (i_queue fd)"
  shows "peer_wf fd' q" "tx_window fd' q = tx_window fd q"
  using assms by (simp_all add: peer_wf_def window_ok_def tx_window_def peer_to_address_field_def)

lemma addresses_distinct_cong:
  assumes "peers_count fd' = peers_count fd" "\<And>p. p < peers_count fd \<Longrightarrow> p_addr (peer_of fd' p) = p_addr (peer_of fd p)"
  shows "addresses_distinct fd' = addresses_distinct fd"
  using assms by (simp add: addresses_distinct_def peer_to_address_field_def)

text \<open>
  \<open>confirm_sent_frames\<close> for a registered peer, or one with an empty window: the specification that the
  receive handlers use.
\<close>

definition confirm_spec :: "u8 \<Rightarrow> nat \<Rightarrow> tiny_fd_data \<Rightarrow> tiny_fd_data \<Rightarrow> bool" where
  "confirm_spec p k fd fd' \<longleftrightarrow>
     fd' = fd\<lparr>i_queue := i_queue fd', events := events fd', calls := calls fd', peers := peers fd'\<rparr>
     \<and> length (peers fd') = length (peers fd)
     \<and> (\<forall>q. q \<noteq> p \<longrightarrow> peer_of fd' q = peer_of fd q)
     \<and> peer_of fd' p = (peer_of fd p)\<lparr>p_retries := p_retries (peer_of fd' p), p_events := p_events (peer_of fd' p),
          i_queue_ctl := (ctl fd p)\<lparr>confirm_ns := seq_add (confirm_ns (ctl fd p)) k\<rparr>\<rparr>
     \<and> calls fd' = calls fd @ (if on_send_cb fd then map (On_send (app_address fd p)) (take k (tx_window fd p)) else [])
     \<and> tx_window fd' p = drop k (tx_window fd p)
     \<and> (\<forall>q < peers_count fd. q \<noteq> p \<longrightarrow> tx_window fd' q = tx_window fd q)"

lemma confirm_sent_frames_refines:
  fixes nr :: u8
  assumes "fd_wf fd" "p < peers_count fd" "p_addr (peer_of fd p) \<noteq> HDLC_INVALID_PEER_INDEX"
  defines "fd' \<equiv> confirm_sent_frames fd p nr"
    and "k \<equiv> confirmed_count (confirm_ns (ctl fd p)) (last_ns (ctl fd p)) nr"
  shows "fd_wf fd'" and "confirm_spec p k fd fd'"
proof -
  define a where "a = peer_to_address_field fd p"
  define c l where "c = confirm_ns (ctl fd p)" and "l = last_ns (ctl fd p)"
  note w = window_holds [OF assms(1,2), folded a_def c_def l_def]
  have ix: "unat p < length (peers fd)" using fd_wf_index assms(1,2) by blast
  have cl: "c < 8" "l < 8" using w(3) by (simp_all add: control_wf_def c_def l_def)
  have k: "k = confirmed_count c l nr" "k \<le> seq_dist c l"
    by (simp_all add: k_def c_def l_def confirmed_count_def)
  define fd1 where "fd1 = fold (\<lambda>n fd. snd (on_frame_confirmed p n fd)) (seqs c k) fd"
  note cf = confirm_fold [OF w(1) a_def ix k(2), folded fd1_def]
  note fl = confirm_shape_fields [OF cf(1) ix]
  define room where "room = (seq_dist (seq_add c k) l \<noteq> 7)"
  have loop: "i_queue_control_confirm_sent_frames (on_frame_confirmed p) nr (ctl fd p) fd
      = (room, (ctl fd p)\<lparr>confirm_ns := seq_add c k\<rparr>, fd1)"
    using confirm_loop_spec [of "ctl fd p" nr 8 "on_frame_confirmed p" fd] w(3) confirmed_count_less [of c l nr] seq_add_less [OF cl(1)]
    by (simp add: i_queue_control_confirm_sent_frames_def control_wf_def c_def l_def k fd1_def room_def tx_full_iff)
  define upd :: "tiny_fd_peer_info \<Rightarrow> tiny_fd_peer_info" where "upd = (\<lambda>x. x\<lparr>i_queue_ctl := (ctl fd p)\<lparr>confirm_ns := seq_add c k\<rparr>,
      p_events := (if room then tiny_events_set (p_events x) FD_EVENT_CAN_ACCEPT_I_FRAMES else p_events x)\<rparr>)"
  have fd': "fd' = fd1\<lparr>peers := (peers fd1)[unat p := upd (peer_of fd1 p)]\<rparr>"
    unfolding fd'_def confirm_sent_frames_def loop using fl(1) ix
    by (simp add: upd_peer_def upd_def peer_of_def)
  have pp: "peer_of fd' p = upd (peer_of fd1 p)" using fl(1) ix by (simp add: fd' peer_of_def)
  have pq: "peer_of fd' q = peer_of fd1 q" if "q \<noteq> p" for q
    using fl(1) ix that by (simp add: fd' peer_of_def nth_list_update word_unat_eq_iff)
  have addr: "peer_to_address_field fd' q = peer_to_address_field fd q" "p_addr (peer_of fd' q) = p_addr (peer_of fd q)" for q
    using pp pq [of q] fl(10,13) [of q] unfolding peer_to_address_field_def by (cases "q = p"; simp add: upd_def)+
  have ctl_p: "ctl fd' p = (ctl fd p)\<lparr>confirm_ns := seq_add c k\<rparr>" by (simp add: pp upd_def)
  have ctl_q: "ctl fd' q = ctl fd q" if "q \<noteq> p" for q using pq [OF that] fl(12) [of q] by simp
  have iq: "i_queue fd' = i_queue fd1" by (simp add: fd')
  have win_p: "tx_window fd' p = drop k (tx_window fd p)"
    using cf(3) w(2) ctl_p by (simp add: tx_window_def iq.contents_def addr iq a_def l_def)
  have lo: "i_lookup (peer_to_address_field fd q) (i_queue fd') = i_lookup (peer_to_address_field fd q) (i_queue fd)"
    if "q < peers_count fd" "q \<noteq> p" for q
    using cf(5) [of "peer_to_address_field fd q"] peers_separate [OF assms(1,2) that(1) _ assms(3)] that(2) iq
    by (auto simp: a_def)
  have other: "peer_wf fd' q" "tx_window fd' q = tx_window fd q" if "q < peers_count fd" "q \<noteq> p" for q
    using peer_wf_other [OF _ ctl_q [OF that(2)] addr(2) lo [OF that]] assms(1) that(1) by (simp_all add: fd_wf_def)
  have bit: "p_addr (peer_of fd p) AND HDLC_E_BIT \<noteq> 0" using assms(1,2) by (simp add: fd_wf_def peer_wf_def)
  have "peer_wf fd' p"
    using cf(2) w(3) assms(3) seq_add_less [OF cl(1), of k] bit
    by (simp add: peer_wf_def window_ok_def iq.holds_def addr ctl_p iq control_wf_def flip: a_def l_def)
  moreover have "iq_wf (i_queue fd')" using cf(2) by (simp add: iq.holds_def iq_of_def iq)
  moreover have "s_queue fd' = s_queue fd" "peers_count fd' = peers_count fd" "next_peer fd' = next_peer fd"
    "length (peers fd') = length (peers fd)" using fl(1-4) by (simp_all add: fd')
  moreover have "station_ok fd' = station_ok fd" using station_ok_cong [of fd' fd] fl(5,6) addr(2) by (simp add: fd')
  ultimately show "fd_wf fd'"
    using assms(1) other(1) addresses_distinct_cong [of fd' fd] addr(2) unfolding fd_wf_def table_wf_def by metis
  have "fd1 = fd\<lparr>i_queue := i_queue fd1, events := events fd1, calls := calls fd1,
      peers := (peers fd)[unat p := (peer_of fd p)\<lparr>p_retries := p_retries (peer_of fd1 p)\<rparr>]\<rparr>"
    using cf(1) by (simp add: confirm_shape_def)
  then have "fd' = fd\<lparr>i_queue := i_queue fd', events := events fd', calls := calls fd', peers := peers fd'\<rparr>"
    unfolding fd' by (cases fd, cases fd1) simp
  moreover have "peer_of fd' p = (peer_of fd p)\<lparr>p_retries := p_retries (peer_of fd' p), p_events := p_events (peer_of fd' p),
          i_queue_ctl := (ctl fd p)\<lparr>confirm_ns := seq_add (confirm_ns (ctl fd p)) k\<rparr>\<rparr>"
    using fl(9) [of p] unfolding pp upd_def c_def by (cases "peer_of fd p", cases "peer_of fd1 p") simp
  moreover have "peer_of fd' q = peer_of fd q" if "q \<noteq> p" for q using pq [OF that] fl(9) [of q] that by simp
  moreover have "calls fd' = calls fd @ (if on_send_cb fd then map (On_send (app_address fd p)) (take k (tx_window fd p)) else [])"
    using cf(4) w(2) by (simp add: fd')
  ultimately show "confirm_spec p k fd fd'"
    unfolding confirm_spec_def using win_p other(2) \<open>length (peers fd') = length (peers fd)\<close> by blast
qed

subsection \<open>Queueing a new I-frame\<close>

lemma put_i_frame_refines:
  assumes "fd_wf fd" "p < peers_count fd" "p_addr (peer_of fd p) \<noteq> HDLC_INVALID_PEER_INDEX"
    and "put_i_frame_to_tx_queue fd p data = (r, fd')"
  shows "fd_wf fd'"
    and "r \<Longrightarrow> tx_window fd' p = tx_window fd p @ [data] \<and> length (tx_window fd p) < 7
      \<and> ctl fd' p = (ctl fd p)\<lparr>last_ns := seq_next (last_ns (ctl fd p))\<rparr> \<and> int (length data) \<le> q_mtu (i_queue fd)"
    and "r \<Longrightarrow> q < peers_count fd \<Longrightarrow> q \<noteq> p \<Longrightarrow> tx_window fd' q = tx_window fd q"
    and "r \<Longrightarrow> fd' = fd\<lparr>i_queue := i_queue fd', events := tiny_events_set (events fd) FD_EVENT_TX_DATA_AVAILABLE,
      peers := (peers fd)[unat p := (peer_of fd p)\<lparr>i_queue_ctl := (ctl fd p)\<lparr>last_ns := seq_next (last_ns (ctl fd p))\<rparr>\<rparr>]\<rparr>"
    and "\<not> r \<Longrightarrow> fd' = fd \<and> (q_mtu (i_queue fd) < int (length data) \<or> \<not> tiny_fd_queue_has_free_slots (i_queue fd))"
proof -
  define a where "a = peer_to_address_field fd p"
  define c l where "c = confirm_ns (ctl fd p)" and "l = last_ns (ctl fd p)"
  note w = window_holds [OF assms(1,2), folded a_def c_def l_def]
  have ix: "unat p < length (peers fd)" using fd_wf_index assms(1,2) by blast
  have cl: "c < 8" "l < 8" using w(3) by (simp_all add: control_wf_def c_def l_def)
  have iq: "iq_wf (i_queue fd)" using assms(1) by (simp add: fd_wf_def)
  have "fd_wf fd' \<and> (if r then tx_window fd' p = tx_window fd p @ [data] \<and> length (tx_window fd p) < 7
      \<and> ctl fd' p = (ctl fd p)\<lparr>last_ns := seq_next l\<rparr> \<and> int (length data) \<le> q_mtu (i_queue fd)
      \<and> (\<forall>q < peers_count fd. q \<noteq> p \<longrightarrow> tx_window fd' q = tx_window fd q)
      \<and> fd' = fd\<lparr>i_queue := i_queue fd', events := tiny_events_set (events fd) FD_EVENT_TX_DATA_AVAILABLE,
          peers := (peers fd)[unat p := (peer_of fd p)\<lparr>i_queue_ctl := (ctl fd p)\<lparr>last_ns := seq_next l\<rparr>\<rparr>]\<rparr>
    else fd' = fd \<and> (q_mtu (i_queue fd) < int (length data) \<or> \<not> tiny_fd_queue_has_free_slots (i_queue fd)))"
  proof (cases "i_put a (i_queue fd) l data")
    case None
    then obtain q where al: "tiny_fd_queue_allocate (i_queue fd) TINY_FD_QUEUE_I_FRAME data = (None, q)"
      by (auto simp: i_put_def split: prod.splits option.splits)
    then have "q = i_queue fd" by (rule allocate_None_same)
    then have "r = False" "fd' = fd" using assms(4) al by (auto simp: put_i_frame_to_tx_queue_def)
    then show ?thesis
      using assms(1) allocate_None [OF iq_wf_queue [OF iq], of TINY_FD_QUEUE_I_FRAME data] al free_slots_iff [OF iq_wf_queue [OF iq]]
      by auto
  next
    case (Some q')
    then obtain i q1 where al: "tiny_fd_queue_allocate (i_queue fd) TINY_FD_QUEUE_I_FRAME data = (Some i, q1)"
      and q': "q' = set_slot q1 i ((q_frames q1 ! i)\<lparr>f_address := a, f_control := push_bit 1 l\<rparr>)"
      by (auto simp: i_put_def split: prod.splits option.splits)
    have fd': "fd' = fd\<lparr>i_queue := q', events := tiny_events_set (events fd) FD_EVENT_TX_DATA_AVAILABLE,
          peers := (peers fd)[unat p := (peer_of fd p)\<lparr>i_queue_ctl := (ctl fd p)\<lparr>last_ns := seq_next l\<rparr>\<rparr>]\<rparr>" and r
      using assms(4) al ix unfolding put_i_frame_to_tx_queue_def
      by (simp_all add: q' a_def l_def upd_peer_def set_events_def Let_def seq_bits_mask_def)
        (auto simp: q' a_def l_def upd_peer_def set_events_def peer_of_def seq_bits_mask_def)
    note app = iq.put_appends [OF w(1) Some]
    have None: "i_lookup a (i_queue fd) l = None" using iq.holds_lookup [OF w(1), of l] not_in_window_last by (metis not_Some_eq)
    note put = i_put_Some [OF iq cl(2) None Some peer_address_bits [OF assms(1,2), folded a_def]]
    have bit: "p_addr (peer_of fd p) AND HDLC_E_BIT \<noteq> 0" using assms(1,2) by (simp add: fd_wf_def peer_wf_def)
    have pp: "peer_of fd' p = (peer_of fd p)\<lparr>i_queue_ctl := (ctl fd p)\<lparr>last_ns := seq_next l\<rparr>\<rparr>"
      using ix by (simp add: fd' peer_of_def)
    have pq: "peer_of fd' q = peer_of fd q" if "q \<noteq> p" for q
      using ix that by (simp add: fd' peer_of_def nth_list_update word_unat_eq_iff)
    have addr: "p_addr (peer_of fd' q) = p_addr (peer_of fd q)" "peer_to_address_field fd' q = peer_to_address_field fd q" for q
      using pp pq [of q] by (cases "q = p"; simp add: peer_to_address_field_def)+
    have "i_lookup (peer_to_address_field fd q) q' = i_lookup (peer_to_address_field fd q) (i_queue fd)"
      if "q < peers_count fd" "q \<noteq> p" for q
      using put(2) peers_separate(1) [OF assms(1,2) that(1) _ assms(3)] that(2) by (auto simp: a_def fun_eq_iff)
    then have other: "peer_wf fd' q" "tx_window fd' q = tx_window fd q" if "q < peers_count fd" "q \<noteq> p" for q
      using peer_wf_other [of fd q fd'] pq [OF that(2)] addr(1) assms(1) that by (simp_all add: fd_wf_def fd')
    have ctl_p: "ctl fd' p = (ctl fd p)\<lparr>last_ns := seq_next l\<rparr>" by (simp add: pp)
    have iq': "i_queue fd' = q'" "s_queue fd' = s_queue fd" "peers_count fd' = peers_count fd"
      "next_peer fd' = next_peer fd" "length (peers fd') = length (peers fd)" by (simp_all add: fd')
    have "peer_wf fd' p"
      using app(2) w(3) assms(3) bit
      by (simp add: peer_wf_def window_ok_def iq.holds_def addr ctl_p iq' control_wf_def and_7_less flip: a_def c_def)
    moreover have "iq_wf (i_queue fd')" using put(1) iq' by simp
    moreover have "station_ok fd' = station_ok fd" using station_ok_cong [of fd' fd] addr(1) by (simp add: fd')
    ultimately have "fd_wf fd'"
      using assms(1) other(1) addresses_distinct_cong [of fd' fd] addr(1) iq' unfolding fd_wf_def table_wf_def by metis
    moreover have "tx_window fd' p = tx_window fd p @ [data]"
      using app(3) w(2) ctl_p by (simp add: tx_window_def iq.contents_def addr iq' a_def c_def)
    moreover have "length (tx_window fd p) < 7" using app(1) by (simp add: tx_window_length c_def l_def)
    moreover have "int (length data) \<le> q_mtu (i_queue fd)" using allocate_Some(3) [OF iq_wf_queue [OF iq] al] .
    ultimately show ?thesis using other(2) \<open>r\<close> ctl_p fd' iq'(1) by simp
  qed
  then show "fd_wf fd'"
    and "r \<Longrightarrow> tx_window fd' p = tx_window fd p @ [data] \<and> length (tx_window fd p) < 7
      \<and> ctl fd' p = (ctl fd p)\<lparr>last_ns := seq_next (last_ns (ctl fd p))\<rparr> \<and> int (length data) \<le> q_mtu (i_queue fd)"
    and "r \<Longrightarrow> q < peers_count fd \<Longrightarrow> q \<noteq> p \<Longrightarrow> tx_window fd' q = tx_window fd q"
    and "r \<Longrightarrow> fd' = fd\<lparr>i_queue := i_queue fd', events := tiny_events_set (events fd) FD_EVENT_TX_DATA_AVAILABLE,
      peers := (peers fd)[unat p := (peer_of fd p)\<lparr>i_queue_ctl := (ctl fd p)\<lparr>last_ns := seq_next (last_ns (ctl fd p))\<rparr>\<rparr>]\<rparr>"
    and "\<not> r \<Longrightarrow> fd' = fd \<and> (q_mtu (i_queue fd) < int (length data) \<or> \<not> tiny_fd_queue_has_free_slots (i_queue fd))"
    by (simp_all add: l_def)
qed

subsection \<open>Going back\<close>

lemma fd_wf_ctl:
  assumes "fd_wf fd" "p < peers_count fd" "p_addr (f (peer_of fd p)) = p_addr (peer_of fd p)"
    and "confirm_ns (i_queue_ctl (f (peer_of fd p))) = confirm_ns (ctl fd p)"
    and "last_ns (i_queue_ctl (f (peer_of fd p))) = last_ns (ctl fd p)"
    and "next_ns (i_queue_ctl (f (peer_of fd p))) < 8" "next_nr (i_queue_ctl (f (peer_of fd p))) < 8"
  shows "fd_wf (upd_peer p f fd)" and "tx_window (upd_peer p f fd) q = tx_window fd q"
proof -
  have ix: "unat p < length (peers fd)" using fd_wf_index assms(1,2) by blast
  note pr = peer_of_upd_peer [OF ix, of f]
  have addr: "p_addr (peer_of (upd_peer p f fd) q) = p_addr (peer_of fd q)"
    "peer_to_address_field (upd_peer p f fd) q = peer_to_address_field fd q" for q
    using assms(3) by (simp_all add: pr peer_to_address_field_def)
  show "tx_window (upd_peer p f fd) q = tx_window fd q"
    using assms(4,5) unfolding tx_window_def addr by (simp add: pr)
  have "peer_wf (upd_peer p f fd) q" if "q < peers_count fd" for q
  proof -
    have "peer_wf fd q" using assms(1) that by (simp add: fd_wf_def)
    then show ?thesis using assms(3-7) unfolding peer_wf_def window_ok_def addr
      by (cases "q = p") (simp_all add: pr control_wf_def)
  qed
  then show "fd_wf (upd_peer p f fd)"
    using assms(1) addresses_distinct_cong [of "upd_peer p f fd" fd] station_ok_cong [of "upd_peer p f fd" fd] addr(1)
    by (simp add: fd_wf_def table_wf_def)
qed

definition go_back_target :: "i_queue_control \<Rightarrow> u8 \<Rightarrow> u8" where
  "go_back_target c nr = (if seq_dist (confirm_ns c) nr \<le> seq_dist (confirm_ns c) (next_ns c) then nr else confirm_ns c)"

lemma resend_loop_spec:
  assumes "unat p < length (peers fd)" "control_wf (ctl fd p)" "nr < 8"
    "seq_dist (confirm_ns (ctl fd p)) (next_ns (ctl fd p)) < fuel"
  defines "t \<equiv> go_back_target (ctl fd p) nr"
  defines "fd1 \<equiv> upd_peer p (\<lambda>x. x\<lparr>i_queue_ctl := (i_queue_ctl x)\<lparr>next_ns := t\<rparr>\<rparr>) fd"
  shows "resend_loop p control nr fuel fd =
    (if t = nr then fd1
     else snd (put_u_s_frame_to_tx_queue fd1 TINY_FD_QUEUE_U_FRAME
            [peer_to_address_field fd p OR HDLC_CR_BIT, HDLC_U_FRAME_TYPE_FRMR OR HDLC_U_FRAME_BITS, control,
             push_bit 5 (next_nr (ctl fd p)) OR push_bit 1 t]))"
  using assms(1-4) unfolding fd1_def t_def
proof (induction fuel arbitrary: fd)
  case 0
  then show ?case by simp
next
  case (Suc fuel)
  define c where "c = ctl fd p"
  have same: "upd_peer p (\<lambda>x. x\<lparr>i_queue_ctl := (i_queue_ctl x)\<lparr>next_ns := next_ns c\<rparr>\<rparr>) fd = fd"
    by (simp add: upd_peer_def peer_of_def c_def)
  note wf = Suc.prems(2) [folded c_def, unfolded control_wf_def]
  consider (reached) "next_ns c = nr" | (low) "next_ns c \<noteq> nr" "confirm_ns c = next_ns c"
    | (down) "next_ns c \<noteq> nr" "confirm_ns c \<noteq> next_ns c" by blast
  then show ?case
  proof cases
    case reached
    then have "go_back_target c nr = nr" by (simp add: go_back_target_def)
    then show ?thesis using reached same by (simp add: c_def i_queue_control_get_next_frame_to_send_def)
  next
    case low
    then have "seq_dist (confirm_ns c) nr \<noteq> 0" using wf Suc.prems(3) by (simp add: seq_dist_0)
    then have "go_back_target c nr = next_ns c" using low by (simp add: go_back_target_def)
    then show ?thesis using low same
      by (simp add: i_queue_control_get_next_frame_to_send_def i_queue_control_get_next_frame_to_confirm_def
          i_queue_control_get_next_frame_to_receive_def Let_def flip: c_def)
  next
    case down
    define fd2 where "fd2 = upd_peer p (\<lambda>x. x\<lparr>i_queue_ctl := (i_queue_ctl x)\<lparr>next_ns := seq_prev (next_ns c)\<rparr>\<rparr>) fd"
    have c2: "ctl fd2 p = c\<lparr>next_ns := seq_prev (next_ns c)\<rparr>" "unat p < length (peers fd2)"
      "peer_to_address_field fd2 p = peer_to_address_field fd p"
      using Suc.prems(1) by (simp_all add: fd2_def peer_of_upd_peer c_def peer_to_address_field_def)
    have d: "seq_dist (confirm_ns c) (next_ns c) = Suc (seq_dist (confirm_ns c) (seq_prev (next_ns c)))"
      using seq_dist_prev wf down by simp
    have "seq_dist (confirm_ns c) nr \<noteq> seq_dist (confirm_ns c) (next_ns c)" using seq_dist_inj wf Suc.prems(3) down by simp
    then have t: "go_back_target (ctl fd2 p) nr = go_back_target c nr"
      using d by (auto simp: go_back_target_def c2)
    have twice: "upd_peer p (\<lambda>x. x\<lparr>i_queue_ctl := (i_queue_ctl x)\<lparr>next_ns := n\<rparr>\<rparr>) fd2
        = upd_peer p (\<lambda>x. x\<lparr>i_queue_ctl := (i_queue_ctl x)\<lparr>next_ns := n\<rparr>\<rparr>) fd" for n
      using Suc.prems(1) by (simp add: fd2_def upd_peer_def peer_of_def)
    have "resend_loop p control nr (Suc fuel) fd = resend_loop p control nr fuel fd2"
    proof -
      have "upd_peer p (\<lambda>x. x\<lparr>i_queue_ctl := i_queue_control_move_to_previous_ns (i_queue_ctl x)\<rparr>) fd = fd2"
        by (simp add: fd2_def upd_peer_def i_queue_control_move_to_previous_ns_def seq_bits_mask_def c_def)
      then show ?thesis using down
        by (simp add: i_queue_control_get_next_frame_to_send_def i_queue_control_get_next_frame_to_confirm_def Let_def flip: c_def)
    qed
    then show ?thesis
      using Suc.IH [OF c2(2)] Suc.prems(3,4) wf d t twice c2(1,3)
      by (simp add: control_wf_def and_7_less flip: c_def)
  qed
qed

lemma resend_all_refines:
  fixes control :: u8
  assumes "fd_wf fd" "p < peers_count fd" "nr < 8"
  defines "fd' \<equiv> resend_all_unconfirmed_frames fd p control nr" and "t \<equiv> go_back_target (ctl fd p) nr"
  defines "fd1 \<equiv> upd_peer p (\<lambda>x. x\<lparr>i_queue_ctl := (i_queue_ctl x)\<lparr>next_ns := t\<rparr>\<rparr>) fd"
  shows "fd_wf fd'" and "same_but_service fd1 fd'" and "ctl fd' p = (ctl fd p)\<lparr>next_ns := t\<rparr>"
    and "tx_window fd' q = tx_window fd q" and "t = nr \<Longrightarrow> s_queue fd' = s_queue fd"
proof -
  have ix: "unat p < length (peers fd)" using fd_wf_index assms(1,2) by blast
  note w = window_holds(3) [OF assms(1,2)]
  have t8: "t < 8" using assms(3) w by (simp add: t_def go_back_target_def control_wf_def)
  have wf1: "fd_wf fd1" "tx_window fd1 q = tx_window fd q" for q
    using fd_wf_ctl [OF assms(1,2), of "\<lambda>x. x\<lparr>i_queue_ctl := (i_queue_ctl x)\<lparr>next_ns := t\<rparr>\<rparr>"] t8 w
    by (simp_all add: fd1_def control_wf_def)
  define fr where "fr = [peer_to_address_field fd p OR HDLC_CR_BIT, HDLC_U_FRAME_TYPE_FRMR OR HDLC_U_FRAME_BITS, control,
             push_bit 5 (next_nr (ctl fd p)) OR push_bit 1 t]"
  define fd2 where "fd2 = (if t = nr then fd1 else snd (put_u_s_frame_to_tx_queue fd1 TINY_FD_QUEUE_U_FRAME fr))"
  have fd': "fd' = set_events FD_EVENT_TX_DATA_AVAILABLE fd2"
    using resend_loop_spec [OF ix w assms(3), of 8 control] seq_dist_less
    by (simp add: fd'_def resend_all_unconfirmed_frames_def fd2_def fd1_def t_def fr_def)
  have fd2: "fd_wf fd2" "same_but_service fd1 fd2"
    using put_u_s_frame_preserves [OF wf1(1), of TINY_FD_QUEUE_U_FRAME fr] wf1(1) by (simp_all add: fd2_def fr_def)
  show "fd_wf fd'" using fd2(1) by (simp add: fd')
  show s: "same_but_service fd1 fd'" using same_but_service_trans [OF fd2(2)] by (simp add: fd')
  show "ctl fd' p = (ctl fd p)\<lparr>next_ns := t\<rparr>"
    using same_but_service_fields(4) [OF s, of p] ix by (simp add: fd1_def peer_of_upd_peer)
  show "tx_window fd' q = tx_window fd q" using window_same_but_service(1) [OF s] wf1(2) by simp
  show "s_queue fd' = s_queue fd" if "t = nr" using that by (simp add: fd' fd2_def fd1_def set_events_def)
qed

subsection \<open>Properties\<close>

text \<open>
  A received N(R) confirms frames of the sliding window in order: the payloads taken off the front
  of the peer's window are exactly those reported to \<open>on_send_cb\<close>, with the peer's address, and what is
  left is the rest of the window. If N(R) lies in the window, the frames before it are confirmed. The
  windows of other peers, and the invariant of the protocol state, are kept.
\<close>

theorem tiny_fd_confirm_sent_frames:
  assumes "fd_wf fd" "p < peers_count fd" "p_addr (peer_of fd p) \<noteq> HDLC_INVALID_PEER_INDEX"
    and "nr < 8" "seq_dist (confirm_ns (ctl fd p)) nr \<le> length (tx_window fd p)"
  defines "fd' \<equiv> confirm_sent_frames fd p nr" and "k \<equiv> seq_dist (confirm_ns (ctl fd p)) nr"
  shows "fd_wf fd' \<and> confirm_ns (ctl fd' p) = nr \<and> tx_window fd' p = drop k (tx_window fd p)
    \<and> calls fd' = calls fd @ (if on_send_cb fd then map (On_send (app_address fd p)) (take k (tx_window fd p)) else [])
    \<and> (\<forall>q. q < peers_count fd \<and> q \<noteq> p \<longrightarrow> tx_window fd' q = tx_window fd q)"
proof -
  have k: "confirmed_count (confirm_ns (ctl fd p)) (last_ns (ctl fd p)) nr = k"
    using assms(4,5) by (simp add: confirmed_count_def k_def tx_window_length)
  have "seq_add (confirm_ns (ctl fd p)) k = nr"
    using seq_add_dist assms(4) window_holds(3) [OF assms(1,2)] by (simp add: k_def control_wf_def)
  moreover have "confirm_ns (ctl fd' p) = seq_add (confirm_ns (ctl fd p)) k"
    using arg_cong [OF conjunct1 [OF conjunct2 [OF conjunct2 [OF conjunct2
        [OF confirm_sent_frames_refines(2) [OF assms(1-3), of nr, unfolded confirm_spec_def]]]]],
        of "\<lambda>x. confirm_ns (i_queue_ctl x)"]
    by (simp add: fd'_def k)
  ultimately show ?thesis
    using confirm_sent_frames_refines [OF assms(1-3), of nr] unfolding confirm_spec_def k fd'_def by simp
qed

lemma i_lookup_all_free:
  assumes "iq_wf q" "\<forall>f \<in> set (q_frames q). f_type f = TINY_FD_QUEUE_FREE"
  shows "i_lookup a q n = None"
  using assms(2) by (simp add: i_lookup_None [OF assms(1)] i_slot_def)

lemma iq_wf_all_free:
  assumes "queue_wf q" "q_size q \<le> 7" "\<forall>f \<in> set (q_frames q). f_type f = TINY_FD_QUEUE_FREE"
  shows "iq_wf q"
  using assms by (auto simp: iq_wf_def slots_unique_def i_slot_def i_slot_ok_def)

text \<open>A station in ABM mode with empty queues, connected.\<close>

definition demo_peer :: tiny_fd_peer_info where
  "demo_peer = \<lparr>p_state = TINY_FD_STATE_CONNECTED, p_addr = 1, sent_nr = 0, sent_reject = False, srej_req_mask = 0,
     i_queue_ctl = \<lparr>last_ns = 6, confirm_ns = 6, next_ns = 6, next_nr = 2\<rparr>, last_sent_i_ts = 0,
     last_sent_frame_ts = 0, last_received_frame_ts = 0, ka_confirmed = True, p_retries = 2, p_events = 8\<rparr>"

definition demo_slot :: "nat \<Rightarrow> tiny_fd_frame_info" where
  "demo_slot h = \<lparr>f_type = TINY_FD_QUEUE_FREE, f_len = 0, f_address = 0, f_control = 0, f_payload = [0, 0], f_header = h\<rparr>"

definition demo_fd :: tiny_fd_data where
  "demo_fd = \<lparr>on_read_cb = True, on_send_cb = True, on_read_ui_cb = False, on_connect_event_cb = True,
     log_frame_cb = False, send_timeout = 1000, retry_timeout = 200, ka_timeout = 5000, retries = 2,
     i_queue = \<lparr>q_frames = map demo_slot [100, 110, 120], q_lookup_index = 1, q_mtu = 2\<rparr>,
     s_queue = \<lparr>q_frames = map demo_slot [200, 210, 220, 230], q_lookup_index = 0, q_mtu = 2\<rparr>,
     peers_count = 1, peers = [demo_peer], fd_addr = 1, next_peer = 0, last_marker_ts = 0,
     fd_mode = TINY_FD_MODE_ABM, events = 0x14, calls = [], clock = of_nat, ticks = 0\<rparr>"

lemma u8_less_1: "(p :: u8) < 1 \<longleftrightarrow> p = 0"
  by (simp add: word_less_nat_alt unat_eq_0)

lemma demo_fd_simps: "peers_count demo_fd = 1" "peer_of demo_fd 0 = demo_peer" "p_addr demo_peer = 1"
  "i_queue_ctl demo_peer = \<lparr>last_ns = 6, confirm_ns = 6, next_ns = 6, next_nr = 2\<rparr>" "calls demo_fd = []"
  "on_send_cb demo_fd" "(1 :: u8) \<noteq> HDLC_INVALID_PEER_INDEX"
  by (simp_all add: demo_fd_def peer_of_def demo_peer_def HDLC_INVALID_PEER_INDEX_def)

lemma demo_fd_wf: "fd_wf demo_fd"
proof -
  have slots: "slot_wf 2 (demo_slot h)" "f_type (demo_slot h) = TINY_FD_QUEUE_FREE" "f_header (demo_slot h) = h" for h
    by (simp_all add: demo_slot_def slot_wf_def)
  have free: "\<forall>f \<in> set (q_frames (i_queue demo_fd)). f_type f = TINY_FD_QUEUE_FREE" by (simp add: demo_fd_def slots)
  have "queue_wf (i_queue demo_fd)" "q_size (i_queue demo_fd) \<le> 7" by (simp_all add: queue_wf_def demo_fd_def slots)
  then have iq: "iq_wf (i_queue demo_fd)" using free by (rule iq_wf_all_free)
  then have "window_ok demo_fd 0"
    using i_lookup_all_free [OF iq free] by (simp add: window_ok_def demo_fd_simps dom_def)
  then have "peer_wf demo_fd 0" by (simp add: peer_wf_def demo_fd_simps control_wf_def HDLC_E_BIT_def)
  moreover have "s_queue_wf (s_queue demo_fd)" "table_wf demo_fd"
    by (simp_all add: s_queue_wf_def queue_wf_def demo_fd_def slots table_wf_def)
  moreover have "station_ok demo_fd" unfolding station_ok_def by (simp add: demo_fd_simps) (simp add: demo_fd_def)
  moreover have "addresses_distinct demo_fd" by (simp add: addresses_distinct_def demo_fd_simps u8_less_1)
  ultimately show ?thesis using iq by (simp add: fd_wf_def demo_fd_simps u8_less_1)
qed

text \<open>The same station with two frames queued.\<close>

definition demo_fd2 :: tiny_fd_data where
  "demo_fd2 = snd (put_i_frame_to_tx_queue (snd (put_i_frame_to_tx_queue demo_fd 0 [7])) 0 [8, 9])"

lemma demo_fd2_facts: "fd_wf demo_fd2" "tx_window demo_fd2 0 = [[7], [8, 9]]" "peers_count demo_fd2 = 1"
  "p_addr (peer_of demo_fd2 0) = 1" "confirm_ns (ctl demo_fd2 0) = 6" "calls demo_fd2 = []" "on_send_cb demo_fd2"
  "peer_to_address_field demo_fd2 0 = 1" "is_primary_station demo_fd2" "ctl demo_fd2 0 = \<lparr>last_ns = 0, confirm_ns = 6, next_ns = 6, next_nr = 2\<rparr>"
  "on_read_cb demo_fd2" "unat 0 < length (peers demo_fd2)"
proof -
  define fd1 where "fd1 = snd (put_i_frame_to_tx_queue demo_fd 0 [7])"
  have "fst (put_i_frame_to_tx_queue demo_fd 0 [7])" by code_simp
  then have r1: "put_i_frame_to_tx_queue demo_fd 0 [7] = (True, fd1)" by (simp add: fd1_def prod_eq_iff)
  note p1 = put_i_frame_refines [OF demo_fd_wf _ _ r1]
  have s1: "peers_count fd1 = 1" "p_addr (peer_of fd1 0) = 1" "tx_window fd1 0 = [[7]]" "fd_wf fd1"
  proof -
    show "peers_count fd1 = 1" "p_addr (peer_of fd1 0) = 1" unfolding fd1_def by code_simp+
    have "tx_window demo_fd 0 = []" by (simp add: tx_window_def demo_fd_simps)
    then show "tx_window fd1 0 = [[7]]" "fd_wf fd1" using p1(1,2) by (simp_all add: demo_fd_simps)
  qed
  have "fst (put_i_frame_to_tx_queue fd1 0 [8, 9])" unfolding fd1_def by code_simp
  then have r2: "put_i_frame_to_tx_queue fd1 0 [8, 9] = (True, demo_fd2)" by (simp add: fd1_def demo_fd2_def prod_eq_iff)
  note p2 = put_i_frame_refines [OF s1(4) _ _ r2]
  show "fd_wf demo_fd2" "tx_window demo_fd2 0 = [[7], [8, 9]]" using p2(1,2) s1 by (simp_all add: demo_fd_simps)
  show "peers_count demo_fd2 = 1"
  "p_addr (peer_of demo_fd2 0) = 1" "confirm_ns (ctl demo_fd2 0) = 6" "calls demo_fd2 = []" "on_send_cb demo_fd2"
  "peer_to_address_field demo_fd2 0 = 1" "is_primary_station demo_fd2" "ctl demo_fd2 0 = \<lparr>last_ns = 0, confirm_ns = 6, next_ns = 6, next_nr = 2\<rparr>"
  "on_read_cb demo_fd2" "unat 0 < length (peers demo_fd2)"
    by code_simp+
qed

theorem tiny_fd_confirm_sent_frames_witness:
  "calls (confirm_sent_frames demo_fd2 0 7) = [On_send 0 [7]] \<and> tx_window (confirm_sent_frames demo_fd2 0 7) 0 = [[8, 9]]"
proof -
  have "seq_dist 6 7 = 1" by (simp add: seq_dist_def)
  moreover have "app_address demo_fd2 0 = 0"
    using demo_fd2_facts(8,9) by (simp add: app_address_def)
  ultimately show ?thesis
    using tiny_fd_confirm_sent_frames [OF demo_fd2_facts(1), of 0 7] by (simp add: demo_fd2_facts demo_fd_simps)
qed

end
