(* ===== verification/FdOnRx.thy ===== *)
theory FdOnRx
  imports FdData "HOL-Library.Multiset"
begin

unbundle bit_operations_syntax

section \<open>Received frames: tiny_fd_on_rx_int.h and the callbacks of tiny_fd.c\<close>

text \<open>
  What the protocol does with a frame that the low level hands over (\<open>on_frame_read\<close>) or reports as sent
  (\<open>on_frame_send\<close>), and the two switches of the connection state. The lemmas show that every handler
  keeps the invariant \<open>fd_wf\<close>, and what it means for the connection state and for the data that reaches
  the application.
\<close>

subsection \<open>The code\<close>

definition reset_peer :: "tiny_fd_state \<Rightarrow> tiny_fd_peer_info \<Rightarrow> tiny_fd_peer_info" where
  "reset_peer st p = p\<lparr>p_state := st, i_queue_ctl := reset_i_queue_control (i_queue_ctl p), sent_nr := 0,
     sent_reject := False, srej_req_mask := 0\<rparr>"

definition switch_to_connected_state :: "tiny_fd_data \<Rightarrow> u8 \<Rightarrow> tiny_fd_data" where
  "switch_to_connected_state fd peer =
     (if p_state (peer_of fd peer) \<noteq> TINY_FD_STATE_CONNECTED then
        let fd = upd_peer peer (reset_peer TINY_FD_STATE_CONNECTED) fd;
            fd = fd\<lparr>i_queue := tiny_fd_queue_reset_for (i_queue fd) (peer_to_address_field fd peer)\<rparr>;
            (now, fd) = tiny_millis fd;
            fd = upd_peer peer (\<lambda>p. p\<lparr>last_received_frame_ts := now\<rparr>) fd;
            (now, fd) = tiny_millis fd;
            fd = upd_peer peer (\<lambda>p. p\<lparr>last_sent_frame_ts := now\<rparr>) fd;
            fd = upd_peer peer (\<lambda>p. p\<lparr>p_events := tiny_events_set (p_events p) FD_EVENT_CAN_ACCEPT_I_FRAMES\<rparr>) fd;
            fd = set_events (FD_EVENT_TX_DATA_AVAILABLE OR
                   (if tiny_fd_queue_has_free_slots (i_queue fd) then FD_EVENT_QUEUE_HAS_FREE_SLOTS else 0)) fd
        in if on_connect_event_cb fd then call (On_connect_event (app_address fd peer) True) fd else fd
      else fd)"

definition switch_to_disconnected_state :: "tiny_fd_data \<Rightarrow> u8 \<Rightarrow> tiny_fd_data" where
  "switch_to_disconnected_state fd peer =
     (if p_state (peer_of fd peer) \<noteq> TINY_FD_STATE_DISCONNECTED then
        let fd = upd_peer peer (reset_peer TINY_FD_STATE_DISCONNECTED) fd;
            fd = fd\<lparr>i_queue := tiny_fd_queue_reset_for (i_queue fd) (peer_to_address_field fd peer)\<rparr>;
            fd = upd_peer peer (\<lambda>p. p\<lparr>p_events := tiny_events_clear (p_events p) FD_EVENT_CAN_ACCEPT_I_FRAMES\<rparr>) fd
        in if on_connect_event_cb fd then call (On_connect_event (app_address fd peer) False) fd else fd
      else fd)"

definition check_received_frame :: "tiny_fd_data \<Rightarrow> u8 \<Rightarrow> u8 \<Rightarrow> int \<times> tiny_fd_data" where
  "check_received_frame fd peer ns =
     (if ns = i_queue_control_get_next_frame_to_receive (i_queue_ctl (peer_of fd peer)) then
        (TINY_SUCCESS, upd_peer peer (\<lambda>p. p\<lparr>i_queue_ctl := i_queue_control_move_to_next_frame_to_receive (i_queue_ctl p),
                                           sent_reject := False\<rparr>) fd)
      else if \<not> sent_reject (peer_of fd peer) then
        let frame = [peer_to_address_field fd peer OR HDLC_CR_BIT,
                     HDLC_S_FRAME_BITS OR HDLC_S_FRAME_TYPE_REJ OR
                       push_bit 5 (i_queue_control_get_next_frame_to_receive (i_queue_ctl (peer_of fd peer)))];
            fd = upd_peer peer (\<lambda>p. p\<lparr>sent_reject := True\<rparr>) fd
        in (TINY_ERR_FAILED, snd (put_u_s_frame_to_tx_queue fd TINY_FD_QUEUE_S_FRAME frame))
      else (TINY_ERR_FAILED, fd))"

definition on_i_frame_read :: "tiny_fd_data \<Rightarrow> u8 \<Rightarrow> u8 list \<Rightarrow> int \<times> tiny_fd_data" where
  "on_i_frame_read fd peer data =
     (let control = data ! 1;
          nr = drop_bit 5 control;
          ns = drop_bit 1 control AND 0x07;
          (result, fd) = check_received_frame fd peer ns;
          fd = confirm_sent_frames fd peer nr
      in if result = TINY_SUCCESS then
           let fd = (if on_read_cb fd then call (On_read (app_address fd peer) (drop 2 data)) fd else fd);
               c = i_queue_ctl (peer_of fd peer)
           in if all_frames_are_sent c \<and> sent_nr (peer_of fd peer) \<noteq> i_queue_control_get_next_frame_to_receive c
              then (result, snd (put_u_s_frame_to_tx_queue fd TINY_FD_QUEUE_S_FRAME
                      [peer_to_address_field fd peer, HDLC_S_FRAME_BITS OR HDLC_S_FRAME_TYPE_RR OR
                         push_bit 5 (i_queue_control_get_next_frame_to_receive c)]))
              else (result, fd)
         else (result, fd))"

definition on_s_frame_read :: "tiny_fd_data \<Rightarrow> u8 \<Rightarrow> u8 list \<Rightarrow> int \<times> tiny_fd_data" where
  "on_s_frame_read fd peer data =
     (let address = data ! 0;
          control = data ! 1;
          nr = drop_bit 5 control;
          type = control AND HDLC_S_FRAME_TYPE_MASK
      in if type = HDLC_S_FRAME_TYPE_REJ then
           (TINY_ERR_FAILED, resend_all_unconfirmed_frames (confirm_sent_frames fd peer nr) peer control nr)
         else if type = HDLC_S_FRAME_TYPE_RR then
           let fd = confirm_sent_frames fd peer nr;
               c = i_queue_ctl (peer_of fd peer)
           in if address AND HDLC_CR_BIT \<noteq> 0 \<and> all_frames_are_sent c
              then (TINY_ERR_FAILED, snd (put_u_s_frame_to_tx_queue fd TINY_FD_QUEUE_S_FRAME
                      [peer_to_address_field fd peer, HDLC_S_FRAME_BITS OR HDLC_S_FRAME_TYPE_RR OR
                         (control AND HDLC_P_BIT) OR push_bit 5 (i_queue_control_get_next_frame_to_receive c)]))
              else (TINY_ERR_FAILED, fd)
         else if type = HDLC_S_FRAME_TYPE_RNR then (TINY_ERR_FAILED, confirm_sent_frames fd peer nr)
         else if type = HDLC_S_FRAME_TYPE_SREJ then
           let fd = confirm_sent_frames fd peer nr;
               fd = upd_peer peer (\<lambda>p. p\<lparr>srej_req_mask := srej_req_mask p OR push_bit (unat nr) 1\<rparr>) fd
           in (TINY_ERR_FAILED, set_events FD_EVENT_TX_DATA_AVAILABLE fd)
         else (TINY_ERR_FAILED, fd))"

definition on_u_frame_read :: "tiny_fd_data \<Rightarrow> u8 \<Rightarrow> u8 list \<Rightarrow> int \<times> tiny_fd_data" where
  "on_u_frame_read fd peer data =
     (let control = data ! 1;
          type = control AND HDLC_U_FRAME_TYPE_MASK;
          address = peer_to_address_field fd peer;
          ua = [address, HDLC_U_FRAME_TYPE_UA OR HDLC_U_FRAME_BITS]
      in if p_state (peer_of fd peer) = TINY_FD_STATE_DISCONNECTED
            \<and> type \<noteq> HDLC_U_FRAME_TYPE_SABM \<and> type \<noteq> HDLC_U_FRAME_TYPE_SNRM \<and> type \<noteq> HDLC_U_FRAME_TYPE_UI
         then (TINY_ERR_FAILED,
               if data ! 0 AND HDLC_CR_BIT \<noteq> 0
               then snd (put_u_s_frame_to_tx_queue fd TINY_FD_QUEUE_U_FRAME [address, HDLC_U_FRAME_TYPE_DM OR HDLC_U_FRAME_BITS])
               else fd)
         else if type = HDLC_U_FRAME_TYPE_SABM \<or> type = HDLC_U_FRAME_TYPE_SNRM then
           let fd = snd (put_u_s_frame_to_tx_queue fd TINY_FD_QUEUE_U_FRAME ua);
               fd = (if p_state (peer_of fd peer) \<noteq> TINY_FD_STATE_DISCONNECTED
                        \<and> p_state (peer_of fd peer) \<noteq> TINY_FD_STATE_CONNECTING
                     then switch_to_disconnected_state fd peer else fd)
           in (TINY_ERR_FAILED, switch_to_connected_state fd peer)
         else if type = HDLC_U_FRAME_TYPE_DISC then
           let fd = snd (put_u_s_frame_to_tx_queue fd TINY_FD_QUEUE_U_FRAME ua)
           in (TINY_ERR_FAILED, switch_to_disconnected_state fd peer)
         else if type = HDLC_U_FRAME_TYPE_RSET then
           let fd = upd_peer peer (\<lambda>p. p\<lparr>i_queue_ctl := reset_i_queue_control (i_queue_ctl p), sent_nr := 0,
                                        sent_reject := False, srej_req_mask := 0\<rparr>) fd
           in (TINY_ERR_FAILED, snd (put_u_s_frame_to_tx_queue fd TINY_FD_QUEUE_U_FRAME ua))
         else if type = HDLC_U_FRAME_TYPE_FRMR then
           let fd = (if p_state (peer_of fd peer) \<noteq> TINY_FD_STATE_DISCONNECTED
                     then switch_to_disconnected_state fd peer else fd);
               fd = snd (put_u_s_frame_to_tx_queue fd TINY_FD_QUEUE_U_FRAME
                      [peer_to_address_field fd peer OR HDLC_CR_BIT,
                       (if fd_mode fd = TINY_FD_MODE_NRM then HDLC_U_FRAME_TYPE_SNRM else HDLC_U_FRAME_TYPE_SABM) OR HDLC_U_FRAME_BITS])
           in (TINY_ERR_FAILED, upd_peer peer (\<lambda>p. p\<lparr>p_state := TINY_FD_STATE_CONNECTING\<rparr>) fd)
         else if type = HDLC_U_FRAME_TYPE_UA then
           (TINY_ERR_FAILED,
            if p_state (peer_of fd peer) = TINY_FD_STATE_CONNECTING then switch_to_connected_state fd peer
            else if p_state (peer_of fd peer) = TINY_FD_STATE_DISCONNECTING then switch_to_disconnected_state fd peer
            else fd)
         else if type = HDLC_U_FRAME_TYPE_DM then
           (TINY_ERR_FAILED,
            if p_state (peer_of fd peer) \<noteq> TINY_FD_STATE_DISCONNECTED then switch_to_disconnected_state fd peer else fd)
         else if type = HDLC_U_FRAME_TYPE_UI then
           (TINY_ERR_FAILED,
            if on_read_ui_cb fd \<and> length data > 2 then call (On_read_ui (app_address fd peer) (drop 2 data)) fd else fd)
         else (TINY_ERR_FAILED, fd))"

definition on_frame_read_by_type :: "tiny_fd_data \<Rightarrow> u8 \<Rightarrow> u8 list \<Rightarrow> tiny_fd_data" where
  "on_frame_read_by_type fd peer data =
     (let control = data ! 1
      in if control AND HDLC_U_FRAME_MASK = HDLC_U_FRAME_MASK then snd (on_u_frame_read fd peer data)
         else if p_state (peer_of fd peer) \<noteq> TINY_FD_STATE_CONNECTED
               \<and> p_state (peer_of fd peer) \<noteq> TINY_FD_STATE_DISCONNECTING
         then snd (put_u_s_frame_to_tx_queue fd TINY_FD_QUEUE_U_FRAME
                [peer_to_address_field fd peer, HDLC_U_FRAME_TYPE_DM OR HDLC_U_FRAME_BITS])
         else if control AND HDLC_I_FRAME_MASK = HDLC_I_FRAME_BITS then snd (on_i_frame_read fd peer data)
         else if control AND HDLC_S_FRAME_MASK = HDLC_S_FRAME_BITS then snd (on_s_frame_read fd peer data)
         else fd)"

definition on_frame_read :: "tiny_fd_data \<Rightarrow> u8 list \<Rightarrow> tiny_fd_data" where
  "on_frame_read fd data =
     (if length data < 2 then fd
      else
        let fd = tiny_fd_log_frame TINY_FD_FRAME_DIRECTION_IN data fd;
            peer = address_field_to_peer fd (data ! 0)
        in if peer = HDLC_INVALID_PEER_INDEX then fd
           else
             let (now, fd) = tiny_millis fd;
                 fd = upd_peer peer (\<lambda>p. p\<lparr>last_received_frame_ts := now, ka_confirmed := True\<rparr>) fd;
                 control = data ! 1;
                 fd = on_frame_read_by_type fd peer data
             in if fd_mode fd = TINY_FD_MODE_NRM \<and> control AND (HDLC_P_BIT OR HDLC_F_BIT) \<noteq> 0
                then set_events FD_EVENT_HAS_MARKER fd else fd)"

text \<open>The low level passes the address of the frame it has sent, and its bytes.\<close>

definition on_frame_send :: "tiny_fd_data \<Rightarrow> nat \<Rightarrow> u8 list \<Rightarrow> tiny_fd_data" where
  "on_frame_send fd header data =
     (let peer = address_field_to_peer fd (data ! 0);
          control = data ! 1
      in if peer = HDLC_INVALID_PEER_INDEX then fd
         else
           let fd = (if control AND HDLC_I_FRAME_MASK = HDLC_I_FRAME_BITS then fd
                     else if control AND HDLC_S_FRAME_MASK = HDLC_S_FRAME_BITS
                     then fd\<lparr>s_queue := tiny_fd_queue_free_by_header (s_queue fd) header\<rparr>
                     else if control AND HDLC_U_FRAME_MASK = HDLC_U_FRAME_BITS
                     then fd\<lparr>s_queue := tiny_fd_queue_free_by_header (s_queue fd) header\<rparr>
                     else fd)
           in if fd_mode fd = TINY_FD_MODE_NRM \<and> is_primary_station fd \<and> control AND HDLC_P_BIT \<noteq> 0 then
                clear_events (FD_EVENT_TX_SENDING OR FD_EVENT_HAS_MARKER) (snd (switch_to_next_peer fd))
              else if fd_mode fd = TINY_FD_MODE_NRM \<and> \<not> is_primary_station fd \<and> control AND HDLC_F_BIT \<noteq> 0 then
                clear_events (FD_EVENT_TX_SENDING OR FD_EVENT_HAS_MARKER) fd
              else clear_events FD_EVENT_TX_SENDING fd)"

subsection \<open>Switching the connection state\<close>

lemma reset_i_queue_control_eq: "reset_i_queue_control c = \<lparr>last_ns = 0, confirm_ns = 0, next_ns = 0, next_nr = 0\<rparr>"
  by (cases c) (simp add: reset_i_queue_control_def)

text \<open>Flushing the frames of a peer and restarting its numbers.\<close>

lemma fd_wf_flush:
  assumes "fd_wf fd" "p < peers_count fd" "p_addr (peer_of fd p) \<noteq> HDLC_INVALID_PEER_INDEX"
    and "p_addr (f (peer_of fd p)) = p_addr (peer_of fd p)"
    and "i_queue_ctl (f (peer_of fd p)) = reset_i_queue_control (ctl fd p)"
  defines "fd' \<equiv> (upd_peer p f fd)\<lparr>i_queue := tiny_fd_queue_reset_for (i_queue fd) (peer_to_address_field fd p)\<rparr>"
  shows "fd_wf fd'" and "tx_window fd' p = []" and "q < peers_count fd \<Longrightarrow> q \<noteq> p \<Longrightarrow> tx_window fd' q = tx_window fd q"
proof -
  define a where "a = peer_to_address_field fd p"
  have ix: "unat p < length (peers fd)" using fd_wf_index assms(1,2) by blast
  have iq: "iq_wf (i_queue fd)" using assms(1) by (simp add: fd_wf_def)
  note rs = reset_for_iq [OF iq, where a = a]
  have pr: "peer_of fd' q = (if q = p then f (peer_of fd p) else peer_of fd q)" for q
    using peer_of_upd_peer [OF ix] by (simp add: fd'_def)
  have addr: "p_addr (peer_of fd' q) = p_addr (peer_of fd q)" "peer_to_address_field fd' q = peer_to_address_field fd q" for q
    using assms(4) by (simp_all add: pr peer_to_address_field_def)
  have q': "i_queue fd' = tiny_fd_queue_reset_for (i_queue fd) a" by (simp add: fd'_def a_def)
  have c: "ctl fd' p = \<lparr>last_ns = 0, confirm_ns = 0, next_ns = 0, next_nr = 0\<rparr>"
    using assms(5) by (simp add: pr reset_i_queue_control_eq)
  show "tx_window fd' p = []" by (simp add: tx_window_def c)
  have "i_lookup (peer_to_address_field fd q) (i_queue fd') = i_lookup (peer_to_address_field fd q) (i_queue fd)"
    if "q < peers_count fd" "q \<noteq> p" for q
    using rs(2) peers_separate(1) [OF assms(1,2) that(1) _ assms(3)] that(2) by (auto simp: a_def q' fun_eq_iff)
  then have other: "peer_wf fd' q" "tx_window fd' q = tx_window fd q" if "q < peers_count fd" "q \<noteq> p" for q
    using peer_wf_other [of fd q fd'] pr [of q] addr(1) assms(1) that by (simp_all add: fd_wf_def)
  then show "q < peers_count fd \<Longrightarrow> q \<noteq> p \<Longrightarrow> tx_window fd' q = tx_window fd q" by blast
  have "dom (i_lookup a (i_queue fd')) = {}" using rs(2) [of a] by (auto simp: q' dom_def)
  moreover have "p_addr (peer_of fd p) AND HDLC_E_BIT \<noteq> 0" using assms(1,2) by (simp add: fd_wf_def peer_wf_def)
  ultimately have "peer_wf fd' p"
    by (simp add: peer_wf_def window_ok_def c control_wf_def addr flip: a_def)
  moreover have "iq_wf (i_queue fd')" using rs(1) by (simp add: q')
  moreover have "station_ok fd' = station_ok fd" using station_ok_cong [of fd' fd] addr(1) by (simp add: fd'_def)
  moreover have "s_queue fd' = s_queue fd" "peers_count fd' = peers_count fd" "next_peer fd' = next_peer fd"
    "length (peers fd') = length (peers fd)" by (simp_all add: fd'_def)
  ultimately show "fd_wf fd'"
    using assms(1) other(1) addresses_distinct_cong [of fd' fd] addr(1) unfolding fd_wf_def table_wf_def by metis
qed

text \<open>
  The state the handlers share: a switch changes the addressed peer, flushes its frames, and may tell
  the application. \<open>switched\<close> collects it.
\<close>

definition switched :: "u8 \<Rightarrow> bool \<Rightarrow> tiny_fd_data \<Rightarrow> tiny_fd_data \<Rightarrow> bool" where
  "switched p up fd fd' \<longleftrightarrow> fd_wf fd'
     \<and> p_state (peer_of fd' p) = (if up then TINY_FD_STATE_CONNECTED else TINY_FD_STATE_DISCONNECTED)
     \<and> ctl fd' p = \<lparr>last_ns = 0, confirm_ns = 0, next_ns = 0, next_nr = 0\<rparr>
     \<and> sent_nr (peer_of fd' p) = 0 \<and> \<not> sent_reject (peer_of fd' p) \<and> srej_req_mask (peer_of fd' p) = 0
     \<and> tx_window fd' p = []
     \<and> (\<forall>q. q \<noteq> p \<longrightarrow> peer_of fd' q = peer_of fd q)
     \<and> (\<forall>q. q < peers_count fd \<and> q \<noteq> p \<longrightarrow> tx_window fd' q = tx_window fd q)
     \<and> calls fd' = calls fd @ (if on_connect_event_cb fd then [On_connect_event (app_address fd p) up] else [])"

text \<open>What no handler changes: the configuration of the station and the addresses of the peers.\<close>

definition same_config :: "tiny_fd_data \<Rightarrow> tiny_fd_data \<Rightarrow> bool" where
  "same_config fd fd' \<longleftrightarrow> peers_count fd' = peers_count fd \<and> fd_addr fd' = fd_addr fd \<and> fd_mode fd' = fd_mode fd
     \<and> on_read_cb fd' = on_read_cb fd \<and> on_send_cb fd' = on_send_cb fd \<and> on_read_ui_cb fd' = on_read_ui_cb fd
     \<and> on_connect_event_cb fd' = on_connect_event_cb fd \<and> log_frame_cb fd' = log_frame_cb fd
     \<and> retries fd' = retries fd \<and> retry_timeout fd' = retry_timeout fd \<and> ka_timeout fd' = ka_timeout fd
     \<and> clock fd' = clock fd \<and> length (peers fd') = length (peers fd)
     \<and> (\<forall>q. p_addr (peer_of fd' q) = p_addr (peer_of fd q))"

lemma same_config_refl [simp]: "same_config fd fd"
  by (simp add: same_config_def)

lemma same_config_trans: "same_config a b \<Longrightarrow> same_config b c \<Longrightarrow> same_config a c"
  by (simp add: same_config_def)

lemma same_config_derived:
  assumes "same_config fd fd'"
  shows "is_primary_station fd' = is_primary_station fd" "peer_to_address_field fd' p = peer_to_address_field fd p"
    "app_address fd' p = app_address fd p"
  using assms by (simp_all add: same_config_def is_primary_station_def peer_to_address_field_def app_address_def)

lemma same_config_service: "same_but_service fd fd' \<Longrightarrow> same_config fd fd'"
  using same_but_service_fields [of fd fd'] by (simp add: same_config_def)

lemma same_config_simps [simp]:
  "same_config fd (call c fd)" "same_config fd (set_events b fd)" "same_config fd (clear_events b fd)"
  by (simp_all add: same_config_def call_def set_events_def clear_events_def)

lemma same_config_upd_peer:
  "unat p < length (peers fd) \<Longrightarrow> p_addr (f (peer_of fd p)) = p_addr (peer_of fd p) \<Longrightarrow> same_config fd (upd_peer p f fd)"
  by (simp add: same_config_def peer_of_upd_peer)

lemma upd_peer_twice:
  "unat p < length (peers fd) \<Longrightarrow> upd_peer p g (upd_peer p f fd) = upd_peer p (\<lambda>x. g (f x)) fd"
  by (simp add: upd_peer_def peer_of_def)

lemma upd_peer_cong: "f (peer_of fd p) = g (peer_of fd p) \<Longrightarrow> upd_peer p f fd = upd_peer p g fd"
  by (simp add: upd_peer_def)

lemma upd_peer_commute [simp]:
  "upd_peer p f (fd\<lparr>i_queue := q\<rparr>) = (upd_peer p f fd)\<lparr>i_queue := q\<rparr>"
  "upd_peer p f (fd\<lparr>s_queue := q\<rparr>) = (upd_peer p f fd)\<lparr>s_queue := q\<rparr>"
  "upd_peer p f (fd\<lparr>ticks := t\<rparr>) = (upd_peer p f fd)\<lparr>ticks := t\<rparr>"
  by (cases fd; simp add: upd_peer_def peer_of_def)+

lemma reset_peer_fields [simp]:
  "p_addr (reset_peer st x) = p_addr x" "p_state (reset_peer st x) = st" "p_events (reset_peer st x) = p_events x"
  "i_queue_ctl (reset_peer st x) = reset_i_queue_control (i_queue_ctl x)" "sent_nr (reset_peer st x) = 0"
  "\<not> sent_reject (reset_peer st x)" "srej_req_mask (reset_peer st x) = 0"
  by (simp_all add: reset_peer_def)

text \<open>The two switches as one update of the peer and one of the queue.\<close>

definition connected_peer :: "u32 \<Rightarrow> u32 \<Rightarrow> tiny_fd_peer_info \<Rightarrow> tiny_fd_peer_info" where
  "connected_peer t1 t2 x = (reset_peer TINY_FD_STATE_CONNECTED x)\<lparr>last_received_frame_ts := t1,
     last_sent_frame_ts := t2, p_events := tiny_events_set (p_events x) FD_EVENT_CAN_ACCEPT_I_FRAMES\<rparr>"

definition disconnected_peer :: "tiny_fd_peer_info \<Rightarrow> tiny_fd_peer_info" where
  "disconnected_peer x = (reset_peer TINY_FD_STATE_DISCONNECTED x)\<lparr>
     p_events := tiny_events_clear (p_events x) FD_EVENT_CAN_ACCEPT_I_FRAMES\<rparr>"

definition flush_peer :: "u8 \<Rightarrow> (tiny_fd_peer_info \<Rightarrow> tiny_fd_peer_info) \<Rightarrow> tiny_fd_data \<Rightarrow> tiny_fd_data" where
  "flush_peer p f fd = (upd_peer p f fd)\<lparr>i_queue := tiny_fd_queue_reset_for (i_queue fd) (peer_to_address_field fd p)\<rparr>"

definition connect_event :: "u8 \<Rightarrow> bool \<Rightarrow> tiny_fd_data \<Rightarrow> tiny_fd_data" where
  "connect_event p up fd = (if on_connect_event_cb fd then call (On_connect_event (app_address fd p) up) fd else fd)"

lemma peer_to_address_field_reset:
  "unat p < length (peers fd) \<Longrightarrow> peer_to_address_field (upd_peer p (reset_peer st) fd) p = peer_to_address_field fd p"
  by (simp add: peer_to_address_field_def peer_of_upd_peer)

lemma switch_to_connected_state_eq:
  assumes "unat p < length (peers fd)" "p_state (peer_of fd p) \<noteq> TINY_FD_STATE_CONNECTED"
  shows "\<exists>b. switch_to_connected_state fd p
    = connect_event p True (set_events b
        ((flush_peer p (connected_peer (clock fd (ticks fd)) (clock fd (ticks fd + 1))) fd)\<lparr>ticks := ticks fd + 2\<rparr>))"
proof -
  note tw = upd_peer_twice [where p = p]
  define fd1 where "fd1 = upd_peer p (reset_peer TINY_FD_STATE_CONNECTED) fd"
  define q where "q = tiny_fd_queue_reset_for (i_queue fd) (peer_to_address_field fd p)"
  have q: "tiny_fd_queue_reset_for (i_queue fd1) (peer_to_address_field fd1 p) = q"
    using peer_to_address_field_reset [OF assms(1)] by (simp add: fd1_def q_def)
  have ix: "unat p < length (peers fd1)" using assms(1) by (simp add: fd1_def)
  have t: "clock fd1 = clock fd" "ticks fd1 = ticks fd" by (simp_all add: fd1_def)
  have "upd_peer p (\<lambda>x. x\<lparr>last_received_frame_ts := t1, last_sent_frame_ts := t2,
      p_events := tiny_events_set (p_events x) FD_EVENT_CAN_ACCEPT_I_FRAMES\<rparr>) fd1 = upd_peer p (connected_peer t1 t2) fd" for t1 t2
    using assms(1) by (simp add: fd1_def upd_peer_twice connected_peer_def [abs_def])
  then show ?thesis using assms(2) ix
    unfolding switch_to_connected_state_def Let_def tiny_millis_def prod.case fd1_def [symmetric] q connect_event_def flush_peer_def q_def [symmetric]
    by (simp add: upd_peer_twice t) blast
qed

lemma switch_to_disconnected_state_eq:
  assumes "unat p < length (peers fd)" "p_state (peer_of fd p) \<noteq> TINY_FD_STATE_DISCONNECTED"
  shows "switch_to_disconnected_state fd p = connect_event p False (flush_peer p disconnected_peer fd)"
proof -
  have "upd_peer p (\<lambda>x. (reset_peer TINY_FD_STATE_DISCONNECTED x)\<lparr>
      p_events := tiny_events_clear (p_events x) FD_EVENT_CAN_ACCEPT_I_FRAMES\<rparr>) fd = upd_peer p disconnected_peer fd"
    by (simp add: disconnected_peer_def [abs_def])
  then show ?thesis using assms
    by (simp add: switch_to_disconnected_state_def Let_def connect_event_def flush_peer_def upd_peer_twice peer_to_address_field_reset)
qed

text \<open>Any update of this kind switches the peer.\<close>

lemma switched_by_flush:
  assumes "fd_wf fd" "p < peers_count fd" "p_addr (peer_of fd p) \<noteq> HDLC_INVALID_PEER_INDEX"
    and "f (peer_of fd p) = (reset_peer st (peer_of fd p))\<lparr>last_received_frame_ts := t1, last_sent_frame_ts := t2, p_events := e\<rparr>"
    and "st = (if up then TINY_FD_STATE_CONNECTED else TINY_FD_STATE_DISCONNECTED)"
    and "fd' = connect_event p up (set_events b ((flush_peer p f fd)\<lparr>ticks := t\<rparr>))"
  shows "switched p up fd fd'" and "same_config fd fd'" and "s_queue fd' = s_queue fd"
proof -
  have ix: "unat p < length (peers fd)" using fd_wf_index assms(1,2) by blast
  define fd1 where "fd1 = flush_peer p f fd"
  define fd2 where "fd2 = set_events b (fd1\<lparr>ticks := t\<rparr>)"
  have fl: "fd_wf fd1" "tx_window fd1 p = []" "\<And>q. q < peers_count fd \<Longrightarrow> q \<noteq> p \<Longrightarrow> tx_window fd1 q = tx_window fd q"
    using fd_wf_flush [OF assms(1-3), of f] assms(4) by (simp_all add: fd1_def flush_peer_def)
  have pr: "peer_of fd2 q = (if q = p then f (peer_of fd p) else peer_of fd q)" for q
    using peer_of_upd_peer [OF ix] by (simp add: fd2_def fd1_def flush_peer_def)
  have cfg: "same_config fd fd2"
    using assms(4) by (simp add: same_config_def pr) (simp add: fd2_def fd1_def flush_peer_def set_events_def)
  have fd': "fd' = connect_event p up fd2" using assms(6) by (simp add: fd2_def fd1_def)
  have ev: "connect_event p up fd2 = (if on_connect_event_cb fd then call (On_connect_event (app_address fd p) up) fd2 else fd2)"
    using same_config_derived(3) [OF cfg] cfg by (simp add: connect_event_def same_config_def)
  note fd'' = fd' [unfolded ev]
  have w: "tx_window fd' q = tx_window fd1 q" for q
    by (simp add: fd'' fd2_def call_def set_events_def tx_window_def peer_to_address_field_def)
  have "fd_wf fd'" using fl(1) by (simp add: fd'' fd2_def)
  moreover have "calls fd' = calls fd @ (if on_connect_event_cb fd then [On_connect_event (app_address fd p) up] else [])"
    by (simp add: fd'' call_def) (simp add: fd2_def fd1_def flush_peer_def set_events_def)
  moreover have "peer_of fd' q = peer_of fd2 q" for q by (simp add: fd'')
  ultimately show "switched p up fd fd'"
    using fl(2,3) assms(4,5) by (simp add: switched_def w pr reset_i_queue_control_eq)
  show "same_config fd fd'" using same_config_trans [OF cfg] by (simp add: fd'')
  show "s_queue fd' = s_queue fd" by (simp add: fd'' call_def fd2_def fd1_def flush_peer_def set_events_def)
qed

lemma switch_to_connected:
  assumes "fd_wf fd" "p < peers_count fd" "p_addr (peer_of fd p) \<noteq> HDLC_INVALID_PEER_INDEX"
    and "p_state (peer_of fd p) \<noteq> TINY_FD_STATE_CONNECTED"
  defines "fd' \<equiv> switch_to_connected_state fd p"
  shows "switched p True fd fd'" and "same_config fd fd'" and "s_queue fd' = s_queue fd"
proof -
  have ix: "unat p < length (peers fd)" using fd_wf_index assms(1,2) by blast
  obtain b where "fd' = connect_event p True (set_events b
        ((flush_peer p (connected_peer (clock fd (ticks fd)) (clock fd (ticks fd + 1))) fd)\<lparr>ticks := ticks fd + 2\<rparr>))"
    using switch_to_connected_state_eq [OF ix assms(4)] unfolding fd'_def by blast
  note sw = switched_by_flush [OF assms(1-3) _ _ this, where st = TINY_FD_STATE_CONNECTED]
  show "switched p True fd fd'" and "same_config fd fd'" and "s_queue fd' = s_queue fd"
    using sw by (simp_all add: connected_peer_def)
qed

lemma switch_to_disconnected:
  assumes "fd_wf fd" "p < peers_count fd" "p_addr (peer_of fd p) \<noteq> HDLC_INVALID_PEER_INDEX"
    and "p_state (peer_of fd p) \<noteq> TINY_FD_STATE_DISCONNECTED"
  defines "fd' \<equiv> switch_to_disconnected_state fd p"
  shows "switched p False fd fd'" and "same_config fd fd'" and "s_queue fd' = s_queue fd"
proof -
  have ix: "unat p < length (peers fd)" using fd_wf_index assms(1,2) by blast
  have "set_events 0 ((flush_peer p disconnected_peer fd)\<lparr>ticks := ticks fd\<rparr>) = flush_peer p disconnected_peer fd"
    by (cases fd) (simp add: flush_peer_def upd_peer_def set_events_def event_ops)
  then have eq: "fd' = connect_event p False (set_events 0 ((flush_peer p disconnected_peer fd)\<lparr>ticks := ticks fd\<rparr>))"
    using switch_to_disconnected_state_eq [OF ix assms(4)] by (simp add: fd'_def)
  define x where "x = peer_of fd p"
  have f: "disconnected_peer x = (reset_peer TINY_FD_STATE_DISCONNECTED x)\<lparr>last_received_frame_ts := last_received_frame_ts x,
      last_sent_frame_ts := last_sent_frame_ts x, p_events := tiny_events_clear (p_events x) FD_EVENT_CAN_ACCEPT_I_FRAMES\<rparr>"
    by (cases x) (simp add: disconnected_peer_def reset_peer_def)
  note sw = switched_by_flush [OF assms(1-3) f [unfolded x_def] _ eq]
  show "switched p False fd fd'" and "same_config fd fd'" and "s_queue fd' = s_queue fd"
    using sw by simp_all
qed

lemma switch_same:
  "p_state (peer_of fd p) = TINY_FD_STATE_CONNECTED \<Longrightarrow> switch_to_connected_state fd p = fd"
  "p_state (peer_of fd p) = TINY_FD_STATE_DISCONNECTED \<Longrightarrow> switch_to_disconnected_state fd p = fd"
  by (simp_all add: switch_to_connected_state_def switch_to_disconnected_state_def)

subsection \<open>What a handler may touch\<close>

text \<open>
  Every handler works for one peer \<open>p\<close>: it keeps the invariant, the configuration, and the state and the
  window of all other peers.
\<close>

definition touches :: "u8 \<Rightarrow> tiny_fd_data \<Rightarrow> tiny_fd_data \<Rightarrow> bool" where
  "touches p fd fd' \<longleftrightarrow> fd_wf fd' \<and> same_config fd fd' \<and> (\<forall>q. q \<noteq> p \<longrightarrow> peer_of fd' q = peer_of fd q)
     \<and> (\<forall>q < peers_count fd. q \<noteq> p \<longrightarrow> tx_window fd' q = tx_window fd q)"

lemma touches_refl: "fd_wf fd \<Longrightarrow> touches p fd fd"
  by (simp add: touches_def)

lemma touches_trans: "touches p a b \<Longrightarrow> touches p b c \<Longrightarrow> touches p a c"
  using same_config_trans [of a b c] by (simp add: touches_def same_config_def)

text \<open>A peer that a handler may work for.\<close>

definition registered :: "tiny_fd_data \<Rightarrow> u8 \<Rightarrow> bool" where
  "registered fd p \<longleftrightarrow> fd_wf fd \<and> p < peers_count fd \<and> p_addr (peer_of fd p) \<noteq> HDLC_INVALID_PEER_INDEX"

lemma registeredD:
  assumes "registered fd p"
  shows "fd_wf fd" "p < peers_count fd" "p_addr (peer_of fd p) \<noteq> HDLC_INVALID_PEER_INDEX" "unat p < length (peers fd)"
  using assms fd_wf_index unfolding registered_def by blast+

lemma touches_registered: "touches p fd fd' \<Longrightarrow> registered fd q \<Longrightarrow> registered fd' q"
  by (simp add: touches_def registered_def same_config_def)

lemma touches_call: "registered fd p \<Longrightarrow> touches p fd (call c fd)"
  by (simp add: touches_def registeredD tx_window_def peer_to_address_field_def) (simp add: call_def)

lemma touches_events: "registered fd p \<Longrightarrow> touches p fd (set_events b fd)"
  by (simp add: touches_def registeredD tx_window_def peer_to_address_field_def) (simp add: set_events_def)

lemma window_upd_peer:
  "unat p < length (peers fd) \<Longrightarrow> i_queue_ctl (f (peer_of fd p)) = ctl fd p \<Longrightarrow> p_addr (f (peer_of fd p)) = p_addr (peer_of fd p)
   \<Longrightarrow> tx_window (upd_peer p f fd) q = tx_window fd q"
  by (simp add: tx_window_def peer_to_address_field_def peer_of_upd_peer)

lemma touches_upd_peer:
  assumes "registered fd p" "p_addr (f (peer_of fd p)) = p_addr (peer_of fd p)"
    and "confirm_ns (i_queue_ctl (f (peer_of fd p))) = confirm_ns (ctl fd p)"
    and "last_ns (i_queue_ctl (f (peer_of fd p))) = last_ns (ctl fd p)"
    and "next_ns (i_queue_ctl (f (peer_of fd p))) < 8" "next_nr (i_queue_ctl (f (peer_of fd p))) < 8"
  shows "touches p fd (upd_peer p f fd)" and "tx_window (upd_peer p f fd) p = tx_window fd p"
    and "peer_of (upd_peer p f fd) p = f (peer_of fd p)"
proof -
  note w = fd_wf_ctl [where f = f, OF registeredD(1,2) [OF assms(1)] assms(2-6)]
  show "touches p fd (upd_peer p f fd)"
    using w same_config_upd_peer [where f = f, OF registeredD(4) [OF assms(1)] assms(2)] registeredD(4) [OF assms(1)]
    by (simp add: touches_def peer_of_upd_peer)
  show "tx_window (upd_peer p f fd) p = tx_window fd p" using w(2) .
  show "peer_of (upd_peer p f fd) p = f (peer_of fd p)" using registeredD(4) [OF assms(1)] by (simp add: peer_of_upd_peer)
qed

lemma control_less: "registered fd p \<Longrightarrow> next_ns (ctl fd p) < 8 \<and> next_nr (ctl fd p) < 8"
  using window_holds(3) registeredD by (simp add: control_wf_def)

text \<open>An update that leaves the sequence numbers alone.\<close>

lemma touches_upd_peer_plain:
  assumes "registered fd p" "p_addr (f (peer_of fd p)) = p_addr (peer_of fd p)" "i_queue_ctl (f (peer_of fd p)) = ctl fd p"
  shows "touches p fd (upd_peer p f fd)" and "tx_window (upd_peer p f fd) p = tx_window fd p"
    and "peer_of (upd_peer p f fd) p = f (peer_of fd p)"
  using touches_upd_peer [where f = f, OF assms(1,2)] control_less [OF assms(1)] assms(3) by simp_all

lemma touches_put:
  assumes "registered fd p" "type \<in> {TINY_FD_QUEUE_S_FRAME, TINY_FD_QUEUE_U_FRAME}" "2 \<le> length data"
  defines "fd' \<equiv> snd (put_u_s_frame_to_tx_queue fd type data)"
  shows "touches p fd fd'" and "same_but_service fd fd'"
proof -
  note pp = put_u_s_frame_preserves [OF registeredD(1) [OF assms(1)] assms(2,3), folded fd'_def]
  show "same_but_service fd fd'" using pp(2) .
  show "touches p fd fd'"
    using pp same_config_service [OF pp(2)] same_but_service_fields(4) [OF pp(2)] window_same_but_service(1) [OF pp(2)]
    by (simp add: touches_def)
qed

lemma touches_confirm:
  fixes nr :: u8
  assumes "registered fd p"
  defines "fd' \<equiv> confirm_sent_frames fd p nr"
  shows "touches p fd fd'"
    and "confirm_spec p (confirmed_count (confirm_ns (ctl fd p)) (last_ns (ctl fd p)) nr) fd fd'"
proof -
  note c = confirm_sent_frames_refines [OF registeredD(1-3) [OF assms(1)], of nr, folded fd'_def]
  show "confirm_spec p (confirmed_count (confirm_ns (ctl fd p)) (last_ns (ctl fd p)) nr) fd fd'" using c(2) .
  note d = c(2) [unfolded confirm_spec_def]
  define iq e cs ps where "iq = i_queue fd'" "e = events fd'" "cs = calls fd'" "ps = peers fd'"
  note a = this
  have fd': "fd' = fd\<lparr>i_queue := iq, events := e, calls := cs, peers := ps\<rparr>"
    unfolding a by (rule conjunct1 [OF d])
  have "p_addr (peer_of fd' q) = p_addr (peer_of fd q)" for q
    using d by (cases "q = p") (auto dest: arg_cong [of _ _ p_addr])
  moreover have "length ps = length (peers fd)" using d by (simp add: a)
  ultimately have "same_config fd fd'" unfolding same_config_def by (simp add: fd')
  then show "touches p fd fd'" using c(1) d by (simp add: touches_def)
qed

lemma touches_resend:
  fixes control nr :: u8
  assumes "registered fd p" "nr < 8"
  shows "touches p fd (resend_all_unconfirmed_frames fd p control nr)"
proof -
  define t where "t = go_back_target (ctl fd p) nr"
  note r = resend_all_refines [OF registeredD(1,2) [OF assms(1)] assms(2), folded t_def]
  have t8: "t < 8" using assms(2) window_holds(3) [OF registeredD(1,2) [OF assms(1)]]
    by (simp add: t_def go_back_target_def control_wf_def)
  let ?f = "\<lambda>x. x\<lparr>i_queue_ctl := (i_queue_ctl x)\<lparr>next_ns := t\<rparr>\<rparr>"
  have 1: "touches p fd (upd_peer p ?f fd)"
    using touches_upd_peer(1) [OF assms(1), of ?f] t8 control_less [OF assms(1)] by simp
  have "touches p (upd_peer p ?f fd) (resend_all_unconfirmed_frames fd p control nr)"
    using r(1) same_config_service [OF r(2)] same_but_service_fields(4) [OF r(2)] window_same_but_service(1) [OF r(2)]
    by (simp add: touches_def)
  then show ?thesis using touches_trans [OF 1] by blast
qed

lemma touches_switch:
  assumes "registered fd p"
  shows "touches p fd (switch_to_connected_state fd p)" and "touches p fd (switch_to_disconnected_state fd p)"
proof -
  note r = registeredD [OF assms]
  show "touches p fd (switch_to_connected_state fd p)"
    using switch_to_connected [OF r(1-3)] switch_same(1) touches_refl [OF r(1)]
    by (cases "p_state (peer_of fd p) = TINY_FD_STATE_CONNECTED") (simp_all add: touches_def switched_def)
  show "touches p fd (switch_to_disconnected_state fd p)"
    using switch_to_disconnected [OF r(1-3)] switch_same(2) touches_refl [OF r(1)]
    by (cases "p_state (peer_of fd p) = TINY_FD_STATE_DISCONNECTED") (simp_all add: touches_def switched_def)
qed

lemma su_types [simp]:
  "TINY_FD_QUEUE_S_FRAME \<in> {TINY_FD_QUEUE_S_FRAME, TINY_FD_QUEUE_U_FRAME}"
  "TINY_FD_QUEUE_U_FRAME \<in> {TINY_FD_QUEUE_S_FRAME, TINY_FD_QUEUE_U_FRAME}"
  by simp_all

text \<open>The same facts as rules that extend a run of operations.\<close>

lemma touches_steps:
  assumes "registered fd0 p" "touches p fd0 fd"
  shows "touches p fd0 (call c fd)" "touches p fd0 (set_events b fd)"
    and "type \<in> {TINY_FD_QUEUE_S_FRAME, TINY_FD_QUEUE_U_FRAME} \<Longrightarrow> 2 \<le> length data \<Longrightarrow>
      touches p fd0 (snd (put_u_s_frame_to_tx_queue fd type data))"
    and "touches p fd0 (confirm_sent_frames fd p nr)"
    and "nr < 8 \<Longrightarrow> touches p fd0 (resend_all_unconfirmed_frames fd p control nr)"
    and "touches p fd0 (switch_to_connected_state fd p)" "touches p fd0 (switch_to_disconnected_state fd p)"
    and "p_addr (f (peer_of fd p)) = p_addr (peer_of fd p) \<Longrightarrow> i_queue_ctl (f (peer_of fd p)) = ctl fd p \<Longrightarrow>
      touches p fd0 (upd_peer p f fd)"
proof -
  note r = touches_registered [OF assms(2,1)]
  note t = touches_trans [OF assms(2)]
  show "touches p fd0 (call c fd)" "touches p fd0 (set_events b fd)"
    and "type \<in> {TINY_FD_QUEUE_S_FRAME, TINY_FD_QUEUE_U_FRAME} \<Longrightarrow> 2 \<le> length data \<Longrightarrow>
      touches p fd0 (snd (put_u_s_frame_to_tx_queue fd type data))"
    and "touches p fd0 (confirm_sent_frames fd p nr)"
    and "nr < 8 \<Longrightarrow> touches p fd0 (resend_all_unconfirmed_frames fd p control nr)"
    and "touches p fd0 (switch_to_connected_state fd p)" "touches p fd0 (switch_to_disconnected_state fd p)"
    by (blast intro: t touches_call [OF r] touches_events [OF r] touches_put(1) [OF r] touches_confirm(1) [OF r]
        touches_resend [OF r] touches_switch [OF r])+
  show "p_addr (f (peer_of fd p)) = p_addr (peer_of fd p) \<Longrightarrow> i_queue_ctl (f (peer_of fd p)) = ctl fd p \<Longrightarrow>
      touches p fd0 (upd_peer p f fd)"
    using t [OF touches_upd_peer_plain(1) [where f = f, OF r]] by blast
qed

subsection \<open>The handlers\<close>

lemma nr_less_8: "drop_bit 5 (control :: u8) < 8"
proof -
  have "unat control div 32 < 8" using unat_u8_less [of control] by linarith
  then show ?thesis by (simp add: word_less_nat_alt unat_drop_bit_eq drop_bit_eq_div unat_div)
qed

lemma ns_less_8: "drop_bit 1 (control :: u8) AND 7 < 8"
  by (rule and_7_less)

lemma touches_check_received:
  assumes "registered fd p"
  shows "touches p fd (snd (check_received_frame fd p ns))"
proof -
  let ?f = "\<lambda>x. x\<lparr>i_queue_ctl := i_queue_control_move_to_next_frame_to_receive (i_queue_ctl x), sent_reject := False\<rparr>"
  have "touches p fd (upd_peer p ?f fd)"
    using touches_upd_peer(1) [OF assms, of ?f] control_less [OF assms] and_7_less
    by (simp add: i_queue_control_move_to_next_frame_to_receive_def seq_bits_mask_def)
  then show ?thesis
    using touches_steps [OF assms touches_refl [OF registeredD(1) [OF assms]]]
      touches_steps(3) [OF assms touches_steps(8) [OF assms touches_refl [OF registeredD(1) [OF assms]]]]
    by (simp add: check_received_frame_def Let_def touches_refl registeredD(1) [OF assms])
qed

lemma touches_i_frame: "registered fd p \<Longrightarrow> touches p fd (snd (on_i_frame_read fd p data))"
  using touches_check_received [of fd p "drop_bit 1 (data ! 1) AND 7"]
  by (simp add: on_i_frame_read_def Let_def case_prod_beta touches_steps)

lemma touches_s_frame: "registered fd p \<Longrightarrow> touches p fd (snd (on_s_frame_read fd p data))"
  by (simp add: on_s_frame_read_def Let_def touches_steps touches_refl registeredD(1) nr_less_8)

lemma touches_u_frame:
  "registered fd p \<Longrightarrow> (data ! 1) AND HDLC_U_FRAME_TYPE_MASK \<noteq> HDLC_U_FRAME_TYPE_RSET \<Longrightarrow>
   touches p fd (snd (on_u_frame_read fd p data))"
  by (simp add: on_u_frame_read_def Let_def touches_steps touches_refl registeredD(1))

lemma touches_by_type:
  assumes "registered fd p"
    and "(data ! 1) AND HDLC_U_FRAME_MASK = HDLC_U_FRAME_MASK \<Longrightarrow> (data ! 1) AND HDLC_U_FRAME_TYPE_MASK \<noteq> HDLC_U_FRAME_TYPE_RSET"
  shows "touches p fd (on_frame_read_by_type fd p data)"
  using touches_i_frame [OF assms(1)] touches_s_frame [OF assms(1)] touches_u_frame [OF assms(1)] assms(2)
  by (simp add: on_frame_read_by_type_def Let_def touches_steps touches_refl registeredD(1) [OF assms(1)] assms(1))

subsection \<open>Which peer a frame is for\<close>

lemma find_peer_Some:
  "find_peer ps a i = r \<Longrightarrow> r \<noteq> HDLC_INVALID_PEER_INDEX \<Longrightarrow> unat i + length ps < 256 \<Longrightarrow>
   unat i \<le> unat r \<and> unat r < unat i + length ps \<and> p_addr (ps ! (unat r - unat i)) = a"
proof (induction ps a i rule: find_peer.induct)
  case (1 address peer)
  then show ?case by simp
next
  case (2 q ps address peer)
  have i: "unat (peer + 1) = unat peer + 1" if "ps \<noteq> [] \<or> True" using 2(4) by (simp add: unat_word_ariths)
  show ?case
  proof (cases "p_addr q = address")
    case True
    then show ?thesis using 2(2) by auto
  next
    case False
    then have "unat (peer + 1) \<le> unat r \<and> unat r < unat (peer + 1) + length ps \<and> p_addr (ps ! (unat r - unat (peer + 1))) = address"
      using 2 i by simp
    then show ?thesis using i by (auto simp: nth_Cons')
  qed
qed

lemma and_not_bit_clear: "(a AND NOT HDLC_CR_BIT) \<noteq> HDLC_INVALID_PEER_INDEX"
proof -
  have "bit (0xFF :: u8) 1" by (simp add: bit_numeral_rec)
  moreover have "\<not> bit (a AND NOT HDLC_CR_BIT) 1"
    by (simp add: bit_and_iff bit_not_iff HDLC_CR_BIT_def bit_numeral_rec)
  ultimately show ?thesis unfolding HDLC_INVALID_PEER_INDEX_def by metis
qed

lemma address_field_to_peer_registered:
  assumes "fd_wf fd" "address_field_to_peer fd address = p" "p \<noteq> HDLC_INVALID_PEER_INDEX"
  shows "registered fd p" "p_addr (peer_of fd p) = address AND NOT HDLC_CR_BIT"
proof -
  have t: "table_wf fd" "station_ok fd" using assms(1) by (simp_all add: fd_wf_def)
  have n: "unat (peers_count fd) = length (peers fd)" "length (peers fd) < 255" "0 < peers_count fd"
    using t(1) by (auto simp: table_wf_def word_less_nat_alt)
  have "p < peers_count fd \<and> p_addr (peer_of fd p) = address AND NOT HDLC_CR_BIT"
  proof (cases "is_secondary_station fd \<or> fd_mode fd = TINY_FD_MODE_ABM")
    case True
    then have "p = 0" "address AND NOT HDLC_CR_BIT = fd_addr fd"
      using assms(2,3) by (auto simp: address_field_to_peer_def Let_def split: if_splits)
    then show ?thesis using n(3) t(2) True by (simp add: station_ok_def)
  next
    case False
    then have "find_peer (peers fd) (address AND NOT HDLC_CR_BIT) 0 = p"
      using assms(2,3) n(1) by (auto simp: address_field_to_peer_def Let_def split: if_splits)
    then show ?thesis using find_peer_Some assms(3) n by (fastforce simp: word_less_nat_alt peer_of_def)
  qed
  then show "registered fd p" "p_addr (peer_of fd p) = address AND NOT HDLC_CR_BIT"
    using assms(1) and_not_bit_clear [of address] by (simp_all add: registered_def)
qed

text \<open>The log only adds a call.\<close>

lemma log_frame_eq:
  obtains cs where "tiny_fd_log_frame d data fd = fd\<lparr>calls := calls fd @ cs\<rparr>"
    "\<And>c. c \<in> set cs \<Longrightarrow> \<exists>t s n r. c = Log_frame d t s n r data"
proof (cases "length data < 2 \<or> \<not> log_frame_cb fd")
  case True
  then have "tiny_fd_log_frame d data fd = fd\<lparr>calls := calls fd @ []\<rparr>" by (auto simp: tiny_fd_log_frame_def)
  then show ?thesis using that [of "[]"] by simp
next
  case False
  define c where "c = Log_frame d (get_frame_type (data ! 1)) (get_frame_subtype (data ! 1))
     (get_frame_sequence (data ! 1)) (get_awaiting_sequence (data ! 1)) data"
  have "tiny_fd_log_frame d data fd = fd\<lparr>calls := calls fd @ [c]\<rparr>"
    using False by (simp add: tiny_fd_log_frame_def Let_def call_def c_def)
  then show ?thesis using that [of "[c]"] by (simp add: c_def)
qed

text \<open>The state in which a handler finds a frame for peer \<open>p\<close>: logged, and the arrival noted.\<close>

definition noted :: "u8 \<Rightarrow> u8 list \<Rightarrow> tiny_fd_data \<Rightarrow> tiny_fd_data" where
  "noted p data fd = upd_peer p (\<lambda>x. x\<lparr>last_received_frame_ts := clock fd (ticks fd), ka_confirmed := True\<rparr>)
     ((tiny_fd_log_frame TINY_FD_FRAME_DIRECTION_IN data fd)\<lparr>ticks := ticks fd + 1\<rparr>)"

definition marked :: "u8 list \<Rightarrow> tiny_fd_data \<Rightarrow> tiny_fd_data" where
  "marked data fd = (if fd_mode fd = TINY_FD_MODE_NRM \<and> (data ! 1) AND (HDLC_P_BIT OR HDLC_F_BIT) \<noteq> 0
     then set_events FD_EVENT_HAS_MARKER fd else fd)"

lemma log_frame_fields [simp]:
  "address_field_to_peer (tiny_fd_log_frame d data fd) a = address_field_to_peer fd a"
  "ticks (tiny_fd_log_frame d data fd) = ticks fd" "clock (tiny_fd_log_frame d data fd) = clock fd"
proof -
  obtain cs where "tiny_fd_log_frame d data fd = fd\<lparr>calls := calls fd @ cs\<rparr>" using log_frame_eq by blast
  then show "address_field_to_peer (tiny_fd_log_frame d data fd) a = address_field_to_peer fd a"
    "ticks (tiny_fd_log_frame d data fd) = ticks fd" "clock (tiny_fd_log_frame d data fd) = clock fd"
    by (simp_all add: address_field_to_peer_def is_secondary_station_def is_primary_station_def Let_def)
qed

lemma on_frame_read_eq:
  assumes "2 \<le> length data" "address_field_to_peer fd (data ! 0) = p"
  shows "on_frame_read fd data =
    (if p = HDLC_INVALID_PEER_INDEX then tiny_fd_log_frame TINY_FD_FRAME_DIRECTION_IN data fd
     else marked data (on_frame_read_by_type (noted p data fd) p data))"
  using assms by (simp add: on_frame_read_def Let_def tiny_millis_def noted_def marked_def)

lemma fd_wf_calls: "fd_wf (fd\<lparr>calls := cs\<rparr>) = fd_wf fd"
  by (rule fd_wf_cong) simp_all

lemma touches_log: "fd_wf fd \<Longrightarrow> touches p fd (tiny_fd_log_frame d data fd)"
  by (rule log_frame_eq [of d data fd])
    (simp add: touches_def same_config_def tx_window_def peer_to_address_field_def fd_wf_calls)

lemma touches_marked: "registered fd p \<Longrightarrow> touches p fd (marked data fd)"
  by (simp add: marked_def touches_events touches_refl registeredD(1))

lemma noted_facts:
  assumes "registered fd p"
  shows "touches p fd (noted p data fd)" "tx_window (noted p data fd) p = tx_window fd p"
    and "peer_of (noted p data fd) p = (peer_of fd p)\<lparr>last_received_frame_ts := clock fd (ticks fd), ka_confirmed := True\<rparr>"
    and "i_queue (noted p data fd) = i_queue fd" "s_queue (noted p data fd) = s_queue fd"
    and "\<exists>cs. calls (noted p data fd) = calls fd @ cs \<and> (\<forall>c \<in> set cs. \<exists>t s n r. c = Log_frame TINY_FD_FRAME_DIRECTION_IN t s n r data)"
proof -
  obtain cs where cs: "tiny_fd_log_frame TINY_FD_FRAME_DIRECTION_IN data fd = fd\<lparr>calls := calls fd @ cs\<rparr>"
    "\<And>c. c \<in> set cs \<Longrightarrow> \<exists>t s n r. c = Log_frame TINY_FD_FRAME_DIRECTION_IN t s n r data"
    using log_frame_eq by blast
  define fd1 where "fd1 = fd\<lparr>calls := calls fd @ cs, ticks := ticks fd + 1\<rparr>"
  have 1: "touches p fd fd1" "tx_window fd1 p = tx_window fd p"
    using registeredD(1) [OF assms] fd_wf_cong [of fd1 fd]
    by (simp_all add: fd1_def touches_def same_config_def tx_window_def peer_to_address_field_def)
  let ?f = "\<lambda>x. x\<lparr>last_received_frame_ts := clock fd (ticks fd), ka_confirmed := True\<rparr>"
  have n: "noted p data fd = upd_peer p ?f fd1" by (simp add: noted_def cs(1) fd1_def)
  note u = touches_upd_peer_plain [OF touches_registered [OF 1(1) assms], of ?f]
  show "touches p fd (noted p data fd)" "tx_window (noted p data fd) p = tx_window fd p"
    "peer_of (noted p data fd) p = (peer_of fd p)\<lparr>last_received_frame_ts := clock fd (ticks fd), ka_confirmed := True\<rparr>"
    using touches_trans [OF 1(1)] u 1(2) by (simp_all add: n) (simp add: fd1_def)
  show "i_queue (noted p data fd) = i_queue fd" "s_queue (noted p data fd) = s_queue fd"
    by (simp_all add: n fd1_def)
  show "\<exists>cs. calls (noted p data fd) = calls fd @ cs \<and> (\<forall>c \<in> set cs. \<exists>t s n r. c = Log_frame TINY_FD_FRAME_DIRECTION_IN t s n r data)"
    using cs(2) by (intro exI [of _ cs]) (simp add: n fd1_def)
qed

subsection \<open>What the application and the service queue see\<close>

definition reads :: "fd_call list \<Rightarrow> (u8 \<times> u8 list) list" where
  "reads cs = concat (map (\<lambda>c. case c of On_read a d \<Rightarrow> [(a, d)] | _ \<Rightarrow> []) cs)"

definition sends :: "fd_call list \<Rightarrow> (u8 \<times> u8 list) list" where
  "sends cs = concat (map (\<lambda>c. case c of On_send a d \<Rightarrow> [(a, d)] | _ \<Rightarrow> []) cs)"

definition connects :: "fd_call list \<Rightarrow> (u8 \<times> bool) list" where
  "connects cs = concat (map (\<lambda>c. case c of On_connect_event a b \<Rightarrow> [(a, b)] | _ \<Rightarrow> []) cs)"

lemma calls_simps [simp]:
  "reads (xs @ ys) = reads xs @ reads ys" "sends (xs @ ys) = sends xs @ sends ys" "connects (xs @ ys) = connects xs @ connects ys"
  "reads [] = []" "sends [] = []" "connects [] = []"
  "reads [On_read a d] = [(a, d)]" "reads [On_connect_event a b] = []" "reads [On_read_ui a d] = []"
  "sends [On_read a d] = []" "sends [On_connect_event a b] = []" "sends [On_read_ui a d] = []"
  "connects [On_read a d] = []" "connects [On_connect_event a b] = [(a, b)]" "connects [On_read_ui a d] = []"
  "reads (map (On_send a) ds) = []" "connects (map (On_send a) ds) = []" "sends (map (On_send a) ds) = map (Pair a) ds"
  by (induction ds) (simp_all add: reads_def sends_def connects_def)

lemma calls_log:
  assumes "\<forall>c \<in> set cs. \<exists>t s n r. c = Log_frame d t s n r data"
  shows "reads cs = []" "sends cs = []" "connects cs = []"
  using assms by (fastforce simp: reads_def sends_def connects_def)+

text \<open>The service frames waiting to be sent: address, control field and payload.\<close>

definition service_frames :: "tiny_fd_queue \<Rightarrow> (u8 \<times> u8 \<times> u8 list) multiset" where
  "service_frames q = image_mset (\<lambda>f. (f_address f, f_control f, frame_data f))
     (filter_mset (\<lambda>f. f_type f \<noteq> TINY_FD_QUEUE_FREE) (mset (q_frames q)))"

lemma service_frames_set_slot:
  assumes "i < q_size q" "f_type (q_frames q ! i) = TINY_FD_QUEUE_FREE" "f_type f \<noteq> TINY_FD_QUEUE_FREE"
  shows "service_frames (set_slot q i f) = add_mset (f_address f, f_control f, frame_data f) (service_frames q)"
proof -
  define M where "M = mset (q_frames q) - {#q_frames q ! i#}"
  have "mset (q_frames q) = add_mset (q_frames q ! i) M"
    using assms(1) unfolding M_def by (metis insert_DiffM nth_mem_mset)
  moreover have "mset ((q_frames q)[i := f]) = add_mset f M"
    using assms(1) by (simp add: mset_update M_def)
  ultimately show ?thesis using assms(2,3) by (simp add: service_frames_def)
qed

text \<open>Queueing a service frame adds it, unless there is no free slot, in which case it is lost.\<close>

lemma put_u_s_frame_service:
  assumes "s_queue_wf (s_queue fd)" "type \<in> {TINY_FD_QUEUE_S_FRAME, TINY_FD_QUEUE_U_FRAME}" "2 \<le> length data" "length data \<le> 4"
  shows "service_frames (s_queue (snd (put_u_s_frame_to_tx_queue fd type data)))
    = (if tiny_fd_queue_has_free_slots (s_queue fd)
       then add_mset (data ! 0, data ! 1, drop 2 data) (service_frames (s_queue fd)) else service_frames (s_queue fd))"
proof -
  have q: "queue_wf (s_queue fd)" "q_mtu (s_queue fd) = 2" using assms(1) by (simp_all add: s_queue_wf_def)
  obtain r q' where al: "tiny_fd_queue_allocate (s_queue fd) type (drop 2 data) = (r, q')" by fastforce
  have free: "tiny_fd_queue_has_free_slots (s_queue fd) \<longleftrightarrow> r \<noteq> None"
  proof -
    have "int (length (drop 2 data)) \<le> q_mtu (s_queue fd)" using assms(4) q(2) by simp
    then show ?thesis using al
      by (auto simp: tiny_fd_queue_has_free_slots_def tiny_fd_queue_allocate_def simp del: length_drop split: option.splits)
  qed
  show ?thesis
  proof (cases r)
    case None
    then have "q' = s_queue fd" using al allocate_None_same by blast
    then show ?thesis using None al free by (simp add: put_u_s_frame_to_tx_queue_def)
  next
    case (Some i)
    note a = allocate_Some [OF q(1) al [unfolded Some]]
    define f where "f = (put_payload (drop 2 data) (q_frames (s_queue fd) ! i))
      \<lparr>f_type := type, f_address := data ! 0, f_control := data ! 1\<rparr>"
    have "s_queue (snd (put_u_s_frame_to_tx_queue fd type data)) = set_slot (s_queue fd) i f"
      using al Some a(1,4) by (simp add: put_u_s_frame_to_tx_queue_def f_def set_events_def set_slot_def)
    moreover have "f_type f \<noteq> TINY_FD_QUEUE_FREE" using assms(2) by (auto simp: f_def queue_type_defs)
    moreover have "frame_data f = drop 2 data" by (simp add: f_def frame_data_def put_payload_def)
    ultimately show ?thesis using service_frames_set_slot [OF a(1,2)] free Some by (simp add: f_def)
  qed
qed

end
