(* ===== verification/FdRxSpec.thy ===== *)
theory FdRxSpec
  imports FdOnRx "HOL-Library.Sublist"
begin

unbundle bit_operations_syntax

section \<open>Received frames: what the handlers achieve\<close>

text \<open>
  The properties of the receive side of the full duplex protocol: the invariant, the connection state
  machine with its answers, and the delivery of I-frames.
\<close>

subsection \<open>The handlers' building blocks as equations\<close>

lemma registered_ops:
  assumes "registered fd p"
  shows "registered (switch_to_connected_state fd p) p" "registered (switch_to_disconnected_state fd p) p"
    "registered (noted p data fd) p" "registered (call c fd) p" "registered (confirm_sent_frames fd p nr) p"
    "type \<in> {TINY_FD_QUEUE_S_FRAME, TINY_FD_QUEUE_U_FRAME} \<Longrightarrow> 2 \<le> length fr \<Longrightarrow>
       registered (snd (put_u_s_frame_to_tx_queue fd type fr)) p"
  using touches_registered [OF _ assms] touches_switch [OF assms] noted_facts(1) [OF assms] touches_call [OF assms]
    touches_confirm(1) [OF assms] touches_put(1) [OF assms] by blast+

lemma call_fields [simp]: "calls (call c fd) = calls fd @ [c]" "s_queue (call c fd) = s_queue fd" "i_queue (call c fd) = i_queue fd"
  "tx_window (call c fd) q = tx_window fd q" "length (peers (call c fd)) = length (peers fd)"
  by (simp_all add: call_def tx_window_def peer_to_address_field_def)

lemma config_fields:
  assumes "touches p fd fd'"
  shows "on_connect_event_cb fd' = on_connect_event_cb fd" "on_read_cb fd' = on_read_cb fd" "on_send_cb fd' = on_send_cb fd"
    "on_read_ui_cb fd' = on_read_ui_cb fd" "fd_mode fd' = fd_mode fd" "app_address fd' q = app_address fd q"
    "peer_to_address_field fd' q = peer_to_address_field fd q"
  using assms same_config_derived [of fd fd'] by (simp_all add: touches_def same_config_def)

lemma switch_ops:
  assumes "registered fd p"
  shows "p_state (peer_of (switch_to_connected_state fd p) p) = TINY_FD_STATE_CONNECTED"
    "p_state (peer_of (switch_to_disconnected_state fd p) p) = TINY_FD_STATE_DISCONNECTED"
    "s_queue (switch_to_connected_state fd p) = s_queue fd" "s_queue (switch_to_disconnected_state fd p) = s_queue fd"
    "calls (switch_to_connected_state fd p) = calls fd @
       (if p_state (peer_of fd p) \<noteq> TINY_FD_STATE_CONNECTED \<and> on_connect_event_cb fd
        then [On_connect_event (app_address fd p) True] else [])"
    "calls (switch_to_disconnected_state fd p) = calls fd @
       (if p_state (peer_of fd p) \<noteq> TINY_FD_STATE_DISCONNECTED \<and> on_connect_event_cb fd
        then [On_connect_event (app_address fd p) False] else [])"
proof -
  note c = switch_to_connected [OF registeredD(1-3) [OF assms]] and d = switch_to_disconnected [OF registeredD(1-3) [OF assms]]
  show "p_state (peer_of (switch_to_connected_state fd p) p) = TINY_FD_STATE_CONNECTED"
    "s_queue (switch_to_connected_state fd p) = s_queue fd"
    "calls (switch_to_connected_state fd p) = calls fd @
       (if p_state (peer_of fd p) \<noteq> TINY_FD_STATE_CONNECTED \<and> on_connect_event_cb fd
        then [On_connect_event (app_address fd p) True] else [])"
    using c(1,3) switch_same(1) [of fd p]
    by (cases "p_state (peer_of fd p) = TINY_FD_STATE_CONNECTED"; simp add: switched_def)+
  show "p_state (peer_of (switch_to_disconnected_state fd p) p) = TINY_FD_STATE_DISCONNECTED"
    "s_queue (switch_to_disconnected_state fd p) = s_queue fd"
    "calls (switch_to_disconnected_state fd p) = calls fd @
       (if p_state (peer_of fd p) \<noteq> TINY_FD_STATE_DISCONNECTED \<and> on_connect_event_cb fd
        then [On_connect_event (app_address fd p) False] else [])"
    using d(1,3) switch_same(2) [of fd p]
    by (cases "p_state (peer_of fd p) = TINY_FD_STATE_DISCONNECTED"; simp add: switched_def)+
qed

lemma put_ops:
  assumes "s_queue_wf (s_queue fd)" "type \<in> {TINY_FD_QUEUE_S_FRAME, TINY_FD_QUEUE_U_FRAME}" "2 \<le> length fr" "length fr \<le> 4"
  defines "fd' \<equiv> snd (put_u_s_frame_to_tx_queue fd type fr)"
  shows "peer_of fd' q = peer_of fd q" "calls fd' = calls fd"
    "tx_window fd' q = tx_window fd q" "on_connect_event_cb fd' = on_connect_event_cb fd"
    "app_address fd' q = app_address fd q" "peer_to_address_field fd' q = peer_to_address_field fd q"
    "service_frames (s_queue fd') = (if tiny_fd_queue_has_free_slots (s_queue fd)
       then add_mset (fr ! 0, fr ! 1, drop 2 fr) (service_frames (s_queue fd)) else service_frames (s_queue fd))"
proof -
  obtain r where r: "put_u_s_frame_to_tx_queue fd type fr = (r, fd')" by (simp add: fd'_def prod_eq_iff)
  have s: "same_but_service fd fd'"
    using put_u_s_frame_shape(2) [OF assms(1) r assms(2,3)] by (simp add: same_but_service_def)
  show "peer_of fd' q = peer_of fd q" "calls fd' = calls fd" "tx_window fd' q = tx_window fd q"
    "on_connect_event_cb fd' = on_connect_event_cb fd" "app_address fd' q = app_address fd q"
    "peer_to_address_field fd' q = peer_to_address_field fd q"
    using same_but_service_fields(3,4,11) [OF s] window_same_but_service(1-3) [OF s] by blast+
  show "service_frames (s_queue fd') = (if tiny_fd_queue_has_free_slots (s_queue fd)
       then add_mset (fr ! 0, fr ! 1, drop 2 fr) (service_frames (s_queue fd)) else service_frames (s_queue fd))"
    using put_u_s_frame_service [OF assms(1-4)] by (simp add: fd'_def)
qed

lemma config_ops:
  assumes "registered fd p"
  shows "on_connect_event_cb (switch_to_disconnected_state fd p) = on_connect_event_cb fd"
    "app_address (switch_to_disconnected_state fd p) p = app_address fd p"
    "fd_mode (switch_to_disconnected_state fd p) = fd_mode fd"
    "peer_to_address_field (switch_to_disconnected_state fd p) p = peer_to_address_field fd p"
    "on_connect_event_cb (noted p data fd) = on_connect_event_cb fd" "on_read_cb (noted p data fd) = on_read_cb fd"
    "on_send_cb (noted p data fd) = on_send_cb fd"
    "app_address (noted p data fd) p = app_address fd p" "fd_mode (noted p data fd) = fd_mode fd"
    "peer_to_address_field (noted p data fd) p = peer_to_address_field fd p"
    "peer_to_address_field (call c fd) p = peer_to_address_field fd p"
  using config_fields [OF touches_switch(2) [OF assms]] config_fields [OF noted_facts(1) [OF assms]]
    config_fields [OF touches_call [OF assms]] by simp_all

lemma noted_ops:
  assumes "registered fd p"
  shows "p_state (peer_of (noted p data fd) p) = p_state (peer_of fd p)" "ctl (noted p data fd) p = ctl fd p"
    "sent_reject (peer_of (noted p data fd) p) = sent_reject (peer_of fd p)"
    "sent_nr (peer_of (noted p data fd) p) = sent_nr (peer_of fd p)"
    "s_queue (noted p data fd) = s_queue fd"
    "reads (calls (noted p data fd)) = reads (calls fd)" "sends (calls (noted p data fd)) = sends (calls fd)"
    "connects (calls (noted p data fd)) = connects (calls fd)"
    "tx_window (noted p data fd) p = tx_window fd p"
proof -
  obtain cs where "calls (noted p data fd) = calls fd @ cs" "\<forall>c \<in> set cs. \<exists>t s n r. c = Log_frame TINY_FD_FRAME_DIRECTION_IN t s n r data"
    using noted_facts(6) [OF assms, where data = data] by blast
  then show "reads (calls (noted p data fd)) = reads (calls fd)" "sends (calls (noted p data fd)) = sends (calls fd)"
    "connects (calls (noted p data fd)) = connects (calls fd)"
    using calls_log [of cs TINY_FD_FRAME_DIRECTION_IN data] by simp_all
  show "p_state (peer_of (noted p data fd) p) = p_state (peer_of fd p)" "ctl (noted p data fd) p = ctl fd p"
    "sent_reject (peer_of (noted p data fd) p) = sent_reject (peer_of fd p)"
    "sent_nr (peer_of (noted p data fd) p) = sent_nr (peer_of fd p)"
    "s_queue (noted p data fd) = s_queue fd" "tx_window (noted p data fd) p = tx_window fd p"
    using noted_facts [OF assms, where data = data] by simp_all
qed

lemma marked_ops [simp]:
  "peer_of (marked data fd) q = peer_of fd q" "calls (marked data fd) = calls fd" "s_queue (marked data fd) = s_queue fd"
  "tx_window (marked data fd) q = tx_window fd q" "peer_to_address_field (marked data fd) q = peer_to_address_field fd q"
  by (auto simp: marked_def tx_window_def peer_to_address_field_def) (simp_all add: set_events_def)

lemmas link_simps = registered_ops switch_ops put_ops config_ops noted_ops

lemma on_frame_read_registered:
  assumes "fd_wf fd" "2 \<le> length data" "address_field_to_peer fd (data ! 0) = p" "p \<noteq> HDLC_INVALID_PEER_INDEX"
  shows "on_frame_read fd data = marked data (on_frame_read_by_type (noted p data fd) p data)"
    and "registered fd p" "registered (noted p data fd) p"
  using on_frame_read_eq [OF assms(2,3)] address_field_to_peer_registered(1) [OF assms(1,3,4)] registered_ops(3) assms(4)
  by simp_all

subsection \<open>The invariant\<close>

text \<open>A frame that resets the numbers of its sender.\<close>

definition is_rset :: "u8 list \<Rightarrow> bool" where
  "is_rset data \<longleftrightarrow> (data ! 1) AND HDLC_U_FRAME_MASK = HDLC_U_FRAME_MASK
     \<and> (data ! 1) AND HDLC_U_FRAME_TYPE_MASK = HDLC_U_FRAME_TYPE_RSET"

text \<open>With nothing queued for the peer, restarting its numbers is harmless.\<close>

lemma touches_restart:
  assumes "registered fd p" "tx_window fd p = []" "p_addr (f (peer_of fd p)) = p_addr (peer_of fd p)"
    and "i_queue_ctl (f (peer_of fd p)) = reset_i_queue_control (ctl fd p)"
  shows "touches p fd (upd_peer p f fd)"
proof -
  note r = registeredD [OF assms(1)]
  note pr = peer_of_upd_peer [OF r(4), of f]
  have addr: "p_addr (peer_of (upd_peer p f fd) q) = p_addr (peer_of fd q)"
    "peer_to_address_field (upd_peer p f fd) q = peer_to_address_field fd q" for q
    using assms(3) by (simp_all add: pr peer_to_address_field_def)
  have w: "tx_window (upd_peer p f fd) q = tx_window fd q" if "q \<noteq> p" for q
    using that unfolding tx_window_def addr by (simp add: pr)
  have pw: "peer_wf fd q" if "q < peers_count fd" for q using r(1) that by (simp add: fd_wf_def)
  have "confirm_ns (ctl fd p) = last_ns (ctl fd p)"
    using assms(2) window_holds(3) [OF r(1,2)] seq_dist_0 by (simp add: tx_window_def control_wf_def flip: length_0_conv)
  moreover have none: "Collect (in_window c c) = {}" for c by auto
  ultimately have "peer_wf (upd_peer p f fd) p"
    using pw [OF r(2)] assms(4) unfolding peer_wf_def window_ok_def addr
    by (simp add: pr control_wf_def reset_i_queue_control_eq none)
  moreover have "peer_wf (upd_peer p f fd) q" if "q < peers_count fd" "q \<noteq> p" for q
    using pw [OF that(1)] that(2) unfolding peer_wf_def window_ok_def addr by (simp add: pr)
  ultimately have "fd_wf (upd_peer p f fd)"
    using r(1) addresses_distinct_cong [of "upd_peer p f fd" fd] station_ok_cong [of "upd_peer p f fd" fd] addr(1)
    unfolding fd_wf_def table_wf_def by (metis upd_peer_fields(10,11,12,13,14,15,17))
  then show ?thesis
    using w same_config_upd_peer [where f = f, OF r(4) assms(3)] by (simp add: touches_def pr)
qed

lemma touches_rset:
  assumes "registered fd p" "tx_window fd p = []" "is_rset data"
  shows "touches p fd (snd (on_u_frame_read fd p data))"
proof -
  let ?f = "\<lambda>x. x\<lparr>i_queue_ctl := reset_i_queue_control (i_queue_ctl x), sent_nr := 0, sent_reject := False, srej_req_mask := 0\<rparr>"
  have "touches p fd (upd_peer p ?f fd)" using touches_restart [OF assms(1,2), of ?f] by simp
  then have "touches p fd (snd (put_u_s_frame_to_tx_queue (upd_peer p ?f fd) TINY_FD_QUEUE_U_FRAME
      [peer_to_address_field fd p, HDLC_U_FRAME_TYPE_UA OR HDLC_U_FRAME_BITS]))"
    using touches_steps(3) [OF assms(1)] by simp
  then show ?thesis
    using assms(3) touches_steps(3) [OF assms(1) touches_refl [OF registeredD(1) [OF assms(1)]]] touches_refl [OF registeredD(1) [OF assms(1)]]
    by (simp add: on_u_frame_read_def Let_def is_rset_def hdlc_u_type_defs)
qed

lemma on_frame_read_touches:
  assumes "fd_wf fd" "is_rset data \<Longrightarrow> tx_window fd (address_field_to_peer fd (data ! 0)) = []"
  shows "touches (address_field_to_peer fd (data ! 0)) fd (on_frame_read fd data)"
proof (cases "2 \<le> length data")
  case True
  define p where "p = address_field_to_peer fd (data ! 0)"
  show ?thesis
  proof (cases "p = HDLC_INVALID_PEER_INDEX")
    case True
    then show ?thesis using on_frame_read_eq [OF \<open>2 \<le> length data\<close> p_def [symmetric]] touches_log [OF assms(1)]
      by (simp flip: p_def)
  next
    case False
    note r = on_frame_read_registered [OF assms(1) True p_def [symmetric] False]
    have "touches p (noted p data fd) (on_frame_read_by_type (noted p data fd) p data)"
    proof (cases "is_rset data")
      case True
      then have "touches p (noted p data fd) (snd (on_u_frame_read (noted p data fd) p data))"
        using touches_rset [OF r(3)] assms(2) noted_ops(9) [OF r(2)] by (simp add: p_def)
      then show ?thesis using True by (simp add: on_frame_read_by_type_def Let_def is_rset_def)
    next
      case False
      then show ?thesis using touches_by_type [OF r(3)] by (simp add: is_rset_def)
    qed
    then have "touches p fd (on_frame_read_by_type (noted p data fd) p data)"
      using touches_trans [OF noted_facts(1) [OF r(2)]] by blast
    then show ?thesis
      using touches_trans touches_marked touches_registered r(2) unfolding r(1) p_def [symmetric] by blast
  qed
next
  case False
  then show ?thesis using assms(1) by (simp add: on_frame_read_def touches_refl)
qed

text \<open>
  C19: Whatever bytes arrive as a frame (of any length, from any address), except an RSET frame while frames for its sender wait in
  the queue, the protocol state stays well-formed, the configuration does not change, and the state and the unconfirmed frames of every
  peer other than the sender are as before.
\<close>

theorem on_frame_read_invariant:
  assumes "fd_wf fd" "is_rset data \<Longrightarrow> tx_window fd (address_field_to_peer fd (data ! 0)) = []"
  defines "fd' \<equiv> on_frame_read fd data"
  shows "fd_wf fd' \<and> same_config fd fd'
    \<and> (\<forall>q. q < peers_count fd \<and> q \<noteq> address_field_to_peer fd (data ! 0) \<longrightarrow>
         peer_of fd' q = peer_of fd q \<and> tx_window fd' q = tx_window fd q)"
  using on_frame_read_touches [OF assms(1,2)] by (simp add: touches_def fd'_def)

theorem on_frame_read_invariant_witness: "fd_wf (on_frame_read demo_fd2 [1, 4])"
proof -
  have "\<not> is_rset [1, 4]" by code_simp
  then show ?thesis using on_frame_read_invariant [OF demo_fd2_facts(1), of "[1, 4]"] by simp
qed

subsection \<open>The connection state machine\<close>

text \<open>
  What a U-frame does to a connection: the new state, the events for the application (true for
  connected), and the answer, if any, as command or response with its control field. \<open>cmd\<close> says whether
  the frame is a command, \<open>set_mode\<close> is the control field of the own mode setting command.
\<close>

definition link_reaction :: "u8 \<Rightarrow> bool \<Rightarrow> u8 \<Rightarrow> tiny_fd_state \<Rightarrow> tiny_fd_state \<times> bool list \<times> (bool \<times> u8) option" where
  "link_reaction set_mode cmd type st =
     (let ua = Some (False, 0x63); dm = Some (False, 0x0F); down = (if st = TINY_FD_STATE_DISCONNECTED then [] else [False])
      in if type = HDLC_U_FRAME_TYPE_SABM \<or> type = HDLC_U_FRAME_TYPE_SNRM then
           (TINY_FD_STATE_CONNECTED, (if st \<in> {TINY_FD_STATE_DISCONNECTED, TINY_FD_STATE_CONNECTING} then [True] else [False, True]), ua)
         else if type = HDLC_U_FRAME_TYPE_UI then (st, [], None)
         else if st = TINY_FD_STATE_DISCONNECTED then (st, [], if cmd then dm else None)
         else if type = HDLC_U_FRAME_TYPE_DISC then (TINY_FD_STATE_DISCONNECTED, down, ua)
         else if type = HDLC_U_FRAME_TYPE_RSET then (st, [], ua)
         else if type = HDLC_U_FRAME_TYPE_FRMR then (TINY_FD_STATE_CONNECTING, down, Some (True, set_mode))
         else if type = HDLC_U_FRAME_TYPE_DM then (TINY_FD_STATE_DISCONNECTED, down, None)
         else if type = HDLC_U_FRAME_TYPE_UA then
           (if st = TINY_FD_STATE_CONNECTING then (TINY_FD_STATE_CONNECTED, [True], None)
            else if st = TINY_FD_STATE_DISCONNECTING then (TINY_FD_STATE_DISCONNECTED, [False], None) else (st, [], None))
         else (st, [], None))"

lemma u_types_distinct:
  "distinct [HDLC_U_FRAME_TYPE_UA, HDLC_U_FRAME_TYPE_DM, HDLC_U_FRAME_TYPE_FRMR, HDLC_U_FRAME_TYPE_RSET,
     HDLC_U_FRAME_TYPE_SABM, HDLC_U_FRAME_TYPE_SNRM, HDLC_U_FRAME_TYPE_DISC, HDLC_U_FRAME_TYPE_UI]"
  by (simp add: hdlc_u_type_defs)

definition set_mode_control :: "tiny_fd_data \<Rightarrow> u8" where
  "set_mode_control fd = (if fd_mode fd = TINY_FD_MODE_NRM then 0x83 else 0x2F)"

lemma on_u_frame_reaction:
  fixes data :: "u8 list"
  assumes "registered fd p"
  defines "fd' \<equiv> snd (on_u_frame_read fd p data)"
  defines "R \<equiv> link_reaction (set_mode_control fd) (data ! 0 AND HDLC_CR_BIT \<noteq> 0)
     (data ! 1 AND HDLC_U_FRAME_TYPE_MASK) (p_state (peer_of fd p))"
  shows "p_state (peer_of fd' p) = fst R"
    and "connects (calls fd') = connects (calls fd) @
      (if on_connect_event_cb fd then map (Pair (app_address fd p)) (fst (snd R)) else [])"
    and "service_frames (s_queue fd') = (case snd (snd R) of
        Some (c, control) \<Rightarrow> if tiny_fd_queue_has_free_slots (s_queue fd)
          then add_mset ((if c then peer_to_address_field fd p OR HDLC_CR_BIT else peer_to_address_field fd p), control, []) (service_frames (s_queue fd))
          else service_frames (s_queue fd)
      | None \<Rightarrow> service_frames (s_queue fd))"
proof -
  note r = registeredD [OF assms(1)]
  have sq: "s_queue_wf (s_queue fd)" using r(1) by (simp add: fd_wf_def)
  note ops = link_simps assms(1) sq r(4) peer_of_upd_peer registeredD(4)
  note defs = fd'_def R_def on_u_frame_read_def link_reaction_def set_mode_control_def Let_def hdlc_u_type_defs HDLC_U_FRAME_BITS_def
  show "p_state (peer_of fd' p) = fst R" by (simp add: defs ops)
  show "connects (calls fd') = connects (calls fd) @
      (if on_connect_event_cb fd then map (Pair (app_address fd p)) (fst (snd R)) else [])"
    by (simp add: defs ops)
  show "service_frames (s_queue fd') = (case snd (snd R) of
        Some (c, control) \<Rightarrow> if tiny_fd_queue_has_free_slots (s_queue fd)
          then add_mset ((if c then peer_to_address_field fd p OR HDLC_CR_BIT else peer_to_address_field fd p), control, []) (service_frames (s_queue fd))
          else service_frames (s_queue fd)
      | None \<Rightarrow> service_frames (s_queue fd))"
    by (simp add: defs ops)
qed

text \<open>The service queue after an answer was queued.\<close>

definition answered :: "tiny_fd_data \<Rightarrow> u8 \<Rightarrow> (bool \<times> u8) option \<Rightarrow> (u8 \<times> u8 \<times> u8 list) multiset" where
  "answered fd p answer = service_frames (s_queue fd) + (case answer of
     Some (cmd, control) \<Rightarrow> if tiny_fd_queue_has_free_slots (s_queue fd)
       then {#(peer_to_address_field fd p OR (if cmd then HDLC_CR_BIT else 0), control, [])#} else {#}
   | None \<Rightarrow> {#})"

text \<open>
  C24: A U-frame moves the connection exactly as the connection state machine \<open>link_reaction\<close> says: SABM
  and SNRM connect, DISC, DM and FRMR take the connection down, UA completes a pending connect or
  disconnect, a disconnected station answers any other command with DM. The application is told of each
  change in order, and the answer is queued when the service queue has room.
\<close>

theorem on_frame_read_connection:
  assumes "fd_wf fd" "2 \<le> length data" "address_field_to_peer fd (data ! 0) = p" "p \<noteq> HDLC_INVALID_PEER_INDEX"
    and "data ! 1 AND HDLC_U_FRAME_MASK = HDLC_U_FRAME_MASK"
  defines "fd' \<equiv> on_frame_read fd data"
  defines "R \<equiv> link_reaction (set_mode_control fd) (data ! 0 AND HDLC_CR_BIT \<noteq> 0)
     (data ! 1 AND HDLC_U_FRAME_TYPE_MASK) (p_state (peer_of fd p))"
  shows "p_state (peer_of fd' p) = fst R
    \<and> connects (calls fd') = connects (calls fd) @
        (if on_connect_event_cb fd then map (Pair (app_address fd p)) (fst (snd R)) else [])
    \<and> service_frames (s_queue fd') = answered fd p (snd (snd R))"
proof -
  note r = on_frame_read_registered [OF assms(1-4)]
  have fd': "fd' = marked data (snd (on_u_frame_read (noted p data fd) p data))"
    using assms(5) r(1) by (simp add: fd'_def on_frame_read_by_type_def Let_def)
  have m: "set_mode_control (noted p data fd) = set_mode_control fd"
    using config_ops(9) [OF r(2)] by (simp add: set_mode_control_def)
  note u = on_u_frame_reaction [OF r(3), of data, unfolded m noted_ops(1) [OF r(2)], folded R_def]
  show ?thesis using u r(2)
    by (auto simp: fd' link_simps answered_def split: option.splits if_splits)
qed

theorem on_frame_read_connection_witness:
  "p_state (peer_of (on_frame_read demo_fd2 [3, 0x43]) 0) = TINY_FD_STATE_DISCONNECTED
    \<and> connects (calls (on_frame_read demo_fd2 [3, 0x43])) = [(0, False)]"
proof -
  have a: "address_field_to_peer demo_fd2 3 = 0" by code_simp
  have s: "p_state (peer_of demo_fd2 0) = TINY_FD_STATE_CONNECTED" "on_connect_event_cb demo_fd2" by code_simp+
  have "link_reaction (set_mode_control demo_fd2) True (0x43 AND HDLC_U_FRAME_TYPE_MASK) TINY_FD_STATE_CONNECTED
      = (TINY_FD_STATE_DISCONNECTED, [False], Some (False, 0x63))" by code_simp
  moreover have "app_address demo_fd2 0 = 0" using demo_fd2_facts(8,9) by (simp add: app_address_def)
  ultimately show ?thesis
    using on_frame_read_connection [OF demo_fd2_facts(1), of "[3, 0x43]" 0] a s
    by (simp add: HDLC_INVALID_PEER_INDEX_def HDLC_U_FRAME_MASK_def HDLC_CR_BIT_def demo_fd2_facts)
qed

subsection \<open>Delivery of I-frames\<close>

text \<open>How many frames a received N(R) confirms.\<close>

definition acked :: "tiny_fd_data \<Rightarrow> u8 \<Rightarrow> u8 \<Rightarrow> nat" where
  "acked fd p nr = confirmed_count (confirm_ns (ctl fd p)) (last_ns (ctl fd p)) nr"

lemma upd_service: "s_queue (fd\<lparr>i_queue := a, events := b, calls := c, peers := e\<rparr>) = s_queue fd"
  by simp

lemma confirm_ops:
  fixes nr :: u8
  assumes "registered fd p"
  defines "fd' \<equiv> confirm_sent_frames fd p nr"
  shows "ctl fd' p = (ctl fd p)\<lparr>confirm_ns := seq_add (confirm_ns (ctl fd p)) (acked fd p nr)\<rparr>"
    and "p_state (peer_of fd' p) = p_state (peer_of fd p)" "sent_reject (peer_of fd' p) = sent_reject (peer_of fd p)"
    and "sent_nr (peer_of fd' p) = sent_nr (peer_of fd p)" "s_queue fd' = s_queue fd"
    and "calls fd' = calls fd @ (if on_send_cb fd then map (On_send (app_address fd p)) (take (acked fd p nr) (tx_window fd p)) else [])"
    and "tx_window fd' p = drop (acked fd p nr) (tx_window fd p)"
    and "on_read_cb fd' = on_read_cb fd" "app_address fd' p = app_address fd p"
    and "peer_to_address_field fd' p = peer_to_address_field fd p"
proof -
  note c = touches_confirm [OF assms(1), of nr, folded fd'_def acked_def]
  note d = c(2) [unfolded confirm_spec_def]
  have pp: "peer_of fd' p = (peer_of fd p)\<lparr>p_retries := p_retries (peer_of fd' p), p_events := p_events (peer_of fd' p),
      i_queue_ctl := (ctl fd p)\<lparr>confirm_ns := seq_add (confirm_ns (ctl fd p)) (acked fd p nr)\<rparr>\<rparr>" using d by blast
  show "ctl fd' p = (ctl fd p)\<lparr>confirm_ns := seq_add (confirm_ns (ctl fd p)) (acked fd p nr)\<rparr>"
    and "p_state (peer_of fd' p) = p_state (peer_of fd p)" "sent_reject (peer_of fd' p) = sent_reject (peer_of fd p)"
    and "sent_nr (peer_of fd' p) = sent_nr (peer_of fd p)"
    by (subst pp; simp)+
  have "fd' = fd\<lparr>i_queue := i_queue fd', events := events fd', calls := calls fd', peers := peers fd'\<rparr>" by (rule conjunct1 [OF d])
  then show "s_queue fd' = s_queue fd" by (metis (no_types) upd_service)
  show "calls fd' = calls fd @ (if on_send_cb fd then map (On_send (app_address fd p)) (take (acked fd p nr) (tx_window fd p)) else [])"
    and "tx_window fd' p = drop (acked fd p nr) (tx_window fd p)" using d by blast+
  show "on_read_cb fd' = on_read_cb fd" "app_address fd' p = app_address fd p"
    "peer_to_address_field fd' p = peer_to_address_field fd p" using config_fields [OF c(1)] by simp_all
qed

lemma or_1_8: "1 OR 8 OR (x :: u8) = 9 OR x"
  by (simp flip: or.assoc)

lemma check_ops:
  fixes ns :: u8
  assumes "registered fd p"
  defines "fd' \<equiv> snd (check_received_frame fd p ns)" and "n \<equiv> next_nr (ctl fd p)"
  shows "fst (check_received_frame fd p ns) = (if ns = n then TINY_SUCCESS else TINY_ERR_FAILED)"
    and "registered fd' p" "tx_window fd' p = tx_window fd p" "calls fd' = calls fd"
    and "peer_of fd' p = (if ns = n then (peer_of fd p)\<lparr>i_queue_ctl := (ctl fd p)\<lparr>next_nr := seq_next n\<rparr>, sent_reject := False\<rparr>
           else (peer_of fd p)\<lparr>sent_reject := True\<rparr>)"
    and "service_frames (s_queue fd') = (if ns = n \<or> sent_reject (peer_of fd p) then service_frames (s_queue fd)
           else answered fd p (Some (True, 0x09 OR push_bit 5 n)))"
    and "on_read_cb fd' = on_read_cb fd" "on_send_cb fd' = on_send_cb fd" "app_address fd' p = app_address fd p"
    and "peer_to_address_field fd' p = peer_to_address_field fd p"
    and "ns = n \<or> sent_reject (peer_of fd p) \<Longrightarrow> s_queue fd' = s_queue fd"
proof -
  have t: "touches p fd fd'" unfolding fd'_def by (rule touches_check_received [OF assms(1)])
  show "registered fd' p" using touches_registered [OF t assms(1)] .
  show "on_read_cb fd' = on_read_cb fd" "on_send_cb fd' = on_send_cb fd" "app_address fd' p = app_address fd p"
    "peer_to_address_field fd' p = peer_to_address_field fd p" using config_fields [OF t] by simp_all
  note r = registeredD [OF assms(1)]
  have sq: "s_queue_wf (s_queue fd)" using r(1) by (simp add: fd_wf_def)
  note defs = fd'_def check_received_frame_def i_queue_control_get_next_frame_to_receive_def
    i_queue_control_move_to_next_frame_to_receive_def seq_bits_mask_def Let_def
  show "fst (check_received_frame fd p ns) = (if ns = n then TINY_SUCCESS else TINY_ERR_FAILED)"
    by (simp add: defs n_def)
  show "calls fd' = calls fd" by (simp add: defs put_ops sq)
  show pp: "peer_of fd' p = (if ns = n then (peer_of fd p)\<lparr>i_queue_ctl := (ctl fd p)\<lparr>next_nr := seq_next n\<rparr>, sent_reject := False\<rparr>
           else (peer_of fd p)\<lparr>sent_reject := True\<rparr>)"
    using r(4) by (simp add: defs put_ops sq peer_of_upd_peer n_def)
  show "service_frames (s_queue fd') = (if ns = n \<or> sent_reject (peer_of fd p) then service_frames (s_queue fd)
           else answered fd p (Some (True, 0x09 OR push_bit 5 n)))"
    by (simp add: defs put_ops sq n_def answered_def HDLC_S_FRAME_BITS_def HDLC_S_FRAME_TYPE_REJ_def or_1_8)
  show "s_queue fd' = s_queue fd" if "ns = n \<or> sent_reject (peer_of fd p)" using that by (auto simp: defs n_def)
  show "tx_window fd' p = tx_window fd p"
  proof (cases "ns = n")
    case True
    then show ?thesis using r(4) by (simp add: defs n_def tx_window_def peer_to_address_field_def peer_of_upd_peer)
  next
    case False
    then show ?thesis using r(4) by (simp add: defs n_def put_ops sq window_upd_peer)
  qed
qed

lemma i_frame_bits:
  assumes "even (control :: u8)"
  shows "control AND HDLC_U_FRAME_MASK \<noteq> HDLC_U_FRAME_MASK" "control AND HDLC_I_FRAME_MASK = HDLC_I_FRAME_BITS"
proof -
  have b: "\<not> bit control 0" using assms by (simp add: bit_0)
  have "bit (3 :: u8) 0" "\<not> bit (control AND 3) 0" unfolding bit_and_iff using b by (simp_all add: bit_0)
  then show "control AND HDLC_U_FRAME_MASK \<noteq> HDLC_U_FRAME_MASK" unfolding HDLC_U_FRAME_MASK_def by metis
  show "control AND HDLC_I_FRAME_MASK = HDLC_I_FRAME_BITS"
    using assms by (simp add: HDLC_I_FRAME_MASK_def HDLC_I_FRAME_BITS_def and_one_eq even_iff_mod_2_eq_zero)
qed

lemma i_frame_delivery:
  fixes data :: "u8 list"
  assumes "fd_wf fd" "2 \<le> length data" "address_field_to_peer fd (data ! 0) = p" "p \<noteq> HDLC_INVALID_PEER_INDEX"
    and "p_state (peer_of fd p) \<in> {TINY_FD_STATE_CONNECTED, TINY_FD_STATE_DISCONNECTING}"
    and "even (data ! 1)"
  defines "fd' \<equiv> on_frame_read fd data" and "n \<equiv> next_nr (ctl fd p)" and "k \<equiv> acked fd p (drop_bit 5 (data ! 1))"
    and "expected \<equiv> drop_bit 1 (data ! 1) AND 7 = next_nr (ctl fd p)"
  shows "ctl fd' p = (ctl fd p)\<lparr>next_nr := (if expected then seq_next n else n), confirm_ns := seq_add (confirm_ns (ctl fd p)) k\<rparr>
    \<and> reads (calls fd') = reads (calls fd) @ (if expected \<and> on_read_cb fd then [(app_address fd p, drop 2 data)] else [])
    \<and> sends (calls fd') = sends (calls fd) @ (if on_send_cb fd then map (Pair (app_address fd p)) (take k (tx_window fd p)) else [])
    \<and> tx_window fd' p = drop k (tx_window fd p)
    \<and> sent_reject (peer_of fd' p) = (\<not> expected) \<and> p_state (peer_of fd' p) = p_state (peer_of fd p)
    \<and> service_frames (s_queue fd') =
        (if expected then
           if last_ns (ctl fd p) = next_ns (ctl fd p) \<and> sent_nr (peer_of fd p) \<noteq> seq_next n
           then answered fd p (Some (False, 0x01 OR push_bit 5 (seq_next n))) else service_frames (s_queue fd)
         else if sent_reject (peer_of fd p) then service_frames (s_queue fd)
         else answered fd p (Some (True, 0x09 OR push_bit 5 n)))"
proof -
  note r = on_frame_read_registered [OF assms(1-4)]
  define c where "c = data ! 1"
  define fd1 where "fd1 = noted p data fd"
  define fd2 where "fd2 = snd (check_received_frame fd1 p (drop_bit 1 c AND 7))"
  define fd3 where "fd3 = confirm_sent_frames fd2 p (drop_bit 5 c)"
  note n1 = noted_ops [OF r(2), where data = data, folded fd1_def]
  have r1: "registered fd1 p" using r(3) by (simp add: fd1_def)
  note ch = check_ops [OF r1, of "drop_bit 1 c AND 7", folded fd2_def]
  note cf = confirm_ops [OF ch(2), of "drop_bit 5 c", folded fd3_def]
  have r3: "registered fd3 p" using registered_ops(5) [OF ch(2)] by (simp add: fd3_def)
  note cfg1 = config_ops(6-8,10) [OF r(2), where data = data, folded fd1_def]
  have ex: "expected \<longleftrightarrow> drop_bit 1 c AND 7 = next_nr (ctl fd1 p)" by (simp add: expected_def n1 c_def)
  have k: "acked fd2 p (drop_bit 5 c) = k" by (simp add: acked_def ch(5) n1 k_def c_def)
  define fd4 where "fd4 = (if expected \<and> on_read_cb fd then call (On_read (app_address fd p) (drop 2 data)) fd3 else fd3)"
  have r4: "registered fd4 p" using r3 registered_ops(4) by (simp add: fd4_def)
  have sq: "s_queue_wf (s_queue fd4)" using registeredD(1) [OF r4] by (simp add: fd_wf_def)
  define fd5 where "fd5 = (if expected \<and> last_ns (ctl fd p) = next_ns (ctl fd p) \<and> sent_nr (peer_of fd p) \<noteq> seq_next n
     then snd (put_u_s_frame_to_tx_queue fd4 TINY_FD_QUEUE_S_FRAME
       [peer_to_address_field fd4 p, HDLC_S_FRAME_BITS OR HDLC_S_FRAME_TYPE_RR OR push_bit 5 (seq_next n)]) else fd4)"
  have ctl3: "ctl fd3 p = (ctl fd p)\<lparr>next_nr := (if expected then seq_next n else n), confirm_ns := seq_add (confirm_ns (ctl fd p)) k\<rparr>"
    unfolding cf(1) k by (simp add: ch(5) n1 ex n_def)
  have "check_received_frame fd1 p (drop_bit 1 c AND 7) = (if expected then TINY_SUCCESS else TINY_ERR_FAILED, fd2)"
    using ch(1) by (simp add: prod_eq_iff ex fd2_def)
  moreover have "sent_nr (peer_of fd3 p) = sent_nr (peer_of fd p)" "on_read_cb fd3 = on_read_cb fd" "app_address fd3 p = app_address fd p"
    using cf ch n1 cfg1 by (simp_all add: cfg1)
  ultimately have "snd (on_i_frame_read fd1 p data) = fd5"
    using ctl3 unfolding on_i_frame_read_def Let_def c_def [symmetric]
    by (simp add: fd3_def [symmetric] fd4_def fd5_def all_frames_are_sent_def i_queue_control_get_next_frame_to_receive_def)
  then have fd': "fd' = marked data fd5"
    using r(1) i_frame_bits [OF assms(6)] assms(5) n1(1)
    by (auto simp: fd'_def on_frame_read_by_type_def Let_def fd1_def)
  have f4: "peer_of fd4 p = peer_of fd3 p" "s_queue fd4 = s_queue fd3" "tx_window fd4 p = tx_window fd3 p"
    "peer_to_address_field fd4 p = peer_to_address_field fd p" "sends (calls fd4) = sends (calls fd3)"
    "reads (calls fd4) = reads (calls fd3) @ (if expected \<and> on_read_cb fd then [(app_address fd p, drop 2 data)] else [])"
    using config_ops(11) [OF r3] cf(10) ch(10) cfg1(4) by (simp_all add: fd4_def)
  have f5: "peer_of fd5 p = peer_of fd3 p" "tx_window fd5 p = tx_window fd3 p" "calls fd5 = calls fd4"
    using f4 by (simp_all add: fd5_def put_ops [OF sq])
  have "peer_of fd' p = peer_of fd3 p" by (simp add: fd' f5)
  moreover have "sent_reject (peer_of fd3 p) = (\<not> expected)" "p_state (peer_of fd3 p) = p_state (peer_of fd p)"
    by (simp_all add: cf(2,3) ch(5) ex n1)
  moreover have "tx_window fd' p = drop k (tx_window fd p)" by (simp add: fd' f5 cf(7) k ch(3) n1)
  moreover have "reads (calls fd') = reads (calls fd) @ (if expected \<and> on_read_cb fd then [(app_address fd p, drop 2 data)] else [])"
    by (simp add: fd' f5 f4(6) cf(6) ch(4) n1)
  moreover have "sends (calls fd') = sends (calls fd) @ (if on_send_cb fd then map (Pair (app_address fd p)) (take k (tx_window fd p)) else [])"
    by (simp add: fd' f5 f4(5) cf(6) ch(3,4,8,9) k n1 cfg1)
  moreover have "service_frames (s_queue fd3) = (if expected \<or> sent_reject (peer_of fd p) then service_frames (s_queue fd)
      else answered fd p (Some (True, 0x09 OR push_bit 5 n)))"
    using ch(6) n1 cfg1(4) by (simp add: cf(5) ex n_def answered_def)
  moreover have "s_queue fd3 = s_queue fd" if expected using ch(11) that n1(5) by (simp add: cf(5) ex)
  ultimately show ?thesis
    using ctl3 by (simp add: fd5_def put_ops [OF sq] f4 fd' answered_def HDLC_S_FRAME_BITS_def HDLC_S_FRAME_TYPE_RR_def)
qed

text \<open>
  C20: An I-frame for a connection that is up is given to the application exactly if its N(S) is the
  number expected next, which then advances; any other frame leaves the expected number alone and, once
  until the expected frame arrives, is answered with REJ and that number. In both cases its N(R) takes
  the confirmed frames off the front of the own window and reports them.
\<close>

theorem on_frame_read_i_frame:
  fixes data :: "u8 list"
  assumes "fd_wf fd" "2 \<le> length data" "address_field_to_peer fd (data ! 0) = p" "p \<noteq> HDLC_INVALID_PEER_INDEX"
    and "p_state (peer_of fd p) \<in> {TINY_FD_STATE_CONNECTED, TINY_FD_STATE_DISCONNECTING}"
    and "even (data ! 1)"
  defines "fd' \<equiv> on_frame_read fd data" and "n \<equiv> next_nr (ctl fd p)" and "k \<equiv> acked fd p (drop_bit 5 (data ! 1))"
    and "expected \<equiv> drop_bit 1 (data ! 1) AND 7 = next_nr (ctl fd p)"
  shows "ctl fd' p = (ctl fd p)\<lparr>next_nr := (if expected then seq_next n else n), confirm_ns := seq_add (confirm_ns (ctl fd p)) k\<rparr>
    \<and> reads (calls fd') = reads (calls fd) @ (if expected \<and> on_read_cb fd then [(app_address fd p, drop 2 data)] else [])
    \<and> sends (calls fd') = sends (calls fd) @ (if on_send_cb fd then map (Pair (app_address fd p)) (take k (tx_window fd p)) else [])
    \<and> tx_window fd' p = drop k (tx_window fd p)
    \<and> sent_reject (peer_of fd' p) = (\<not> expected) \<and> p_state (peer_of fd' p) = p_state (peer_of fd p)
    \<and> service_frames (s_queue fd') =
        (if expected then
           if last_ns (ctl fd p) = next_ns (ctl fd p) \<and> sent_nr (peer_of fd p) \<noteq> seq_next n
           then answered fd p (Some (False, 0x01 OR push_bit 5 (seq_next n))) else service_frames (s_queue fd)
         else if sent_reject (peer_of fd p) then service_frames (s_queue fd)
         else answered fd p (Some (True, 0x09 OR push_bit 5 n)))"
  using i_frame_delivery [OF assms(1-6)] unfolding fd'_def n_def k_def expected_def .

theorem on_frame_read_i_frame_witness:
  "reads (calls (on_frame_read demo_fd2 [1, 0xE4, 42])) = [(0, [42])] \<and> sends (calls (on_frame_read demo_fd2 [1, 0xE4, 42])) = [(0, [7])]"
proof -
  have a: "address_field_to_peer demo_fd2 1 = 0" by code_simp
  have s: "p_state (peer_of demo_fd2 0) = TINY_FD_STATE_CONNECTED" by code_simp
  have c: "acked demo_fd2 0 7 = 1" by (simp add: acked_def demo_fd2_facts confirmed_count_def seq_dist_def)
  have "drop_bit 5 (0xE4 :: u8) = 7" "drop_bit 1 (0xE4 :: u8) AND 7 = 2" by code_simp+
  moreover have "app_address demo_fd2 0 = 0" using demo_fd2_facts(8,9) by (simp add: app_address_def)
  ultimately show ?thesis
    using on_frame_read_i_frame [OF demo_fd2_facts(1), of "[1, 0xE4, 42]" 0] a s c
    by (simp add: HDLC_INVALID_PEER_INDEX_def demo_fd2_facts)
qed

text \<open>
  As long as no connection is up, an I-frame or S-frame changes nothing but the time of the last
  frame: nothing is delivered or confirmed, no number moves, and the answer is DM.
\<close>

theorem on_frame_read_not_connected:
  fixes data :: "u8 list"
  assumes "fd_wf fd" "2 \<le> length data" "address_field_to_peer fd (data ! 0) = p" "p \<noteq> HDLC_INVALID_PEER_INDEX"
    and "p_state (peer_of fd p) \<notin> {TINY_FD_STATE_CONNECTED, TINY_FD_STATE_DISCONNECTING}"
    and "data ! 1 AND HDLC_U_FRAME_MASK \<noteq> HDLC_U_FRAME_MASK"
  defines "fd' \<equiv> on_frame_read fd data"
  shows "peer_of fd' p = (peer_of fd p)\<lparr>last_received_frame_ts := clock fd (ticks fd), ka_confirmed := True\<rparr>
    \<and> reads (calls fd') = reads (calls fd) \<and> sends (calls fd') = sends (calls fd) \<and> connects (calls fd') = connects (calls fd)
    \<and> tx_window fd' p = tx_window fd p \<and> service_frames (s_queue fd') = answered fd p (Some (False, 0x0F))"
proof -
  note r = on_frame_read_registered [OF assms(1-4)]
  have sq: "s_queue_wf (s_queue fd)" using registeredD(1) [OF r(2)] by (simp add: fd_wf_def)
  have fd': "fd' = marked data (snd (put_u_s_frame_to_tx_queue (noted p data fd) TINY_FD_QUEUE_U_FRAME
      [peer_to_address_field fd p, 0x0F]))"
    using assms(5,6) r(1) noted_ops(1) [OF r(2)] config_ops(10) [OF r(2)]
    by (simp add: fd'_def on_frame_read_by_type_def Let_def HDLC_U_FRAME_TYPE_DM_def HDLC_U_FRAME_BITS_def)
  show ?thesis
    using noted_ops [OF r(2), where data = data] noted_facts(3) [OF r(2), where data = data] sq
    by (simp add: fd' put_ops answered_def)
qed

definition demo_down :: tiny_fd_data where
  "demo_down = upd_peer 0 (\<lambda>p. p\<lparr>p_state := TINY_FD_STATE_DISCONNECTED\<rparr>) demo_fd"

theorem on_frame_read_not_connected_witness:
  "reads (calls (on_frame_read demo_down [1, 4, 42])) = []
    \<and> service_frames (s_queue (on_frame_read demo_down [1, 4, 42])) = {#(1, 0x0F, [])#}"
proof -
  have wf: "fd_wf demo_down" unfolding demo_down_def
    by (rule fd_wf_upd_peer [OF demo_fd_wf]) (simp_all add: demo_fd_simps)
  have "address_field_to_peer demo_down 1 = 0" "p_state (peer_of demo_down 0) = TINY_FD_STATE_DISCONNECTED"
    "calls demo_down = []" "tiny_fd_queue_has_free_slots (s_queue demo_down)" "peer_to_address_field demo_down 0 = 1" by code_simp+
  moreover have "service_frames (s_queue demo_down) = {#}" by (simp add: service_frames_def demo_down_def demo_fd_def demo_slot_def)
  ultimately show ?thesis
    using on_frame_read_not_connected [OF wf, of "[1, 4, 42]" 0]
    by (simp add: HDLC_INVALID_PEER_INDEX_def HDLC_U_FRAME_MASK_def answered_def)
qed

subsection \<open>In-order delivery over a sequence of frames\<close>

text \<open>
  Frame number \<open>k\<close> (counted without wrapping) carries N(S) \<open>k mod 8\<close>. After \<open>n\<close> deliveries, the
  frames with numbers \<open>ks\<close> bring the count to \<open>delivered n ks\<close>. A sender that keeps at most seven frames
  outstanding only sends frames within reach of the receiver's count.
\<close>

fun delivered :: "nat \<Rightarrow> nat list \<Rightarrow> nat" where
  "delivered n [] = n"
| "delivered n (k # ks) = delivered (if k = n then Suc n else n) ks"

fun in_reach :: "nat \<Rightarrow> nat list \<Rightarrow> bool" where
  "in_reach n [] = True"
| "in_reach n (k # ks) = (k < n + 8 \<and> n < k + 8 \<and> in_reach (if k = n then Suc n else n) ks)"

definition i_frame :: "u8 \<Rightarrow> nat \<Rightarrow> u8 list \<Rightarrow> u8 list \<Rightarrow> bool" where
  "i_frame a k payload data \<longleftrightarrow> 2 \<le> length data \<and> data ! 0 = a \<and> even (data ! 1)
     \<and> drop_bit 1 (data ! 1) AND 7 = of_nat (k mod 8) \<and> drop 2 data = payload"

lemma delivered_mono: "n \<le> delivered n ks"
  by (induction n ks rule: delivered.induct) (auto intro: le_trans)

text \<open>Whatever is lost or repeated in between, a run of consecutive frames gets through.\<close>

lemma delivered_subseq: "subseq [n..<m] ks \<Longrightarrow> n \<le> n' \<Longrightarrow> m \<le> delivered n' ks"
proof (induction ks arbitrary: n n')
  case Nil
  then have "[n..<m] = []" using list_emb_Nil2 by blast
  then have "m \<le> n" by (simp add: upt_eq_Nil_conv) linarith
  then show ?case using Nil by simp
next
  case (Cons k ks)
  define n'' where "n'' = (if k = n' then Suc n' else n')"
  have d: "delivered n' (k # ks) = delivered n'' ks" by (simp add: n''_def)
  show ?case
  proof (cases "m \<le> n")
    case True
    then show ?thesis using Cons.prems(2) delivered_mono [of n' "k # ks"] by linarith
  next
    case False
    then have u: "[n..<m] = n # [Suc n..<m]" by (simp add: upt_conv_Cons)
    then show ?thesis
    proof (cases "n = k")
      case True
      then have "subseq [Suc n..<m] ks" using Cons.prems(1) u by simp
      moreover have "Suc n \<le> n''" using True Cons.prems(2) by (auto simp: n''_def)
      ultimately show ?thesis using Cons.IH d by simp
    next
      case False
      then have "subseq [n..<m] ks" using Cons.prems(1) u by simp
      moreover have "n \<le> n''" using Cons.prems(2) by (auto simp: n''_def)
      ultimately show ?thesis using Cons.IH d by simp
    qed
  qed
qed

lemma seq_of_nat: "of_nat (k mod 8) = (of_nat (n mod 8) :: u8) \<longleftrightarrow> k mod 8 = n mod 8"
  by (simp add: word_of_nat_eq_iff take_bit_nat_eq_self)

lemma in_reach_expected:
  fixes k n :: nat
  assumes "k < n + 8" "n < k + 8"
  shows "k mod 8 = n mod 8 \<longleftrightarrow> k = n"
proof
  assume eq: "k mod 8 = n mod 8"
  have "k = 8 * (k div 8) + k mod 8" by simp
  moreover have "n = 8 * (n div 8) + k mod 8" unfolding eq by simp
  ultimately have "k div 8 = n div 8" using assms by linarith
  then show "k = n" using eq by (metis div_mult_mod_eq)
qed simp

lemma seq_next_of_nat: "seq_next (of_nat (n mod 8)) = of_nat (Suc n mod 8)"
proof -
  have "n mod 8 < 8" by simp
  then consider "n mod 8 = 0" | "n mod 8 = 1" | "n mod 8 = 2" | "n mod 8 = 3" | "n mod 8 = 4" | "n mod 8 = 5"
    | "n mod 8 = 6" | "n mod 8 = 7" by linarith
  then show ?thesis by cases (simp_all add: mod_Suc)
qed

text \<open>What one frame of the sequence does.\<close>

definition up_with :: "tiny_fd_data \<Rightarrow> u8 \<Rightarrow> u8 \<Rightarrow> nat \<Rightarrow> bool" where
  "up_with fd a p n \<longleftrightarrow> fd_wf fd \<and> on_read_cb fd \<and> address_field_to_peer fd a = p \<and> p \<noteq> HDLC_INVALID_PEER_INDEX
     \<and> p_state (peer_of fd p) \<in> {TINY_FD_STATE_CONNECTED, TINY_FD_STATE_DISCONNECTING} \<and> next_nr (ctl fd p) = of_nat (n mod 8)"

lemma find_peer_cong: "map p_addr ps = map p_addr qs \<Longrightarrow> find_peer ps a i = find_peer qs a i"
proof (induction ps a i arbitrary: qs rule: find_peer.induct)
  case (1 address peer)
  then show ?case by simp
next
  case (2 q ps address peer)
  then obtain r rs where "qs = r # rs" "p_addr r = p_addr q" "map p_addr ps = map p_addr rs" by (cases qs) auto
  then show ?case using "2.IH" by simp
qed

lemma address_field_to_peer_config:
  assumes "fd_wf fd" "same_config fd fd'"
  shows "address_field_to_peer fd' a = address_field_to_peer fd a"
proof -
  note c = assms(2) [unfolded same_config_def]
  have len: "length (peers fd) < 255" using assms(1) by (simp add: fd_wf_def table_wf_def)
  have "map p_addr (peers fd') = map p_addr (peers fd)"
  proof (rule nth_equalityI)
    fix i assume "i < length (map p_addr (peers fd'))"
    moreover from this have "unat (of_nat i :: u8) = i" using c len by (simp add: unat_of_nat take_bit_nat_eq_self)
    ultimately show "map p_addr (peers fd') ! i = map p_addr (peers fd) ! i"
      using c by (simp add: peer_of_def) (metis (no_types))
  qed (simp add: c)
  then have "find_peer (take (unat (peers_count fd)) (peers fd')) b 0 = find_peer (take (unat (peers_count fd)) (peers fd)) b 0" for b
    by (intro find_peer_cong) (simp flip: take_map)
  then show ?thesis using c by (simp add: address_field_to_peer_def Let_def is_secondary_station_def is_primary_station_def)
qed

lemma up_with_step:
  assumes "up_with fd a p n" "i_frame a k payload data" "k < n + 8" "n < k + 8"
  defines "fd' \<equiv> on_frame_read fd data"
  shows "up_with fd' a p (if k = n then Suc n else n)" "app_address fd' p = app_address fd p"
    and "reads (calls fd') = reads (calls fd) @ (if k = n then [(app_address fd p, payload)] else [])"
proof -
  note u = assms(1) [unfolded up_with_def]
  note f = assms(2) [unfolded i_frame_def]
  have pa: "address_field_to_peer fd (data ! 0) = p" using u f by simp
  have "\<not> is_rset data" using i_frame_bits(1) f unfolding is_rset_def by blast
  then have t: "touches p fd fd'" using on_frame_read_touches [of fd data] u pa by (simp add: fd'_def)
  have ex: "drop_bit 1 (data ! 1) AND 7 = next_nr (ctl fd p) \<longleftrightarrow> k = n"
    using u f seq_of_nat in_reach_expected [OF assms(3,4)] by simp
  have "2 \<le> length data" "p \<noteq> HDLC_INVALID_PEER_INDEX" "fd_wf fd" "even (data ! 1)"
    "p_state (peer_of fd p) \<in> {TINY_FD_STATE_CONNECTED, TINY_FD_STATE_DISCONNECTING}" using u f by simp_all
  note d = i_frame_delivery [OF this(3,1) pa this(2,5,4), folded fd'_def, unfolded ex]
  have a: "address_field_to_peer fd' a = p"
    using t u address_field_to_peer_config [of fd fd' a] by (simp add: touches_def)
  show "app_address fd' p = app_address fd p" using config_fields(6) [OF t] .
  show "reads (calls fd') = reads (calls fd) @ (if k = n then [(app_address fd p, payload)] else [])"
    using d u f by simp
  show "up_with fd' a p (if k = n then Suc n else n)"
    using d u a t config_fields(2) [OF t] seq_next_of_nat by (simp add: up_with_def touches_def)
qed

text \<open>An S-frame in between moves nothing that delivery depends on.\<close>

definition s_frame :: "u8 \<Rightarrow> u8 list \<Rightarrow> bool" where
  "s_frame a data \<longleftrightarrow> 2 \<le> length data \<and> data ! 0 AND NOT HDLC_CR_BIT = a AND NOT HDLC_CR_BIT
     \<and> data ! 1 AND HDLC_S_FRAME_MASK = HDLC_S_FRAME_BITS"

lemma resend_ops:
  fixes control nr :: u8
  assumes "registered fd p" "nr < 8"
  defines "fd' \<equiv> resend_all_unconfirmed_frames fd p control nr"
  shows "p_state (peer_of fd' p) = p_state (peer_of fd p)" "next_nr (ctl fd' p) = next_nr (ctl fd p)" "calls fd' = calls fd"
proof -
  note r = resend_all_refines [OF registeredD(1,2) [OF assms(1)] assms(2), of control]
  note s = same_but_service_fields [OF r(2)]
  show "p_state (peer_of fd' p) = p_state (peer_of fd p)" "calls fd' = calls fd"
    using s(3,4) registeredD(4) [OF assms(1)] by (simp_all add: fd'_def peer_of_upd_peer)
  show "next_nr (ctl fd' p) = next_nr (ctl fd p)" using r(3) by (simp add: fd'_def)
qed

lemma on_s_frame_ops:
  fixes data :: "u8 list"
  assumes "registered fd p"
  defines "fd' \<equiv> snd (on_s_frame_read fd p data)"
  shows "p_state (peer_of fd' p) = p_state (peer_of fd p)" "next_nr (ctl fd' p) = next_nr (ctl fd p)"
    "reads (calls fd') = reads (calls fd)"
proof -
  define fd1 where "fd1 = confirm_sent_frames fd p (drop_bit 5 (data ! 1))"
  note c = confirm_ops [OF assms(1), of "drop_bit 5 (data ! 1)", folded fd1_def]
  have r1: "registered fd1 p" using registered_ops(5) [OF assms(1)] by (simp add: fd1_def)
  have sq: "s_queue_wf (s_queue fd1)" using registeredD(1) [OF r1] by (simp add: fd_wf_def)
  have ev: "calls (set_events b x) = calls x" for b x by (simp add: set_events_def)
  note ops = put_ops [OF sq] resend_ops [OF r1 nr_less_8] c peer_of_upd_peer [OF registeredD(4) [OF r1]] ev
  have 1: "p_state (peer_of fd1 p) = p_state (peer_of fd p)" "next_nr (ctl fd1 p) = next_nr (ctl fd p)"
    "reads (calls fd1) = reads (calls fd)" by (simp_all add: c)
  show "p_state (peer_of fd' p) = p_state (peer_of fd p)" "next_nr (ctl fd' p) = next_nr (ctl fd p)"
    "reads (calls fd') = reads (calls fd)"
    unfolding fd'_def on_s_frame_read_def Let_def fd1_def [symmetric]
    by (simp_all add: ops)
qed

lemma address_field_to_peer_cr:
  "x AND NOT HDLC_CR_BIT = a AND NOT HDLC_CR_BIT \<Longrightarrow> address_field_to_peer fd x = address_field_to_peer fd a"
  by (simp add: address_field_to_peer_def)

text \<open>How an S-frame gets to its handler.\<close>

lemma s_frame_by_type:
  assumes "fd_wf fd" "s_frame a data" "address_field_to_peer fd a = p" "p \<noteq> HDLC_INVALID_PEER_INDEX"
    and "p_state (peer_of fd p) \<in> {TINY_FD_STATE_CONNECTED, TINY_FD_STATE_DISCONNECTING}"
  shows "on_frame_read fd data = marked data (snd (on_s_frame_read (noted p data fd) p data))"
    and "touches p fd (on_frame_read fd data)" "registered fd p"
proof -
  note f = assms(2) [unfolded s_frame_def]
  have pa: "address_field_to_peer fd (data ! 0) = p" using assms(3) f address_field_to_peer_cr by metis
  have b: "data ! 1 AND HDLC_U_FRAME_MASK \<noteq> HDLC_U_FRAME_MASK"
    using f by (auto simp: HDLC_U_FRAME_MASK_def HDLC_S_FRAME_MASK_def HDLC_S_FRAME_BITS_def)
  have i: "data ! 1 AND HDLC_I_FRAME_MASK \<noteq> HDLC_I_FRAME_BITS"
  proof -
    have "bit (data ! 1 AND HDLC_S_FRAME_MASK) 0" using f by (simp add: HDLC_S_FRAME_BITS_def)
    then have "bit (data ! 1 AND HDLC_I_FRAME_MASK) 0" by (simp add: bit_and_iff HDLC_I_FRAME_MASK_def)
    then show ?thesis by (metis HDLC_I_FRAME_BITS_def bit_0_eq bot_apply bot_bool_def)
  qed
  have "\<not> is_rset data" using b by (simp add: is_rset_def)
  then show "touches p fd (on_frame_read fd data)" using on_frame_read_touches [of fd data] assms(1) pa by simp
  have "2 \<le> length data" using f by simp
  note r = on_frame_read_registered [OF assms(1) this pa assms(4)]
  show "registered fd p" using r(2) .
  show "on_frame_read fd data = marked data (snd (on_s_frame_read (noted p data fd) p data))"
    using r(1) b i noted_ops(1) [OF r(2)] f assms(5) by (auto simp: on_frame_read_by_type_def Let_def)
qed

lemma up_with_s_frame:
  assumes "up_with fd a p n" "s_frame a data"
  defines "fd' \<equiv> on_frame_read fd data"
  shows "up_with fd' a p n" "app_address fd' p = app_address fd p" "reads (calls fd') = reads (calls fd)"
proof -
  note u = assms(1) [unfolded up_with_def]
  have "fd_wf fd" "address_field_to_peer fd a = p" "p \<noteq> HDLC_INVALID_PEER_INDEX"
    "p_state (peer_of fd p) \<in> {TINY_FD_STATE_CONNECTED, TINY_FD_STATE_DISCONNECTING}"
    using u by simp_all
  note b = s_frame_by_type [OF this(1) assms(2) this(2-4), folded fd'_def]
  note n = noted_ops [OF b(3), where data = data]
  have "registered (noted p data fd) p" using registered_ops(3) [OF b(3)] .
  note s = on_s_frame_ops [OF this, of data]
  show "app_address fd' p = app_address fd p" using config_fields(6) [OF b(2)] .
  show "reads (calls fd') = reads (calls fd)" by (simp add: b(1) s n)
  have "p_state (peer_of fd' p) = p_state (peer_of fd p)" "next_nr (ctl fd' p) = next_nr (ctl fd p)" by (simp_all add: b(1) s n)
  then show "up_with fd' a p n"
    using u b(2) config_fields(2) [OF b(2)] address_field_to_peer_config [of fd fd' a] by (simp add: up_with_def touches_def)
qed

text \<open>A frame of the sequence: I-frame \<open>k\<close> with its payload, or an S-frame.\<close>

definition peer_frame :: "u8 \<Rightarrow> (nat \<Rightarrow> u8 list) \<Rightarrow> nat option \<times> u8 list \<Rightarrow> bool" where
  "peer_frame a payload f \<longleftrightarrow> (case fst f of Some k \<Rightarrow> i_frame a k (payload k) (snd f) | None \<Rightarrow> s_frame a (snd f))"

definition i_numbers :: "(nat option \<times> u8 list) list \<Rightarrow> nat list" where
  "i_numbers fs = concat (map (\<lambda>f. case fst f of Some k \<Rightarrow> [k] | None \<Rightarrow> []) fs)"

lemma in_order_delivery:
  assumes "up_with fd a p n" "\<forall>f \<in> set fs. peer_frame a payload f" "in_reach n (i_numbers fs)"
  shows "reads (calls (foldl on_frame_read fd (map snd fs))) = reads (calls fd)
     @ map (\<lambda>i. (app_address fd p, payload i)) [n..<delivered n (i_numbers fs)]"
  using assms
proof (induction fs arbitrary: fd n)
  case Nil
  then show ?case by (simp add: i_numbers_def)
next
  case (Cons f fs)
  define fd' where "fd' = on_frame_read fd (snd f)"
  have pf: "peer_frame a payload f" "\<forall>f \<in> set fs. peer_frame a payload f" using Cons.prems(2) by simp_all
  show ?case
  proof (cases "fst f")
    case None
    then have ks: "i_numbers (f # fs) = i_numbers fs" by (simp add: i_numbers_def)
    have "s_frame a (snd f)" using pf(1) None by (simp add: peer_frame_def)
    note s = up_with_s_frame [OF Cons.prems(1) this, folded fd'_def]
    show ?thesis using Cons.IH [OF s(1) pf(2)] Cons.prems(3) s(2,3) by (simp add: ks fd'_def)
  next
    case (Some k)
    then have ks: "i_numbers (f # fs) = k # i_numbers fs" by (simp add: i_numbers_def)
    have i: "i_frame a k (payload k) (snd f)" using pf(1) Some by (simp add: peer_frame_def)
    have re: "k < n + 8" "n < k + 8" "in_reach (if k = n then Suc n else n) (i_numbers fs)" using Cons.prems(3) by (simp_all add: ks)
    note s = up_with_step [OF Cons.prems(1) i re(1,2), folded fd'_def]
    have "n < delivered (Suc n) (i_numbers fs)" using delivered_mono [of "Suc n" "i_numbers fs"] by linarith
    then show ?thesis using Cons.IH [OF s(1) pf(2) re(3)] s(2,3) by (simp add: ks fd'_def upt_conv_Cons)
  qed
qed

text \<open>
  C14: Let the peer number its payloads without wrapping and send them in I-frames, in any order, with
  losses and repetitions, between S-frames of any kind, as long as a frame is never more than seven
  numbers away from the count of delivered payloads. Then the application receives the payloads in
  order, each exactly once, without gaps, and at least up to \<open>m\<close> if the frames up to \<open>m\<close> arrived in order
  among the others.
\<close>

theorem in_order_exactly_once_delivery:
  assumes "fd_wf fd" "on_read_cb fd" "address_field_to_peer fd a = p" "p \<noteq> HDLC_INVALID_PEER_INDEX"
    and "p_state (peer_of fd p) \<in> {TINY_FD_STATE_CONNECTED, TINY_FD_STATE_DISCONNECTING}"
    and "next_nr (ctl fd p) = of_nat (n mod 8)"
    and "\<forall>f \<in> set fs. peer_frame a payload f" "in_reach n (i_numbers fs)"
  defines "m \<equiv> delivered n (i_numbers fs)"
  shows "reads (calls (foldl on_frame_read fd (map snd fs)))
      = reads (calls fd) @ map (\<lambda>i. (app_address fd p, payload i)) [n..<m]
    \<and> (\<forall>j. subseq [n..<j] (i_numbers fs) \<longrightarrow> j \<le> m)"
proof -
  have "up_with fd a p n" using assms by (simp add: up_with_def)
  from in_order_delivery [OF this assms(7,8)] show ?thesis
    using delivered_subseq [of n _ "i_numbers fs" n] by (simp add: m_def)
qed

theorem in_order_exactly_once_delivery_witness:
  "reads (calls (foldl on_frame_read demo_fd2 [[1, 0x06, 30], [1, 0x04, 20], [1, 0x01], [1, 0x04, 20], [1, 0x06, 30]]))
    = [(0, [20]), (0, [30])]"
proof -
  define fs :: "(nat option \<times> u8 list) list" where "fs = [(Some 3, [1, 0x06, 30]), (Some 2, [1, 0x04, 20]), (None, [1, 0x01]),
      (Some 2, [1, 0x04, 20]), (Some 3, [1, 0x06, 30])]"
  define payload where "payload = (\<lambda>k::nat. [10 * of_nat k :: u8])"
  have a: "address_field_to_peer demo_fd2 1 = 0" "p_state (peer_of demo_fd2 0) = TINY_FD_STATE_CONNECTED" by code_simp+
  have b: "drop_bit 1 (0x06 :: u8) AND 7 = 3" "drop_bit 1 (0x04 :: u8) AND 7 = 2" "drop_bit (Suc 0) (6 :: u8) AND 7 = 3"
    "drop_bit (Suc 0) (4 :: u8) AND 7 = 2" by code_simp+
  have ks: "i_numbers fs = [3, 2, 2, 3]" by (simp add: i_numbers_def fs_def)
  have "\<forall>f \<in> set fs. peer_frame 1 payload f"
    by (simp add: fs_def peer_frame_def i_frame_def s_frame_def payload_def b HDLC_S_FRAME_MASK_def HDLC_S_FRAME_BITS_def)
  moreover have "app_address demo_fd2 0 = 0" using demo_fd2_facts(8,9) by (simp add: app_address_def)
  moreover have "delivered 2 [3, 2, 2, 3] = 4" "[2..<4] = [2, 3]" "map snd fs = [[1, 0x06, 30], [1, 0x04, 20], [1, 0x01], [1, 0x04, 20], [1, 0x06, 30]]"
    by (simp_all add: fs_def upt_rec)
  ultimately show ?thesis
    using in_order_exactly_once_delivery [OF demo_fd2_facts(1), of 1 0 2 fs payload] a ks
    by (simp add: HDLC_INVALID_PEER_INDEX_def demo_fd2_facts payload_def)
qed

subsection \<open>Two frames the code does not guard against\<close>

text \<open>
  An RSET frame restarts the numbers of a peer but leaves its frames in the queue: the window is empty,
  and the two frames that waited in \<open>demo_fd2\<close> keep their slots with numbers outside of it.
\<close>

lemma rset_strands_frames:
  "ctl (on_frame_read demo_fd2 [3, 0x8F]) 0 = \<lparr>last_ns = 0, confirm_ns = 0, next_ns = 0, next_nr = 0\<rparr>
    \<and> i_lookup 1 (i_queue (on_frame_read demo_fd2 [3, 0x8F])) 6 = Some [7]
    \<and> i_lookup 1 (i_queue (on_frame_read demo_fd2 [3, 0x8F])) 7 = Some [8, 9]"
  by (intro conjI; code_simp)

text \<open>
  An N(R) beyond the frames sent so far confirms frames that were never sent: the application is told
  that they were delivered, and the number of the next frame to send falls out of the window.
\<close>

lemma unsent_frames_confirmed:
  "next_ns (ctl demo_fd2 0) = 6 \<and> sends (calls (on_frame_read demo_fd2 [1, 0x01])) = [(0, [7]), (0, [8, 9])]
    \<and> confirm_ns (ctl (on_frame_read demo_fd2 [1, 0x01]) 0) = 0 \<and> next_ns (ctl (on_frame_read demo_fd2 [1, 0x01]) 0) = 6"
  by (intro conjI; code_simp)

end
