(* ===== verification/HdlcTx.thy ===== *)
theory HdlcTx
  imports HdlcLowLevel
begin

unbundle bit_operations_syntax

section \<open>The transmit side emits exactly the encoded frame\<close>

text \<open>
  The reference encoding of a frame (\<open>hdlc_encode\<close>), the bytes a transmitter still has to send
  (\<open>tx_remaining\<close>), and the refinement: every call of \<open>hdlc_ll_run_tx\<close> takes as many of the
  remaining bytes as fit the buffer, whatever the state it was interrupted in.
\<close>

subsection \<open>Lemmas on byte ranges\<close>

lemma length_bytes_at [simp]: "length (bytes_at m p n) = n"
  by (simp add: bytes_at_def)

lemma bytes_at_0 [simp]: "bytes_at m p 0 = []"
  by (simp add: bytes_at_def)

lemma bytes_at_Suc: "bytes_at m p (Suc n) = m p # bytes_at m (Suc p) n"
  by (auto simp: bytes_at_def upt_conv_Cons map_Suc_upt [symmetric] simp del: upt_Suc)

lemma bytes_at_add: "bytes_at m p (a + b) = bytes_at m p a @ bytes_at m (p + a) b"
  by (induction a arbitrary: p) (simp_all add: bytes_at_Suc)

lemma bytes_at_split: "k \<le> n \<Longrightarrow> bytes_at m p n = bytes_at m p k @ bytes_at m (p + k) (n - k)"
  using bytes_at_add [of m p k "n - k"] by simp

lemma take_bytes_at: "k \<le> n \<Longrightarrow> take k (bytes_at m p n) = bytes_at m p k"
  using bytes_at_split [of k n m p] by simp

lemma nth_bytes_at [simp]: "i < n \<Longrightarrow> bytes_at m p n ! i = m (p + i)"
  by (simp add: bytes_at_def)

lemma bytes_at_eq_Nil_iff [simp]: "bytes_at m p n = [] \<longleftrightarrow> n = 0"
  using length_bytes_at [of m p n] by (cases "n = 0") (auto simp del: length_bytes_at)

subsection \<open>The reference encoding\<close>

definition special :: "u8 \<Rightarrow> bool" where
  "special b \<longleftrightarrow> b = FLAG_SEQUENCE \<or> b = TINY_ESCAPE_CHAR"

definition stuff :: "u8 \<Rightarrow> u8 list" where
  "stuff b = (if special b then [TINY_ESCAPE_CHAR, b XOR TINY_ESCAPE_BIT] else [b])"

definition stuffing :: "u8 list \<Rightarrow> u8 list" where
  "stuffing bs = concat (map stuff bs)"

definition fcs_value :: "hdlc_crc_t \<Rightarrow> u8 list \<Rightarrow> u32" where
  "fcs_value crc bs =
     (case crc of
        HDLC_CRC_8 \<Rightarrow> ucast (tiny_chksum INITCHECKSUM bs)
      | HDLC_CRC_16 \<Rightarrow> ucast (tiny_crc16 PPPINITFCS16 bs)
      | HDLC_CRC_32 \<Rightarrow> tiny_crc32 PPPINITFCS32 bs
      | _ \<Rightarrow> 0)"

definition fcs_len :: "hdlc_crc_t \<Rightarrow> nat" where
  "fcs_len crc = nat (hdlc_crc_val crc) div 8"

definition crc_bytes :: "nat \<Rightarrow> nat \<Rightarrow> u32 \<Rightarrow> u8 list" where
  "crc_bytes k n c = map (\<lambda>i. ucast (drop_bit (8 * i) c)) [k..<n]"

definition fcs_bytes :: "hdlc_crc_t \<Rightarrow> u8 list \<Rightarrow> u8 list" where
  "fcs_bytes crc bs = crc_bytes 0 (fcs_len crc) (fcs_value crc bs)"

definition hdlc_encode :: "hdlc_crc_t \<Rightarrow> u8 list \<Rightarrow> u8 list" where
  "hdlc_encode crc bs = FLAG_SEQUENCE # stuffing (bs @ fcs_bytes crc bs) @ [FLAG_SEQUENCE]"

lemma stuffing_Nil [simp]: "stuffing [] = []"
  by (simp add: stuffing_def)

lemma stuffing_Cons [simp]: "stuffing (b # bs) = stuff b @ stuffing bs"
  by (simp add: stuffing_def)

lemma stuffing_append [simp]: "stuffing (xs @ ys) = stuffing xs @ stuffing ys"
  by (simp add: stuffing_def)

lemma stuffing_plain: "\<forall>b\<in>set bs. \<not> special b \<Longrightarrow> stuffing bs = bs"
  by (induction bs) (simp_all add: stuff_def)

lemma crc_bytes_Nil [simp]: "n \<le> k \<Longrightarrow> crc_bytes k n c = []"
  by (simp add: crc_bytes_def)

lemma crc_bytes_Cons: "k < n \<Longrightarrow> crc_bytes k n c = ucast (drop_bit (8 * k) c) # crc_bytes (Suc k) n c"
  by (simp add: crc_bytes_def upt_conv_Cons)

subsection \<open>What is left to send\<close>

text \<open>The first byte of the list is half sent when the escape flag is set.\<close>

definition after_escape :: "bool \<Rightarrow> u8 list \<Rightarrow> u8 list" where
  "after_escape esc bs = (if esc then drop 1 (stuffing bs) else stuffing bs)"

definition tx_remaining :: "'u hdlc_ll \<Rightarrow> u8 list" where
  "tx_remaining h =
     (case tx_state h of
        Send_start \<Rightarrow> (if tx_origin h = 0 then []
                       else hdlc_encode (crc_type h) (bytes_at (mem h) (tx_data h) (tx_len h)))
      | Send_data \<Rightarrow> after_escape (tx_escape h) (bytes_at (mem h) (tx_data h) (tx_len h))
                       @ stuffing (crc_bytes 0 (fcs_len (crc_type h)) (tx_crc h)) @ [FLAG_SEQUENCE]
      | Send_crc \<Rightarrow> after_escape (tx_escape h) (crc_bytes (tx_len h div 8) (fcs_len (crc_type h)) (tx_crc h))
                       @ [FLAG_SEQUENCE]
      | Send_end \<Rightarrow> [FLAG_SEQUENCE])"

definition tx_wf :: "'u hdlc_ll \<Rightarrow> bool" where
  "tx_wf h \<longleftrightarrow> crc_type h \<noteq> HDLC_CRC_OFF \<and>
     (case tx_state h of
        Send_start \<Rightarrow> tx_origin h \<noteq> 0 \<longrightarrow> tx_data h = tx_origin h \<and> 0 < tx_len h
      | Send_data \<Rightarrow> tx_origin h \<noteq> 0 \<and> tx_origin h \<le> tx_data h \<and> 0 < tx_len h
                       \<and> (tx_escape h \<longrightarrow> special (mem h (tx_data h)))
      | Send_crc \<Rightarrow> tx_origin h \<noteq> 0 \<and> tx_origin h < tx_data h
                       \<and> tx_len h mod 8 = 0 \<and> tx_len h div 8 \<le> fcs_len (crc_type h)
                       \<and> (tx_escape h \<longrightarrow> tx_len h div 8 < fcs_len (crc_type h)
                            \<and> special (ucast (drop_bit (tx_len h) (tx_crc h))))
      | Send_end \<Rightarrow> tx_origin h \<noteq> 0 \<and> tx_origin h < tx_data h)"

text \<open>The bytes that \<open>on_frame_send\<close> reports when the frame is out.\<close>

definition tx_frame :: "'u hdlc_ll \<Rightarrow> u8 list" where
  "tx_frame h = bytes_at (mem h) (tx_origin h)
     (tx_data h - tx_origin h + (if tx_state h = Send_start \<or> tx_state h = Send_data then tx_len h else 0))"

lemma scan_plain_step:
  "scan_plain m p len pos =
     (if \<not> special (m (p + pos)) \<and> pos < len then scan_plain m p len (pos + 1) else pos)"
  by (subst scan_plain.simps) (simp add: special_def)

lemma scan_plain_props:
  "pos \<le> len \<Longrightarrow> (\<forall>i<pos. \<not> special (m (p + i))) \<Longrightarrow>
   (\<forall>i < scan_plain m p len pos. \<not> special (m (p + i))) \<and>
   (scan_plain m p len pos < len \<longrightarrow> special (m (p + scan_plain m p len pos)))"
proof (induction m p len pos rule: scan_plain.induct)
  case (1 m p len pos)
  show ?case
  proof (cases "\<not> special (m (p + pos)) \<and> pos < len")
    case True
    then have "\<forall>i<pos + 1. \<not> special (m (p + i))"
      using "1.prems" by (auto simp: less_Suc_eq)
    then show ?thesis using "1.IH" True by (simp add: scan_plain_step [of m p len pos] special_def)
  next
    case False
    then have "scan_plain m p len pos = pos" by (subst scan_plain_step) auto
    then show ?thesis using "1.prems" False by auto
  qed
qed

lemma stuffing_bytes_at_plain:
  "\<forall>i<n. \<not> special (m (p + i)) \<Longrightarrow> stuffing (bytes_at m p n) = bytes_at m p n"
  by (rule stuffing_plain) (auto simp: bytes_at_def)

text \<open>Each state function moves bytes from what is left to what has been sent.\<close>

definition tx_moves :: "'u hdlc_ll \<Rightarrow> 'u hdlc_ll \<Rightarrow> bool" where
  "tx_moves h h' \<longleftrightarrow> tx_wf h' \<and> tx_out h' @ tx_remaining h' = tx_out h @ tx_remaining h
     \<and> tx_out_len h' + length (tx_out h') = tx_out_len h + length (tx_out h)
     \<and> mem h' = mem h \<and> crc_type h' = crc_type h \<and> on_frame_send h' = on_frame_send h"

lemma send_start_eq:
  assumes "tx_origin h \<noteq> 0" "tx_out_len h \<noteq> 0"
  shows "hdlc_ll_send_start h =
    (1, h\<lparr>tx_crc := (if fcs_len (crc_type h) = 0 \<or> crc_type h = HDLC_CRC_OFF then tx_crc h
                     else fcs_value (crc_type h) (bytes_at (mem h) (tx_data h) (tx_len h))),
          tx_out := tx_out h @ [FLAG_SEQUENCE], tx_out_len := tx_out_len h - 1,
          tx_state := Send_data, tx_escape := False\<rparr>)"
  using assms by (cases "crc_type h") (simp_all add: hdlc_ll_send_start_def fcs_value_def fcs_len_def Let_def)

lemma send_start_moves:
  assumes "tx_wf h" "tx_state h = Send_start" "tx_out_len h \<noteq> 0" "tx_origin h \<noteq> 0"
    "hdlc_ll_send_start h = (r, h')"
  shows "tx_moves h h' \<and> user_data h' = user_data h \<and> tx_remaining h' \<noteq> [] \<and>
    tx_frame h' = tx_frame h \<and> tx_origin h' = tx_origin h"
proof -
  have h': "h' = h\<lparr>tx_crc := (if fcs_len (crc_type h) = 0 \<or> crc_type h = HDLC_CRC_OFF then tx_crc h
                     else fcs_value (crc_type h) (bytes_at (mem h) (tx_data h) (tx_len h))),
          tx_out := tx_out h @ [FLAG_SEQUENCE], tx_out_len := tx_out_len h - 1,
          tx_state := Send_data, tx_escape := False\<rparr>"
    using send_start_eq [of h] assms by simp
  have "tx_data h = tx_origin h" "0 < tx_len h" "crc_type h \<noteq> HDLC_CRC_OFF"
    using assms by (simp_all add: tx_wf_def)
  then have "tx_wf h'" "tx_out h' @ tx_remaining h' = tx_out h @ tx_remaining h" "tx_remaining h' \<noteq> []"
    "tx_frame h' = tx_frame h" using assms
    by (simp_all add: h' tx_wf_def tx_remaining_def hdlc_encode_def fcs_bytes_def after_escape_def tx_frame_def)
  then show ?thesis using assms by (simp add: tx_moves_def) (simp add: h')
qed

lemma send_end_moves:
  assumes "tx_wf h" "tx_state h = Send_end" "tx_out_len h \<noteq> 0" "hdlc_ll_send_end h = (r, h')"
  shows "tx_moves h h' \<and> tx_remaining h' = [] \<and>
     user_data h' = (case on_frame_send h of None \<Rightarrow> user_data h
                     | Some f \<Rightarrow> f (user_data h) (tx_origin h) (tx_frame h))"
  using assms
  by (auto simp: hdlc_ll_send_end_def tx_wf_def tx_moves_def tx_remaining_def tx_frame_def
        Let_def split: option.splits)

lemma crc_val_fcs_len: "crc \<noteq> HDLC_CRC_OFF \<Longrightarrow> hdlc_crc_val crc = 8 * int (fcs_len crc)"
  by (cases crc) (simp_all add: fcs_len_def)

lemma send_crc_moves:
  assumes wf: "tx_wf h" and st: "tx_state h = Send_crc" "tx_out_len h \<noteq> 0" "hdlc_ll_send_crc h = (r, h')"
  shows "tx_moves h h' \<and> user_data h' = user_data h \<and> tx_remaining h' \<noteq> [] \<and>
    tx_frame h' = tx_frame h \<and> tx_origin h' = tx_origin h"
proof -
  define k where "k = tx_len h div 8"
  define n where "n = fcs_len (crc_type h)"
  define b :: u8 where "b = ucast (drop_bit (tx_len h) (tx_crc h))"
  have len: "tx_len h = 8 * k" and "k \<le> n"
    using wf st by (auto simp: tx_wf_def k_def n_def)
  have val: "hdlc_crc_val (crc_type h) = 8 * int n"
    using wf by (simp add: tx_wf_def n_def crc_val_fcs_len)
  have bk: "ucast (drop_bit (8 * k) (tx_crc h)) = b"
    by (simp add: b_def len)
  consider (fin) "k = n" | (plain) "k < n" "\<not> special b"
    | (esc) "k < n" "special b" "\<not> tx_escape h" | (esc2) "k < n" "special b" "tx_escape h"
    using \<open>k \<le> n\<close> by linarith
  then show ?thesis
  proof cases
    case fin
    then have h': "h' = h\<lparr>tx_state := Send_end\<rparr>"
      using st val len by (simp add: hdlc_ll_send_crc_def)
    show ?thesis using wf st fin len
      by (simp add: h' tx_wf_def tx_moves_def tx_remaining_def tx_frame_def after_escape_def n_def)
  next
    case plain
    have crc: "crc_bytes k n (tx_crc h) = b # crc_bytes (Suc k) n (tx_crc h)"
      using crc_bytes_Cons [OF plain(1)] by (simp add: bk)
    have h': "h' = h\<lparr>tx_out := tx_out h @ [b], tx_out_len := tx_out_len h - 1, tx_len := tx_len h + 8\<rparr>"
      using st val len plain by (simp add: hdlc_ll_send_crc_def special_def Let_def bk)
    show ?thesis using wf st plain len crc
      by (simp add: h' tx_wf_def tx_moves_def tx_remaining_def tx_frame_def after_escape_def
            stuff_def bk flip: n_def)
  next
    case esc
    have crc: "crc_bytes k n (tx_crc h) = b # crc_bytes (Suc k) n (tx_crc h)"
      using crc_bytes_Cons [OF esc(1)] by (simp add: bk)
    have h': "h' = h\<lparr>tx_out := tx_out h @ [TINY_ESCAPE_CHAR], tx_out_len := tx_out_len h - 1, tx_escape := True\<rparr>"
      using st val len esc by (auto simp add: hdlc_ll_send_crc_def special_def Let_def bk)
    show ?thesis using wf st esc len crc
      by (simp add: h' tx_wf_def tx_moves_def tx_remaining_def tx_frame_def after_escape_def
            stuff_def bk flip: n_def)
  next
    case esc2
    have crc: "crc_bytes k n (tx_crc h) = b # crc_bytes (Suc k) n (tx_crc h)"
      using crc_bytes_Cons [OF esc2(1)] by (simp add: bk)
    have h': "h' = h\<lparr>tx_out := tx_out h @ [b XOR TINY_ESCAPE_BIT], tx_out_len := tx_out_len h - 1,
        tx_escape := False, tx_len := tx_len h + 8\<rparr>"
      using st val len esc2 by (auto simp add: hdlc_ll_send_crc_def special_def Let_def bk)
    show ?thesis using wf st esc2 len crc
      by (simp add: h' tx_wf_def tx_moves_def tx_remaining_def tx_frame_def after_escape_def
            stuff_def bk flip: n_def)
  qed
qed

lemma send_data_moves:
  assumes wf: "tx_wf h" and st: "tx_state h = Send_data" "tx_out_len h \<noteq> 0" "hdlc_ll_send_data h = (r, h')"
  shows "tx_moves h h' \<and> user_data h' = user_data h \<and> tx_remaining h' \<noteq> [] \<and>
    tx_frame h' = tx_frame h \<and> tx_origin h' = tx_origin h"
proof -
  define pos where "pos = scan_plain (mem h) (tx_data h) (tx_len h) 0"
  have pos: "pos \<le> tx_len h" "\<forall>i<pos. \<not> special (mem h (tx_data h + i))"
    "pos < tx_len h \<Longrightarrow> special (mem h (tx_data h + pos))"
    using scan_plain_props [of 0 "tx_len h" "mem h" "tx_data h"] scan_plain_le [of 0 "tx_len h" "mem h" "tx_data h"]
    by (auto simp: pos_def)
  have org: "tx_origin h \<noteq> 0" "tx_origin h \<le> tx_data h" "0 < tx_len h" "crc_type h \<noteq> HDLC_CRC_OFF"
    "tx_escape h \<Longrightarrow> special (mem h (tx_data h))"
    using wf st by (auto simp: tx_wf_def)
  consider (plain) "0 < pos" | (esc) "pos = 0" "\<not> tx_escape h" | (esc2) "pos = 0" "tx_escape h"
    by blast
  then show ?thesis
  proof cases
    case plain
    define n where "n = min pos (tx_out_len h)"
    have n: "0 < n" "n \<le> pos" "n \<le> tx_len h" using plain st pos by (auto simp: n_def)
    have "\<not> special (mem h (tx_data h + 0))" using pos(2) plain by blast
    then have esc: "\<not> tx_escape h" using org by auto
    have split: "bytes_at (mem h) (tx_data h) (tx_len h) =
        bytes_at (mem h) (tx_data h) n @ bytes_at (mem h) (tx_data h + n) (tx_len h - n)"
      using n by (intro bytes_at_split) simp
    have sent: "stuffing (bytes_at (mem h) (tx_data h) n) = bytes_at (mem h) (tx_data h) n"
      using pos(2) n by (intro stuffing_bytes_at_plain) auto
    define h1 where "h1 = h\<lparr>tx_out := tx_out h @ bytes_at (mem h) (tx_data h) n,
        tx_out_len := tx_out_len h - n, tx_data := tx_data h + n, tx_len := tx_len h - n\<rparr>"
    have h'1: "h' = (if tx_len h \<le> n then h1\<lparr>tx_state := Send_crc\<rparr> else h1)"
      using st plain n(1) n(2) by (auto simp: hdlc_ll_send_data_def send_internal_eq take_bytes_at Let_def h1_def simp flip: pos_def n_def)
    note h' = h'1 h1_def
    have "tx_frame h' = tx_frame h"
      using org n by (simp add: h' tx_frame_def st)
    moreover have "tx_wf h'" using org n esc st by (simp add: h' tx_wf_def)
    moreover have "tx_out h' @ tx_remaining h' = tx_out h @ tx_remaining h"
      using st n esc split sent by (simp add: h' tx_remaining_def after_escape_def)
    moreover have "tx_remaining h' \<noteq> []" using st by (simp add: h' tx_remaining_def)
    ultimately show ?thesis using n by (simp add: tx_moves_def) (simp add: h' n_def)
  next
    case esc
    then have sp: "special (mem h (tx_data h))" using pos(3) org by simp
    have h': "h' = h\<lparr>tx_out := tx_out h @ [TINY_ESCAPE_CHAR], tx_out_len := tx_out_len h - 1, tx_escape := True\<rparr>"
      using st esc org by (auto simp: hdlc_ll_send_data_def Let_def simp flip: pos_def)
    obtain k where "tx_len h = Suc k" using org by (cases "tx_len h") auto
    then show ?thesis using wf st esc sp org
      by (simp add: h' tx_wf_def tx_moves_def tx_remaining_def tx_frame_def after_escape_def stuff_def bytes_at_Suc)
  next
    case esc2
    then have sp: "special (mem h (tx_data h))" using org by simp
    obtain k where k: "tx_len h = Suc k" using org by (cases "tx_len h") auto
    define h1 where "h1 = h\<lparr>tx_out := tx_out h @ [mem h (tx_data h) XOR TINY_ESCAPE_BIT],
        tx_out_len := tx_out_len h - 1, tx_escape := False, tx_data := tx_data h + 1, tx_len := k\<rparr>"
    have pos0: "scan_plain (mem h) (tx_data h) (Suc k) 0 = 0"
      using esc2 k by (simp add: pos_def)
    have h'1: "h' = (if k = 0 then h1\<lparr>tx_state := Send_crc\<rparr> else h1)"
      using st esc2 k pos0 by (auto simp: hdlc_ll_send_data_def Let_def h1_def)
    note h' = h'1 h1_def
    show ?thesis using wf st esc2 sp org k
      by (simp add: h' tx_wf_def tx_moves_def tx_remaining_def tx_frame_def after_escape_def stuff_def bytes_at_Suc Suc_diff_le)
  qed
qed

text \<open>The transmit loop: as many of the remaining bytes as fit, and the callback with the last one.\<close>

definition tx_notify :: "'u hdlc_ll \<Rightarrow> 'u" where
  "tx_notify h = (case on_frame_send h of None \<Rightarrow> user_data h
                  | Some f \<Rightarrow> f (user_data h) (tx_origin h) (tx_frame h))"

lemma tx_remaining_eq_Nil_iff: "tx_remaining h = [] \<longleftrightarrow> tx_state h = Send_start \<and> tx_origin h = 0"
  by (auto simp: tx_remaining_def hdlc_encode_def split: tx_fn.splits)

lemma tx_dispatch_moves:
  assumes "tx_wf h" "tx_out_len h \<noteq> 0" "tx_remaining h \<noteq> []" "tx_dispatch h = (r, h')"
  shows "tx_moves h h' \<and>
    (if tx_remaining h' = [] then user_data h' = tx_notify h
     else user_data h' = user_data h \<and> tx_notify h' = tx_notify h)"
proof (cases "tx_state h")
  case Send_end
  then show ?thesis using assms send_end_moves [of h r h']
    by (simp add: tx_dispatch_def tx_notify_def)
next
  case Send_start
  then show ?thesis using assms send_start_moves [of h r h']
    by (simp add: tx_dispatch_def tx_notify_def tx_remaining_eq_Nil_iff [of h])
      (simp add: tx_moves_def split: option.split)
next
  case Send_data
  then show ?thesis using assms send_data_moves [of h r h']
    by (simp add: tx_dispatch_def tx_notify_def) (simp add: tx_moves_def split: option.split)
next
  case Send_crc
  then show ?thesis using assms send_crc_moves [of h r h']
    by (simp add: tx_dispatch_def tx_notify_def) (simp add: tx_moves_def split: option.split)
qed

lemma tx_moves_split:
  assumes "tx_moves h h'" "tx_out_len h' \<le> tx_out_len h"
  obtains d where "d \<le> tx_out_len h" "d \<le> length (tx_remaining h)" "tx_out_len h' = tx_out_len h - d"
    "tx_out h' = tx_out h @ take d (tx_remaining h)" "tx_remaining h' = drop d (tx_remaining h)"
proof
  define d where "d = tx_out_len h - tx_out_len h'"
  have eq: "tx_out h' @ tx_remaining h' = tx_out h @ tx_remaining h"
    and len: "length (tx_out h') = length (tx_out h) + d"
    using assms by (auto simp: tx_moves_def d_def)
  have "length (tx_out h' @ tx_remaining h') = length (tx_out h @ tx_remaining h)" by (simp only: eq)
  then show "d \<le> length (tx_remaining h)" using len by simp
  show "d \<le> tx_out_len h" "tx_out_len h' = tx_out_len h - d" using assms by (auto simp: d_def)
  show "tx_out h' = tx_out h @ take d (tx_remaining h)"
    using arg_cong [OF eq, of "take (length (tx_out h'))"] len by simp
  show "tx_remaining h' = drop d (tx_remaining h)"
    using arg_cong [OF eq, of "drop (length (tx_out h'))"] len by simp
qed

lemma tx_dispatch_result:
  assumes "tx_wf h" "tx_out_len h \<noteq> 0" "tx_remaining h \<noteq> []" "tx_dispatch h = (r, h')"
  shows "0 < r"
proof (cases "tx_state h = Send_start")
  case True
  then show ?thesis using assms send_start_eq [of h]
    by (simp add: tx_dispatch_def tx_remaining_eq_Nil_iff)
next
  case False
  then show ?thesis using assms hdlc_ll_send_data_progress [of h r h']
    by (auto simp: tx_dispatch_def hdlc_ll_send_crc_def hdlc_ll_send_end_def Let_def
        split: tx_fn.splits if_splits option.splits)
qed

lemma run_tx_loop_spec:
  assumes "tx_wf h"
  shows "let h' = run_tx_loop h rep; k = min (tx_out_len h) (length (tx_remaining h)) in
    tx_wf h' \<and> tx_out h' = tx_out h @ take k (tx_remaining h) \<and> tx_remaining h' = drop k (tx_remaining h)
    \<and> tx_out_len h' = tx_out_len h - k
    \<and> mem h' = mem h \<and> crc_type h' = crc_type h \<and> on_frame_send h' = on_frame_send h
    \<and> (if tx_remaining h' = [] \<and> tx_remaining h \<noteq> [] then user_data h' = tx_notify h
       else user_data h' = user_data h \<and> (tx_remaining h' \<noteq> [] \<longrightarrow> tx_notify h' = tx_notify h))"
  using assms
proof (induction h rep rule: run_tx_loop.induct)
  case (1 h rep)
  show ?case
  proof (cases "tx_out_len h = 0")
    case True
    then show ?thesis using "1.prems" by (simp add: run_tx_loop.simps [of h])
  next
    case room: False
    obtain r h1 where d: "tx_dispatch h = (r, h1)" by fastforce
    show ?thesis
    proof (cases "tx_remaining h = []")
      case True
      then have "r = 0" "h1 = h" using d room
        by (auto simp: tx_remaining_eq_Nil_iff tx_dispatch_def hdlc_ll_send_start_def)
      then show ?thesis using "1.prems" "1.IH"(1) [of r h1] d room True
        by (cases rep) (simp_all add: run_tx_loop.simps [of h])
    next
      case False
      note m = tx_dispatch_moves [OF "1.prems" room False d]
      have p: "0 < r" "tx_out_len h1 \<le> tx_out_len h"
        using tx_dispatch_progress [OF room d] tx_dispatch_result [OF "1.prems" room False d] by auto
      then have loop: "run_tx_loop h rep = run_tx_loop h1 False"
        using d room by (simp add: run_tx_loop.simps [of h])
      obtain e where e: "e \<le> tx_out_len h" "e \<le> length (tx_remaining h)" "tx_out_len h1 = tx_out_len h - e"
        "tx_out h1 = tx_out h @ take e (tx_remaining h)" "tx_remaining h1 = drop e (tx_remaining h)"
        using tx_moves_split m p by blast
      define k where "k = min (tx_out_len h) (length (tx_remaining h))"
      define k1 where "k1 = min (tx_out_len h1) (length (tx_remaining h1))"
      have k: "k = e + k1" using e by (auto simp: k_def k1_def min_def)
      have fields: "tx_wf h1" "mem h1 = mem h" "crc_type h1 = crc_type h" "on_frame_send h1 = on_frame_send h"
        using m by (simp_all add: tx_moves_def)
      note ih = "1.IH"(2) [OF room d [symmetric] _ _ fields(1), folded k1_def]
      have "\<not> r < 0" "r \<noteq> 0" using p by auto
      note ih = ih [OF this, unfolded Let_def, folded k1_def]
      show ?thesis unfolding Let_def k_def [symmetric] loop
        using ih m e fields False by (auto simp: k take_add add.commute split: if_splits)
    qed
  qed
qed

text \<open>
  One call of \<open>hdlc_ll_run_tx\<close>: it returns, and has written to the buffer, as many of the remaining
  bytes as there is room for; the rest is what remains. \<open>on_frame_send\<close> is called exactly when the
  last byte has been written, once, with the address and the bytes of the frame.
\<close>

lemma hdlc_ll_run_tx_spec:
  assumes "tx_wf h" "hdlc_ll_run_tx h n = (r, h')"
  shows "r = int (min n (length (tx_remaining h)))"
    and "tx_out h' = take n (tx_remaining h)"
    and "tx_remaining h' = drop n (tx_remaining h)"
    and "tx_wf h'"
    and "mem h' = mem h" and "crc_type h' = crc_type h" and "on_frame_send h' = on_frame_send h"
    and "tx_remaining h \<noteq> [] \<Longrightarrow> tx_remaining h' = [] \<Longrightarrow> user_data h' = tx_notify h"
    and "tx_remaining h = [] \<or> tx_remaining h' \<noteq> [] \<Longrightarrow> user_data h' = user_data h"
    and "tx_remaining h' \<noteq> [] \<Longrightarrow> tx_notify h' = tx_notify h"
proof -
  define h0 where "h0 = h\<lparr>tx_out := [], tx_out_len := n\<rparr>"
  have same: "tx_wf h0" "tx_remaining h0 = tx_remaining h" "mem h0 = mem h" "crc_type h0 = crc_type h"
    "on_frame_send h0 = on_frame_send h" "user_data h0 = user_data h" "tx_notify h0 = tx_notify h"
    "tx_out h0 = []" "tx_out_len h0 = n"
    using assms(1) by (cases "tx_state h"; simp add: h0_def tx_wf_def tx_remaining_def tx_notify_def tx_frame_def split: option.split)+
  have h': "h' = run_tx_loop h0 False" and r: "r = int n - int (tx_out_len h')"
    using assms(2) by (auto simp: hdlc_ll_run_tx_def Let_def h0_def)
  note s = run_tx_loop_spec [OF same(1), of False, unfolded Let_def, folded h', unfolded same]
  show "r = int (min n (length (tx_remaining h)))" using s r by simp
  show "tx_out h' = take n (tx_remaining h)" using s by (simp add: min_def)
  show "tx_remaining h' = drop n (tx_remaining h)" using s by (simp add: min_def)
  show "tx_wf h'" "mem h' = mem h" "crc_type h' = crc_type h" "on_frame_send h' = on_frame_send h"
    using s by simp_all
  show "tx_remaining h \<noteq> [] \<Longrightarrow> tx_remaining h' = [] \<Longrightarrow> user_data h' = tx_notify h"
    "tx_remaining h = [] \<or> tx_remaining h' \<noteq> [] \<Longrightarrow> user_data h' = user_data h"
    "tx_remaining h' \<noteq> [] \<Longrightarrow> tx_notify h' = tx_notify h"
    using s by (auto split: if_splits)
qed

subsection \<open>A frame sent through any sequence of buffers\<close>

text \<open>Calls of \<open>hdlc_ll_run_tx\<close> with buffers of the given sizes; the bytes they produce in order.\<close>

fun tx_stream :: "'u hdlc_ll \<Rightarrow> nat list \<Rightarrow> u8 list \<times> 'u hdlc_ll" where
  "tx_stream h [] = ([], h)"
| "tx_stream h (n # ns) =
     (let (r, h) = hdlc_ll_run_tx h n;
          (out, h') = tx_stream h ns
      in (tx_out h @ out, h'))"

lemma tx_stream_spec:
  assumes "tx_wf h" "tx_stream h ns = (out, h')"
  shows "out = take (sum_list ns) (tx_remaining h) \<and> tx_remaining h' = drop (sum_list ns) (tx_remaining h)
    \<and> tx_wf h' \<and> mem h' = mem h \<and> crc_type h' = crc_type h \<and> on_frame_send h' = on_frame_send h
    \<and> (if tx_remaining h \<noteq> [] \<and> tx_remaining h' = [] then user_data h' = tx_notify h
       else user_data h' = user_data h)"
  using assms
proof (induction ns arbitrary: h out)
  case Nil
  then show ?case by simp
next
  case (Cons n ns)
  obtain r h1 where r1: "hdlc_ll_run_tx h n = (r, h1)" by fastforce
  obtain o1 where o1: "tx_stream h1 ns = (o1, h')" and out: "out = tx_out h1 @ o1"
    using Cons.prems(2) r1 by (auto split: prod.splits)
  note s = hdlc_ll_run_tx_spec [OF Cons.prems(1) r1]
  note ih = Cons.IH [OF s(4) o1]
  show ?case
    using ih s(2,3,5-10) by (auto simp: out take_add add.commute split: if_splits)
qed

lemma put_frame_ready:
  assumes "tx_state h = Send_start" "tx_origin h = 0" "crc_type h \<noteq> HDLC_CRC_OFF" "p \<noteq> 0" "0 < n"
    and "hdlc_ll_put_frame h p n = (r, h1)"
  shows "r = TINY_SUCCESS" "tx_wf h1" "user_data h1 = user_data h" "on_frame_send h1 = on_frame_send h"
    "tx_remaining h1 = hdlc_encode (crc_type h) (bytes_at (mem h) p n)"
    "tx_notify h1 = (case on_frame_send h of None \<Rightarrow> user_data h
                     | Some f \<Rightarrow> f (user_data h) p (bytes_at (mem h) p n))"
proof -
  have h1: "h1 = h\<lparr>tx_origin := p, tx_data := p, tx_len := n\<rparr>" and r: "r = TINY_SUCCESS"
    using assms by (auto simp: hdlc_ll_put_frame_def)
  show "tx_notify h1 = (case on_frame_send h of None \<Rightarrow> user_data h
                     | Some f \<Rightarrow> f (user_data h) p (bytes_at (mem h) p n))"
    using assms by (simp add: h1 tx_notify_def tx_frame_def split: option.split)
  show "r = TINY_SUCCESS" "tx_wf h1" "user_data h1 = user_data h" "on_frame_send h1 = on_frame_send h"
    "tx_remaining h1 = hdlc_encode (crc_type h) (bytes_at (mem h) p n)"
    using assms r by (simp_all add: h1 tx_wf_def tx_remaining_def)
qed

lemma hdlc_encode_not_Nil [simp]: "hdlc_encode crc bs \<noteq> []"
  by (simp add: hdlc_encode_def)

text \<open>
  A frame handed to an idle transmitter comes out, byte for byte, as the reference encoding
  (flag, stuffed payload and check sequence, flag), whatever the sizes of the buffers it is fetched
  with: the bytes produced are the longest prefix of the encoding that fits them. \<open>on_frame_send\<close> is
  called once, with the frame's address and bytes, when the last byte is out and not before, and the
  transmitter is then idle again.
\<close>

theorem hdlc_ll_transmit_frame:
  assumes "tx_state h = Send_start" "tx_origin h = 0" "crc_type h \<noteq> HDLC_CRC_OFF"
    and "p \<noteq> 0" "0 < n"
    and "hdlc_ll_put_frame h p n = (r, h1)" "tx_stream h1 sizes = (out, h2)"
  defines "code \<equiv> hdlc_encode (crc_type h) (bytes_at (mem h) p n)"
  shows "r = TINY_SUCCESS \<and> out = take (sum_list sizes) code
    \<and> (if length code \<le> sum_list sizes
       then tx_state h2 = Send_start \<and> tx_origin h2 = 0
         \<and> user_data h2 = (case on_frame_send h of None \<Rightarrow> user_data h
                           | Some f \<Rightarrow> f (user_data h) p (bytes_at (mem h) p n))
       else user_data h2 = user_data h)"
proof -
  note ready = put_frame_ready [OF assms(1-6)]
  show ?thesis
    using tx_stream_spec [OF ready(2) assms(7), unfolded ready] tx_remaining_eq_Nil_iff [of h2] ready(1)
    by (simp add: code_def split: if_splits)
qed

text \<open>A handle for the concrete instances: the frames received and sent are logged in \<open>user_data\<close>.\<close>

definition demo_ll :: "u8 list list hdlc_ll" where
  "demo_ll = \<lparr>mem = (\<lambda>a. if a = 17 then 0x7D else of_nat a), on_frame_read = Some (\<lambda>u f. u @ [f]),
     on_frame_send = Some (\<lambda>u p f. u @ [f]), rx_buf = 64, rx_buf_size = 16, crc_type = HDLC_CRC_8,
     user_data = [], phys_mtu = 8, rx_state = Read_start, rx_ptr = 64, rx_escape = False, rx_active = 64,
     tx_state = Send_start, tx_out = [], tx_out_len = 0, tx_origin = 0, tx_data = 0, tx_len = 0,
     tx_crc = 0, tx_escape = False\<rparr>"

lemma demo_frame: "bytes_at (mem demo_ll) 16 3 = [0x10, 0x7D, 0x12]"
  by (simp add: bytes_at_def demo_ll_def upt_rec numeral_eq_Suc)

lemma demo_code: "hdlc_encode HDLC_CRC_8 [0x10, 0x7D, 0x12] = [0x7E, 0x10, 0x7D, 0x5D, 0x12, 0x60, 0x7E]"
  by code_simp

theorem hdlc_ll_transmit_frame_witness:
  "\<exists>h1 h2. hdlc_ll_put_frame demo_ll 16 3 = (TINY_SUCCESS, h1)
     \<and> tx_stream h1 [3, 0, 2, 5] = ([0x7E, 0x10, 0x7D, 0x5D, 0x12, 0x60, 0x7E], h2)
     \<and> user_data h2 = [[0x10, 0x7D, 0x12]]"
proof -
  obtain r h1 where put: "hdlc_ll_put_frame demo_ll 16 3 = (r, h1)" by fastforce
  obtain out h2 where run: "tx_stream h1 [3, 0, 2, 5] = (out, h2)" by fastforce
  have "tx_state demo_ll = Send_start" "tx_origin demo_ll = 0" "crc_type demo_ll = HDLC_CRC_8"
    "user_data demo_ll = []" "on_frame_send demo_ll = Some (\<lambda>u p f. u @ [f])"
    by (simp_all add: demo_ll_def)
  then show ?thesis
    using hdlc_ll_transmit_frame [of demo_ll 16 3 r h1 "[3, 0, 2, 5]" out h2] put run
    by (simp add: demo_frame demo_code)
qed

end
