(* ===== verification/HdlcRx.thy ===== *)
theory HdlcRx
  imports HdlcTx
begin

unbundle bit_operations_syntax

section \<open>The receive side implements the reference decoder\<close>

text \<open>
  A reference decoder that reads one byte at a time (\<open>rx_byte\<close>), the view of the receiver's state as
  a state of that decoder (\<open>rx_view\<close>), and the refinement: whatever chunks the bytes arrive in,
  \<open>hdlc_ll_run_rx\<close> delivers and rejects the frames that the reference decoder delivers and rejects.
  The invariant \<open>rx_wf\<close> is what keeps every write inside the receive buffer.
\<close>

subsection \<open>The reference decoder\<close>

datatype rx_view = Hunting | Collecting "u8 list" bool
datatype rx_event = Delivered "u8 list" | Rejected "u8 list"

text \<open>The payload of a received frame (payload and check sequence) that passes the check.\<close>

definition frame_payload :: "hdlc_crc_t \<Rightarrow> u8 list \<Rightarrow> u8 list option" where
  "frame_payload crc frame =
     (if length frame < fcs_len crc then None
      else case frame_crcs crc frame of (calc_crc, read_crc) \<Rightarrow>
        if calc_crc \<noteq> read_crc then None else Some (take (length frame - fcs_len crc) frame))"

definition frame_event :: "hdlc_crc_t \<Rightarrow> u8 list \<Rightarrow> rx_event" where
  "frame_event crc frame =
     (case frame_payload crc frame of None \<Rightarrow> Rejected frame | Some payload \<Rightarrow> Delivered payload)"

fun rx_byte :: "hdlc_crc_t \<Rightarrow> nat \<Rightarrow> rx_view \<Rightarrow> u8 \<Rightarrow> rx_view \<times> rx_event list" where
  "rx_byte crc mtu Hunting b = (if b = FLAG_SEQUENCE then Collecting [] False else Hunting, [])"
| "rx_byte crc mtu (Collecting acc esc) b =
     (if b = FLAG_SEQUENCE
      then (if acc = [] then (Collecting [] False, []) else (Hunting, [frame_event crc acc]))
      else if b = TINY_ESCAPE_CHAR then (Collecting acc True, [])
      else if length acc < mtu
      then (Collecting (acc @ [if esc then b XOR TINY_ESCAPE_BIT else b]) False, [])
      else (Collecting acc esc, []))"

fun rx_bytes :: "hdlc_crc_t \<Rightarrow> nat \<Rightarrow> rx_view \<Rightarrow> u8 list \<Rightarrow> rx_view \<times> rx_event list" where
  "rx_bytes crc mtu v [] = (v, [])"
| "rx_bytes crc mtu v (b # bs) =
     (case rx_byte crc mtu v b of (v1, e1) \<Rightarrow>
        case rx_bytes crc mtu v1 bs of (v2, e2) \<Rightarrow> (v2, e1 @ e2))"

lemma rx_bytes_append:
  "rx_bytes crc mtu v (xs @ ys) =
     (case rx_bytes crc mtu v xs of (v1, e1) \<Rightarrow>
        case rx_bytes crc mtu v1 ys of (v2, e2) \<Rightarrow> (v2, e1 @ e2))"
  by (induction xs arbitrary: v) (simp_all split: prod.splits)

text \<open>What the application sees of a list of events.\<close>

fun delivered :: "rx_event list \<Rightarrow> u8 list list" where
  "delivered [] = []"
| "delivered (Delivered p # es) = p # delivered es"
| "delivered (Rejected f # es) = delivered es"

lemma delivered_append [simp]: "delivered (xs @ ys) = delivered xs @ delivered ys"
  by (induction xs rule: delivered.induct) simp_all

definition notify_frames :: "('u \<Rightarrow> u8 list \<Rightarrow> 'u) option \<Rightarrow> u8 list list \<Rightarrow> 'u \<Rightarrow> 'u" where
  "notify_frames cb ps u = (case cb of None \<Rightarrow> u | Some f \<Rightarrow> fold (\<lambda>p u. f u p) ps u)"

lemma notify_frames_simps [simp]:
  "notify_frames cb [] u = u"
  "notify_frames cb (xs @ ys) u = notify_frames cb ys (notify_frames cb xs u)"
  by (simp_all add: notify_frames_def split: option.split)

subsection \<open>The invariant and the view\<close>

definition rx_wf :: "'u hdlc_ll \<Rightarrow> bool" where
  "rx_wf h \<longleftrightarrow> crc_type h \<noteq> HDLC_CRC_OFF \<and> 0 < phys_mtu h \<and> rx_buf h \<le> rx_active h
     \<and> int (rx_active h) + phys_mtu h \<le> int (rx_buf h) + rx_buf_size h
     \<and> (rx_state h \<noteq> Read_start \<longrightarrow> rx_active h \<le> rx_ptr h \<and> int (rx_ptr h) \<le> int (rx_active h) + phys_mtu h)"

definition rx_frame :: "'u hdlc_ll \<Rightarrow> u8 list" where
  "rx_frame h = bytes_at (mem h) (rx_active h) (rx_ptr h - rx_active h)"

definition rx_view :: "'u hdlc_ll \<Rightarrow> rx_view" where
  "rx_view h = (if rx_state h = Read_start then Hunting else Collecting (rx_frame h) (rx_escape h))"

text \<open>
  What the receive functions change: their own fields, \<open>user_data\<close> through the callback, and memory
  inside the receive buffer.
\<close>

definition rx_only :: "'u hdlc_ll \<Rightarrow> 'u hdlc_ll \<Rightarrow> bool" where
  "rx_only h h' \<longleftrightarrow>
     h' = h\<lparr>mem := mem h', user_data := user_data h', rx_state := rx_state h', rx_ptr := rx_ptr h',
           rx_escape := rx_escape h', rx_active := rx_active h'\<rparr>
     \<and> (\<forall>a. a < rx_buf h \<or> int (rx_buf h) + rx_buf_size h \<le> int a \<longrightarrow> mem h' a = mem h a)"

lemma rx_only_refl [simp]: "rx_only h h"
  by (simp add: rx_only_def)

lemma rx_only_fields:
  assumes "rx_only h h'"
  shows "on_frame_read h' = on_frame_read h" "on_frame_send h' = on_frame_send h" "rx_buf h' = rx_buf h"
    "rx_buf_size h' = rx_buf_size h" "crc_type h' = crc_type h" "phys_mtu h' = phys_mtu h"
    "tx_state h' = tx_state h" "tx_out h' = tx_out h" "tx_out_len h' = tx_out_len h"
    "tx_origin h' = tx_origin h" "tx_data h' = tx_data h" "tx_len h' = tx_len h" "tx_crc h' = tx_crc h"
    "tx_escape h' = tx_escape h"
  using assms unfolding rx_only_def by (cases h, cases h', simp)+

lemma rx_only_trans [trans]:
  assumes "rx_only h h'" "rx_only h' h''"
  shows "rx_only h h''"
  using assms rx_only_fields [OF assms(1)]
  by (cases h, cases h', cases h'') (auto simp: rx_only_def)

subsection \<open>The states refine the decoder\<close>

lemma read_data_byte_refines:
  assumes "rx_wf h" "rx_state h = Read_data" "b \<noteq> FLAG_SEQUENCE"
  defines "h' \<equiv> read_data_byte h b"
  shows "rx_wf h'" and "rx_state h' = Read_data" and "rx_only h h'" and "user_data h' = user_data h"
    and "rx_byte (crc_type h) (nat (phys_mtu h)) (rx_view h) b = (rx_view h', [])"
proof -
  note wf = assms(1) [unfolded rx_wf_def]
  consider (esc) "b = TINY_ESCAPE_CHAR"
    | (store) "b \<noteq> TINY_ESCAPE_CHAR" "int (rx_ptr h) - int (rx_active h) < phys_mtu h"
    | (full) "b \<noteq> TINY_ESCAPE_CHAR" "\<not> int (rx_ptr h) - int (rx_active h) < phys_mtu h"
    by blast
  then have "rx_wf h' \<and> rx_state h' = Read_data \<and> rx_only h h' \<and> user_data h' = user_data h
    \<and> rx_byte (crc_type h) (nat (phys_mtu h)) (rx_view h) b = (rx_view h', [])"
  proof cases
    case esc
    then have h': "h' = h\<lparr>rx_escape := True\<rparr>" by (simp add: h'_def read_data_byte_def)
    then show ?thesis using wf assms(2,3) esc
      by (simp add: rx_wf_def rx_only_def rx_view_def rx_frame_def)
  next
    case store
    define c where "c = (if rx_escape h then b XOR TINY_ESCAPE_BIT else b)"
    have h': "h' = h\<lparr>mem := (mem h)(rx_ptr h := c), rx_escape := False, rx_ptr := rx_ptr h + 1\<rparr>"
      using store by (cases h) (simp add: h'_def read_data_byte_def c_def)
    have le: "rx_active h \<le> rx_ptr h" using wf assms(2) by simp
    have fr: "rx_frame h' = rx_frame h @ [c]"
      using le by (auto simp: h' rx_frame_def Suc_diff_le bytes_at_def)
    have "rx_wf h'" using wf assms(2) store by (simp add: h' rx_wf_def)
    moreover have "rx_only h h'" using wf assms(2) store by (simp add: h' rx_only_def)
    moreover have "length (rx_frame h) < nat (phys_mtu h)" using store le by (simp add: rx_frame_def nat_less_iff [symmetric])
    then have "rx_byte (crc_type h) (nat (phys_mtu h)) (rx_view h) b = (rx_view h', [])"
      using assms(2,3) store fr by (simp add: rx_view_def c_def) (simp add: h')
    ultimately show ?thesis using assms(2) by (simp add: h')
  next
    case full
    then have h': "h' = h" by (simp add: h'_def read_data_byte_def)
    have "\<not> length (rx_frame h) < nat (phys_mtu h)" using full wf assms(2) by (auto simp: rx_frame_def)
    then show ?thesis using assms full by (simp add: h' rx_view_def)
  qed
  then show "rx_wf h'" and "rx_state h' = Read_data" and "rx_only h h'" and "user_data h' = user_data h"
    and "rx_byte (crc_type h) (nat (phys_mtu h)) (rx_view h) b = (rx_view h', [])"
    by simp_all
qed

text \<open>
  Reading a chunk stops behind the first flag. \<open>h1\<close> is the state before the flag is processed.
\<close>

lemma read_data_refines:
  assumes "rx_wf h" "rx_state h = Read_data" "hdlc_ll_read_data h data = (r, h')"
  shows "\<exists>h1 k. k \<le> length data \<and> rx_wf h1 \<and> rx_state h1 = Read_data \<and> rx_only h h1 \<and> user_data h1 = user_data h
    \<and> rx_bytes (crc_type h) (nat (phys_mtu h)) (rx_view h) (take k data) = (rx_view h1, [])
    \<and> (k = length data \<and> r = int k \<and> h' = h1
       \<or> k < length data \<and> data ! k = FLAG_SEQUENCE \<and> r = int k + 1 \<and> h' = h1\<lparr>rx_state := Read_end\<rparr>)"
  using assms
proof (induction h data arbitrary: r h' rule: hdlc_ll_read_data.induct)
  case (1 h)
  then show ?case by (intro exI [of _ h] exI [of _ 0]) simp
next
  case (2 h b bs)
  show ?case
  proof (cases "b = FLAG_SEQUENCE")
    case True
    then show ?thesis using "2.prems" by (intro exI [of _ h] exI [of _ 0]) auto
  next
    case False
    note byte = read_data_byte_refines [OF "2.prems"(1,2) False]
    obtain r1 where r1: "hdlc_ll_read_data (read_data_byte h b) bs = (r1, h')" "r = r1 + 1"
      using "2.prems"(3) False by (auto split: prod.splits)
    obtain h1 k where "k \<le> length bs" "rx_wf h1" "rx_state h1 = Read_data" "rx_only (read_data_byte h b) h1"
      "user_data h1 = user_data (read_data_byte h b)"
      "rx_bytes (crc_type (read_data_byte h b)) (nat (phys_mtu (read_data_byte h b)))
         (rx_view (read_data_byte h b)) (take k bs) = (rx_view h1, [])"
      "k = length bs \<and> r1 = int k \<and> h' = h1
       \<or> k < length bs \<and> bs ! k = FLAG_SEQUENCE \<and> r1 = int k + 1 \<and> h' = h1\<lparr>rx_state := Read_end\<rparr>"
      using "2.IH" [OF False byte(1,2) r1(1)] by blast
    then show ?thesis
      using byte(4,5) rx_only_trans [OF byte(3)] rx_only_fields [OF byte(3)] r1(2)
      by (intro exI [of _ h1] exI [of _ "Suc k"]) auto
  qed
qed

lemma fcs_len_eq: "crc \<noteq> HDLC_CRC_OFF \<Longrightarrow> hdlc_crc_val crc div 8 = int (fcs_len crc)"
  by (cases crc) (simp_all add: fcs_len_def)

definition rejects :: "rx_event list \<Rightarrow> bool" where
  "rejects es \<longleftrightarrow> list_ex (\<lambda>e. case e of Rejected f \<Rightarrow> True | Delivered p \<Rightarrow> False) es"

lemma rejects_simps [simp]:
  "\<not> rejects []" "rejects (xs @ ys) \<longleftrightarrow> rejects xs \<or> rejects ys"
  by (simp_all add: rejects_def)

lemma read_end_refines:
  assumes "rx_wf h" "rx_state h = Read_end" "hdlc_ll_read_end h = (r, h')"
    and "rx_byte (crc_type h) (nat (phys_mtu h)) (rx_view h) FLAG_SEQUENCE = (v, es)"
  shows "rx_wf h' \<and> rx_state h' \<noteq> Read_end \<and> rx_only h h' \<and> mem h' = mem h \<and> rx_view h' = v
    \<and> user_data h' = notify_frames (on_frame_read h) (delivered es) (user_data h)
    \<and> r = (if rejects es then TINY_ERR_WRONG_CRC else TINY_SUCCESS)"
proof (cases "rx_ptr h = rx_active h")
  case True
  then have h': "h' = h\<lparr>rx_escape := False, rx_state := Read_data\<rparr>" and r: "r = 0"
    using assms(3) by (auto simp: hdlc_ll_read_end_def)
  have "v = Collecting [] False" "es = []"
    using assms(2,4) True by (auto simp: rx_view_def rx_frame_def)
  then show ?thesis using assms(1,2) True r
    by (simp add: h' rx_wf_def rx_only_def rx_view_def rx_frame_def)
next
  case False
  define len where "len = rx_ptr h - rx_active h"
  define size where "size = fcs_len (crc_type h)"
  note wf = assms(1) [unfolded rx_wf_def]
  have len: "int (rx_ptr h) - int (rx_active h) = int len" "0 < len" "int len \<le> phys_mtu h"
    using wf assms(2) False by (simp_all add: len_def)
  have size: "hdlc_crc_val (crc_type h) div 8 = int size" using wf by (simp add: size_def fcs_len_eq)
  have frame: "rx_frame h = bytes_at (mem h) (rx_active h) len" by (simp add: rx_frame_def len_def)
  have ve: "v = Hunting" "es = [frame_event (crc_type h) (rx_frame h)]"
    using assms(2,4) len by (auto simp: rx_view_def frame)
  note eqs = hdlc_ll_read_end_def [of h] Let_def len(1) size
  show ?thesis
  proof (cases "frame_payload (crc_type h) (rx_frame h)")
    case None
    then have "h' = h\<lparr>rx_state := Read_start\<rparr> \<and> r = TINY_ERR_WRONG_CRC"
      using assms(3) len False by (auto simp: eqs frame frame_payload_def size_def [symmetric]
          split: if_splits prod.splits)
    then show ?thesis using wf None
      by (simp add: ve frame_event_def rx_wf_def rx_only_def rx_view_def rejects_def)
  next
    case (Some p)
    have ok: "fst (frame_crcs (crc_type h) (rx_frame h)) = snd (frame_crcs (crc_type h) (rx_frame h))"
      and sz: "size \<le> len" and p: "p = bytes_at (mem h) (rx_active h) (len - size)"
      using Some by (auto simp: frame_payload_def frame size_def take_bytes_at split: if_splits prod.splits)
    define act where "act = nat (int (rx_active h) + phys_mtu h)"
    have r: "r = TINY_SUCCESS" and h': "h' = h\<lparr>rx_state := Read_start,
        user_data := notify_frames (on_frame_read h) [p] (user_data h),
        rx_active := (if int act - int (rx_buf h) + phys_mtu h > rx_buf_size h then rx_buf h else act)\<rparr>"
      using assms(3) ok len sz False
      by (auto simp: eqs frame p notify_frames_def act_def nat_diff_distrib
          split: if_splits prod.splits option.splits)
    show ?thesis using wf Some r
      by (auto simp: h' ve frame_event_def rx_wf_def rx_only_def rx_view_def rejects_def act_def)
  qed
qed

subsection \<open>The receive loop\<close>

text \<open>
  Going from \<open>h\<close> to \<open>h'\<close>, the receiver has read the bytes \<open>bs\<close>, as the reference decoder reads them.
\<close>

definition rx_reads :: "'u hdlc_ll \<Rightarrow> u8 list \<Rightarrow> rx_event list \<Rightarrow> 'u hdlc_ll \<Rightarrow> bool" where
  "rx_reads h bs es h' \<longleftrightarrow> rx_wf h' \<and> rx_state h' \<noteq> Read_end \<and> rx_only h h'
     \<and> rx_bytes (crc_type h) (nat (phys_mtu h)) (rx_view h) bs = (rx_view h', es)
     \<and> user_data h' = notify_frames (on_frame_read h) (delivered es) (user_data h)"

lemma rx_reads_trans:
  assumes "rx_reads h xs es h1" "rx_reads h1 ys fs h2"
  shows "rx_reads h (xs @ ys) (es @ fs) h2"
  using assms rx_only_trans [of h h1 h2] rx_only_fields [of h h1]
  by (auto simp: rx_reads_def rx_bytes_append)

lemma run_rx_loop_reads:
  assumes "rx_wf h" "rx_state h \<noteq> Read_end" "run_rx_loop h data n 0 = (p, e, h')"
  shows "\<exists>k es. k \<le> length data \<and> (data \<noteq> [] \<longrightarrow> 0 < k) \<and> p = n + int k
    \<and> rx_reads h (take k data) es h' \<and> e = (if rejects es then TINY_ERR_WRONG_CRC else TINY_SUCCESS)"
  using assms
proof (induction "length data" arbitrary: h data n rule: less_induct)
  case less
  show ?case
  proof (cases data)
    case Nil
    then show ?thesis using less.prems
      by (intro exI [of _ 0] exI [of _ "[]"]) (simp add: run_rx_loop.simps [of h] rx_reads_def)
  next
    case (Cons b bs)
    obtain r h1 where d: "rx_dispatch h data = (r, h1)" by fastforce
    show ?thesis
    proof (cases "rx_state h")
      case Read_start
      have h1: "h1 = (if b \<noteq> FLAG_SEQUENCE then h
          else h\<lparr>rx_escape := False, rx_ptr := rx_active h, rx_state := Read_data\<rparr>)" and r: "r = 1"
        using d Read_start by (auto simp: rx_dispatch_def hdlc_ll_read_start_def Cons split: if_splits)
      have loop: "run_rx_loop h1 bs (n + 1) 0 = (p, e, h')"
        using less.prems(3) d r by (simp add: run_rx_loop.simps [of h] Cons)
      have first: "rx_reads h [b] [] h1"
        using less.prems(1) Read_start by (simp add: h1 rx_reads_def rx_wf_def rx_only_def rx_view_def rx_frame_def)
      then have "rx_wf h1" "rx_state h1 \<noteq> Read_end" by (simp_all add: rx_reads_def)
      from less.hyps [OF _ this loop] obtain k es where "k \<le> length bs" "p = n + 1 + int k"
        "rx_reads h1 (take k bs) es h'" "e = (if rejects es then TINY_ERR_WRONG_CRC else TINY_SUCCESS)"
        by (auto simp: Cons)
      then show ?thesis using rx_reads_trans [OF first, of "take k bs" es h']
        by (intro exI [of _ "Suc k"] exI [of _ es]) (simp add: Cons)
    next
      case Read_data
      then have "hdlc_ll_read_data h data = (r, h1)" using d by (simp add: rx_dispatch_def)
      from read_data_refines [OF less.prems(1) Read_data this] obtain g k where
        k: "k \<le> length data" and g: "rx_wf g" "rx_state g = Read_data" "rx_only h g" "user_data g = user_data h"
        "rx_bytes (crc_type h) (nat (phys_mtu h)) (rx_view h) (take k data) = (rx_view g, [])"
        and c: "k = length data \<and> r = int k \<and> h1 = g
          \<or> k < length data \<and> data ! k = FLAG_SEQUENCE \<and> r = int k + 1 \<and> h1 = g\<lparr>rx_state := Read_end\<rparr>"
        by blast
      have pre: "rx_reads h (take k data) [] g" using g by (simp add: rx_reads_def)
      from c show ?thesis
      proof
        assume c: "k = length data \<and> r = int k \<and> h1 = g"
        then have "(p, e, h') = (n + int k, 0, g)" using less.prems(3) d g(2)
          by (simp add: run_rx_loop.simps [of h] run_rx_loop.simps [of g] Cons)
        then show ?thesis using pre c by (intro exI [of _ k] exI [of _ "[]"]) (simp add: Cons)
      next
        assume c: "k < length data \<and> data ! k = FLAG_SEQUENCE \<and> r = int k + 1 \<and> h1 = g\<lparr>rx_state := Read_end\<rparr>"
        obtain v es where v: "rx_byte (crc_type h1) (nat (phys_mtu h1)) (rx_view h1) FLAG_SEQUENCE = (v, es)"
          by fastforce
        obtain r2 h2 where r2: "hdlc_ll_read_end h1 = (r2, h2)" by fastforce
        have h1: "rx_wf h1" "rx_state h1 = Read_end" "rx_only h h1" "rx_view h1 = rx_view g" "user_data h1 = user_data h"
          using c g by (simp_all add: rx_wf_def rx_only_def rx_view_def rx_frame_def) (cases h, cases g, simp)
        note re = read_end_refines [OF h1(1,2) r2 v]
        have "0 < r" "r2 \<le> 0" using c re by auto
        then have "run_rx_loop h data n 0 = run_rx_loop h1 (drop (nat r) data) (n + r) 0"
          using d by (simp add: run_rx_loop.simps [of h] Cons)
        moreover have "run_rx_loop h1 (drop (nat r) data) (n + r) 0 = (n + r, r2, h2)"
          using h1(2) r2 \<open>r2 \<le> 0\<close> by (simp add: run_rx_loop.simps [of h1] rx_dispatch_def)
        ultimately have "(p, e, h') = (n + r, r2, h2)" using less.prems(3) by simp
        moreover have "rx_reads h (take k data @ [FLAG_SEQUENCE]) es h2"
          using re g(5) v rx_only_trans [OF h1(3)] rx_only_fields [OF h1(3)] h1(4,5)
          by (simp add: rx_reads_def rx_bytes_append)
        ultimately show ?thesis using c re
          by (intro exI [of _ "Suc k"] exI [of _ es]) (simp add: take_Suc_conv_app_nth)
      qed
    next
      case Read_end
      then show ?thesis using less.prems by simp
    qed
  qed
qed

text \<open>Frames and chunks: the bytes are fed until all are processed, as \<open>tiny_fd_on_rx_data\<close> does it.\<close>

lemma hdlc_ll_run_rx_reads:
  assumes "rx_wf h" "rx_state h \<noteq> Read_end" "hdlc_ll_run_rx h data = (p, e, h')"
  obtains k es where "k \<le> length data" "data \<noteq> [] \<Longrightarrow> 0 < k" "p = int k"
    "rx_reads h (take k data) es h'" "e = (if rejects es then TINY_ERR_WRONG_CRC else TINY_SUCCESS)"
  using run_rx_loop_reads [of h data 0 p e h'] assms by (auto simp: hdlc_ll_run_rx_def)

function rx_feed :: "'u hdlc_ll \<Rightarrow> u8 list \<Rightarrow> 'u hdlc_ll" where
  "rx_feed h data =
     (if data = [] then h
      else case hdlc_ll_run_rx h data of (p, e, h') \<Rightarrow>
        if p \<le> 0 then h' else rx_feed h' (drop (nat p) data))"
  by pat_completeness auto
termination
  by (relation "measure (\<lambda>(h, data). length data)") auto

declare rx_feed.simps [simp del]

lemma rx_feed_reads:
  assumes "rx_wf h" "rx_state h \<noteq> Read_end"
  shows "\<exists>es. rx_reads h data es (rx_feed h data)"
  using assms
proof (induction h data rule: rx_feed.induct)
  case (1 h data)
  obtain p e h' where run: "hdlc_ll_run_rx h data = (p, e, h')" by (metis prod_cases3)
  show ?case
  proof (cases "data = []")
    case True
    then show ?thesis using "1.prems" by (auto simp: rx_feed.simps [of h] rx_reads_def)
  next
    case False
    obtain k es where k: "k \<le> length data" "0 < k" "p = int k" "rx_reads h (take k data) es h'"
      using hdlc_ll_run_rx_reads [OF "1.prems" run] False by metis
    then have "rx_wf h'" "rx_state h' \<noteq> Read_end" by (simp_all add: rx_reads_def)
    then obtain fs where "rx_reads h' (drop k data) fs (rx_feed h' (drop k data))"
      using "1.IH" [OF False run [symmetric] refl] k by fastforce
    then show ?thesis using rx_reads_trans [OF k(4)] False k run
      by (fastforce simp: rx_feed.simps [of h data])
  qed
qed

lemma rx_feed_chunks:
  assumes "rx_wf h" "rx_state h \<noteq> Read_end"
  shows "\<exists>es. rx_reads h (concat chunks) es (fold (\<lambda>chunk h. rx_feed h chunk) chunks h)"
  using assms
proof (induction chunks arbitrary: h)
  case Nil
  then show ?case by (auto simp: rx_reads_def)
next
  case (Cons c cs)
  obtain es where es: "rx_reads h c es (rx_feed h c)" using rx_feed_reads [OF Cons.prems] by blast
  then have "rx_wf (rx_feed h c)" "rx_state (rx_feed h c) \<noteq> Read_end" by (simp_all add: rx_reads_def)
  from Cons.IH [OF this] rx_reads_trans [OF es] show ?case by fastforce
qed

text \<open>
  Received bytes may arrive in any chunks. The frames handed to \<open>on_frame_read\<close>, in order, are
  those the reference decoder finds in the whole byte sequence; the state left is the state the
  reference decoder is in; and nothing outside the receive buffer, and no other field of the handle,
  has been written.
\<close>

theorem hdlc_ll_receive_chunks:
  assumes "rx_wf h" "rx_state h \<noteq> Read_end"
    and "rx_bytes (crc_type h) (nat (phys_mtu h)) (rx_view h) (concat chunks) = (v, es)"
  defines "h' \<equiv> fold (\<lambda>chunk h. rx_feed h chunk) chunks h"
  shows "user_data h' = notify_frames (on_frame_read h) (delivered es) (user_data h)
    \<and> rx_view h' = v \<and> rx_wf h' \<and> rx_state h' \<noteq> Read_end \<and> rx_only h h'"
  using rx_feed_chunks [OF assms(1,2), of chunks] assms(3) by (auto simp: rx_reads_def h'_def)

lemma demo_rx: "rx_wf demo_ll" "rx_state demo_ll \<noteq> Read_end" "rx_view demo_ll = Hunting"
  "crc_type demo_ll = HDLC_CRC_8" "nat (phys_mtu demo_ll) = 8" "user_data demo_ll = []"
  "on_frame_read demo_ll = Some (\<lambda>u f. u @ [f])" "phys_mtu demo_ll = 8"
  by (simp_all add: demo_ll_def rx_wf_def rx_view_def)

theorem hdlc_ll_receive_chunks_witness:
  "user_data (fold (\<lambda>chunk h. rx_feed h chunk) [[0, 0x7E, 0x10], [0x7D], [0x5D, 0x12, 0x60, 0x7E, 0x7E]] demo_ll)
     = [[0x10, 0x7D, 0x12]]"
proof -
  have "rx_bytes HDLC_CRC_8 8 Hunting (concat [[0, 0x7E, 0x10], [0x7D], [0x5D, 0x12, 0x60, 0x7E, 0x7E]])
      = (Collecting [] False, [Delivered [0x10, 0x7D, 0x12]])"
    by code_simp
  then show ?thesis
    using hdlc_ll_receive_chunks [of demo_ll "[[0, 0x7E, 0x10], [0x7D], [0x5D, 0x12, 0x60, 0x7E, 0x7E]]"]
    by (simp add: demo_rx notify_frames_def)
qed

text \<open>
  One call of \<open>hdlc_ll_run_rx\<close> on a non-empty chunk processes at least one byte and at most the
  chunk, so that the callers' loops end; the only error it can report is a wrong check sequence, and
  it reports it exactly when the call has closed a frame that fails the check.
\<close>

theorem hdlc_ll_run_rx_result:
  assumes "rx_wf h" "rx_state h \<noteq> Read_end" "data \<noteq> []" "hdlc_ll_run_rx h data = (p, e, h')"
  shows "0 < p \<and> p \<le> int (length data)
    \<and> e = (if rejects (snd (rx_bytes (crc_type h) (nat (phys_mtu h)) (rx_view h) (take (nat p) data)))
           then TINY_ERR_WRONG_CRC else TINY_SUCCESS)"
proof -
  obtain k es where "k \<le> length data" "0 < k" "p = int k" "rx_reads h (take k data) es h'"
    "e = (if rejects es then TINY_ERR_WRONG_CRC else TINY_SUCCESS)"
    using hdlc_ll_run_rx_reads [OF assms(1,2,4)] assms(3) by metis
  then show ?thesis by (simp add: rx_reads_def)
qed

theorem hdlc_ll_run_rx_result_witness:
  "\<exists>p e h'. hdlc_ll_run_rx demo_ll [0x7E, 1, 2, 0x7E, 3] = (p, e, h') \<and> 0 < p \<and> p \<le> 5"
proof -
  obtain p e h' where run: "hdlc_ll_run_rx demo_ll [0x7E, 1, 2, 0x7E, 3] = (p, e, h')"
    by (metis prod_cases3)
  then show ?thesis using hdlc_ll_run_rx_result [OF demo_rx(1,2) _ run] by simp
qed

end
