(* ===== verification/HdlcFraming.thy ===== *)
theory HdlcFraming
  imports HdlcRx
begin

unbundle bit_operations_syntax

section \<open>Framing: what one side sends, the other side receives\<close>

subsection \<open>The check sequence\<close>

lemma not_bit_u8 [simp]: "8 \<le> n \<Longrightarrow> \<not> bit (b :: u8) n"
  using bit_imp_le_length [of b n] by auto

lemma ucast_u16_u32_u8 [simp]: "(ucast (ucast (x :: u16) :: u32) :: u8) = ucast x"
  by (rule bit_word_eqI) (auto simp: bit_simps)

lemma le_bytes_1: "(ucast (x :: u16) :: u32) AND 0xFF = ucast (a :: u8) \<longleftrightarrow> ucast (ucast x :: u32) = a"
proof
  assume "(ucast x :: u32) AND 0xFF = ucast a"
  then have "ucast ((ucast x :: u32) AND 0xFF) = (ucast (ucast a :: u32) :: u8)" by simp
  then show "ucast (ucast x :: u32) = a"
    by (auto simp: bit_eq_iff bit_simps word_and_0xff)
next
  assume *: "ucast (ucast x :: u32) = a"
  show "(ucast x :: u32) AND 0xFF = ucast a"
    by (rule bit_word_eqI) (auto simp: bit_simps word_and_0xff simp flip: *)
qed

lemma le_bytes_2:
  "(ucast (x :: u16) :: u32) = ucast (a :: u8) OR push_bit 8 (ucast (b :: u8)) \<longleftrightarrow>
   ucast (ucast x :: u32) = a \<and> ucast (drop_bit 8 (ucast x :: u32)) = b"
proof
  assume "(ucast x :: u32) = ucast a OR push_bit 8 (ucast b)"
  then show "ucast (ucast x :: u32) = a \<and> ucast (drop_bit 8 (ucast x :: u32)) = b"
    by (auto intro!: bit_word_eqI simp: bit_simps)
next
  assume *: "ucast (ucast x :: u32) = a \<and> ucast (drop_bit 8 (ucast x :: u32)) = b"
  show "(ucast x :: u32) = ucast a OR push_bit 8 (ucast b)"
    by (rule bit_word_eqI) (auto simp: bit_simps simp flip: * dest: bit_imp_le_length)
qed

lemma le_bytes_4:
  "(x :: u32) = ucast (a :: u8) OR push_bit 8 (ucast (b :: u8)) OR push_bit 16 (ucast (c :: u8))
     OR push_bit 24 (ucast (d :: u8)) \<longleftrightarrow>
   ucast x = a \<and> ucast (drop_bit 8 x) = b \<and> ucast (drop_bit 16 x) = c \<and> ucast (drop_bit 24 x) = d"
proof
  assume "x = ucast a OR push_bit 8 (ucast b) OR push_bit 16 (ucast c) OR push_bit 24 (ucast d)"
  then show "ucast x = a \<and> ucast (drop_bit 8 x) = b \<and> ucast (drop_bit 16 x) = c \<and> ucast (drop_bit 24 x) = d"
    by (auto intro!: bit_word_eqI simp: bit_simps)
next
  assume *: "ucast x = a \<and> ucast (drop_bit 8 x) = b \<and> ucast (drop_bit 16 x) = c \<and> ucast (drop_bit 24 x) = d"
  show "x = ucast a OR push_bit 8 (ucast b) OR push_bit 16 (ucast c) OR push_bit 24 (ucast d)"
  proof (rule bit_word_eqI)
    fix n assume "n < LENGTH(32)"
    then show "bit x n = bit (ucast a OR push_bit 8 (ucast b) OR push_bit 16 (ucast c) OR push_bit 24 (ucast d) :: u32) n"
      by (cases "24 \<le> n"; cases "16 \<le> n") (auto simp: bit_simps simp flip: *)
  qed
qed

lemma crc_bytes_simps:
  "crc_bytes 0 0 c = []" "crc_bytes 0 (Suc 0) c = [ucast c]" "crc_bytes 0 2 c = [ucast c, ucast (drop_bit 8 c)]"
  "crc_bytes 0 4 c = [ucast c, ucast (drop_bit 8 c), ucast (drop_bit 16 c), ucast (drop_bit 24 c)]"
  by (simp_all add: crc_bytes_def upt_rec numeral_eq_Suc)

lemma length_fcs_bytes [simp]: "length (fcs_bytes crc bs) = fcs_len crc"
  by (simp add: fcs_bytes_def crc_bytes_def)

lemma length_2_conv: "length xs = 2 \<longleftrightarrow> (\<exists>a b. xs = [a, b])"
  by (auto simp: numeral_eq_Suc length_Suc_conv)

lemma length_4_conv: "length xs = 4 \<longleftrightarrow> (\<exists>a b c d. xs = [a, b, c, d])"
  by (auto simp: numeral_eq_Suc length_Suc_conv)

text \<open>The check of \<open>hdlc_ll_read_end\<close> compares the last bytes of the frame with the check sequence.\<close>

lemma frame_payload_append:
  assumes "crc \<noteq> HDLC_CRC_OFF" "length fb = fcs_len crc"
  shows "frame_payload crc (cs @ fb) = (if fcs_bytes crc cs = fb then Some cs else None)"
proof (cases crc)
  case HDLC_CRC_DEFAULT
  then show ?thesis using assms
    by (simp add: frame_payload_def frame_crcs_def fcs_bytes_def fcs_len_def crc_bytes_simps)
next
  case HDLC_CRC_8
  then obtain a where "fb = [a]" using assms by (auto simp: fcs_len_def length_Suc_conv)
  then show ?thesis using HDLC_CRC_8
    by (simp add: frame_payload_def frame_crcs_def fcs_bytes_def fcs_len_def fcs_value_def crc_bytes_simps
        nth_append le_bytes_1)
next
  case HDLC_CRC_16
  then obtain a b where "fb = [a, b]" using assms by (auto simp: fcs_len_def length_2_conv)
  then show ?thesis using HDLC_CRC_16
    by (simp add: frame_payload_def frame_crcs_def fcs_bytes_def fcs_len_def fcs_value_def crc_bytes_simps
        nth_append Let_def le_bytes_2)
next
  case HDLC_CRC_32
  then obtain a b c d where "fb = [a, b, c, d]" using assms by (auto simp: fcs_len_def length_4_conv)
  then show ?thesis using HDLC_CRC_32
    by (simp add: frame_payload_def frame_crcs_def fcs_bytes_def fcs_len_def fcs_value_def crc_bytes_simps
        nth_append Let_def le_bytes_4)
qed (use assms in simp)

subsection \<open>Byte stuffing\<close>

lemma flag_escape_neq [simp]: "FLAG_SEQUENCE \<noteq> TINY_ESCAPE_CHAR" "TINY_ESCAPE_CHAR \<noteq> FLAG_SEQUENCE"
  by (simp_all add: FLAG_SEQUENCE_def TINY_ESCAPE_CHAR_def)

lemma special_escaped:
  "special b \<Longrightarrow> b XOR TINY_ESCAPE_BIT \<noteq> FLAG_SEQUENCE \<and> b XOR TINY_ESCAPE_BIT \<noteq> TINY_ESCAPE_CHAR"
  by (auto simp: special_def FLAG_SEQUENCE_def TINY_ESCAPE_CHAR_def TINY_ESCAPE_BIT_def)

lemma xor_escape_twice [simp]: "(b XOR TINY_ESCAPE_BIT) XOR TINY_ESCAPE_BIT = b"
  by (simp add: xor.assoc)

lemma no_flag_stuffing: "FLAG_SEQUENCE \<notin> set (stuffing bs)"
proof (induction bs)
  case (Cons b bs)
  then show ?case using special_escaped [of b] by (auto simp: stuff_def special_def)
qed simp

lemma rx_bytes_stuffing:
  "length acc + length bs \<le> mtu \<Longrightarrow>
   rx_bytes crc mtu (Collecting acc False) (stuffing bs) = (Collecting (acc @ bs) False, [])"
proof (induction bs arbitrary: acc)
  case (Cons b bs)
  have "rx_bytes crc mtu (Collecting acc False) (stuff b) = (Collecting (acc @ [b]) False, [])"
    using special_escaped [of b] Cons.prems by (auto simp: stuff_def special_def)
  then show ?case using Cons.IH [of "acc @ [b]"] Cons.prems by (simp add: rx_bytes_append)
qed simp

lemma rx_bytes_hunting: "FLAG_SEQUENCE \<notin> set bs \<Longrightarrow> rx_bytes crc mtu Hunting bs = (Hunting, [])"
  by (induction bs) auto

lemma rx_bytes_body:
  assumes "0 < length f" "length f \<le> mtu"
  shows "rx_bytes crc mtu (Collecting [] False) (stuffing f @ [FLAG_SEQUENCE]) = (Hunting, [frame_event crc f])"
  using assms rx_bytes_stuffing [of "[]" f mtu crc] by (auto simp: rx_bytes_append)

subsection \<open>The framing contract\<close>

text \<open>
  The interface that the layers above rely on: a code for payloads, a receiver that reads symbols,
  and the states in which the receiver is aligned with the frames. One code word brings any receiver
  into alignment; an aligned receiver delivers the payload and stays aligned.
\<close>

locale framing =
  fixes code :: "'p \<Rightarrow> 'b list" and recv :: "'s \<Rightarrow> 'b list \<Rightarrow> 's \<times> 'p list"
    and aligned :: "'s \<Rightarrow> bool" and fits :: "'p \<Rightarrow> bool"
  assumes recv_Nil: "recv s [] = (s, [])"
    and recv_append: "recv s (xs @ ys) = (case recv s xs of (s1, ps) \<Rightarrow> case recv s1 ys of (s2, qs) \<Rightarrow> (s2, ps @ qs))"
    and delivers: "aligned s \<Longrightarrow> fits p \<Longrightarrow> \<exists>s'. recv s (code p) = (s', [p]) \<and> aligned s'"
    and aligns: "fits p \<Longrightarrow> aligned (fst (recv s (code p)))"
begin

lemma delivers_all:
  "aligned s \<Longrightarrow> \<forall>p\<in>set ps. fits p \<Longrightarrow>
   snd (recv s (concat (map code ps))) = ps \<and> aligned (fst (recv s (concat (map code ps))))"
proof (induction ps arbitrary: s)
  case Nil
  then show ?case by (simp add: recv_Nil)
next
  case (Cons p ps)
  then obtain s' where "recv s (code p) = (s', [p])" "aligned s'" using delivers [of s p] by auto
  then show ?case using Cons.IH [of s'] Cons.prems by (auto simp: recv_append split: prod.splits)
qed

text \<open>Whatever was received before, only the first frame can be lost.\<close>

lemma resynchronises:
  assumes "\<forall>p\<in>set (q # ps). fits p"
  shows "\<exists>pre. snd (recv s (concat (map code (q # ps)))) = pre @ ps \<and> snd (recv s (code q)) = pre"
proof -
  obtain s1 pre where q: "recv s (code q) = (s1, pre)" by fastforce
  then have "aligned s1" using aligns [of q s] assms by simp
  then show ?thesis using delivers_all [of s1 ps] assms q by (auto simp: recv_append split: prod.splits)
qed

end

text \<open>An aligned HDLC receiver has not collected anything; only an empty frame buffer is shared with the next flag.\<close>

definition hdlc_aligned :: "rx_view \<Rightarrow> bool" where
  "hdlc_aligned v \<longleftrightarrow> (case v of Hunting \<Rightarrow> True | Collecting acc esc \<Rightarrow> acc = [])"

definition hdlc_fits :: "hdlc_crc_t \<Rightarrow> nat \<Rightarrow> u8 list \<Rightarrow> bool" where
  "hdlc_fits crc mtu p \<longleftrightarrow> p \<noteq> [] \<and> length p + fcs_len crc \<le> mtu"

definition hdlc_recv :: "hdlc_crc_t \<Rightarrow> nat \<Rightarrow> rx_view \<Rightarrow> u8 list \<Rightarrow> rx_view \<times> u8 list list" where
  "hdlc_recv crc mtu v bs = (case rx_bytes crc mtu v bs of (v', es) \<Rightarrow> (v', delivered es))"

lemma frame_event_fcs: "crc \<noteq> HDLC_CRC_OFF \<Longrightarrow> frame_event crc (p @ fcs_bytes crc p) = Delivered p"
  by (simp add: frame_event_def frame_payload_append)

lemma rx_bytes_encode_aligned:
  assumes "crc \<noteq> HDLC_CRC_OFF" "hdlc_fits crc mtu p" "hdlc_aligned v"
  shows "rx_bytes crc mtu v (hdlc_encode crc p) = (Hunting, [Delivered p])"
proof -
  have "rx_byte crc mtu v FLAG_SEQUENCE = (Collecting [] False, [])"
    using assms(3) by (cases v) (auto simp: hdlc_aligned_def)
  then show ?thesis
    using rx_bytes_body [of "p @ fcs_bytes crc p" mtu crc] assms
    by (simp add: hdlc_encode_def hdlc_fits_def frame_event_fcs)
qed

lemma rx_bytes_encode_misaligned:
  assumes "acc \<noteq> []"
  shows "rx_bytes crc mtu (Collecting acc esc) (hdlc_encode crc p) = (Collecting [] False, [frame_event crc acc])"
  using assms rx_bytes_hunting [OF no_flag_stuffing, of crc mtu "p @ fcs_bytes crc p"]
  by (simp add: hdlc_encode_def rx_bytes_append [of _ _ _ "stuffing (p @ fcs_bytes crc p)"] del: stuffing_append)

text \<open>The reference decoder, and with it the code, meets the contract for every check sequence.\<close>

lemma hdlc_framing:
  assumes "crc \<noteq> HDLC_CRC_OFF"
  shows "framing (hdlc_encode crc) (hdlc_recv crc mtu) hdlc_aligned (hdlc_fits crc mtu)"
proof
  show "hdlc_recv crc mtu s [] = (s, [])" for s by (simp add: hdlc_recv_def)
  show "hdlc_recv crc mtu s (xs @ ys) =
      (case hdlc_recv crc mtu s xs of (s1, ps) \<Rightarrow> case hdlc_recv crc mtu s1 ys of (s2, qs) \<Rightarrow> (s2, ps @ qs))"
    for s xs ys by (simp add: hdlc_recv_def rx_bytes_append split: prod.split)
  show "\<exists>s'. hdlc_recv crc mtu s (hdlc_encode crc p) = (s', [p]) \<and> hdlc_aligned s'"
    if "hdlc_aligned s" "hdlc_fits crc mtu p" for s p
    using rx_bytes_encode_aligned [OF assms that(2,1)] by (simp add: hdlc_recv_def hdlc_aligned_def)
  show "hdlc_aligned (fst (hdlc_recv crc mtu s (hdlc_encode crc p)))" if "hdlc_fits crc mtu p" for s p
  proof (cases "hdlc_aligned s")
    case True
    then show ?thesis using rx_bytes_encode_aligned [OF assms that True]
      by (simp add: hdlc_recv_def hdlc_aligned_def)
  next
    case False
    then obtain acc esc where "s = Collecting acc esc" "acc \<noteq> []"
      by (cases s) (auto simp: hdlc_aligned_def)
    then show ?thesis using rx_bytes_encode_misaligned [of acc crc mtu esc p]
      by (simp add: hdlc_recv_def hdlc_aligned_def)
  qed
qed

interpretation fr8: framing "hdlc_encode HDLC_CRC_8" "hdlc_recv HDLC_CRC_8 mtu" hdlc_aligned "hdlc_fits HDLC_CRC_8 mtu" for mtu
  by (rule hdlc_framing) simp

interpretation fr16: framing "hdlc_encode HDLC_CRC_16" "hdlc_recv HDLC_CRC_16 mtu" hdlc_aligned "hdlc_fits HDLC_CRC_16 mtu" for mtu
  by (rule hdlc_framing) simp

interpretation fr32: framing "hdlc_encode HDLC_CRC_32" "hdlc_recv HDLC_CRC_32 mtu" hdlc_aligned "hdlc_fits HDLC_CRC_32 mtu" for mtu
  by (rule hdlc_framing) simp

interpretation fr0: framing "hdlc_encode HDLC_CRC_DEFAULT" "hdlc_recv HDLC_CRC_DEFAULT mtu" hdlc_aligned "hdlc_fits HDLC_CRC_DEFAULT mtu" for mtu
  by (rule hdlc_framing) simp

subsection \<open>End to end\<close>

lemma hdlc_framing_delivers:
  assumes "crc \<noteq> HDLC_CRC_OFF" "hdlc_aligned v" "\<forall>p\<in>set ps. hdlc_fits crc mtu p"
    and "rx_bytes crc mtu v (concat (map (hdlc_encode crc) ps)) = (v', es)"
  shows "delivered es = ps \<and> hdlc_aligned v'"
  using framing.delivers_all [OF hdlc_framing [OF assms(1)] assms(2,3)] assms(4)
  by (simp add: hdlc_recv_def)

lemma reads_frames:
  assumes "rx_reads h (concat (map (hdlc_encode (crc_type h)) ps)) es h'" "crc_type h \<noteq> HDLC_CRC_OFF"
    "hdlc_aligned (rx_view h)" "\<forall>p\<in>set ps. hdlc_fits (crc_type h) (nat (phys_mtu h)) p"
  shows "user_data h' = notify_frames (on_frame_read h) ps (user_data h) \<and> hdlc_aligned (rx_view h') \<and> rx_wf h'"
  using hdlc_framing_delivers [OF assms(2-4)] assms(1) by (auto simp: rx_reads_def)

text \<open>
  A receiver that is aligned with the frames hands every frame that fits the mtu to
  \<open>on_frame_read\<close>, once, in order and unchanged, whatever bytes the frames contain and however the
  encoded stream is cut into chunks.
\<close>

theorem hdlc_ll_receive_frames:
  assumes "rx_wf h" "rx_state h \<noteq> Read_end" "hdlc_aligned (rx_view h)"
    and "\<forall>p\<in>set ps. hdlc_fits (crc_type h) (nat (phys_mtu h)) p"
    and "concat chunks = concat (map (hdlc_encode (crc_type h)) ps)"
  defines "h' \<equiv> fold (\<lambda>chunk h. rx_feed h chunk) chunks h"
  shows "user_data h' = notify_frames (on_frame_read h) ps (user_data h) \<and> hdlc_aligned (rx_view h') \<and> rx_wf h'"
  using rx_feed_chunks [OF assms(1,2), of chunks] reads_frames [OF _ _ assms(3,4)] assms(1)
  unfolding assms(5) h'_def rx_wf_def by blast

theorem hdlc_ll_receive_frames_witness:
  "user_data (fold (\<lambda>chunk h. rx_feed h chunk)
     [hdlc_encode HDLC_CRC_8 [1, 0x7E] @ take 2 (hdlc_encode HDLC_CRC_8 [3]), drop 2 (hdlc_encode HDLC_CRC_8 [3])] demo_ll)
   = [[1, 0x7E], [3]]"
  using hdlc_ll_receive_frames [of demo_ll "[[1, 0x7E], [3]]"
     "[hdlc_encode HDLC_CRC_8 [1, 0x7E] @ take 2 (hdlc_encode HDLC_CRC_8 [3]), drop 2 (hdlc_encode HDLC_CRC_8 [3])]"]
  by (simp add: demo_rx hdlc_aligned_def hdlc_fits_def fcs_len_def notify_frames_def)

text \<open>
  C11: From any state of the receiver, after any garbage, at most the first of a sequence of frames is
  lost: all the others are delivered, in order and unchanged.
\<close>

theorem hdlc_ll_resynchronises:
  assumes "rx_wf h" "rx_state h \<noteq> Read_end"
    and "\<forall>p\<in>set (q # ps). hdlc_fits (crc_type h) (nat (phys_mtu h)) p"
    and "concat chunks = concat (map (hdlc_encode (crc_type h)) (q # ps))"
  defines "h' \<equiv> fold (\<lambda>chunk h. rx_feed h chunk) chunks h"
  shows "\<exists>pre. length pre \<le> 1 \<and> user_data h' = notify_frames (on_frame_read h) (pre @ ps) (user_data h)"
proof -
  define crc where "crc = crc_type h"
  define mtu where "mtu = nat (phys_mtu h)"
  have crc: "crc \<noteq> HDLC_CRC_OFF" using assms(1) by (simp add: rx_wf_def crc_def)
  obtain es where es: "rx_reads h (concat chunks) es h'" using rx_feed_chunks [OF assms(1,2)] by (auto simp: h'_def)
  then have v: "rx_bytes crc mtu (rx_view h) (concat chunks) = (rx_view h', es)"
    by (simp add: rx_reads_def crc_def mtu_def)
  obtain pre where pre: "delivered es = pre @ ps" "snd (hdlc_recv crc mtu (rx_view h) (hdlc_encode crc q)) = pre"
    using framing.resynchronises [OF hdlc_framing [OF crc] assms(3) [folded crc_def mtu_def], of "rx_view h"]
      v assms(4) by (auto simp: hdlc_recv_def crc_def)
  have "length pre \<le> 1"
  proof (cases "hdlc_aligned (rx_view h)")
    case True
    then show ?thesis using rx_bytes_encode_aligned [OF crc _ True, of mtu q] pre(2) assms(3)
      by (auto simp: hdlc_recv_def crc_def mtu_def)
  next
    case False
    then obtain acc esc where "rx_view h = Collecting acc esc" "acc \<noteq> []"
      by (cases "rx_view h") (auto simp: hdlc_aligned_def)
    then show ?thesis using rx_bytes_encode_misaligned [of acc crc mtu esc q] pre(2)
      by (auto simp: hdlc_recv_def frame_event_def split: option.splits)
  qed
  then show ?thesis using es pre(1) by (auto simp: rx_reads_def)
qed

lemma fold_snoc: "fold (\<lambda>p u. u @ [p]) ps u = u @ ps"
  by (induction ps arbitrary: u) simp_all

theorem hdlc_ll_resynchronises_witness:
  "\<exists>pre. length pre \<le> 1 \<and>
     user_data (fold (\<lambda>chunk h. rx_feed h chunk) (map (hdlc_encode HDLC_CRC_8) [[9], [1, 0x7E], [3]])
       (rx_feed demo_ll [0x7E, 5, 5])) = pre @ [[1, 0x7E], [3]]"
proof -
  obtain es where r: "rx_reads demo_ll [0x7E, 5, 5] es (rx_feed demo_ll [0x7E, 5, 5])"
    using rx_feed_reads [of demo_ll] demo_rx(1,2) by blast
  have "rx_bytes HDLC_CRC_8 8 Hunting [0x7E, 5, 5] = (Collecting [5, 5] False, [])" by code_simp
  then have "es = []" using r by (simp add: rx_reads_def demo_rx)
  then have u: "user_data (rx_feed demo_ll [0x7E, 5, 5]) = []" "rx_wf (rx_feed demo_ll [0x7E, 5, 5])"
    "rx_state (rx_feed demo_ll [0x7E, 5, 5]) \<noteq> Read_end" "crc_type (rx_feed demo_ll [0x7E, 5, 5]) = HDLC_CRC_8"
    "phys_mtu (rx_feed demo_ll [0x7E, 5, 5]) = 8" "on_frame_read (rx_feed demo_ll [0x7E, 5, 5]) = Some (\<lambda>u f. u @ [f])"
    using r rx_only_fields [of demo_ll "rx_feed demo_ll [0x7E, 5, 5]"] by (simp_all add: rx_reads_def demo_rx)
  show ?thesis
    using hdlc_ll_resynchronises [of "rx_feed demo_ll [0x7E, 5, 5]" "[9]" "[[1, 0x7E], [3]]"
        "map (hdlc_encode HDLC_CRC_8) [[9], [1, 0x7E], [3]]"]
    by (simp add: u hdlc_fits_def fcs_len_def notify_frames_def fold_snoc)
qed

text \<open>
  C3: A frame handed to the transmitter of one handle and read by the aligned receiver of another one,
  fetched through any buffers that are enough and delivered in any chunks: \<open>on_frame_read\<close> of the
  receiver is called once, with exactly the bytes given to \<open>hdlc_ll_put_frame\<close>, and \<open>on_frame_send\<close>
  of the transmitter once, with the frame's address and bytes.
\<close>

theorem hdlc_ll_link_roundtrip:
  assumes "tx_state ht = Send_start" "tx_origin ht = 0" "crc_type ht = crc_type hr"
    and "rx_wf hr" "rx_state hr \<noteq> Read_end" "hdlc_aligned (rx_view hr)"
    and "p \<noteq> 0" "0 < n" "int (n + fcs_len (crc_type hr)) \<le> phys_mtu hr"
    and "hdlc_ll_put_frame ht p n = (r, ht1)" "tx_stream ht1 sizes = (out, ht2)"
    and "length (hdlc_encode (crc_type ht) (bytes_at (mem ht) p n)) \<le> sum_list sizes"
    and "concat chunks = out"
  shows "user_data (fold (\<lambda>chunk h. rx_feed h chunk) chunks hr)
           = notify_frames (on_frame_read hr) [bytes_at (mem ht) p n] (user_data hr)
    \<and> user_data ht2 = (case on_frame_send ht of None \<Rightarrow> user_data ht
                        | Some f \<Rightarrow> f (user_data ht) p (bytes_at (mem ht) p n))"
proof -
  have crc: "crc_type ht \<noteq> HDLC_CRC_OFF" using assms(3,4) by (simp add: rx_wf_def)
  note ready = put_frame_ready [OF assms(1,2) crc assms(7,8,10)]
  note tx = tx_stream_spec [OF ready(2) assms(11), unfolded ready]
  have out: "concat chunks = concat (map (hdlc_encode (crc_type hr)) [bytes_at (mem ht) p n])"
    using tx assms(3,12,13) by simp
  have "hdlc_fits (crc_type hr) (nat (phys_mtu hr)) (bytes_at (mem ht) p n)"
    using assms(8,9) by (simp add: hdlc_fits_def le_nat_iff)
  then have "user_data (fold (\<lambda>chunk h. rx_feed h chunk) chunks hr)
      = notify_frames (on_frame_read hr) [bytes_at (mem ht) p n] (user_data hr)"
    using rx_feed_chunks [OF assms(4,5), of chunks] reads_frames [of hr "[bytes_at (mem ht) p n]"] assms(6) crc
    unfolding out assms(3) by auto
  then show ?thesis using tx assms(12) by simp
qed

theorem hdlc_ll_link_roundtrip_witness:
  "\<exists>h1 out h2. hdlc_ll_put_frame demo_ll 16 3 = (TINY_SUCCESS, h1) \<and> tx_stream h1 [3, 0, 2, 5] = (out, h2)
     \<and> user_data (fold (\<lambda>chunk h. rx_feed h chunk) [take 4 out, drop 4 out] demo_ll) = [[0x10, 0x7D, 0x12]]"
proof -
  obtain r h1 where put: "hdlc_ll_put_frame demo_ll 16 3 = (r, h1)" by fastforce
  obtain out h2 where run: "tx_stream h1 [3, 0, 2, 5] = (out, h2)" by fastforce
  have "tx_state demo_ll = Send_start" "tx_origin demo_ll = 0" by (simp_all add: demo_ll_def)
  moreover have "r = TINY_SUCCESS" using put by (simp add: hdlc_ll_put_frame_def demo_ll_def)
  ultimately show ?thesis
    using hdlc_ll_link_roundtrip [of demo_ll demo_ll 16 3 r h1 "[3, 0, 2, 5]" out h2 "[take 4 out, drop 4 out]"] put run
    by (simp add: demo_frame demo_code demo_rx hdlc_aligned_def fcs_len_def notify_frames_def)
qed

subsection \<open>Damaged frames\<close>

lemma fcs_bytes_eq_iff:
  "fcs_bytes HDLC_CRC_8 a = fcs_bytes HDLC_CRC_8 b
     \<longleftrightarrow> (ucast (tiny_chksum INITCHECKSUM a) :: u8) = ucast (tiny_chksum INITCHECKSUM b)"
  "fcs_bytes HDLC_CRC_16 a = fcs_bytes HDLC_CRC_16 b
     \<longleftrightarrow> tiny_crc16 PPPINITFCS16 a = tiny_crc16 PPPINITFCS16 b"
  "fcs_bytes HDLC_CRC_32 a = fcs_bytes HDLC_CRC_32 b
     \<longleftrightarrow> tiny_crc32 PPPINITFCS32 a = tiny_crc32 PPPINITFCS32 b"
proof -
  show "fcs_bytes HDLC_CRC_8 a = fcs_bytes HDLC_CRC_8 b
     \<longleftrightarrow> (ucast (tiny_chksum INITCHECKSUM a) :: u8) = ucast (tiny_chksum INITCHECKSUM b)"
    by (simp add: fcs_bytes_def fcs_len_def fcs_value_def crc_bytes_simps)
  have "(ucast x :: u32) = ucast y \<longleftrightarrow> x = y" for x y :: u16
    by (metis ucast_ucast_u16_u32_u16)
  then show "fcs_bytes HDLC_CRC_16 a = fcs_bytes HDLC_CRC_16 b
     \<longleftrightarrow> tiny_crc16 PPPINITFCS16 a = tiny_crc16 PPPINITFCS16 b"
    using le_bytes_2 [of "tiny_crc16 PPPINITFCS16 a"] le_bytes_2 [of "tiny_crc16 PPPINITFCS16 b"]
    by (simp add: fcs_bytes_def fcs_len_def fcs_value_def crc_bytes_simps) metis
  show "fcs_bytes HDLC_CRC_32 a = fcs_bytes HDLC_CRC_32 b
     \<longleftrightarrow> tiny_crc32 PPPINITFCS32 a = tiny_crc32 PPPINITFCS32 b"
    using pack_le_u32 [of "tiny_crc32 PPPINITFCS32 a"] pack_le_u32 [of "tiny_crc32 PPPINITFCS32 b"]
    by (simp add: fcs_bytes_def fcs_len_def fcs_value_def crc_bytes_simps) metis
qed

lemma fcs_changes:
  assumes "crc \<in> {HDLC_CRC_8, HDLC_CRC_16, HDLC_CRC_32}"
    and "length ds = length es" "ds \<noteq> es" "length ds \<le> fcs_len crc"
  shows "fcs_bytes crc (xs @ es @ ys) \<noteq> fcs_bytes crc (xs @ ds @ ys)"
proof -
  consider (c8) "crc = HDLC_CRC_8" | (c16) "crc = HDLC_CRC_16" | (c32) "crc = HDLC_CRC_32" using assms(1) by blast
  then show ?thesis
  proof cases
    case c8
    then obtain d e where "ds = [d]" "es = [e]" "d \<noteq> e" using assms(2-4)
      by (cases ds; cases es) (auto simp: fcs_len_def)
    then show ?thesis by (simp add: c8 fcs_bytes_eq_iff tiny_chksum_low)
  next
    case c16
    then show ?thesis using crc16.burst_detected [of es ds] assms(2-4)
      by (simp add: fcs_bytes_eq_iff tiny_crc16_fold fcs_len_def)
  next
    case c32
    then show ?thesis using crc32.burst_detected [of es ds] assms(2-4)
      by (simp add: fcs_bytes_eq_iff tiny_crc32_fold fcs_len_def)
  qed
qed

text \<open>
  C25: A frame whose payload differs from the one its check sequence was computed for in a run of bytes, as many as before and no more than the check sequence has (2 bytes for
  CRC-16, 4 for CRC-32, 1 for CRC-8), is never handed to the application: \<open>hdlc_ll_run_rx\<close> reports a
  wrong check sequence, and \<open>user_data\<close> is untouched. The bytes are those of the payload, before the byte stuffing, and the check sequence itself arrives as it was sent.
  Damage on the wire that makes a byte into a flag or an escape, or the other way round, changes the limits or the length of the frame and is not covered.
\<close>

theorem damaged_frame_rejected:
  assumes "rx_wf h" "rx_state h \<noteq> Read_end" "hdlc_aligned (rx_view h)"
    and "crc_type h \<in> {HDLC_CRC_8, HDLC_CRC_16, HDLC_CRC_32}"
    and "length ds = length es" "ds \<noteq> es" "length ds \<le> fcs_len (crc_type h)"
    and "hdlc_fits (crc_type h) (nat (phys_mtu h)) (xs @ ds @ ys)"
    and "concat chunks = FLAG_SEQUENCE # stuffing (xs @ es @ ys @ fcs_bytes (crc_type h) (xs @ ds @ ys)) @ [FLAG_SEQUENCE]"
  shows "user_data (fold (\<lambda>chunk h. rx_feed h chunk) chunks h) = user_data h"
proof -
  define crc where "crc = crc_type h"
  define frame where "frame = xs @ es @ ys @ fcs_bytes crc (xs @ ds @ ys)"
  have crc: "crc \<noteq> HDLC_CRC_OFF" using assms(4) by (auto simp: crc_def)
  have "fcs_bytes crc (xs @ es @ ys) \<noteq> fcs_bytes crc (xs @ ds @ ys)"
    using fcs_changes [OF assms(4-7)] by (simp add: crc_def)
  then have "frame_event crc frame = Rejected frame"
    using frame_payload_append [OF crc, of "fcs_bytes crc (xs @ ds @ ys)" "xs @ es @ ys"]
    by (simp add: frame_event_def frame_def)
  moreover have "0 < length frame" "length frame \<le> nat (phys_mtu h)"
    using assms(5,6,8) by (auto simp: frame_def hdlc_fits_def crc_def)
  moreover have "rx_byte crc (nat (phys_mtu h)) (rx_view h) FLAG_SEQUENCE = (Collecting [] False, [])"
    using assms(3) by (cases "rx_view h") (auto simp: hdlc_aligned_def)
  ultimately have "rx_bytes crc (nat (phys_mtu h)) (rx_view h) (concat chunks) = (Hunting, [Rejected frame])"
    using rx_bytes_body [of frame "nat (phys_mtu h)" crc] unfolding assms(9) by (simp add: frame_def crc_def)
  then show ?thesis using rx_feed_chunks [OF assms(1,2), of chunks] by (auto simp: rx_reads_def crc_def)
qed

theorem damaged_frame_rejected_witness:
  "user_data (fold (\<lambda>chunk h. rx_feed h chunk)
     [FLAG_SEQUENCE # stuffing ([1, 7, 3] @ fcs_bytes HDLC_CRC_8 [1, 2, 3]) @ [FLAG_SEQUENCE]] demo_ll) = []"
  using damaged_frame_rejected [of demo_ll "[2]" "[7]" "[1]" "[3]"
     "[FLAG_SEQUENCE # stuffing ([1, 7, 3] @ fcs_bytes HDLC_CRC_8 [1, 2, 3]) @ [FLAG_SEQUENCE]]"]
  by (simp add: demo_rx hdlc_aligned_def hdlc_fits_def fcs_len_def)

subsection \<open>Initialisation\<close>

lemma align_up_bounds:
  assumes "0 < A"
  shows "p \<le> align_up A p" "align_up A p \<le> p + A - 1"
proof -
  have "p + A - 1 = align_up A p + (p + A - 1) mod A" by (simp add: align_up_def)
  moreover have "(p + A - 1) mod A < A" using assms by simp
  ultimately show "p \<le> align_up A p" "align_up A p \<le> p + A - 1" using assms by linarith+
qed

text \<open>
  With a buffer of the size that \<open>hdlc_ll_get_buf_size\<close> computes for the mtu, wherever the buffer
  starts and whatever it held before, \<open>hdlc_ll_init\<close> succeeds and yields a handle that is ready: the
  receiver satisfies its memory invariant and hunts for a flag, the transmitter is idle and accepts a
  frame, and structure and receive buffer lie inside the buffer given.
\<close>

theorem hdlc_ll_init_ready:
  assumes "0 < align_struct abi" "init_buf init \<noteq> 0" "0 < init_mtu init"
    and "hdlc_ll_get_buf_size abi (init_mtu init) \<le> init_buf_size init"
  shows "\<exists>h. hdlc_ll_init abi init h0 = Inr h \<and> rx_wf h \<and> rx_view h = Hunting
    \<and> tx_wf h \<and> tx_state h = Send_start \<and> tx_origin h = 0
    \<and> phys_mtu h = init_mtu init + get_crc_field_size (crc_type h)
    \<and> init_buf init + sizeof_hdlc_ll abi \<le> rx_buf h
    \<and> int (rx_buf h) + rx_buf_size h = int (init_buf init) + init_buf_size init"
proof -
  define al where "al = align_up (align_struct abi) (init_buf init)"
  have al: "init_buf init \<le> al" "al \<le> init_buf init + align_struct abi - 1"
    using align_up_bounds [OF assms(1)] by (simp_all add: al_def)
  have size: "4 + int (sizeof_hdlc_ll abi) + init_mtu init + int (al - init_buf init) \<le> init_buf_size init"
    using assms(1,4) al by (simp add: hdlc_ll_get_buf_size_def get_crc_field_size_def)
  define crc where "crc = (if init_crc_type init = HDLC_CRC_OFF then HDLC_CRC_DEFAULT else init_crc_type init)"
  have crc: "crc \<noteq> HDLC_CRC_OFF" "get_crc_field_size crc \<le> 4" "0 \<le> get_crc_field_size crc"
    by (cases "init_crc_type init"; simp add: crc_def get_crc_field_size_def)+
  define h where "h = h0\<lparr>rx_buf := al + sizeof_hdlc_ll abi,
     rx_buf_size := init_buf_size init - int (al - init_buf init) - int (sizeof_hdlc_ll abi),
     crc_type := crc, on_frame_read := init_on_frame_read init, on_frame_send := init_on_frame_send init,
     user_data := init_user_data init, phys_mtu := init_mtu init + get_crc_field_size crc,
     rx_active := al + sizeof_hdlc_ll abi, rx_state := Read_start,
     tx_data := 0, tx_origin := 0, tx_escape := False, tx_state := Send_start\<rparr>"
  have "hdlc_ll_init abi init h0 = Inr h"
    using assms(2,3) size crc by (simp add: hdlc_ll_init_def Let_def h_def hdlc_ll_reset_def
        ll_flags flip: al_def crc_def)
  moreover have "rx_wf h" "tx_wf h" using assms(3) size crc by (simp_all add: h_def rx_wf_def tx_wf_def)
  ultimately show ?thesis using al by (intro exI [of _ h]) (simp add: h_def rx_view_def)
qed

definition demo_abi :: c_abi where
  "demo_abi = \<lparr>align_struct = 8, sizeof_hdlc_ll = 112, sizeof_ptr = 8, sizeof_fd_data = 400,
     sizeof_frame_info = 16, offset_header = 8, sizeof_peer_info = 32\<rparr>"

theorem hdlc_ll_init_ready_witness:
  "hdlc_ll_init demo_abi \<lparr>init_on_frame_read = None, init_on_frame_send = None, init_buf = 1001,
       init_buf_size = 139, init_crc_type = HDLC_CRC_16, init_user_data = [], init_mtu = 16\<rparr> demo_ll
     \<in> Inr ` {h. rx_wf h}"
  using hdlc_ll_init_ready [of demo_abi "\<lparr>init_on_frame_read = None, init_on_frame_send = None, init_buf = 1001,
       init_buf_size = 139, init_crc_type = HDLC_CRC_16, init_user_data = [], init_mtu = 16\<rparr>" demo_ll]
  by (auto simp: demo_abi_def hdlc_ll_get_buf_size_def get_crc_field_size_def)

end
