(* ===== verification/FdTxPath.thy ===== *)
theory FdTxPath
  imports FdRxSpec HdlcFraming
begin

unbundle bit_operations_syntax

section \<open>Choosing and sending frames: tiny_fd.c\<close>

text \<open>
  The transmit path of the full duplex protocol: which frame is sent next, the timeouts, and
  \<open>tiny_fd_get_tx_data\<close>, which fills the buffer of the caller through the low level.
  \<^item> A handle is the low level state whose \<open>user_data\<close> is the protocol state, as \<open>tiny_fd_init\<close> sets it
    up: \<open>_hdlc\<close> and \<open>user_data\<close> of the C structures point to each other.
  \<^item> The bytes of a frame live in a slot of one of the queues. Before the low level runs, its memory is
    given the contents of the slots at the addresses of their headers (\<open>slots_mem\<close>); what is on the
    line is therefore what the slot holds at that moment, even if the slot has been reused.
  \<^item> A wait on the events sees what is set now and otherwise times out: no other thread runs inside a call.
\<close>

type_synonym tiny_fd = "tiny_fd_data hdlc_ll"

abbreviation fd_of :: "tiny_fd \<Rightarrow> tiny_fd_data" where "fd_of h \<equiv> user_data h"

definition upd_fd :: "(tiny_fd_data \<Rightarrow> tiny_fd_data) \<Rightarrow> tiny_fd \<Rightarrow> tiny_fd" where
  "upd_fd f h = h\<lparr>user_data := f (fd_of h)\<rparr>"

subsection \<open>The memory of the slots\<close>

definition slot_bytes :: "tiny_fd_frame_info \<Rightarrow> u8 list" where
  "slot_bytes f = f_address f # f_control f # f_payload f"

definition slot_mem :: "tiny_fd_frame_info \<Rightarrow> (nat \<Rightarrow> u8) \<Rightarrow> nat \<Rightarrow> u8" where
  "slot_mem f m = (\<lambda>a. if f_header f \<le> a \<and> a < f_header f + length (slot_bytes f)
                       then slot_bytes f ! (a - f_header f) else m a)"

definition slots_mem :: "tiny_fd \<Rightarrow> tiny_fd" where
  "slots_mem h = h\<lparr>mem := fold slot_mem (q_frames (i_queue (fd_of h)) @ q_frames (s_queue (fd_of h))) (mem h)\<rparr>"

subsection \<open>The next frame\<close>

definition time_passed_since_last_frame_received :: "tiny_fd_data \<Rightarrow> u8 \<Rightarrow> u32 \<times> tiny_fd_data" where
  "time_passed_since_last_frame_received fd peer =
     (case tiny_millis fd of (now, fd) \<Rightarrow> (now - last_received_frame_ts (peer_of fd peer), fd))"

definition time_passed_since_last_frame_sent :: "tiny_fd_data \<Rightarrow> u8 \<Rightarrow> u32 \<times> tiny_fd_data" where
  "time_passed_since_last_frame_sent fd peer =
     (case tiny_millis fd of (now, fd) \<Rightarrow> (now - last_sent_frame_ts (peer_of fd peer), fd))"

definition time_passed_since_last_marker_seen :: "tiny_fd_data \<Rightarrow> u32 \<times> tiny_fd_data" where
  "time_passed_since_last_marker_seen fd =
     (case tiny_millis fd of (now, fd) \<Rightarrow> (now - last_marker_ts fd, fd))"

text \<open>A frame is a pointer to a slot: its index in one of the two queues.\<close>

datatype frame_ref = I_slot nat | S_slot nat

fun frame_at :: "tiny_fd_data \<Rightarrow> frame_ref \<Rightarrow> tiny_fd_frame_info" where
  "frame_at fd (I_slot i) = q_frames (i_queue fd) ! i"
| "frame_at fd (S_slot i) = q_frames (s_queue fd) ! i"

fun upd_frame :: "frame_ref \<Rightarrow> (tiny_fd_frame_info \<Rightarrow> tiny_fd_frame_info) \<Rightarrow> tiny_fd_data \<Rightarrow> tiny_fd_data" where
  "upd_frame (I_slot i) f fd = fd\<lparr>i_queue := set_slot (i_queue fd) i (f (q_frames (i_queue fd) ! i))\<rparr>"
| "upd_frame (S_slot i) f fd = fd\<lparr>s_queue := set_slot (s_queue fd) i (f (q_frames (s_queue fd) ! i))\<rparr>"

definition frame_bytes :: "tiny_fd_frame_info \<Rightarrow> u8 list" where
  "frame_bytes f = f_address f # f_control f # frame_data f"

text \<open>The header of an I-frame that goes out: the P bit is dropped and N(R) filled in.\<close>

definition stamp_nr :: "u8 \<Rightarrow> tiny_fd_frame_info \<Rightarrow> tiny_fd_frame_info" where
  "stamp_nr nr f = f\<lparr>f_control := (f_control f AND 0x0F) OR push_bit 5 nr\<rparr>"

definition tiny_fd_get_next_i_frame :: "tiny_fd_data \<Rightarrow> u8 \<Rightarrow> u8 \<Rightarrow> nat option \<times> tiny_fd_data" where
  "tiny_fd_get_next_i_frame fd peer address =
     (let nr = i_queue_control_get_next_frame_to_receive (i_queue_ctl (peer_of fd peer))
      in if p_state (peer_of fd peer) = TINY_FD_STATE_DISCONNECTED \<or> p_state (peer_of fd peer) = TINY_FD_STATE_CONNECTING
         then (None, fd)
         else if srej_req_mask (peer_of fd peer) \<noteq> 0 then
           case find (\<lambda>i. srej_req_mask (peer_of fd peer) AND push_bit i 1 \<noteq> 0) [0..<8] of
             None \<Rightarrow> (None, fd)
           | Some i \<Rightarrow>
               let ptr = tiny_fd_queue_get_next (i_queue fd) TINY_FD_QUEUE_I_FRAME address (of_nat i);
                   fd = upd_peer peer (\<lambda>p. p\<lparr>srej_req_mask := srej_req_mask p AND NOT (push_bit i 1)\<rparr>) fd
               in (case ptr of
                     None \<Rightarrow> (None, fd)
                   | Some k \<Rightarrow>
                       let fd = upd_frame (I_slot k) (stamp_nr nr) fd;
                           fd = upd_peer peer (\<lambda>p. p\<lparr>sent_nr := nr\<rparr>) fd;
                           (now, fd) = tiny_millis fd
                       in (Some k, upd_peer peer (\<lambda>p. p\<lparr>last_sent_i_ts := now\<rparr>) fd))
         else
           case tiny_fd_queue_get_next (i_queue fd) TINY_FD_QUEUE_I_FRAME address
                  (i_queue_control_get_next_frame_to_send (i_queue_ctl (peer_of fd peer))) of
             None \<Rightarrow> (None, fd)
           | Some k \<Rightarrow>
               let fd = upd_frame (I_slot k) (stamp_nr nr) fd;
                   fd = upd_peer peer (\<lambda>p. p\<lparr>i_queue_ctl := i_queue_control_move_to_next_ns (i_queue_ctl p)\<rparr>) fd;
                   fd = upd_peer peer (\<lambda>p. p\<lparr>sent_nr := nr\<rparr>) fd;
                   (now, fd) = tiny_millis fd
               in (Some k, upd_peer peer (\<lambda>p. p\<lparr>last_sent_i_ts := now\<rparr>) fd))"

text \<open>In NRM the marker has to be passed on even if there is nothing to send.\<close>

definition put_marker_frame :: "tiny_fd_data \<Rightarrow> u8 \<Rightarrow> u8 \<Rightarrow> tiny_fd_data" where
  "put_marker_frame fd peer address =
     (if is_primary_station fd \<and> (p_state (peer_of fd peer) = TINY_FD_STATE_DISCONNECTED
                                   \<or> p_state (peer_of fd peer) = TINY_FD_STATE_CONNECTING)
      then snd (put_u_s_frame_to_tx_queue fd TINY_FD_QUEUE_S_FRAME
             [address OR HDLC_CR_BIT, HDLC_U_FRAME_TYPE_SNRM OR HDLC_U_FRAME_BITS])
      else snd (put_u_s_frame_to_tx_queue fd TINY_FD_QUEUE_S_FRAME
             [address, HDLC_S_FRAME_BITS OR HDLC_S_FRAME_TYPE_RR OR
                push_bit 5 (i_queue_control_get_next_frame_to_receive (i_queue_ctl (peer_of fd peer)))]))"

definition set_poll :: "tiny_fd_frame_info \<Rightarrow> tiny_fd_frame_info" where
  "set_poll f = f\<lparr>f_control := f_control f OR HDLC_P_BIT\<rparr>"

text \<open>The P/F bit of the frame that goes out.\<close>

definition mark_poll :: "tiny_fd_data \<Rightarrow> u8 \<Rightarrow> frame_ref \<Rightarrow> tiny_fd_data" where
  "mark_poll fd peer r =
     (let control = f_control (frame_at fd r)
      in if fd_mode fd = TINY_FD_MODE_NRM then
           if control AND HDLC_I_FRAME_MASK = HDLC_I_FRAME_BITS
           then (if all_frames_are_sent (i_queue_ctl (peer_of fd peer)) then upd_frame r set_poll fd else fd)
           else upd_frame r set_poll fd
         else if control AND HDLC_U_FRAME_MASK = HDLC_U_FRAME_BITS then upd_frame r set_poll fd
         else fd)"

definition tiny_fd_get_next_frame_to_send :: "tiny_fd_data \<Rightarrow> u8 \<Rightarrow> frame_ref option \<times> tiny_fd_data" where
  "tiny_fd_get_next_frame_to_send fd peer =
     (let address = peer_to_address_field fd peer;
          (s, fd) = tiny_fd_get_next_s_u_frame_to_send fd peer address;
          (data, fd) = (case s of
             Some k \<Rightarrow> (Some (S_slot k), fd)
           | None \<Rightarrow> (case tiny_fd_get_next_i_frame fd peer address of (k, fd) \<Rightarrow> (map_option I_slot k, fd)));
          (data, fd) = (if data = None \<and> fd_mode fd = TINY_FD_MODE_NRM
             then (case tiny_fd_get_next_s_u_frame_to_send (put_marker_frame fd peer address) peer address of
                     (k, fd) \<Rightarrow> (map_option S_slot k, fd))
             else (data, fd))
      in case data of
           None \<Rightarrow> (None, fd)
         | Some r \<Rightarrow>
             let fd = mark_poll fd peer r;
                 (now, fd) = tiny_millis fd;
                 fd = fd\<lparr>last_marker_ts := now\<rparr>;
                 (now, fd) = tiny_millis fd;
                 fd = upd_peer peer (\<lambda>p. p\<lparr>last_sent_frame_ts := now\<rparr>) fd
             in (Some r, tiny_fd_log_frame TINY_FD_FRAME_DIRECTION_OUT (frame_bytes (frame_at fd r)) fd))"

subsection \<open>Timeouts\<close>

definition tiny_fd_connected_check_idle_timeout :: "tiny_fd_data \<Rightarrow> u8 \<Rightarrow> tiny_fd_data" where
  "tiny_fd_connected_check_idle_timeout fd peer =
     (let (now, fd) = tiny_millis fd;
          c = i_queue_ctl (peer_of fd peer)
      in if i_queue_control_has_unconfirmed_frames c \<and> all_frames_are_sent c
            \<and> now - last_sent_i_ts (peer_of fd peer) \<ge> ucast (retry_timeout fd)
         then
           if p_retries (peer_of fd peer) > 0
           then resend_all_unconfirmed_frames (upd_peer peer (\<lambda>p. p\<lparr>p_retries := p_retries p - 1\<rparr>) fd) peer 0
                  (i_queue_control_get_next_frame_to_confirm c)
           else switch_to_disconnected_state fd peer
         else
           let (received, fd) = time_passed_since_last_frame_received fd peer
           in if received \<ge> 2 * ucast (ka_timeout fd) then
                if \<not> ka_confirmed (peer_of fd peer) then switch_to_disconnected_state fd peer else fd
              else
                let (sent, fd) = time_passed_since_last_frame_sent fd peer
                in if sent \<ge> ucast (ka_timeout fd) then
                     let fd = upd_peer peer (\<lambda>p. p\<lparr>ka_confirmed := False\<rparr>) fd;
                         fd = snd (put_u_s_frame_to_tx_queue fd TINY_FD_QUEUE_S_FRAME
                                [peer_to_address_field fd peer,
                                 HDLC_S_FRAME_BITS OR HDLC_S_FRAME_TYPE_RR OR HDLC_P_BIT OR
                                   push_bit 5 (i_queue_control_get_next_frame_to_receive (i_queue_ctl (peer_of fd peer)))]);
                         (now, fd) = tiny_millis fd
                     in upd_peer peer (\<lambda>p. p\<lparr>last_sent_frame_ts := now\<rparr>) fd
                   else fd)"

definition tiny_fd_disconnected_check_idle_timeout :: "tiny_fd_data \<Rightarrow> u8 \<Rightarrow> tiny_fd_data" where
  "tiny_fd_disconnected_check_idle_timeout fd peer =
     (let (received, fd) = time_passed_since_last_frame_received fd peer
      in if received \<ge> ucast (retry_timeout fd) \<and> is_primary_station fd then
           let fd = snd (put_u_s_frame_to_tx_queue fd TINY_FD_QUEUE_U_FRAME
                  [peer_to_address_field fd peer OR HDLC_CR_BIT,
                   (if fd_mode fd = TINY_FD_MODE_NRM then HDLC_U_FRAME_TYPE_SNRM else HDLC_U_FRAME_TYPE_SABM) OR HDLC_U_FRAME_BITS]);
               fd = upd_peer peer (\<lambda>p. p\<lparr>p_state := TINY_FD_STATE_CONNECTING\<rparr>) fd;
               (now, fd) = tiny_millis fd
           in upd_peer peer (\<lambda>p. p\<lparr>last_received_frame_ts := now\<rparr>) fd
         else fd)"

definition check_idle_timeout :: "tiny_fd_data \<Rightarrow> u8 \<Rightarrow> tiny_fd_data" where
  "check_idle_timeout fd peer =
     (if p_state (peer_of fd peer) = TINY_FD_STATE_CONNECTED \<or> p_state (peer_of fd peer) = TINY_FD_STATE_DISCONNECTING
      then tiny_fd_connected_check_idle_timeout fd peer
      else tiny_fd_disconnected_check_idle_timeout fd peer)"

subsection \<open>Filling the caller's buffer\<close>

text \<open>
  One round of the loop when no frame is being sent: a frame was chosen, the loop ends, or the round
  ends with nothing generated.
\<close>

datatype tx_action = Put_frame frame_ref | Stop | Nothing

definition tx_choose :: "tiny_fd_data \<Rightarrow> u8 \<Rightarrow> tx_action \<times> tiny_fd_data" where
  "tx_choose fd peer =
     (let (marker, fd) = wait_events FD_EVENT_HAS_MARKER False fd
      in if marker \<noteq> 0 then
           let (available, fd) = wait_events FD_EVENT_TX_DATA_AVAILABLE True fd
           in if available \<noteq> 0 \<or> fd_mode fd = TINY_FD_MODE_NRM then
                (case tiny_fd_get_next_frame_to_send fd peer of
                   (Some r, fd) \<Rightarrow> (Put_frame r, set_events FD_EVENT_TX_SENDING (set_events FD_EVENT_TX_DATA_AVAILABLE fd))
                 | (None, fd) \<Rightarrow> (if fd_mode fd = TINY_FD_MODE_ABM \<or> is_secondary_station fd then Stop else Nothing, fd))
              else (if fd_mode fd = TINY_FD_MODE_ABM \<or> is_secondary_station fd then Stop else Nothing, fd)
         else if is_primary_station fd then
           let (passed, fd) = time_passed_since_last_marker_seen fd
           in if passed \<ge> ucast (retry_timeout fd) then (Nothing, set_events FD_EVENT_HAS_MARKER fd) else (Stop, fd)
         else (Nothing, fd))"

definition put_frame_ref :: "frame_ref \<Rightarrow> tiny_fd \<Rightarrow> tiny_fd" where
  "put_frame_ref r h = snd (hdlc_ll_put_frame h (f_header (frame_at (fd_of h) r)) (f_len (frame_at (fd_of h) r) + 2))"

text \<open>The low level writes as many bytes as it says.\<close>

lemma send_internal_written:
  "hdlc_ll_send_tx_internal h bs = (r, h') \<Longrightarrow> length (tx_out h') + tx_out_len h' = length (tx_out h) + tx_out_len h"
  by (auto simp: send_internal_eq)

lemma send_start_written: "hdlc_ll_send_start h = (r, h') \<Longrightarrow> length (tx_out h') + tx_out_len h' = length (tx_out h) + tx_out_len h"
  by (auto simp: hdlc_ll_send_start_def Let_def split: if_splits prod.splits hdlc_crc_t.splits dest!: send_internal_written)

lemma send_data_written: "hdlc_ll_send_data h = (r, h') \<Longrightarrow> length (tx_out h') + tx_out_len h' = length (tx_out h) + tx_out_len h"
  by (auto simp: hdlc_ll_send_data_def Let_def split: if_splits prod.splits dest!: send_internal_written)

lemma send_crc_written: "hdlc_ll_send_crc h = (r, h') \<Longrightarrow> length (tx_out h') + tx_out_len h' = length (tx_out h) + tx_out_len h"
  by (auto simp: hdlc_ll_send_crc_def Let_def split: if_splits prod.splits dest!: send_internal_written)

lemma send_end_written: "hdlc_ll_send_end h = (r, h') \<Longrightarrow> length (tx_out h') + tx_out_len h' = length (tx_out h) + tx_out_len h"
  by (auto simp: hdlc_ll_send_end_def Let_def split: if_splits prod.splits option.splits dest!: send_internal_written)

lemma run_tx_loop_written: "length (tx_out (run_tx_loop h rep)) + tx_out_len (run_tx_loop h rep) = length (tx_out h) + tx_out_len h"
proof (induction h rep rule: run_tx_loop.induct)
  case (1 h rep)
  obtain r h' where d: "tx_dispatch h = (r, h')" by fastforce
  then have w: "length (tx_out h') + tx_out_len h' = length (tx_out h) + tx_out_len h"
    by (auto simp: tx_dispatch_def split: tx_fn.splits
        dest: send_start_written send_data_written send_crc_written send_end_written)
  show ?case using "1.IH" [OF _ d [symmetric]] d w by (subst (1 2) run_tx_loop.simps) auto
qed

lemma hdlc_ll_run_tx_written:
  assumes "hdlc_ll_run_tx h len = (n, h')"
  shows "n = int (length (tx_out h'))" "length (tx_out h') \<le> len"
  using run_tx_loop_written [of "h\<lparr>tx_out := [], tx_out_len := len\<rparr>" False] assms
  by (auto simp: hdlc_ll_run_tx_def Let_def)

function get_tx_loop :: "u8 \<Rightarrow> nat \<Rightarrow> tiny_fd \<Rightarrow> u8 list \<Rightarrow> bool \<Rightarrow> bool \<Rightarrow> int \<times> u8 list \<times> tiny_fd" where
  "get_tx_loop peer len h out rep waited =
     (if length out \<ge> len then (int (length out), out, h)
      else if fst (tiny_events_wait (events (fd_of h)) FD_EVENT_TX_SENDING False) \<noteq> 0 then
        case hdlc_ll_run_tx (slots_mem h) (len - length out) of (generated, h') \<Rightarrow>
          if generated \<noteq> 0 then get_tx_loop peer len h' (out @ tx_out h') True waited
          else if rep then get_tx_loop peer len h' (out @ tx_out h') False waited
          else (int (length (out @ tx_out h')), out @ tx_out h', h')
      else if p_addr (peer_of (fd_of h) peer) = HDLC_INVALID_PEER_INDEX then (TINY_ERR_UNKNOWN_PEER, out, h)
      else
        let h1 = upd_fd (\<lambda>fd. check_idle_timeout fd peer) h
        in if waited then (int (length out), out, h1)
           else case tx_choose (fd_of h1) peer of (action, fd) \<Rightarrow>
             let h2 = upd_fd (\<lambda>_. fd) h1
             in (case action of
                   Put_frame r \<Rightarrow> get_tx_loop peer len (put_frame_ref r h2) out rep True
                 | Stop \<Rightarrow> (int (length out), out, h2)
                 | Nothing \<Rightarrow> if rep then get_tx_loop peer len h2 out False True
                             else (int (length out), out, h2)))"
  by pat_completeness auto
termination
proof (relation "measures [\<lambda>(peer, len, h, out, rep, waited). if waited then 0 else 1,
    \<lambda>(peer, len, h, out, rep, waited). 2 * (len - length out) + (if rep then 1 else 0)]", goal_cases)
  case (2 peer len h out rep waited generated h')
  then have w: "generated = int (length (tx_out h'))" "length (tx_out h') \<le> len - length out"
    using hdlc_ll_run_tx_written [of "slots_mem h" "len - length out" generated h'] by simp_all
  then have "0 < length (tx_out h')" using 2 by simp
  then have "len - (length out + length (tx_out h')) < len - length out"
    "Suc (2 * (len - (length out + length (tx_out h')))) < 2 * (len - length out)"
    using 2(1) w(2) by linarith+
  then show ?case by simp
next
  case (3 peer len h out rep waited generated h')
  then show ?case using hdlc_ll_run_tx_written [of "slots_mem h" "len - length out" generated h'] by auto
qed auto

declare get_tx_loop.simps [simp del]

text \<open>Returns the result, the bytes written to the buffer and the handle.\<close>

definition tiny_fd_get_tx_data :: "tiny_fd \<Rightarrow> nat \<Rightarrow> int \<times> u8 list \<times> tiny_fd" where
  "tiny_fd_get_tx_data h len = get_tx_loop (next_peer (fd_of h)) len h [] True False"

text \<open>
  \<open>tiny_fd_run_tx\<close> passes up to four bytes at a time to \<open>write_func\<close>; \<open>write\<close> is what it returns for the
  bytes and the number of the call. A write that accepts nothing for ever never returns (\<open>None\<close>).
\<close>

partial_function (option) write_loop :: "(nat \<Rightarrow> u8 list \<Rightarrow> int) \<Rightarrow> nat \<Rightarrow> u8 list \<Rightarrow> u8 list \<Rightarrow> (int \<times> u8 list) option" where
  "write_loop write k ptr written =
     (if ptr = [] then Some (TINY_SUCCESS, written)
      else if write k ptr < 0 then Some (write k ptr, written)
      else write_loop write (k + 1) (drop (nat (write k ptr)) ptr) (written @ take (nat (write k ptr)) ptr))"

definition tiny_fd_run_tx :: "tiny_fd \<Rightarrow> (nat \<Rightarrow> u8 list \<Rightarrow> int) \<Rightarrow> (int \<times> u8 list \<times> tiny_fd) option" where
  "tiny_fd_run_tx h write =
     (case tiny_fd_get_tx_data h 4 of (len, buf, h) \<Rightarrow>
        if len \<le> 0 then Some (len, [], h)
        else map_option (\<lambda>(r, written). (r, written, h)) (write_loop write 0 buf []))"

subsection \<open>Received bytes\<close>

text \<open>
  \<open>tiny_fd_on_rx_data\<close> feeds the low level until all bytes are taken; the loop is \<open>rx_feed\<close> of \<open>HdlcRx\<close>.
  \<open>tiny_fd_run_rx\<close> reads at most four bytes through \<open>read_func\<close>, whose result is an argument.
\<close>

definition tiny_fd_on_rx_data :: "tiny_fd \<Rightarrow> u8 list \<Rightarrow> int \<times> tiny_fd" where
  "tiny_fd_on_rx_data h data = (TINY_SUCCESS, rx_feed h data)"

definition tiny_fd_run_rx :: "tiny_fd \<Rightarrow> int \<Rightarrow> u8 list \<Rightarrow> int \<times> tiny_fd" where
  "tiny_fd_run_rx h read_result buf =
     (if read_result \<le> 0 then (read_result, h) else tiny_fd_on_rx_data h (take (nat read_result) buf))"

end
