(* ===== verification/FdServiceRing.thy ===== *)
theory FdServiceRing
  imports FdTxPath
begin

unbundle bit_operations_syntax

section \<open>The service queue is a FIFO queue\<close>

text \<open>
  A queue of slots with a lookup index that moves behind the slot freed last. As long as frames are
  freed in the order in which they are found, the slots in use follow each other around the table,
  from the lookup index on, and the queue is first in, first out. The numbers N(R) in the service frames
  of a station therefore reach the line in the order in which they were queued.
\<close>

definition busy :: "tiny_fd_frame_info \<Rightarrow> bool" where
  "busy f \<longleftrightarrow> f_type f \<noteq> TINY_FD_QUEUE_FREE"

definition ring :: "tiny_fd_queue \<Rightarrow> tiny_fd_frame_info list" where
  "ring q = rotate (q_lookup_index q) (q_frames q)"

text \<open>The frames that wait, first to go first.\<close>

definition waiting :: "tiny_fd_queue \<Rightarrow> tiny_fd_frame_info list" where
  "waiting q = takeWhile busy (ring q)"

definition ring_ok :: "tiny_fd_queue \<Rightarrow> bool" where
  "ring_ok q \<longleftrightarrow> queue_wf q \<and> (\<forall>f \<in> set (dropWhile busy (ring q)). \<not> busy f)"

subsection \<open>Positions in the ring\<close>

lemma ring_length [simp]: "length (ring q) = q_size q"
  by (simp add: ring_def)

lemma ring_nth: "k < q_size q \<Longrightarrow> ring q ! k = q_frames q ! ((q_lookup_index q + k) mod q_size q)"
  by (simp add: ring_def nth_rotate)

lemma mod_shift_inj:
  fixes n m k l :: nat
  assumes "l < m" "k < m"
  shows "(n + l) mod m = (n + k) mod m \<longleftrightarrow> l = k"
proof -
  have "l = k" if "(n + l) mod m = (n + k) mod m" "k \<le> l" "l < m" for k l
  proof -
    have "m dvd (n + l) - (n + k)" using that mod_eq_dvd_iff_nat [of "n + k" "n + l" m] by simp
    then have "m dvd l - k" by simp
    then show ?thesis using that by (auto dest: dvd_imp_le)
  qed
  from this [of l k] this [of k l] show ?thesis using assms by (metis le_cases)
qed

lemma ring_set_slot:
  assumes "k < q_size q"
  shows "ring (set_slot q ((q_lookup_index q + k) mod q_size q) f) = (ring q)[k := f]"
proof (rule nth_equalityI)
  fix l assume "l < length (ring (set_slot q ((q_lookup_index q + k) mod q_size q) f))"
  then have l: "l < q_size q" by simp
  moreover have "(q_lookup_index q + k) mod q_size q < q_size q" using l by (intro mod_less_divisor) linarith
  ultimately show "ring (set_slot q ((q_lookup_index q + k) mod q_size q) f) ! l = (ring q)[k := f] ! l"
    using assms mod_shift_inj [OF l assms, of "q_lookup_index q"]
    by (auto simp: ring_nth nth_list_update)
qed simp

lemma find_upt_takeWhile:
  "find (\<lambda>k. \<not> P (xs ! k)) [0..<length xs]
    = (if length (takeWhile P xs) < length xs then Some (length (takeWhile P xs)) else None)"
proof (cases "length (takeWhile P xs) < length xs")
  case True
  have "P (xs ! j)" if "j < length (takeWhile P xs)" for j
    using that takeWhile_nth [OF that] nth_mem [OF that] set_takeWhileD by metis
  then show ?thesis using True nth_length_takeWhile [OF True]
    by (auto simp: find_Some_iff intro!: exI [of _ "length (takeWhile P xs)"])
next
  case False
  then have "takeWhile P xs = xs" using length_takeWhile_le [of P xs] takeWhile_eq_take [of P xs] by simp
  then have "\<forall>x \<in> set xs. P x" by (simp add: takeWhile_eq_all_conv)
  then show ?thesis using False by (simp add: find_None_iff)
qed

lemma get_next_ring:
  assumes "queue_wf q"
  shows "tiny_fd_queue_get_next q type a n
    = (let k = length (takeWhile (\<lambda>f. \<not> frame_matches type a n f) (ring q))
       in if k < q_size q then Some ((q_lookup_index q + k) mod q_size q) else None)"
proof -
  let ?P = "\<lambda>f. \<not> frame_matches type a n f"
  let ?i = "\<lambda>k. (q_lookup_index q + k) mod q_size q"
  have "find Q (map ?i ks) = map_option ?i (find (Q \<circ> ?i) ks)" for Q ks by (induction ks) simp_all
  then have "find (\<lambda>i. frame_matches type a n (q_frames q ! i)) (map ?i [0..<q_size q])
      = map_option ?i (find (\<lambda>k. frame_matches type a n (q_frames q ! ?i k)) [0..<q_size q])"
    by (simp add: comp_def)
  moreover have "find (\<lambda>k. frame_matches type a n (q_frames q ! ?i k)) [0..<q_size q]
      = find (\<lambda>k. \<not> ?P (ring q ! k)) [0..<length (ring q)]"
    by (intro find_cong) (simp_all add: ring_nth)
  ultimately show ?thesis
    using assms find_upt_takeWhile [of ?P "ring q"]
    by (simp add: tiny_fd_queue_get_next_def queue_find_eq queue_wf_def Let_def)
qed

lemma ring_members: "set (ring q) = set (q_frames q)"
  by (simp add: ring_def)

lemma ring_split: "ring q = waiting q @ dropWhile busy (ring q)"
  by (simp add: waiting_def)

lemma waiting_nth: "k < length (waiting q) \<Longrightarrow> waiting q ! k = ring q ! k \<and> busy (ring q ! k)"
  using takeWhile_nth [of k busy "ring q"] nth_mem [of k "waiting q"] set_takeWhileD
  unfolding waiting_def by metis

lemma waiting_le: "length (waiting q) \<le> q_size q"
  using length_takeWhile_le [of busy "ring q"] by (simp add: waiting_def)

lemma waiting_members: "ring_ok q \<Longrightarrow> set (waiting q) = {f \<in> set (q_frames q). busy f}"
proof -
  assume "ring_ok q"
  moreover have "set (ring q) = set (waiting q) \<union> set (dropWhile busy (ring q))" by (metis ring_split set_append)
  ultimately show ?thesis unfolding ring_ok_def ring_members [symmetric]
    using set_takeWhileD [of _ busy "ring q"] by (auto simp: waiting_def)
qed

lemma waiting_split:
  assumes "ring q = xs @ ys" "\<forall>f \<in> set xs. busy f" "\<forall>f \<in> set ys. \<not> busy f" "queue_wf q"
  shows "waiting q = xs" "ring_ok q"
proof -
  have "takeWhile busy (xs @ ys) = xs" "dropWhile busy (xs @ ys) = ys"
    using assms(2,3) by (cases ys; simp)+
  then show "waiting q = xs" "ring_ok q" using assms by (simp_all add: waiting_def ring_ok_def)
qed

subsection \<open>The operations\<close>

lemma all_free_match:
  assumes "ring_ok q"
  shows "takeWhile (\<lambda>f. \<not> frame_matches TINY_FD_QUEUE_FREE a n f) (ring q) = waiting q"
proof -
  have "(\<not> frame_matches TINY_FD_QUEUE_FREE a n f) = busy f" if "f \<in> set (ring q)" for f
    using assms that queue_matches_free [of q f a n] by (simp add: ring_ok_def ring_members busy_def)
  then show ?thesis unfolding waiting_def by (intro takeWhile_cong) simp_all
qed

text \<open>A new frame goes to the end.\<close>

lemma allocate_last:
  assumes "ring_ok q" "tiny_fd_queue_allocate q type data = (Some i, q')"
    and "busy f" "slot_wf (q_mtu q) f" "f_header f = f_header (q_frames q ! i)"
  shows "waiting (set_slot q i f) = waiting q @ [f]" "ring_ok (set_slot q i f)"
proof -
  have wf: "queue_wf q" using assms(1) by (simp add: ring_ok_def)
  define k where "k = length (waiting q)"
  have "tiny_fd_queue_get_next q TINY_FD_QUEUE_FREE 0 0 = Some i"
    using assms(2) by (auto simp: tiny_fd_queue_allocate_def split: if_splits option.splits)
  then have k: "k < q_size q" and i: "i = (q_lookup_index q + k) mod q_size q"
    using get_next_ring [OF wf] all_free_match [OF assms(1)] by (auto simp: Let_def k_def split: if_splits)
  have il: "i < q_size q" using k by (simp add: i) (metis length_greater_0_conv less_nat_zero_code list.size(3) mod_less_divisor)
  define ys where "ys = dropWhile busy (ring q)"
  have r: "ring q = waiting q @ ys" by (simp add: ys_def waiting_def)
  then obtain y zs where y: "ys = y # zs" using k by (cases ys) (auto simp: k_def dest: arg_cong [of _ _ length])
  have "ring (set_slot q i f) = (waiting q @ [f]) @ zs"
    using ring_set_slot [OF k, of f] by (simp add: i r y k_def)
  moreover have "\<forall>g \<in> set (waiting q). busy g" by (auto simp: waiting_def dest: set_takeWhileD)
  moreover have "\<forall>g \<in> set zs. \<not> busy g" using assms(1) y by (simp add: ring_ok_def ys_def)
  moreover have "queue_wf (set_slot q i f)" using queue_wf_set_slot [OF wf il assms(4,5)] .
  ultimately show "waiting (set_slot q i f) = waiting q @ [f]" "ring_ok (set_slot q i f)"
    using waiting_split [of "set_slot q i f" "waiting q @ [f]" zs] assms(3) by auto
qed

text \<open>The lookup for a peer finds the first frame, when all frames are for this peer.\<close>

abbreviation next_s_u :: "tiny_fd_queue \<Rightarrow> u8 \<Rightarrow> nat option" where
  "next_s_u q a \<equiv> tiny_fd_queue_get_next q (TINY_FD_QUEUE_S_FRAME OR TINY_FD_QUEUE_U_FRAME) a 0"

lemma next_first:
  assumes "ring_ok q" "\<forall>f \<in> set (waiting q). f_type f \<in> {TINY_FD_QUEUE_S_FRAME, TINY_FD_QUEUE_U_FRAME} \<and> same_address a (f_address f)"
  shows "waiting q = f # fs \<Longrightarrow> next_s_u q a = Some (q_lookup_index q) \<and> q_frames q ! q_lookup_index q = f"
    and "waiting q = [] \<Longrightarrow> next_s_u q a = None"
proof -
  have wf: "queue_wf q" using assms(1) by (simp add: ring_ok_def)
  have sw: "slot_wf (q_mtu q) g" if "g \<in> set (ring q)" for g using wf that by (simp add: queue_wf_def ring_members)
  let ?P = "\<lambda>f. \<not> frame_matches (TINY_FD_QUEUE_S_FRAME OR TINY_FD_QUEUE_U_FRAME) a 0 f"
  show "next_s_u q a = Some (q_lookup_index q) \<and> q_frames q ! q_lookup_index q = f" if w: "waiting q = f # fs"
  proof -
    have f: "f \<in> set (ring q)" using w by (metis ring_split list.set_intros(1) Un_iff set_append)
    then have "\<not> ?P f" using assms(2) w matches_SU [OF sw [OF f]] by simp
    then have "takeWhile ?P (ring q) = []" by (subst ring_split) (simp add: w)
    moreover have "q_lookup_index q < q_size q" using wf by (simp add: queue_wf_def)
    moreover have "ring q ! 0 = f" by (subst ring_split) (simp add: w)
    ultimately show ?thesis using get_next_ring [OF wf] ring_nth [of 0 q] by auto
  qed
  show "next_s_u q a = None" if w: "waiting q = []"
  proof -
    have "?P g" if g: "g \<in> set (ring q)" for g
      using assms(1) w matches_SU [OF sw [OF g], of a 0] ring_split [of q] g
      by (auto simp: ring_ok_def busy_def queue_type_defs)
    then have "takeWhile ?P (ring q) = ring q" by simp
    then have "length (takeWhile ?P (ring q)) = q_size q" by (metis ring_length)
    then show ?thesis unfolding get_next_ring [OF wf] Let_def by simp
  qed
qed

text \<open>Freeing the first frame takes it off.\<close>

lemma ring_lookup:
  assumes "q_lookup_index q < q_size q"
  shows "ring (q\<lparr>q_lookup_index := (if q_lookup_index q + 1 \<ge> q_size q then q_lookup_index q + 1 - q_size q else q_lookup_index q + 1)\<rparr>)
    = rotate1 (ring q)"
proof -
  have "(if q_lookup_index q + 1 \<ge> q_size q then q_lookup_index q + 1 - q_size q else q_lookup_index q + 1) = Suc (q_lookup_index q) mod q_size q"
    using assms by (auto simp: mod_Suc)
  then show ?thesis by (simp add: ring_def flip: rotate_conv_mod rotate_Suc)
qed

lemma free_first:
  assumes "ring_ok q" "waiting q = f # fs"
  shows "waiting (tiny_fd_queue_free_by_header q (f_header f)) = fs" "ring_ok (tiny_fd_queue_free_by_header q (f_header f))"
proof -
  have wf: "queue_wf q" using assms(1) by (simp add: ring_ok_def)
  define i where "i = q_lookup_index q"
  have i: "i < q_size q" using wf by (simp add: queue_wf_def i_def)
  have "ring q ! 0 = f" by (subst ring_split) (simp add: assms(2))
  then have fi: "q_frames q ! i = f" using ring_nth [of 0 q] i by (cases "q_frames q") (auto simp: i_def)
  define g where "g = f\<lparr>f_type := TINY_FD_QUEUE_FREE\<rparr>"
  define zs where "zs = dropWhile busy (ring q)"
  have "ring (set_slot q i g) = (ring q)[0 := g]"
    using ring_set_slot [of 0 q g] i less_nat_zero_code by (cases "q_frames q") (auto simp: i_def)
  also have "\<dots> = g # fs @ zs" by (subst ring_split) (simp add: assms(2) zs_def)
  finally have r: "ring (set_slot q i g) = g # fs @ zs" .
  have free: "tiny_fd_queue_free_by_header q (f_header f)
      = (set_slot q i g)\<lparr>q_lookup_index := (if i + 1 \<ge> q_size q then i + 1 - q_size q else i + 1)\<rparr>"
    using free_index [OF wf i] fi by (simp add: tiny_fd_queue_free_def g_def)
  have "ring (tiny_fd_queue_free_by_header q (f_header f)) = fs @ zs @ [g]"
    using ring_lookup [of "set_slot q i g"] i r unfolding free by (simp add: i_def cong: if_cong)
  moreover have "\<forall>h \<in> set (f # fs). busy h" using assms(2) by (metis waiting_def set_takeWhileD)
  moreover have "\<forall>h \<in> set (zs @ [g]). \<not> busy h" using assms(1) by (auto simp: ring_ok_def zs_def g_def busy_def)
  ultimately show "waiting (tiny_fd_queue_free_by_header q (f_header f)) = fs" "ring_ok (tiny_fd_queue_free_by_header q (f_header f))"
    using waiting_split [of "tiny_fd_queue_free_by_header q (f_header f)" fs "zs @ [g]"] queue_wf_free_by_header [OF wf] by auto
qed

text \<open>Queueing a service frame: it goes to the end, or, without a free slot, is lost.\<close>

lemma put_u_s_frame_last:
  assumes "s_queue_wf (s_queue fd)" "ring_ok (s_queue fd)"
    and "type \<in> {TINY_FD_QUEUE_S_FRAME, TINY_FD_QUEUE_U_FRAME}" "2 \<le> length data" "length data \<le> 4"
  obtains (lost) "s_queue (snd (put_u_s_frame_to_tx_queue fd type data)) = s_queue fd"
  | (put) f where "waiting (s_queue (snd (put_u_s_frame_to_tx_queue fd type data))) = waiting (s_queue fd) @ [f]"
      "ring_ok (s_queue (snd (put_u_s_frame_to_tx_queue fd type data)))" "f_type f = type" "frame_bytes f = data" "f_len f = length data - 2"
proof -
  have q: "queue_wf (s_queue fd)" "q_mtu (s_queue fd) = 2" using assms(1) by (simp_all add: s_queue_wf_def)
  obtain r q' where al: "tiny_fd_queue_allocate (s_queue fd) type (drop 2 data) = (r, q')" by fastforce
  show thesis
  proof (cases r)
    case None
    then have "q' = s_queue fd" using al allocate_None_same by blast
    then show ?thesis using None al lost by (simp add: put_u_s_frame_to_tx_queue_def)
  next
    case (Some i)
    note a = allocate_Some [OF q(1) al [unfolded Some]]
    define f where "f = (put_payload (drop 2 data) (q_frames (s_queue fd) ! i))
      \<lparr>f_type := type, f_address := data ! 0, f_control := data ! 1\<rparr>"
    have s: "s_queue (snd (put_u_s_frame_to_tx_queue fd type data)) = set_slot (s_queue fd) i f"
      using al Some a(1,4) by (simp add: put_u_s_frame_to_tx_queue_def f_def set_events_def set_slot_def)
    have "slot_wf 2 (q_frames (s_queue fd) ! i)" using q a(1) by (auto simp: queue_wf_def)
    then have "busy f" "slot_wf (q_mtu (s_queue fd)) f" "f_header f = f_header (q_frames (s_queue fd) ! i)"
      using assms(3,4,5) q(2) by (auto simp: f_def busy_def slot_wf_def put_payload_def queue_type_defs)
    note la = allocate_last [OF assms(2) al [unfolded Some] this, folded s]
    obtain x y zs where "data = x # y # zs" using assms(4) by (metis Suc_le_length_iff numeral_2_eq_2)
    then have "frame_bytes f = data" "f_len f = length data - 2"
      by (simp_all add: frame_bytes_def frame_data_def f_def put_payload_def)
    then show ?thesis using put [OF la] by (simp add: f_def)
  qed
qed

end
