(* ===== verification/SlidingWindow.thy ===== *)
theory SlidingWindow
  imports TinyPrelude "HOL-Library.Sublist"
begin

section \<open>The sliding window protocol\<close>

text \<open>
  What the full duplex protocol of \<open>proto/fd\<close> promises between two connected stations, without buffers,
  addresses and numbers that wrap around: the abstract protocol that \<open>FdSession\<close> shows the code to
  implement. Each end counts what it has taken from its application, what the other end has confirmed,
  and what it has received. Packets travel on a line that may lose them but keeps their order.
\<close>

subsection \<open>The protocol\<close>

text \<open>
  An information packet carries the number of its payload, the payload, and how many payloads its sender
  has received; a service packet carries only the latter.
\<close>

datatype 'p packet = I_packet nat 'p nat | S_packet nat

fun received :: "'p packet \<Rightarrow> nat" where
  "received (I_packet i p r) = r"
| "received (S_packet r) = r"

text \<open>
  One end: the payloads accepted from the application, how many of them are confirmed, the payloads
  received, the service packets that wait, and the packets on the line to the other end.
\<close>

record 'p endpoint =
  accepted :: "'p list"
  confirmed :: nat
  got :: "'p list"
  queued :: "nat list"
  line :: "'p packet list"

abbreviation window_size :: nat where "window_size \<equiv> 7"

fun take_packet :: "'p packet \<Rightarrow> 'p endpoint \<Rightarrow> 'p endpoint" where
  "take_packet (I_packet i p r) y = y\<lparr>confirmed := r, got := got y @ (if i = length (got y) then [p] else [])\<rparr>"
| "take_packet (S_packet r) y = y\<lparr>confirmed := r\<rparr>"

text \<open>
  The steps of the first of two ends, and by symmetry of the second. Which payload of the window is
  sent, when it is repeated, and when the count of received payloads is reported is left open.
\<close>

inductive sw_step :: "'p endpoint \<times> 'p endpoint \<Rightarrow> 'p endpoint \<times> 'p endpoint \<Rightarrow> bool" where
  accept: "length (accepted x) < confirmed x + window_size \<Longrightarrow> sw_step (x, y) (x\<lparr>accepted := accepted x @ [p]\<rparr>, y)"
| report: "sw_step (x, y) (x\<lparr>queued := queued x @ [length (got x)]\<rparr>, y)"
| send_s: "queued x = r # rs \<Longrightarrow> sw_step (x, y) (x\<lparr>queued := rs, line := line x @ [S_packet r]\<rparr>, y)"
| send_i: "queued x = [] \<Longrightarrow> confirmed x \<le> i \<Longrightarrow> i < length (accepted x) \<Longrightarrow>
    sw_step (x, y) (x\<lparr>line := line x @ [I_packet i (accepted x ! i) (length (got x))]\<rparr>, y)"
| receive: "line y = m # ms \<Longrightarrow> sw_step (x, y) (take_packet m x, y\<lparr>line := ms\<rparr>)"
| lose: "line x = ms @ m # ns \<Longrightarrow> sw_step (x, y) (x\<lparr>line := ms @ ns\<rparr>, y)"
| other: "sw_step (y, x) (y', x') \<Longrightarrow> sw_step (x, y) (x', y')"

inductive_cases sw_stepE: "sw_step (x, y) s'"

subsection \<open>The invariant\<close>

definition numbers :: "'p packet list \<Rightarrow> nat list" where
  "numbers ms = concat (map (\<lambda>m. case m of I_packet i p r \<Rightarrow> [i] | S_packet r \<Rightarrow> []) ms)"

lemma numbers_simps [simp]:
  "numbers [] = []" "numbers (I_packet i p r # ms) = i # numbers ms" "numbers (S_packet r # ms) = numbers ms"
  "numbers (ms @ ns) = numbers ms @ numbers ns"
  by (simp_all add: numbers_def)

text \<open>A packet on the line holds a payload that was accepted, and is not too far behind the receiver.\<close>

definition packet_ok :: "'p list \<Rightarrow> nat \<Rightarrow> 'p packet \<Rightarrow> bool" where
  "packet_ok ps n m \<longleftrightarrow> (case m of I_packet i p r \<Rightarrow> i < length ps \<and> p = ps ! i \<and> n \<le> i + window_size | S_packet r \<Rightarrow> True)"

lemma packet_ok_simps [simp]:
  "packet_ok ps n (I_packet i p r) \<longleftrightarrow> i < length ps \<and> p = ps ! i \<and> n \<le> i + window_size"
  "packet_ok ps n (S_packet r)"
  by (simp_all add: packet_ok_def)

text \<open>The direction from \<open>x\<close> to \<open>y\<close>.\<close>

definition flows :: "'p endpoint \<Rightarrow> 'p endpoint \<Rightarrow> bool" where
  "flows x y \<longleftrightarrow> got y = take (length (got y)) (accepted x)
     \<and> length (accepted x) \<le> confirmed x + window_size
     \<and> (\<forall>m \<in> set (line x). packet_ok (accepted x) (length (got y)) m)
     \<and> sorted_wrt (\<lambda>i j. i < j + window_size) (numbers (line x))
     \<and> sorted (confirmed x # map received (line y) @ queued y @ [length (got y)])"

definition sw_inv :: "'p endpoint \<times> 'p endpoint \<Rightarrow> bool" where
  "sw_inv s \<longleftrightarrow> flows (fst s) (snd s) \<and> flows (snd s) (fst s)"

lemma flows_bounds:
  assumes "flows x y"
  shows "confirmed x \<le> length (got y)" "length (got y) \<le> length (accepted x)"
    and "m \<in> set (line y) \<Longrightarrow> confirmed x \<le> received m \<and> received m \<le> length (got y)"
proof -
  show "confirmed x \<le> length (got y)" using assms by (simp add: flows_def)
  show "length (got y) \<le> length (accepted x)" using assms unfolding flows_def by (metis length_take min.cobounded1)
  show "m \<in> set (line y) \<Longrightarrow> confirmed x \<le> received m \<and> received m \<le> length (got y)"
    using assms by (auto simp: flows_def sorted_append)
qed

lemma packet_ok_append: "packet_ok ps n m \<Longrightarrow> packet_ok (ps @ qs) n m"
  by (cases m) (simp_all add: nth_append)

lemma numbers_bounded: "\<forall>m \<in> set ms. packet_ok ps n m \<Longrightarrow> i \<in> set (numbers ms) \<Longrightarrow> i < length ps"
  by (induction ms) (auto simp: numbers_def split: packet.splits)

lemma flows_accept:
  assumes "flows x y" "length (accepted x) < confirmed x + window_size"
  shows "flows (x\<lparr>accepted := accepted x @ [p]\<rparr>) y"
proof -
  have "\<forall>m \<in> set (line x). packet_ok (accepted x @ [p]) (length (got y)) m"
    using assms(1) packet_ok_append unfolding flows_def by blast
  then show ?thesis using assms flows_bounds(2) [OF assms(1)] by (simp add: flows_def)
qed

lemma flows_send_i:
  assumes "flows x y" "confirmed x \<le> i" "i < length (accepted x)"
  shows "flows (x\<lparr>line := line x @ [I_packet i (accepted x ! i) n]\<rparr>) y"
proof -
  note f = assms(1) [unfolded flows_def]
  have "j < i + window_size" if "j \<in> set (numbers (line x))" for j
    using numbers_bounded [of "line x" "accepted x" "length (got y)" j] f that assms(2) by fastforce
  then show ?thesis
    using f flows_bounds(2) [OF assms(1)] assms(2,3) by (simp add: flows_def sorted_wrt_append)
qed

text \<open>The receiving side of the direction: a new payload is the next one.\<close>

lemma flows_receive:
  assumes "flows x y" "line x = m # ms"
  shows "flows (x\<lparr>line := ms\<rparr>) (take_packet m y)"
proof (cases "\<exists>p r. m = I_packet (length (got y)) p r")
  case False
  then have "got (take_packet m y) = got y" "line (take_packet m y) = line y" "queued (take_packet m y) = queued y"
    by (cases m; simp)+
  moreover have "sorted_wrt (\<lambda>i j. i < j + window_size) (numbers ms)" using assms by (cases m) (simp_all add: flows_def)
  ultimately show ?thesis using assms by (simp add: flows_def)
next
  case True
  define n where "n = length (got y)"
  obtain p r where m: "m = I_packet n p r" using True unfolding n_def by blast
  note f = assms(1) [unfolded flows_def assms(2) m]
  have p: "n < length (accepted x)" "p = accepted x ! n" using f by (simp_all add: n_def)
  then have g: "got y @ [p] = take (Suc n) (accepted x)" using f by (simp add: n_def take_Suc_conv_app_nth)
  have near: "\<forall>j \<in> set (numbers ms). n < j + window_size" using f by simp
  have "packet_ok (accepted x) (Suc n) k" if "k \<in> set ms" for k
  proof (cases k)
    case (I_packet j q s)
    then have "j \<in> set (numbers ms)" using that by (auto simp: numbers_def split: packet.splits intro!: bexI [of _ k])
    then show ?thesis using near f that I_packet by auto
  qed simp
  then show ?thesis using f g p near by (auto simp: flows_def m n_def sorted_append)
qed

text \<open>The sending side: the count in the packet is the new count of confirmed payloads.\<close>

lemma flows_confirm:
  assumes "flows y x" "line x = m # ms"
  shows "flows (take_packet m y) (x\<lparr>line := ms\<rparr>)"
proof -
  have "accepted (take_packet m y) = accepted y" "confirmed (take_packet m y) = received m" "line (take_packet m y) = line y"
    by (cases m; simp)+
  then show ?thesis using assms by (auto simp: flows_def)
qed

lemma flows_lose:
  assumes "line x = ms @ m # ns" "x' = x\<lparr>line := ms @ ns\<rparr>"
  shows "flows x y \<Longrightarrow> flows x' y" "flows y x \<Longrightarrow> flows y x'"
  using assms by (auto simp: flows_def sorted_wrt_append sorted_append split: packet.splits) (cases m; auto)+

theorem sw_step_inv: "sw_step s s' \<Longrightarrow> sw_inv s \<Longrightarrow> sw_inv s'"
proof (induction rule: sw_step.induct)
  case (accept x y p)
  then show ?case using flows_accept [of x y p] by (simp add: sw_inv_def flows_def)
next
  case (report x y)
  then show ?case by (auto simp: sw_inv_def flows_def sorted_append)
next
  case (send_s x r rs y)
  then show ?case by (auto simp: sw_inv_def flows_def)
next
  case (send_i x i y)
  then show ?case using flows_send_i [of x y i "length (got x)"] by (auto simp: sw_inv_def flows_def sorted_append)
next
  case (receive y m ms x)
  then show ?case using flows_receive [of y x m ms] flows_confirm [of x y m ms] by (simp add: sw_inv_def)
next
  case (lose x ms m ns y)
  then show ?case using flows_lose [OF lose(1) refl, of y] by (simp add: sw_inv_def)
next
  case (other y x y' x')
  then show ?case by (simp add: sw_inv_def)
qed

text \<open>
  The steps in between: a run of the protocol keeps the invariant, so what an end has received is always
  the beginning of what the other has accepted, and what is confirmed has been received.
\<close>

theorem sliding_window_correct:
  assumes "sw_step\<^sup>*\<^sup>* (x, y) (x', y')" "sw_inv (x, y)"
  shows "prefix (got y') (accepted x') \<and> confirmed x' \<le> length (got y')"
proof -
  have "sw_inv (x', y')" using assms by (induction rule: rtranclp_induct) (auto intro: sw_step_inv)
  then have f: "flows x' y'" by (simp add: sw_inv_def)
  then have "prefix (got y') (accepted x')" unfolding flows_def by (metis take_is_prefix)
  then show ?thesis using flows_bounds(1) [OF f] by simp
qed

end
