(* ===== verification/FdApi.thy ===== *)
theory FdApi
  imports FdTxPath
begin

unbundle bit_operations_syntax

section \<open>The calls of the application: tiny_fd.c\<close>

text \<open>
  Sending, status, disconnection and registration of peers.
  \<^item> A call that blocks in \<open>tiny_events_wait\<close> lets the other threads of the program run; what they do to
    the state meanwhile is the argument \<open>env\<close>. The wait sees the bits that are set when it starts, or
    else, if its timeout is not 0, those that are set after \<open>env\<close>.
  \<^item> The handle is not \<open>NULL\<close>, and a pointer that goes with a length is a list of bytes.
\<close>

subsection \<open>Waiting\<close>

definition wait_peer_events :: "(tiny_fd_data \<Rightarrow> tiny_fd_data) \<Rightarrow> u32 \<Rightarrow> u8 \<Rightarrow> u8 \<Rightarrow> bool \<Rightarrow> tiny_fd_data \<Rightarrow> u8 \<times> tiny_fd_data" where
  "wait_peer_events env timeout peer bits clear fd =
     (let fd = (if p_events (peer_of fd peer) AND bits = 0 \<and> timeout \<noteq> 0 then env fd else fd);
          (r, e) = tiny_events_wait (p_events (peer_of fd peer)) bits clear
      in (r, upd_peer peer (\<lambda>p. p\<lparr>p_events := e\<rparr>) fd))"

definition wait_fd_events :: "(tiny_fd_data \<Rightarrow> tiny_fd_data) \<Rightarrow> u32 \<Rightarrow> u8 \<Rightarrow> bool \<Rightarrow> tiny_fd_data \<Rightarrow> u8 \<times> tiny_fd_data" where
  "wait_fd_events env timeout bits clear fd =
     (let fd = (if events fd AND bits = 0 \<and> timeout \<noteq> 0 then env fd else fd)
      in wait_events bits clear fd)"

subsection \<open>Sending\<close>

text \<open>The address argument names the station itself when a secondary station talks to its primary.\<close>

definition target_peer :: "tiny_fd_data \<Rightarrow> u8 \<Rightarrow> u8" where
  "target_peer fd address =
     (let address = (if is_secondary_station fd \<and> address = TINY_FD_PRIMARY_ADDR then fd_addr fd else address)
      in address_field_to_peer fd (push_bit 2 address OR HDLC_E_BIT))"

definition set_peer_events :: "u8 \<Rightarrow> u8 \<Rightarrow> tiny_fd_data \<Rightarrow> tiny_fd_data" where
  "set_peer_events peer bits fd = upd_peer peer (\<lambda>p. p\<lparr>p_events := tiny_events_set (p_events p) bits\<rparr>) fd"

definition tiny_fd_send_packet_to ::
  "(tiny_fd_data \<Rightarrow> tiny_fd_data) \<Rightarrow> (tiny_fd_data \<Rightarrow> tiny_fd_data) \<Rightarrow> tiny_fd_data \<Rightarrow> u8 \<Rightarrow> u8 list \<Rightarrow> u32 \<Rightarrow> int \<times> tiny_fd_data" where
  "tiny_fd_send_packet_to env1 env2 fd address data timeout =
     (let peer = target_peer fd address
      in if peer = HDLC_INVALID_PEER_INDEX then (TINY_ERR_UNKNOWN_PEER, fd)
         else
           let (start_ms, fd) = tiny_millis fd
           in if int (length data) > tiny_fd_queue_get_mtu (i_queue fd) then (TINY_ERR_DATA_TOO_LARGE, fd)
              else
                let (accepts, fd) = wait_peer_events env1 timeout peer FD_EVENT_CAN_ACCEPT_I_FRAMES True fd
                in if accepts \<noteq> 0 then
                     let (now, fd) = tiny_millis fd;
                         delta_ms = now - start_ms;
                         (free, fd) = wait_fd_events env2 (if timeout > delta_ms then timeout - delta_ms else 0)
                                        FD_EVENT_QUEUE_HAS_FREE_SLOTS True fd
                     in if free \<noteq> 0 then
                          let (queued, fd) = put_i_frame_to_tx_queue fd peer data;
                              fd = (if queued \<and> tiny_fd_queue_has_free_slots (i_queue fd)
                                    then set_events FD_EVENT_QUEUE_HAS_FREE_SLOTS fd else fd);
                              result = (if queued then TINY_SUCCESS else TINY_ERR_TIMEOUT);
                              fd = (if \<not> i_queue_control_tx_full (i_queue_ctl (peer_of fd peer))
                                    then set_peer_events peer FD_EVENT_CAN_ACCEPT_I_FRAMES fd else fd)
                          in (result, fd)
                        else (TINY_ERR_TIMEOUT, set_peer_events peer FD_EVENT_CAN_ACCEPT_I_FRAMES fd)
                   else (TINY_ERR_TIMEOUT, fd))"

definition tiny_fd_send_packet ::
  "(tiny_fd_data \<Rightarrow> tiny_fd_data) \<Rightarrow> (tiny_fd_data \<Rightarrow> tiny_fd_data) \<Rightarrow> tiny_fd_data \<Rightarrow> u8 list \<Rightarrow> u32 \<Rightarrow> int \<times> tiny_fd_data" where
  "tiny_fd_send_packet env1 env2 fd data timeout = tiny_fd_send_packet_to env1 env2 fd TINY_FD_PRIMARY_ADDR data timeout"

definition tiny_fd_send_ui_packet_to :: "tiny_fd_data \<Rightarrow> u8 \<Rightarrow> u8 list \<Rightarrow> int \<times> tiny_fd_data" where
  "tiny_fd_send_ui_packet_to fd address data =
     (if int (length data) > tiny_fd_queue_get_mtu (s_queue fd) then (TINY_ERR_DATA_TOO_LARGE, fd)
      else
        let peer = target_peer fd address
        in if peer = HDLC_INVALID_PEER_INDEX then (TINY_ERR_UNKNOWN_PEER, fd)
           else case tiny_fd_queue_allocate (s_queue fd) TINY_FD_QUEUE_U_FRAME data of
                  (None, q) \<Rightarrow> (TINY_ERR_FAILED, fd\<lparr>s_queue := q\<rparr>)
                | (Some i, q) \<Rightarrow>
                    (TINY_SUCCESS, set_events FD_EVENT_TX_DATA_AVAILABLE (fd\<lparr>s_queue := set_slot q i
                       ((q_frames q ! i)\<lparr>f_address := peer_to_address_field fd peer,
                                         f_control := HDLC_U_FRAME_TYPE_UI OR HDLC_U_FRAME_BITS\<rparr>)\<rparr>)))"

definition tiny_fd_send_ui_packet :: "tiny_fd_data \<Rightarrow> u8 list \<Rightarrow> int \<times> tiny_fd_data" where
  "tiny_fd_send_ui_packet fd data = tiny_fd_send_ui_packet_to fd TINY_FD_PRIMARY_ADDR data"

definition tiny_fd_get_mtu :: "tiny_fd_data \<Rightarrow> int" where
  "tiny_fd_get_mtu fd = tiny_fd_queue_get_mtu (i_queue fd)"

text \<open>
  The loop over the chunks. With an mtu of 0 the C loop sends empty packets until one is refused; the
  model counts its rounds with \<open>fuel\<close>, and one round per byte is enough for a positive mtu.
\<close>

fun send_to_loop ::
  "(tiny_fd_data \<Rightarrow> tiny_fd_data) \<Rightarrow> (tiny_fd_data \<Rightarrow> tiny_fd_data) \<Rightarrow> nat \<Rightarrow> tiny_fd_data \<Rightarrow> u8 \<Rightarrow> u8 list \<Rightarrow> u32 \<Rightarrow> u8 list \<times> tiny_fd_data" where
  "send_to_loop env1 env2 0 fd address left timeout = (left, fd)"
| "send_to_loop env1 env2 (Suc fuel) fd address left timeout =
     (if left = [] then (left, fd)
      else
        let size = min (length left) (nat (tiny_fd_queue_get_mtu (i_queue fd)))
        in case tiny_fd_send_packet_to env1 env2 fd address (take size left) timeout of (result, fd) \<Rightarrow>
             if result \<noteq> TINY_SUCCESS then (left, fd)
             else send_to_loop env1 env2 fuel fd address (drop size left) timeout)"

definition tiny_fd_send_to ::
  "(tiny_fd_data \<Rightarrow> tiny_fd_data) \<Rightarrow> (tiny_fd_data \<Rightarrow> tiny_fd_data) \<Rightarrow> tiny_fd_data \<Rightarrow> u8 \<Rightarrow> u8 list \<Rightarrow> u32 \<Rightarrow> int \<times> tiny_fd_data" where
  "tiny_fd_send_to env1 env2 fd address data timeout =
     (case send_to_loop env1 env2 (length data) fd address data timeout of (left, fd) \<Rightarrow>
        (int (length data) - int (length left), fd))"

definition tiny_fd_send ::
  "(tiny_fd_data \<Rightarrow> tiny_fd_data) \<Rightarrow> (tiny_fd_data \<Rightarrow> tiny_fd_data) \<Rightarrow> tiny_fd_data \<Rightarrow> u8 list \<Rightarrow> u32 \<Rightarrow> int \<times> tiny_fd_data" where
  "tiny_fd_send env1 env2 fd data timeout = tiny_fd_send_to env1 env2 fd (drop_bit 2 HDLC_PRIMARY_ADDR) data timeout"

subsection \<open>Status, keep alive, disconnection\<close>

text \<open>The field has 16 bits, the argument 32.\<close>

definition tiny_fd_set_ka_timeout :: "tiny_fd_data \<Rightarrow> u32 \<Rightarrow> tiny_fd_data" where
  "tiny_fd_set_ka_timeout fd keep_alive = fd\<lparr>ka_timeout := ucast keep_alive\<rparr>"

definition tiny_fd_get_status :: "tiny_fd_data \<Rightarrow> int" where
  "tiny_fd_get_status fd =
     (if p_state (peer_of fd 0) = TINY_FD_STATE_CONNECTED \<or> p_state (peer_of fd 0) = TINY_FD_STATE_DISCONNECTING
      then TINY_SUCCESS else TINY_ERR_FAILED)"

definition tiny_fd_disconnect :: "tiny_fd_data \<Rightarrow> int \<times> tiny_fd_data" where
  "tiny_fd_disconnect fd =
     (case put_u_s_frame_to_tx_queue fd TINY_FD_QUEUE_U_FRAME
             [peer_to_address_field fd 0 OR HDLC_CR_BIT, HDLC_U_FRAME_TYPE_DISC OR HDLC_U_FRAME_BITS] of
        (None, fd) \<Rightarrow> (TINY_ERR_FAILED, fd)
      | (Some _, fd) \<Rightarrow> (TINY_SUCCESS, upd_peer 0 (\<lambda>p. p\<lparr>p_state := TINY_FD_STATE_DISCONNECTING\<rparr>) fd))"

subsection \<open>Registration of peers\<close>

fun find_free_peer :: "tiny_fd_peer_info list \<Rightarrow> u8 \<Rightarrow> u8 option" where
  "find_free_peer [] peer = None"
| "find_free_peer (p # ps) peer = (if p_addr p = HDLC_INVALID_PEER_INDEX then Some peer else find_free_peer ps (peer + 1))"

definition tiny_fd_register_peer :: "tiny_fd_data \<Rightarrow> u8 \<Rightarrow> int \<times> tiny_fd_data" where
  "tiny_fd_register_peer fd address =
     (if address > 63 then (TINY_ERR_FAILED, fd)
      else
        let address = push_bit 2 address OR HDLC_E_BIT
        in if address = HDLC_PRIMARY_ADDR OR HDLC_E_BIT then (TINY_ERR_FAILED, fd)
           else if address_field_to_peer fd address \<noteq> HDLC_INVALID_PEER_INDEX then (TINY_ERR_FAILED, fd)
           else case find_free_peer (take (unat (peers_count fd)) (peers fd)) 0 of
                  None \<Rightarrow> (TINY_ERR_FAILED, fd)
                | Some peer \<Rightarrow>
                    let (now, fd) = tiny_millis fd
                    in (TINY_SUCCESS, upd_peer peer (\<lambda>p. p\<lparr>p_addr := address,
                          last_received_frame_ts := now - ucast (retry_timeout fd)\<rparr>) fd))"

subsection \<open>Sizes\<close>

text \<open>
  \<open>tiny_fd_frame_info_t\<close> ends in a payload of two bytes, \<open>tiny_frame_header_t\<close> has two, and the
  service queue has room for \<open>TINY_FD_U_QUEUE_MAX_SIZE\<close> frames.
\<close>

definition TINY_FD_U_QUEUE_MAX_SIZE :: nat where "TINY_FD_U_QUEUE_MAX_SIZE = 4"

definition tiny_fd_buffer_size_by_mtu_ex :: "c_abi \<Rightarrow> u8 \<Rightarrow> int \<Rightarrow> int \<Rightarrow> hdlc_crc_t \<Rightarrow> int \<Rightarrow> int" where
  "tiny_fd_buffer_size_by_mtu_ex abi n mtu tx_frames crc rx_window =
     (let n = (if n = 0 then 1 else n);
          header_size = int (sizeof_fd_data abi) + int (align_struct abi) - 1 + int (unat n) * int (sizeof_peer_info abi);
          hdlc_level_rx_size = hdlc_ll_get_buf_size_ex abi (mtu + 2) crc rx_window;
          i_frame_tx_size = int (sizeof_ptr abi) + int (sizeof_frame_info abi) + mtu - 2;
          u_s_frame_tx_size = int (sizeof_ptr abi) + int (sizeof_frame_info abi)
      in header_size + hdlc_level_rx_size + i_frame_tx_size * tx_frames + u_s_frame_tx_size * int TINY_FD_U_QUEUE_MAX_SIZE)"

definition tiny_fd_buffer_size_by_mtu :: "c_abi \<Rightarrow> int \<Rightarrow> int \<Rightarrow> int" where
  "tiny_fd_buffer_size_by_mtu abi mtu window = tiny_fd_buffer_size_by_mtu_ex abi 0 mtu window HDLC_CRC_16 1"

end
