(* ===== verification/FdTxSpec.thy ===== *)
theory FdTxSpec
  imports FdTxPath
begin

unbundle bit_operations_syntax

section \<open>Sending frames: what the transmit path achieves\<close>

text \<open>
  The properties of the transmit side of the full duplex protocol: which frame is chosen, what the
  timeouts do, that the invariant is kept and the caller's buffer respected.
\<close>

subsection \<open>Rewriting the header of a queued frame\<close>

text \<open>Only the N(R) and P bits of a slot change: whose frame it is, its number and payload stay.\<close>

definition same_frame :: "tiny_fd_frame_info \<Rightarrow> tiny_fd_frame_info \<Rightarrow> bool" where
  "same_frame f g \<longleftrightarrow> f_type g = f_type f \<and> f_len g = f_len f \<and> f_address g = f_address f
     \<and> f_payload g = f_payload f \<and> f_header g = f_header f
     \<and> frame_seq g = frame_seq f \<and> even (f_control g) = even (f_control f)"

lemma same_frame_refl [simp]: "same_frame f f"
  by (simp add: same_frame_def)

lemma stamp_same [simp]: "same_frame f (stamp_nr nr f)"
proof -
  have "drop_bit 1 ((c AND 0x0F) OR push_bit 5 nr) AND 7 = drop_bit 1 c AND 7" for c :: u8
  proof (rule bit_word_eqI)
    fix n assume "n < LENGTH(8)"
    have "bit (7 :: u8) n \<longleftrightarrow> n < 3" "bit (0x0F :: u8) (Suc n) \<longleftrightarrow> Suc n < 4"
      using bit_mask_iff [of 3 n, where 'a = u8] bit_mask_iff [of 4 "Suc n", where 'a = u8] \<open>n < LENGTH(8)\<close>
      by (auto simp: mask_eq_exp_minus_1)
    then show "bit (drop_bit 1 ((c AND 0x0F) OR push_bit 5 nr) AND 7) n = bit (drop_bit 1 c AND 7) n"
      by (auto simp: bit_simps simp del: push_bit_Suc)
  qed
  then show ?thesis by (simp add: same_frame_def stamp_nr_def frame_seq_def even_or_iff even_and_iff even_push_bit_iff)
qed

lemma poll_same [simp]: "same_frame f (set_poll f)"
proof -
  have "drop_bit 1 (c OR 0x10) AND 7 = drop_bit 1 c AND (7 :: u8)" for c
  proof -
    have "drop_bit 1 (c OR 0x10) AND 7 = (drop_bit 1 c AND 7) OR (drop_bit 1 0x10 AND (7 :: u8))"
      by (simp only: drop_bit_or bit.conj_disj_distrib2)
    moreover have "drop_bit 1 0x10 AND (7 :: u8) = 0" by code_simp
    ultimately show ?thesis by simp
  qed
  then show ?thesis by (simp add: same_frame_def set_poll_def frame_seq_def HDLC_P_BIT_def even_or_iff)
qed

lemma same_frame_slot: "same_frame f g \<Longrightarrow> i_slot a n g = i_slot a n f \<and> frame_data g = frame_data f \<and> slot_wf m g = slot_wf m f"
  by (simp add: same_frame_def i_slot_def frame_data_def slot_wf_def)

lemma iq_same_frame:
  assumes "iq_wf q" "i < q_size q" "same_frame (q_frames q ! i) f"
  shows "iq_wf (set_slot q i f)" and "i_lookup a (set_slot q i f) = i_lookup a q"
proof -
  have s: "i_slot b n ((q_frames q)[i := f] ! j) = i_slot b n (q_frames q ! j)"
    "frame_data ((q_frames q)[i := f] ! j) = frame_data (q_frames q ! j)" for b n j
    using same_frame_slot [OF assms(3)] assms(2) by (cases "j = i"; simp)+
  have wf: "slot_wf (q_mtu q) f" using assms(1,2) same_frame_slot [OF assms(3)] by (auto simp: iq_wf_def queue_wf_def)
  have ok: "i_slot_ok f" using assms by (auto simp: iq_wf_def same_frame_def i_slot_ok_def)
  have other: "\<not> i_slot b n (q_frames q ! j)" if "j < q_size q" "j \<noteq> i" "i_slot b n f" for b n j
    using assms(1,2) that same_frame_slot [OF assms(3)] unfolding iq_wf_def slots_unique_def by blast
  show iq: "iq_wf (set_slot q i f)"
    using iq_wf_set_slot [OF assms(1,2) wf _ ok other] assms(3) by (simp add: same_frame_def)
  have "i_lookup a (set_slot q i f) n = Some d \<longleftrightarrow> i_lookup a q n = Some d" for n d
    unfolding i_lookup_Some [OF assms(1)] i_lookup_Some [OF iq] by (simp add: s)
  then show "i_lookup a (set_slot q i f) = i_lookup a q" by (metis ext not_Some_eq)
qed

lemma s_queue_same_frame:
  assumes "s_queue_wf q" "i < q_size q" "same_frame (q_frames q ! i) f"
  shows "s_queue_wf (set_slot q i f)"
proof -
  have "slot_wf 2 (q_frames q ! i)" using assms(1,2) by (auto simp: s_queue_wf_def queue_wf_def)
  moreover have "f_type (q_frames q ! i) \<in> {TINY_FD_QUEUE_FREE, TINY_FD_QUEUE_S_FRAME, TINY_FD_QUEUE_U_FRAME}"
    using assms(1,2) nth_mem unfolding s_queue_wf_def by blast
  ultimately show ?thesis
    using s_queue_wf_set_slot [OF assms(1,2)] same_frame_slot [OF assms(3)] assms(3) unfolding same_frame_def by metis
qed

text \<open>A reference to an existing slot.\<close>

fun ref_ok :: "tiny_fd_data \<Rightarrow> frame_ref \<Rightarrow> bool" where
  "ref_ok fd (I_slot i) = (i < q_size (i_queue fd))"
| "ref_ok fd (S_slot i) = (i < q_size (s_queue fd))"

lemma upd_frame_fields [simp]:
  "peer_of (upd_frame r f fd) p = peer_of fd p" "calls (upd_frame r f fd) = calls fd"
  "peers_count (upd_frame r f fd) = peers_count fd" "length (peers (upd_frame r f fd)) = length (peers fd)"
  "next_peer (upd_frame r f fd) = next_peer fd" "fd_mode (upd_frame r f fd) = fd_mode fd" "fd_addr (upd_frame r f fd) = fd_addr fd"
  "clock (upd_frame r f fd) = clock fd" "ticks (upd_frame r f fd) = ticks fd" "events (upd_frame r f fd) = events fd"
  "on_connect_event_cb (upd_frame r f fd) = on_connect_event_cb fd" "on_send_cb (upd_frame r f fd) = on_send_cb fd"
  "on_read_cb (upd_frame r f fd) = on_read_cb fd" "on_read_ui_cb (upd_frame r f fd) = on_read_ui_cb fd"
  "log_frame_cb (upd_frame r f fd) = log_frame_cb fd" "retries (upd_frame r f fd) = retries fd"
  "retry_timeout (upd_frame r f fd) = retry_timeout fd" "ka_timeout (upd_frame r f fd) = ka_timeout fd"
  by (cases r; simp add: peer_of_def)+

lemma touches_upd_frame:
  assumes "registered fd p" "ref_ok fd r" "same_frame (frame_at fd r) (f (frame_at fd r))"
  shows "touches p fd (upd_frame r f fd)" and "tx_window (upd_frame r f fd) q = tx_window fd q"
proof -
  note wf = registeredD(1) [OF assms(1)]
  have iq: "iq_wf (i_queue (upd_frame r f fd))" "i_lookup a (i_queue (upd_frame r f fd)) = i_lookup a (i_queue fd)"
    "s_queue_wf (s_queue (upd_frame r f fd))" for a
    using assms(2,3) wf iq_same_frame s_queue_same_frame by (cases r; simp add: fd_wf_def)+
  have addr: "peer_to_address_field (upd_frame r f fd) q = peer_to_address_field fd q" for q
    by (simp add: peer_to_address_field_def)
  show w: "tx_window (upd_frame r f fd) q = tx_window fd q" for q by (simp add: tx_window_def addr iq)
  have "peer_wf (upd_frame r f fd) q = peer_wf fd q" for q by (simp add: peer_wf_def window_ok_def addr iq)
  then have "fd_wf (upd_frame r f fd)"
    using wf iq(1,3) addresses_distinct_cong [of "upd_frame r f fd" fd] station_ok_cong [of "upd_frame r f fd" fd]
    by (simp add: fd_wf_def table_wf_def)
  then show "touches p fd (upd_frame r f fd)" using w by (simp add: touches_def same_config_def)
qed


subsection \<open>The I-frame that goes out\<close>

text \<open>The header of an I-frame, N(R) \<open>nr\<close> and N(S) \<open>ns\<close>, and the frame.\<close>

definition i_frame_bytes :: "u8 \<Rightarrow> u8 \<Rightarrow> u8 \<Rightarrow> u8 list \<Rightarrow> u8 list" where
  "i_frame_bytes a nr ns d = a # (push_bit 1 ns OR push_bit 5 nr) # d"

lemma same_address_eq: "same_address a b \<Longrightarrow> a AND 3 = 1 \<Longrightarrow> b AND 3 = 1 \<Longrightarrow> a = b"
proof -
  assume *: "same_address a b" "a AND 3 = 1" "b AND 3 = 1"
  have "(0xFC :: u8) OR 3 = - 1" by simp
  then have "x = (x AND 0xFC) OR (x AND 3)" for x :: u8
    by (metis bit.conj_disj_distrib and.right_neutral)
  then show "a = b" using * by (metis same_address_def)
qed

lemma stamped_control:
  assumes "frame_seq f = n" "even (f_control f)"
  shows "f_control (stamp_nr nr f) = push_bit 1 n OR push_bit 5 nr"
proof -
  have "f_control f AND 0x0F = push_bit 1 n"
  proof (rule bit_word_eqI)
    fix i assume "i < LENGTH(8)"
    then have i: "i \<in> {0, 1, 2, 3, 4, 5, 6, 7}" by auto
    have "\<not> bit (f_control f) 0" using assms(2) by (simp add: bit_0)
    then show "bit (f_control f AND 0x0F) i = bit (push_bit 1 n) i"
      using i assms(1) by (auto simp: frame_seq_def bit_simps numeral_2_eq_2 numeral_3_eq_3 simp del: push_bit_Suc)
  qed
  then show ?thesis by (simp add: stamp_nr_def)
qed

lemma stamped_bytes:
  assumes "iq_wf q" "i < q_size q" "i_slot a n (q_frames q ! i)" "a AND 3 = 1"
  shows "frame_bytes (stamp_nr nr (q_frames q ! i)) = i_frame_bytes a nr n (frame_data (q_frames q ! i))"
proof -
  define f where "f = q_frames q ! i"
  have "i_slot_ok f" using assms(1,2) by (simp add: iq_wf_def f_def)
  then have "f_address f AND 3 = 1" "even (f_control f)" using assms(3) by (auto simp: i_slot_ok_def i_slot_def f_def queue_type_defs)
  moreover have "same_address a (f_address f)" "frame_seq f = n" using assms(3) by (simp_all add: i_slot_def f_def)
  ultimately have "f_address f = a" "f_control (stamp_nr nr f) = push_bit 1 n OR push_bit 5 nr"
    using same_address_eq [OF _ assms(4)] stamped_control by blast+
  then show ?thesis
    using same_frame_slot [OF stamp_same [of f nr]] stamp_same [of f nr]
    by (simp add: frame_bytes_def i_frame_bytes_def same_frame_def flip: f_def)
qed

text \<open>Slot \<open>k\<close> goes out to peer \<open>p\<close>, whose state \<open>g\<close> changes besides.\<close>

definition i_frame_out :: "u8 \<Rightarrow> nat \<Rightarrow> (tiny_fd_peer_info \<Rightarrow> tiny_fd_peer_info) \<Rightarrow> tiny_fd_data \<Rightarrow> tiny_fd_data" where
  "i_frame_out p k g fd =
     (upd_peer p (\<lambda>x. (g x)\<lparr>sent_nr := next_nr (ctl fd p), last_sent_i_ts := clock fd (ticks fd)\<rparr>)
       (upd_frame (I_slot k) (stamp_nr (next_nr (ctl fd p))) fd))\<lparr>ticks := ticks fd + 1\<rparr>"

definition srej_cleared :: "nat \<Rightarrow> tiny_fd_peer_info \<Rightarrow> tiny_fd_peer_info" where
  "srej_cleared i x = x\<lparr>srej_req_mask := srej_req_mask x AND NOT (push_bit i 1)\<rparr>"

definition ns_moved :: "tiny_fd_peer_info \<Rightarrow> tiny_fd_peer_info" where
  "ns_moved x = x\<lparr>i_queue_ctl := i_queue_control_move_to_next_ns (i_queue_ctl x)\<rparr>"

definition may_send_i :: "tiny_fd_data \<Rightarrow> u8 \<Rightarrow> bool" where
  "may_send_i fd p \<longleftrightarrow> p_state (peer_of fd p) \<noteq> TINY_FD_STATE_DISCONNECTED \<and> p_state (peer_of fd p) \<noteq> TINY_FD_STATE_CONNECTING"

abbreviation i_next :: "tiny_fd_queue \<Rightarrow> u8 \<Rightarrow> u8 \<Rightarrow> nat option" where
  "i_next q a n \<equiv> tiny_fd_queue_get_next q TINY_FD_QUEUE_I_FRAME a n"

lemma get_next_i_frame_eq:
  assumes "unat p < length (peers fd)"
  shows "tiny_fd_get_next_i_frame fd p a =
    (if \<not> may_send_i fd p then (None, fd)
     else if srej_req_mask (peer_of fd p) \<noteq> 0
     then (case find (\<lambda>i. srej_req_mask (peer_of fd p) AND push_bit i 1 \<noteq> 0) [0..<8] of
             None \<Rightarrow> (None, fd)
           | Some i \<Rightarrow> (case i_next (i_queue fd) a (of_nat i) of
               None \<Rightarrow> (None, upd_peer p (srej_cleared i) fd)
             | Some k \<Rightarrow> (Some k, i_frame_out p k (srej_cleared i) fd)))
     else (case i_next (i_queue fd) a (next_ns (ctl fd p)) of
             None \<Rightarrow> (None, fd)
           | Some k \<Rightarrow> (Some k, i_frame_out p k ns_moved fd)))"
  using assms
  by (auto simp: tiny_fd_get_next_i_frame_def Let_def tiny_millis_def may_send_i_def i_frame_out_def srej_cleared_def [abs_def]
      ns_moved_def [abs_def] upd_peer_twice peer_of_upd_peer i_queue_control_get_next_frame_to_receive_def
      i_queue_control_get_next_frame_to_send_def
      split: option.split intro!: upd_peer_cong)

lemma seqs_nth: "i < n \<Longrightarrow> seqs a n ! i = seq_add a i"
  by (induction n arbitrary: a i) (auto simp: less_Suc_eq_0_disj)

text \<open>The frame with number \<open>n\<close> is in the queue exactly if the window reaches that far.\<close>

lemma window_lookup:
  assumes "fd_wf fd" "p < peers_count fd" "n < 8"
  defines "d \<equiv> seq_dist (confirm_ns (ctl fd p)) n"
  shows "i_lookup (peer_to_address_field fd p) (i_queue fd) n =
    (if d < length (tx_window fd p) then Some (tx_window fd p ! d) else None)"
proof -
  note w = window_holds [OF assms(1,2)]
  have c: "confirm_ns (ctl fd p) < 8" using w(3) by (simp add: control_wf_def)
  have "in_window (confirm_ns (ctl fd p)) (last_ns (ctl fd p)) n \<longleftrightarrow> d < length (tx_window fd p)"
    using assms(3) by (simp add: in_window_def d_def tx_window_length)
  then have "d < length (tx_window fd p) \<longleftrightarrow> (\<exists>x. i_lookup (peer_to_address_field fd p) (i_queue fd) n = Some x)"
    using iq.holds_lookup [OF w(1)] by blast
  moreover have "tx_window fd p ! d = the (i_lookup (peer_to_address_field fd p) (i_queue fd) n)" if "d < length (tx_window fd p)"
    using that seq_add_dist [OF c assms(3)] by (simp add: tx_window_def seqs_nth flip: d_def)
  ultimately show ?thesis by auto
qed

lemma i_next_lookup:
  assumes "iq_wf q" "i_next q a n = r"
  shows "i_lookup a q n = map_option (\<lambda>k. frame_data (q_frames q ! k)) r"
    and "r = Some k \<Longrightarrow> k < q_size q \<and> i_slot a n (q_frames q ! k)"
  using assms get_next_I_Some [OF iq_wf_queue [OF assms(1)]] by (simp_all add: i_lookup_def)

lemma tx_window_fields [simp]:
  "tx_window (fd\<lparr>ticks := t\<rparr>) q = tx_window fd q" "tx_window (fd\<lparr>last_marker_ts := m\<rparr>) q = tx_window fd q"
  "tx_window (fd\<lparr>events := e\<rparr>) q = tx_window fd q"
  by (simp_all add: tx_window_def peer_to_address_field_def)

text \<open>Fields that the handlers may change freely.\<close>

lemma touches_fields:
  assumes "touches p fd0 fd"
  shows "touches p fd0 (fd\<lparr>ticks := t\<rparr>)" "touches p fd0 (fd\<lparr>last_marker_ts := m\<rparr>)" "touches p fd0 (fd\<lparr>events := e\<rparr>)"
  using assms by (simp_all add: touches_def same_config_def)

lemma i_frame_out_facts:
  assumes "registered fd p" "k < q_size (i_queue fd)" "p_addr (g (peer_of fd p)) = p_addr (peer_of fd p)"
    "confirm_ns (i_queue_ctl (g (peer_of fd p))) = confirm_ns (ctl fd p)" "last_ns (i_queue_ctl (g (peer_of fd p))) = last_ns (ctl fd p)"
    "next_ns (i_queue_ctl (g (peer_of fd p))) < 8" "next_nr (i_queue_ctl (g (peer_of fd p))) < 8"
  defines "fd' \<equiv> i_frame_out p k g fd"
  shows "touches p fd fd'" "tx_window fd' p = tx_window fd p" "s_queue fd' = s_queue fd" "calls fd' = calls fd" "events fd' = events fd"
    and "peer_of fd' p = (g (peer_of fd p))\<lparr>sent_nr := next_nr (ctl fd p), last_sent_i_ts := clock fd (ticks fd)\<rparr>"
    and "frame_at fd' (I_slot k) = stamp_nr (next_nr (ctl fd p)) (q_frames (i_queue fd) ! k)" "q_size (i_queue fd') = q_size (i_queue fd)"
proof -
  let ?nr = "next_nr (ctl fd p)"
  define fd1 where "fd1 = upd_frame (I_slot k) (stamp_nr ?nr) fd"
  let ?g = "\<lambda>x. (g x)\<lparr>sent_nr := ?nr, last_sent_i_ts := clock fd (ticks fd)\<rparr>"
  have fd': "fd' = (upd_peer p ?g fd1)\<lparr>ticks := ticks fd + 1\<rparr>" by (simp only: fd'_def i_frame_out_def fd1_def)
  have 1: "touches p fd fd1" "tx_window fd1 p = tx_window fd p"
    unfolding fd1_def by (rule touches_upd_frame [OF assms(1)]; use assms(2) in simp)+
  have reg: "registered fd1 p" using touches_registered [OF 1(1) assms(1)] .
  have same: "peer_of fd1 p = peer_of fd p" by (simp add: fd1_def)
  note 2 = touches_upd_peer [where f = ?g, OF reg]
  show "touches p fd fd'" unfolding fd'
    by (rule touches_fields, rule touches_trans [OF 1(1) 2(1)]) (use assms(3-7) same in simp_all)
  show "tx_window fd' p = tx_window fd p" unfolding fd' using 2(2) 1(2) assms(3-7) same by simp
  show "peer_of fd' p = ?g (peer_of fd p)" unfolding fd' using 2(3) assms(3-7) same by simp
  show "s_queue fd' = s_queue fd" "calls fd' = calls fd" "events fd' = events fd"
    unfolding fd' by (simp_all add: fd1_def)
  show "frame_at fd' (I_slot k) = stamp_nr ?nr (q_frames (i_queue fd) ! k)" "q_size (i_queue fd') = q_size (i_queue fd)"
    using assms(2) unfolding fd' by (simp_all add: fd1_def)
qed

lemma i_frame_out_steps:
  assumes "registered fd p" "k < q_size (i_queue fd)"
  shows "touches p fd (i_frame_out p k ns_moved fd)" "touches p fd (i_frame_out p k (srej_cleared i) fd)"
  using i_frame_out_facts(1) [OF assms, of ns_moved] i_frame_out_facts(1) [OF assms, of "srej_cleared i"]
    control_less [OF assms(1)] and_7_less
  by (simp_all add: ns_moved_def srej_cleared_def i_queue_control_move_to_next_ns_def seq_bits_mask_def)

lemma touches_next_i_frame:
  assumes "registered fd p"
  shows "touches p fd (snd (tiny_fd_get_next_i_frame fd p a))"
    and "fst (tiny_fd_get_next_i_frame fd p a) = Some k \<Longrightarrow> ref_ok (snd (tiny_fd_get_next_i_frame fd p a)) (I_slot k)"
proof -
  have iq: "iq_wf (i_queue fd)" using registeredD(1) [OF assms] by (simp add: fd_wf_def)
  have sz: "q_size (i_queue (i_frame_out p k g fd)) = q_size (i_queue fd)" for k g by (simp add: i_frame_out_def)
  have k: "k < q_size (i_queue fd)" if "i_next (i_queue fd) a n = Some k" for n k
    using i_next_lookup(2) [OF iq that] by simp
  have srej: "touches p fd (upd_peer p (srej_cleared i) fd)" for i
    using touches_upd_peer_plain(1) [where f = "srej_cleared i", OF assms] by (simp add: srej_cleared_def)
  show "touches p fd (snd (tiny_fd_get_next_i_frame fd p a))"
    using k i_frame_out_steps [OF assms] srej touches_refl [OF registeredD(1) [OF assms]]
    by (simp add: get_next_i_frame_eq [OF registeredD(4) [OF assms]] split: option.split)
  show "fst (tiny_fd_get_next_i_frame fd p a) = Some k \<Longrightarrow> ref_ok (snd (tiny_fd_get_next_i_frame fd p a)) (I_slot k)"
    using k by (auto simp: get_next_i_frame_eq [OF registeredD(4) [OF assms]] sz split: option.splits if_splits)
qed

subsection \<open>The invariant of the transmit path\<close>

lemma next_s_u_facts:
  assumes "registered fd p" "tiny_fd_get_next_s_u_frame_to_send fd p a = (r, fd')"
  shows "touches p fd fd'" "i_queue fd' = i_queue fd" "s_queue fd' = s_queue fd" "calls fd' = calls fd" "events fd' = events fd"
    and "ctl fd' p = ctl fd p" "p_state (peer_of fd' p) = p_state (peer_of fd p)" "tx_window fd' p = tx_window fd p"
    and "r = tiny_fd_queue_get_next (s_queue fd) (TINY_FD_QUEUE_S_FRAME OR TINY_FD_QUEUE_U_FRAME) a 0"
    and "r = None \<Longrightarrow> fd' = fd" and "r = Some k \<Longrightarrow> ref_ok fd' (S_slot k)"
proof -
  have wf: "queue_wf (s_queue fd)" using registeredD(1) [OF assms(1)] by (simp add: fd_wf_def s_queue_wf_def)
  let ?f = "\<lambda>n x. x\<lparr>sent_nr := n\<rparr> :: tiny_fd_peer_info"
  have u: "touches p fd (upd_peer p (?f n) fd)" "tx_window (upd_peer p (?f n) fd) p = tx_window fd p"
    "peer_of (upd_peer p (?f n) fd) p = ?f n (peer_of fd p)" for n
    using touches_upd_peer_plain [where f = "?f n", OF assms(1)] by simp_all
  show q: "r = tiny_fd_queue_get_next (s_queue fd) (TINY_FD_QUEUE_S_FRAME OR TINY_FD_QUEUE_U_FRAME) a 0"
    using assms(2) by (auto simp: tiny_fd_get_next_s_u_frame_to_send_def Let_def split: option.splits if_splits)
  have "fd' = fd \<or> (\<exists>n. fd' = upd_peer p (?f n) fd)"
    using assms(2) by (auto simp: tiny_fd_get_next_s_u_frame_to_send_def Let_def split: option.splits if_splits)
  then show "touches p fd fd'" "i_queue fd' = i_queue fd" "s_queue fd' = s_queue fd" "calls fd' = calls fd" "events fd' = events fd"
    "ctl fd' p = ctl fd p" "p_state (peer_of fd' p) = p_state (peer_of fd p)" "tx_window fd' p = tx_window fd p"
    using u touches_refl [OF registeredD(1) [OF assms(1)]] by auto
  then show "r = Some k \<Longrightarrow> ref_ok fd' (S_slot k)" using get_next_Some [OF wf] q by simp
  show "r = None \<Longrightarrow> fd' = fd"
    using assms(2) by (auto simp: tiny_fd_get_next_s_u_frame_to_send_def Let_def split: option.splits if_splits)
qed

lemma touches_mark_poll:
  assumes "registered fd p" "ref_ok fd r"
  shows "touches p fd (mark_poll fd p r)" "tx_window (mark_poll fd p r) q = tx_window fd q" "ref_ok (mark_poll fd p r) r"
proof -
  note u = touches_upd_frame [OF assms, of set_poll]
  have "mark_poll fd p r = fd \<or> mark_poll fd p r = upd_frame r set_poll fd" by (simp add: mark_poll_def Let_def)
  moreover have "ref_ok (upd_frame r f fd) r" for f using assms(2) by (cases r) simp_all
  ultimately show "touches p fd (mark_poll fd p r)" "tx_window (mark_poll fd p r) q = tx_window fd q" "ref_ok (mark_poll fd p r) r"
    using u touches_refl [OF registeredD(1) [OF assms(1)]] assms(2) by auto
qed

lemma touches_marker_frame:
  assumes "registered fd p"
  shows "touches p fd (put_marker_frame fd p a)"
  by (simp add: put_marker_frame_def touches_put(1) [OF assms])

text \<open>The frame is chosen, then marked, noted and logged.\<close>

definition choose_frame :: "tiny_fd_data \<Rightarrow> u8 \<Rightarrow> frame_ref option \<times> tiny_fd_data" where
  "choose_frame fd p =
     (let a = peer_to_address_field fd p
      in case tiny_fd_get_next_s_u_frame_to_send fd p a of
           (Some k, fd) \<Rightarrow> (Some (S_slot k), fd)
         | (None, fd) \<Rightarrow>
             (case tiny_fd_get_next_i_frame fd p a of
                (Some k, fd) \<Rightarrow> (Some (I_slot k), fd)
              | (None, fd) \<Rightarrow>
                  if fd_mode fd = TINY_FD_MODE_NRM
                  then (case tiny_fd_get_next_s_u_frame_to_send (put_marker_frame fd p a) p a of
                          (k, fd) \<Rightarrow> (map_option S_slot k, fd))
                  else (None, fd)))"

definition sent_frame :: "tiny_fd_data \<Rightarrow> u8 \<Rightarrow> frame_ref \<Rightarrow> tiny_fd_data" where
  "sent_frame fd p r =
     (let fd1 = (upd_peer p (\<lambda>x. x\<lparr>last_sent_frame_ts := clock fd (ticks fd + 1)\<rparr>)
            ((mark_poll fd p r)\<lparr>ticks := ticks fd + 1, last_marker_ts := clock fd (ticks fd)\<rparr>))\<lparr>ticks := ticks fd + 2\<rparr>
      in tiny_fd_log_frame TINY_FD_FRAME_DIRECTION_OUT (frame_bytes (frame_at fd1 r)) fd1)"

lemma mark_poll_fields [simp]:
  "clock (mark_poll fd p r) = clock fd" "ticks (mark_poll fd p r) = ticks fd" "calls (mark_poll fd p r) = calls fd"
  "events (mark_poll fd p r) = events fd" "peer_of (mark_poll fd p r) q = peer_of fd q" "fd_mode (mark_poll fd p r) = fd_mode fd"
  by (simp_all add: mark_poll_def Let_def)

lemma get_next_frame_eq:
  "tiny_fd_get_next_frame_to_send fd p =
     (case choose_frame fd p of (None, fd) \<Rightarrow> (None, fd) | (Some r, fd) \<Rightarrow> (Some r, sent_frame fd p r))"
proof -
  define a where "a = peer_to_address_field fd p"
  obtain s fd1 where 1: "tiny_fd_get_next_s_u_frame_to_send fd p a = (s, fd1)" by fastforce
  obtain i fd2 where 2: "tiny_fd_get_next_i_frame fd1 p a = (i, fd2)" by fastforce
  obtain m fd3 where 3: "tiny_fd_get_next_s_u_frame_to_send (put_marker_frame fd2 p a) p a = (m, fd3)" by fastforce
  show ?thesis
    using 1 2 3 by (cases s; cases i; cases m)
      (simp_all add: tiny_fd_get_next_frame_to_send_def choose_frame_def sent_frame_def Let_def tiny_millis_def flip: a_def)
qed

lemma touches_choose:
  assumes "registered fd p" "choose_frame fd p = (r, fd')"
  shows "touches p fd fd'" and "r = Some f \<Longrightarrow> ref_ok fd' f"
proof -
  define a where "a = peer_to_address_field fd p"
  obtain s fd1 where 1: "tiny_fd_get_next_s_u_frame_to_send fd p a = (s, fd1)" by fastforce
  obtain i fd2 where 2: "tiny_fd_get_next_i_frame fd1 p a = (i, fd2)" by fastforce
  obtain m fd3 where 3: "tiny_fd_get_next_s_u_frame_to_send (put_marker_frame fd2 p a) p a = (m, fd3)" by fastforce
  note f1 = next_s_u_facts [OF assms(1) 1]
  have r1: "registered fd1 p" using touches_registered [OF f1(1) assms(1)] .
  have t2: "touches p fd1 fd2" "i = Some k \<Longrightarrow> ref_ok fd2 (I_slot k)" for k using touches_next_i_frame [OF r1, where a = a] 2 by auto
  have r2: "registered fd2 p" using touches_registered [OF t2(1) r1] .
  note t3 = touches_marker_frame [OF r2, of a]
  note f3 = next_s_u_facts [OF touches_registered [OF t3 r2] 3]
  have all: "touches p fd fd2" "touches p fd fd3" using touches_trans f1(1) t2(1) t3 f3(1) by blast+
  have "touches p fd fd' \<and> (r = Some f \<longrightarrow> ref_ok fd' f)" for f
    using assms(2) 1 2 3 f1(1,11) t2(2) f3(11) all
    by (auto simp: choose_frame_def Let_def a_def split: option.splits if_splits)
  then show "touches p fd fd'" and "r = Some f \<Longrightarrow> ref_ok fd' f" by blast+
qed

lemma touches_sent_frame:
  assumes "registered fd p" "ref_ok fd r"
  shows "touches p fd (sent_frame fd p r)"
proof -
  define fd1 where "fd1 = (mark_poll fd p r)\<lparr>ticks := ticks fd + 1, last_marker_ts := clock fd (ticks fd)\<rparr>"
  have 1: "touches p fd fd1" unfolding fd1_def by (intro touches_fields touches_mark_poll(1) assms)
  have 2: "touches p fd ((upd_peer p (\<lambda>x. x\<lparr>last_sent_frame_ts := clock fd (ticks fd + 1)\<rparr>) fd1)\<lparr>ticks := ticks fd + 2\<rparr>)"
    by (rule touches_fields, rule touches_steps(8) [OF assms(1) 1]) simp_all
  show ?thesis unfolding sent_frame_def Let_def fd1_def [symmetric]
    using touches_trans [OF 2 touches_log] 2 by (simp add: touches_def)
qed

lemma touches_next_frame:
  assumes "registered fd p"
  shows "touches p fd (snd (tiny_fd_get_next_frame_to_send fd p))"
proof -
  obtain r fd1 where 1: "choose_frame fd p = (r, fd1)" by fastforce
  note c = touches_choose [OF assms 1]
  show ?thesis
    using c touches_trans [OF c(1) touches_sent_frame [OF touches_registered [OF c(1) assms]]]
    by (simp add: get_next_frame_eq 1 split: option.split)
qed

lemma touches_idle:
  assumes "registered fd p"
  shows "touches p fd (check_idle_timeout fd p)"
proof -
  note ops = touches_steps [OF assms] touches_fields touches_refl [OF registeredD(1) [OF assms]]
  have c8: "confirm_ns (ctl fd p) < 8" using window_holds(3) [OF registeredD(1,2) [OF assms]] by (simp add: control_wf_def)
  have "touches p fd (tiny_fd_connected_check_idle_timeout fd p)"
    using c8 by (auto simp: tiny_fd_connected_check_idle_timeout_def Let_def tiny_millis_def time_passed_since_last_frame_received_def
        time_passed_since_last_frame_sent_def i_queue_control_get_next_frame_to_confirm_def intro!: ops)
  moreover have "touches p fd (tiny_fd_disconnected_check_idle_timeout fd p)"
    by (auto simp: tiny_fd_disconnected_check_idle_timeout_def Let_def tiny_millis_def time_passed_since_last_frame_received_def
        intro!: ops)
  ultimately show ?thesis by (simp add: check_idle_timeout_def)
qed

text \<open>What every step of the transmit path keeps: the invariant and the configuration.\<close>

definition keeps :: "tiny_fd_data \<Rightarrow> tiny_fd_data \<Rightarrow> bool" where
  "keeps fd fd' \<longleftrightarrow> fd_wf fd' \<and> same_config fd fd'"

lemma keeps_refl: "fd_wf fd \<Longrightarrow> keeps fd fd"
  by (simp add: keeps_def)

lemma keeps_trans: "keeps a b \<Longrightarrow> keeps b c \<Longrightarrow> keeps a c"
  using same_config_trans by (auto simp: keeps_def)

lemma keeps_touches: "touches p fd fd' \<Longrightarrow> keeps fd fd'"
  by (simp add: keeps_def touches_def)

lemma keeps_wf: "keeps fd fd' \<Longrightarrow> fd_wf fd'"
  by (simp add: keeps_def)

lemma keeps_registered: "keeps fd fd' \<Longrightarrow> registered fd p \<Longrightarrow> registered fd' p"
  by (simp add: keeps_def registered_def same_config_def)

lemma keeps_peer: "keeps fd fd' \<Longrightarrow> p < peers_count fd' \<longleftrightarrow> p < peers_count fd" "keeps fd fd' \<Longrightarrow> p_addr (peer_of fd' q) = p_addr (peer_of fd q)"
  by (simp_all add: keeps_def same_config_def)

lemma keeps_events:
  "keeps fd fd' \<Longrightarrow> keeps fd (set_events b fd')" "keeps fd fd' \<Longrightarrow> keeps fd (clear_events b fd')"
  "keeps fd fd' \<Longrightarrow> keeps fd (fd'\<lparr>events := e\<rparr>)" "keeps fd fd' \<Longrightarrow> keeps fd (fd'\<lparr>ticks := t\<rparr>)"
proof -
  have "same_config fd' (fd'\<lparr>events := e\<rparr>)" "same_config fd' (fd'\<lparr>ticks := t\<rparr>)" for e t by (simp_all add: same_config_def)
  then show "keeps fd fd' \<Longrightarrow> keeps fd (set_events b fd')" "keeps fd fd' \<Longrightarrow> keeps fd (clear_events b fd')"
    "keeps fd fd' \<Longrightarrow> keeps fd (fd'\<lparr>events := e\<rparr>)" "keeps fd fd' \<Longrightarrow> keeps fd (fd'\<lparr>ticks := t\<rparr>)"
    using same_config_trans by (auto simp: keeps_def)
qed

lemma keeps_s_queue:
  assumes "keeps fd fd'" "s_queue_wf q"
  shows "keeps fd (fd'\<lparr>s_queue := q\<rparr>)"
proof -
  have "fd_wf (fd'\<lparr>s_queue := q\<rparr>)"
    using assms by (simp add: keeps_def fd_wf_def table_wf_def station_ok_def is_secondary_station_def is_primary_station_def
        addresses_distinct_def peer_to_address_field_def peer_wf_def window_ok_def)
  moreover have "same_config fd' (fd'\<lparr>s_queue := q\<rparr>)" by (simp add: same_config_def)
  ultimately show ?thesis using assms same_config_trans by (auto simp: keeps_def)
qed

lemma keeps_next_peer:
  assumes "keeps fd fd'" "n < peers_count fd'"
  shows "keeps fd (fd'\<lparr>next_peer := n\<rparr>)"
proof -
  have "fd_wf (fd'\<lparr>next_peer := n\<rparr>)"
    using assms by (simp add: keeps_def fd_wf_def table_wf_def station_ok_def is_secondary_station_def is_primary_station_def
        addresses_distinct_def peer_to_address_field_def peer_wf_def window_ok_def)
  moreover have "same_config fd' (fd'\<lparr>next_peer := n\<rparr>)" by (simp add: same_config_def)
  ultimately show ?thesis using assms same_config_trans by (auto simp: keeps_def)
qed

lemma s_queue_wf_free_by_header: "s_queue_wf q \<Longrightarrow> s_queue_wf (tiny_fd_queue_free_by_header q header)"
  using queue_wf_free_by_header [of q header]
  by (auto simp: s_queue_wf_def tiny_fd_queue_free_by_header_def split: option.splits dest!: subsetD [OF set_update_subset_insert])

lemma next_peer_loop_less: "cur < peers_count fd \<Longrightarrow> next_peer_loop fd start fuel cur < peers_count fd"
proof (induction fuel arbitrary: cur)
  case (Suc fuel)
  define c where "c = (if cur + 1 \<ge> peers_count fd then 0 else cur + 1)"
  have "0 < peers_count fd" using Suc.prems by (metis word_gt_0 word_not_simps(1))
  then have "c < peers_count fd" by (simp add: c_def not_le)
  then show ?case using Suc.IH by (simp add: Let_def flip: c_def)
qed simp

lemma on_frame_send_keeps:
  assumes "fd_wf fd"
  shows "keeps fd (on_frame_send fd header data)"
proof -
  have s: "s_queue_wf (tiny_fd_queue_free_by_header (s_queue fd) header)"
    using assms s_queue_wf_free_by_header by (simp add: fd_wf_def)
  have next_less: "next_peer_loop fd (next_peer fd) 256 (next_peer fd) < peers_count fd" if "fd_wf fd" for fd
    using next_peer_loop_less that by (simp add: fd_wf_def table_wf_def)
  have sw: "keeps fd (snd (switch_to_next_peer fd'))" if "keeps fd fd'" for fd'
    using keeps_next_peer [OF that next_less [OF keeps_wf [OF that]]] by (simp add: switch_to_next_peer_def Let_def)
  show ?thesis
    using keeps_s_queue [OF keeps_refl [OF assms] s] keeps_refl [OF assms]
    by (simp add: on_frame_send_def Let_def keeps_events sw)
qed

text \<open>A property of \<open>user_data\<close> that the callback keeps is kept by the low level.\<close>

lemma send_user:
  "hdlc_ll_send_start h = (r, h') \<Longrightarrow> user_data h' = user_data h \<and> hdlc_ll.on_frame_send h' = hdlc_ll.on_frame_send h"
  "hdlc_ll_send_data h = (r, h') \<Longrightarrow> user_data h' = user_data h \<and> hdlc_ll.on_frame_send h' = hdlc_ll.on_frame_send h"
  "hdlc_ll_send_crc h = (r, h') \<Longrightarrow> user_data h' = user_data h \<and> hdlc_ll.on_frame_send h' = hdlc_ll.on_frame_send h"
  by (auto simp: hdlc_ll_send_start_def hdlc_ll_send_data_def hdlc_ll_send_crc_def Let_def send_internal_eq
      split: if_splits hdlc_crc_t.splits)

lemma send_end_user:
  "hdlc_ll_send_end h = (r, h') \<Longrightarrow> hdlc_ll.on_frame_send h' = hdlc_ll.on_frame_send h \<and>
   (user_data h' = user_data h \<or> (\<exists>f p d. hdlc_ll.on_frame_send h = Some f \<and> user_data h' = f (user_data h) p d))"
  by (auto simp: hdlc_ll_send_end_def Let_def send_internal_eq split: if_splits option.splits) blast

lemma tx_dispatch_user:
  assumes "tx_dispatch h = (r, h')" "P (user_data h)"
    and "\<And>f u p d. hdlc_ll.on_frame_send h = Some f \<Longrightarrow> P u \<Longrightarrow> P (f u p d)"
  shows "P (user_data h')" "hdlc_ll.on_frame_send h' = hdlc_ll.on_frame_send h"
  using assms send_user [of h r h'] send_end_user [of h r h']
  by (auto simp: tx_dispatch_def split: tx_fn.splits)

lemma run_tx_loop_user:
  assumes "P (user_data h)" "\<And>f u p d. hdlc_ll.on_frame_send h = Some f \<Longrightarrow> P u \<Longrightarrow> P (f u p d)"
  shows "P (user_data (run_tx_loop h rep)) \<and> hdlc_ll.on_frame_send (run_tx_loop h rep) = hdlc_ll.on_frame_send h"
  using assms
proof (induction h rep rule: run_tx_loop.induct)
  case (1 h rep)
  obtain r h' where d: "tx_dispatch h = (r, h')" by fastforce
  have u: "P (user_data h')" "hdlc_ll.on_frame_send h' = hdlc_ll.on_frame_send h"
    using tx_dispatch_user [where P = P, OF d] "1.prems" by blast+
  then have "\<And>f u p d. hdlc_ll.on_frame_send h' = Some f \<Longrightarrow> P u \<Longrightarrow> P (f u p d)" using "1.prems"(2) by simp
  then show ?case using "1.IH" [OF _ d [symmetric]] "1.prems"(1) u d by (subst (1 2) run_tx_loop.simps) auto
qed

lemma hdlc_ll_run_tx_keeps:
  assumes "hdlc_ll_run_tx (slots_mem h) n = (r, h')" "fd_wf (fd_of h)" "hdlc_ll.on_frame_send h = Some on_frame_send"
  shows "keeps (fd_of h) (fd_of h')" "hdlc_ll.on_frame_send h' = Some on_frame_send"
proof -
  let ?h = "(slots_mem h)\<lparr>tx_out := [], tx_out_len := n\<rparr>"
  have h': "h' = run_tx_loop ?h False" using assms(1) by (simp add: hdlc_ll_run_tx_def Let_def)
  have f: "hdlc_ll.on_frame_send ?h = Some on_frame_send" "fd_of ?h = fd_of h" using assms(3) by (simp_all add: slots_mem_def)
  then have "\<And>f u p d. hdlc_ll.on_frame_send ?h = Some f \<Longrightarrow> keeps (fd_of h) u \<Longrightarrow> keeps (fd_of h) (f u p d)"
    using on_frame_send_keeps keeps_trans keeps_wf by (metis option.inject)
  then show "keeps (fd_of h) (fd_of h')" "hdlc_ll.on_frame_send h' = Some on_frame_send"
    using run_tx_loop_user [where P = "keeps (fd_of h)", of ?h] keeps_refl [OF assms(2)] f h' by simp_all
qed

lemma keeps_wait: "keeps fd fd' \<Longrightarrow> keeps fd (snd (wait_events b c fd'))"
  by (simp add: wait_events_def keeps_events split: prod.split)

lemma tx_choose_keeps:
  assumes "registered fd p" "tx_choose fd p = (action, fd')"
  shows "keeps fd fd'"
proof -
  obtain marker fd1 where 1: "wait_events FD_EVENT_HAS_MARKER False fd = (marker, fd1)" by fastforce
  obtain av fd2 where 2: "wait_events FD_EVENT_TX_DATA_AVAILABLE True fd1 = (av, fd2)" by fastforce
  obtain r fd3 where 3: "tiny_fd_get_next_frame_to_send fd2 p = (r, fd3)" by fastforce
  have k1: "keeps fd fd1" using keeps_wait [OF keeps_refl [OF registeredD(1) [OF assms(1)]]] 1 by (metis snd_conv)
  then have k2: "keeps fd fd2" using keeps_wait 2 by (metis snd_conv)
  then have k3: "keeps fd fd3"
    using keeps_trans [OF k2 keeps_touches] touches_next_frame [OF keeps_registered [OF k2 assms(1)]] 3 by (metis snd_conv)
  show ?thesis using assms(2) 1 2 3 k1 k2 k3
    by (auto simp: tx_choose_def time_passed_since_last_marker_seen_def tiny_millis_def keeps_events
        split: if_splits option.splits)
qed

text \<open>What a call of \<open>tiny_fd_get_tx_data\<close> guarantees.\<close>

definition tx_result_ok :: "nat \<Rightarrow> tiny_fd \<Rightarrow> int \<times> u8 list \<times> tiny_fd \<Rightarrow> bool" where
  "tx_result_ok len h res \<longleftrightarrow> (case res of (r, out, h') \<Rightarrow>
     length out \<le> len \<and> (r = int (length out) \<or> r = TINY_ERR_UNKNOWN_PEER)
     \<and> keeps (fd_of h) (fd_of h') \<and> hdlc_ll.on_frame_send h' = Some on_frame_send)"

lemma put_frame_ref_fields [simp]:
  "fd_of (put_frame_ref r h) = fd_of h" "hdlc_ll.on_frame_send (put_frame_ref r h) = hdlc_ll.on_frame_send h"
  by (simp_all add: put_frame_ref_def hdlc_ll_put_frame_def)

lemma get_tx_loop_ok:
  assumes "fd_wf (fd_of h)" "hdlc_ll.on_frame_send h = Some on_frame_send" "peer < peers_count (fd_of h)" "length out \<le> len"
  shows "tx_result_ok len h (get_tx_loop peer len h out rep waited)"
  using assms
proof (induction peer len h out rep waited rule: get_tx_loop.induct)
  case (1 peer len h out rep waited)
  have step: "tx_result_ok len h res" if "tx_result_ok len h' res" "keeps (fd_of h) (fd_of h')" for h' res
    using that keeps_trans by (auto simp: tx_result_ok_def)
  show ?case
  proof (cases "length out \<ge> len")
    case True
    then show ?thesis using "1.prems" keeps_refl by (subst get_tx_loop.simps) (simp add: tx_result_ok_def)
  next
    case room: False
    show ?thesis
    proof (cases "fst (tiny_events_wait (events (fd_of h)) FD_EVENT_TX_SENDING False) \<noteq> 0")
      case sending: True
      obtain g h' where run: "hdlc_ll_run_tx (slots_mem h) (len - length out) = (g, h')" by fastforce
      note k = hdlc_ll_run_tx_keeps [OF run "1.prems"(1,2)]
      have len: "length (out @ tx_out h') \<le> len" using hdlc_ll_run_tx_written [OF run] room by simp
      note pre = keeps_wf [OF k(1)] k(2) keeps_peer(1) [OF k(1), THEN iffD2, OF "1.prems"(3)] len
      have ih1: "g \<noteq> 0 \<Longrightarrow> tx_result_ok len h' (get_tx_loop peer len h' (out @ tx_out h') True waited)"
        using "1.IH"(1) [OF room sending run [symmetric] _ pre] by blast
      have ih2: "\<not> g \<noteq> 0 \<Longrightarrow> rep \<Longrightarrow> tx_result_ok len h' (get_tx_loop peer len h' (out @ tx_out h') False waited)"
        using "1.IH"(2) [OF room sending run [symmetric] _ _ pre] by blast
      show ?thesis
        using room sending run step [OF ih1 k(1)] step [OF ih2 k(1)] len k
        by (subst get_tx_loop.simps) (auto simp: tx_result_ok_def)
    next
      case idle: False
      show ?thesis
      proof (cases "p_addr (peer_of (fd_of h) peer) = HDLC_INVALID_PEER_INDEX")
        case True
        then show ?thesis using room idle "1.prems" keeps_refl by (subst get_tx_loop.simps) (simp add: tx_result_ok_def)
      next
        case addr: False
        have reg: "registered (fd_of h) peer" using "1.prems"(1,3) addr by (simp add: registered_def)
        define h1 where "h1 = upd_fd (\<lambda>fd. check_idle_timeout fd peer) h"
        obtain action fd where c: "tx_choose (fd_of h1) peer = (action, fd)" by fastforce
        define h2 where "h2 = upd_fd (\<lambda>_. fd) h1"
        have k1: "keeps (fd_of h) (fd_of h1)" using keeps_touches [OF touches_idle [OF reg]] by (simp add: h1_def upd_fd_def)
        have k2: "keeps (fd_of h) (fd_of h2)"
          using keeps_trans [OF k1 tx_choose_keeps [OF keeps_registered [OF k1 reg] c]] by (simp add: h2_def upd_fd_def)
        have cb: "hdlc_ll.on_frame_send h1 = Some on_frame_send" "hdlc_ll.on_frame_send h2 = Some on_frame_send"
          using "1.prems"(2) by (simp_all add: h1_def h2_def upd_fd_def)
        note pre = keeps_wf [OF k2] cb(2) keeps_peer(1) [OF k2, THEN iffD2, OF "1.prems"(3)] "1.prems"(4)
        have ih1: "tx_result_ok len h2 (get_tx_loop peer len (put_frame_ref r h2) out rep True)"
          if "\<not> waited" "action = Put_frame r" for r
          using "1.IH"(3) [OF room idle addr h1_def that(1) c [symmetric] h2_def that(2)] pre by (simp add: tx_result_ok_def)
        have ih2: "tx_result_ok len h2 (get_tx_loop peer len h2 out False True)" if "\<not> waited" "action = Nothing" rep
          using "1.IH"(4) [OF room idle addr h1_def that(1) c [symmetric] h2_def that(2,3)] pre by simp
        have eq: "get_tx_loop peer len h out rep waited =
          (if waited then (int (length out), out, h1)
           else case action of Put_frame r \<Rightarrow> get_tx_loop peer len (put_frame_ref r h2) out rep True
             | Stop \<Rightarrow> (int (length out), out, h2)
             | Nothing \<Rightarrow> if rep then get_tx_loop peer len h2 out False True else (int (length out), out, h2))"
          using room idle addr c unfolding h1_def h2_def by (subst get_tx_loop.simps) (simp add: Let_def)
        have "tx_result_ok len h (int (length out), out, h1)" "tx_result_ok len h (int (length out), out, h2)"
          using k1 k2 cb "1.prems"(4) by (simp_all add: tx_result_ok_def)
        then show ?thesis using step [OF ih1 k2] step [OF ih2 k2] unfolding eq by (auto split: tx_action.split)
      qed
    qed
  qed
qed

lemma tiny_fd_get_tx_data_ok:
  assumes "fd_wf (fd_of h)" "hdlc_ll.on_frame_send h = Some on_frame_send"
  shows "tx_result_ok len h (tiny_fd_get_tx_data h len)"
  using get_tx_loop_ok [OF assms, of "next_peer (fd_of h)" "[]" len] assms(1)
  by (simp add: tiny_fd_get_tx_data_def fd_wf_def table_wf_def)

text \<open>A station for the concrete instances: an idle low level around a protocol state.\<close>

definition demo_station :: "tiny_fd_data \<Rightarrow> tiny_fd" where
  "demo_station fd = \<lparr>mem = (\<lambda>_. 0), on_frame_read = Some FdOnRx.on_frame_read, on_frame_send = Some FdOnRx.on_frame_send,
     rx_buf = 500, rx_buf_size = 64, crc_type = HDLC_CRC_8, user_data = fd, phys_mtu = 8, rx_state = Read_start, rx_ptr = 500,
     rx_escape = False, rx_active = 500, tx_state = Send_start, tx_out = [], tx_out_len = 0, tx_origin = 0, tx_data = 0,
     tx_len = 0, tx_crc = 0, tx_escape = False\<rparr>"

lemma demo_station_tx: "fd_of (demo_station fd) = fd" "hdlc_ll.on_frame_send (demo_station fd) = Some on_frame_send"
  by (simp_all add: demo_station_def)

lemma demo_registered: "registered demo_fd2 0"
  using demo_fd2_facts(1,3,4) by (simp add: registered_def HDLC_INVALID_PEER_INDEX_def)

text \<open>
  C18: A call of \<open>tiny_fd_get_tx_data\<close> for a buffer of \<open>len\<close> bytes always returns and never writes more than
  \<open>len\<close> bytes; its result is the number of bytes written, or \<open>TINY_ERR_UNKNOWN_PEER\<close>. The bound needs
  nothing but the callback that \<open>tiny_fd_init\<close> registers and a well formed state.
\<close>

theorem tiny_fd_get_tx_data_bounds:
  assumes "fd_wf (fd_of h)" "hdlc_ll.on_frame_send h = Some on_frame_send"
    and "tiny_fd_get_tx_data h len = (r, out, h')"
  shows "length out \<le> len \<and> (r = int (length out) \<or> r = TINY_ERR_UNKNOWN_PEER)"
  using tiny_fd_get_tx_data_ok [OF assms(1,2), of len] assms(3) by (simp add: tx_result_ok_def)

theorem tiny_fd_get_tx_data_bounds_witness:
  "\<exists>out h'. tiny_fd_get_tx_data (demo_station demo_fd2) 5 = (int (length out), out, h') \<and> length out \<le> 5
     \<or> tiny_fd_get_tx_data (demo_station demo_fd2) 5 = (TINY_ERR_UNKNOWN_PEER, out, h') \<and> length out \<le> 5"
proof -
  obtain r out h' where run: "tiny_fd_get_tx_data (demo_station demo_fd2) 5 = (r, out, h')" by (metis prod_cases3)
  show ?thesis using tiny_fd_get_tx_data_bounds [of "demo_station demo_fd2", OF _ _ run] run
    by (auto simp: demo_station_tx demo_fd2_facts)
qed

text \<open>
  C15: The invariant of the protocol state, and with it the correspondence of windows and queued frames of
  every peer, is kept by \<open>tiny_fd_get_tx_data\<close>, whatever frames, timeouts and callbacks it runs into;
  the configuration of the station does not change.
\<close>

theorem tiny_fd_get_tx_data_invariant:
  assumes "fd_wf (fd_of h)" "hdlc_ll.on_frame_send h = Some on_frame_send"
    and "tiny_fd_get_tx_data h len = (r, out, h')"
  shows "fd_wf (fd_of h') \<and> same_config (fd_of h) (fd_of h') \<and> hdlc_ll.on_frame_send h' = Some on_frame_send"
  using tiny_fd_get_tx_data_ok [OF assms(1,2), of len] assms(3) by (simp add: tx_result_ok_def keeps_def)

theorem tiny_fd_get_tx_data_invariant_witness: "fd_wf (fd_of (snd (snd (tiny_fd_get_tx_data (demo_station demo_fd2) 5))))"
proof -
  obtain r out h' where run: "tiny_fd_get_tx_data (demo_station demo_fd2) 5 = (r, out, h')" by (metis prod_cases3)
  show ?thesis using tiny_fd_get_tx_data_invariant [of "demo_station demo_fd2", OF _ _ run] run
    by (simp add: demo_station_tx demo_fd2_facts)
qed

subsection \<open>Which I-frame goes out\<close>

lemma i_frame_sent:
  assumes "registered fd p" "n < 8" "i_next (i_queue fd) (peer_to_address_field fd p) n = Some k"
    and "fd' = i_frame_out p k g fd" "g = ns_moved \<or> g = srej_cleared i"
  defines "d \<equiv> seq_dist (confirm_ns (ctl fd p)) n"
  shows "d < length (tx_window fd p)" "touches p fd fd'" "tx_window fd' p = tx_window fd p" "calls fd' = calls fd"
    and "peer_of fd' p = (g (peer_of fd p))\<lparr>sent_nr := next_nr (ctl fd p), last_sent_i_ts := clock fd (ticks fd)\<rparr>"
    and "frame_bytes (frame_at fd' (I_slot k))
      = i_frame_bytes (peer_to_address_field fd p) (next_nr (ctl fd p)) n (tx_window fd p ! d)"
proof -
  have iq: "iq_wf (i_queue fd)" using registeredD(1) [OF assms(1)] by (simp add: fd_wf_def)
  note nx = i_next_lookup [OF iq assms(3)]
  note wl = window_lookup [OF registeredD(1,2) [OF assms(1)] assms(2), folded d_def]
  show len: "d < length (tx_window fd p)" using nx(1) wl by (simp split: if_splits)
  have g: "p_addr (g (peer_of fd p)) = p_addr (peer_of fd p)" "confirm_ns (i_queue_ctl (g (peer_of fd p))) = confirm_ns (ctl fd p)"
    "last_ns (i_queue_ctl (g (peer_of fd p))) = last_ns (ctl fd p)" "next_ns (i_queue_ctl (g (peer_of fd p))) < 8"
    "next_nr (i_queue_ctl (g (peer_of fd p))) < 8"
    using assms(5) control_less [OF assms(1)] and_7_less
    by (auto simp: ns_moved_def srej_cleared_def i_queue_control_move_to_next_ns_def seq_bits_mask_def)
  note f = i_frame_out_facts [where g = g, OF assms(1) _ g, of k, folded assms(4)]
  show "touches p fd fd'" "tx_window fd' p = tx_window fd p" "calls fd' = calls fd"
    "peer_of fd' p = (g (peer_of fd p))\<lparr>sent_nr := next_nr (ctl fd p), last_sent_i_ts := clock fd (ticks fd)\<rparr>"
    using f(1,2,4,6) nx(2) by blast+
  show "frame_bytes (frame_at fd' (I_slot k))
      = i_frame_bytes (peer_to_address_field fd p) (next_nr (ctl fd p)) n (tx_window fd p ! d)"
    using f(7) nx wl len stamped_bytes [OF iq _ _ peer_address_bits [OF registeredD(1,2) [OF assms(1)]]] by simp
qed

text \<open>
  C16: For a peer in a state in which I-frames may be sent, and without a pending request for single frames (SREJ), the next I-frame is the frame of the sliding window that carries the number
  to be sent next: its payload is unchanged, its header has the peer's address, this N(S), and the
  number expected from the peer as N(R). Only the send position moves. Nothing is sent exactly when the
  window holds no frame with that number.
\<close>

theorem tiny_fd_get_next_i_frame_sends:
  assumes "registered fd p" "may_send_i fd p" "srej_req_mask (peer_of fd p) = 0"
  defines "a \<equiv> peer_to_address_field fd p" and "n \<equiv> next_ns (ctl fd p)"
  defines "d \<equiv> seq_dist (confirm_ns (ctl fd p)) n"
  shows "case tiny_fd_get_next_i_frame fd p a of
      (None, fd') \<Rightarrow> fd' = fd \<and> length (tx_window fd p) \<le> d
    | (Some k, fd') \<Rightarrow> d < length (tx_window fd p)
        \<and> frame_bytes (frame_at fd' (I_slot k)) = i_frame_bytes a (next_nr (ctl fd p)) n (tx_window fd p ! d)
        \<and> ctl fd' p = (ctl fd p)\<lparr>next_ns := seq_next n\<rparr> \<and> sent_nr (peer_of fd' p) = next_nr (ctl fd p)
        \<and> touches p fd fd' \<and> tx_window fd' p = tx_window fd p \<and> calls fd' = calls fd"
proof -
  have n8: "n < 8" using control_less [OF assms(1)] by (simp add: n_def)
  have eq: "tiny_fd_get_next_i_frame fd p a =
      (case i_next (i_queue fd) a n of None \<Rightarrow> (None, fd) | Some k \<Rightarrow> (Some k, i_frame_out p k ns_moved fd))"
    using get_next_i_frame_eq [OF registeredD(4) [OF assms(1)], of a] assms(2,3) by (simp add: n_def)
  show ?thesis
  proof (cases "i_next (i_queue fd) a n")
    case None
    have "iq_wf (i_queue fd)" using registeredD(1) [OF assms(1)] by (simp add: fd_wf_def)
    then have "i_lookup a (i_queue fd) n = None" using i_next_lookup(1) None by fastforce
    then show ?thesis
      using window_lookup [OF registeredD(1,2) [OF assms(1)] n8] None unfolding eq by (simp add: a_def d_def split: if_splits)
  next
    case (Some k)
    note s = i_frame_sent [OF assms(1) n8 Some [unfolded a_def] refl, of ns_moved, simplified]
    then show ?thesis using Some unfolding eq
      by (simp add: a_def d_def) (simp add: ns_moved_def i_queue_control_move_to_next_ns_def seq_bits_mask_def n_def)
  qed
qed

theorem tiny_fd_get_next_i_frame_sends_witness:
  "\<exists>k fd'. tiny_fd_get_next_i_frame demo_fd2 0 1 = (Some k, fd') \<and> frame_bytes (frame_at fd' (I_slot k)) = [1, 0x4C, 7]"
proof -
  have s: "may_send_i demo_fd2 0" "srej_req_mask (peer_of demo_fd2 0) = 0" unfolding may_send_i_def by code_simp+
  have "i_frame_bytes 1 2 6 [7] = [1, 0x4C, 7]" by code_simp
  then show ?thesis
    using tiny_fd_get_next_i_frame_sends [OF demo_registered s]
    by (simp add: demo_fd2_facts split: prod.splits option.splits)
qed

lemma lowest_request:
  assumes "(req :: u8) \<noteq> 0"
  obtains i where "find (\<lambda>i. req AND push_bit i 1 \<noteq> 0) [0..<8] = Some i" "i < 8" "bit req i" "\<forall>j<i. \<not> bit req j"
proof -
  have b: "req AND push_bit i 1 \<noteq> 0 \<longleftrightarrow> bit req i" for i
    by (simp add: push_bit_of_1 and_exp_eq_0_iff_not_bit)
  have "\<exists>j. bit req j" using assms by (metis bit_0_eq bit_eq_iff bot_apply bot_bool_def)
  then obtain j where "j < 8" "bit req j" using bit_imp_le_length [of req] by fastforce
  then have "find (\<lambda>i. req AND push_bit i 1 \<noteq> 0) [0..<8] \<noteq> None" using b by (auto simp: find_None_iff simp del: push_bit_of_1)
  then obtain i where i: "find (\<lambda>i. req AND push_bit i 1 \<noteq> 0) [0..<8] = Some i" by auto
  then have "i < 8" "bit req i" "\<forall>j<i. \<not> bit req j" by (auto simp: find_Some_iff b simp del: push_bit_of_1)
  then show ?thesis using that i by blast
qed

text \<open>
  Selective retransmission: while a peer has requested frames (SREJ), the lowest requested number is
  served first. If the window holds that frame, it goes out again with its payload and N(S) and the
  current N(R); in any case exactly this request is dropped, and the send position, the window and the
  confirmed position stay.
\<close>

theorem tiny_fd_get_next_i_frame_srej:
  assumes "registered fd p" "may_send_i fd p" "srej_req_mask (peer_of fd p) \<noteq> 0"
  defines "a \<equiv> peer_to_address_field fd p" and "req \<equiv> srej_req_mask (peer_of fd p)"
  shows "\<exists>i<8. bit req i \<and> (\<forall>j<i. \<not> bit req j) \<and>
    (let d = seq_dist (confirm_ns (ctl fd p)) (of_nat i)
     in case tiny_fd_get_next_i_frame fd p a of (r, fd') \<Rightarrow>
       srej_req_mask (peer_of fd' p) = req AND NOT (push_bit i 1) \<and> ctl fd' p = ctl fd p \<and> tx_window fd' p = tx_window fd p
       \<and> (case r of None \<Rightarrow> length (tx_window fd p) \<le> d
          | Some k \<Rightarrow> d < length (tx_window fd p)
              \<and> frame_bytes (frame_at fd' (I_slot k)) = i_frame_bytes a (next_nr (ctl fd p)) (of_nat i) (tx_window fd p ! d)))"
proof -
  obtain i where i: "find (\<lambda>i. req AND push_bit i 1 \<noteq> 0) [0..<8] = Some i" "i < 8" "bit req i" "\<forall>j<i. \<not> bit req j"
    using lowest_request assms(3) unfolding req_def by blast
  have n8: "(of_nat i :: u8) < 8" using i(2) by (simp add: word_less_nat_alt unat_of_nat)
  have eq: "tiny_fd_get_next_i_frame fd p a = (case i_next (i_queue fd) a (of_nat i) of
               None \<Rightarrow> (None, upd_peer p (srej_cleared i) fd)
             | Some k \<Rightarrow> (Some k, i_frame_out p k (srej_cleared i) fd))"
    using get_next_i_frame_eq [OF registeredD(4) [OF assms(1)], of a] assms(2,3) i(1) by (simp add: req_def)
  have "let d = seq_dist (confirm_ns (ctl fd p)) (of_nat i)
     in case tiny_fd_get_next_i_frame fd p a of (r, fd') \<Rightarrow>
       srej_req_mask (peer_of fd' p) = req AND NOT (push_bit i 1) \<and> ctl fd' p = ctl fd p \<and> tx_window fd' p = tx_window fd p
       \<and> (case r of None \<Rightarrow> length (tx_window fd p) \<le> d
          | Some k \<Rightarrow> d < length (tx_window fd p)
              \<and> frame_bytes (frame_at fd' (I_slot k)) = i_frame_bytes a (next_nr (ctl fd p)) (of_nat i) (tx_window fd p ! d))"
  proof (cases "i_next (i_queue fd) a (of_nat i)")
    case None
    have "iq_wf (i_queue fd)" using registeredD(1) [OF assms(1)] by (simp add: fd_wf_def)
    then have no: "i_lookup a (i_queue fd) (of_nat i) = None" using i_next_lookup(1) None by fastforce
    note u = touches_upd_peer_plain(2,3) [where f = "srej_cleared i", OF assms(1)]
    show ?thesis
      using window_lookup [OF registeredD(1,2) [OF assms(1)] n8] None no u
      unfolding eq by (simp add: a_def req_def Let_def srej_cleared_def split: if_splits)
  next
    case (Some k)
    note s = i_frame_sent [OF assms(1) n8 Some [unfolded a_def] refl, of "srej_cleared i" i, simplified]
    then show ?thesis using Some unfolding eq
      by (simp add: a_def req_def Let_def) (simp add: srej_cleared_def)
  qed
  then show ?thesis using i(2-4) by blast
qed

theorem tiny_fd_get_next_i_frame_srej_witness:
  "\<exists>k fd'. tiny_fd_get_next_i_frame (upd_peer 0 (\<lambda>x. x\<lparr>srej_req_mask := 0x80\<rparr>) demo_fd2) 0 1 = (Some k, fd')
     \<and> frame_bytes (frame_at fd' (I_slot k)) = [1, 0x4E, 8, 9] \<and> srej_req_mask (peer_of fd' 0) = 0"
proof -
  define fd where "fd = upd_peer 0 (\<lambda>x. x\<lparr>srej_req_mask := 0x80\<rparr>) demo_fd2"
  note u = touches_upd_peer_plain [where f = "\<lambda>x. x\<lparr>srej_req_mask := 0x80\<rparr>", OF demo_registered, folded fd_def, simplified]
  have reg: "registered fd 0" using touches_registered [OF u(1) demo_registered] .
  have s: "may_send_i fd 0" "srej_req_mask (peer_of fd 0) \<noteq> 0" unfolding fd_def may_send_i_def by code_simp+
  have addr: "peer_to_address_field fd 0 = 1" using config_fields(7) [OF u(1)] demo_fd2_facts(8) by simp
  have c: "ctl fd 0 = \<lparr>last_ns = 0, confirm_ns = 6, next_ns = 6, next_nr = 2\<rparr>" "srej_req_mask (peer_of fd 0) = 0x80"
    using u(3) demo_fd2_facts(10) by simp_all
  have seven: "i = 7" if "bit (0x80 :: u8) i" for i
  proof -
    have "i < 8" using bit_imp_le_length [OF that] by simp
    then have "i \<in> {0, 1, 2, 3, 4, 5, 6, 7}" by auto
    then show ?thesis using that by auto
  qed
  have e: "i_frame_bytes 1 2 7 [8, 9] = [1, 0x4E, 8, 9]" "seq_dist 6 7 = 1" "0x80 AND NOT (push_bit 7 1 :: u8) = 0" by code_simp+
  obtain r fd' where g: "tiny_fd_get_next_i_frame fd 0 1 = (r, fd')" by fastforce
  note th = tiny_fd_get_next_i_frame_srej [OF reg s, unfolded Let_def addr c i_queue_control.simps g prod.case]
  obtain i where "bit (0x80 :: u8) i" and m: "srej_req_mask (peer_of fd' 0) = 0x80 AND NOT (push_bit i 1)"
    and r: "case r of None \<Rightarrow> length (tx_window fd 0) \<le> seq_dist 6 (of_nat i)
          | Some k \<Rightarrow> seq_dist 6 (of_nat i) < length (tx_window fd 0)
              \<and> frame_bytes (frame_at fd' (I_slot k)) = i_frame_bytes 1 2 (of_nat i) (tx_window fd 0 ! seq_dist 6 (of_nat i))"
    using th by (elim exE conjE) (rule that; assumption)
  then have "i = 7" using seven by blast
  then show ?thesis using r m u(2) e g unfolding fd_def [symmetric]
    by (simp add: demo_fd2_facts split: option.splits)
qed

subsection \<open>Timeouts\<close>

lemma idle_retry_eq:
  assumes "registered fd p" "p_state (peer_of fd p) \<in> {TINY_FD_STATE_CONNECTED, TINY_FD_STATE_DISCONNECTING}"
    and "confirm_ns (ctl fd p) \<noteq> last_ns (ctl fd p)" "next_ns (ctl fd p) = last_ns (ctl fd p)"
    and "clock fd (ticks fd) - last_sent_i_ts (peer_of fd p) \<ge> ucast (retry_timeout fd)"
  shows "check_idle_timeout fd p =
    (if p_retries (peer_of fd p) > 0
     then resend_all_unconfirmed_frames (upd_peer p (\<lambda>p. p\<lparr>p_retries := p_retries p - 1\<rparr>) (fd\<lparr>ticks := ticks fd + 1\<rparr>))
            p 0 (confirm_ns (ctl fd p))
     else switch_to_disconnected_state (fd\<lparr>ticks := ticks fd + 1\<rparr>) p)"
  using assms(2-5)
  by (auto simp: check_idle_timeout_def tiny_fd_connected_check_idle_timeout_def tiny_millis_def Let_def
      i_queue_control_has_unconfirmed_frames_def all_frames_are_sent_def i_queue_control_get_next_frame_to_confirm_def)

text \<open>
  C17: When every frame of the window has been sent and none was confirmed for the retry timeout, the
  station goes back: the send position returns to the first unconfirmed frame, so that the whole window
  goes out again, one retry is used up, and nothing is reported or lost. With no retry left it gives up:
  the peer is disconnected, its window is dropped, its numbers restart at 0 and the application is told.
\<close>

theorem retry_timeout_reaction:
  assumes "registered fd p" "p_state (peer_of fd p) \<in> {TINY_FD_STATE_CONNECTED, TINY_FD_STATE_DISCONNECTING}"
    and "confirm_ns (ctl fd p) \<noteq> last_ns (ctl fd p)" "next_ns (ctl fd p) = last_ns (ctl fd p)"
    and "clock fd (ticks fd) - last_sent_i_ts (peer_of fd p) \<ge> ucast (retry_timeout fd)"
  defines "fd' \<equiv> check_idle_timeout fd p"
  shows "touches p fd fd' \<and>
    (if p_retries (peer_of fd p) > 0
     then ctl fd' p = (ctl fd p)\<lparr>next_ns := confirm_ns (ctl fd p)\<rparr> \<and> tx_window fd' p = tx_window fd p
       \<and> p_retries (peer_of fd' p) = p_retries (peer_of fd p) - 1 \<and> p_state (peer_of fd' p) = p_state (peer_of fd p)
       \<and> calls fd' = calls fd \<and> s_queue fd' = s_queue fd
     else p_state (peer_of fd' p) = TINY_FD_STATE_DISCONNECTED \<and> tx_window fd' p = []
       \<and> ctl fd' p = \<lparr>last_ns = 0, confirm_ns = 0, next_ns = 0, next_nr = 0\<rparr>
       \<and> calls fd' = calls fd @ (if on_connect_event_cb fd then [On_connect_event (app_address fd p) False] else []))"
proof -
  define fd1 where "fd1 = fd\<lparr>ticks := ticks fd + 1\<rparr>"
  define fd2 where "fd2 = upd_peer p (\<lambda>p. p\<lparr>p_retries := p_retries p - 1\<rparr>) fd1"
  have t1: "touches p fd fd1" unfolding fd1_def by (intro touches_fields touches_refl registeredD(1) [OF assms(1)])
  have r1: "registered fd1 p" using touches_registered [OF t1 assms(1)] .
  have s1: "peer_of fd1 p = peer_of fd p" "calls fd1 = calls fd" "tx_window fd1 p = tx_window fd p" "s_queue fd1 = s_queue fd"
    "on_connect_event_cb fd1 = on_connect_event_cb fd" "app_address fd1 p = app_address fd p"
    using same_config_derived(3) [of fd fd1] t1 by (simp_all add: touches_def) (simp_all add: fd1_def)
  note u = touches_upd_peer_plain [where f = "\<lambda>p. p\<lparr>p_retries := p_retries p - 1\<rparr>", OF r1, folded fd2_def, simplified]
  have r2: "registered fd2 p" using touches_registered [OF u(1) r1] .
  have c8: "confirm_ns (ctl fd2 p) < 8" using window_holds(3) [OF registeredD(1,2) [OF r2]] by (simp add: control_wf_def)
  have t: "go_back_target (ctl fd2 p) (confirm_ns (ctl fd2 p)) = confirm_ns (ctl fd2 p)" by (simp add: go_back_target_def)
  note rs = resend_all_refines [OF registeredD(1,2) [OF r2] c8, of 0, unfolded t]
  have eq: "fd' = (if p_retries (peer_of fd p) > 0 then resend_all_unconfirmed_frames fd2 p 0 (confirm_ns (ctl fd2 p))
      else switch_to_disconnected_state fd1 p)"
    using idle_retry_eq [OF assms(1-5), folded fd1_def, folded fd2_def] u(3) s1(1) unfolding fd'_def by simp
  have pr: "peer_of (resend_all_unconfirmed_frames fd2 p 0 (confirm_ns (ctl fd2 p))) p
      = (peer_of fd2 p)\<lparr>i_queue_ctl := (ctl fd2 p)\<lparr>next_ns := confirm_ns (ctl fd2 p)\<rparr>\<rparr>"
    using same_but_service_fields(4) [OF rs(2)] registeredD(4) [OF r2] by (simp add: peer_of_upd_peer)
  have cs: "calls (resend_all_unconfirmed_frames fd2 p 0 (confirm_ns (ctl fd2 p))) = calls fd"
    using same_but_service_fields(3) [OF rs(2)] s1(2) by (simp add: fd2_def)
  have sw: "p_state (peer_of fd1 p) \<noteq> TINY_FD_STATE_DISCONNECTED" using assms(2) s1(1) by auto
  note d = switch_to_disconnected [OF registeredD(1-3) [OF r1] sw]
  have "touches p fd fd'" unfolding fd'_def by (rule touches_idle [OF assms(1)])
  moreover have "s_queue fd2 = s_queue fd" using s1 by (simp add: fd2_def)
  ultimately show ?thesis
    using pr cs rs(3-5) d(1) u(2,3) s1 unfolding eq by (simp add: switched_def)
qed

theorem retry_timeout_reaction_witness:
  "\<exists>fd. next_ns (ctl fd 0) = 0 \<and> next_ns (ctl (check_idle_timeout fd 0) 0) = 6 \<and> tx_window (check_idle_timeout fd 0) 0 = [[7], [8, 9]]"
proof -
  define fd1 where "fd1 = upd_peer 0 (\<lambda>x. x\<lparr>i_queue_ctl := (i_queue_ctl x)\<lparr>next_ns := 0\<rparr>\<rparr>) demo_fd2"
  define fd where "fd = fd1\<lparr>ticks := 300\<rparr>"
  note u = touches_upd_peer [where f = "\<lambda>x. x\<lparr>i_queue_ctl := (i_queue_ctl x)\<lparr>next_ns := 0\<rparr>\<rparr>", OF demo_registered, folded fd1_def,
      simplified, unfolded demo_fd2_facts, simplified]
  have reg: "registered fd 0" unfolding fd_def
    by (rule touches_registered [OF touches_fields(1) [OF u(1)] demo_registered])
  have c: "ctl fd 0 = \<lparr>last_ns = 0, confirm_ns = 6, next_ns = 0, next_nr = 2\<rparr>" "tx_window fd 0 = [[7], [8, 9]]"
    using u by (simp_all add: fd_def demo_fd2_facts)
  have s: "p_state (peer_of fd 0) = TINY_FD_STATE_CONNECTED" "p_retries (peer_of fd 0) = 2"
    "clock fd (ticks fd) - last_sent_i_ts (peer_of fd 0) \<ge> ucast (retry_timeout fd)"
    unfolding fd_def fd1_def by code_simp+
  show ?thesis
    using retry_timeout_reaction [OF reg _ _ _ s(3)] s(1,2) c by (intro exI [of _ fd]) simp
qed

end
