(* ===== verification/FdLink.thy ===== *)
theory FdLink
  imports FdTxSpec
begin

unbundle bit_operations_syntax

section \<open>A frame from one station to the other\<close>

text \<open>
  The composition of the layers: what \<open>tiny_fd_get_tx_data\<close> of one station puts on the line,
  \<open>tiny_fd_on_rx_data\<close> of the other gives to its application.
\<close>

subsection \<open>The memory of the slots\<close>

definition slots_disjoint :: "tiny_fd_frame_info \<Rightarrow> tiny_fd_frame_info \<Rightarrow> bool" where
  "slots_disjoint f g \<longleftrightarrow> f_header f + length (slot_bytes f) \<le> f_header g \<or> f_header g + length (slot_bytes g) \<le> f_header f"

definition slots_apart :: "tiny_fd_data \<Rightarrow> bool" where
  "slots_apart fd \<longleftrightarrow> sorted_wrt slots_disjoint (q_frames (i_queue fd) @ q_frames (s_queue fd))
     \<and> (\<forall>f \<in> set (q_frames (i_queue fd) @ q_frames (s_queue fd)). f_header f \<noteq> 0)"

text \<open>It depends on where the slots are and how long they are.\<close>

definition slot_place :: "tiny_fd_frame_info \<Rightarrow> nat \<times> nat" where
  "slot_place f = (f_header f, length (f_payload f))"

lemma slots_apart_cong:
  assumes "map slot_place (q_frames (i_queue fd') @ q_frames (s_queue fd')) = map slot_place (q_frames (i_queue fd) @ q_frames (s_queue fd))"
  shows "slots_apart fd' = slots_apart fd"
proof -
  define R :: "nat \<times> nat \<Rightarrow> nat \<times> nat \<Rightarrow> bool"
    where "R = (\<lambda>(h, n) (h', n'). h + (n + 2) \<le> h' \<or> h' + (n' + 2) \<le> h)"
  have R: "slots_disjoint f g \<longleftrightarrow> R (slot_place f) (slot_place g)" for f g
    by (simp add: slots_disjoint_def slot_place_def R_def slot_bytes_def)
  have nz: "0 \<notin> fst ` set (map slot_place xs) \<longleftrightarrow> (\<forall>f \<in> set xs. f_header f \<noteq> 0)" for xs
    by (induction xs) (auto simp: slot_place_def)
  have "slots_apart fd \<longleftrightarrow> sorted_wrt R (map slot_place (q_frames (i_queue fd) @ q_frames (s_queue fd)))
      \<and> 0 \<notin> fst ` set (map slot_place (q_frames (i_queue fd) @ q_frames (s_queue fd)))" for fd
    unfolding slots_apart_def sorted_wrt_map R nz ..
  then show ?thesis using assms by presburger
qed

lemma fold_slot_mem_other:
  "\<forall>g \<in> set xs. slots_disjoint f g \<Longrightarrow> i < length (slot_bytes f) \<Longrightarrow> fold slot_mem xs m (f_header f + i) = m (f_header f + i)"
proof (induction xs arbitrary: m)
  case (Cons g xs)
  then have "slot_mem g m (f_header f + i) = m (f_header f + i)" by (auto simp: slot_mem_def slots_disjoint_def)
  then show ?case using Cons by simp
qed simp

lemma fold_slot_mem:
  "sorted_wrt slots_disjoint xs \<Longrightarrow> f \<in> set xs \<Longrightarrow> i < length (slot_bytes f) \<Longrightarrow> fold slot_mem xs m (f_header f + i) = slot_bytes f ! i"
proof (induction xs arbitrary: m)
  case (Cons g xs)
  show ?case
  proof (cases "f \<in> set xs")
    case True
    then show ?thesis using Cons by simp
  next
    case False
    then have "f = g" "\<forall>h \<in> set xs. slots_disjoint f h" using Cons.prems by auto
    then show ?thesis using fold_slot_mem_other [of xs f i "slot_mem g m"] Cons.prems(3) by simp (simp add: slot_mem_def)
  qed
qed simp

lemma slot_frame_in_memory:
  assumes "slots_apart (fd_of h)" "f \<in> set (q_frames (i_queue (fd_of h)) @ q_frames (s_queue (fd_of h)))" "f_len f \<le> length (f_payload f)"
  shows "bytes_at (mem (slots_mem h)) (f_header f) (f_len f + 2) = frame_bytes f"
proof (rule nth_equalityI)
  show "length (bytes_at (mem (slots_mem h)) (f_header f) (f_len f + 2)) = length (frame_bytes f)"
    using assms(3) by (simp add: frame_bytes_def frame_data_def)
  fix i assume i: "i < length (bytes_at (mem (slots_mem h)) (f_header f) (f_len f + 2))"
  then have "i < length (slot_bytes f)" using assms(3) by (simp add: slot_bytes_def)
  then have "mem (slots_mem h) (f_header f + i) = slot_bytes f ! i"
    using fold_slot_mem [OF _ assms(2)] assms(1) by (simp add: slots_mem_def slots_apart_def del: fold_append)
  moreover have "frame_bytes f = take (f_len f + 2) (slot_bytes f)" by (simp add: frame_bytes_def slot_bytes_def frame_data_def)
  ultimately show "bytes_at (mem (slots_mem h)) (f_header f) (f_len f + 2) ! i = frame_bytes f ! i" using i by simp
qed

subsection \<open>A station with an I-frame to send\<close>

text \<open>
  An ABM station, connected, with a frame in the window that has not been sent, nothing more urgent, the
  marker, and no timeout due.
\<close>

definition i_frame_waiting :: "tiny_fd_data \<Rightarrow> u8 \<Rightarrow> bool" where
  "i_frame_waiting fd p \<longleftrightarrow> registered fd p \<and> fd_mode fd = TINY_FD_MODE_ABM \<and> p_state (peer_of fd p) = TINY_FD_STATE_CONNECTED
     \<and> address_field_to_peer fd (peer_to_address_field fd p) = p
     \<and> srej_req_mask (peer_of fd p) = 0 \<and> (\<forall>f \<in> set (q_frames (s_queue fd)). f_type f = TINY_FD_QUEUE_FREE)
     \<and> seq_dist (confirm_ns (ctl fd p)) (next_ns (ctl fd p)) < length (tx_window fd p)
     \<and> events fd AND FD_EVENT_HAS_MARKER \<noteq> 0 \<and> events fd AND FD_EVENT_TX_DATA_AVAILABLE \<noteq> 0
     \<and> events fd AND FD_EVENT_TX_SENDING = 0
     \<and> clock fd (ticks fd + 1) - last_received_frame_ts (peer_of fd p) < 2 * ucast (ka_timeout fd)
     \<and> clock fd (ticks fd + 2) - last_sent_frame_ts (peer_of fd p) < ucast (ka_timeout fd)"

definition waiting_frame :: "tiny_fd_data \<Rightarrow> u8 \<Rightarrow> u8 list" where
  "waiting_frame fd p = tx_window fd p ! seq_dist (confirm_ns (ctl fd p)) (next_ns (ctl fd p))"

lemma waiting_no_timeout:
  assumes "i_frame_waiting fd p"
  shows "check_idle_timeout fd p = fd\<lparr>ticks := ticks fd + 3\<rparr>"
proof -
  have "next_ns (ctl fd p) \<noteq> last_ns (ctl fd p)" using assms by (auto simp: i_frame_waiting_def tx_window_length)
  moreover have "\<not> 2 * ucast (ka_timeout fd) \<le> clock fd (Suc (ticks fd)) - last_received_frame_ts (peer_of fd p)"
    "\<not> ucast (ka_timeout fd) \<le> clock fd (Suc (Suc (ticks fd))) - last_sent_frame_ts (peer_of fd p)"
    using assms by (simp_all add: i_frame_waiting_def not_le)
  ultimately show ?thesis using assms
    by (simp add: check_idle_timeout_def i_frame_waiting_def tiny_fd_connected_check_idle_timeout_def tiny_millis_def Let_def
        all_frames_are_sent_def time_passed_since_last_frame_received_def time_passed_since_last_frame_sent_def eval_nat_numeral)
qed

text \<open>The choice: the frame's slot, whose bytes are the header and the frame.\<close>

lemma i_frame_control:
  fixes n nr :: u8
  assumes "n < 8"
  defines "c \<equiv> push_bit 1 n OR push_bit 5 nr"
  shows "even c" "drop_bit 1 c AND 7 = n"
proof -
  show "even c" by (simp add: c_def even_or_iff even_push_bit_iff)
  have "drop_bit 1 c AND 7 = drop_bit 1 (push_bit 1 n) AND 7"
  proof (rule bit_word_eqI)
    fix i assume i: "i < LENGTH(8)"
    have "bit (7 :: u8) i \<longleftrightarrow> i < 3" using bit_mask_iff [of 3 i, where 'a = u8] i by (auto simp: mask_eq_exp_minus_1)
    then show "bit (drop_bit 1 c AND 7) i = bit (drop_bit 1 (push_bit 1 n) AND 7) i"
      by (auto simp: c_def bit_simps simp del: push_bit_Suc)
  qed
  then show "drop_bit 1 c AND 7 = n" using seq_of_control [OF assms(1)] by (simp only:)
qed

text \<open>The state in which the frame goes to the low level.\<close>

lemma log_frame_queues [simp]:
  "i_queue (tiny_fd_log_frame d data fd) = i_queue fd" "s_queue (tiny_fd_log_frame d data fd) = s_queue fd"
  "events (tiny_fd_log_frame d data fd) = events fd"
  by (simp_all add: tiny_fd_log_frame_def call_def Let_def)

lemma waiting_frame_chosen:
  assumes "i_frame_waiting fd p"
  obtains k fd2 where "tx_choose (fd\<lparr>ticks := ticks fd + 3\<rparr>) p = (Put_frame (I_slot k), fd2)"
    "frame_bytes (q_frames (i_queue fd2) ! k)
       = i_frame_bytes (peer_to_address_field fd p) (next_nr (ctl fd p)) (next_ns (ctl fd p)) (waiting_frame fd p)"
    "k < q_size (i_queue fd2)" "events fd2 AND FD_EVENT_TX_SENDING \<noteq> 0" "registered fd2 p" "keeps fd fd2"
    "map slot_place (q_frames (i_queue fd2)) = map slot_place (q_frames (i_queue fd))"
    "s_queue fd2 = s_queue fd"
proof -
  note w = assms [unfolded i_frame_waiting_def]
  have reg: "registered fd p" using w by simp
  define a where "a = peer_to_address_field fd p"
  define n where "n = next_ns (ctl fd p)"
  define fd1 where "fd1 = fd\<lparr>ticks := ticks fd + 3, events := events fd AND NOT FD_EVENT_TX_DATA_AVAILABLE\<rparr>"
  have t1: "touches p fd fd1" unfolding fd1_def by (intro touches_fields touches_refl registeredD(1) [OF reg])
  have r1: "registered fd1 p" using touches_registered [OF t1] w by simp
  have same: "peer_of fd1 q = peer_of fd q" "i_queue fd1 = i_queue fd" "s_queue fd1 = s_queue fd" "tx_window fd1 p = tx_window fd p"
    "peer_to_address_field fd1 p = a" "fd_mode fd1 = TINY_FD_MODE_ABM" for q
    using w by (simp_all add: fd1_def a_def peer_to_address_field_def)
  have n8: "n < 8" using control_less [OF r1] same(1) by (simp add: n_def)
  have iq: "iq_wf (i_queue fd)" and sq: "queue_wf (s_queue fd)" using registeredD(1) [OF reg] by (simp_all add: fd_wf_def s_queue_wf_def)
  have su: "tiny_fd_queue_get_next (s_queue fd) (TINY_FD_QUEUE_S_FRAME OR TINY_FD_QUEUE_U_FRAME) a 0 = None"
    using w by (auto simp: get_next_None [OF sq] frame_matches_def queue_type_defs)
  have "i_lookup a (i_queue fd) n = Some (waiting_frame fd p)"
    using window_lookup [OF registeredD(1,2) [OF reg] n8] w by (simp add: a_def n_def waiting_frame_def)
  then obtain k where k: "i_next (i_queue fd) a n = Some k" using i_next_lookup(1) [OF iq refl] by fastforce
  define fd2 where "fd2 = i_frame_out p k ns_moved fd1"
  note sent = i_frame_sent [OF r1 n8 _ fd2_def, unfolded same, OF k, simplified]
  have ck: "choose_frame fd1 p = (Some (I_slot k), fd2)"
    using su k w get_next_i_frame_eq [OF registeredD(4) [OF r1], of a]
    by (simp add: choose_frame_def tiny_fd_get_next_s_u_frame_to_send_def same may_send_i_def fd2_def n_def)
  have slot: "frame_bytes (q_frames (i_queue fd2) ! k) = i_frame_bytes a (next_nr (ctl fd p)) n (waiting_frame fd p)"
    using sent(6) by (simp add: waiting_frame_def n_def)
  then have "f_control (q_frames (i_queue fd2) ! k) = push_bit 1 n OR push_bit 5 (next_nr (ctl fd p))"
    by (simp add: frame_bytes_def i_frame_bytes_def)
  then have even: "even (f_control (q_frames (i_queue fd2) ! k))" using i_frame_control(1) [OF n8] by simp
  have mode: "fd_mode fd2 = TINY_FD_MODE_ABM" using sent(2) same(6) by (simp add: touches_def same_config_def)
  have mp: "mark_poll fd2 p (I_slot k) = fd2"
    using i_frame_bits(1) [OF even] mode by (simp add: mark_poll_def Let_def HDLC_U_FRAME_MASK_def HDLC_U_FRAME_BITS_def TINY_FD_MODE_ABM_def TINY_FD_MODE_NRM_def)
  define fd3 where "fd3 = sent_frame fd2 p (I_slot k)"
  have ref: "ref_ok fd2 (I_slot k)" using i_next_lookup(2) [OF iq k] same(2) by (simp add: fd2_def i_frame_out_def)
  have r2: "registered fd2 p" using touches_registered [OF sent(2) r1] .
  have t3: "touches p fd2 fd3" unfolding fd3_def by (rule touches_sent_frame [OF r2 ref])
  have q3: "i_queue fd3 = i_queue fd2" "s_queue fd3 = s_queue fd"
    by (simp_all add: fd3_def sent_frame_def Let_def mp) (simp add: fd2_def i_frame_out_def same)
  define fd4 where "fd4 = set_events FD_EVENT_TX_SENDING (set_events FD_EVENT_TX_DATA_AVAILABLE fd3)"
  have q4: "i_queue fd4 = i_queue fd2" "s_queue fd4 = s_queue fd" using q3 by (simp_all add: fd4_def set_events_def)
  have k4: "keeps fd fd4" unfolding fd4_def
    by (intro keeps_events keeps_trans [OF keeps_touches [OF t1]] keeps_trans [OF keeps_touches [OF sent(2)]] keeps_touches [OF t3])
  have "events fd \<noteq> 0" using w by auto
  then have ch: "tx_choose (fd\<lparr>ticks := ticks fd + 3\<rparr>) p = (Put_frame (I_slot k), fd4)"
    using w by (simp add: tx_choose_def wait_events_def tiny_events_wait_def get_next_frame_eq fd4_def fd3_def
        ck [unfolded fd1_def])
  have qf: "i_queue fd2 = set_slot (i_queue fd) k (stamp_nr (next_nr (ctl fd p)) (q_frames (i_queue fd) ! k))"
    by (simp add: fd2_def i_frame_out_def same)
  have hd: "slot_place (stamp_nr m f) = slot_place f" for m f by (simp add: stamp_nr_def slot_place_def)
  show ?thesis
  proof (rule that [OF ch])
    show "frame_bytes (q_frames (i_queue fd4) ! k)
       = i_frame_bytes (peer_to_address_field fd p) (next_nr (ctl fd p)) (next_ns (ctl fd p)) (waiting_frame fd p)"
      using slot by (simp add: q4 a_def n_def)
    show "k < q_size (i_queue fd4)" using ref by (simp add: q4)
    have "bit (events fd4) 0" by (simp add: fd4_def set_events_def ev.bit_set FD_EVENT_TX_SENDING_def)
    then show "events fd4 AND FD_EVENT_TX_SENDING \<noteq> 0"
      by (simp add: FD_EVENT_TX_SENDING_def and_one_eq bit_0 odd_iff_mod_2_eq_one)
    show "registered fd4 p" using keeps_registered [OF k4 reg] .
    show "map slot_place (q_frames (i_queue fd4)) = map slot_place (q_frames (i_queue fd))"
      using map_update [of slot_place "q_frames (i_queue fd)" k "q_frames (i_queue fd) ! k"] by (simp add: q4 qf map_update hd)
  qed (use k4 q4 in simp_all)
qed

text \<open>What the station puts on the line: the encoded frame, as far as the buffer goes.\<close>

lemma tx_sending_cleared:
  assumes "address_field_to_peer fd (data ! 0) \<noteq> HDLC_INVALID_PEER_INDEX"
  shows "fst (tiny_events_wait (events (on_frame_send fd header data)) FD_EVENT_TX_SENDING False) = 0"
proof -
  have cl: "bit b 0 \<Longrightarrow> \<not> bit (events (clear_events b fd1)) 0" for b fd1 by (simp add: clear_events_def ev.bit_clear)
  have "bit FD_EVENT_TX_SENDING 0" "bit (FD_EVENT_TX_SENDING OR FD_EVENT_HAS_MARKER) 0"
    by (simp_all add: FD_EVENT_TX_SENDING_def FD_EVENT_HAS_MARKER_def)
  then have "\<not> bit (events (on_frame_send fd header data)) 0"
    using assms by (auto simp: on_frame_send_def Let_def cl)
  then show ?thesis
    by (simp add: tiny_events_wait_def FD_EVENT_TX_SENDING_def and_one_eq bit_0 even_iff_mod_2_eq_zero)
qed

lemma registered_valid: "registered fd p \<Longrightarrow> p \<noteq> HDLC_INVALID_PEER_INDEX"
proof
  assume r: "registered fd p" and p: "p = HDLC_INVALID_PEER_INDEX"
  have "table_wf fd" using registeredD(1) [OF r] by (simp add: fd_wf_def)
  then have "unat p < 255" using registeredD(4) [OF r] by (simp add: table_wf_def)
  then show False by (simp add: p HDLC_INVALID_PEER_INDEX_def)
qed

definition tx_idle :: "tiny_fd \<Rightarrow> bool" where
  "tx_idle h \<longleftrightarrow> tx_state h = Send_start \<and> tx_origin h = 0 \<and> crc_type h \<noteq> HDLC_CRC_OFF
     \<and> hdlc_ll.on_frame_send h = Some on_frame_send"

lemma i_frame_on_the_line:
  assumes "i_frame_waiting (fd_of h) p" "next_peer (fd_of h) = p" "tx_idle h" "slots_apart (fd_of h)" "0 < len"
  defines "code \<equiv> hdlc_encode (crc_type h) (i_frame_bytes (peer_to_address_field (fd_of h) p) (next_nr (ctl (fd_of h) p))
     (next_ns (ctl (fd_of h) p)) (waiting_frame (fd_of h) p))"
  shows "\<exists>h'. tiny_fd_get_tx_data h len = (int (min len (length code)), take len code, h')"
proof -
  note w = assms(1) [unfolded i_frame_waiting_def]
  define fd where "fd = fd_of h"
  obtain k fd2 where k: "tx_choose (fd\<lparr>ticks := ticks fd + 3\<rparr>) p = (Put_frame (I_slot k), fd2)"
    "frame_bytes (q_frames (i_queue fd2) ! k)
       = i_frame_bytes (peer_to_address_field fd p) (next_nr (ctl fd p)) (next_ns (ctl fd p)) (waiting_frame fd p)"
    "k < q_size (i_queue fd2)" "events fd2 AND FD_EVENT_TX_SENDING \<noteq> 0" "registered fd2 p" "keeps fd fd2"
    "map slot_place (q_frames (i_queue fd2)) = map slot_place (q_frames (i_queue fd))" "s_queue fd2 = s_queue fd"
    using waiting_frame_chosen [OF assms(1)] unfolding fd_def by blast
  define f where "f = q_frames (i_queue fd2) ! k"
  define h2 where "h2 = h\<lparr>user_data := fd2\<rparr>"
  define h3 where "h3 = put_frame_ref (I_slot k) h2"
  have apart: "slots_apart fd2" using slots_apart_cong [of fd2 fd] k(7,8) assms(4) by (simp add: fd_def)
  have f: "f \<in> set (q_frames (i_queue fd2) @ q_frames (s_queue fd2))" using k(3) by (simp add: f_def)
  have "slot_wf (q_mtu (i_queue fd2)) f" using k(3) registeredD(1) [OF k(5)] by (auto simp: f_def fd_wf_def iq_wf_def queue_wf_def)
  then have "f_len f \<le> length (f_payload f)" by (simp add: slot_wf_def)
  then have mem: "bytes_at (mem (slots_mem h2)) (f_header f) (f_len f + 2) = frame_bytes f"
    using slot_frame_in_memory [of h2 f] apart f by (simp add: h2_def)
  have idle: "tx_state (slots_mem h2) = Send_start" "tx_origin (slots_mem h2) = 0" "crc_type (slots_mem h2) = crc_type h"
    "crc_type h \<noteq> HDLC_CRC_OFF" "hdlc_ll.on_frame_send (slots_mem h2) = Some on_frame_send" "fd_of (slots_mem h2) = fd2"
    using assms(3) by (simp_all add: tx_idle_def slots_mem_def h2_def)
  have nz: "f_header f \<noteq> 0" using apart f by (auto simp: slots_apart_def)
  have put: "hdlc_ll_put_frame (slots_mem h2) (f_header f) (f_len f + 2) = (TINY_SUCCESS, slots_mem h3)"
    using nz idle(2) by (simp add: h3_def put_frame_ref_def hdlc_ll_put_frame_def slots_mem_def h2_def flip: f_def)
  have crc: "crc_type (slots_mem h2) \<noteq> HDLC_CRC_OFF" using idle(3,4) by simp
  have pos: "0 < f_len f + 2" by simp
  note ready = put_frame_ready [OF idle(1,2) crc nz pos put, unfolded idle(3,5,6) mem]
  obtain n h4 where run: "hdlc_ll_run_tx (slots_mem h3) len = (n, h4)" by fastforce
  note sp = hdlc_ll_run_tx_spec [OF ready(2) run, unfolded ready(5)]
  have enc: "hdlc_encode (crc_type h) (frame_bytes f) = code" using k(2) by (simp add: code_def f_def fd_def)
  note sp = sp [unfolded enc]
  have r: "registered fd p" using w by (simp add: fd_def)
  note reg = registeredD(3) [OF r]
  have "get_tx_loop p len h [] True False = get_tx_loop p len h3 [] True True"
  proof -
    have "fst (tiny_events_wait (events fd) FD_EVENT_TX_SENDING False) = 0" using w by (simp add: tiny_events_wait_def fd_def)
    moreover have h1: "upd_fd (\<lambda>fd. check_idle_timeout fd p) h = h\<lparr>user_data := fd\<lparr>ticks := ticks fd + 3\<rparr>\<rparr>"
      using waiting_no_timeout [OF assms(1)] by (simp add: upd_fd_def fd_def)
    ultimately show ?thesis
      using assms(5) reg k(1) unfolding fd_def h3_def h2_def
      by (subst get_tx_loop.simps) (simp add: Let_def h1 [unfolded fd_def] upd_fd_def)
  qed
  moreover have "get_tx_loop p len h3 [] True True = get_tx_loop p len h4 (take len code) True True"
  proof -
    have ev: "events fd2 \<noteq> 0" using k(4) by auto
    have "n \<noteq> 0" using sp(1) assms(5) by (simp add: code_def)
    then show ?thesis using assms(5) run sp(2) ev k(4)
      by (subst get_tx_loop.simps) (simp add: tiny_events_wait_def h3_def h2_def)
  qed
  moreover have "\<exists>h'. get_tx_loop p len h4 (take len code) True True = (int (min len (length code)), take len code, h')"
  proof (cases "len \<le> length code")
    case True
    then show ?thesis by (subst get_tx_loop.simps) simp
  next
    case False
    then have h4: "fd_of h4 = on_frame_send fd2 (f_header f) (frame_bytes f)"
      using sp(3,8) ready(6) by (simp add: code_def)
    moreover have "frame_bytes f ! 0 = peer_to_address_field fd p" using k(2) by (simp add: f_def i_frame_bytes_def)
    moreover have "address_field_to_peer fd2 (peer_to_address_field fd p) = p"
    proof -
      have "same_config fd fd2" using k(6) by (simp add: keeps_def)
      note address_field_to_peer_config [OF registeredD(1) [OF r] this]
      then show ?thesis using w unfolding fd_def by metis
    qed
    moreover have "p \<noteq> HDLC_INVALID_PEER_INDEX" by (rule registered_valid [OF r])
    ultimately have "fst (tiny_events_wait (events (fd_of h4)) FD_EVENT_TX_SENDING False) = 0"
      using tx_sending_cleared by simp
    moreover have "p_addr (peer_of (fd_of h4) p) \<noteq> HDLC_INVALID_PEER_INDEX"
      using keeps_peer(2) [OF keeps_trans [OF k(6) on_frame_send_keeps [OF registeredD(1) [OF k(5)]]], where q = p] reg h4 by simp
    ultimately show ?thesis using False by (subst get_tx_loop.simps) simp
  qed
  ultimately show ?thesis using assms(2) by (simp add: tiny_fd_get_tx_data_def)
qed

subsection \<open>From one application to the other\<close>

text \<open>A station that is aligned with the frames on the line and hands what it receives to the protocol.\<close>

definition rx_listening :: "tiny_fd \<Rightarrow> bool" where
  "rx_listening h \<longleftrightarrow> rx_wf h \<and> rx_state h \<noteq> Read_end \<and> hdlc_aligned (rx_view h)
     \<and> hdlc_ll.on_frame_read h = Some on_frame_read"

text \<open>The station receives the bytes in chunks, as the physical layer hands them over.\<close>

definition receive_chunks :: "tiny_fd \<Rightarrow> u8 list list \<Rightarrow> tiny_fd" where
  "receive_chunks h chunks = fold (\<lambda>chunk h. snd (tiny_fd_on_rx_data h chunk)) chunks h"

lemma receive_encoded_frame:
  assumes "rx_listening b" "concat chunks = hdlc_encode (crc_type b) frame" "hdlc_fits (crc_type b) (nat (phys_mtu b)) frame"
  shows "fd_of (receive_chunks b chunks) = on_frame_read (fd_of b) frame"
proof -
  note l = assms(1) [unfolded rx_listening_def]
  obtain es where es: "rx_reads b (concat chunks) es (fold (\<lambda>chunk h. rx_feed h chunk) chunks b)"
    using rx_feed_chunks [of b chunks] l by blast
  then have "rx_reads b (concat (map (hdlc_encode (crc_type b)) [frame])) es (receive_chunks b chunks)"
    using assms(2) by (simp add: receive_chunks_def tiny_fd_on_rx_data_def)
  from reads_frames [OF this] show ?thesis
    using l assms(3) by (simp add: rx_wf_def notify_frames_def)
qed

text \<open>
  C4: The stack end to end. Station \<open>a\<close> has an I-frame to send and an idle low level; one call of
  \<open>tiny_fd_get_tx_data\<close> with a buffer that is large enough yields the encoded frame. When station \<open>b\<close>,
  which expects the number the frame has, is fed these bytes, in whatever chunks, its application gets
  exactly the payload that waited first in the window of \<open>a\<close>, once, and \<open>b\<close> expects the next number.
\<close>

theorem i_frame_end_to_end:
  fixes a b :: tiny_fd
  assumes "i_frame_waiting (fd_of a) p" "next_peer (fd_of a) = p" "tx_idle a" "slots_apart (fd_of a)"
    and "rx_listening b" "crc_type b = crc_type a" "fd_wf (fd_of b)" "on_read_cb (fd_of b)"
    and "address_field_to_peer (fd_of b) (peer_to_address_field (fd_of a) p) = q" "q \<noteq> HDLC_INVALID_PEER_INDEX"
    and "p_state (peer_of (fd_of b) q) = TINY_FD_STATE_CONNECTED"
    and "next_nr (ctl (fd_of b) q) = next_ns (ctl (fd_of a) p)"
    and "int (length (waiting_frame (fd_of a) p) + 2 + fcs_len (crc_type a)) \<le> phys_mtu b"
    and "tiny_fd_get_tx_data a len = (r, out, a')" "2 * (length (waiting_frame (fd_of a) p) + 2 + fcs_len (crc_type a)) + 2 \<le> len"
    and "concat chunks = out"
  shows "r = int (length out)
    \<and> reads (calls (fd_of (receive_chunks b chunks)))
        = reads (calls (fd_of b)) @ [(app_address (fd_of b) q, waiting_frame (fd_of a) p)]
    \<and> next_nr (ctl (fd_of (receive_chunks b chunks)) q) = seq_next (next_ns (ctl (fd_of a) p))"
proof -
  define ns where "ns = next_ns (ctl (fd_of a) p)"
  define frame where "frame = i_frame_bytes (peer_to_address_field (fd_of a) p) (next_nr (ctl (fd_of a) p)) ns (waiting_frame (fd_of a) p)"
  define code where "code = hdlc_encode (crc_type a) frame"
  have ns8: "ns < 8" using control_less assms(1) by (auto simp: ns_def i_frame_waiting_def)
  have st: "length (stuffing xs) \<le> 2 * length xs" for xs by (induction xs) (auto simp: stuff_def)
  have fl: "length frame = length (waiting_frame (fd_of a) p) + 2" by (simp add: frame_def i_frame_bytes_def)
  have "length code \<le> len"
    using st [of "frame @ fcs_bytes (crc_type a) frame"] assms(15) fl by (simp add: code_def hdlc_encode_def del: stuffing_append)
  then have out: "out = code" "r = int (length code)"
    using i_frame_on_the_line [OF assms(1-4), of len] assms(14,15) by (auto simp: code_def frame_def ns_def)
  have "hdlc_fits (crc_type b) (nat (phys_mtu b)) frame" using assms(6,13) fl by (auto simp: hdlc_fits_def frame_def i_frame_bytes_def)
  then have b': "fd_of (receive_chunks b chunks) = on_frame_read (fd_of b) frame"
    using receive_encoded_frame [OF assms(5)] assms(6,16) out by (simp add: code_def)
  have fb: "frame ! 0 = peer_to_address_field (fd_of a) p" "even (frame ! 1)" "drop_bit 1 (frame ! 1) AND 7 = ns"
    "drop 2 frame = waiting_frame (fd_of a) p" "2 \<le> length frame"
    using i_frame_control [OF ns8] by (simp_all add: frame_def i_frame_bytes_def)
  have "address_field_to_peer (fd_of b) (frame ! 0) = q" "p_state (peer_of (fd_of b) q) \<in> {TINY_FD_STATE_CONNECTED, TINY_FD_STATE_DISCONNECTING}"
    using assms(9,11) fb(1) by simp_all
  note d = i_frame_delivery [OF assms(7) fb(5) this(1) assms(10) this(2) fb(2)]
  have eq: "drop_bit 1 (frame ! 1) AND 7 = next_nr (ctl (fd_of b) q)" using fb(3) assms(12) by (simp add: ns_def)
  show ?thesis using d eq assms(8,12) out unfolding b' by (simp add: fb(4) ns_def)
qed

text \<open>A station in ABM mode that expects the frame that the first has waiting.\<close>

definition demo_receiver :: tiny_fd_data where
  "demo_receiver = upd_peer 0 (\<lambda>x. x\<lparr>i_queue_ctl := (i_queue_ctl x)\<lparr>next_nr := 6\<rparr>\<rparr>) demo_fd2"

lemma demo_station_fields: "fd_of (demo_station fd) = fd" "tx_idle (demo_station fd)" "rx_listening (demo_station fd)"
  "crc_type (demo_station fd) = HDLC_CRC_8" "phys_mtu (demo_station fd) = 8"
  by (simp_all add: demo_station_def tx_idle_def rx_listening_def rx_wf_def rx_view_def hdlc_aligned_def)

lemma demo_waiting: "i_frame_waiting demo_fd2 0" "waiting_frame demo_fd2 0 = [7]" "next_peer demo_fd2 = 0" "slots_apart demo_fd2"
proof -
  have "registered demo_fd2 0" using demo_fd2_facts(1,3,4) by (simp add: registered_def HDLC_INVALID_PEER_INDEX_def)
  moreover have "fd_mode demo_fd2 = TINY_FD_MODE_ABM" "p_state (peer_of demo_fd2 0) = TINY_FD_STATE_CONNECTED"
    "address_field_to_peer demo_fd2 1 = 0" "srej_req_mask (peer_of demo_fd2 0) = 0"
    "\<forall>f \<in> set (q_frames (s_queue demo_fd2)). f_type f = TINY_FD_QUEUE_FREE"
    "events demo_fd2 AND FD_EVENT_HAS_MARKER \<noteq> 0" "events demo_fd2 AND FD_EVENT_TX_DATA_AVAILABLE \<noteq> 0"
    "events demo_fd2 AND FD_EVENT_TX_SENDING = 0"
    by code_simp+
  moreover have "clock demo_fd2 (ticks demo_fd2 + 1) - last_received_frame_ts (peer_of demo_fd2 0) < 2 * ucast (ka_timeout demo_fd2)"
     "clock demo_fd2 (ticks demo_fd2 + 2) - last_sent_frame_ts (peer_of demo_fd2 0) < ucast (ka_timeout demo_fd2)"
    by code_simp+
  ultimately show "i_frame_waiting demo_fd2 0" by (simp add: i_frame_waiting_def demo_fd2_facts)
  show "waiting_frame demo_fd2 0 = [7]" by (simp add: waiting_frame_def demo_fd2_facts)
  show "next_peer demo_fd2 = 0" by code_simp
  show "slots_apart demo_fd2" by code_simp
qed

lemma demo_receiver_facts: "fd_wf demo_receiver" "on_read_cb demo_receiver" "address_field_to_peer demo_receiver 1 = 0"
  "p_state (peer_of demo_receiver 0) = TINY_FD_STATE_CONNECTED" "next_nr (ctl demo_receiver 0) = 6" "calls demo_receiver = []"
  "app_address demo_receiver 0 = 0"
proof -
  have "registered demo_fd2 0" using demo_waiting(1) by (simp add: i_frame_waiting_def)
  then show "fd_wf demo_receiver"
    using touches_upd_peer(1) [of demo_fd2 0 "\<lambda>x. x\<lparr>i_queue_ctl := (i_queue_ctl x)\<lparr>next_nr := 6\<rparr>\<rparr>"]
    by (simp add: demo_receiver_def touches_def demo_fd2_facts)
qed (code_simp)+

theorem i_frame_end_to_end_witness:
  "\<exists>out a'. tiny_fd_get_tx_data (demo_station demo_fd2) 32 = (int (length out), out, a')
     \<and> reads (calls (fd_of (receive_chunks (demo_station demo_receiver) [take 3 out, drop 3 out]))) = [(0, [7])]"
proof -
  obtain r out a' where run: "tiny_fd_get_tx_data (demo_station demo_fd2) 32 = (r, out, a')" by (metis prod_cases3)
  show ?thesis
    using i_frame_end_to_end [of "demo_station demo_fd2" 0 "demo_station demo_receiver" 0 32 r out a' "[take 3 out, drop 3 out]"] run
    by (simp add: demo_station_fields demo_waiting demo_receiver_facts demo_fd2_facts HDLC_INVALID_PEER_INDEX_def fcs_len_def)
qed

end
