(* ===== verification/FdApiSpec.thy ===== *)
theory FdApiSpec
  imports FdApi FdLink
begin

unbundle bit_operations_syntax

section \<open>The calls of the application: what they achieve\<close>

subsection \<open>What other threads may do meanwhile\<close>

text \<open>
  The frames of a peer's window advance: the invariant and the configuration stay, and frames only leave
  at the front, when the other side confirms them.
\<close>

definition advances :: "u8 \<Rightarrow> tiny_fd_data \<Rightarrow> tiny_fd_data \<Rightarrow> bool" where
  "advances p fd fd' \<longleftrightarrow> keeps fd fd' \<and> tiny_fd_get_mtu fd' = tiny_fd_get_mtu fd \<and> (\<exists>k. tx_window fd' p = drop k (tx_window fd p))"

definition env_ok :: "u8 \<Rightarrow> (tiny_fd_data \<Rightarrow> tiny_fd_data) \<Rightarrow> bool" where
  "env_ok p env \<longleftrightarrow> (\<forall>fd. fd_wf fd \<longrightarrow> advances p fd (env fd))"

lemma advances_refl: "fd_wf fd \<Longrightarrow> advances p fd fd"
  using keeps_refl by (auto simp: advances_def intro: exI [of _ 0])

lemma advances_trans: "advances p a b \<Longrightarrow> advances p b c \<Longrightarrow> advances p a c"
  using keeps_trans by (fastforce simp: advances_def)

lemma advances_same: "keeps fd fd' \<Longrightarrow> i_queue fd' = i_queue fd \<Longrightarrow> tx_window fd' p = tx_window fd p \<Longrightarrow> advances p fd fd'"
  by (auto simp: advances_def tiny_fd_get_mtu_def intro: exI [of _ 0])

lemma advances_registered: "advances p fd fd' \<Longrightarrow> registered fd q \<Longrightarrow> registered fd' q"
  using keeps_registered by (auto simp: advances_def)

lemma env_ok_id: "env_ok p (\<lambda>fd. fd)"
  by (simp add: env_ok_def advances_refl)

lemma advances_peer_events: "registered fd p \<Longrightarrow> advances p fd (upd_peer p (\<lambda>x. x\<lparr>p_events := f (p_events x)\<rparr>) fd)"
  by (rule advances_same [OF keeps_touches [where p = p]]; simp add: touches_upd_peer_plain)

lemma wait_peer_advances:
  assumes "registered fd p" "env_ok p env" "wait_peer_events env t p b c fd = (r, fd')"
  shows "advances p fd fd'"
    and "p_events (peer_of fd p) AND b \<noteq> 0 \<Longrightarrow> r \<noteq> 0 \<and> i_queue fd' = i_queue fd \<and> events fd' = events fd"
proof -
  define fd1 where "fd1 = (if p_events (peer_of fd p) AND b = 0 \<and> t \<noteq> 0 then env fd else fd)"
  have a: "advances p fd fd1" using assms(2) registeredD(1) [OF assms(1)] advances_refl by (simp add: fd1_def env_ok_def)
  obtain e where e: "tiny_events_wait (p_events (peer_of fd1 p)) b c = (r, e)" and fd': "fd' = upd_peer p (\<lambda>x. x\<lparr>p_events := e\<rparr>) fd1"
    using assms(3) by (auto simp: wait_peer_events_def fd1_def Let_def split: prod.splits)
  show "advances p fd fd'"
    unfolding fd' by (rule advances_trans [OF a advances_peer_events [OF advances_registered [OF a assms(1)]]])
  show "r \<noteq> 0 \<and> i_queue fd' = i_queue fd \<and> events fd' = events fd" if "p_events (peer_of fd p) AND b \<noteq> 0"
    using that e unfolding fd' by (auto simp: fd1_def tiny_events_wait_def)
qed

lemma wait_fd_advances:
  assumes "registered fd p" "env_ok p env" "wait_fd_events env t b c fd = (r, fd')"
  shows "advances p fd fd'" and "events fd AND b \<noteq> 0 \<Longrightarrow> r \<noteq> 0 \<and> i_queue fd' = i_queue fd"
proof -
  define fd1 where "fd1 = (if events fd AND b = 0 \<and> t \<noteq> 0 then env fd else fd)"
  have a: "advances p fd fd1" using assms(2) registeredD(1) [OF assms(1)] advances_refl by (simp add: fd1_def env_ok_def)
  obtain e where e: "tiny_events_wait (events fd1) b c = (r, e)" and fd': "fd' = fd1\<lparr>events := e\<rparr>"
    using assms(3) by (auto simp: wait_fd_events_def wait_events_def fd1_def Let_def split: prod.splits)
  have "keeps fd1 fd'" unfolding fd' using a keeps_wf keeps_refl by (auto simp: advances_def intro!: keeps_events)
  then show "advances p fd fd'" using advances_trans [OF a advances_same] by (simp add: fd')
  show "r \<noteq> 0 \<and> i_queue fd' = i_queue fd" if "events fd AND b \<noteq> 0"
    using that e unfolding fd' by (auto simp: fd1_def tiny_events_wait_def)
qed

subsection \<open>One packet\<close>

lemma after_put:
  assumes "registered fd p"
  defines "fd' \<equiv> (if \<not> i_queue_control_tx_full (ctl fd p) then set_peer_events p FD_EVENT_CAN_ACCEPT_I_FRAMES fd else fd)"
  shows "keeps fd fd'" "tx_window fd' q = tx_window fd q"
proof -
  let ?f = "\<lambda>x. x\<lparr>p_events := tiny_events_set (p_events x) FD_EVENT_CAN_ACCEPT_I_FRAMES\<rparr>"
  have "keeps fd (upd_peer p ?f fd)" by (rule keeps_touches, rule touches_upd_peer_plain [OF assms(1)]) simp_all
  then show "keeps fd fd'" using keeps_refl [OF registeredD(1) [OF assms(1)]] by (simp add: fd'_def set_peer_events_def)
  show "tx_window fd' q = tx_window fd q"
    using window_upd_peer [OF registeredD(4) [OF assms(1)], of ?f] by (simp add: fd'_def set_peer_events_def)
qed

text \<open>Queueing the frame once both waits have succeeded.\<close>

definition send_queued :: "u8 \<Rightarrow> u8 list \<Rightarrow> tiny_fd_data \<Rightarrow> int \<times> tiny_fd_data" where
  "send_queued p data fd =
     (case put_i_frame_to_tx_queue fd p data of (queued, fd) \<Rightarrow>
        let fd = (if queued \<and> tiny_fd_queue_has_free_slots (i_queue fd) then set_events FD_EVENT_QUEUE_HAS_FREE_SLOTS fd else fd)
        in (if queued then TINY_SUCCESS else TINY_ERR_TIMEOUT,
            if \<not> i_queue_control_tx_full (ctl fd p) then set_peer_events p FD_EVENT_CAN_ACCEPT_I_FRAMES fd else fd))"

lemma send_queued_spec:
  assumes "registered fd p" "send_queued p data fd = (r, fd')"
  shows "keeps fd fd'" and "tiny_fd_get_mtu fd' = tiny_fd_get_mtu fd"
    and "r = TINY_SUCCESS \<and> tx_window fd' p = tx_window fd p @ [data] \<and> length (tx_window fd p) < 7
      \<or> r = TINY_ERR_TIMEOUT \<and> tx_window fd' p = tx_window fd p
         \<and> (q_mtu (i_queue fd) < int (length data) \<or> \<not> tiny_fd_queue_has_free_slots (i_queue fd))"
    and "q < peers_count fd \<Longrightarrow> q \<noteq> p \<Longrightarrow> tx_window fd' q = tx_window fd q"
proof -
  obtain queued fd1 where put: "put_i_frame_to_tx_queue fd p data = (queued, fd1)" by fastforce
  note pr = put_i_frame_refines [OF registeredD(1-3) [OF assms(1)] put]
  define fd2 where "fd2 = (if queued \<and> tiny_fd_queue_has_free_slots (i_queue fd1) then set_events FD_EVENT_QUEUE_HAS_FREE_SLOTS fd1 else fd1)"
  have fd': "fd' = (if \<not> i_queue_control_tx_full (ctl fd2 p) then set_peer_events p FD_EVENT_CAN_ACCEPT_I_FRAMES fd2 else fd2)"
    and r: "r = (if queued then TINY_SUCCESS else TINY_ERR_TIMEOUT)"
    using assms(2) put by (auto simp: send_queued_def Let_def fd2_def)
  have "same_config fd fd1"
  proof (cases queued)
    case True
    have "same_config fd (fd\<lparr>i_queue := x, events := e, peers := (peers fd)[unat p := (peer_of fd p)\<lparr>i_queue_ctl := c\<rparr>]\<rparr>)" for x e c
      using registeredD(4) [OF assms(1)] by (simp add: same_config_def peer_of_def nth_list_update)
    then show ?thesis using pr(4) [OF True] by metis
  next
    case False
    then show ?thesis using pr(5) by simp
  qed
  then have k1: "keeps fd fd1" using pr(1) by (simp add: keeps_def)
  have k2: "keeps fd fd2" using k1 by (simp add: fd2_def keeps_events)
  have w2: "tx_window fd2 q = tx_window fd1 q" for q
    by (simp add: fd2_def set_events_def)
  note ap = after_put [OF keeps_registered [OF k2 assms(1)], folded fd']
  show "keeps fd fd'" by (rule keeps_trans [OF k2 ap(1)])
  have "q_mtu (i_queue fd1) = q_mtu (i_queue fd)"
    using put by (auto simp: put_i_frame_to_tx_queue_def tiny_fd_queue_allocate_def Let_def set_events_def split: option.splits if_splits)
  then show "tiny_fd_get_mtu fd' = tiny_fd_get_mtu fd"
    by (simp add: fd' fd2_def tiny_fd_get_mtu_def tiny_fd_queue_get_mtu_def set_peer_events_def set_events_def)
  show "r = TINY_SUCCESS \<and> tx_window fd' p = tx_window fd p @ [data] \<and> length (tx_window fd p) < 7
      \<or> r = TINY_ERR_TIMEOUT \<and> tx_window fd' p = tx_window fd p
         \<and> (q_mtu (i_queue fd) < int (length data) \<or> \<not> tiny_fd_queue_has_free_slots (i_queue fd))"
    using pr(2,5) ap(2) w2 by (cases queued) (simp_all add: r)
  show "tx_window fd' q = tx_window fd q" if "q < peers_count fd" "q \<noteq> p"
    using pr(3,5) that ap(2) w2 by (cases queued) simp_all
qed

lemma advances_ticks: "fd_wf fd \<Longrightarrow> advances p fd (fd\<lparr>ticks := t\<rparr>)"
  using keeps_events(4) [OF keeps_refl] by (intro advances_same) simp_all

lemma target_registered:
  assumes "fd_wf fd" "target_peer fd address = p" "p \<noteq> HDLC_INVALID_PEER_INDEX"
  shows "registered fd p"
  using address_field_to_peer_registered(1) [OF assms(1) refl] assms(2,3) by (auto simp: target_peer_def Let_def)

text \<open>The outcome of a call, for a peer \<open>p\<close> that exists.\<close>

definition send_outcome :: "u8 \<Rightarrow> u8 list \<Rightarrow> tiny_fd_data \<Rightarrow> int \<Rightarrow> tiny_fd_data \<Rightarrow> bool" where
  "send_outcome p data fd r fd' \<longleftrightarrow> keeps fd fd' \<and> tiny_fd_get_mtu fd' = tiny_fd_get_mtu fd \<and>
     (r = TINY_SUCCESS \<and> int (length data) \<le> tiny_fd_get_mtu fd
        \<and> (\<exists>k. tx_window fd' p = drop k (tx_window fd p) @ [data]) \<and> length (tx_window fd' p) \<le> 7
      \<or> r = TINY_ERR_DATA_TOO_LARGE \<and> tiny_fd_get_mtu fd < int (length data) \<and> tx_window fd' p = tx_window fd p
      \<or> r = TINY_ERR_TIMEOUT \<and> int (length data) \<le> tiny_fd_get_mtu fd
        \<and> (\<exists>k. tx_window fd' p = drop k (tx_window fd p)))"

lemma send_packet_outcome:
  assumes "fd_wf fd" "target_peer fd address = p" "p \<noteq> HDLC_INVALID_PEER_INDEX" "env_ok p env1" "env_ok p env2"
    and "tiny_fd_send_packet_to env1 env2 fd address data timeout = (r, fd')"
  shows "send_outcome p data fd r fd'"
    and "int (length data) \<le> tiny_fd_get_mtu fd \<Longrightarrow> p_events (peer_of fd p) AND FD_EVENT_CAN_ACCEPT_I_FRAMES \<noteq> 0 \<Longrightarrow>
      events fd AND FD_EVENT_QUEUE_HAS_FREE_SLOTS \<noteq> 0 \<Longrightarrow> tiny_fd_queue_has_free_slots (i_queue fd) \<Longrightarrow> r = TINY_SUCCESS"
proof -
  note reg = target_registered [OF assms(1-3)]
  define fd1 where "fd1 = fd\<lparr>ticks := ticks fd + 1\<rparr>"
  obtain acc fd2 where w1: "wait_peer_events env1 timeout p FD_EVENT_CAN_ACCEPT_I_FRAMES True fd1 = (acc, fd2)" by fastforce
  define fd3 where "fd3 = fd2\<lparr>ticks := ticks fd2 + 1\<rparr>"
  define delta where "delta = clock fd2 (ticks fd2) - clock fd (ticks fd)"
  obtain free fd4 where w2: "wait_fd_events env2 (if timeout > delta then timeout - delta else 0) FD_EVENT_QUEUE_HAS_FREE_SLOTS True fd3 = (free, fd4)"
    by fastforce
  obtain r5 fd5 where q5: "send_queued p data fd4 = (r5, fd5)" by fastforce
  obtain queued fd6 where put: "put_i_frame_to_tx_queue fd4 p data = (queued, fd6)" by fastforce
  have q6: "r5 = (if queued then TINY_SUCCESS else TINY_ERR_TIMEOUT)"
    "fd5 = (let fd = (if queued \<and> tiny_fd_queue_has_free_slots (i_queue fd6) then set_events FD_EVENT_QUEUE_HAS_FREE_SLOTS fd6 else fd6)
      in if \<not> i_queue_control_tx_full (ctl fd p) then set_peer_events p FD_EVENT_CAN_ACCEPT_I_FRAMES fd else fd)"
    using q5 unfolding send_queued_def put prod.case Let_def by blast+
  have millis: "tiny_millis fd = (clock fd (ticks fd), fd1)" "tiny_millis fd2 = (clock fd2 (ticks fd2), fd3)"
    by (simp_all add: tiny_millis_def fd1_def fd3_def)
  have mtu1: "tiny_fd_queue_get_mtu (i_queue fd1) = tiny_fd_get_mtu fd" by (simp add: fd1_def tiny_fd_get_mtu_def)
  have eq: "(r, fd') = (if tiny_fd_get_mtu fd < int (length data) then (TINY_ERR_DATA_TOO_LARGE, fd1)
      else if acc \<noteq> 0 then
        if free \<noteq> 0 then (r5, fd5)
        else (TINY_ERR_TIMEOUT, set_peer_events p FD_EVENT_CAN_ACCEPT_I_FRAMES fd4)
      else (TINY_ERR_TIMEOUT, fd2))"
    using assms(3) unfolding assms(6) [symmetric] tiny_fd_send_packet_to_def assms(2) Let_def millis prod.case mtu1 w1 delta_def [symmetric]
      w2 put q6 by simp
  have a1: "advances p fd fd1" unfolding fd1_def by (rule advances_ticks [OF assms(1)])
  have r1: "registered fd1 p" using advances_registered [OF a1 reg] .
  note wp = wait_peer_advances [OF r1 assms(4) w1]
  have a2: "advances p fd fd2" by (rule advances_trans [OF a1 wp(1)])
  have "advances p fd2 fd3" unfolding fd3_def using a2 by (intro advances_ticks) (auto simp: advances_def keeps_def)
  then have a3: "advances p fd fd3" by (rule advances_trans [OF a2])
  have r3: "registered fd3 p" using advances_registered [OF a3 reg] .
  note wf = wait_fd_advances [OF r3 assms(5) w2]
  have a4: "advances p fd fd4" by (rule advances_trans [OF a3 wf(1)])
  have r4: "registered fd4 p" using advances_registered [OF a4 reg] .
  note sq = send_queued_spec [OF r4 q5]
  have a4': "advances p fd (set_peer_events p FD_EVENT_CAN_ACCEPT_I_FRAMES fd4)"
    using advances_trans [OF a4 advances_peer_events [OF r4]] by (simp add: set_peer_events_def)
  obtain k where k: "tx_window fd4 p = drop k (tx_window fd p)" using a4 by (auto simp: advances_def)
  have k5: "keeps fd fd5" using keeps_trans [OF _ sq(1)] a4 by (simp add: advances_def)
  have w1same: "tx_window fd1 p = tx_window fd p" by (simp add: fd1_def)
  consider (large) "tiny_fd_get_mtu fd < int (length data)" "r = TINY_ERR_DATA_TOO_LARGE" "fd' = fd1"
    | (queued) "int (length data) \<le> tiny_fd_get_mtu fd" "r = r5" "fd' = fd5"
    | (late) "int (length data) \<le> tiny_fd_get_mtu fd" "r = TINY_ERR_TIMEOUT" "advances p fd fd'"
    using eq a2 a4' by (force split: if_splits)
  then show "send_outcome p data fd r fd'"
  proof cases
    case large
    then show ?thesis using a1 w1same by (simp add: send_outcome_def advances_def)
  next
    case queued
    have "length (tx_window fd4 p) < 7 \<Longrightarrow> length (tx_window fd4 p @ [data]) \<le> 7" by simp
    moreover have "\<exists>j. tx_window fd4 p @ [data] = drop j (tx_window fd p) @ [data]" "\<exists>j. tx_window fd4 p = drop j (tx_window fd p)"
      using k by blast+
    ultimately show ?thesis using k5 sq(2,3) a4 queued unfolding send_outcome_def advances_def by metis
  next
    case late
    then show ?thesis by (simp add: send_outcome_def advances_def)
  qed
  show "r = TINY_SUCCESS" if "int (length data) \<le> tiny_fd_get_mtu fd" "p_events (peer_of fd p) AND FD_EVENT_CAN_ACCEPT_I_FRAMES \<noteq> 0"
    "events fd AND FD_EVENT_QUEUE_HAS_FREE_SLOTS \<noteq> 0" "tiny_fd_queue_has_free_slots (i_queue fd)"
  proof -
    have 2: "acc \<noteq> 0" "i_queue fd2 = i_queue fd" "events fd2 = events fd" using wp(2) that(2) by (simp_all add: fd1_def)
    then have "free \<noteq> 0" "i_queue fd4 = i_queue fd" using wf(2) that(3) by (simp_all add: fd3_def)
    then show ?thesis using eq 2(1) that(1,4) sq(3) by (auto simp: tiny_fd_get_mtu_def tiny_fd_queue_get_mtu_def)
  qed
qed

text \<open>
  C9: \<open>tiny_fd_send_packet_to\<close>: an address that belongs to no peer is refused and changes nothing, a
  packet longer than the mtu is refused. Otherwise the packet is accepted exactly once, at the end of the
  window of its peer and behind all packets accepted before, which never grows beyond seven frames, or
  the call times out and leaves the window alone. The other threads that run during the two waits are those for which \<open>env_ok\<close> holds: they keep the invariant and
  the configuration, and to the window of this peer they do no more than take confirmed frames from its front. A second sender to the same peer, and a
  connection that is reset meanwhile and gets new frames, are outside of this. If the peer accepts frames and a slot is free the
  call succeeds without waiting.
\<close>

theorem tiny_fd_send_packet_accepts:
  assumes "fd_wf fd" "env_ok p env1" "env_ok p env2" "target_peer fd address = p"
    and "tiny_fd_send_packet_to env1 env2 fd address data timeout = (r, fd')"
  shows "if p = HDLC_INVALID_PEER_INDEX then r = TINY_ERR_UNKNOWN_PEER \<and> fd' = fd
    else send_outcome p data fd r fd'
      \<and> (int (length data) \<le> tiny_fd_get_mtu fd \<and> p_events (peer_of fd p) AND FD_EVENT_CAN_ACCEPT_I_FRAMES \<noteq> 0
           \<and> events fd AND FD_EVENT_QUEUE_HAS_FREE_SLOTS \<noteq> 0 \<and> tiny_fd_queue_has_free_slots (i_queue fd) \<longrightarrow> r = TINY_SUCCESS)"
proof (cases "p = HDLC_INVALID_PEER_INDEX")
  case True
  then show ?thesis using assms(4,5) by (simp add: tiny_fd_send_packet_to_def)
next
  case False
  then show ?thesis using send_packet_outcome [OF assms(1,4) False assms(2,3,5)] by simp
qed

theorem tiny_fd_send_packet_accepts_witness:
  "\<exists>fd'. tiny_fd_send_packet_to (\<lambda>fd. fd) (\<lambda>fd. fd) demo_fd2 0 [5, 6] 100 = (TINY_SUCCESS, fd')
     \<and> (\<exists>k. tx_window fd' 0 = drop k [[7], [8, 9]] @ [[5, 6]])"
proof -
  obtain r fd' where run: "tiny_fd_send_packet_to (\<lambda>fd. fd) (\<lambda>fd. fd) demo_fd2 0 [5, 6] 100 = (r, fd')" by fastforce
  have t: "target_peer demo_fd2 0 = 0" by code_simp
  have c: "tiny_fd_get_mtu demo_fd2 = 2" "p_events (peer_of demo_fd2 0) AND FD_EVENT_CAN_ACCEPT_I_FRAMES \<noteq> 0"
    "events demo_fd2 AND FD_EVENT_QUEUE_HAS_FREE_SLOTS \<noteq> 0" "tiny_fd_queue_has_free_slots (i_queue demo_fd2)"
    by code_simp+
  show ?thesis
    using tiny_fd_send_packet_accepts [OF demo_fd2_facts(1) env_ok_id env_ok_id t run] run c
    by (auto simp: HDLC_INVALID_PEER_INDEX_def send_outcome_def demo_fd2_facts)
qed

subsection \<open>A stream of bytes\<close>

lemma target_config:
  assumes "fd_wf fd" "same_config fd fd'"
  shows "target_peer fd' address = target_peer fd address"
proof -
  have "is_secondary_station fd' = is_secondary_station fd" "fd_addr fd' = fd_addr fd"
    using assms(2) by (simp_all add: same_config_def is_secondary_station_def is_primary_station_def)
  then show ?thesis
    using address_field_to_peer_config [OF assms] unfolding target_peer_def Let_def by presburger
qed

lemma send_outcomeD:
  assumes "send_outcome p data fd r fd'"
  shows "r = TINY_SUCCESS \<Longrightarrow> \<exists>k. tx_window fd' p = drop k (tx_window fd p) @ [data]"
    and "r \<noteq> TINY_SUCCESS \<Longrightarrow> \<exists>k. tx_window fd' p = drop k (tx_window fd p)"
proof -
  have same: "tx_window fd' p = tx_window fd p \<Longrightarrow> \<exists>k. tx_window fd' p = drop k (tx_window fd p)"
    by (rule exI [of _ 0]) simp
  note o = assms [unfolded send_outcome_def]
  show "r = TINY_SUCCESS \<Longrightarrow> \<exists>k. tx_window fd' p = drop k (tx_window fd p) @ [data]"
    using o by (elim conjE disjE) simp_all
  show "r \<noteq> TINY_SUCCESS \<Longrightarrow> \<exists>k. tx_window fd' p = drop k (tx_window fd p)"
    using o same by (elim conjE disjE) (assumption | simp)+
qed

lemma send_to_loop_step:
  assumes "data \<noteq> []" "chunk = take (nat (tiny_fd_get_mtu fd)) data"
    and "tiny_fd_send_packet_to env1 env2 fd address chunk timeout = (r, fd1)"
  shows "send_to_loop env1 env2 (Suc fuel) fd address data timeout =
    (if r \<noteq> TINY_SUCCESS then (data, fd1) else send_to_loop env1 env2 fuel fd1 address (drop (length chunk) data) timeout)"
proof -
  have "take (min (length data) (nat (tiny_fd_queue_get_mtu (i_queue fd)))) data = chunk"
    "min (length data) (nat (tiny_fd_queue_get_mtu (i_queue fd))) = length chunk"
    by (simp_all add: assms(2) tiny_fd_get_mtu_def min_def)
  then show ?thesis using assms(1,3) by (simp add: Let_def)
qed

lemma window_grows: "drop j ((drop k xs @ [x]) @ ys) = drop (j + min k (length xs)) (xs @ x # ys)"
  by (simp add: min_def drop_append flip: drop_drop)

lemma send_to_loop_spec:
  assumes "fd_wf fd" "env_ok p env1" "env_ok p env2" "target_peer fd address = p" "p \<noteq> HDLC_INVALID_PEER_INDEX"
    and "0 < tiny_fd_get_mtu fd" "send_to_loop env1 env2 fuel fd address data timeout = (left, fd')"
  shows "\<exists>chunks. data = concat chunks @ left \<and> (\<forall>c \<in> set chunks. c \<noteq> [] \<and> int (length c) \<le> tiny_fd_get_mtu fd)
    \<and> keeps fd fd' \<and> (\<exists>k. tx_window fd' p = drop k (tx_window fd p @ chunks))"
  using assms
proof (induction fuel arbitrary: fd data)
  case 0
  then show ?case using keeps_refl by (auto intro!: exI [of _ "[]"] exI [of _ 0])
next
  case (Suc fuel)
  show ?case
  proof (cases "data = []")
    case True
    then show ?thesis using Suc.prems keeps_refl by (auto intro!: exI [of _ "[]"] exI [of _ 0])
  next
    case nonempty: False
    define chunk where "chunk = take (nat (tiny_fd_get_mtu fd)) data"
    obtain r fd1 where run: "tiny_fd_send_packet_to env1 env2 fd address chunk timeout = (r, fd1)" by fastforce
    note o = send_packet_outcome(1) [OF Suc.prems(1,4,5,2,3) run]
    have chunk: "chunk \<noteq> []" "int (length chunk) \<le> tiny_fd_get_mtu fd" "data = chunk @ drop (length chunk) data"
      using nonempty Suc.prems(6) by (auto simp: chunk_def min_def)
    note step = send_to_loop_step [OF nonempty chunk_def run, of fuel, unfolded Suc.prems(7)]
    have k1: "keeps fd fd1" "tiny_fd_get_mtu fd1 = tiny_fd_get_mtu fd" using o by (simp_all add: send_outcome_def)
    show ?thesis
    proof (cases "r = TINY_SUCCESS")
      case True
      obtain k where k: "tx_window fd1 p = drop k (tx_window fd p) @ [chunk]" using send_outcomeD(1) [OF o True] by blast
      have t1: "target_peer fd1 address = p"
        by (rule trans [OF target_config [OF Suc.prems(1)] Suc.prems(4)]) (use k1(1) in \<open>simp add: keeps_def\<close>)
      have rest: "send_to_loop env1 env2 fuel fd1 address (drop (length chunk) data) timeout = (left, fd')" using step True by simp
      have m1: "0 < tiny_fd_get_mtu fd1" using k1(2) Suc.prems(6) by simp
      obtain chunks j where c: "drop (length chunk) data = concat chunks @ left"
        "\<forall>c \<in> set chunks. c \<noteq> [] \<and> int (length c) \<le> tiny_fd_get_mtu fd1"
        "keeps fd1 fd'" "tx_window fd' p = drop j (tx_window fd1 p @ chunks)"
        using Suc.IH [OF keeps_wf [OF k1(1)] Suc.prems(2,3) t1 Suc.prems(5) m1 rest] by blast
      have "data = concat (chunk # chunks) @ left" using chunk(3) c(1) by simp
      moreover have "\<forall>c \<in> set (chunk # chunks). c \<noteq> [] \<and> int (length c) \<le> tiny_fd_get_mtu fd"
        using chunk(1,2) c(2) k1(2) by simp
      moreover have "\<exists>k. tx_window fd' p = drop k (tx_window fd p @ chunk # chunks)"
        unfolding c(4) k window_grows by blast
      ultimately show ?thesis using keeps_trans [OF k1(1) c(3)] by blast
    next
      case False
      then have e: "left = data" "fd' = fd1" using step by simp_all
      have "\<exists>k. tx_window fd1 p = drop k (tx_window fd p @ [])"
        using send_outcomeD(2) [OF o False] by simp
      moreover have "data = concat [] @ left" using e by simp
      ultimately show ?thesis using k1(1) unfolding e by (intro exI [of _ "[]"]) simp
    qed
  qed
qed

text \<open>
  C10: \<open>tiny_fd_send_to\<close> delivers a prefix of the data to the window of the peer: the packets it appends,
  in order and behind everything accepted before, put together are exactly the bytes that it reports
  as sent, and none is empty or longer than the mtu.
\<close>

theorem tiny_fd_send_to_stream:
  assumes "fd_wf fd" "env_ok p env1" "env_ok p env2" "target_peer fd address = p" "p \<noteq> HDLC_INVALID_PEER_INDEX"
    and "0 < tiny_fd_get_mtu fd" "tiny_fd_send_to env1 env2 fd address data timeout = (r, fd')"
  shows "0 \<le> r \<and> r \<le> int (length data) \<and> fd_wf fd' \<and> (\<exists>packets k. concat packets = take (nat r) data
     \<and> (\<forall>c \<in> set packets. c \<noteq> [] \<and> int (length c) \<le> tiny_fd_get_mtu fd)
     \<and> tx_window fd' p = drop k (tx_window fd p @ packets))"
proof -
  obtain left where run: "send_to_loop env1 env2 (length data) fd address data timeout = (left, fd')"
    and r: "r = int (length data) - int (length left)"
    using assms(7) by (auto simp: tiny_fd_send_to_def split: prod.splits)
  obtain packets k where c: "data = concat packets @ left" "\<forall>c \<in> set packets. c \<noteq> [] \<and> int (length c) \<le> tiny_fd_get_mtu fd"
    "keeps fd fd'" "tx_window fd' p = drop k (tx_window fd p @ packets)"
    using send_to_loop_spec [OF assms(1-6) run] by blast
  have len: "length data = length (concat packets) + length left" unfolding c(1) by simp
  then have "concat packets = take (nat r) data" using r by (subst c(1)) simp
  then show ?thesis using c(2-4) r len keeps_wf by auto
qed

theorem tiny_fd_send_to_stream_witness:
  "\<exists>r fd' packets k. tiny_fd_send_to (\<lambda>fd. fd) (\<lambda>fd. fd) demo_fd2 0 [1, 2, 3, 4, 5] 100 = (r, fd')
     \<and> concat packets = take (nat r) [1, 2, 3, 4, 5] \<and> tx_window fd' 0 = drop k ([[7], [8, 9]] @ packets)"
proof -
  obtain r fd' where run: "tiny_fd_send_to (\<lambda>fd. fd) (\<lambda>fd. fd) demo_fd2 0 [1, 2, 3, 4, 5] 100 = (r, fd')" by fastforce
  have t: "target_peer demo_fd2 0 = 0" and m: "0 < tiny_fd_get_mtu demo_fd2" by code_simp+
  have "(0 :: u8) \<noteq> HDLC_INVALID_PEER_INDEX" by (simp add: HDLC_INVALID_PEER_INDEX_def)
  then show ?thesis
    using tiny_fd_send_to_stream [OF demo_fd2_facts(1) env_ok_id env_ok_id t _ m run] run by (auto simp: demo_fd2_facts)
qed


subsection \<open>Address fields\<close>

text \<open>The address field of an address of the application.\<close>

definition address_field :: "u8 \<Rightarrow> u8" where
  "address_field a = push_bit 2 a OR HDLC_E_BIT"

lemma address_field_low: "address_field a AND 3 = 1" "address_field a AND NOT HDLC_CR_BIT = address_field a"
  "address_field a AND HDLC_E_BIT \<noteq> 0"
proof -
  have bits: "n \<in> {0, 1, 2, 3, 4, 5, 6, 7}" if "n < LENGTH(8)" for n :: nat using that by auto
  show "address_field a AND 3 = 1" "address_field a AND NOT HDLC_CR_BIT = address_field a"
    by (rule bit_word_eqI, drule bits, auto simp: address_field_def hdlc_addr_defs bit_and_iff bit_or_iff bit_not_iff bit_push_bit_iff)+
  have "bit (address_field a AND HDLC_E_BIT) 0" by (simp add: address_field_def hdlc_addr_defs bit_and_iff bit_or_iff)
  then show "address_field a AND HDLC_E_BIT \<noteq> 0" by force
qed

lemma address_field_bit: "2 \<le> n \<Longrightarrow> n < 8 \<Longrightarrow> bit (address_field a) n = bit a (n - 2)"
  by (auto simp: address_field_def HDLC_E_BIT_def bit_or_iff bit_push_bit_iff bit_1_iff)

lemma small_address_bit: "(a :: u8) < 64 \<Longrightarrow> bit a n \<Longrightarrow> n < 6"
proof (rule ccontr)
  assume a: "a < 64" "bit a n" and n: "\<not> n < 6"
  have "unat a < 2 ^ 6" using a(1) by (simp add: word_less_nat_alt)
  moreover have "(2 :: nat) ^ 6 \<le> 2 ^ n" using n by (intro power_increasing) simp_all
  ultimately have "unat a div 2 ^ n = 0" by simp
  moreover have "bit (unat a) n" using a(2) by (simp add: bit_unsigned_iff bit_imp_le_length)
  ultimately show False by (simp add: bit_iff_odd)
qed

lemma address_field_inj: "a < 64 \<Longrightarrow> b < 64 \<Longrightarrow> address_field a = address_field b \<longleftrightarrow> a = b"
proof
  assume small: "a < 64" "b < 64" and eq: "address_field a = address_field b"
  have "bit a n = bit b n" for n
    using address_field_bit [of "n + 2" a] address_field_bit [of "n + 2" b] eq small_address_bit [OF small(1), of n]
      small_address_bit [OF small(2), of n] by (cases "n < 6") auto
  then show "a = b" by (intro bit_word_eqI) blast
qed simp

text \<open>An address shifted twice is itself only for 21, whose bits alternate.\<close>

lemma address_field_twice:
  assumes "a < 64" "address_field (address_field a) = address_field a"
  shows "a = 21"
proof -
  have b: "n + 2 < 8 \<Longrightarrow> bit a n = bit (address_field a) n" for n
    using assms(2) address_field_bit [of "n + 2"] by (metis add.commute add_diff_cancel_left' le_add1)
  have "bit (address_field a) 0" "\<not> bit (address_field a) 1"
    by (simp_all add: address_field_def HDLC_E_BIT_def bit_or_iff bit_push_bit_iff bit_1_iff)
  then have 0: "bit a 0" "\<not> bit a 1" using b [of 0] b [of 1] by simp_all
  then have 2: "bit a 2" "\<not> bit a 3" using b [of 2] b [of 3] address_field_bit [of 2 a] address_field_bit [of 3 a] by simp_all
  then have 4: "bit a 4" "\<not> bit a 5" using b [of 4] b [of 5] address_field_bit [of 4 a] address_field_bit [of 5 a] by simp_all
  have "n \<in> {0, 1, 2, 3, 4, 5, 6, 7}" if "n < LENGTH(8)" for n :: nat using that by auto
  then show "a = 21"
    using 0 2 4 small_address_bit [OF assms(1)] by (intro bit_word_eqI) fastforce
qed

lemma primary_address_field: "a < 64 \<Longrightarrow> is_primary_address (address_field a) \<longleftrightarrow> a = 0"
  using address_field_inj [of a 0] by (simp add: is_primary_address_def address_field_low(2)) (simp add: address_field_def hdlc_addr_defs)

subsection \<open>A secondary station and its primary\<close>

lemma refused_loop:
  assumes "tiny_fd_send_packet_to env1 env2 fd address = (\<lambda>data timeout. (TINY_ERR_UNKNOWN_PEER, fd))"
  shows "tiny_fd_send_to env1 env2 fd address data timeout = (0, fd)"
proof (cases data)
  case (Cons d ds)
  then have "send_to_loop env1 env2 (length data) fd address data timeout = (data, fd)"
    using assms by (simp add: Let_def)
  then show ?thesis by (simp add: tiny_fd_send_to_def)
qed (simp add: tiny_fd_send_to_def)

text \<open>
  C21: A secondary station with an address \<open>a\<close> from 1 to 63 other than 21 keeps its own address \<open>address_field a\<close> in \<open>handle->addr\<close>, already
  shifted and with the extension bit. For a packet to \<open>TINY_FD_PRIMARY_ADDR\<close> the send functions take that
  field for the address of the application and shift it once more, so the peer is not found, and the state does not change:
  \<open>tiny_fd_send_packet\<close>, and \<open>tiny_fd_send_packet_to\<close> with the address of the primary, fail with
  \<open>TINY_ERR_UNKNOWN_PEER\<close>; \<open>tiny_fd_send\<close> and \<open>tiny_fd_send_to\<close> send 0 bytes; \<open>tiny_fd_send_ui_packet\<close> and
  \<open>tiny_fd_send_ui_packet_to\<close> fail like the first two, or before that with a packet that is too large. With the
  station's own address as the argument of the \<open>_to\<close> functions the primary is found.
\<close>

theorem secondary_send_to_primary:
  assumes "0 < a" "a < 64" "a \<noteq> 21" "fd_addr fd = address_field a"
  shows "tiny_fd_send_packet_to env1 env2 fd TINY_FD_PRIMARY_ADDR data timeout = (TINY_ERR_UNKNOWN_PEER, fd) \<and>
    tiny_fd_send_packet env1 env2 fd data timeout = (TINY_ERR_UNKNOWN_PEER, fd) \<and>
    tiny_fd_send_to env1 env2 fd TINY_FD_PRIMARY_ADDR data timeout = (0, fd) \<and>
    tiny_fd_send env1 env2 fd data timeout = (0, fd) \<and>
    tiny_fd_send_ui_packet_to fd TINY_FD_PRIMARY_ADDR data =
      (if int (length data) > tiny_fd_queue_get_mtu (s_queue fd) then TINY_ERR_DATA_TOO_LARGE else TINY_ERR_UNKNOWN_PEER, fd) \<and>
    tiny_fd_send_ui_packet fd data = tiny_fd_send_ui_packet_to fd TINY_FD_PRIMARY_ADDR data \<and>
    target_peer fd a = 0"
proof -
  have sec: "is_secondary_station fd"
    using assms primary_address_field by (simp add: is_secondary_station_def is_primary_station_def)
  have to_peer: "address_field_to_peer fd (address_field b) = (if address_field b = fd_addr fd then 0 else HDLC_INVALID_PEER_INDEX)" for b
    using sec address_field_low(2,3) [of b] by (simp add: address_field_to_peer_def)
  have "address_field (address_field a) \<noteq> address_field a" using address_field_twice assms(2,3) by blast
  then have t: "target_peer fd TINY_FD_PRIMARY_ADDR = HDLC_INVALID_PEER_INDEX"
    using to_peer [of "fd_addr fd"] sec assms(4) by (simp add: target_peer_def address_field_def)
  then have p: "tiny_fd_send_packet_to env1 env2 fd TINY_FD_PRIMARY_ADDR = (\<lambda>data timeout. (TINY_ERR_UNKNOWN_PEER, fd))"
    by (simp add: tiny_fd_send_packet_to_def fun_eq_iff)
  have "drop_bit 2 HDLC_PRIMARY_ADDR = TINY_FD_PRIMARY_ADDR" by (simp add: hdlc_addr_defs)
  moreover have "target_peer fd a = 0"
    using assms(1) to_peer [of a] assms(4) by (simp add: target_peer_def address_field_def TINY_FD_PRIMARY_ADDR_def word_gt_0)
  ultimately show ?thesis
    using p t refused_loop [OF p]
    by (simp add: tiny_fd_send_packet_def tiny_fd_send_def tiny_fd_send_ui_packet_def tiny_fd_send_ui_packet_to_def)
qed

theorem secondary_send_to_primary_witness:
  "tiny_fd_send (\<lambda>fd. fd) (\<lambda>fd. fd) (demo_fd2\<lparr>fd_addr := 9\<rparr>) [1, 2] 100 = (0, demo_fd2\<lparr>fd_addr := 9\<rparr>)"
proof -
  have "(9 :: u8) = address_field 2" by (simp add: address_field_def HDLC_E_BIT_def)
  then show ?thesis using secondary_send_to_primary [of 2 "demo_fd2\<lparr>fd_addr := 9\<rparr>" "\<lambda>fd. fd" "\<lambda>fd. fd" "[1, 2]" 100] by simp
qed

end
