(* ===== verification/FdEndpoint.thy ===== *)
theory FdEndpoint
  imports FdServiceRing SlidingWindow FdApiSpec
begin

unbundle bit_operations_syntax

section \<open>A connected station as an end of the sliding window protocol\<close>

text \<open>
  When a station of the full duplex protocol represents an end of the abstract protocol (\<open>station_rep\<close>), and that each
  thing that happens to a connected station, a frame received, a timeout, a frame chosen and sent, a packet of the application,
  is what the abstract protocol allows the end to do.
\<close>

subsection \<open>What a packet is on the line\<close>

definition seq_of :: "nat \<Rightarrow> u8" where
  "seq_of n = of_nat (n mod 8)"

definition service_packet :: "u8 \<Rightarrow> nat \<Rightarrow> u8 list \<Rightarrow> bool" where
  "service_packet a r data \<longleftrightarrow> s_frame a data \<and> drop_bit 5 (data ! 1) = seq_of r
     \<and> data ! 1 AND HDLC_S_FRAME_TYPE_MASK \<in> {HDLC_S_FRAME_TYPE_RR, HDLC_S_FRAME_TYPE_REJ}"

fun packet_frame :: "u8 \<Rightarrow> u8 list packet \<Rightarrow> u8 list \<Rightarrow> bool" where
  "packet_frame a (I_packet i p r) data = (i_frame a i p data \<and> drop_bit 5 (data ! 1) = seq_of r)"
| "packet_frame a (S_packet r) data = service_packet a r data"

text \<open>A slot of the service queue that holds such a packet.\<close>

definition service_slot :: "u8 \<Rightarrow> nat \<Rightarrow> tiny_fd_frame_info \<Rightarrow> bool" where
  "service_slot a r f \<longleftrightarrow> f_type f = TINY_FD_QUEUE_S_FRAME \<and> f_len f = 0 \<and> service_packet a r (frame_bytes f)"

subsection \<open>What an end is in a station\<close>

text \<open>
  A station in ABM mode, connected, with address field \<open>a\<close>, whose application had received \<open>r0\<close> when the
  connection came up: its window holds what is accepted and not confirmed, the sequence numbers are the
  counts modulo 8, the service queue holds the service packets that wait.
\<close>

definition station_up :: "u8 \<Rightarrow> tiny_fd_data \<Rightarrow> bool" where
  "station_up a fd \<longleftrightarrow> fd_wf fd \<and> on_read_cb fd \<and> fd_mode fd = TINY_FD_MODE_ABM \<and> address_field_to_peer fd a = 0
     \<and> peer_to_address_field fd 0 = a \<and> p_state (peer_of fd 0) = TINY_FD_STATE_CONNECTED"

definition service_rep :: "u8 \<Rightarrow> tiny_fd_queue \<Rightarrow> nat list \<Rightarrow> bool" where
  "service_rep a q ns \<longleftrightarrow> ring_ok q \<and> list_all2 (service_slot a) ns (waiting q)"

definition station_rep :: "u8 \<Rightarrow> (u8 \<times> u8 list) list \<Rightarrow> tiny_fd_data \<Rightarrow> u8 list endpoint \<Rightarrow> bool" where
  "station_rep a r0 fd E \<longleftrightarrow> station_up a fd \<and> confirmed E \<le> length (accepted E)
     \<and> tx_window fd 0 = drop (confirmed E) (accepted E)
     \<and> confirm_ns (ctl fd 0) = seq_of (confirmed E) \<and> next_nr (ctl fd 0) = seq_of (length (got E))
     \<and> reads (calls fd) = r0 @ map (Pair (app_address fd 0)) (got E)
     \<and> service_rep a (s_queue fd) (queued E)"

lemma station_up_registered: "station_up a fd \<Longrightarrow> registered fd 0"
  using address_field_to_peer_registered(1) [of fd a 0] by (simp add: station_up_def HDLC_INVALID_PEER_INDEX_def)

lemma station_rep_registered: "station_rep a r0 fd E \<Longrightarrow> registered fd 0"
  using station_up_registered [of a fd] by (simp add: station_rep_def)

lemma station_up_touches:
  assumes "station_up a fd" "touches 0 fd fd'" "p_state (peer_of fd' 0) = TINY_FD_STATE_CONNECTED"
  shows "station_up a fd'" "app_address fd' 0 = app_address fd 0"
  using assms config_fields [OF assms(2)] address_field_to_peer_config [of fd fd' a]
  by (simp_all add: station_up_def touches_def)

text \<open>An operation on the station that leaves what the end is made of.\<close>

definition same_end :: "tiny_fd_data \<Rightarrow> tiny_fd_data \<Rightarrow> bool" where
  "same_end fd fd' \<longleftrightarrow> touches 0 fd fd' \<and> tx_window fd' 0 = tx_window fd 0 \<and> confirm_ns (ctl fd' 0) = confirm_ns (ctl fd 0)
     \<and> next_nr (ctl fd' 0) = next_nr (ctl fd 0) \<and> reads (calls fd') = reads (calls fd)"

lemma station_rep_same:
  assumes "station_rep a r0 fd E" "same_end fd fd'" "p_state (peer_of fd' 0) = TINY_FD_STATE_CONNECTED"
    and "service_rep a (s_queue fd') ns"
  shows "station_rep a r0 fd' (E\<lparr>queued := ns\<rparr>)"
  using assms station_up_touches [of a fd fd'] by (simp add: station_rep_def same_end_def)

subsection \<open>Sequence numbers\<close>

lemma seq_of_less [simp]: "seq_of n < 8"
proof -
  have "unat (seq_of n) = n mod 8" by (simp add: seq_of_def unat_of_nat take_bit_nat_eq_self)
  then show ?thesis by (simp add: word_less_nat_alt)
qed

lemma seq_next_seq_of: "seq_next (seq_of n) = seq_of (Suc n)"
  using seq_next_of_nat by (simp add: seq_of_def)

lemma seq_of_eq: "i < n + 8 \<Longrightarrow> n < i + 8 \<Longrightarrow> seq_of i = seq_of n \<longleftrightarrow> i = n"
  unfolding seq_of_def seq_of_nat by (rule in_reach_expected)

lemma seq_add_seq_of: "seq_add (seq_of n) k = seq_of (n + k)"
  by (induction k arbitrary: n) (simp_all add: seq_next_seq_of)

lemma seq_dist_seq_of: "k < 8 \<Longrightarrow> seq_dist (seq_of n) (seq_of (n + k)) = k"
  by (induction k) (simp_all add: seq_dist_next flip: seq_next_seq_of)

text \<open>A count that lies in the window confirms the frames before it.\<close>

lemma acked_count:
  assumes "station_rep a r0 fd E" "confirmed E \<le> r" "r \<le> length (accepted E)"
  shows "acked fd 0 (seq_of r) = r - confirmed E" "r - confirmed E < 8" "seq_add (confirm_ns (ctl fd 0)) (r - confirmed E) = seq_of r"
proof -
  have w: "seq_dist (confirm_ns (ctl fd 0)) (last_ns (ctl fd 0)) = length (accepted E) - confirmed E"
    using assms(1) tx_window_length [of fd 0] by (simp add: station_rep_def)
  then have "length (accepted E) - confirmed E < 8" using seq_dist_less [of "confirm_ns (ctl fd 0)" "last_ns (ctl fd 0)"] by simp
  then show k: "r - confirmed E < 8" using assms(3) by linarith
  have c: "confirm_ns (ctl fd 0) = seq_of (confirmed E)" using assms(1) by (simp add: station_rep_def)
  then have "seq_dist (confirm_ns (ctl fd 0)) (seq_of r) = r - confirmed E"
    using seq_dist_seq_of [OF k, of "confirmed E"] assms(2) by simp
  then show "acked fd 0 (seq_of r) = r - confirmed E" using w assms(3) by (simp add: acked_def confirmed_count_def)
  show "seq_add (confirm_ns (ctl fd 0)) (r - confirmed E) = seq_of r" using c seq_add_seq_of assms(2) by simp
qed

subsection \<open>The control field of service frames\<close>

lemma nr_bits: "n < 8 \<Longrightarrow> drop_bit 5 (b OR push_bit 5 n) = (n :: u8)" if "b < 32" for b :: u8
proof -
  assume n: "n < 8"
  have "drop_bit 5 b = 0"
    using that by (simp add: word_less_nat_alt unat_drop_bit_eq drop_bit_eq_div word_unat_eq_iff unat_div)
  moreover have "drop_bit 5 (push_bit 5 n) = n" using u8_less_8 [OF n] by auto
  ultimately show ?thesis by (simp add: drop_bit_or)
qed

lemma low_bits: "m < 32 \<Longrightarrow> (b OR push_bit 5 n) AND m = b AND (m :: u8)"
proof (rule bit_word_eqI)
  fix k assume m: "m < 32" and "k < LENGTH(8)"
  have "\<not> bit m k" if "5 \<le> k"
  proof -
    have "take_bit 5 m = m" using m by (simp add: take_bit_eq_mod word_unat_eq_iff unat_mod word_less_nat_alt)
    then show ?thesis using that by (metis bit_take_bit_iff not_le)
  qed
  then show "bit ((b OR push_bit 5 n) AND m) k = bit (b AND m) k" by (auto simp: bit_simps)
qed

text \<open>The address field of a command differs in the C/R bit only.\<close>

lemma cr_address: "(a OR HDLC_CR_BIT) AND NOT HDLC_CR_BIT = a AND NOT HDLC_CR_BIT"
  by (rule bit_word_eqI) (auto simp: bit_simps)

lemma report_packet:
  assumes "x = a \<or> x = a OR HDLC_CR_BIT" "b \<in> {0x01, 0x09, 0x11}"
  shows "service_packet a r [x, b OR push_bit 5 (seq_of r)]"
proof -
  have "b < 32" using assms(2) by auto
  note nr = nr_bits [OF this seq_of_less]
  have m: "(b OR push_bit 5 n) AND HDLC_S_FRAME_MASK = b AND HDLC_S_FRAME_MASK"
    "(b OR push_bit 5 n) AND HDLC_S_FRAME_TYPE_MASK = b AND HDLC_S_FRAME_TYPE_MASK" for n
    by (rule low_bits; simp add: HDLC_S_FRAME_MASK_def HDLC_S_FRAME_TYPE_MASK_def)+
  have "drop_bit 5 (push_bit 5 (seq_of r)) = seq_of r" using u8_less_8 [OF seq_of_less [of r]] by auto
  then show ?thesis using assms cr_address [of a]
    by (auto simp: service_packet_def s_frame_def nr m)
      (simp_all add: HDLC_S_FRAME_MASK_def HDLC_S_FRAME_BITS_def hdlc_s_type_defs)
qed

lemma put_report:
  fixes n :: nat
  assumes "s_queue_wf (s_queue fd)" "service_rep a (s_queue fd) ns"
    and "x = a \<or> x = a OR HDLC_CR_BIT" "b \<in> {0x01, 0x09, 0x11}" "s_queue fd = q"
  defines "q' \<equiv> s_queue (snd (put_u_s_frame_to_tx_queue fd TINY_FD_QUEUE_S_FRAME [x, b OR push_bit 5 (seq_of n)]))"
  shows "service_rep a q' ns \<or> service_rep a q' (ns @ [n])"
proof -
  have r: "ring_ok (s_queue fd)" "list_all2 (service_slot a) ns (waiting (s_queue fd))" using assms(2) by (simp_all add: service_rep_def)
  show ?thesis
  proof (rule put_u_s_frame_last [OF assms(1) r(1), of TINY_FD_QUEUE_S_FRAME "[x, b OR push_bit 5 (seq_of n)]"])
    assume "s_queue (snd (put_u_s_frame_to_tx_queue fd TINY_FD_QUEUE_S_FRAME [x, b OR push_bit 5 (seq_of n)])) = s_queue fd"
    then show ?thesis using assms(2) by (simp add: q'_def)
  next
    fix f assume f: "waiting (s_queue (snd (put_u_s_frame_to_tx_queue fd TINY_FD_QUEUE_S_FRAME [x, b OR push_bit 5 (seq_of n)]))) = waiting (s_queue fd) @ [f]"
      "ring_ok (s_queue (snd (put_u_s_frame_to_tx_queue fd TINY_FD_QUEUE_S_FRAME [x, b OR push_bit 5 (seq_of n)])))"
      "f_type f = TINY_FD_QUEUE_S_FRAME" "frame_bytes f = [x, b OR push_bit 5 (seq_of n)]" "f_len f = length [x, b OR push_bit 5 (seq_of n)] - 2"
    have "service_slot a n f" using f(3-5) report_packet [OF assms(3,4)] by (simp add: service_slot_def)
    then show ?thesis using f(1,2) r(2) by (simp add: q'_def service_rep_def list_all2_appendI)
  qed simp_all
qed

lemma service_rep_keep: "service_rep a q ns \<Longrightarrow> q' = q \<Longrightarrow> service_rep a q' ns \<or> service_rep a q' (ns @ [n])"
  by simp

subsection \<open>Receiving\<close>

lemma s_queue_simps [simp]:
  "s_queue (marked data fd) = s_queue fd" "s_queue (set_events b fd) = s_queue fd" "s_queue (clear_events b fd) = s_queue fd"
  by (simp_all add: marked_def set_events_def clear_events_def)

text \<open>An I-frame: the answer, if there is one, reports the new count.\<close>

lemma i_frame_reports:
  assumes "registered fd 0" "service_rep (peer_to_address_field fd 0) (s_queue fd) ns"
    and "next_nr (ctl fd 0) = seq_of m"
    and "n = (if drop_bit 1 (data ! 1) AND 7 = seq_of m then Suc m else m)"
  defines "fd' \<equiv> snd (on_i_frame_read fd 0 data)"
  shows "service_rep (peer_to_address_field fd 0) (s_queue fd') ns \<or> service_rep (peer_to_address_field fd 0) (s_queue fd') (ns @ [n])"
proof -
  define c where "c = data ! 1"
  define a where "a = peer_to_address_field fd 0"
  define ok where "ok \<longleftrightarrow> drop_bit 1 (c) AND 7 = seq_of m"
  define fd2 where "fd2 = snd (check_received_frame fd 0 (drop_bit 1 (c) AND 7))"
  define fd3 where "fd3 = confirm_sent_frames fd2 0 (drop_bit 5 (c))"
  note ch = check_ops [OF assms(1), of "drop_bit 1 (c) AND 7", folded fd2_def, unfolded assms(3) ok_def [symmetric]]
  note cf = confirm_ops [OF ch(2), of "drop_bit 5 (c)", folded fd3_def]
  have r3: "registered fd3 0" using registered_ops(5) [OF ch(2)] by (simp add: fd3_def)
  have res: "check_received_frame fd 0 (drop_bit 1 (c) AND 7) = (if ok then TINY_SUCCESS else TINY_ERR_FAILED, fd2)"
    using ch(1) by (simp add: prod_eq_iff fd2_def)
  show ?thesis
  proof (cases ok)
    case True
    define fd4 where "fd4 = (if on_read_cb fd3 then call (On_read (app_address fd3 0) (drop 2 data)) fd3 else fd3)"
    have r4: "registered fd4 0" using r3 registered_ops(4) by (simp add: fd4_def)
    have q4: "s_queue fd4 = s_queue fd" using ch(11) cf(5) True by (simp add: fd4_def)
    have a3: "peer_to_address_field fd3 0 = a" using cf(10) ch(10) by (simp add: a_def)
    have n3: "next_nr (ctl fd3 0) = seq_of n" using True assms(4) by (simp add: cf(1) ch(5) ok_def c_def seq_next_seq_of)
    have "fd' = fd4 \<or> fd' = snd (put_u_s_frame_to_tx_queue fd4 TINY_FD_QUEUE_S_FRAME [a, 0x01 OR push_bit 5 (seq_of n)])"
      using True unfolding fd'_def on_i_frame_read_def Let_def c_def [symmetric] res
      by (simp add: fd3_def [symmetric] fd4_def i_queue_control_get_next_frame_to_receive_def n3 a3 config_ops(11) [OF r3]
          HDLC_S_FRAME_BITS_def HDLC_S_FRAME_TYPE_RR_def)
    then show ?thesis
      using assms(2) q4 put_report [of fd4 a ns a "0x01" "s_queue fd4" n] registeredD(1) [OF r4]
      by (auto simp: fd_wf_def a_def)
  next
    case False
    then have f: "fd' = fd3" unfolding fd'_def on_i_frame_read_def Let_def c_def [symmetric] res by (simp add: fd3_def)
    let ?u = "upd_peer 0 (\<lambda>p. p\<lparr>sent_reject := True\<rparr>) fd"
    have n: "n = m" using False assms(4) by (simp add: ok_def c_def)
    have "fd2 = fd \<or> fd2 = snd (put_u_s_frame_to_tx_queue ?u TINY_FD_QUEUE_S_FRAME [a OR HDLC_CR_BIT, 0x09 OR push_bit 5 (seq_of n)])"
      using False unfolding fd2_def check_received_frame_def Let_def n
      by (simp add: i_queue_control_get_next_frame_to_receive_def assms(3) ok_def a_def
          HDLC_S_FRAME_BITS_def HDLC_S_FRAME_TYPE_REJ_def or_1_8)
    then have "service_rep a (s_queue fd2) ns \<or> service_rep a (s_queue fd2) (ns @ [n])"
      using assms(2) put_report [of ?u a ns "a OR HDLC_CR_BIT" "0x09" "s_queue fd" n] registeredD(1) [OF assms(1)]
      by (auto simp: fd_wf_def a_def)
    then show ?thesis using cf(5) by (simp add: f a_def)
  qed
qed

lemma receive_i_packet:
  assumes "station_rep a r0 fd E" "i_frame a i p data" "drop_bit 5 (data ! 1) = seq_of r"
    and "confirmed E \<le> r" "r \<le> length (accepted E)" "i < length (got E) + 8" "length (got E) < i + 8"
  defines "E' \<equiv> take_packet (I_packet i p r) E"
  shows "station_rep a r0 (on_frame_read fd data) E' \<or> station_rep a r0 (on_frame_read fd data) (E'\<lparr>queued := queued E @ [length (got E')]\<rparr>)"
proof -
  define fd' where "fd' = on_frame_read fd data"
  define m where "m = length (got E)"
  note rep = assms(1) [unfolded station_rep_def]
  have up: "station_up a fd" using rep by simp
  note u = up [unfolded station_up_def]
  note f = assms(2) [unfolded i_frame_def]
  have ap: "address_field_to_peer fd (data ! 0) = 0" "(0 :: u8) \<noteq> HDLC_INVALID_PEER_INDEX" using u f by (simp_all add: HDLC_INVALID_PEER_INDEX_def)
  have up_with: "up_with fd a 0 m" using rep u by (simp add: up_with_def HDLC_INVALID_PEER_INDEX_def m_def seq_of_def)
  note st = up_with_step [OF up_with assms(2), unfolded m_def, OF assms(6,7), folded fd'_def m_def]
  have d: "drop_bit 1 (data ! 1) AND 7 = seq_of m \<longleftrightarrow> i = m"
    using f seq_of_eq [OF assms(6,7)] by (simp add: m_def seq_of_def)
  have fr: "2 \<le> length data" "even (data ! 1)" using f by simp_all
  have cs: "p_state (peer_of fd 0) \<in> {TINY_FD_STATE_CONNECTED, TINY_FD_STATE_DISCONNECTING}" using u by simp
  have wf: "fd_wf fd" using u by simp
  have nn: "next_nr (ctl fd 0) = seq_of m" using rep by (simp add: m_def)
  note del = i_frame_delivery [OF wf fr(1) ap cs fr(2), folded fd'_def, unfolded assms(3) acked_count(1) [OF assms(1,4,5)] nn d]
  note ack = acked_count(2,3) [OF assms(1,4,5)]
  have "\<not> is_rset data" using i_frame_bits(1) [OF fr(2)] by (auto simp: is_rset_def)
  then have t: "touches 0 fd fd'" using on_frame_read_touches [OF wf, of data] ap by (simp add: fd'_def)
  have up': "station_up a fd'" "app_address fd' 0 = app_address fd 0" using station_up_touches [OF up t] del u by simp_all
  note r = on_frame_read_registered [OF wf fr(1) ap]
  have by_type: "fd' = marked data (snd (on_i_frame_read (noted 0 data fd) 0 data))"
    using r(1) i_frame_bits [OF fr(2)] noted_ops(1) [OF r(2), where data = data] u
    by (simp add: fd'_def on_frame_read_by_type_def Let_def)
  have "service_rep a (s_queue fd') (queued E) \<or> service_rep a (s_queue fd') (queued E @ [if i = m then Suc m else m])"
    using i_frame_reports [OF r(3), of "queued E" m _ data, OF _ _ refl] rep noted_ops [OF r(2), where data = data]
      config_ops(10) [OF r(2), where data = data] u nn d
    by (simp add: by_type)
  moreover have "tx_window fd' 0 = drop r (accepted E)" using del rep assms(4) by simp
  moreover have "confirm_ns (ctl fd' 0) = seq_of r" "next_nr (ctl fd' 0) = seq_of (if i = m then Suc m else m)"
    using del ack seq_next_seq_of by simp_all
  moreover have "reads (calls fd') = r0 @ map (Pair (app_address fd 0)) (got E @ (if i = m then [p] else []))"
    using st(3) rep f by simp
  ultimately show ?thesis
    using up' assms(5) by (auto simp: station_rep_def E'_def m_def fd'_def [symmetric])
qed

text \<open>What the handler does with RR and REJ: it confirms, goes back or answers.\<close>

lemma on_s_frame_cases:
  fixes data :: "u8 list"
  assumes "registered fd p" "data ! 1 AND HDLC_S_FRAME_TYPE_MASK \<in> {HDLC_S_FRAME_TYPE_RR, HDLC_S_FRAME_TYPE_REJ}"
  defines "fd1 \<equiv> confirm_sent_frames fd p (drop_bit 5 (data ! 1))" and "fd' \<equiv> snd (on_s_frame_read fd p data)"
  obtains (plain) "fd' = fd1"
  | (go_back) "fd' = resend_all_unconfirmed_frames fd1 p (data ! 1) (drop_bit 5 (data ! 1))"
  | (answer) b where "b \<in> {0x01, 0x11}"
      "fd' = snd (put_u_s_frame_to_tx_queue fd1 TINY_FD_QUEUE_S_FRAME
          [peer_to_address_field fd1 p, b OR push_bit 5 (next_nr (ctl fd1 p))])"
proof -
  define c where "c = data ! 1"
  have ne: "HDLC_S_FRAME_TYPE_RR \<noteq> HDLC_S_FRAME_TYPE_REJ" by (simp add: hdlc_s_type_defs)
  have "c AND HDLC_P_BIT = 0 \<or> c AND HDLC_P_BIT = 0x10"
  proof (cases "bit c 4")
    case True
    then have "c AND HDLC_P_BIT = 0x10" by (intro bit_word_eqI) (auto simp: HDLC_P_BIT_def bit_simps less_Suc_eq numeral_eq_Suc)
    then show ?thesis ..
  next
    case False
    then have "c AND HDLC_P_BIT = 0" by (intro bit_word_eqI) (auto simp: HDLC_P_BIT_def bit_simps less_Suc_eq numeral_eq_Suc)
    then show ?thesis ..
  qed
  then have p: "HDLC_S_FRAME_BITS OR HDLC_S_FRAME_TYPE_RR OR (c AND HDLC_P_BIT) OR n = (if c AND HDLC_P_BIT = 0 then 0x01 else 0x11) OR n" for n
    by (auto simp: HDLC_S_FRAME_BITS_def HDLC_S_FRAME_TYPE_RR_def simp flip: or.assoc)
  define d where "d = (if c AND HDLC_P_BIT = 0 then 0x01 else 0x11 :: u8)"
  have "fd' = (if c AND HDLC_S_FRAME_TYPE_MASK = HDLC_S_FRAME_TYPE_REJ then resend_all_unconfirmed_frames fd1 p c (drop_bit 5 c)
     else if data ! 0 AND HDLC_CR_BIT \<noteq> 0 \<and> all_frames_are_sent (ctl fd1 p)
     then snd (put_u_s_frame_to_tx_queue fd1 TINY_FD_QUEUE_S_FRAME
          [peer_to_address_field fd1 p, d OR push_bit 5 (next_nr (ctl fd1 p))])
     else fd1)"
    using assms(2) ne unfolding fd'_def fd1_def on_s_frame_read_def Let_def c_def [symmetric] p d_def
    by (auto simp: i_queue_control_get_next_frame_to_receive_def)
  moreover have "d \<in> {0x01, 0x11}" by (simp add: d_def)
  ultimately show thesis using plain go_back answer [of d] unfolding c_def by presburger
qed

lemma receive_s_packet:
  assumes "station_rep a r0 fd E" "service_packet a r data" "confirmed E \<le> r" "r \<le> length (accepted E)"
  defines "E' \<equiv> E\<lparr>confirmed := r\<rparr>"
  shows "station_rep a r0 (on_frame_read fd data) E' \<or> station_rep a r0 (on_frame_read fd data) (E'\<lparr>queued := queued E @ [length (got E')]\<rparr>)"
proof -
  define fd' where "fd' = on_frame_read fd data"
  note rep = assms(1) [unfolded station_rep_def]
  have up: "station_up a fd" using rep by simp
  note u = up [unfolded station_up_def]
  note sp = assms(2) [unfolded service_packet_def]
  have v: "(0 :: u8) \<noteq> HDLC_INVALID_PEER_INDEX" "s_frame a data" "fd_wf fd" "address_field_to_peer fd a = 0"
    "p_state (peer_of fd 0) \<in> {TINY_FD_STATE_CONNECTED, TINY_FD_STATE_DISCONNECTING}"
    using sp u by (simp_all add: HDLC_INVALID_PEER_INDEX_def)
  note eq = s_frame_by_type [OF v(3,2,4,1,5)]
  define fd0 where "fd0 = noted 0 data fd"
  have r0: "registered fd0 0" using registered_ops(3) [OF eq(3)] by (simp add: fd0_def)
  note n0 = noted_ops [OF eq(3), where data = data, folded fd0_def]
  note c0 = config_ops(10) [OF eq(3), where data = data, folded fd0_def]
  have nr: "drop_bit 5 (data ! 1) = seq_of r" using sp by simp
  define fd1 where "fd1 = confirm_sent_frames fd0 0 (seq_of r)"
  note cf = confirm_ops [OF r0, of "seq_of r", folded fd1_def]
  have r1: "registered fd1 0" using registered_ops(5) [OF r0] by (simp add: fd1_def)
  have ak: "acked fd0 0 (seq_of r) = r - confirmed E" using acked_count(1) [OF assms(1,3,4)] by (simp add: acked_def n0)
  have ctl1: "ctl fd1 0 = (ctl fd 0)\<lparr>confirm_ns := seq_of r\<rparr>"
    using acked_count(3) [OF assms(1,3,4)] by (simp add: cf(1) ak n0)
  have w1: "tx_window fd1 0 = drop r (accepted E)" using rep assms(3) by (simp add: cf(7) ak n0)
  have s1: "s_queue fd1 = s_queue fd" "peer_to_address_field fd1 0 = a" using cf(5,10) n0(5) c0 u by simp_all
  have nn: "next_nr (ctl fd1 0) = seq_of (length (got E))" using rep by (simp add: ctl1)
  define fd2 where "fd2 = snd (on_s_frame_read fd0 0 data)"
  have "tx_window fd2 0 = tx_window fd1 0 \<and> confirm_ns (ctl fd2 0) = seq_of r \<and> next_nr (ctl fd2 0) = seq_of (length (got E))
      \<and> (service_rep a (s_queue fd2) (queued E) \<or> service_rep a (s_queue fd2) (queued E @ [length (got E)]))"
  proof (rule on_s_frame_cases [OF r0, of data, unfolded nr, folded fd1_def fd2_def])
    show "data ! 1 AND HDLC_S_FRAME_TYPE_MASK \<in> {HDLC_S_FRAME_TYPE_RR, HDLC_S_FRAME_TYPE_REJ}" using sp by simp
  next
    assume "fd2 = fd1"
    then show ?thesis using nn ctl1 rep s1 by simp
  next
    assume g: "fd2 = resend_all_unconfirmed_frames fd1 0 (data ! 1) (seq_of r)"
    note rs = resend_all_refines [OF registeredD(1,2) [OF r1] seq_of_less [of r], where control = "data ! 1", folded g]
    have "go_back_target (ctl fd1 0) (seq_of r) = seq_of r" by (simp add: go_back_target_def ctl1)
    then show ?thesis using rs(3-5) nn ctl1 rep s1 by simp
  next
    fix b assume b: "b \<in> {0x01, 0x11 :: u8}" and
      f: "fd2 = snd (put_u_s_frame_to_tx_queue fd1 TINY_FD_QUEUE_S_FRAME [peer_to_address_field fd1 0, b OR push_bit 5 (next_nr (ctl fd1 0))])"
    have sq: "s_queue_wf (s_queue fd1)" using registeredD(1) [OF r1] by (simp add: fd_wf_def)
    have "service_rep a (s_queue fd2) (queued E) \<or> service_rep a (s_queue fd2) (queued E @ [length (got E)])"
      using put_report [OF sq, of a "queued E" a b "s_queue fd1" "length (got E)"] rep s1 b by (auto simp: f nn)
    then show ?thesis using nn ctl1 by (simp add: f put_ops [OF sq])
  qed
  moreover have "fd' = marked data fd2" using eq(1) by (simp add: fd'_def fd2_def fd0_def)
  moreover have "reads (calls fd') = reads (calls fd)" "p_state (peer_of fd' 0) = p_state (peer_of fd 0)"
    using on_s_frame_ops [OF r0, of data] n0 by (simp_all add: \<open>fd' = marked data fd2\<close> fd2_def)
  ultimately show ?thesis
    using rep w1 station_up_touches [OF up eq(2)] u assms(4) unfolding fd'_def [symmetric]
    by (auto simp: station_rep_def E'_def)
qed

subsection \<open>Timeouts\<close>

lemma connected_idle_cases:
  assumes "registered fd p"
  defines "fd' \<equiv> tiny_fd_connected_check_idle_timeout fd p"
  obtains (plain) t where "fd' = fd\<lparr>ticks := t\<rparr>"
  | (go_back) fd0 where "fd0 = upd_peer p (\<lambda>x. x\<lparr>p_retries := p_retries x - 1\<rparr>) (fd\<lparr>ticks := ticks fd + 1\<rparr>)"
      "fd' = resend_all_unconfirmed_frames fd0 p 0 (confirm_ns (ctl fd p))"
  | (down) t where "fd' = switch_to_disconnected_state (fd\<lparr>ticks := t\<rparr>) p"
  | (alive) fd0 t s where "fd0 = upd_peer p (\<lambda>x. x\<lparr>ka_confirmed := False\<rparr>) (fd\<lparr>ticks := ticks fd + 1 + 1 + 1\<rparr>)"
      "fd' = upd_peer p (\<lambda>x. x\<lparr>last_sent_frame_ts := s\<rparr>) ((snd (put_u_s_frame_to_tx_queue fd0 TINY_FD_QUEUE_S_FRAME
        [peer_to_address_field fd p, 0x11 OR push_bit 5 (next_nr (ctl fd p))]))\<lparr>ticks := t\<rparr>)"
proof -
  have b: "HDLC_S_FRAME_BITS OR HDLC_S_FRAME_TYPE_RR OR HDLC_P_BIT OR n = 0x11 OR n" for n
    by (simp add: HDLC_S_FRAME_BITS_def HDLC_S_FRAME_TYPE_RR_def HDLC_P_BIT_def flip: or.assoc)
  define c1 where "c1 \<longleftrightarrow> i_queue_control_has_unconfirmed_frames (ctl fd p) \<and> all_frames_are_sent (ctl fd p)
    \<and> clock fd (ticks fd) - last_sent_i_ts (peer_of fd p) \<ge> ucast (retry_timeout fd)"
  define c2 where "c2 \<longleftrightarrow> p_retries (peer_of fd p) > 0"
  define c3 where "c3 \<longleftrightarrow> clock fd (ticks fd + 1) - last_received_frame_ts (peer_of fd p) \<ge> 2 * ucast (ka_timeout fd)"
  define c4 where "c4 \<longleftrightarrow> ka_confirmed (peer_of fd p)"
  define c5 where "c5 \<longleftrightarrow> clock fd (ticks fd + 1 + 1) - last_sent_frame_ts (peer_of fd p) \<ge> ucast (ka_timeout fd)"
  define fd0 where "fd0 = upd_peer p (\<lambda>x. x\<lparr>ka_confirmed := False\<rparr>) (fd\<lparr>ticks := ticks fd + 1 + 1 + 1\<rparr>)"
  define fd1 where "fd1 = snd (put_u_s_frame_to_tx_queue fd0 TINY_FD_QUEUE_S_FRAME
        [peer_to_address_field fd p, 0x11 OR push_bit 5 (next_nr (ctl fd p))])"
  define fd2 where "fd2 = upd_peer p (\<lambda>x. x\<lparr>p_retries := p_retries x - 1\<rparr>) (fd\<lparr>ticks := ticks fd + 1\<rparr>)"
  have "fd' = (if c1 then if c2 then resend_all_unconfirmed_frames fd2 p 0 (confirm_ns (ctl fd p))
        else switch_to_disconnected_state (fd\<lparr>ticks := ticks fd + 1\<rparr>) p
      else if c3 then if c4 then fd\<lparr>ticks := ticks fd + 1 + 1\<rparr> else switch_to_disconnected_state (fd\<lparr>ticks := ticks fd + 1 + 1\<rparr>) p
      else if c5 then upd_peer p (\<lambda>x. x\<lparr>last_sent_frame_ts := clock fd1 (ticks fd1)\<rparr>) (fd1\<lparr>ticks := ticks fd1 + 1\<rparr>)
      else fd\<lparr>ticks := ticks fd + 1 + 1 + 1\<rparr>)"
    unfolding fd'_def tiny_fd_connected_check_idle_timeout_def Let_def tiny_millis_def prod.case
      time_passed_since_last_frame_received_def time_passed_since_last_frame_sent_def i_queue_control_get_next_frame_to_confirm_def
      i_queue_control_get_next_frame_to_receive_def b c1_def c2_def c3_def c4_def c5_def fd1_def fd2_def fd0_def
    using registeredD(4) [OF assms(1)] by (simp add: peer_to_address_field_def peer_of_upd_peer cong: if_cong)
  then show thesis
    using plain go_back [OF fd2_def] down alive [OF fd0_def, folded fd1_def] by (metis (no_types))
qed

lemma same_end_refl: "fd_wf fd \<Longrightarrow> same_end fd fd"
  by (simp add: same_end_def touches_refl)

lemma same_end_trans: "same_end x y \<Longrightarrow> same_end y z \<Longrightarrow> same_end x z"
  using touches_trans by (auto simp: same_end_def)

lemma same_end_registered: "same_end x y \<Longrightarrow> registered x 0 \<Longrightarrow> registered y 0"
  using touches_registered by (auto simp: same_end_def)

lemma same_end_fields:
  assumes "same_end x fd"
  shows "same_end x (fd\<lparr>ticks := t\<rparr>)" "same_end x (fd\<lparr>last_marker_ts := m\<rparr>)" "same_end x (fd\<lparr>events := e\<rparr>)"
    "same_end x (set_events b fd)" "same_end x (clear_events b fd)"
  using assms touches_fields [of 0 x fd] by (simp_all add: same_end_def set_events_def clear_events_def)

lemma same_end_upd_peer:
  assumes "same_end x fd" "registered x 0" "p_addr (f (peer_of fd 0)) = p_addr (peer_of fd 0)"
    "confirm_ns (i_queue_ctl (f (peer_of fd 0))) = confirm_ns (ctl fd 0)" "last_ns (i_queue_ctl (f (peer_of fd 0))) = last_ns (ctl fd 0)"
    "next_nr (i_queue_ctl (f (peer_of fd 0))) = next_nr (ctl fd 0)" "next_ns (i_queue_ctl (f (peer_of fd 0))) < 8"
  shows "same_end x (upd_peer 0 f fd)"
proof -
  have r: "registered fd 0" using same_end_registered assms(1,2) by blast
  have "next_nr (i_queue_ctl (f (peer_of fd 0))) < 8" using assms(6) control_less [OF r] by simp
  note u = touches_upd_peer [where f = f, OF r assms(3,4,5,7) this]
  show ?thesis using u touches_trans [OF _ u(1)] assms by (simp add: same_end_def)
qed

lemma same_end_put:
  assumes "same_end x fd" "registered x 0" "type \<in> {TINY_FD_QUEUE_S_FRAME, TINY_FD_QUEUE_U_FRAME}" "2 \<le> length data" "length data \<le> 4"
  shows "same_end x (snd (put_u_s_frame_to_tx_queue fd type data))"
proof -
  have r: "registered fd 0" using same_end_registered assms(1,2) by blast
  then have "s_queue_wf (s_queue fd)" using registeredD(1) by (simp add: fd_wf_def)
  note p = put_ops [OF this assms(3-5)]
  show ?thesis using assms(1) p touches_trans [OF _ touches_put(1) [OF r assms(3,4)]] by (simp add: same_end_def)
qed

lemma same_end_resend:
  assumes "same_end x fd" "registered x 0" "nr < 8"
  shows "same_end x (resend_all_unconfirmed_frames fd 0 control nr)"
proof -
  have r: "registered fd 0" using same_end_registered assms(1,2) by blast
  note rs = resend_all_refines [OF registeredD(1,2) [OF r] assms(3), where control = control]
  have "touches 0 x (resend_all_unconfirmed_frames fd 0 control nr)"
    using touches_steps(5) [OF assms(2) _ assms(3)] assms(1) by (simp add: same_end_def)
  then show ?thesis using assms(1) rs(3,4) resend_ops(3) [OF r assms(3), of control] by (simp add: same_end_def)
qed

lemma same_end_log: "same_end x fd \<Longrightarrow> same_end x (tiny_fd_log_frame d data fd)"
proof -
  assume s: "same_end x fd"
  obtain cs where cs: "tiny_fd_log_frame d data fd = fd\<lparr>calls := calls fd @ cs\<rparr>"
    "\<And>c. c \<in> set cs \<Longrightarrow> \<exists>t s n r. c = Log_frame d t s n r data" using log_frame_eq by blast
  have "reads cs = []" using calls_log [of cs d data] cs(2) by blast
  moreover have "touches 0 x (tiny_fd_log_frame d data fd)"
    using s touches_trans [OF _ touches_log] by (auto simp: same_end_def touches_def)
  moreover have "tx_window (fd\<lparr>calls := calls fd @ cs\<rparr>) 0 = tx_window fd 0" by (simp add: tx_window_def peer_to_address_field_def)
  ultimately show ?thesis using s by (simp add: same_end_def cs(1))
qed

text \<open>As long as the connection stays up, a timeout repeats or reports.\<close>

lemma idle_keeps:
  assumes "station_rep a r0 fd E"
  defines "fd' \<equiv> check_idle_timeout fd 0"
  assumes "p_state (peer_of fd' 0) = TINY_FD_STATE_CONNECTED"
  shows "station_rep a r0 fd' E \<or> station_rep a r0 fd' (E\<lparr>queued := queued E @ [length (got E)]\<rparr>)"
proof -
  note rep = assms(1) [unfolded station_rep_def]
  have up: "station_up a fd" using rep by simp
  note reg = station_up_registered [OF up]
  have eq: "fd' = tiny_fd_connected_check_idle_timeout fd 0" using up by (simp add: fd'_def check_idle_timeout_def station_up_def)
  have c8: "confirm_ns (ctl fd 0) < 8" using rep by simp
  have refl: "same_end fd fd" using same_end_refl registeredD(1) [OF reg] by blast
  note ends = same_end_fields same_end_upd_peer [OF _ reg] same_end_put [OF _ reg] same_end_resend [OF _ reg] refl
  have n8: "next_ns (ctl fd 0) < 8" using control_less [OF reg] by simp
  have "same_end fd fd' \<and> (service_rep a (s_queue fd') (queued E) \<or> service_rep a (s_queue fd') (queued E @ [length (got E)]))"
  proof (rule connected_idle_cases [OF reg, folded eq])
    fix t assume "fd' = fd\<lparr>ticks := t\<rparr>"
    then show ?thesis using rep by (simp add: ends)
  next
    fix fd0 assume d: "fd0 = upd_peer 0 (\<lambda>x. x\<lparr>p_retries := p_retries x - 1\<rparr>) (fd\<lparr>ticks := ticks fd + 1\<rparr>)"
      and g: "fd' = resend_all_unconfirmed_frames fd0 0 0 (confirm_ns (ctl fd 0))"
    have s0: "same_end fd fd0" unfolding d by (intro ends) (simp_all add: n8)
    have "registered fd0 0" using same_end_registered [OF s0 reg] .
    note rs = resend_all_refines(5) [OF registeredD(1,2) [OF this] c8, where control = 0, folded g]
    have "confirm_ns (ctl fd0 0) = confirm_ns (ctl fd 0)" using s0 by (simp add: same_end_def)
    then have "s_queue fd' = s_queue fd0" using rs by (simp add: go_back_target_def)
    moreover have "s_queue fd0 = s_queue fd" by (simp add: d)
    ultimately show ?thesis using s0 rep by (simp add: ends c8 g)
  next
    fix t assume d: "fd' = switch_to_disconnected_state (fd\<lparr>ticks := t\<rparr>) 0"
    have "registered (fd\<lparr>ticks := t\<rparr>) 0" using same_end_registered [OF _ reg] ends(1) [OF refl] by blast
    then have "p_state (peer_of fd' 0) = TINY_FD_STATE_DISCONNECTED" using switch_ops(2) by (simp add: d)
    then show ?thesis using assms(3) by simp
  next
    fix fd0 t s assume d: "fd0 = upd_peer 0 (\<lambda>x. x\<lparr>ka_confirmed := False\<rparr>) (fd\<lparr>ticks := ticks fd + 1 + 1 + 1\<rparr>)"
      and g: "fd' = upd_peer 0 (\<lambda>x. x\<lparr>last_sent_frame_ts := s\<rparr>) ((snd (put_u_s_frame_to_tx_queue fd0 TINY_FD_QUEUE_S_FRAME
        [peer_to_address_field fd 0, 0x11 OR push_bit 5 (next_nr (ctl fd 0))]))\<lparr>ticks := t\<rparr>)"
    have s0: "same_end fd fd0" unfolding d by (intro ends) (simp_all add: n8)
    define fd1 where "fd1 = snd (put_u_s_frame_to_tx_queue fd0 TINY_FD_QUEUE_S_FRAME
        [peer_to_address_field fd 0, 0x11 OR push_bit 5 (next_nr (ctl fd 0))])"
    have s1: "same_end fd fd1" unfolding fd1_def by (intro ends s0) simp_all
    have "registered fd1 0" using same_end_registered [OF s1 reg] .
    then have "same_end fd fd'" unfolding g fd1_def [symmetric] using control_less [of fd1 0]
      by (intro ends s1) simp_all
    moreover have "s_queue_wf (s_queue fd0)" using same_end_registered [OF s0 reg] registeredD(1) by (simp add: fd_wf_def)
    then have "service_rep a (s_queue fd1) (queued E) \<or> service_rep a (s_queue fd1) (queued E @ [length (got E)])"
      using put_report [of fd0 a "queued E" a "0x11" "s_queue fd" "length (got E)"] rep up
      by (auto simp: fd1_def station_up_def d)
    moreover have "s_queue fd' = s_queue fd1" by (simp add: g fd1_def)
    ultimately show ?thesis by simp
  qed
  then show ?thesis
    using station_rep_same [OF assms(1) _ assms(3), of "queued E"] station_rep_same [OF assms(1) _ assms(3), of "queued E @ [length (got E)]"] by auto
qed

subsection \<open>Sending\<close>

text \<open>
  One round of \<open>tiny_fd_get_tx_data\<close>: the next frame is chosen, the low level sends it and calls
  \<open>on_frame_send\<close>. The frames that go out, none or one, and the new state.
\<close>

definition send_frame :: "tiny_fd_data \<Rightarrow> u8 list list \<times> tiny_fd_data" where
  "send_frame fd =
     (case tx_choose fd 0 of
        (Put_frame r, fd) \<Rightarrow> ([frame_bytes (frame_at fd r)], on_frame_send fd (f_header (frame_at fd r)) (frame_bytes (frame_at fd r)))
      | (_, fd) \<Rightarrow> ([], fd))"

text \<open>What an end does then.\<close>

definition sends_packet :: "u8 list endpoint \<Rightarrow> u8 list packet list \<Rightarrow> u8 list endpoint \<Rightarrow> bool" where
  "sends_packet E ms E' \<longleftrightarrow> ms = [] \<and> E' = E
     \<or> (\<exists>r rs. queued E = r # rs \<and> ms = [S_packet r] \<and> E' = E\<lparr>queued := rs\<rparr>)
     \<or> (\<exists>i. queued E = [] \<and> confirmed E \<le> i \<and> i < length (accepted E)
          \<and> ms = [I_packet i (accepted E ! i) (length (got E))] \<and> E' = E)"

lemma service_slot_facts:
  assumes "service_slot a n f"
  shows "f_type f \<in> {TINY_FD_QUEUE_S_FRAME, TINY_FD_QUEUE_U_FRAME} \<and> same_address a (f_address f)"
    and "f_control f AND HDLC_S_FRAME_MASK = HDLC_S_FRAME_BITS" "busy f"
proof -
  have "b AND 0xFC = (b AND NOT HDLC_CR_BIT) AND 0xFC" for b :: u8
    unfolding HDLC_CR_BIT_def by (simp add: and.assoc)
  moreover have "f_address f AND NOT HDLC_CR_BIT = a AND NOT HDLC_CR_BIT"
    using assms by (simp add: service_slot_def service_packet_def s_frame_def frame_bytes_def)
  ultimately show "f_type f \<in> {TINY_FD_QUEUE_S_FRAME, TINY_FD_QUEUE_U_FRAME} \<and> same_address a (f_address f)"
    using assms unfolding same_address_def service_slot_def by (metis insertCI)
  show "f_control f AND HDLC_S_FRAME_MASK = HDLC_S_FRAME_BITS"
    using assms by (simp add: service_slot_def service_packet_def s_frame_def frame_bytes_def)
  show "busy f" using assms by (simp add: service_slot_def busy_def queue_type_defs)
qed

lemma service_rep_members: "service_rep a q ns \<Longrightarrow> f \<in> set (waiting q) \<Longrightarrow> \<exists>n. service_slot a n f"
  unfolding service_rep_def by (metis in_set_conv_nth list_all2_conv_all_nth)

text \<open>The choice between a service frame and an I-frame, in ABM mode.\<close>

lemma choose_service:
  assumes "station_rep a r0 fd E" "waiting (s_queue fd) = f # fs" "choose_frame fd 0 = (r, fd')"
  shows "same_end fd fd'" "s_queue fd' = s_queue fd" "r = Some (S_slot (q_lookup_index (s_queue fd)))"
    "q_frames (s_queue fd) ! q_lookup_index (s_queue fd) = f" "p_state (peer_of fd' 0) = p_state (peer_of fd 0)"
    "tiny_fd_get_next_s_u_frame_to_send fd 0 a = (Some (q_lookup_index (s_queue fd)), fd')"
proof -
  note rep = assms(1) [unfolded station_rep_def]
  have up: "station_up a fd" and sr: "service_rep a (s_queue fd) (queued E)" using rep by simp_all
  note reg = station_up_registered [OF up]
  have "\<forall>g \<in> set (waiting (s_queue fd)). f_type g \<in> {TINY_FD_QUEUE_S_FRAME, TINY_FD_QUEUE_U_FRAME} \<and> same_address a (f_address g)"
    using service_rep_members [OF sr] service_slot_facts(1) by blast
  then have nx: "next_s_u (s_queue fd) a = Some (q_lookup_index (s_queue fd))" "q_frames (s_queue fd) ! q_lookup_index (s_queue fd) = f"
    using next_first(1) [of "s_queue fd" a f fs] sr assms(2) by (simp_all add: service_rep_def)
  obtain s fd1 where s: "tiny_fd_get_next_s_u_frame_to_send fd 0 a = (s, fd1)" by fastforce
  note su = next_s_u_facts [OF reg s]
  have "peer_to_address_field fd 0 = a" using up by (simp add: station_up_def)
  then have "choose_frame fd 0 = (Some (S_slot (q_lookup_index (s_queue fd))), fd1)"
    using s su(9) nx(1) by (simp add: choose_frame_def)
  then show "same_end fd fd'" "s_queue fd' = s_queue fd" "r = Some (S_slot (q_lookup_index (s_queue fd)))"
    "q_frames (s_queue fd) ! q_lookup_index (s_queue fd) = f" "p_state (peer_of fd' 0) = p_state (peer_of fd 0)"
    "tiny_fd_get_next_s_u_frame_to_send fd 0 a = (Some (q_lookup_index (s_queue fd)), fd')"
    using s su nx(1,2) assms(3) by (simp_all add: same_end_def)
qed

lemma choose_none:
  assumes "station_rep a r0 fd E" "waiting (s_queue fd) = []"
  shows "choose_frame fd 0 = (case tiny_fd_get_next_i_frame fd 0 a of (k, fd) \<Rightarrow> (map_option I_slot k, fd))"
proof -
  note rep = assms(1) [unfolded station_rep_def]
  have up: "station_up a fd" and sr: "service_rep a (s_queue fd) (queued E)" using rep by simp_all
  note reg = station_up_registered [OF up]
  have "\<forall>g \<in> set (waiting (s_queue fd)). f_type g \<in> {TINY_FD_QUEUE_S_FRAME, TINY_FD_QUEUE_U_FRAME} \<and> same_address a (f_address g)"
    using service_rep_members [OF sr] service_slot_facts(1) by blast
  then have nx: "next_s_u (s_queue fd) a = None" using next_first(2) [of "s_queue fd" a] sr assms(2) by (simp add: service_rep_def)
  obtain s fd1 where s: "tiny_fd_get_next_s_u_frame_to_send fd 0 a = (s, fd1)" by fastforce
  note su = next_s_u_facts(9,10) [OF reg s]
  have fd1: "s = None" "fd1 = fd" using su nx by simp_all
  obtain k fd2 where k: "tiny_fd_get_next_i_frame fd 0 a = (k, fd2)" by fastforce
  have m: "fd_mode fd2 \<noteq> TINY_FD_MODE_NRM"
    using config_fields(5) [OF touches_next_i_frame(1) [OF reg, of a]] k up by (simp add: station_up_def TINY_FD_MODE_ABM_def TINY_FD_MODE_NRM_def)
  have "peer_to_address_field fd 0 = a" using up by (simp add: station_up_def)
  then show ?thesis using s fd1 k m by (simp add: choose_frame_def split: option.split)
qed

lemma i_frame_bytes_packet: "packet_frame a (I_packet i p r) (i_frame_bytes a (seq_of r) (seq_of i) p)"
proof -
  have "push_bit 1 (seq_of i) < (32 :: u8)" using u8_less_8 [OF seq_of_less [of i]] by auto
  from nr_bits [OF this seq_of_less, of r] show ?thesis
    using i_frame_control [OF seq_of_less [of i], of "seq_of r"]
    by (simp add: i_frame_def i_frame_bytes_def) (simp add: seq_of_def)
qed

lemma choose_i:
  assumes "station_rep a r0 fd E" "tiny_fd_get_next_i_frame fd 0 a = (k, fd')"
  shows "same_end fd fd'" "s_queue fd' = s_queue fd" "p_state (peer_of fd' 0) = p_state (peer_of fd 0)"
    and "k = Some l \<Longrightarrow> l < q_size (i_queue fd') \<and> (\<exists>i. confirmed E \<le> i \<and> i < length (accepted E)
      \<and> frame_bytes (frame_at fd' (I_slot l)) = i_frame_bytes a (seq_of (length (got E))) (seq_of i) (accepted E ! i))"
proof -
  note rep = assms(1) [unfolded station_rep_def]
  have up: "station_up a fd" using rep by simp
  note reg = station_up_registered [OF up]
  have a: "peer_to_address_field fd 0 = a" and may: "may_send_i fd 0" using up by (simp_all add: station_up_def may_send_i_def)
  have base: "same_end fd fd" using same_end_refl registeredD(1) [OF reg] by blast
  have c8: "confirm_ns (ctl fd 0) < 8" "next_ns (ctl fd 0) < 8" using rep control_less [OF reg] by simp_all
  define sent where "sent fd1 l \<longleftrightarrow> same_end fd fd1 \<and> s_queue fd1 = s_queue fd \<and> p_state (peer_of fd1 0) = p_state (peer_of fd 0)
      \<and> l < q_size (i_queue fd1) \<and> (\<exists>i. confirmed E \<le> i \<and> i < length (accepted E)
      \<and> frame_bytes (frame_at fd1 (I_slot l)) = i_frame_bytes a (seq_of (length (got E))) (seq_of i) (accepted E ! i))" for fd1 l
  have out: "sent (i_frame_out 0 l g fd) l"
    if n: "n < 8" "i_next (i_queue fd) a n = Some l" "g = ns_moved \<or> g = srej_cleared j" for n l g j
  proof -
    note o = i_frame_sent [OF reg n(1) n(2) [folded a] refl n(3), unfolded a]
    define d where "d = seq_dist (confirm_ns (ctl fd 0)) n"
    have iq: "iq_wf (i_queue fd)" using registeredD(1) [OF reg] by (simp add: fd_wf_def)
    have "n = seq_of (confirmed E + d)" using seq_add_dist [OF c8(1) n(1)] rep seq_add_seq_of by (simp add: d_def)
    moreover have "d < length (accepted E) - confirmed E" using o(1) rep by (simp add: d_def)
    moreover have "confirm_ns (ctl (i_frame_out 0 l g fd) 0) = confirm_ns (ctl fd 0)" "next_nr (ctl (i_frame_out 0 l g fd) 0) = next_nr (ctl fd 0)"
      "p_state (peer_of (i_frame_out 0 l g fd) 0) = p_state (peer_of fd 0)"
      using n(3) by (auto simp: o(5) ns_moved_def srej_cleared_def i_queue_control_move_to_next_ns_def)
    moreover have "l < q_size (i_queue fd)" using i_next_lookup(2) [OF iq n(2)] by simp
    ultimately show ?thesis using o(2-4,6) rep
      by (auto simp: sent_def same_end_def d_def i_frame_out_def intro!: exI [of _ "confirmed E + d"])
  qed
  have srej: "same_end fd (upd_peer 0 (srej_cleared j) fd)" "p_state (peer_of (upd_peer 0 (srej_cleared j) fd) 0) = p_state (peer_of fd 0)" for j
    using same_end_upd_peer [OF base reg, of "srej_cleared j"] c8 registeredD(4) [OF reg] by (simp_all add: srej_cleared_def peer_of_upd_peer)
  have "(k = None \<and> same_end fd fd' \<and> s_queue fd' = s_queue fd \<and> p_state (peer_of fd' 0) = p_state (peer_of fd 0)) \<or> (\<exists>l. k = Some l \<and> sent fd' l)"
  proof (cases "srej_req_mask (peer_of fd 0) = 0")
    case True
    then show ?thesis
      using get_next_i_frame_eq [OF registeredD(4) [OF reg], of a] assms(2) may base out [OF c8(2)]
      by (cases "i_next (i_queue fd) a (next_ns (ctl fd 0))") auto
  next
    case False
    show ?thesis
    proof (cases "find (\<lambda>i. srej_req_mask (peer_of fd 0) AND push_bit i 1 \<noteq> 0) [0..<8]")
      case None
      then show ?thesis using get_next_i_frame_eq [OF registeredD(4) [OF reg], of a] assms(2) may base False by auto
    next
      case (Some j)
      then have "j < 8" by (auto simp: find_Some_iff)
      then have j8: "(of_nat j :: u8) < 8" by (simp add: word_less_nat_alt unat_of_nat take_bit_nat_eq_self)
      show ?thesis
        using get_next_i_frame_eq [OF registeredD(4) [OF reg], of a] assms(2) may False Some srej out [OF j8 _ disjI2 [OF HOL.refl [of "srej_cleared j"]]]
        by (cases "i_next (i_queue fd) a (of_nat j)") auto
    qed
  qed
  then show "same_end fd fd'" "s_queue fd' = s_queue fd" "p_state (peer_of fd' 0) = p_state (peer_of fd 0)"
    "k = Some l \<Longrightarrow> l < q_size (i_queue fd') \<and> (\<exists>i. confirmed E \<le> i \<and> i < length (accepted E)
      \<and> frame_bytes (frame_at fd' (I_slot l)) = i_frame_bytes a (seq_of (length (got E))) (seq_of i) (accepted E ! i))"
    unfolding sent_def by auto
qed

lemma tx_choose_cases:
  assumes "tx_choose fd p = (action, fd')"
  obtains (idle) e t where "\<And>r. action \<noteq> Put_frame r" "fd' = fd\<lparr>events := e, ticks := t\<rparr>"
  | (no_frame) e where "\<And>r. action \<noteq> Put_frame r" "choose_frame (fd\<lparr>events := e\<rparr>) p = (None, fd')"
  | (put) e e' r fd2 where "action = Put_frame r" "choose_frame (fd\<lparr>events := e\<rparr>) p = (Some r, fd2)"
      "fd' = (sent_frame fd2 p r)\<lparr>events := e'\<rparr>"
proof -
  have w: "snd (wait_events b c x) = x\<lparr>events := snd (tiny_events_wait (events x) b c)\<rparr>" for b c x
    by (simp add: wait_events_def split: prod.split)
  have same: "fd = fd\<lparr>events := events fd, ticks := ticks fd\<rparr>" "fd\<lparr>events := e\<rparr> = fd\<lparr>events := e, ticks := ticks fd\<rparr>" for e by simp_all
  obtain m fd1 where 1: "wait_events FD_EVENT_HAS_MARKER False fd = (m, fd1)" by fastforce
  obtain v fd2 where 2: "wait_events FD_EVENT_TX_DATA_AVAILABLE True fd1 = (v, fd2)" by fastforce
  obtain r fd3 where 3: "choose_frame fd2 p = (r, fd3)" by fastforce
  have fd1: "fd1 = fd\<lparr>events := events fd1, ticks := ticks fd\<rparr>" using w [of FD_EVENT_HAS_MARKER False fd] 1 by simp
  have fd2: "fd2 = fd\<lparr>events := events fd2\<rparr>" using w [of FD_EVENT_TX_DATA_AVAILABLE True fd1] 2 fd1 by (cases fd; cases fd1; cases fd2) simp
  have fd2': "fd2 = fd\<lparr>events := events fd2, ticks := ticks fd\<rparr>" using fd2 by (cases fd; cases fd2) simp
  have nf: "tiny_fd_get_next_frame_to_send fd2 p = (case r of None \<Rightarrow> (None, fd3) | Some f \<Rightarrow> (Some f, sent_frame fd3 p f))"
    using 3 by (simp add: get_next_frame_eq split: option.split)
  have ev: "set_events b x = x\<lparr>events := tiny_events_set (events x) b\<rparr>" for b x by (simp add: set_events_def)
  show thesis
  proof (cases "m \<noteq> 0")
    case marker: True
    show ?thesis
    proof (cases "v \<noteq> 0 \<or> fd_mode fd2 = TINY_FD_MODE_NRM")
      case True
      show ?thesis
      proof (cases r)
        case None
        then have "fd' = fd3" "\<And>r. action \<noteq> Put_frame r" using assms 1 2 marker True nf by (auto simp: tx_choose_def split: if_splits)
        then show ?thesis using no_frame [where e = "events fd2"] 3 None fd2 by simp
      next
        case (Some f)
        then have "action = Put_frame f" "fd' = set_events FD_EVENT_TX_SENDING (set_events FD_EVENT_TX_DATA_AVAILABLE (sent_frame fd3 p f))"
          using assms 1 2 marker True nf by (auto simp: tx_choose_def split: if_splits)
        then show ?thesis using put [where r = f and e = "events fd2" and ?fd2.0 = fd3 and e' = "events fd'"] 3 Some fd2 by (simp add: ev)
      qed
    next
      case False
      then have "fd' = fd2" "\<And>r. action \<noteq> Put_frame r" using assms 1 2 marker by (auto simp: tx_choose_def split: if_splits)
      then show ?thesis using idle [where e = "events fd2" and t = "ticks fd"] fd2' by simp
    qed
  next
    case False
    then have act: "action \<noteq> Put_frame r" for r
      using assms 1 by (auto simp: tx_choose_def time_passed_since_last_marker_seen_def tiny_millis_def split: if_splits)
    have "fd' = fd1 \<or> fd' = fd1\<lparr>ticks := ticks fd1 + 1\<rparr> \<or> fd' = set_events FD_EVENT_HAS_MARKER (fd1\<lparr>ticks := ticks fd1 + 1\<rparr>)"
      using assms 1 False by (auto simp: tx_choose_def time_passed_since_last_marker_seen_def tiny_millis_def split: if_splits)
    then have "fd' = fd\<lparr>events := events fd', ticks := ticks fd'\<rparr>"
      using fd1 unfolding ev by (cases fd; cases fd1) auto
    then show ?thesis using idle [where e = "events fd'" and t = "ticks fd'"] act by blast
  qed
qed

lemma log_keeps_queues: "i_queue (tiny_fd_log_frame d data fd) = i_queue fd" "s_queue (tiny_fd_log_frame d data fd) = s_queue fd"
  "peer_of (tiny_fd_log_frame d data fd) q = peer_of fd q"
proof -
  obtain cs where "tiny_fd_log_frame d data fd = fd\<lparr>calls := calls fd @ cs\<rparr>" using log_frame_eq by blast
  then show "i_queue (tiny_fd_log_frame d data fd) = i_queue fd" "s_queue (tiny_fd_log_frame d data fd) = s_queue fd"
    "peer_of (tiny_fd_log_frame d data fd) q = peer_of fd q" by simp_all
qed

text \<open>A frame that is not a U-frame goes out as it is.\<close>

lemma sent_frame_end:
  assumes "registered fd 0" "fd_mode fd = TINY_FD_MODE_ABM" "f_control (frame_at fd r) AND HDLC_U_FRAME_MASK \<noteq> HDLC_U_FRAME_BITS"
  shows "same_end fd (sent_frame fd 0 r)" "i_queue (sent_frame fd 0 r) = i_queue fd" "s_queue (sent_frame fd 0 r) = s_queue fd"
    "p_state (peer_of (sent_frame fd 0 r) 0) = p_state (peer_of fd 0)"
proof -
  have m: "mark_poll fd 0 r = fd"
    using assms(2,3) by (simp add: mark_poll_def Let_def TINY_FD_MODE_ABM_def TINY_FD_MODE_NRM_def)
  have "next_ns (ctl fd 0) < 8" using control_less [OF assms(1)] by simp
  then show "same_end fd (sent_frame fd 0 r)" unfolding sent_frame_def Let_def m
    by (intro same_end_log same_end_fields same_end_upd_peer [OF _ assms(1)] same_end_refl registeredD(1) [OF assms(1)]) simp_all
  show "i_queue (sent_frame fd 0 r) = i_queue fd" "s_queue (sent_frame fd 0 r) = s_queue fd"
    "p_state (peer_of (sent_frame fd 0 r) 0) = p_state (peer_of fd 0)"
    using registeredD(4) [OF assms(1)]
    by (simp_all add: sent_frame_def Let_def m log_keeps_queues peer_of_upd_peer)
qed

text \<open>When it has gone out, a service frame leaves its slot; an I-frame waits for its confirmation.\<close>

lemma on_frame_send_abm:
  assumes "fd_mode fd = TINY_FD_MODE_ABM" "address_field_to_peer fd (data ! 0) = 0"
  shows "data ! 1 AND HDLC_S_FRAME_MASK = HDLC_S_FRAME_BITS \<Longrightarrow>
      on_frame_send fd header data = clear_events FD_EVENT_TX_SENDING (fd\<lparr>s_queue := tiny_fd_queue_free_by_header (s_queue fd) header\<rparr>)"
    and "even (data ! 1) \<Longrightarrow> on_frame_send fd header data = clear_events FD_EVENT_TX_SENDING fd"
proof -
  have m: "fd_mode fd \<noteq> TINY_FD_MODE_NRM" "(0 :: u8) \<noteq> HDLC_INVALID_PEER_INDEX"
    using assms(1) by (simp_all add: TINY_FD_MODE_ABM_def TINY_FD_MODE_NRM_def HDLC_INVALID_PEER_INDEX_def)
  have "b AND HDLC_I_FRAME_MASK \<noteq> HDLC_I_FRAME_BITS" if "b AND HDLC_S_FRAME_MASK = HDLC_S_FRAME_BITS" for b
  proof -
    have "bit (b AND HDLC_S_FRAME_MASK) 0" using that by (simp add: HDLC_S_FRAME_BITS_def)
    then have "bit (b AND HDLC_I_FRAME_MASK) 0" by (simp add: bit_and_iff HDLC_I_FRAME_MASK_def)
    then show ?thesis by (metis HDLC_I_FRAME_BITS_def bit_0_eq bot_apply bot_bool_def)
  qed
  then show "data ! 1 AND HDLC_S_FRAME_MASK = HDLC_S_FRAME_BITS \<Longrightarrow>
      on_frame_send fd header data = clear_events FD_EVENT_TX_SENDING (fd\<lparr>s_queue := tiny_fd_queue_free_by_header (s_queue fd) header\<rparr>)"
    using assms(2) m by (simp add: on_frame_send_def Let_def)
  show "even (data ! 1) \<Longrightarrow> on_frame_send fd header data = clear_events FD_EVENT_TX_SENDING fd"
    using assms(2) m i_frame_bits(2) [of "data ! 1"] by (simp add: on_frame_send_def Let_def)
qed

text \<open>The state without the first service frame.\<close>

lemma same_end_s_queue:
  assumes "same_end x fd" "s_queue_wf q"
  shows "same_end x (fd\<lparr>s_queue := q\<rparr>)"
proof -
  have "fd_wf (fd\<lparr>s_queue := q\<rparr>)" using fd_wf_s_queue assms by (simp add: same_end_def touches_def)
  moreover have "tx_window (fd\<lparr>s_queue := q\<rparr>) p = tx_window fd p" for p by (simp add: tx_window_def peer_to_address_field_def)
  ultimately show ?thesis using assms(1) by (simp add: same_end_def touches_def same_config_def)
qed

lemma even_not_u: "even c \<Longrightarrow> (c :: u8) AND HDLC_U_FRAME_MASK \<noteq> HDLC_U_FRAME_BITS"
  using i_frame_bits(1) [of c] by (simp add: HDLC_U_FRAME_MASK_def HDLC_U_FRAME_BITS_def)

lemma s_not_u: "c AND HDLC_S_FRAME_MASK = HDLC_S_FRAME_BITS \<Longrightarrow> c AND HDLC_U_FRAME_MASK \<noteq> HDLC_U_FRAME_BITS"
  by (simp add: HDLC_S_FRAME_MASK_def HDLC_S_FRAME_BITS_def HDLC_U_FRAME_MASK_def HDLC_U_FRAME_BITS_def)

lemma station_rep_fields:
  assumes "station_rep a r0 fd E"
  shows "station_rep a r0 (fd\<lparr>events := e, ticks := t\<rparr>) E"
proof -
  have "fd_wf fd" using assms by (simp add: station_rep_def station_up_def)
  then have "same_end fd (fd\<lparr>events := e, ticks := t\<rparr>)" by (intro same_end_fields same_end_refl)
  from station_rep_same [OF assms this, of "queued E"] assms show ?thesis by (simp add: station_rep_def station_up_def)
qed

lemma service_first:
  assumes "service_rep a q ns" "waiting q = f # fs"
  obtains r rs where "ns = r # rs" "packet_frame a (S_packet r) (frame_bytes f)" "service_rep a (tiny_fd_queue_free_by_header q (f_header f)) rs"
proof -
  obtain r rs where ns: "ns = r # rs" "service_slot a r f" "list_all2 (service_slot a) rs fs"
    using assms by (auto simp: service_rep_def list_all2_Cons2)
  then show ?thesis
    using that assms free_first [of q f fs] by (auto simp: service_rep_def service_slot_def)
qed

lemma send_service:
  fixes e :: u8
  assumes "station_rep a r0 fd E" "waiting (s_queue fd) = f # fs" "choose_frame fd 0 = (Some r, fd2)"
  defines "fd3 \<equiv> (sent_frame fd2 0 r)\<lparr>events := e\<rparr>"
  defines "fd' \<equiv> on_frame_send fd3 (f_header (frame_at fd3 r)) (frame_bytes (frame_at fd3 r))"
  shows "\<exists>n ns. queued E = n # ns \<and> packet_frame a (S_packet n) (frame_bytes (frame_at fd3 r)) \<and> station_rep a r0 fd' (E\<lparr>queued := ns\<rparr>)"
proof -
  note rep = assms(1) [unfolded station_rep_def]
  have up: "station_up a fd" and sr: "service_rep a (s_queue fd) (queued E)" using rep by simp_all
  note reg = station_up_registered [OF up]
  note ch = choose_service [OF assms(1-3)]
  have r: "r = S_slot (q_lookup_index (s_queue fd))" using ch(3) by simp
  obtain n where slot: "service_slot a n f" using service_rep_members [OF sr, of f] assms(2) by auto
  note sf = service_slot_facts [OF slot]
  have f2: "frame_at fd2 r = f" using ch(2,4) by (simp add: r)
  have m2: "fd_mode fd2 = TINY_FD_MODE_ABM" using ch(1) up config_fields(5) [of 0 fd fd2] by (simp add: same_end_def station_up_def)
  have r2: "registered fd2 0" using same_end_registered [OF ch(1) reg] .
  have "f_control (frame_at fd2 r) AND HDLC_U_FRAME_MASK \<noteq> HDLC_U_FRAME_BITS" using s_not_u [OF sf(2)] by (simp add: f2)
  note se = sent_frame_end [OF r2 m2 this]
  have s3: "same_end fd fd3" unfolding fd3_def by (intro same_end_fields same_end_trans [OF ch(1) se(1)])
  have q3: "s_queue fd3 = s_queue fd" using se(3) ch(2) by (simp add: fd3_def)
  have f3: "frame_at fd3 r = f" using ch(4) q3 by (simp add: r)
  have up3: "station_up a fd3" using station_up_touches(1) [OF up, of fd3] s3 se(4) ch(5) up by (simp add: same_end_def station_up_def fd3_def)
  obtain k ks where k: "queued E = k # ks" "packet_frame a (S_packet k) (frame_bytes f)"
    "service_rep a (tiny_fd_queue_free_by_header (s_queue fd) (f_header f)) ks" using service_first [OF sr assms(2)] by blast
  have b: "frame_bytes f ! 1 AND HDLC_S_FRAME_MASK = HDLC_S_FRAME_BITS" "address_field_to_peer fd3 (frame_bytes f ! 0) = 0"
  proof -
    show "frame_bytes f ! 1 AND HDLC_S_FRAME_MASK = HDLC_S_FRAME_BITS" using sf(2) by (simp add: frame_bytes_def)
    have "frame_bytes f ! 0 AND NOT HDLC_CR_BIT = a AND NOT HDLC_CR_BIT" using k(2) by (simp add: service_packet_def s_frame_def)
    then show "address_field_to_peer fd3 (frame_bytes f ! 0) = 0"
      using address_field_to_peer_cr up3 by (metis station_up_def)
  qed
  have fd': "fd' = clear_events FD_EVENT_TX_SENDING (fd3\<lparr>s_queue := tiny_fd_queue_free_by_header (s_queue fd) (f_header f)\<rparr>)"
    using on_frame_send_abm(1) [OF _ b(2,1)] up3 by (simp add: fd'_def f3 q3 station_up_def)
  have "s_queue_wf (tiny_fd_queue_free_by_header (s_queue fd) (f_header f))"
    using s_queue_wf_free_by_header registeredD(1) [OF reg] by (simp add: fd_wf_def)
  then have "same_end fd fd'" unfolding fd' by (intro same_end_fields same_end_s_queue s3)
  moreover have "p_state (peer_of fd' 0) = TINY_FD_STATE_CONNECTED" using up3 by (simp add: fd' station_up_def)
  ultimately have "station_rep a r0 fd' (E\<lparr>queued := ks\<rparr>)" using station_rep_same [OF assms(1)] k(3) by (simp add: fd')
  then show ?thesis using k(1,2) by (auto simp: f3)
qed

lemma send_information:
  fixes e :: u8
  assumes "station_rep a r0 fd E" "waiting (s_queue fd) = []" "choose_frame fd 0 = (Some r, fd2)"
  defines "fd3 \<equiv> (sent_frame fd2 0 r)\<lparr>events := e\<rparr>"
  defines "fd' \<equiv> on_frame_send fd3 (f_header (frame_at fd3 r)) (frame_bytes (frame_at fd3 r))"
  shows "queued E = [] \<and> (\<exists>i. confirmed E \<le> i \<and> i < length (accepted E)
      \<and> packet_frame a (I_packet i (accepted E ! i) (length (got E))) (frame_bytes (frame_at fd3 r))) \<and> station_rep a r0 fd' E"
proof -
  note rep = assms(1) [unfolded station_rep_def]
  have up: "station_up a fd" and sr: "service_rep a (s_queue fd) (queued E)" using rep by simp_all
  note reg = station_up_registered [OF up]
  obtain l where l: "tiny_fd_get_next_i_frame fd 0 a = (Some l, fd2)" and r: "r = I_slot l"
    using choose_none [OF assms(1,2)] assms(3) by (auto split: prod.splits simp: eq_commute [of "Some r"])
  note ch = choose_i [OF assms(1) l]
  obtain i where i: "confirmed E \<le> i" "i < length (accepted E)"
    "frame_bytes (frame_at fd2 r) = i_frame_bytes a (seq_of (length (got E))) (seq_of i) (accepted E ! i)"
    using ch(4) by (auto simp: r)
  note pk = i_frame_bytes_packet [of a i "accepted E ! i" "length (got E)", folded i(3)]
  have ev: "even (f_control (frame_at fd2 r))" using pk by (simp add: i_frame_def frame_bytes_def)
  have m2: "fd_mode fd2 = TINY_FD_MODE_ABM" using ch(1) up config_fields(5) [of 0 fd fd2] by (simp add: same_end_def station_up_def)
  have r2: "registered fd2 0" using same_end_registered [OF ch(1) reg] .
  note se = sent_frame_end [OF r2 m2 even_not_u [OF ev]]
  have s3: "same_end fd fd3" unfolding fd3_def by (intro same_end_fields same_end_trans [OF ch(1) se(1)])
  have f3: "frame_at fd3 r = frame_at fd2 r" using se(2) by (simp add: r fd3_def)
  have up3: "station_up a fd3" using station_up_touches(1) [OF up, of fd3] s3 se(4) ch(3) up by (simp add: same_end_def station_up_def fd3_def)
  have "address_field_to_peer fd3 (frame_bytes (frame_at fd2 r) ! 0) = 0" using up3 i(3) by (simp add: station_up_def i_frame_bytes_def)
  then have fd': "fd' = clear_events FD_EVENT_TX_SENDING fd3"
    using on_frame_send_abm(2) [of fd3 "frame_bytes (frame_at fd2 r)"] up3 ev by (simp add: fd'_def f3 station_up_def frame_bytes_def)
  have "same_end fd fd'" unfolding fd' by (intro same_end_fields s3)
  moreover have "p_state (peer_of fd' 0) = TINY_FD_STATE_CONNECTED" using up3 by (simp add: fd' station_up_def)
  moreover have "s_queue fd' = s_queue fd" using se(3) ch(2) by (simp add: fd' fd3_def)
  ultimately have "station_rep a r0 fd' E" using station_rep_same [OF assms(1), of fd' "queued E"] sr by simp
  moreover have "queued E = []" using sr assms(2) by (simp add: service_rep_def)
  ultimately show ?thesis using i(1,2) pk by (auto simp: f3)
qed

lemma send_keeps:
  assumes "station_rep a r0 fd E" "send_frame fd = (fs, fd')"
  shows "\<exists>ms E'. sends_packet E ms E' \<and> list_all2 (packet_frame a) ms fs \<and> station_rep a r0 fd' E'"
proof -
  obtain action fd1 where c: "tx_choose fd 0 = (action, fd1)" by fastforce
  have none: ?thesis if "\<And>r. action \<noteq> Put_frame r" "station_rep a r0 fd1 E"
  proof -
    have "fs = []" "fd' = fd1" using assms(2) c that(1) by (auto simp: send_frame_def split: tx_action.splits)
    then show ?thesis using that(2) by (intro exI [of _ "[]"] exI [of _ E]) (simp add: sends_packet_def)
  qed
  show ?thesis
  proof (rule tx_choose_cases [OF c])
    fix e t assume "\<And>r. action \<noteq> Put_frame r" "fd1 = fd\<lparr>events := e, ticks := t\<rparr>"
    then show ?thesis using none station_rep_fields [OF assms(1)] by simp
  next
    fix e assume n: "\<And>r. action \<noteq> Put_frame r" "choose_frame (fd\<lparr>events := e\<rparr>) 0 = (None, fd1)"
    have rep: "station_rep a r0 (fd\<lparr>events := e\<rparr>) E" using station_rep_fields [OF assms(1), where e = e and t = "ticks fd"] by simp
    show ?thesis
    proof (cases "waiting (s_queue (fd\<lparr>events := e\<rparr>))")
      case (Cons f fs)
      then show ?thesis using choose_service(3) [OF rep Cons n(2)] by simp
    next
      case Nil
      then have "tiny_fd_get_next_i_frame (fd\<lparr>events := e\<rparr>) 0 a = (None, fd1)"
        using choose_none [OF rep Nil] n(2) by (auto split: prod.splits)
      note ch = choose_i [OF rep this]
      have "station_rep a r0 fd1 E"
        using station_rep_same [OF rep ch(1), of "queued E"] ch(2,3) rep by (simp add: station_rep_def station_up_def)
      then show ?thesis using none n(1) by blast
    qed
  next
    fix e e' r fd2 assume p: "action = Put_frame r" "choose_frame (fd\<lparr>events := e\<rparr>) 0 = (Some r, fd2)" "fd1 = (sent_frame fd2 0 r)\<lparr>events := e'\<rparr>"
    have rep: "station_rep a r0 (fd\<lparr>events := e\<rparr>) E" using station_rep_fields [OF assms(1), where e = e and t = "ticks fd"] by simp
    have fs: "fs = [frame_bytes (frame_at fd1 r)]" "fd' = on_frame_send fd1 (f_header (frame_at fd1 r)) (frame_bytes (frame_at fd1 r))"
      using assms(2) c p(1) by (auto simp: send_frame_def)
    show ?thesis
    proof (cases "waiting (s_queue (fd\<lparr>events := e\<rparr>))")
      case (Cons f gs)
      from send_service [OF rep Cons p(2), of e', folded p(3)] obtain n ns where
        "queued E = n # ns" "packet_frame a (S_packet n) (frame_bytes (frame_at fd1 r))" "station_rep a r0 fd' (E\<lparr>queued := ns\<rparr>)"
        by (auto simp: fs)
      then show ?thesis
        by (intro exI [of _ "[S_packet n]"] exI [of _ "E\<lparr>queued := ns\<rparr>"]) (simp add: sends_packet_def fs)
    next
      case Nil
      from send_information [OF rep Nil p(2), of e', folded p(3)] obtain i where "queued E = []" "confirmed E \<le> i" "i < length (accepted E)"
        "packet_frame a (I_packet i (accepted E ! i) (length (got E))) (frame_bytes (frame_at fd1 r))" "station_rep a r0 fd' E"
        by (auto simp: fs)
      then show ?thesis
        by (intro exI [of _ "[I_packet i (accepted E ! i) (length (got E))]"] exI [of _ E]) (simp add: sends_packet_def fs)
    qed
  qed
qed

subsection \<open>Packets of the application\<close>

text \<open>Flags and times that the calls of the application change.\<close>

definition quiet :: "tiny_fd_data \<Rightarrow> tiny_fd_data \<Rightarrow> bool" where
  "quiet fd fd' \<longleftrightarrow> same_end fd fd' \<and> s_queue fd' = s_queue fd \<and> p_state (peer_of fd' 0) = p_state (peer_of fd 0)"

lemma station_rep_quiet: "station_rep a r0 fd E \<Longrightarrow> quiet fd fd' \<Longrightarrow> station_rep a r0 fd' E"
  using station_rep_same [of a r0 fd E fd' "queued E"] by (simp add: quiet_def station_rep_def station_up_def)

lemma quiet_trans: "quiet x y \<Longrightarrow> quiet y z \<Longrightarrow> quiet x z"
  using same_end_trans by (auto simp: quiet_def)

lemma quiet_simps: "fd_wf fd \<Longrightarrow> quiet fd fd" "fd_wf fd \<Longrightarrow> quiet fd (fd\<lparr>ticks := t\<rparr>)" "fd_wf fd \<Longrightarrow> quiet fd (fd\<lparr>events := e\<rparr>)"
  "fd_wf fd \<Longrightarrow> quiet fd (set_events b fd)"
  by (auto simp: quiet_def intro!: same_end_fields same_end_refl)

lemma quiet_peer_events:
  assumes "registered fd 0"
  shows "quiet fd (upd_peer 0 (\<lambda>x. x\<lparr>p_events := f (p_events x)\<rparr>) fd)"
proof -
  have "next_ns (ctl fd 0) < 8" using control_less [OF assms] by simp
  then have "same_end fd (upd_peer 0 (\<lambda>x. x\<lparr>p_events := f (p_events x)\<rparr>) fd)"
    by (intro same_end_upd_peer [OF _ assms] same_end_refl registeredD(1) [OF assms]) simp_all
  then show ?thesis using registeredD(4) [OF assms] by (simp add: quiet_def peer_of_upd_peer)
qed

lemma quiet_waits:
  assumes "registered fd 0"
  shows "wait_peer_events (\<lambda>fd. fd) t 0 b c fd = (r, fd') \<Longrightarrow> quiet fd fd'" "wait_fd_events (\<lambda>fd. fd) t b c fd = (r, fd') \<Longrightarrow> quiet fd fd'"
  using quiet_peer_events [OF assms] registeredD(1) [OF assms]
  by (auto simp: wait_peer_events_def wait_fd_events_def wait_events_def quiet_simps split: prod.splits)

lemma station_rep_put:
  assumes "station_rep a r0 fd E" "put_i_frame_to_tx_queue fd 0 data = (r, fd')"
  shows "\<not> r \<Longrightarrow> fd' = fd"
    and "r \<Longrightarrow> length (accepted E) < confirmed E + window_size \<and> station_rep a r0 fd' (E\<lparr>accepted := accepted E @ [data]\<rparr>)"
proof -
  note rep = assms(1) [unfolded station_rep_def]
  have up: "station_up a fd" using rep by simp
  note reg = station_up_registered [OF up]
  note p = put_i_frame_refines [OF registeredD(1-3) [OF reg] assms(2)]
  show "fd' = fd" if "\<not> r" using p(5) that by simp
  assume q: r
  define iq e c where "iq = i_queue fd'" and "e = tiny_events_set (events fd) FD_EVENT_TX_DATA_AVAILABLE"
    and "c = (ctl fd 0)\<lparr>last_ns := seq_next (last_ns (ctl fd 0))\<rparr>"
  have fd': "fd' = fd\<lparr>i_queue := iq, events := e, peers := (peers fd)[unat 0 := (peer_of fd 0)\<lparr>i_queue_ctl := c\<rparr>]\<rparr>"
    using p(4) [OF q] by (simp add: iq_def e_def c_def)
  have cfg: "same_config fd fd'" by (subst fd') (use registeredD(4) [OF reg] in \<open>simp add: same_config_def peer_of_def nth_list_update\<close>)
  have f: "s_queue fd' = s_queue fd" "calls fd' = calls fd" "p_state (peer_of fd' 0) = p_state (peer_of fd 0)"
    by (subst fd'; use registeredD(4) [OF reg] in \<open>simp add: peer_of_def\<close>)+
  have "station_up a fd'"
    using up p(1) cfg f(3) address_field_to_peer_config [OF registeredD(1) [OF reg] cfg, of a]
    by (simp add: station_up_def same_config_def peer_to_address_field_def)
  moreover have "app_address fd' 0 = app_address fd 0" using same_config_derived [OF cfg] by simp
  ultimately show "length (accepted E) < confirmed E + window_size \<and> station_rep a r0 fd' (E\<lparr>accepted := accepted E @ [data]\<rparr>)"
    using rep p(2) [OF q] f by (auto simp: station_rep_def)
qed

lemma send_packet_keeps:
  assumes "station_rep a r0 fd E" "tiny_fd_send_packet_to (\<lambda>fd. fd) (\<lambda>fd. fd) fd address data timeout = (r, fd')"
  shows "if r = TINY_SUCCESS then length (accepted E) < confirmed E + window_size \<and> station_rep a r0 fd' (E\<lparr>accepted := accepted E @ [data]\<rparr>)
    else station_rep a r0 fd' E"
proof -
  have up: "station_up a fd" using assms(1) by (simp add: station_rep_def)
  note reg = station_up_registered [OF up]
  show ?thesis
  proof (cases "target_peer fd address = 0")
    case False
    then have "target_peer fd address = HDLC_INVALID_PEER_INDEX"
      using up by (auto simp: target_peer_def Let_def address_field_to_peer_def station_up_def split: if_splits)
    then show ?thesis using assms by (auto simp: tiny_fd_send_packet_to_def)
  next
    case True
    define fd1 where "fd1 = fd\<lparr>ticks := ticks fd + 1\<rparr>"
    obtain acc fd2 where w1: "wait_peer_events (\<lambda>fd. fd) timeout 0 FD_EVENT_CAN_ACCEPT_I_FRAMES True fd1 = (acc, fd2)" by fastforce
    define fd3 where "fd3 = fd2\<lparr>ticks := ticks fd2 + 1\<rparr>"
    define delta where "delta = clock fd2 (ticks fd2) - clock fd (ticks fd)"
    obtain free fd4 where w2: "wait_fd_events (\<lambda>fd. fd) (if timeout > delta then timeout - delta else 0) FD_EVENT_QUEUE_HAS_FREE_SLOTS True fd3 = (free, fd4)"
      by fastforce
    obtain queued fd5 where put: "put_i_frame_to_tx_queue fd4 0 data = (queued, fd5)" by fastforce
    define fd6 where "fd6 = (if queued \<and> tiny_fd_queue_has_free_slots (i_queue fd5) then set_events FD_EVENT_QUEUE_HAS_FREE_SLOTS fd5 else fd5)"
    have eq: "(r, fd') = (if int (length data) > tiny_fd_queue_get_mtu (i_queue fd1) then (TINY_ERR_DATA_TOO_LARGE, fd1)
        else if acc \<noteq> 0 then
          if free \<noteq> 0 then (if queued then TINY_SUCCESS else TINY_ERR_TIMEOUT,
             if \<not> i_queue_control_tx_full (ctl fd6 0) then set_peer_events 0 FD_EVENT_CAN_ACCEPT_I_FRAMES fd6 else fd6)
          else (TINY_ERR_TIMEOUT, set_peer_events 0 FD_EVENT_CAN_ACCEPT_I_FRAMES fd4)
        else (TINY_ERR_TIMEOUT, fd2))"
      unfolding assms(2) [symmetric] tiny_fd_send_packet_to_def True Let_def tiny_millis_def prod.case fd1_def [symmetric] fd3_def [symmetric]
        w1 delta_def [symmetric] w2 put fd6_def
      by (simp add: HDLC_INVALID_PEER_INDEX_def)
    have rep1: "station_rep a r0 fd1 E" using station_rep_quiet [OF assms(1)] quiet_simps(2) [OF registeredD(1) [OF reg]] by (simp add: fd1_def)
    have rep2: "station_rep a r0 fd2 E" using station_rep_quiet [OF rep1 quiet_waits(1) [OF station_rep_registered [OF rep1] w1]] .
    have rep3: "station_rep a r0 fd3 E"
      using station_rep_quiet [OF rep2] quiet_simps(2) [OF registeredD(1) [OF station_rep_registered [OF rep2]]] by (simp add: fd3_def)
    have rep4: "station_rep a r0 fd4 E" using station_rep_quiet [OF rep3 quiet_waits(2) [OF station_rep_registered [OF rep3] w2]] .
    have ev: "station_rep a r0 (set_peer_events 0 b x) F" if "station_rep a r0 x F" for b x F
      using station_rep_quiet [OF that quiet_peer_events [OF station_rep_registered [OF that], of "\<lambda>e. tiny_events_set e b"]] by (simp add: set_peer_events_def)
    have "station_rep a r0 fd6 F" if "station_rep a r0 fd5 F" for F
      using station_rep_quiet [OF that] quiet_simps(4) [OF registeredD(1) [OF station_rep_registered [OF that]]] that by (simp add: fd6_def)
    then show ?thesis
      using eq rep1 rep2 rep4 ev station_rep_put [OF rep4 put] by (auto split: if_splits)
  qed
qed

end
