(* ===== verification/FdSession.thy ===== *)
theory FdSession
  imports FdEndpoint
begin

unbundle bit_operations_syntax

section \<open>Two connected stations implement the sliding window protocol\<close>

text \<open>
  Two stations in ABM mode and the line between them. Both take packets, look at their timeouts, send and receive
  frames, in any order; the line keeps the order of the frames and may lose any of them. Every run is one of the abstract protocol,
  with the counts of it modulo 8 in the sequence numbers, so what one application gets is what the other has sent.
\<close>

subsection \<open>The session\<close>

text \<open>
  One side: the station, the packets its application has handed over so far, and the frames on the line to
  the other side. The application gives a packet with or without success; a call of \<open>tiny_fd_send_packet_to\<close> that has to wait
  is not interrupted by the other steps. \<open>FdWire\<close> puts the bytes on the line in place of the frames.
\<close>

record fd_side =
  station :: tiny_fd_data
  taken :: "u8 list list"
  wire :: "u8 list list"

inductive session_step :: "fd_side \<times> fd_side \<Rightarrow> fd_side \<times> fd_side \<Rightarrow> bool" where
  packet: "tiny_fd_send_packet_to (\<lambda>fd. fd) (\<lambda>fd. fd) (station x) address data timeout = (r, fd) \<Longrightarrow>
    session_step (x, y) (x\<lparr>station := fd, taken := taken x @ (if r = TINY_SUCCESS then [data] else [])\<rparr>, y)"
| timeouts: "session_step (x, y) (x\<lparr>station := check_idle_timeout (station x) 0\<rparr>, y)"
| transmit: "send_frame (station x) = (fs, fd) \<Longrightarrow> session_step (x, y) (x\<lparr>station := fd, wire := wire x @ fs\<rparr>, y)"
| receive_frame: "wire y = f # fs \<Longrightarrow> session_step (x, y) (x\<lparr>station := on_frame_read (station x) f\<rparr>, y\<lparr>wire := fs\<rparr>)"
| lose_frame: "wire x = us @ f # vs \<Longrightarrow> session_step (x, y) (x\<lparr>wire := us @ vs\<rparr>, y)"
| other_side: "session_step (y, x) (y', x') \<Longrightarrow> session_step (x, y) (x', y')"

definition both_connected :: "fd_side \<times> fd_side \<Rightarrow> bool" where
  "both_connected s \<longleftrightarrow> p_state (peer_of (station (fst s)) 0) = TINY_FD_STATE_CONNECTED
     \<and> p_state (peer_of (station (snd s)) 0) = TINY_FD_STATE_CONNECTED"

text \<open>A session lasts until one of the stations gives up the connection.\<close>

inductive session :: "fd_side \<times> fd_side \<Rightarrow> fd_side \<times> fd_side \<Rightarrow> bool" for s0 where
  session_start: "session s0 s0"
| session_more: "session s0 s \<Longrightarrow> session_step s s' \<Longrightarrow> both_connected s' \<Longrightarrow> session s0 s'"

text \<open>A station whose connection has just come up: nothing is queued, all numbers are 0.\<close>

definition fresh_side :: "u8 \<Rightarrow> fd_side \<Rightarrow> bool" where
  "fresh_side a x \<longleftrightarrow> station_up a (station x) \<and> tx_window (station x) 0 = []
     \<and> confirm_ns (ctl (station x) 0) = 0 \<and> next_nr (ctl (station x) 0) = 0
     \<and> ring_ok (s_queue (station x)) \<and> waiting (s_queue (station x)) = [] \<and> taken x = [] \<and> wire x = []"

subsection \<open>The simulation\<close>

definition side_rep :: "u8 \<Rightarrow> (u8 \<times> u8 list) list \<Rightarrow> fd_side \<Rightarrow> u8 list endpoint \<Rightarrow> bool" where
  "side_rep a r0 x E \<longleftrightarrow> station_rep a r0 (station x) E \<and> taken x = accepted E \<and> list_all2 (packet_frame a) (line E) (wire x)"

definition session_rep :: "u8 \<Rightarrow> (u8 \<times> u8 list) list \<times> (u8 \<times> u8 list) list \<Rightarrow> fd_side \<times> fd_side \<Rightarrow> u8 list endpoint \<times> u8 list endpoint \<Rightarrow> bool" where
  "session_rep a r0 s e \<longleftrightarrow> side_rep a (fst r0) (fst s) (fst e) \<and> side_rep a (snd r0) (snd s) (snd e)"

lemma station_rep_line [simp]: "station_rep a r0 fd (E\<lparr>line := ms\<rparr>) = station_rep a r0 fd E"
  by (simp add: station_rep_def)

text \<open>Steps of one end.\<close>

lemma sw_reports: "sw_step\<^sup>*\<^sup>* (E, F) (E\<lparr>queued := queued E @ [length (got E)]\<rparr>, F)"
  by (rule r_into_rtranclp) (rule sw_step.report)

lemma sw_sends:
  assumes "sends_packet E ms E'"
  shows "sw_step\<^sup>*\<^sup>* (E, F) (E'\<lparr>line := line E @ ms\<rparr>, F)"
proof -
  have same: "E\<lparr>line := line E\<rparr> = E" by simp
  show ?thesis
    using assms sw_step.send_s [of E _ _ F] sw_step.send_i [of E _ F] by (auto simp: sends_packet_def same)
qed

lemma sw_other: "sw_step\<^sup>*\<^sup>* (F, E) (F', E') \<Longrightarrow> sw_step\<^sup>*\<^sup>* (E, F) (E', F')"
proof (induction "(F', E')" arbitrary: F' E' rule: rtranclp_induct)
  case (step s)
  obtain F1 E1 where s: "s = (F1, E1)" by fastforce
  have "sw_step (E1, F1) (E', F')" using step(2) by (simp add: s sw_step.other)
  then show ?case using step(3) [OF s] by simp
qed simp

text \<open>A packet that arrives.\<close>

lemma receive_simulates:
  assumes "station_rep a r0 fd E" "packet_frame a m data" "line F = m # ms" "sw_inv (E, F)"
  shows "\<exists>E'. sw_step\<^sup>*\<^sup>* (E, F) (E', F\<lparr>line := ms\<rparr>) \<and> station_rep a r0 (on_frame_read fd data) E' \<and> accepted E' = accepted E \<and> line E' = line E"
proof -
  have fl: "flows E F" "flows F E" using assms(4) by (simp_all add: sw_inv_def)
  have b: "confirmed E \<le> received m" "received m \<le> length (accepted E)"
    using flows_bounds(2,3) [OF fl(1)] assms(3) by fastforce+
  define E1 where "E1 = take_packet m E"
  have st: "sw_step\<^sup>*\<^sup>* (E, F) (E1, F\<lparr>line := ms\<rparr>)" unfolding E1_def by (rule r_into_rtranclp) (rule sw_step.receive [OF assms(3)])
  have E1: "accepted E1 = accepted E" "line E1 = line E" "queued E1 = queued E" by (cases m; simp add: E1_def)+
  have "station_rep a r0 (on_frame_read fd data) E1 \<or> station_rep a r0 (on_frame_read fd data) (E1\<lparr>queued := queued E1 @ [length (got E1)]\<rparr>)"
  proof (cases m)
    case (I_packet i p r)
    have "i < length (got E) + 8" "length (got E) < i + 8"
      using fl flows_bounds [OF fl(2)] assms(3) I_packet by (auto simp: flows_def)
    then show ?thesis
      using receive_i_packet [OF assms(1), where i = i and p = p and data = data and r = r] assms(2) b E1(3) by (simp add: I_packet E1_def)
  next
    case (S_packet r)
    then show ?thesis using receive_s_packet [OF assms(1), where data = data and r = r] assms(2) b E1(3) by (simp add: E1_def)
  qed
  then show ?thesis
  proof
    assume "station_rep a r0 (on_frame_read fd data) E1"
    then show ?thesis using st E1 by blast
  next
    assume "station_rep a r0 (on_frame_read fd data) (E1\<lparr>queued := queued E1 @ [length (got E1)]\<rparr>)"
    moreover have "sw_step\<^sup>*\<^sup>* (E, F) (E1\<lparr>queued := queued E1 @ [length (got E1)]\<rparr>, F\<lparr>line := ms\<rparr>)"
      using rtranclp_trans [OF st sw_reports] .
    ultimately show ?thesis using E1 by (intro exI [of _ "E1\<lparr>queued := queued E1 @ [length (got E1)]\<rparr>"]) simp
  qed
qed

lemma session_step_simulates:
  assumes "session_step s s'" "both_connected s'" "session_rep a r0 s e" "sw_inv e"
  shows "\<exists>e'. sw_step\<^sup>*\<^sup>* e e' \<and> session_rep a r0 s' e'"
  using assms
proof (induction arbitrary: e r0 rule: session_step.induct)
  case (packet x address data timeout r fd y)
  obtain E F where e: "e = (E, F)" by fastforce
  have rep: "side_rep a (fst r0) x E" "side_rep a (snd r0) y F" using packet.prems(2) by (simp_all add: e session_rep_def)
  have "station_rep a (fst r0) (station x) E" using rep(1) by (simp add: side_rep_def)
  note k = send_packet_keeps [OF this packet.hyps]
  show ?case
  proof (cases "r = TINY_SUCCESS")
    case True
    then have "sw_step e (E\<lparr>accepted := accepted E @ [data]\<rparr>, F)" using k sw_step.accept [of E F data] by (simp add: e)
    moreover have "side_rep a (fst r0) (x\<lparr>station := fd, taken := taken x @ [data]\<rparr>) (E\<lparr>accepted := accepted E @ [data]\<rparr>)"
      using rep(1) k True by (simp add: side_rep_def)
    ultimately show ?thesis using rep(2) True by (intro exI [of _ "(E\<lparr>accepted := accepted E @ [data]\<rparr>, F)"]) (simp add: session_rep_def)
  next
    case False
    then have "side_rep a (fst r0) (x\<lparr>station := fd, taken := taken x @ []\<rparr>) E" using rep(1) k by (simp add: side_rep_def)
    then show ?thesis using rep(2) False by (intro exI [of _ e]) (simp add: session_rep_def e)
  qed
next
  case (timeouts x y)
  obtain E F where e: "e = (E, F)" by fastforce
  have rep: "side_rep a (fst r0) x E" "side_rep a (snd r0) y F" using timeouts.prems(2) by (simp_all add: e session_rep_def)
  have "station_rep a (fst r0) (check_idle_timeout (station x) 0) E
      \<or> station_rep a (fst r0) (check_idle_timeout (station x) 0) (E\<lparr>queued := queued E @ [length (got E)]\<rparr>)"
    using idle_keeps [of a "fst r0" "station x" E] rep(1) timeouts.prems(1) by (simp add: side_rep_def both_connected_def)
  then show ?case
  proof
    assume "station_rep a (fst r0) (check_idle_timeout (station x) 0) E"
    then show ?thesis using rep by (intro exI [of _ e]) (simp add: e session_rep_def side_rep_def)
  next
    assume "station_rep a (fst r0) (check_idle_timeout (station x) 0) (E\<lparr>queued := queued E @ [length (got E)]\<rparr>)"
    then show ?thesis using rep sw_reports [of E F]
      by (intro exI [of _ "(E\<lparr>queued := queued E @ [length (got E)]\<rparr>, F)"]) (simp add: e session_rep_def side_rep_def)
  qed
next
  case (transmit x fs fd y)
  obtain E F where e: "e = (E, F)" by fastforce
  have rep: "side_rep a (fst r0) x E" "side_rep a (snd r0) y F" using transmit.prems(2) by (simp_all add: e session_rep_def)
  have "station_rep a (fst r0) (station x) E" using rep(1) by (simp add: side_rep_def)
  from send_keeps [OF this transmit.hyps] obtain ms E'
    where s: "sends_packet E ms E'" "list_all2 (packet_frame a) ms fs" "station_rep a (fst r0) fd E'" by blast
  have "accepted E' = accepted E" using s(1) by (auto simp: sends_packet_def)
  then have "side_rep a (fst r0) (x\<lparr>station := fd, wire := wire x @ fs\<rparr>) (E'\<lparr>line := line E @ ms\<rparr>)"
    using s rep(1) by (simp add: side_rep_def list_all2_appendI)
  then show ?case using sw_sends [OF s(1), of F] rep(2)
    by (intro exI [of _ "(E'\<lparr>line := line E @ ms\<rparr>, F)"]) (simp add: session_rep_def e)
next
  case (receive_frame y f fs x)
  obtain E F where e: "e = (E, F)" by fastforce
  have rep: "side_rep a (fst r0) x E" "side_rep a (snd r0) y F" using receive_frame.prems(2) by (simp_all add: e session_rep_def)
  obtain m ms where m: "line F = m # ms" "packet_frame a m f" "list_all2 (packet_frame a) ms fs"
    using rep(2) receive_frame.hyps by (auto simp: side_rep_def list_all2_Cons2)
  obtain E' where E': "sw_step\<^sup>*\<^sup>* (E, F) (E', F\<lparr>line := ms\<rparr>)" "station_rep a (fst r0) (on_frame_read (station x) f) E'"
    "accepted E' = accepted E" "line E' = line E"
    using receive_simulates [of a "fst r0" "station x" E, OF _ m(2,1)] rep(1) receive_frame.prems(3) by (auto simp: side_rep_def e)
  then show ?case using rep m(3)
    by (intro exI [of _ "(E', F\<lparr>line := ms\<rparr>)"]) (simp add: session_rep_def side_rep_def e)
next
  case (lose_frame x us f vs y)
  obtain E F where e: "e = (E, F)" by fastforce
  have rep: "side_rep a (fst r0) x E" "side_rep a (snd r0) y F" using lose_frame.prems(2) by (simp_all add: e session_rep_def)
  obtain ms m ns where m: "line E = ms @ m # ns" "list_all2 (packet_frame a) ms us" "list_all2 (packet_frame a) ns vs"
    using rep(1) lose_frame.hyps by (auto simp: side_rep_def list_all2_append2 list_all2_Cons2)
  have "sw_step e (E\<lparr>line := ms @ ns\<rparr>, F)" unfolding e by (rule sw_step.lose [OF m(1)])
  then show ?case using rep m
    by (intro exI [of _ "(E\<lparr>line := ms @ ns\<rparr>, F)"]) (simp add: session_rep_def side_rep_def list_all2_appendI)
next
  case (other_side y x y' x')
  obtain E F where e: "e = (E, F)" by fastforce
  have "both_connected (y', x')" "session_rep a (snd r0, fst r0) (y, x) (F, E)" "sw_inv (F, E)"
    using other_side.prems by (auto simp: both_connected_def session_rep_def sw_inv_def e)
  from other_side.IH [OF this] obtain F' E' where "sw_step\<^sup>*\<^sup>* (F, E) (F', E')" "session_rep a (snd r0, fst r0) (y', x') (F', E')" by auto
  then show ?case using sw_other by (intro exI [of _ "(E', F')"]) (auto simp: e session_rep_def)
qed

subsection \<open>What the application receives\<close>

lemma session_simulates:
  assumes "session s0 s" "session_rep a r0 s0 e0" "sw_inv e0"
  shows "\<exists>e. sw_step\<^sup>*\<^sup>* e0 e \<and> session_rep a r0 s e"
  using assms(1)
proof (induction rule: session.induct)
  case (session_more s s')
  from session_more.IH obtain e where e: "sw_step\<^sup>*\<^sup>* e0 e" "session_rep a r0 s e" by blast
  have "sw_inv e" using e(1) assms(3) by (induction rule: rtranclp_induct) (auto intro: sw_step_inv)
  from session_step_simulates [OF session_more.hyps(2,3) e(2) this] obtain e' where "sw_step\<^sup>*\<^sup>* e e'" "session_rep a r0 s' e'" by blast
  then show ?case using e(1) by (meson rtranclp_trans)
qed (use assms(2) in blast)

definition empty_end :: "u8 list endpoint" where
  "empty_end = \<lparr>accepted = [], confirmed = 0, got = [], queued = [], line = []\<rparr>"

lemma empty_ends: "sw_inv (empty_end, empty_end)"
  by (simp add: sw_inv_def flows_def empty_end_def)

lemma fresh_side_rep: "fresh_side a x \<Longrightarrow> side_rep a (reads (calls (station x))) x empty_end"
  by (simp add: fresh_side_def side_rep_def station_rep_def service_rep_def empty_end_def seq_of_def)

lemma side_rep_delivers:
  assumes "side_rep a r0 x E" "side_rep a r1 y F" "sw_inv (E, F)"
  shows "\<exists>ds. reads (calls (station y)) = r1 @ map (Pair (app_address (station y) 0)) ds \<and> prefix ds (taken x)
      \<and> length (taken x) \<le> length ds + length (tx_window (station x) 0)"
proof -
  have f: "flows E F" using assms(3) by (simp add: sw_inv_def)
  have "prefix (got F) (accepted E)" using f unfolding flows_def by (metis take_is_prefix)
  then show ?thesis
    using assms(1,2) flows_bounds(1) [OF f] by (intro exI [of _ "got F"]) (auto simp: side_rep_def station_rep_def)
qed

theorem fd_session_delivers:
  assumes "fresh_side a x0" "fresh_side a y0" "session (x0, y0) (x, y)"
  shows "\<exists>ds. reads (calls (station y)) = reads (calls (station y0)) @ map (Pair (app_address (station y) 0)) ds
      \<and> prefix ds (taken x) \<and> length (taken x) \<le> length ds + length (tx_window (station x) 0)"
proof -
  have "session_rep a (reads (calls (station x0)), reads (calls (station y0))) (x0, y0) (empty_end, empty_end)"
    using fresh_side_rep assms(1,2) by (simp add: session_rep_def)
  from session_simulates [OF assms(3) this empty_ends] obtain E F where
    e: "sw_step\<^sup>*\<^sup>* (empty_end, empty_end) (E, F)"
      "side_rep a (reads (calls (station x0))) x E" "side_rep a (reads (calls (station y0))) y F"
    by (auto simp: session_rep_def)
  have "sw_inv (E, F)" using e(1) empty_ends by (induction rule: rtranclp_induct) (auto intro: sw_step_inv)
  then show ?thesis using side_rep_delivers [OF e(2,3)] by blast
qed

subsection \<open>A station whose connection has just come up, and its first packet\<close>

definition demo_side :: fd_side where
  "demo_side = \<lparr>station = demo_fd\<lparr>peers := [demo_peer\<lparr>i_queue_ctl := \<lparr>last_ns = 0, confirm_ns = 0, next_ns = 0, next_nr = 0\<rparr>\<rparr>]\<rparr>,
     taken = [], wire = []\<rparr>"

lemma demo_side_fresh: "fresh_side 1 demo_side"
proof -
  define fd where "fd = station demo_side"
  have free: "\<forall>f \<in> set (q_frames (i_queue fd)). f_type f = TINY_FD_QUEUE_FREE"
    by (simp add: fd_def demo_side_def demo_fd_def demo_slot_def)
  have eqs: "i_queue fd = i_queue demo_fd" "s_queue fd = s_queue demo_fd" "table_wf fd = table_wf demo_fd" "peers_count fd = 1"
    "fd_addr fd = 1" "peer_of fd 0 = demo_peer\<lparr>i_queue_ctl := \<lparr>last_ns = 0, confirm_ns = 0, next_ns = 0, next_nr = 0\<rparr>\<rparr>"
    "fd_mode fd = TINY_FD_MODE_ABM" "on_read_cb fd"
    by (simp_all add: fd_def demo_side_def demo_fd_def peer_of_def table_wf_def)
  have iq: "iq_wf (i_queue fd)" "s_queue_wf (s_queue fd)" "table_wf fd" using demo_fd_wf by (simp_all add: fd_wf_def eqs(1-3))
  then have "window_ok fd 0" using i_lookup_all_free [OF iq(1) free] by (simp add: window_ok_def eqs dom_def)
  then have "peer_wf fd 0" by (simp add: peer_wf_def demo_fd_simps control_wf_def HDLC_E_BIT_def eqs)
  moreover have "station_ok fd" by (simp add: station_ok_def eqs demo_peer_def)
  moreover have "addresses_distinct fd" by (simp add: addresses_distinct_def eqs u8_less_1)
  ultimately have "fd_wf fd" using iq by (simp add: fd_wf_def eqs(4) u8_less_1)
  moreover have "waiting (s_queue fd) = []" "ring_ok (s_queue fd)"
    using iq(2) by (simp_all add: eqs(2) ring_ok_def waiting_def ring_def busy_def demo_fd_def demo_slot_def s_queue_wf_def)
  ultimately show ?thesis
    by (simp add: fresh_side_def station_up_def fd_def [symmetric] eqs demo_peer_def tx_window_def peer_to_address_field_def
        address_field_to_peer_def HDLC_E_BIT_def HDLC_CR_BIT_def)
      (simp add: demo_side_def)
qed

definition demo_queued :: tiny_fd_data where
  "demo_queued = snd (tiny_fd_send_packet_to (\<lambda>fd. fd) (\<lambda>fd. fd) (station demo_side) 0 [7, 8] 100)"

lemma demo_queued_ok: "tiny_fd_send_packet_to (\<lambda>fd. fd) (\<lambda>fd. fd) (station demo_side) 0 [7, 8] 100 = (TINY_SUCCESS, demo_queued)"
proof -
  have "fst (tiny_fd_send_packet_to (\<lambda>fd. fd) (\<lambda>fd. fd) (station demo_side) 0 [7, 8] 100) = TINY_SUCCESS" by code_simp
  then show ?thesis by (simp add: demo_queued_def prod_eq_iff)
qed

lemma demo_connected: "p_state (peer_of (station demo_side) 0) = TINY_FD_STATE_CONNECTED"
  "p_state (peer_of demo_queued 0) = TINY_FD_STATE_CONNECTED"
proof -
  show "p_state (peer_of (station demo_side) 0) = TINY_FD_STATE_CONNECTED" by code_simp
  show "p_state (peer_of demo_queued 0) = TINY_FD_STATE_CONNECTED" by code_simp
qed

end
