(* ===== verification/FdSlots.thy ===== *)
theory FdSlots
  imports FdLink FdApi
begin

unbundle bit_operations_syntax

section \<open>The slots stay where they are\<close>

text \<open>
  No operation of the protocol moves the slots of the queues or changes how long they are, and only
  the choice of a frame sets the event that a frame is being sent. What \<open>FdLink\<close> asks for of a station, that its slots lie apart,
  therefore holds as long as the station lives.
\<close>

subsection \<open>Queues\<close>

definition slots_full :: "tiny_fd_queue \<Rightarrow> bool" where
  "slots_full q \<longleftrightarrow> (\<forall>f \<in> set (q_frames q). int (length (f_payload f)) = q_mtu q)"

definition fixed_slots :: "tiny_fd_queue \<Rightarrow> tiny_fd_queue \<Rightarrow> bool" where
  "fixed_slots q q' \<longleftrightarrow> q_mtu q' = q_mtu q \<and> map f_header (q_frames q') = map f_header (q_frames q)
     \<and> (slots_full q \<longrightarrow> slots_full q')"

lemma fixed_slots_refl [simp]: "fixed_slots q q"
  by (simp add: fixed_slots_def)

lemma fixed_slots_trans: "fixed_slots q r \<Longrightarrow> fixed_slots r s \<Longrightarrow> fixed_slots q s"
  by (simp add: fixed_slots_def)

lemma fixed_slots_set:
  assumes "f_header f = f_header (q_frames q ! i)"
    and "int (length (f_payload (q_frames q ! i))) = q_mtu q \<Longrightarrow> int (length (f_payload f)) = q_mtu q"
  shows "fixed_slots q (q\<lparr>q_frames := (q_frames q)[i := f], q_lookup_index := k\<rparr>)" "fixed_slots q (set_slot q i f)"
proof -
  have "map f_header ((q_frames q)[i := f]) = map f_header (q_frames q)"
    using assms(1) by (cases "i < q_size q") (auto simp: map_update nth_list_update intro: nth_equalityI)
  moreover have "slots_full (set_slot q i f)" if "slots_full q"
    using that assms(2) by (cases "i < q_size q") (auto simp: slots_full_def list_update_beyond dest!: subsetD [OF set_update_subset_insert])
  ultimately show "fixed_slots q (q\<lparr>q_frames := (q_frames q)[i := f], q_lookup_index := k\<rparr>)" "fixed_slots q (set_slot q i f)"
    by (simp_all add: fixed_slots_def slots_full_def set_slot_def)
qed

lemma fixed_slots_ops:
  "fixed_slots q (snd (tiny_fd_queue_allocate q type data))" "fixed_slots q (tiny_fd_queue_free_by_header q header)"
  "fixed_slots q (tiny_fd_queue_free q i)" "fixed_slots q (tiny_fd_queue_reset_for q a)"
proof -
  have put: "fixed_slots q (q\<lparr>q_frames := (q_frames q)[i := (put_payload data (q_frames q ! i))\<lparr>f_type := type\<rparr>]\<rparr>)"
    if "int (length data) \<le> q_mtu q" for i
    using that fixed_slots_set(2) [of "(put_payload data (q_frames q ! i))\<lparr>f_type := type\<rparr>" q i]
    by (simp add: put_payload_def set_slot_def)
  then show "fixed_slots q (snd (tiny_fd_queue_allocate q type data))" by (simp add: tiny_fd_queue_allocate_def split: option.split)
  show free: "fixed_slots q (tiny_fd_queue_free_by_header q header)" for header
    by (auto simp: tiny_fd_queue_free_by_header_def intro: fixed_slots_set split: option.split)
  show "fixed_slots q (tiny_fd_queue_free q i)" using free by (simp add: tiny_fd_queue_free_def)
  show "fixed_slots q (tiny_fd_queue_reset_for q a)"
    by (auto simp: fixed_slots_def slots_full_def tiny_fd_queue_reset_for_def comp_def)
qed

subsection \<open>The protocol\<close>

definition sending :: "tiny_fd_data \<Rightarrow> bool" where
  "sending fd \<longleftrightarrow> bit (events fd) 0"

definition in_place :: "tiny_fd_data \<Rightarrow> tiny_fd_data \<Rightarrow> bool" where
  "in_place fd fd' \<longleftrightarrow> fixed_slots (i_queue fd) (i_queue fd') \<and> fixed_slots (s_queue fd) (s_queue fd')
     \<and> peers_count fd' = peers_count fd \<and> (sending fd' \<longrightarrow> sending fd)"

lemma in_place_refl [simp, intro!]: "in_place fd fd"
  by (simp add: in_place_def)

lemma in_place_trans [trans]: "in_place x y \<Longrightarrow> in_place y z \<Longrightarrow> in_place x z"
  unfolding in_place_def by (auto intro: fixed_slots_trans)

lemma in_place_fields [simp]:
  "in_place x (upd_peer p f fd) = in_place x fd" "in_place x (call c fd) = in_place x fd" "in_place x (fd\<lparr>ticks := t\<rparr>) = in_place x fd"
  "in_place x (fd\<lparr>last_marker_ts := m\<rparr>) = in_place x fd" "in_place x (fd\<lparr>next_peer := n\<rparr>) = in_place x fd"
  by (simp_all add: in_place_def sending_def call_def)

lemma sending_ticks [simp]: "sending (fd\<lparr>ticks := t\<rparr>) = sending fd"
  by (simp add: sending_def)

lemma in_place_log [simp]: "in_place x (tiny_fd_log_frame d data fd) = in_place x fd"
  by (simp add: tiny_fd_log_frame_def Let_def)

lemma in_place_events:
  "in_place x fd \<Longrightarrow> \<not> bit b 0 \<Longrightarrow> in_place x (set_events b fd)" "in_place x fd \<Longrightarrow> in_place x (clear_events b fd)"
  "in_place x fd \<Longrightarrow> in_place x (snd (wait_events b c fd))"
  by (auto simp: in_place_def sending_def set_events_def clear_events_def ev.bit_set ev.bit_clear wait_events_def tiny_events_wait_def
      bit_simps split: if_splits prod.splits)

lemma event_bits [simp]: "\<not> bit FD_EVENT_TX_DATA_AVAILABLE 0" "\<not> bit FD_EVENT_QUEUE_HAS_FREE_SLOTS 0" "\<not> bit FD_EVENT_HAS_MARKER 0"
  by (simp_all add: fd_event_defs)

lemma in_place_queues:
  "in_place x fd \<Longrightarrow> fixed_slots (i_queue fd) q \<Longrightarrow> in_place x (fd\<lparr>i_queue := q\<rparr>)"
  "in_place x fd \<Longrightarrow> fixed_slots (s_queue fd) q \<Longrightarrow> in_place x (fd\<lparr>s_queue := q\<rparr>)"
  by (auto simp: in_place_def sending_def intro: fixed_slots_trans)

lemma in_place_put:
  "in_place x fd \<Longrightarrow> in_place x (snd (put_u_s_frame_to_tx_queue fd type data))"
  "in_place x fd \<Longrightarrow> in_place x (snd (put_i_frame_to_tx_queue fd peer data))"
proof -
  have slot: "fixed_slots q (set_slot q' i ((q_frames q' ! i)\<lparr>f_address := a, f_control := c\<rparr>))"
    if "tiny_fd_queue_allocate q type data = (r, q')" for q q' i a c type data r
    using fixed_slots_trans [OF fixed_slots_ops(1) [of q type data] fixed_slots_set(2)] that by simp
  show "in_place x fd \<Longrightarrow> in_place x (snd (put_u_s_frame_to_tx_queue fd type data))"
    using fixed_slots_ops(1) [of "s_queue fd" type "drop 2 data"] slot
    by (auto simp: put_u_s_frame_to_tx_queue_def intro!: in_place_events in_place_queues split: prod.split option.split)
  show "in_place x fd \<Longrightarrow> in_place x (snd (put_i_frame_to_tx_queue fd peer data))"
    using fixed_slots_ops(1) [of "i_queue fd" TINY_FD_QUEUE_I_FRAME data] slot
    by (auto simp: put_i_frame_to_tx_queue_def Let_def intro!: in_place_events in_place_queues split: prod.split option.split)
qed

lemmas place_intros = in_place_events in_place_queues in_place_put fixed_slots_ops

lemma in_place_confirm:
  assumes "in_place x fd"
  shows "in_place x (confirm_sent_frames fd p nr)"
proof -
  have "in_place x (snd (on_frame_confirmed p n fd))" if "in_place x fd" for n fd
    using that by (auto simp: on_frame_confirmed_def Let_def intro!: place_intros split: option.split)
  then have one: "in_place x fd'" if "on_frame_confirmed p n fd = (r, fd')" "in_place x fd" for n fd r fd'
    using that by (metis snd_conv)
  have "in_place x (snd (confirm_loop (on_frame_confirmed p) nr fuel c fd))" if "in_place x fd" for fuel c fd
    using that
  proof (induction fuel arbitrary: c fd)
    case (Suc fuel)
    obtain r fd' where cb: "on_frame_confirmed p (confirm_ns c) fd = (r, fd')" by fastforce
    then show ?case using Suc one [OF cb] by simp
  qed simp
  from this [OF assms, of 8 "ctl fd p"] show ?thesis
    by (auto simp: confirm_sent_frames_def i_queue_control_confirm_sent_frames_def Let_def split: prod.split)
qed

lemma in_place_resend: "in_place x fd \<Longrightarrow> in_place x (resend_all_unconfirmed_frames fd p control nr)"
proof -
  have "in_place x (resend_loop p control nr fuel fd)" if "in_place x fd" for fuel fd
    using that by (induction p control nr fuel fd rule: resend_loop.induct) (auto simp: Let_def intro!: place_intros)
  then show "in_place x fd \<Longrightarrow> in_place x (resend_all_unconfirmed_frames fd p control nr)"
    by (simp add: resend_all_unconfirmed_frames_def place_intros)
qed

lemma in_place_switch:
  "in_place x fd \<Longrightarrow> in_place x (switch_to_connected_state fd p)" "in_place x fd \<Longrightarrow> in_place x (switch_to_disconnected_state fd p)"
  by (auto simp: switch_to_connected_state_def switch_to_disconnected_state_def tiny_millis_def Let_def bit_or_iff intro!: place_intros)

subsection \<open>Received frames\<close>

lemma in_place_check: "in_place x fd \<Longrightarrow> in_place x (snd (check_received_frame fd p ns))"
  by (auto simp: check_received_frame_def Let_def intro!: place_intros)

lemma in_place_handlers:
  assumes "in_place x fd"
  shows "in_place x (snd (on_i_frame_read fd p data))" "in_place x (snd (on_s_frame_read fd p data))"
    and "in_place x (snd (on_u_frame_read fd p data))"
proof -
  obtain r fd1 where c: "check_received_frame fd p (drop_bit 1 (data ! 1) AND 0x07) = (r, fd1)" by fastforce
  then have "in_place x fd1" using in_place_check [OF assms] by (metis snd_conv)
  then show "in_place x (snd (on_i_frame_read fd p data))"
    by (auto simp: on_i_frame_read_def Let_def c [simplified] intro!: place_intros in_place_confirm)
  show "in_place x (snd (on_s_frame_read fd p data))"
    using assms by (simp add: on_s_frame_read_def Let_def place_intros in_place_confirm in_place_resend)
  show "in_place x (snd (on_u_frame_read fd p data))"
    using assms by (simp add: on_u_frame_read_def Let_def place_intros in_place_switch)
qed

lemma in_place_read: "in_place fd (on_frame_read fd data)"
proof -
  have "in_place x (on_frame_read_by_type fd p data)" if "in_place x fd" for x fd p
    using that by (auto simp: on_frame_read_by_type_def Let_def intro!: place_intros in_place_handlers)
  then show ?thesis
    by (auto simp: on_frame_read_def Let_def tiny_millis_def intro!: place_intros)
qed

subsection \<open>Frames that go out\<close>

lemma in_place_send: "in_place fd (on_frame_send fd header data)"
  by (auto simp: on_frame_send_def switch_to_next_peer_def Let_def intro!: place_intros)

lemma in_place_slot:
  "in_place x fd \<Longrightarrow> in_place x (upd_frame r set_poll fd)" "in_place x fd \<Longrightarrow> in_place x (upd_frame r (stamp_nr n) fd)"
  by (cases r; auto simp: set_poll_def stamp_nr_def intro!: place_intros fixed_slots_set(2))+

lemma in_place_choose: "in_place x fd \<Longrightarrow> in_place x (snd (tiny_fd_get_next_frame_to_send fd p))"
proof -
  have su: "in_place x (snd (tiny_fd_get_next_s_u_frame_to_send fd p a))" if "in_place x fd" for fd a
    using that by (auto simp: tiny_fd_get_next_s_u_frame_to_send_def Let_def split: option.split)
  have i: "in_place x (snd (tiny_fd_get_next_i_frame fd p a))" if "in_place x fd" for fd a
    using that by (auto simp: tiny_fd_get_next_i_frame_def Let_def tiny_millis_def stamp_nr_def
      intro!: place_intros fixed_slots_set(2) split: option.split)
  have m: "in_place x (put_marker_frame fd p a)" if "in_place x fd" for fd a
    using that by (auto simp: put_marker_frame_def intro!: place_intros)
  have poll: "in_place x (mark_poll fd p r)" if "in_place x fd" for fd r
    using that by (auto simp: mark_poll_def Let_def intro!: in_place_slot)
  assume fd: "in_place x fd"
  define a where "a = peer_to_address_field fd p"
  obtain s fd1 where 1: "tiny_fd_get_next_s_u_frame_to_send fd p a = (s, fd1)" by fastforce
  obtain k fd2 where 2: "tiny_fd_get_next_i_frame fd1 p a = (k, fd2)" by fastforce
  obtain j fd3 where 3: "tiny_fd_get_next_s_u_frame_to_send (put_marker_frame fd2 p a) p a = (j, fd3)" by fastforce
  have "in_place x fd1" using su [OF fd, of a] 1 by simp
  moreover from this have "in_place x fd2" using i [of fd1 a] 2 by simp
  moreover from this have "in_place x fd3" using su [OF m, of fd2 a a] 3 by simp
  ultimately show ?thesis
    using 1 2 3 poll by (cases s; cases k; cases j)
      (simp_all add: tiny_fd_get_next_frame_to_send_def Let_def tiny_millis_def flip: a_def)
qed

lemma in_place_idle: "in_place fd (check_idle_timeout fd p)"
  by (simp add: check_idle_timeout_def tiny_fd_connected_check_idle_timeout_def tiny_fd_disconnected_check_idle_timeout_def Let_def
      tiny_millis_def time_passed_since_last_frame_received_def time_passed_since_last_frame_sent_def
      place_intros in_place_switch in_place_resend)

text \<open>Choosing a frame is what sets the event.\<close>

lemma sending_wait: "fst (tiny_events_wait (events fd) FD_EVENT_TX_SENDING False) \<noteq> 0 \<longleftrightarrow> sending fd"
  by (auto simp: tiny_events_wait_def sending_def FD_EVENT_TX_SENDING_def and_one_eq bit_0 odd_iff_mod_2_eq_one)

lemma in_place_tx_choose:
  assumes "tx_choose fd p = (action, fd')"
  shows "fixed_slots (i_queue fd) (i_queue fd')" "fixed_slots (s_queue fd) (s_queue fd')" "peers_count fd' = peers_count fd"
    and "action = Put_frame r \<Longrightarrow> sending fd'" "(\<And>r. action \<noteq> Put_frame r) \<Longrightarrow> sending fd' \<Longrightarrow> sending fd"
proof -
  obtain m fd1 where 1: "wait_events FD_EVENT_HAS_MARKER False fd = (m, fd1)" by fastforce
  obtain v fd2 where 2: "wait_events FD_EVENT_TX_DATA_AVAILABLE True fd1 = (v, fd2)" by fastforce
  obtain f fd3 where 3: "tiny_fd_get_next_frame_to_send fd2 p = (f, fd3)" by fastforce
  have p1: "in_place fd fd1" using in_place_events(3) [OF in_place_refl, of fd FD_EVENT_HAS_MARKER False] 1 by simp
  have p2: "in_place fd fd2" using in_place_events(3) [OF p1, of FD_EVENT_TX_DATA_AVAILABLE True] 2 by simp
  have p3: "in_place fd fd3" using in_place_choose [OF p2, of p] 3 by simp
  have st: "sending (set_events FD_EVENT_TX_SENDING fd)" for fd
    by (simp add: sending_def set_events_def ev.bit_set FD_EVENT_TX_SENDING_def)
  have q: "i_queue (set_events b fd) = i_queue fd" "s_queue (set_events b fd) = s_queue fd"
    "peers_count (set_events b fd) = peers_count fd" for b fd by (simp_all add: set_events_def)
  have mk: "in_place fd (set_events FD_EVENT_HAS_MARKER (fd1\<lparr>ticks := t\<rparr>))" for t using p1 by (simp add: in_place_events)
  note k = in_place_def [of fd, THEN iffD1]
  show "fixed_slots (i_queue fd) (i_queue fd')" "fixed_slots (s_queue fd) (s_queue fd')" "peers_count fd' = peers_count fd"
    using assms 1 2 3 k [OF p1] k [OF p2] k [OF p3]
    by (auto simp: tx_choose_def time_passed_since_last_marker_seen_def tiny_millis_def q split: if_splits option.splits)
  show "action = Put_frame r \<Longrightarrow> sending fd'"
    using assms 1 2 3 by (auto simp: tx_choose_def time_passed_since_last_marker_seen_def tiny_millis_def st split: if_splits option.splits)
  show "sending fd" if "\<And>r. action \<noteq> Put_frame r" "sending fd'"
    using assms 1 2 3 k [OF p1] k [OF p2] k [OF p3] k [OF mk] that
    by (auto simp: tx_choose_def time_passed_since_last_marker_seen_def tiny_millis_def split: if_splits option.splits)
qed

subsection \<open>Packets of the application\<close>

lemma in_place_send_packet: "in_place fd (snd (tiny_fd_send_packet_to (\<lambda>fd. fd) (\<lambda>fd. fd) fd address data timeout))"
proof -
  have waits: "in_place x (snd (wait_peer_events (\<lambda>fd. fd) t p b c fd))" "in_place x (snd (wait_fd_events (\<lambda>fd. fd) t b c fd))"
    if "in_place x fd" for x fd t p b c
    using that by (auto simp: wait_peer_events_def wait_fd_events_def Let_def intro: in_place_events split: prod.split)
  define p where "p = target_peer fd address"
  define fd0 where "fd0 = fd\<lparr>ticks := Suc (ticks fd)\<rparr>"
  obtain acc fd1 where 1: "wait_peer_events (\<lambda>fd. fd) timeout p FD_EVENT_CAN_ACCEPT_I_FRAMES True fd0 = (acc, fd1)" by fastforce
  define d where "d = clock fd1 (ticks fd1) - clock fd (ticks fd)"
  define t where "t = (if timeout > d then timeout - d else 0)"
  obtain free fd2 where 2: "wait_fd_events (\<lambda>fd. fd) t FD_EVENT_QUEUE_HAS_FREE_SLOTS True
      (fd1\<lparr>ticks := Suc (ticks fd1)\<rparr>) = (free, fd2)" by fastforce
  obtain ok fd3 where 3: "put_i_frame_to_tx_queue fd2 p data = (ok, fd3)" by fastforce
  have p0: "in_place fd fd0" by (simp add: fd0_def)
  have p1: "in_place fd fd1" using waits(1) [of fd fd0] 1 by (metis fd0_def in_place_fields(3) in_place_refl snd_conv)
  then have p2: "in_place fd fd2" using waits(2) [of fd "fd1\<lparr>ticks := Suc (ticks fd1)\<rparr>"] 2 by (metis in_place_fields(3) snd_conv)
  then have p3: "in_place fd fd3" using in_place_put(2) [of fd fd2 p data] 3 by simp
  show ?thesis
    using p0 p1 p2 p3 1 2 [unfolded t_def] 3
    by (cases "timeout > d") (simp_all add: tiny_fd_send_packet_to_def Let_def tiny_millis_def set_peer_events_def place_intros
        flip: p_def fd0_def d_def)
qed

subsection \<open>The layout of a station\<close>

definition laid_out :: "tiny_fd_data \<Rightarrow> bool" where
  "laid_out fd \<longleftrightarrow> slots_full (i_queue fd) \<and> slots_full (s_queue fd) \<and> slots_apart fd"

lemma laid_out_fixed:
  assumes "laid_out fd" "fixed_slots (i_queue fd) (i_queue fd')" "fixed_slots (s_queue fd) (s_queue fd')"
  shows "laid_out fd'"
proof -
  have place: "map slot_place (q_frames q) = map (\<lambda>h. (h, nat (q_mtu q))) (map f_header (q_frames q))" if "slots_full q" for q
    using that by (auto simp: slots_full_def slot_place_def)
  have same: "map slot_place (q_frames q') = map slot_place (q_frames q)" if "slots_full q" "fixed_slots q q'" for q q'
    using that place [of q] place [of q'] by (simp add: fixed_slots_def)
  have "map slot_place (q_frames (i_queue fd') @ q_frames (s_queue fd')) = map slot_place (q_frames (i_queue fd) @ q_frames (s_queue fd))"
    using assms same [of "i_queue fd" "i_queue fd'"] same [of "s_queue fd" "s_queue fd'"] by (simp add: laid_out_def)
  from slots_apart_cong [OF this] show ?thesis using assms by (simp add: laid_out_def fixed_slots_def)
qed

lemma laid_out_in_place: "laid_out fd \<Longrightarrow> in_place fd fd' \<Longrightarrow> laid_out fd'"
  using laid_out_fixed by (auto simp: in_place_def)

end
