(* ===== verification/HdlcDuplex.thy ===== *)
theory HdlcDuplex
  imports HdlcFraming
begin

section \<open>Both directions of a handle at once\<close>

text \<open>
  A handle of the low level sends and receives. This theory shows that the two directions do not disturb each other, as
  long as the frame that is being sent does not lie in the receive buffer: calls of \<open>hdlc_ll_run_tx\<close> and
  \<open>hdlc_ll_run_rx\<close> may come in any order.
\<close>

subsection \<open>What the transmit side changes\<close>

definition rx_same :: "'u hdlc_ll \<Rightarrow> 'u hdlc_ll \<Rightarrow> bool" where
  "rx_same h h' \<longleftrightarrow> mem h' = mem h \<and> on_frame_read h' = on_frame_read h \<and> rx_buf h' = rx_buf h \<and> rx_buf_size h' = rx_buf_size h
     \<and> crc_type h' = crc_type h \<and> phys_mtu h' = phys_mtu h \<and> rx_state h' = rx_state h \<and> rx_ptr h' = rx_ptr h
     \<and> rx_escape h' = rx_escape h \<and> rx_active h' = rx_active h"

text \<open>What is still to be read of the frame lies in \<open>n\<close> bytes from \<open>p\<close>.\<close>

definition tx_inside :: "nat \<Rightarrow> nat \<Rightarrow> 'u hdlc_ll \<Rightarrow> bool" where
  "tx_inside p n h \<longleftrightarrow> (tx_origin h \<noteq> 0 \<and> (tx_state h = Send_start \<or> tx_state h = Send_data)
     \<longrightarrow> p \<le> tx_data h \<and> tx_data h + tx_len h \<le> p + n)"

lemma rx_same_refl [simp]: "rx_same h h"
  by (simp add: rx_same_def)

lemma rx_same_trans: "rx_same h h' \<Longrightarrow> rx_same h' h'' \<Longrightarrow> rx_same h h''"
  by (simp add: rx_same_def)

lemma rx_same_wf: "rx_same h h' \<Longrightarrow> rx_wf h' = rx_wf h" "rx_same h h' \<Longrightarrow> rx_view h' = rx_view h"
  by (simp_all add: rx_same_def rx_wf_def rx_view_def rx_frame_def)

lemma tx_dispatch_rx_same: "rx_same h (snd (tx_dispatch h))"
  by (cases "tx_state h")
     (auto simp: tx_dispatch_def rx_same_def hdlc_ll_send_start_def hdlc_ll_send_data_def hdlc_ll_send_crc_def hdlc_ll_send_end_def
       send_internal_eq Let_def split: hdlc_crc_t.splits option.splits)

lemma tx_dispatch_inside:
  assumes "tx_inside p n h" "tx_wf h"
  shows "tx_inside p n (snd (tx_dispatch h))"
proof (cases "tx_state h")
  case Send_data
  then show ?thesis using assms scan_plain_le [of 0 "tx_len h" "mem h" "tx_data h"]
    by (auto simp: tx_dispatch_def tx_inside_def tx_wf_def hdlc_ll_send_data_def send_internal_eq Let_def)
qed (use assms in \<open>auto simp: tx_dispatch_def tx_inside_def tx_wf_def hdlc_ll_send_start_def hdlc_ll_send_crc_def hdlc_ll_send_end_def
       send_internal_eq Let_def split: hdlc_crc_t.splits option.splits\<close>)

lemma run_tx_loop_keeps:
  assumes "tx_wf h" "tx_inside p n h"
  shows "rx_same h (run_tx_loop h rep) \<and> tx_inside p n (run_tx_loop h rep)"
  using assms
proof (induction h rep rule: run_tx_loop.induct)
  case (1 h rep)
  obtain r h1 where d: "tx_dispatch h = (r, h1)" by fastforce
  have h1: "rx_same h h1" "tx_inside p n h1"
    using tx_dispatch_rx_same [of h] tx_dispatch_inside [OF 1(4,3)] d by simp_all
  show ?case
  proof (cases "tx_out_len h = 0 \<or> tx_remaining h = []")
    case True
    then consider "tx_out_len h = 0" | "tx_out_len h \<noteq> 0" "r = 0" "h1 = h"
      using d 1(3) by (cases "tx_out_len h = 0") (auto simp: tx_remaining_eq_Nil_iff tx_dispatch_def hdlc_ll_send_start_def)
    then show ?thesis
    proof cases
      case 1
      then show ?thesis using \<open>tx_inside p n h\<close> by (simp add: run_tx_loop.simps [of h])
    next
      case 2
      then show ?thesis using "1.IH"(1) [OF _ d [symmetric]] "1.prems" d by (cases rep) (simp_all add: run_tx_loop.simps [of h])
    qed
  next
    case False
    then have room: "tx_out_len h \<noteq> 0" "tx_remaining h \<noteq> []" by simp_all
    have r: "0 < r" and m: "tx_moves h h1"
      using tx_dispatch_result [OF 1(3) room d] tx_dispatch_moves [OF 1(3) room d] by blast+
    then have "rx_same h1 (run_tx_loop h1 False) \<and> tx_inside p n (run_tx_loop h1 False)"
      using "1.IH"(2) [OF room(1) d [symmetric]] h1(2) by (simp add: tx_moves_def)
    then show ?thesis using rx_same_trans [OF h1(1)] room r d by (simp add: run_tx_loop.simps [of h])
  qed
qed

lemma run_tx_keeps_rx:
  assumes "tx_wf h" "tx_inside p n h" "hdlc_ll_run_tx h k = (r, h')"
  shows "rx_same h h'" "tx_inside p n h'"
proof -
  define h0 where "h0 = h\<lparr>tx_out := [], tx_out_len := k\<rparr>"
  have "tx_wf h0" "tx_inside p n h0" "rx_same h h0"
    using assms(1,2) by (cases "tx_state h"; simp add: h0_def tx_wf_def tx_inside_def rx_same_def)+
  moreover have "h' = run_tx_loop h0 False" using assms(3) by (simp add: hdlc_ll_run_tx_def Let_def h0_def)
  ultimately show "rx_same h h'" "tx_inside p n h'" using run_tx_loop_keeps rx_same_trans by blast+
qed

subsection \<open>What the receive side changes\<close>

text \<open>The \<open>n\<close> bytes from \<open>p\<close> lie outside the receive buffer.\<close>

definition rx_apart :: "nat \<Rightarrow> nat \<Rightarrow> 'u hdlc_ll \<Rightarrow> bool" where
  "rx_apart p n h \<longleftrightarrow> p + n \<le> rx_buf h \<or> int (rx_buf h) + rx_buf_size h \<le> int p"

lemma rx_only_keeps_tx:
  assumes "rx_only h h'" "tx_wf h" "tx_inside p n h" "rx_apart p n h"
  shows "tx_wf h'" "tx_remaining h' = tx_remaining h" "tx_inside p n h'" "rx_apart p n h'" "tx_origin h' = tx_origin h"
proof -
  note f = rx_only_fields [OF assms(1)]
  have m: "mem h' a = mem h a" if "p \<le> a" "a < p + n" for a
    using assms(1,4) that by (auto simp: rx_only_def rx_apart_def)
  have in_frame: "mem h' a = mem h a" if "tx_origin h \<noteq> 0" "tx_state h = Send_start \<or> tx_state h = Send_data" "tx_data h \<le> a" "a < tx_data h + tx_len h" for a
    using assms(3) that m by (auto simp: tx_inside_def)
  then have b: "bytes_at (mem h') (tx_data h) (tx_len h) = bytes_at (mem h) (tx_data h) (tx_len h)"
    if "tx_origin h \<noteq> 0" "tx_state h = Send_start \<or> tx_state h = Send_data"
    using that by (simp add: bytes_at_def)
  show "tx_wf h'"
    using assms(2) in_frame [of "tx_data h"] by (auto simp: tx_wf_def f split: tx_fn.splits)
  show "tx_remaining h' = tx_remaining h"
    using assms(2) b by (auto simp: tx_remaining_def tx_wf_def f split: tx_fn.splits)
  show "tx_inside p n h'" "rx_apart p n h'" "tx_origin h' = tx_origin h"
    using assms(3,4) by (simp_all add: tx_inside_def rx_apart_def f)
qed

subsection \<open>Any order of calls\<close>

text \<open>
  Transmit calls with the size of their buffer, and received bytes, which are fed in until all are processed. The result is
  what was sent.
\<close>

datatype duplex_op = Transmit nat | Receive "u8 list"

fun duplex :: "duplex_op list \<Rightarrow> 'u hdlc_ll \<Rightarrow> u8 list \<times> 'u hdlc_ll" where
  "duplex [] h = ([], h)"
| "duplex (Transmit k # ops) h =
     (case hdlc_ll_run_tx h k of (r, h) \<Rightarrow> let bs = take (nat r) (tx_out h) in case duplex ops h of (out, h) \<Rightarrow> (bs @ out, h))"
| "duplex (Receive data # ops) h = duplex ops (rx_feed h data)"

primrec sent_bytes :: "duplex_op list \<Rightarrow> nat" where
  "sent_bytes [] = 0"
| "sent_bytes (op # ops) = (case op of Transmit k \<Rightarrow> k | Receive _ \<Rightarrow> 0) + sent_bytes ops"

primrec received_bytes :: "duplex_op list \<Rightarrow> u8 list" where
  "received_bytes [] = []"
| "received_bytes (op # ops) = (case op of Transmit _ \<Rightarrow> [] | Receive data \<Rightarrow> data) @ received_bytes ops"

text \<open>
  C12: Sending and receiving on one handle do not disturb each other. For any interleaving of transmit calls, with buffers of
  any sizes, and received bytes, in any chunks: the bytes sent are those of the frame, as if nothing had been received; and
  the receiver is where the reference decoder is after all the received bytes, as if nothing had been sent, and
  the application has got the frames that the reference decoder finds in them, in order. The frame that is sent lies outside the receive buffer, and the
  application does not ask to be told of sent frames.
\<close>

theorem hdlc_ll_full_duplex:
  assumes "tx_wf h" "tx_inside p n h" "rx_apart p n h" "rx_wf h" "rx_state h \<noteq> Read_end" "on_frame_send h = None"
    and "rx_bytes (crc_type h) (nat (phys_mtu h)) (rx_view h) (received_bytes ops) = (v, es)"
    and "duplex ops h = (out, h')"
  shows "out = take (sent_bytes ops) (tx_remaining h) \<and> tx_remaining h' = drop (sent_bytes ops) (tx_remaining h)
    \<and> rx_view h' = v \<and> user_data h' = notify_frames (on_frame_read h) (delivered es) (user_data h)"
  using assms
proof (induction ops arbitrary: h out es)
  case Nil
  then show ?case by simp
next
  case (Cons op ops)
  show ?case
  proof (cases op)
    case (Transmit k)
    obtain r h1 where run: "hdlc_ll_run_tx h k = (r, h1)" by fastforce
    note sp = hdlc_ll_run_tx_spec [OF Cons.prems(1) run] and keep = run_tx_keeps_rx [OF Cons.prems(1,2) run]
    have same: "rx_wf h1" "rx_view h1 = rx_view h" "rx_state h1 \<noteq> Read_end" "rx_apart p n h1" "crc_type h1 = crc_type h"
      "phys_mtu h1 = phys_mtu h" "on_frame_read h1 = on_frame_read h"
      using rx_same_wf [OF keep(1)] Cons.prems(3-5) keep(1) by (simp_all add: rx_same_def rx_apart_def)
    have u: "user_data h1 = user_data h"
      using sp(8,9) Cons.prems(6) by (cases "tx_remaining h1 = []") (auto simp: tx_notify_def)
    obtain out1 where out1: "duplex ops h1 = (out1, h')" "out = take k (tx_remaining h) @ out1"
      using Cons.prems(8) run sp(1,2) Transmit by (auto simp: Let_def min_def split: prod.splits)
    have "on_frame_send h1 = None" "rx_bytes (crc_type h1) (nat (phys_mtu h1)) (rx_view h1) (received_bytes ops) = (v, es)"
      using Cons.prems(6,7) sp(7) same Transmit by simp_all
    from Cons.IH [OF sp(4) keep(2) same(4,1,3) this out1(1)]
    show ?thesis using out1(2) sp(3) same(7) u Transmit by (simp add: take_add add.commute)
  next
    case (Receive data)
    obtain es1 where re: "rx_reads h data es1 (rx_feed h data)" using rx_feed_reads [OF Cons.prems(4,5)] by blast
    then have r: "rx_wf (rx_feed h data)" "rx_state (rx_feed h data) \<noteq> Read_end" "rx_only h (rx_feed h data)"
      "rx_bytes (crc_type h) (nat (phys_mtu h)) (rx_view h) data = (rx_view (rx_feed h data), es1)"
      "user_data (rx_feed h data) = notify_frames (on_frame_read h) (delivered es1) (user_data h)"
      by (simp_all add: rx_reads_def)
    note f = rx_only_fields [OF r(3)] and keep = rx_only_keeps_tx [OF r(3) Cons.prems(1-3)]
    obtain v2 es2 where e2: "rx_bytes (crc_type h) (nat (phys_mtu h)) (rx_view (rx_feed h data)) (received_bytes ops) = (v2, es2)" by fastforce
    have ev: "v2 = v" "es = es1 @ es2" using Cons.prems(7) Receive r(4) e2 by (simp_all add: rx_bytes_append)
    have "on_frame_send (rx_feed h data) = None" "rx_bytes (crc_type (rx_feed h data)) (nat (phys_mtu (rx_feed h data))) (rx_view (rx_feed h data)) (received_bytes ops) = (v, es2)"
      "duplex ops (rx_feed h data) = (out, h')"
      using Cons.prems(6,8) e2 ev(1) f Receive by simp_all
    from Cons.IH [OF keep(1,3,4) r(1,2) this] show ?thesis
      using keep(2) f(1) r(5) ev(2) Receive by simp
  qed
qed

theorem hdlc_ll_full_duplex_witness:
  "\<exists>out h'. duplex [Transmit 2, Receive [0x7E, 0x10, 0x7D], Transmit 3, Receive [0x5D, 0x12, 0x60, 0x7E], Transmit 9]
       (demo_ll\<lparr>on_frame_send := None, tx_origin := 16, tx_data := 16, tx_len := 3\<rparr>) = (out, h')
     \<and> out = hdlc_encode HDLC_CRC_8 [0x10, 0x7D, 0x12] \<and> user_data h' = [[0x10, 0x7D, 0x12]]"
proof -
  let ?h = "demo_ll\<lparr>on_frame_send := None, tx_origin := 16, tx_data := 16, tx_len := 3\<rparr>"
  let ?ops = "[Transmit 2, Receive [0x7E, 0x10, 0x7D], Transmit 3, Receive [0x5D, 0x12, 0x60, 0x7E], Transmit 9]"
  obtain out h' where run: "duplex ?ops ?h = (out, h')" by fastforce
  have tx: "tx_wf ?h" "tx_inside 16 3 ?h" "rx_apart 16 3 ?h" "rx_wf ?h" "rx_state ?h \<noteq> Read_end" "on_frame_send ?h = None"
    by (simp_all add: demo_ll_def tx_wf_def tx_inside_def rx_apart_def rx_wf_def)
  have "rx_bytes HDLC_CRC_8 8 Hunting [0x7E, 0x10, 0x7D, 0x5D, 0x12, 0x60, 0x7E] = (Hunting, [Delivered [0x10, 0x7D, 0x12]])" by code_simp
  moreover have "crc_type ?h = HDLC_CRC_8" "nat (phys_mtu ?h) = 8" "rx_view ?h = Hunting" "received_bytes ?ops = [0x7E, 0x10, 0x7D, 0x5D, 0x12, 0x60, 0x7E]"
    by (simp_all add: demo_ll_def rx_view_def)
  ultimately have rx: "rx_bytes (crc_type ?h) (nat (phys_mtu ?h)) (rx_view ?h) (received_bytes ?ops) = (Hunting, [Delivered [0x10, 0x7D, 0x12]])"
    by simp
  have "bytes_at (mem ?h) 16 3 = [0x10, 0x7D, 0x12]" using demo_frame by simp
  then have rem: "tx_remaining ?h = hdlc_encode HDLC_CRC_8 [0x10, 0x7D, 0x12]" by (simp add: tx_remaining_def demo_ll_def)
  have "length (hdlc_encode HDLC_CRC_8 [0x10, 0x7D, 0x12]) \<le> sent_bytes ?ops" by code_simp
  then have "out = hdlc_encode HDLC_CRC_8 [0x10, 0x7D, 0x12] \<and> user_data h' = [[0x10, 0x7D, 0x12]]"
    using hdlc_ll_full_duplex [OF tx rx run, unfolded rem] demo_rx(6,7) by (simp add: notify_frames_def)
  then show ?thesis using run by blast
qed

end
