(* ===== verification/FdWire.thy ===== *)
theory FdWire
  imports FdSession FdSlots HdlcDuplex
begin

unbundle bit_operations_syntax

section \<open>Two stations and the bytes between them\<close>

text \<open>
  The calls that an application makes, \<open>tiny_fd_send_packet_to\<close>, \<open>tiny_fd_get_tx_data\<close> and \<open>tiny_fd_on_rx_data\<close>, on two handles:
  the protocol of \<open>FdSession\<close> through the framing of the low level.
\<close>

subsection \<open>A handle between two calls\<close>

text \<open>The low level is idle and listens; \<open>m\<close> is the mtu of the protocol.\<close>

definition wire_ready :: "hdlc_crc_t \<Rightarrow> int \<Rightarrow> tiny_fd \<Rightarrow> bool" where
  "wire_ready c m h \<longleftrightarrow> tx_idle h \<and> rx_listening h \<and> crc_type h = c \<and> laid_out (fd_of h) \<and> \<not> sending (fd_of h)
     \<and> peers_count (fd_of h) = 1 \<and> q_mtu (i_queue (fd_of h)) = m \<and> 2 \<le> m \<and> m + 2 + int (fcs_len c) \<le> phys_mtu h"

lemma user_data_ready [simp]:
  "tx_idle (h\<lparr>user_data := fd\<rparr>) = tx_idle h" "rx_listening (h\<lparr>user_data := fd\<rparr>) = rx_listening h"
  by (simp_all add: tx_idle_def rx_listening_def rx_wf_def rx_view_def rx_frame_def)

lemma wire_ready_user:
  assumes "wire_ready c m h" "in_place (fd_of h) fd"
  shows "wire_ready c m (h\<lparr>user_data := fd\<rparr>)"
  using assms laid_out_in_place [of "fd_of h" fd] by (auto simp: wire_ready_def in_place_def fixed_slots_def)

text \<open>What the receiver has collected when it is aligned does not depend on the memory.\<close>

lemma aligned_mem:
  "hdlc_aligned (rx_view h) \<longleftrightarrow> rx_state h = Read_start \<or> rx_ptr h \<le> rx_active h"
proof -
  have "rx_frame h = [] \<longleftrightarrow> rx_ptr h \<le> rx_active h" by (simp add: rx_frame_def bytes_at_def)
  then show ?thesis by (simp add: hdlc_aligned_def rx_view_def)
qed

lemma rx_listening_same:
  assumes "rx_listening h" "rx_same (h\<lparr>mem := m\<rparr>) h'" 
  shows "rx_listening h'"
  using assms by (simp add: rx_listening_def rx_same_def rx_wf_def aligned_mem)

subsection \<open>Sending\<close>

lemma slots_mem_mem: "slots_mem h = h\<lparr>mem := mem (slots_mem h)\<rparr>"
  by (simp add: slots_mem_def)

text \<open>A frame that is put, as the low level emits it.\<close>

lemma put_frame_emitted:
  fixes h :: tiny_fd
  assumes "tx_idle h" "rx_listening h" "slots_apart (fd_of h)" "f \<in> set (q_frames (i_queue (fd_of h)) @ q_frames (s_queue (fd_of h)))"
    and "f_len f \<le> length (f_payload f)" "f = frame_at (fd_of h) r"
    and "hdlc_ll_run_tx (slots_mem (put_frame_ref r h)) n = (k, h')" "length (hdlc_encode (crc_type h) (frame_bytes f)) < n"
  shows "k = int (length (tx_out h'))" "tx_out h' = hdlc_encode (crc_type h) (frame_bytes f)"
    and "fd_of h' = on_frame_send (fd_of h) (f_header f) (frame_bytes f)"
    and "tx_idle h'" "rx_listening h'" "crc_type h' = crc_type h" "phys_mtu h' = phys_mtu h"
proof -
  define code where "code = hdlc_encode (crc_type h) (frame_bytes f)"
  have mem: "bytes_at (mem (slots_mem h)) (f_header f) (f_len f + 2) = frame_bytes f"
    using slot_frame_in_memory assms(3-5) by blast
  have idle: "tx_state (slots_mem h) = Send_start" "tx_origin (slots_mem h) = 0" "crc_type (slots_mem h) = crc_type h"
    "crc_type (slots_mem h) \<noteq> HDLC_CRC_OFF" "hdlc_ll.on_frame_send (slots_mem h) = Some on_frame_send" "fd_of (slots_mem h) = fd_of h"
    using assms(1) by (simp_all add: tx_idle_def slots_mem_def)
  have nz: "f_header f \<noteq> 0" using assms(3,4) by (auto simp: slots_apart_def)
  have put: "hdlc_ll_put_frame (slots_mem h) (f_header f) (f_len f + 2) = (TINY_SUCCESS, slots_mem (put_frame_ref r h))"
    using nz idle(2) by (simp add: put_frame_ref_def hdlc_ll_put_frame_def slots_mem_def flip: assms(6))
  have pos: "0 < f_len f + 2" by simp
  note ready = put_frame_ready [OF idle(1,2,4) nz pos put, unfolded idle(3,5,6) mem, folded code_def]
  note sp = hdlc_ll_run_tx_spec [OF ready(2) assms(7), unfolded ready(5)]
  have n: "length code < n" using assms(8) by (simp add: code_def)
  show "tx_out h' = hdlc_encode (crc_type h) (frame_bytes f)" using sp(2) n by (simp add: code_def)
  then show "k = int (length (tx_out h'))" using sp(1) n by (simp add: code_def)
  have rem: "tx_remaining h' = []" using sp(3) n by simp
  then show "fd_of h' = on_frame_send (fd_of h) (f_header f) (frame_bytes f)" using sp(8) ready(6) by (simp add: code_def)
  define h1 where "h1 = slots_mem (put_frame_ref r h)"
  have same: "rx_same h1 h'" using run_tx_keeps_rx(1) [of h1 "tx_data h1" "tx_len h1" n k h'] ready(2) assms(7) by (simp add: h1_def tx_inside_def)
  have h1: "h1 = h\<lparr>tx_origin := f_header f, tx_data := f_header f, tx_len := f_len f + 2, mem := mem h1\<rparr>"
    using nz assms(1) by (simp add: h1_def slots_mem_def put_frame_ref_def hdlc_ll_put_frame_def tx_idle_def flip: assms(6))
  have "rx_same (h\<lparr>mem := mem h1\<rparr>) h1" by (subst (2) h1) (simp add: rx_same_def)
  then show "rx_listening h'" using rx_listening_same [OF assms(2)] rx_same_trans same by blast
  have "crc_type h1 = crc_type h" "phys_mtu h1 = phys_mtu h" by (subst h1, simp)+
  then show "crc_type h' = crc_type h" "phys_mtu h' = phys_mtu h" using same by (simp_all add: rx_same_def)
  then show "tx_idle h'" using sp(6) rem sp(7) ready(4) assms(1) by (simp add: tx_idle_def tx_remaining_eq_Nil_iff)
qed

lemma encode_length: "length (hdlc_encode c bs) \<le> 2 * (length bs + fcs_len c) + 2"
proof -
  have "length (stuffing xs) \<le> 2 * length xs" for xs by (induction xs) (auto simp: stuff_def)
  from this [of "bs @ fcs_bytes c bs"] show ?thesis by (simp add: hdlc_encode_def del: stuffing_append)
qed

text \<open>The buffer that is enough for any frame, with one byte more so that the end of the frame is seen.\<close>

definition frame_room :: "hdlc_crc_t \<Rightarrow> int \<Rightarrow> nat" where
  "frame_room c m = 2 * (nat m + 2 + fcs_len c) + 3"

text \<open>The slot that is chosen is one of the queues, and its frame is within the mtu.\<close>

lemma chosen_slot:
  assumes "registered fd 0" "tx_choose fd 0 = (Put_frame r, fd')"
  shows "frame_at fd' r \<in> set (q_frames (i_queue fd') @ q_frames (s_queue fd'))"
    and "f_len (frame_at fd' r) \<le> length (f_payload (frame_at fd' r))"
    and "int (f_len (frame_at fd' r)) \<le> max (q_mtu (i_queue fd')) 2"
proof -
  have k: "keeps fd fd'" using tx_choose_keeps [OF assms] .
  have ref: "ref_ok fd' r"
  proof (rule tx_choose_cases [OF assms(2)])
    fix e e' r' fd2 assume p: "Put_frame r = Put_frame r'" "choose_frame (fd\<lparr>events := e\<rparr>) 0 = (Some r', fd2)" "fd' = (sent_frame fd2 0 r')\<lparr>events := e'\<rparr>"
    have r0: "registered (fd\<lparr>events := e\<rparr>) 0"
      using keeps_registered [OF keeps_events(3) [OF keeps_refl [OF registeredD(1) [OF assms(1)]]] assms(1)] .
    have "ref_ok fd2 r" using touches_choose(2) [OF r0 p(2)] p(1) by simp
    moreover have "q_size (i_queue (sent_frame fd2 0 r')) = q_size (i_queue fd2)" "q_size (s_queue (sent_frame fd2 0 r')) = q_size (s_queue fd2)"
      by (cases r'; simp add: sent_frame_def Let_def mark_poll_def)+
    ultimately show ?thesis by (cases r) (simp_all add: p(3))
  qed (metis)+
  have wf: "queue_wf (i_queue fd')" "queue_wf (s_queue fd')" using keeps_wf [OF k] by (simp_all add: fd_wf_def iq_wf_def s_queue_wf_def)
  show "frame_at fd' r \<in> set (q_frames (i_queue fd') @ q_frames (s_queue fd'))" using ref by (cases r) auto
  then have sw: "slot_wf (q_mtu (i_queue fd')) (frame_at fd' r) \<or> slot_wf (q_mtu (s_queue fd')) (frame_at fd' r)"
    using wf by (auto simp: queue_wf_def)
  then show "f_len (frame_at fd' r) \<le> length (f_payload (frame_at fd' r))" by (auto simp: slot_wf_def)
  have "q_mtu (s_queue fd') = 2" using keeps_wf [OF k] by (simp add: fd_wf_def s_queue_wf_def)
  then show "int (f_len (frame_at fd' r)) \<le> max (q_mtu (i_queue fd')) 2"
    using sw by (auto simp: slot_wf_def)
qed

text \<open>
  A call of \<open>tiny_fd_get_tx_data\<close> between two frames: the timeouts, a frame if there is one to be sent, all of it, and the
  timeouts once more.
\<close>

lemma get_tx_data_frame:
  assumes "wire_ready c m h" "registered (fd_of h) 0" "frame_room c m \<le> len"
    and "tiny_fd_get_tx_data h len = (res, out, h')" "send_frame (check_idle_timeout (fd_of h) 0) = (fs, fd2)"
    and "\<And>f. f \<in> set fs \<Longrightarrow> address_field_to_peer fd2 (f ! 0) = 0"
  shows "out = concat (map (hdlc_encode c) fs)" "length fs \<le> 1" "\<And>f. f \<in> set fs \<Longrightarrow> int (length f) \<le> m + 2 \<and> 2 \<le> length f"
    and "fd_of h' = fd2 \<or> fd_of h' = check_idle_timeout fd2 0" "wire_ready c m h'" "fs = [] \<longleftrightarrow> out = []"
proof -
  note w = assms(1) [unfolded wire_ready_def]
  define fd1 where "fd1 = check_idle_timeout (fd_of h) 0"
  obtain action fdA where ch: "tx_choose fd1 0 = (action, fdA)" by fastforce
  have t1: "touches 0 (fd_of h) fd1" unfolding fd1_def by (rule touches_idle [OF assms(2)])
  have r1: "registered fd1 0" using touches_registered [OF t1 assms(2)] .
  have kA: "keeps fd1 fdA" using tx_choose_keeps [OF r1 ch] .
  have rA: "registered fdA 0" using keeps_registered [OF kA r1] .
  have np: "next_peer (fd_of h) = 0" using w registeredD(1) [OF assms(2)] by (simp add: fd_wf_def table_wf_def u8_less_1)
  have len: "0 < len" using assms(3) by (simp add: frame_room_def)
  have addr: "p_addr (peer_of (fd_of h) 0) \<noteq> HDLC_INVALID_PEER_INDEX" "p_addr (peer_of fdA 0) \<noteq> HDLC_INVALID_PEER_INDEX"
    using registeredD(3) [OF assms(2)] registeredD(3) [OF rA] by simp_all
  have p1: "in_place (fd_of h) fd1" unfolding fd1_def by (rule in_place_idle)
  note fx = in_place_tx_choose [OF ch]
  have pc: "peers_count fdA = 1" using w p1 fx(3) by (simp add: in_place_def)
  have qs: "fixed_slots (i_queue (fd_of h)) (i_queue fdA)" "fixed_slots (s_queue (fd_of h)) (s_queue fdA)"
    using p1 fx(1,2) by (auto simp: in_place_def intro: fixed_slots_trans)
  define h2 where "h2 = h\<lparr>user_data := fdA\<rparr>"
  have first: "tiny_fd_get_tx_data h len = (case action of
       Put_frame r \<Rightarrow> get_tx_loop 0 len (put_frame_ref r h2) [] True True
     | Stop \<Rightarrow> (0, [], h2)
     | Nothing \<Rightarrow> get_tx_loop 0 len h2 [] False True)"
    using w np len addr ch unfolding tiny_fd_get_tx_data_def
    by (subst get_tx_loop.simps) (simp add: Let_def upd_fd_def h2_def sending_wait flip: fd1_def split: tx_action.split)
  have last: "get_tx_loop 0 len g out rep True = (int (length out), out, g\<lparr>user_data := check_idle_timeout (fd_of g) 0\<rparr>)"
    if "length out < len" "\<not> sending (fd_of g)" "registered (fd_of g) 0" for g out rep
    using that registeredD(3) [OF that(3)] by (subst get_tx_loop.simps) (simp add: Let_def upd_fd_def sending_wait)
  have idle: "wire_ready c m (g\<lparr>user_data := check_idle_timeout (fd_of g) 0\<rparr>)" if "wire_ready c m g" for g
    using wire_ready_user [OF that(1) in_place_idle] .
  have all: "out = concat (map (hdlc_encode c) fs) \<and> length fs \<le> 1 \<and> (\<forall>f \<in> set fs. int (length f) \<le> m + 2 \<and> 2 \<le> length f)
    \<and> (fd_of h' = fd2 \<or> fd_of h' = check_idle_timeout fd2 0) \<and> wire_ready c m h' \<and> (fs = [] \<longleftrightarrow> out = [])"
  proof (cases "\<exists>r. action = Put_frame r")
    case False
    then have ns: "\<not> sending fdA" using fx(5) p1 w by (auto simp: in_place_def)
    have fs: "fs = []" "fd2 = fdA" using False assms(5) ch by (auto simp: send_frame_def fd1_def [symmetric] split: tx_action.splits)
    have "in_place (fd_of h) fdA" using qs ns pc w by (simp add: in_place_def)
    then have rd: "wire_ready c m h2" unfolding h2_def by (rule wire_ready_user [OF assms(1)])
    then show ?thesis
      using False first assms(4) last [of "[]" h2 False] idle [OF rd] len ns rA
      by (cases action) (auto simp: fs h2_def)
  next
    case True
    then obtain r where r: "action = Put_frame r" by blast
    define f where "f = frame_at fdA r"
    note cs = chosen_slot [OF r1 ch [unfolded r], folded f_def]
    have mtu: "q_mtu (i_queue fdA) = m" using qs(1) w by (simp add: fixed_slots_def)
    have fl: "int (f_len f) \<le> m" using cs(3) w by (simp add: mtu)
    have fs: "fs = [frame_bytes f]" "fd2 = on_frame_send fdA (f_header f) (frame_bytes f)"
      using assms(5) ch by (auto simp: send_frame_def fd1_def [symmetric] r f_def)
    have lo: "laid_out fdA" using laid_out_fixed [OF _ qs] w by simp
    have ti: "tx_idle h2" "rx_listening h2" "crc_type h2 = c" "fd_of h2 = fdA"
      using w by (simp_all add: h2_def)
    have bl: "length (frame_bytes f) = f_len f + 2" using cs(2) by (simp add: frame_bytes_def frame_data_def)
    then have room: "length (hdlc_encode c (frame_bytes f)) < len"
      using encode_length [of c "frame_bytes f"] fl assms(3) by (simp add: frame_room_def)
    obtain k h4 where run: "hdlc_ll_run_tx (slots_mem (put_frame_ref r h2)) len = (k, h4)" by fastforce
    have "slots_apart (fd_of h2)" "f \<in> set (q_frames (i_queue (fd_of h2)) @ q_frames (s_queue (fd_of h2)))" "f = frame_at (fd_of h2) r"
      using lo cs(1) by (simp_all add: laid_out_def ti(4) f_def)
    note em = put_frame_emitted [OF ti(1,2) this(1,2) cs(2) this(3) run, unfolded ti(3), OF room]
    have f4: "fd_of h4 = fd2" using em(3) by (simp add: fs ti(4))
    have "address_field_to_peer fd2 (frame_bytes f ! 0) = 0" using assms(6) by (simp add: fs(1))
    moreover have "same_config fdA fd2" using on_frame_send_keeps [OF registeredD(1) [OF rA]] by (simp add: fs(2) keeps_def)
    note address_field_to_peer_config [OF registeredD(1) [OF rA] this, of "frame_bytes f ! 0"]
    ultimately have "address_field_to_peer fdA (frame_bytes f ! 0) \<noteq> HDLC_INVALID_PEER_INDEX" by (simp add: HDLC_INVALID_PEER_INDEX_def)
    then have ns: "\<not> sending fd2" using tx_sending_cleared [of fdA "frame_bytes f"] sending_wait [of fd2] by (simp add: fs(2))
    have r2: "registered fd2 0" using keeps_registered [OF on_frame_send_keeps [OF registeredD(1) [OF rA]] rA] by (simp add: fs(2))
    have "laid_out fd2" using laid_out_in_place [OF lo in_place_send] by (simp add: fs(2))
    moreover have "peers_count fd2 = 1" "q_mtu (i_queue fd2) = m"
      using pc in_place_send [of fdA "f_header f" "frame_bytes f"] mtu by (simp_all add: fs(2) in_place_def fixed_slots_def)
    ultimately have rd: "wire_ready c m h4" using em(4-7) w ns by (simp add: wire_ready_def f4 ti(3)) (simp add: h2_def)
    have "get_tx_loop 0 len (put_frame_ref r h2) [] True True = get_tx_loop 0 len h4 (tx_out h4) True True"
      using len run em(1,2) fx(4) [OF r] ti(4) by (subst get_tx_loop.simps) (simp add: sending_wait)
    then have "(res, out, h') = (int (length (tx_out h4)), tx_out h4, h4\<lparr>user_data := check_idle_timeout fd2 0\<rparr>)"
      using first assms(4) last [of "tx_out h4" h4 True] em(2) room ns r2 f4 by (simp add: r)
    then show ?thesis using em(2) idle [OF rd] r2 fl bl by (simp add: fs(1) f4)
  qed
  then show "out = concat (map (hdlc_encode c) fs)" "length fs \<le> 1" "\<And>f. f \<in> set fs \<Longrightarrow> int (length f) \<le> m + 2 \<and> 2 \<le> length f"
    "fd_of h' = fd2 \<or> fd_of h' = check_idle_timeout fd2 0" "wire_ready c m h'" "fs = [] \<longleftrightarrow> out = []" by blast+
qed

text \<open>A station without a connection does not get one by sending.\<close>

text \<open>A property of the state that every step of the transmit path keeps.\<close>

definition tx_closed :: "u8 \<Rightarrow> (tiny_fd_data \<Rightarrow> bool) \<Rightarrow> bool" where
  "tx_closed peer P \<longleftrightarrow> (\<forall>fd. P fd \<longrightarrow> P (check_idle_timeout fd peer)) \<and> (\<forall>fd. P fd \<longrightarrow> P (snd (tx_choose fd peer)))
     \<and> (\<forall>fd header data. P fd \<longrightarrow> P (on_frame_send fd header data))"

lemma get_tx_loop_user:
  assumes "tx_closed peer P" "P (fd_of h)" "hdlc_ll.on_frame_send h = Some on_frame_send"
  shows "P (fd_of (snd (snd (get_tx_loop peer len h out rep waited))))"
  using assms
proof (induction peer len h out rep waited rule: get_tx_loop.induct)
  case (1 peer len h out rep waited)
  note cl = "1.prems"(1) [unfolded tx_closed_def]
  obtain g h' where run: "hdlc_ll_run_tx (slots_mem h) (len - length out) = (g, h')" by fastforce
  define h0 where "h0 = (slots_mem h)\<lparr>tx_out := [], tx_out_len := len - length out\<rparr>"
  have h'_eq: "h' = run_tx_loop h0 False" using run by (simp add: hdlc_ll_run_tx_def Let_def h0_def)
  have h0: "P (fd_of h0)" "hdlc_ll.on_frame_send h0 = Some on_frame_send" using "1.prems"(2,3) by (simp_all add: h0_def slots_mem_def)
  have cb: "P (f u p d)" if "hdlc_ll.on_frame_send h0 = Some f" "P u" for f u p d
    using cl that "1.prems"(3) by (auto simp add: h0_def slots_mem_def)
  have h': "P (fd_of h')" "hdlc_ll.on_frame_send h' = Some on_frame_send"
  proof -
    have "P (fd_of (run_tx_loop h0 False)) \<and> hdlc_ll.on_frame_send (run_tx_loop h0 False) = hdlc_ll.on_frame_send h0"
      by (rule run_tx_loop_user [where P = P]) (fact h0(1), fact cb)
    then show "P (fd_of h')" "hdlc_ll.on_frame_send h' = Some on_frame_send" using h0(2) by (simp_all only: h'_eq)
  qed
  define h1 where "h1 = upd_fd (\<lambda>fd. check_idle_timeout fd peer) h"
  obtain action fd where c: "tx_choose (fd_of h1) peer = (action, fd)" by fastforce
  define h2 where "h2 = upd_fd (\<lambda>_. fd) h1"
  have idle: "P (check_idle_timeout (fd_of h) peer)" using cl "1.prems"(2) by simp
  then have "P (fd_of h1)" by (simp add: h1_def upd_fd_def)
  moreover from this have "P (snd (tx_choose (fd_of h1) peer))" using cl by blast
  then have "P (fd_of h2)" by (simp add: h2_def upd_fd_def c)
  moreover have "hdlc_ll.on_frame_send h2 = Some on_frame_send" using "1.prems"(3) by (simp add: h2_def h1_def upd_fd_def)
  ultimately have h2: "P (fd_of h2)" "hdlc_ll.on_frame_send h2 = Some on_frame_send" by blast+
  show ?case
  proof (cases "length out \<ge> len")
    case True
    then show ?thesis using "1.prems"(2) by (subst get_tx_loop.simps) simp
  next
    case room: False
    show ?thesis
    proof (cases "fst (tiny_events_wait (events (fd_of h)) FD_EVENT_TX_SENDING False) \<noteq> 0")
      case sending: True
      have "g \<noteq> 0 \<Longrightarrow> P (fd_of (snd (snd (get_tx_loop peer len h' (out @ tx_out h') True waited))))"
        using "1.IH"(1) [OF room sending run [symmetric] _ "1.prems"(1) h'] by blast
      moreover have "\<not> g \<noteq> 0 \<Longrightarrow> rep \<Longrightarrow> P (fd_of (snd (snd (get_tx_loop peer len h' (out @ tx_out h') False waited))))"
        using "1.IH"(2) [OF room sending run [symmetric] _ _ "1.prems"(1) h'] by blast
      ultimately show ?thesis using room sending run h' by (subst get_tx_loop.simps) simp
    next
      case no: False
      show ?thesis
      proof (cases "p_addr (peer_of (fd_of h) peer) = HDLC_INVALID_PEER_INDEX")
        case True
        then show ?thesis using room no "1.prems"(2) by (subst get_tx_loop.simps) simp
      next
        case addr: False
        have "P (fd_of (snd (snd (get_tx_loop peer len (put_frame_ref r h2) out rep True))))" if "\<not> waited" "action = Put_frame r" for r
          using "1.IH"(3) [OF room no addr h1_def that(1) c [symmetric] h2_def that(2) "1.prems"(1)] h2 by simp
        moreover have "P (fd_of (snd (snd (get_tx_loop peer len h2 out False True))))" if "\<not> waited" "action = Nothing" rep
          using "1.IH"(4) [OF room no addr h1_def that(1) c [symmetric] h2_def that(2,3) "1.prems"(1)] h2 by simp
        moreover have "get_tx_loop peer len h out rep waited =
          (if waited then (int (length out), out, h1)
           else case action of Put_frame r \<Rightarrow> get_tx_loop peer len (put_frame_ref r h2) out rep True
             | Stop \<Rightarrow> (int (length out), out, h2)
             | Nothing \<Rightarrow> if rep then get_tx_loop peer len h2 out False True else (int (length out), out, h2))"
          using room no addr c unfolding h1_def h2_def by (subst get_tx_loop.simps) (simp add: Let_def)
        moreover have "P (fd_of h1)" using idle by (simp add: h1_def upd_fd_def)
        ultimately show ?thesis using h2(1) by (cases waited; cases action) auto
      qed
    qed
  qed
qed

lemma state_upd_peer: "(\<And>x. p_state (f x) = p_state x) \<Longrightarrow> p_state (peer_of (upd_peer p f fd) q) = p_state (peer_of fd q)"
  by (cases "unat p < length (peers fd)"; cases "unat q = unat p") (simp_all add: upd_peer_def peer_of_def list_update_beyond)

lemma state_log [simp]: "peer_of (tiny_fd_log_frame d data fd) q = peer_of fd q"
  by (simp add: tiny_fd_log_frame_def Let_def)

lemma state_put: "peer_of (snd (put_u_s_frame_to_tx_queue fd type data)) q = peer_of fd q"
  by (simp add: put_u_s_frame_to_tx_queue_def split: option.split prod.split)

lemma tx_choose_state:
  assumes "tx_choose fd p = (action, fd')"
  shows "p_state (peer_of fd' q) = p_state (peer_of fd q)"
proof -
  have su: "p_state (peer_of (snd (tiny_fd_get_next_s_u_frame_to_send fd p a)) q) = p_state (peer_of fd q)" for fd a
    by (simp add: tiny_fd_get_next_s_u_frame_to_send_def Let_def state_upd_peer split: option.split)
  have i: "p_state (peer_of (snd (tiny_fd_get_next_i_frame fd p a)) q) = p_state (peer_of fd q)" for fd a
    by (simp add: tiny_fd_get_next_i_frame_def Let_def tiny_millis_def state_upd_peer split: option.split)
  have m: "peer_of (put_marker_frame fd p a) q = peer_of fd q" for fd a by (simp add: put_marker_frame_def state_put)
  have ch: "p_state (peer_of fd' q) = p_state (peer_of fd q)" if "choose_frame fd p = (r, fd')" for fd r fd'
    using that su [of fd] i m su by (auto simp: choose_frame_def Let_def split: prod.splits option.splits if_splits) (metis snd_conv)+
  have se: "p_state (peer_of (sent_frame fd p r) q) = p_state (peer_of fd q)" for fd r
    by (simp add: sent_frame_def Let_def state_upd_peer)
  have st: "p_state (peer_of fd' q) = p_state (peer_of fd q)" if "tiny_fd_get_next_frame_to_send fd p = (r, fd')" for fd r fd'
    using that ch [of fd] se by (auto simp: get_next_frame_eq split: prod.splits option.splits)
  show ?thesis
    using assms st by (auto simp: tx_choose_def wait_events_def tiny_millis_def time_passed_since_last_marker_seen_def
        split: prod.splits if_splits option.splits)
qed

definition down :: "tiny_fd_data \<Rightarrow> bool" where
  "down fd \<longleftrightarrow> p_state (peer_of fd 0) \<noteq> TINY_FD_STATE_CONNECTED \<and> p_state (peer_of fd 0) \<noteq> TINY_FD_STATE_DISCONNECTING"

lemma down_connecting: "down fd \<Longrightarrow> down (upd_peer 0 (\<lambda>p. p\<lparr>p_state := TINY_FD_STATE_CONNECTING\<rparr>) fd)"
  by (cases "0 < length (peers fd)") (simp_all add: down_def upd_peer_def peer_of_def)

lemma down_idle:
  assumes "down fd"
  shows "down (check_idle_timeout fd 0)"
proof -
  have ops: "down (upd_peer 0 (\<lambda>p. p\<lparr>last_received_frame_ts := t\<rparr>) fd) = down fd" "down (fd\<lparr>ticks := k\<rparr>) = down fd"
    "down (snd (put_u_s_frame_to_tx_queue fd type data)) = down fd" for t k fd type data
    by (simp_all add: down_def state_upd_peer state_put)
  have "check_idle_timeout fd 0 = tiny_fd_disconnected_check_idle_timeout fd 0" using assms by (simp add: check_idle_timeout_def down_def)
  then show ?thesis
    using assms by (simp add: tiny_fd_disconnected_check_idle_timeout_def Let_def tiny_millis_def
        time_passed_since_last_frame_received_def ops down_connecting)
qed

lemma down_get_tx_data:
  assumes "down (check_idle_timeout (fd_of h) 0)" "wire_ready c m h" "registered (fd_of h) 0" "0 < len" "tiny_fd_get_tx_data h len = (res, out, h')"
  shows "down (fd_of h')"
proof -
  note w = assms(2) [unfolded wire_ready_def]
  have choose: "down fd'" if "down fd" "tx_choose fd 0 = (a, fd')" for fd a fd'
    using that tx_choose_state [OF that(2)] by (simp add: down_def)
  have send: "down (on_frame_send fd header data)" if "down fd" for fd header data
    using that by (simp add: down_def on_frame_send_def switch_to_next_peer_def Let_def)
  have cl: "tx_closed 0 down" using choose send down_idle by (metis tx_closed_def prod.collapse)
  define h1 where "h1 = h\<lparr>user_data := check_idle_timeout (fd_of h) 0\<rparr>"
  obtain action fd where c: "tx_choose (fd_of h1) 0 = (action, fd)" by fastforce
  define h2 where "h2 = h1\<lparr>user_data := fd\<rparr>"
  have d: "down (fd_of h2)" "hdlc_ll.on_frame_send h2 = Some on_frame_send"
    using choose [OF _ c] assms(1) w by (simp_all add: h1_def h2_def tx_idle_def)
  have loop: "down (fd_of (snd (snd (get_tx_loop 0 len g out rep waited))))" if "down (fd_of g)" "hdlc_ll.on_frame_send g = Some on_frame_send" for g out rep waited
    using get_tx_loop_user [OF cl that] .
  have np: "next_peer (fd_of h) = 0" using w registeredD(1) [OF assms(3)] by (simp add: fd_wf_def table_wf_def u8_less_1)
  have "tiny_fd_get_tx_data h len = (case action of
       Put_frame r \<Rightarrow> get_tx_loop 0 len (put_frame_ref r h2) [] True True
     | Stop \<Rightarrow> (0, [], h2)
     | Nothing \<Rightarrow> get_tx_loop 0 len h2 [] False True)"
    using w np assms(4) registeredD(3) [OF assms(3)] c unfolding tiny_fd_get_tx_data_def
    by (subst get_tx_loop.simps) (simp add: Let_def upd_fd_def h2_def h1_def sending_wait split: tx_action.split)
  then have "down (fd_of (snd (snd (tiny_fd_get_tx_data h len))))"
    using loop [OF d, of "[]" False True] loop [of "put_frame_ref r h2" "[]" True True for r] d by (cases action) simp_all
  then show ?thesis using assms(5) by simp
qed

subsection \<open>Receiving\<close>

lemma receive_frame_ready:
  assumes "wire_ready c m h" "concat chunks = hdlc_encode c f" "2 \<le> length f" "int (length f) \<le> m + 2"
  shows "fd_of (receive_chunks h chunks) = on_frame_read (fd_of h) f" "wire_ready c m (receive_chunks h chunks)"
proof -
  note w = assms(1) [unfolded wire_ready_def]
  define h' where "h' = receive_chunks h chunks"
  have l: "rx_wf h" "rx_state h \<noteq> Read_end" "hdlc_aligned (rx_view h)" "hdlc_ll.on_frame_read h = Some on_frame_read" "crc_type h = c"
    using w by (simp_all add: rx_listening_def)
  have "f \<noteq> []" using assms(3) by auto
  then have fits: "hdlc_fits c (nat (phys_mtu h)) f" using w assms(4) by (auto simp: hdlc_fits_def nat_le_iff le_nat_iff)
  then show fd: "fd_of (receive_chunks h chunks) = on_frame_read (fd_of h) f"
    using receive_encoded_frame [of h chunks f] w assms(2) by simp
  obtain es where "rx_reads h (concat chunks) es (fold (\<lambda>chunk h. rx_feed h chunk) chunks h)"
    using rx_feed_chunks [OF l(1,2)] by blast
  then have re: "rx_reads h (concat (map (hdlc_encode (crc_type h)) [f])) es h'"
    using assms(2) l(5) by (simp add: h'_def receive_chunks_def tiny_fd_on_rx_data_def)
  have al: "hdlc_aligned (rx_view h')" using reads_frames [OF re] l fits w by (simp add: rx_wf_def)
  have rx: "rx_only h h'" "rx_wf h'" "rx_state h' \<noteq> Read_end" using re by (simp_all add: rx_reads_def)
  note f = rx_only_fields [OF rx(1)]
  have p: "in_place (fd_of h) (fd_of h')" using in_place_read fd by (simp add: h'_def)
  have "tx_idle h'" "rx_listening h'" using w rx al l by (simp_all add: tx_idle_def rx_listening_def f)
  then show "wire_ready c m (receive_chunks h chunks)"
    using w p laid_out_in_place [OF _ p] unfolding h'_def [symmetric] by (simp add: wire_ready_def f in_place_def fixed_slots_def)
qed

subsection \<open>The session in bytes\<close>

text \<open>
  One side: the handle, the packets taken from the application, and what is on the line, call by call. Every call of
  \<open>tiny_fd_get_tx_data\<close> has room for a frame. The line keeps the order; what one call has sent may be lost. The bytes that arrive come in
  any chunks.
\<close>

record wire_side =
  handle :: tiny_fd
  packets :: "u8 list list"
  on_line :: "u8 list list"

inductive wire_step :: "hdlc_crc_t \<Rightarrow> int \<Rightarrow> wire_side \<times> wire_side \<Rightarrow> wire_side \<times> wire_side \<Rightarrow> bool" for c m where
  send_call: "tiny_fd_send_packet_to (\<lambda>fd. fd) (\<lambda>fd. fd) (fd_of (handle x)) address data timeout = (r, fd) \<Longrightarrow>
    wire_step c m (x, y) (x\<lparr>handle := (handle x)\<lparr>user_data := fd\<rparr>, packets := packets x @ (if r = TINY_SUCCESS then [data] else [])\<rparr>, y)"
| tx_call: "frame_room c m \<le> len \<Longrightarrow> tiny_fd_get_tx_data (handle x) len = (res, out, h) \<Longrightarrow>
    wire_step c m (x, y) (x\<lparr>handle := h, on_line := on_line x @ (if out = [] then [] else [out])\<rparr>, y)"
| rx_calls: "on_line y = concat chunks # rest \<Longrightarrow>
    wire_step c m (x, y) (x\<lparr>handle := receive_chunks (handle x) chunks\<rparr>, y\<lparr>on_line := rest\<rparr>)"
| lose_out: "on_line x = us @ out # vs \<Longrightarrow> wire_step c m (x, y) (x\<lparr>on_line := us @ vs\<rparr>, y)"
| other_end: "wire_step c m (y, x) (y', x') \<Longrightarrow> wire_step c m (x, y) (x', y')"

definition wire_up :: "wire_side \<times> wire_side \<Rightarrow> bool" where
  "wire_up s \<longleftrightarrow> p_state (peer_of (fd_of (handle (fst s))) 0) = TINY_FD_STATE_CONNECTED
     \<and> p_state (peer_of (fd_of (handle (snd s))) 0) = TINY_FD_STATE_CONNECTED"

inductive wire_session :: "hdlc_crc_t \<Rightarrow> int \<Rightarrow> wire_side \<times> wire_side \<Rightarrow> wire_side \<times> wire_side \<Rightarrow> bool" for c m s0 where
  wire_start: "wire_session c m s0 s0"
| wire_more: "wire_session c m s0 s \<Longrightarrow> wire_step c m s s' \<Longrightarrow> wire_up s' \<Longrightarrow> wire_session c m s0 s'"

text \<open>The frames behind the bytes.\<close>

definition wire_rel :: "hdlc_crc_t \<Rightarrow> int \<Rightarrow> wire_side \<Rightarrow> fd_side \<Rightarrow> bool" where
  "wire_rel c m x X \<longleftrightarrow> wire_ready c m (handle x) \<and> station X = fd_of (handle x) \<and> taken X = packets x
     \<and> on_line x = map (hdlc_encode c) (wire X) \<and> (\<forall>f \<in> set (wire X). 2 \<le> length f \<and> int (length f) \<le> m + 2)"

lemma session_swap: "session (x0, y0) (x, y) \<Longrightarrow> session (y0, x0) (y, x)"
proof (induction "(x, y)" arbitrary: x y rule: session.induct)
  case session_start
  then show ?case by (simp add: session.session_start)
next
  case (session_more s x y)
  obtain u v where s: "s = (u, v)" by fastforce
  have "session_step (v, u) (y, x)" by (rule session_step.other_side) (use session_more.hyps(3) in \<open>simp add: s\<close>)
  moreover have "both_connected (y, x)" using session_more.hyps(4) by (simp add: both_connected_def)
  ultimately show ?case using session_more.hyps(2) [OF s] by (blast intro: session.session_more)
qed

text \<open>A timeout leaves a connected station connected, or it goes down.\<close>

lemma resend_state: "p_state (peer_of (resend_all_unconfirmed_frames fd p control nr) q) = p_state (peer_of fd q)"
proof -
  have "p_state (peer_of (resend_loop p control nr fuel fd) q) = p_state (peer_of fd q)" for fuel
    by (induction p control nr fuel fd rule: resend_loop.induct) (simp_all add: Let_def state_put state_upd_peer)
  then show ?thesis by (simp add: resend_all_unconfirmed_frames_def)
qed

lemma idle_state:
  assumes "registered fd 0" "p_state (peer_of fd 0) = TINY_FD_STATE_CONNECTED"
  shows "p_state (peer_of (check_idle_timeout fd 0) 0) = TINY_FD_STATE_CONNECTED \<or> down (check_idle_timeout fd 0)"
proof -
  have "down (switch_to_disconnected_state (fd\<lparr>ticks := t\<rparr>) 0)" for t
  proof -
    have "registered (fd\<lparr>ticks := t\<rparr>) 0" using keeps_registered [OF keeps_events(4) [OF keeps_refl [OF registeredD(1) [OF assms(1)]]] assms(1)] .
    from switch_ops(2) [OF this] show ?thesis by (simp add: down_def)
  qed
  then show ?thesis
    using assms(2) by (simp add: check_idle_timeout_def tiny_fd_connected_check_idle_timeout_def Let_def tiny_millis_def
        time_passed_since_last_frame_received_def time_passed_since_last_frame_sent_def resend_state state_upd_peer state_put)
qed

subsection \<open>The bytes carry the frames\<close>

lemma session_station:
  assumes "session S0 S" "session_rep a r0 S0 e0" "sw_inv e0"
  obtains E F where "station_rep a (fst r0) (station (fst S)) E" "station_rep a (snd r0) (station (snd S)) F"
    "list_all2 (packet_frame a) (line F) (wire (snd S))"
proof -
  obtain e where "session_rep a r0 S e" using session_simulates [OF assms] by blast
  then show thesis using that by (auto simp: session_rep_def side_rep_def)
qed

lemma station_rep_up: "station_rep a r fd E \<Longrightarrow> p_state (peer_of fd 0) = TINY_FD_STATE_CONNECTED"
  by (simp add: station_rep_def station_up_def)

lemma packet_frame_address: "packet_frame a k f \<Longrightarrow> station_up a fd \<Longrightarrow> address_field_to_peer fd (f ! 0) = 0"
  using address_field_to_peer_cr [of "f ! 0" a fd]
  by (cases k) (auto simp: i_frame_def service_packet_def s_frame_def station_up_def)

lemma tx_call_simulates:
  assumes "session S0 (X, Y)" "session_rep a r0 S0 e0" "sw_inv e0" "wire_rel c m x X"
    and "frame_room c m \<le> len" "tiny_fd_get_tx_data (handle x) len = (res, out, h)"
    and "p_state (peer_of (fd_of h) 0) = TINY_FD_STATE_CONNECTED"
  shows "\<exists>X'. session S0 (X', Y) \<and> wire_rel c m (x\<lparr>handle := h, on_line := on_line x @ (if out = [] then [] else [out])\<rparr>) X'"
proof -
  note w = assms(4) [unfolded wire_rel_def]
  obtain E F where E: "station_rep a (fst r0) (station X) E" and F: "station_rep a (snd r0) (station Y) F"
    using session_station [OF assms(1-3)] by (metis fst_conv snd_conv)
  have up: "registered (fd_of (handle x)) 0" "p_state (peer_of (fd_of (handle x)) 0) = TINY_FD_STATE_CONNECTED"
    using station_rep_registered [OF E] station_rep_up [OF E] w by simp_all
  have len: "0 < len" using assms(5) by (simp add: frame_room_def)
  define fd1 where "fd1 = check_idle_timeout (fd_of (handle x)) 0"
  define X1 where "X1 = X\<lparr>station := fd1\<rparr>"
  have "\<not> down fd1" using down_get_tx_data [OF _ _ up(1) len assms(6)] assms(7) w by (auto simp: fd1_def down_def)
  then have c1: "p_state (peer_of fd1 0) = TINY_FD_STATE_CONNECTED" using idle_state [OF up] by (simp add: fd1_def)
  have "session_step (X, Y) (X1, Y)" using session_step.timeouts [of X Y] w by (simp add: X1_def fd1_def)
  then have s1: "session S0 (X1, Y)"
    by (rule session_more [OF assms(1)]) (simp add: both_connected_def X1_def c1 station_rep_up [OF F])
  obtain E1 where E1: "station_rep a (fst r0) fd1 E1"
    using session_station [OF s1 assms(2,3)] unfolding X1_def by (metis fst_conv fd_side.select_convs(1) fd_side.update_convs(1) fd_side.surjective)
  obtain fs fd2 where sf: "send_frame fd1 = (fs, fd2)" by fastforce
  from send_keeps [OF E1 sf] obtain ms E2 where k: "list_all2 (packet_frame a) ms fs" "station_rep a (fst r0) fd2 E2" by blast
  have "address_field_to_peer fd2 (f ! 0) = 0" if "f \<in> set fs" for f
    using that k packet_frame_address by (auto simp: list_all2_conv_all_nth in_set_conv_nth station_rep_def)
  note g = get_tx_data_frame [OF conjunct1 [OF w] up(1) assms(5,6) sf [unfolded fd1_def] this]
  define X2 where "X2 = X1\<lparr>station := fd2, wire := wire X1 @ fs\<rparr>"
  have "session_step (X1, Y) (X2, Y)" unfolding X2_def by (rule session_step.transmit) (simp add: X1_def sf)
  then have s2: "session S0 (X2, Y)"
    by (rule session_more [OF s1]) (simp add: both_connected_def X2_def station_rep_up [OF k(2)] station_rep_up [OF F])
  have line: "on_line x @ (if out = [] then [] else [out]) = map (hdlc_encode c) (wire X2)"
    using w g(1,2,6) by (cases fs) (auto simp: X2_def X1_def)
  have ok: "\<forall>f \<in> set (wire X2). 2 \<le> length f \<and> int (length f) \<le> m + 2" using w g(3) by (auto simp: X2_def X1_def)
  have tk: "taken X2 = packets x" using w by (simp add: X2_def X1_def)
  show ?thesis
  proof (cases "fd_of h = fd2")
    case True
    then show ?thesis using s2 line ok tk g(5) by (intro exI [of _ X2]) (simp add: wire_rel_def X2_def)
  next
    case False
    then have h: "fd_of h = check_idle_timeout fd2 0" using g(4) by blast
    have "session_step (X2, Y) (X2\<lparr>station := fd_of h\<rparr>, Y)" using session_step.timeouts [of X2 Y] by (simp add: h X2_def)
    then have "session S0 (X2\<lparr>station := fd_of h\<rparr>, Y)"
      by (rule session_more [OF s2]) (simp add: both_connected_def assms(7) station_rep_up [OF F])
    then show ?thesis using line ok tk g(5) by (intro exI [of _ "X2\<lparr>station := fd_of h\<rparr>"]) (simp add: wire_rel_def)
  qed
qed

lemma wire_step_simulates:
  assumes "wire_step c m s s'" "wire_up s'" "wire_rel c m (fst s) (fst S)" "wire_rel c m (snd s) (snd S)"
    and "session S0 S" "session_rep a r0 S0 e0" "sw_inv e0"
  shows "\<exists>S'. session S0 S' \<and> wire_rel c m (fst s') (fst S') \<and> wire_rel c m (snd s') (snd S')"
  using assms
proof (induction arbitrary: S S0 r0 e0 rule: wire_step.induct)
  case (send_call x address data timeout r fd y)
  obtain X Y where S: "S = (X, Y)" by fastforce
  note w = send_call.prems(2) [unfolded S fst_conv wire_rel_def]
  obtain F where F: "station_rep a (snd r0) (station Y) F"
    using session_station [OF send_call.prems(4-6)] unfolding S by (metis snd_conv)
  define X' where "X' = X\<lparr>station := fd, taken := taken X @ (if r = TINY_SUCCESS then [data] else [])\<rparr>"
  have step: "session_step (X, Y) (X', Y)" unfolding X'_def by (rule session_step.packet) (use send_call.hyps w in simp)
  have "session S0 (X', Y)"
    by (rule session_more [OF send_call.prems(4) [unfolded S] step]) (use send_call.prems(1) station_rep_up [OF F] in \<open>simp add: both_connected_def wire_up_def X'_def\<close>)
  moreover have "in_place (fd_of (handle x)) fd" using in_place_send_packet send_call.hyps by (metis snd_conv)
  then have "wire_ready c m ((handle x)\<lparr>user_data := fd\<rparr>)" using wire_ready_user w by blast
  ultimately show ?case using w send_call.prems(3) by (intro exI [of _ "(X', Y)"]) (simp add: wire_rel_def X'_def S)
next
  case (tx_call len x res out h y)
  obtain X Y where S: "S = (X, Y)" by fastforce
  have "p_state (peer_of (fd_of h) 0) = TINY_FD_STATE_CONNECTED" using tx_call.prems(1) by (simp add: wire_up_def)
  from tx_call_simulates [OF tx_call.prems(4) [unfolded S] tx_call.prems(5,6) _ tx_call.hyps this] tx_call.prems(2)
  obtain X' where "session S0 (X', Y)" "wire_rel c m (x\<lparr>handle := h, on_line := on_line x @ (if out = [] then [] else [out])\<rparr>) X'"
    by (auto simp: S)
  then show ?case using tx_call.prems(3) by (intro exI [of _ "(X', Y)"]) (simp add: S)
next
  case (rx_calls y chunks rest x)
  obtain X Y where S: "S = (X, Y)" by fastforce
  note w = rx_calls.prems(2) [unfolded S fst_conv wire_rel_def] and v = rx_calls.prems(3) [unfolded S snd_conv wire_rel_def]
  obtain f fs where f: "wire Y = f # fs" "concat chunks = hdlc_encode c f" "rest = map (hdlc_encode c) fs"
    using v rx_calls.hyps by (cases "wire Y") auto
  obtain F where F: "station_rep a (snd r0) (station Y) F"
    using session_station [OF rx_calls.prems(4-6)] unfolding S by (metis snd_conv)
  have "2 \<le> length f" "int (length f) \<le> m + 2" using v f(1) by simp_all
  note re = receive_frame_ready [OF conjunct1 [OF w] f(2) this]
  define X' where "X' = X\<lparr>station := on_frame_read (station X) f\<rparr>"
  have step: "session_step (X, Y) (X', Y\<lparr>wire := fs\<rparr>)" unfolding X'_def by (rule session_step.receive_frame [OF f(1)])
  have "session S0 (X', Y\<lparr>wire := fs\<rparr>)"
    by (rule session_more [OF rx_calls.prems(4) [unfolded S] step]) (use rx_calls.prems(1) station_rep_up [OF F] re(1) w in \<open>simp add: both_connected_def wire_up_def X'_def\<close>)
  then show ?case using w v re f by (intro exI [of _ "(X', Y\<lparr>wire := fs\<rparr>)"]) (simp add: wire_rel_def X'_def)
next
  case (lose_out x us out vs y)
  obtain X Y where S: "S = (X, Y)" by fastforce
  note w = lose_out.prems(2) [unfolded S fst_conv wire_rel_def]
  obtain fs f gs where f: "wire X = fs @ f # gs" "us = map (hdlc_encode c) fs" "vs = map (hdlc_encode c) gs"
    using w lose_out.hyps by (auto simp: append_eq_map_conv Cons_eq_map_conv)
  obtain E F where E: "station_rep a (fst r0) (station X) E" "station_rep a (snd r0) (station Y) F"
    using session_station [OF lose_out.prems(4-6)] unfolding S by (metis fst_conv snd_conv)
  have step: "session_step (X, Y) (X\<lparr>wire := fs @ gs\<rparr>, Y)" by (rule session_step.lose_frame [OF f(1)])
  have "session S0 (X\<lparr>wire := fs @ gs\<rparr>, Y)"
    by (rule session_more [OF lose_out.prems(4) [unfolded S] step]) (simp add: both_connected_def station_rep_up [OF E(1)] station_rep_up [OF E(2)])
  then show ?case using w f lose_out.prems(3) by (intro exI [of _ "(X\<lparr>wire := fs @ gs\<rparr>, Y)"]) (auto simp: wire_rel_def S)
next
  case (other_end y x y' x')
  obtain X Y where S: "S = (X, Y)" by fastforce
  obtain X0 Y0 where S0: "S0 = (X0, Y0)" by fastforce
  have "wire_up (y', x')" "session_rep a (snd r0, fst r0) (Y0, X0) (snd e0, fst e0)" "sw_inv (snd e0, fst e0)"
    using other_end.prems by (auto simp: wire_up_def session_rep_def sw_inv_def S0)
  from other_end.IH [OF this(1), of "(Y, X)", OF _ _ session_swap this(2,3)] other_end.prems(2-4)
  obtain S' where "session (Y0, X0) S'" "wire_rel c m y' (fst S')" "wire_rel c m x' (snd S')" by (auto simp: S S0)
  then show ?case using session_swap [of Y0 X0 "fst S'" "snd S'"] by (intro exI [of _ "(snd S', fst S')"]) (simp add: S0)
qed

subsection \<open>What the applications exchange\<close>

text \<open>A handle whose connection has just come up.\<close>

definition side_of :: "wire_side \<Rightarrow> fd_side" where
  "side_of x = \<lparr>station = fd_of (handle x), taken = packets x, wire = on_line x\<rparr>"

definition fresh_wire :: "u8 \<Rightarrow> hdlc_crc_t \<Rightarrow> int \<Rightarrow> wire_side \<Rightarrow> bool" where
  "fresh_wire a c m x \<longleftrightarrow> wire_ready c m (handle x) \<and> fresh_side a (side_of x)"

text \<open>
  C1: The full duplex protocol over its own framing, end to end and for any length of time. Two stations in ABM mode with a
  fresh connection make calls of \<open>tiny_fd_send_packet_to\<close>, \<open>tiny_fd_get_tx_data\<close> and \<open>tiny_fd_on_rx_data\<close>, in any order, at any
  times (so with any timeouts and repetitions), as long as the connection lasts. Every call of \<open>tiny_fd_get_tx_data\<close> has room for a whole frame
  (\<open>frame_room\<close>), so that no frame is confirmed while it is half sent; the line keeps the order of the frames, may lose any of them as a whole,
  and delivers the bytes of a frame to the receiver in any chunks. Then the application of \<open>y\<close> has got exactly the first of the packets accepted from the
  application of \<open>x\<close>, in order, none twice and none damaged, and every packet that has left the window of \<open>x\<close> is among them; by
  symmetry the other way round. With less room in a call, as in \<open>tiny_fd_run_tx\<close>, this does not hold: a confirmation in the middle of a repeated
  frame frees its slot, and the rest of the frame may be taken from the next packet. The proof is a refinement: the sequence numbers count modulo 8 what
  the abstract sliding window protocol counts.
\<close>

theorem fd_wire_delivers:
  assumes "fresh_wire a c m x0" "fresh_wire a c m y0" "wire_session c m (x0, y0) (x, y)"
  defines "fd \<equiv> fd_of (handle y)"
  shows "\<exists>ds. reads (calls fd) = reads (calls (fd_of (handle y0))) @ map (Pair (app_address fd 0)) ds
      \<and> prefix ds (packets x) \<and> length (packets x) \<le> length ds + length (tx_window (fd_of (handle x)) 0)"
proof -
  define r0 where "r0 = (reads (calls (fd_of (handle x0))), reads (calls (fd_of (handle y0))))"
  define S0 where "S0 = (side_of x0, side_of y0)"
  have f: "fresh_side a (side_of x0)" "fresh_side a (side_of y0)" using assms(1,2) by (simp_all add: fresh_wire_def)
  then have rep: "session_rep a r0 S0 (empty_end, empty_end)"
    using fresh_side_rep [of a "side_of x0"] fresh_side_rep [of a "side_of y0"] by (simp add: session_rep_def S0_def r0_def side_of_def)
  have rel0: "wire_rel c m x0 (side_of x0)" "wire_rel c m y0 (side_of y0)"
    using assms(1,2) by (simp_all add: fresh_wire_def wire_rel_def fresh_side_def side_of_def)
  have "\<exists>S. session S0 S \<and> wire_rel c m (fst s) (fst S) \<and> wire_rel c m (snd s) (snd S)" if "wire_session c m (x0, y0) s" for s
    using that
  proof (induction rule: wire_session.induct)
    case wire_start
    then show ?case using rel0 session_start [of S0] by (intro exI [of _ S0]) (simp add: S0_def)
  next
    case (wire_more s s')
    then show ?case using wire_step_simulates [OF wire_more.hyps(2,3) _ _ _ rep empty_ends] by blast
  qed
  from this [OF assms(3)] obtain S where S: "session S0 S" "wire_rel c m x (fst S)" "wire_rel c m y (snd S)" by auto
  have "taken (fst S) = packets x" "station (fst S) = fd_of (handle x)" "station (snd S) = fd" "station (snd S0) = fd_of (handle y0)"
    using S(2,3) by (simp_all add: wire_rel_def fd_def S0_def side_of_def)
  then show ?thesis using fd_session_delivers [of a "side_of x0" "side_of y0" "fst S" "snd S"] f S(1) by (simp add: S0_def)
qed

text \<open>A packet that travels, in the bytes of the line.\<close>

definition demo_wire :: wire_side where
  "demo_wire = \<lparr>handle = demo_station (station demo_side), packets = [], on_line = []\<rparr>"

lemma demo_wire_fresh: "fresh_wire 1 HDLC_CRC_8 2 demo_wire"
proof -
  have "laid_out (station demo_side)"
    by (simp add: laid_out_def slots_full_def slots_apart_def slots_disjoint_def slot_bytes_def demo_side_def demo_fd_def demo_slot_def)
  moreover have "\<not> sending (station demo_side)" "peers_count (station demo_side) = 1" "q_mtu (i_queue (station demo_side)) = 2"
    by (simp_all add: sending_def demo_side_def demo_fd_def)
  ultimately have "wire_ready HDLC_CRC_8 2 (handle demo_wire)"
    using demo_station_fields by (simp add: wire_ready_def demo_wire_def fcs_len_def)
  moreover have "side_of demo_wire = demo_side" by (simp add: side_of_def demo_wire_def demo_station_tx) (simp add: demo_side_def)
  ultimately show ?thesis using demo_side_fresh by (simp add: fresh_wire_def)
qed

definition demo_bytes :: "u8 list list" where
  "demo_bytes = [[126, 1, 0], [7, 8, 239, 126]]"

definition demo_tx :: "int \<times> u8 list \<times> tiny_fd" where
  "demo_tx = tiny_fd_get_tx_data (demo_station demo_queued) 13"

definition demo_rx :: tiny_fd where
  "demo_rx = receive_chunks (demo_station (station demo_side)) demo_bytes"

lemma demo_wire_run: "fst (snd demo_tx) = concat demo_bytes"
  "p_state (peer_of (fd_of (snd (snd demo_tx))) 0) = TINY_FD_STATE_CONNECTED"
  "p_state (peer_of (fd_of demo_rx) 0) = TINY_FD_STATE_CONNECTED" "app_address (fd_of demo_rx) 0 = 0"
proof -
  show "fst (snd demo_tx) = concat demo_bytes" by code_simp
  show "p_state (peer_of (fd_of (snd (snd demo_tx))) 0) = TINY_FD_STATE_CONNECTED" by code_simp
  show "p_state (peer_of (fd_of demo_rx) 0) = TINY_FD_STATE_CONNECTED" by code_simp
  show "app_address (fd_of demo_rx) 0 = 0" by code_simp
qed

lemma demo_wire_session:
  "wire_session HDLC_CRC_8 2 (demo_wire, demo_wire)
     (demo_wire\<lparr>handle := snd (snd demo_tx), packets := [[7, 8]]\<rparr>, demo_wire\<lparr>handle := demo_rx\<rparr>)"
proof -
  let ?step = "wire_step HDLC_CRC_8 2" and ?run = "wire_session HDLC_CRC_8 2 (demo_wire, demo_wire)"
  have w: "handle demo_wire = demo_station (station demo_side)" "packets demo_wire = []" "on_line demo_wire = []" by (simp_all add: demo_wire_def)
  have user: "(demo_station fd)\<lparr>user_data := fd'\<rparr> = demo_station fd'" for fd fd' by (simp add: demo_station_def)
  define x1 where "x1 = demo_wire\<lparr>handle := demo_station demo_queued, packets := [[7, 8]]\<rparr>"
  define x2 where "x2 = x1\<lparr>handle := snd (snd demo_tx), on_line := [concat demo_bytes]\<rparr>"
  define y2 where "y2 = demo_wire\<lparr>handle := demo_rx\<rparr>"
  have st: "handle x1 = demo_station demo_queued" "handle x2 = snd (snd demo_tx)" "handle (x2\<lparr>on_line := []\<rparr>) = snd (snd demo_tx)" "handle y2 = demo_rx"
    by (simp_all add: x1_def x2_def y2_def)
  note up = wire_up_def fst_conv snd_conv st w(1) demo_station_tx(1) demo_connected demo_wire_run
  have "tiny_fd_send_packet_to (\<lambda>fd. fd) (\<lambda>fd. fd) (fd_of (handle demo_wire)) 0 [7, 8] 100 = (TINY_SUCCESS, demo_queued)"
    using demo_queued_ok by (simp add: w demo_station_tx)
  from wire_step.send_call [OF this, of HDLC_CRC_8 2 demo_wire] have "?step (demo_wire, demo_wire) (x1, demo_wire)"
    by (simp add: w x1_def user)
  then have r1: "?run (x1, demo_wire)" by (rule wire_more [OF wire_start]) (simp only: up)
  have "frame_room HDLC_CRC_8 2 \<le> 13" by (simp add: frame_room_def fcs_len_def)
  moreover have "tiny_fd_get_tx_data (handle x1) 13 = (fst demo_tx, concat demo_bytes, snd (snd demo_tx))"
    using demo_wire_run(1) by (simp add: demo_tx_def st(1) prod_eq_iff)
  ultimately have "?step (x1, demo_wire) (x2, demo_wire)"
    using wire_step.tx_call [of HDLC_CRC_8 2 13 x1 "fst demo_tx" "concat demo_bytes" "snd (snd demo_tx)" demo_wire]
    by (simp add: x2_def x1_def w demo_bytes_def)
  then have r2: "?run (x2, demo_wire)" by (rule wire_more [OF r1]) (simp only: up)
  have "on_line x2 = concat demo_bytes # []" by (simp add: x2_def)
  from wire_step.other_end [OF wire_step.rx_calls [OF this, of HDLC_CRC_8 2 demo_wire]]
  have "?step (x2, demo_wire) (x2\<lparr>on_line := []\<rparr>, y2)" by (simp add: y2_def w demo_rx_def)
  then have "?run (x2\<lparr>on_line := []\<rparr>, y2)" by (rule wire_more [OF r2]) (simp only: up)
  moreover have "x2\<lparr>on_line := []\<rparr> = demo_wire\<lparr>handle := snd (snd demo_tx), packets := [[7, 8]]\<rparr>"
    by (rule wire_side.equality) (simp_all add: x2_def x1_def w)
  ultimately show ?thesis by (simp add: y2_def)
qed

theorem fd_wire_delivers_witness:
  "\<exists>ds. reads (calls (fd_of demo_rx)) = reads (calls (station demo_side)) @ map (Pair 0) ds \<and> prefix ds [[7, 8]]"
  using fd_wire_delivers [OF demo_wire_fresh demo_wire_fresh demo_wire_session]
  by (auto simp: demo_wire_def demo_station_tx demo_wire_run)

end
