(* ===== verification/FdStall.thy ===== *)
theory FdStall
  imports FdWire
begin

unbundle bit_operations_syntax

section \<open>A confirmation that comes too late\<close>

text \<open>
  \<open>__i_queue_control_confirm_sent_frames\<close> moves the start of the window and leaves the number of the next frame to send where it
  is. When a station has gone back to repeat its frames and then gets their confirmation, before it has sent any of them again,
  the next number lies before the window. No frame has this number, so nothing is sent; not all frames are
  sent, so the timer for repetition does not start; the keep alive frames keep the connection.
\<close>

subsection \<open>What the receive handlers do to the next number\<close>

definition repeat_view :: "tiny_fd_peer_info \<Rightarrow> u8 \<times> u8" where
  "repeat_view x = (next_ns (i_queue_ctl x), srej_req_mask x)"

lemma repeat_upd:
  assumes "\<And>x. next_ns (i_queue_ctl (f x)) = next_ns (i_queue_ctl x)" "\<And>x. srej_req_mask (f x) = srej_req_mask x"
  shows "repeat_view (peer_of (upd_peer p f fd) q) = repeat_view (peer_of fd q)"
  using assms by (cases "unat p < length (peers fd)"; cases "unat q = unat p")
    (simp_all add: upd_peer_def peer_of_def list_update_beyond repeat_view_def)

lemma repeat_set:
  assumes "next_ns c = next_ns (ctl fd p)"
  shows "repeat_view (peer_of (upd_peer p (\<lambda>x. x\<lparr>i_queue_ctl := c\<rparr>) fd) q) = repeat_view (peer_of fd q)"
  using assms by (cases "unat p < length (peers fd)"; cases "unat q = unat p")
    (simp_all add: upd_peer_def peer_of_def list_update_beyond repeat_view_def)

lemma repeat_confirm: "repeat_view (peer_of (confirm_sent_frames fd p nr) q) = repeat_view (peer_of fd q)"
proof -
  have one: "repeat_view (peer_of fd' q) = repeat_view (peer_of fd q)" if "on_frame_confirmed p n fd = (r, fd')" for n fd r fd' q
  proof -
    have "repeat_view (peer_of (snd (on_frame_confirmed p n fd)) q) = repeat_view (peer_of fd q)"
      by (simp add: on_frame_confirmed_def Let_def repeat_upd split: option.split)
    then show ?thesis using that by simp
  qed
  have loop: "next_ns c' = next_ns c \<and> (\<forall>q. repeat_view (peer_of fd' q) = repeat_view (peer_of fd q))"
    if "confirm_loop (on_frame_confirmed p) nr fuel c fd = (c', fd')" for fuel c fd c' fd'
    using that
  proof (induction fuel arbitrary: c fd)
    case (Suc fuel)
    obtain r fd1 where cb: "on_frame_confirmed p (confirm_ns c) fd = (r, fd1)" by fastforce
    then show ?case using Suc.prems Suc.IH [of _ fd1] one [OF cb] by (auto split: if_splits)
  qed simp
  obtain c fd1 where l: "confirm_loop (on_frame_confirmed p) nr 8 (ctl fd p) fd = (c, fd1)" by fastforce
  note k = loop [OF l]
  have "next_ns c = next_ns (ctl fd1 p)" using k by (simp add: repeat_view_def)
  then show ?thesis using k
    by (simp add: confirm_sent_frames_def i_queue_control_confirm_sent_frames_def l Let_def repeat_upd repeat_set)
qed

lemma repeat_handlers:
  "repeat_view (peer_of (snd (on_i_frame_read fd p data)) q) = repeat_view (peer_of fd q)"
  "data ! 1 AND HDLC_S_FRAME_TYPE_MASK = HDLC_S_FRAME_TYPE_RR \<Longrightarrow>
    repeat_view (peer_of (snd (on_s_frame_read fd p data)) q) = repeat_view (peer_of fd q)"
proof -
  obtain r fd1 where c: "check_received_frame fd p (drop_bit 1 (data ! 1) AND 0x07) = (r, fd1)" by fastforce
  have "repeat_view (peer_of (snd (check_received_frame fd p (drop_bit 1 (data ! 1) AND 0x07))) q) = repeat_view (peer_of fd q)"
    by (simp add: check_received_frame_def Let_def repeat_upd state_put i_queue_control_move_to_next_frame_to_receive_def)
  then show "repeat_view (peer_of (snd (on_i_frame_read fd p data)) q) = repeat_view (peer_of fd q)"
    by (simp add: c [simplified] on_i_frame_read_def Let_def repeat_confirm state_put)
  show "data ! 1 AND HDLC_S_FRAME_TYPE_MASK = HDLC_S_FRAME_TYPE_RR \<Longrightarrow>
    repeat_view (peer_of (snd (on_s_frame_read fd p data)) q) = repeat_view (peer_of fd q)"
    by (simp add: on_s_frame_read_def Let_def repeat_confirm state_put hdlc_s_type_defs)
qed

text \<open>An I-frame, or RR.\<close>

definition i_or_rr :: "u8 list \<Rightarrow> bool" where
  "i_or_rr data \<longleftrightarrow> even (data ! 1) \<or>
     (data ! 1 AND HDLC_S_FRAME_MASK = HDLC_S_FRAME_BITS \<and> data ! 1 AND HDLC_S_FRAME_TYPE_MASK = HDLC_S_FRAME_TYPE_RR)"

lemma repeat_read:
  assumes "i_or_rr data"
  shows "repeat_view (peer_of (on_frame_read fd data) q) = repeat_view (peer_of fd q)"
proof -
  have u: "data ! 1 AND HDLC_U_FRAME_MASK \<noteq> HDLC_U_FRAME_MASK"
    using assms i_frame_bits(1) [of "data ! 1"]
    by (auto simp: i_or_rr_def HDLC_U_FRAME_MASK_def HDLC_S_FRAME_MASK_def HDLC_S_FRAME_BITS_def)
  have "repeat_view (peer_of (on_frame_read_by_type fd p data) q) = repeat_view (peer_of fd q)" for fd p
    using assms u i_frame_bits(2) [of "data ! 1"]
    by (auto simp: on_frame_read_by_type_def Let_def i_or_rr_def repeat_handlers state_put)
  then show ?thesis by (simp add: on_frame_read_def Let_def tiny_millis_def repeat_upd)
qed

subsection \<open>The station that has stalled\<close>

definition stalled :: "tiny_fd_data \<Rightarrow> bool" where
  "stalled fd \<longleftrightarrow> q_size (i_queue fd) < seq_dist (confirm_ns (ctl fd 0)) (next_ns (ctl fd 0))
     \<and> srej_req_mask (peer_of fd 0) = 0"

lemma stalled_next:
  assumes "registered fd 0" "stalled fd"
  shows "\<not> all_frames_are_sent (ctl fd 0)" "i_next (i_queue fd) (peer_to_address_field fd 0) (next_ns (ctl fd 0)) = None"
proof -
  note r = registeredD(1,2) [OF assms(1)]
  have iq: "iq_wf (i_queue fd)" using r(1) by (simp add: fd_wf_def)
  have pw: "peer_wf fd 0" using r by (simp add: fd_wf_def)
  then have c: "confirm_ns (ctl fd 0) < 8" "last_ns (ctl fd 0) < 8" "next_ns (ctl fd 0) < 8" by (simp_all add: peer_wf_def control_wf_def)
  have "seq_dist (confirm_ns (ctl fd 0)) (last_ns (ctl fd 0)) \<le> q_size (i_queue fd)"
    using pw i_lookup_card [OF iq, of "peer_to_address_field fd 0"] card_window [OF c(1,2)] by (simp add: peer_wf_def window_ok_def)
  then have d: "seq_dist (confirm_ns (ctl fd 0)) (last_ns (ctl fd 0)) < seq_dist (confirm_ns (ctl fd 0)) (next_ns (ctl fd 0))"
    using assms(2) by (simp add: stalled_def)
  then show "\<not> all_frames_are_sent (ctl fd 0)" by (auto simp: all_frames_are_sent_def)
  have "i_lookup (peer_to_address_field fd 0) (i_queue fd) (next_ns (ctl fd 0)) = None"
    using window_lookup [OF r c(3)] d by (simp add: tx_window_length)
  then show "i_next (i_queue fd) (peer_to_address_field fd 0) (next_ns (ctl fd 0)) = None"
    using i_next_lookup(1) [OF iq, of "peer_to_address_field fd 0" "next_ns (ctl fd 0)"] by simp
qed

lemma stalled_sends_nothing:
  assumes "station_rep a r0 fd E" "stalled fd"
  shows "tiny_fd_get_next_i_frame fd 0 a = (None, fd)"
proof -
  have up: "station_up a fd" using assms(1) by (simp add: station_rep_def)
  note reg = station_up_registered [OF up]
  have "peer_to_address_field fd 0 = a" "may_send_i fd 0" using up by (simp_all add: station_up_def may_send_i_def)
  then show ?thesis
    using get_next_i_frame_eq [OF registeredD(4) [OF reg], of a] stalled_next(2) [OF reg assms(2)] assms(2) by (simp add: stalled_def)
qed

subsection \<open>Everything that can happen to it\<close>

text \<open>
  A frame of the other station, an I-frame or RR, that confirms at most \<open>w\<close> frames from the number on that \<open>fd\<close> would send next, and no less than what is
  confirmed already.
\<close>

definition addressed :: "tiny_fd_data \<Rightarrow> u8 list \<Rightarrow> bool" where
  "addressed fd data \<longleftrightarrow> 2 \<le> length data \<and> i_or_rr data
     \<and> (data ! 0 = peer_to_address_field fd 0 \<or> odd (data ! 1) \<and> data ! 0 AND NOT HDLC_CR_BIT = peer_to_address_field fd 0 AND NOT HDLC_CR_BIT)"

definition confirms_sent :: "nat \<Rightarrow> tiny_fd_data \<Rightarrow> u8 list \<Rightarrow> bool" where
  "confirms_sent w fd data \<longleftrightarrow> addressed fd data \<and>
     seq_dist (next_ns (ctl fd 0)) (confirm_ns (ctl fd 0)) \<le> seq_dist (next_ns (ctl fd 0)) (drop_bit 5 (data ! 1)) \<and>
     seq_dist (next_ns (ctl fd 0)) (drop_bit 5 (data ! 1)) \<le> w"

inductive own_step :: "nat \<Rightarrow> tiny_fd_data \<Rightarrow> u8 list list \<Rightarrow> tiny_fd_data \<Rightarrow> bool" for w where
  own_packet: "tiny_fd_send_packet_to (\<lambda>fd. fd) (\<lambda>fd. fd) fd address data timeout = (r, fd') \<Longrightarrow> own_step w fd [] fd'"
| own_timeouts: "own_step w fd [] (check_idle_timeout fd 0)"
| own_transmit: "send_frame fd = (fs, fd') \<Longrightarrow> own_step w fd fs fd'"
| own_receive: "confirms_sent w fd data \<Longrightarrow> own_step w fd [] (on_frame_read fd data)"

inductive own_run :: "nat \<Rightarrow> tiny_fd_data \<Rightarrow> u8 list list \<Rightarrow> tiny_fd_data \<Rightarrow> bool" for w fd0 where
  own_start: "own_run w fd0 [] fd0"
| own_more: "own_run w fd0 fs fd \<Longrightarrow> own_step w fd gs fd' \<Longrightarrow> p_state (peer_of fd' 0) = TINY_FD_STATE_CONNECTED \<Longrightarrow> own_run w fd0 (fs @ gs) fd'"

text \<open>
  It stays as it is: the next number is that of the packet \<open>n\<close>, which is confirmed, and more than the packets accepted before
  are not confirmed. \<open>E\<close> is the state of the abstract end before the confirmation came.
\<close>

definition holds :: "u8 \<Rightarrow> (u8 \<times> u8 list) list \<Rightarrow> u8 list endpoint \<Rightarrow> nat \<Rightarrow> u8 list endpoint \<Rightarrow> tiny_fd_data \<Rightarrow> bool" where
  "holds a r0 E n F fd \<longleftrightarrow> station_rep a r0 fd F \<and> repeat_view (peer_of fd 0) = (seq_of n, 0)
     \<and> q_size (i_queue fd) + length (accepted E) < n + 8 \<and> prefix (accepted E) (accepted F)
     \<and> n < confirmed F \<and> confirmed F \<le> length (accepted E)"

definition stays :: "u8 \<Rightarrow> (u8 \<times> u8 list) list \<Rightarrow> u8 list endpoint \<Rightarrow> nat \<Rightarrow> tiny_fd_data \<Rightarrow> bool" where
  "stays a r0 E n fd \<longleftrightarrow> (\<exists>F. holds a r0 E n F fd)"

lemma seq_dist_apart: "m \<le> n \<Longrightarrow> n < m + 8 \<Longrightarrow> seq_dist (seq_of m) (seq_of n) = n - m"
  using seq_dist_seq_of [of "n - m" m] by simp

lemma holds_stalled:
  assumes "holds a r0 E n F fd"
  shows "stalled fd" "station_rep a r0 fd F"
proof -
  note h = assms [unfolded holds_def]
  show "station_rep a r0 fd F" using h by simp
  have c: "confirm_ns (ctl fd 0) = seq_of (confirmed F)" "next_ns (ctl fd 0) = seq_of (n + 8)" "srej_req_mask (peer_of fd 0) = 0"
    using h by (simp_all add: station_rep_def repeat_view_def seq_of_def)
  have "seq_dist (seq_of (confirmed F)) (seq_of (n + 8)) = n + 8 - confirmed F" using h by (intro seq_dist_apart) linarith+
  moreover have "q_size (i_queue fd) < n + 8 - confirmed F" using h by linarith
  ultimately show "stalled fd" using c by (simp add: stalled_def)
qed

lemma holds_rep:
  assumes "holds a r0 E n F fd" "station_rep a r0 fd' F'" "prefix (accepted F) (accepted F')"
    and "confirmed F \<le> confirmed F'" "confirmed F' \<le> length (accepted E)"
    and "repeat_view (peer_of fd' 0) = repeat_view (peer_of fd 0)" "fixed_slots (i_queue fd) (i_queue fd')"
  shows "stays a r0 E n fd'"
proof -
  have "q_size (i_queue fd') = q_size (i_queue fd)" using assms(7) by (metis fixed_slots_def length_map)
  then have "holds a r0 E n F' fd'"
    using assms(1-6) prefix_order.trans [of "accepted E" "accepted F" "accepted F'"] by (simp add: holds_def)
  then show ?thesis by (auto simp: stays_def)
qed

lemma holds_same:
  assumes "holds a r0 E n F fd" "station_rep a r0 fd' F'" "confirmed F' = confirmed F" "prefix (accepted F) (accepted F')"
    and "repeat_view (peer_of fd' 0) = repeat_view (peer_of fd 0)" "fixed_slots (i_queue fd) (i_queue fd')"
  shows "stays a r0 E n fd'"
  using holds_rep [OF assms(1,2,4) _ _ assms(5,6)] assms(1,3) by (simp add: holds_def)

lemma repeat_send_packet:
  "repeat_view (peer_of (snd (tiny_fd_send_packet_to (\<lambda>fd. fd) (\<lambda>fd. fd) fd address data timeout)) q) = repeat_view (peer_of fd q)"
proof -
  have put: "repeat_view (peer_of (snd (put_i_frame_to_tx_queue fd p data)) q) = repeat_view (peer_of fd q)" for fd p
    by (simp add: put_i_frame_to_tx_queue_def Let_def repeat_upd split: option.split prod.split)
  have waits: "repeat_view (peer_of (snd (wait_peer_events (\<lambda>fd. fd) t p b c fd)) q) = repeat_view (peer_of fd q)"
    "peer_of (snd (wait_fd_events (\<lambda>fd. fd) t b c fd)) q = peer_of fd q" for t p b c fd
    by (simp_all add: wait_peer_events_def wait_fd_events_def wait_events_def Let_def repeat_upd split: prod.split)
  define p where "p = target_peer fd address"
  obtain acc fd1 where 1: "wait_peer_events (\<lambda>fd. fd) timeout p FD_EVENT_CAN_ACCEPT_I_FRAMES True (fd\<lparr>ticks := Suc (ticks fd)\<rparr>) = (acc, fd1)" by fastforce
  define d where "d = clock fd1 (ticks fd1) - clock fd (ticks fd)"
  define t where "t = (if timeout > d then timeout - d else 0)"
  obtain free fd2 where 2: "wait_fd_events (\<lambda>fd. fd) t FD_EVENT_QUEUE_HAS_FREE_SLOTS True (fd1\<lparr>ticks := Suc (ticks fd1)\<rparr>) = (free, fd2)" by fastforce
  obtain ok fd3 where 3: "put_i_frame_to_tx_queue fd2 p data = (ok, fd3)" by fastforce
  have "repeat_view (peer_of fd1 q) = repeat_view (peer_of fd q)" "peer_of fd2 q = peer_of fd1 q" "repeat_view (peer_of fd3 q) = repeat_view (peer_of fd2 q)"
    using waits(1) [of timeout p FD_EVENT_CAN_ACCEPT_I_FRAMES True "fd\<lparr>ticks := Suc (ticks fd)\<rparr>"] 1
      waits(2) [of t FD_EVENT_QUEUE_HAS_FREE_SLOTS True "fd1\<lparr>ticks := Suc (ticks fd1)\<rparr>"] 2 put [of fd2 p] 3 by simp_all
  then show ?thesis
    using 1 2 [unfolded t_def] 3
    by (cases "timeout > d") (simp_all add: tiny_fd_send_packet_to_def Let_def tiny_millis_def set_peer_events_def repeat_upd
        flip: p_def d_def)
qed

lemma stays_packet:
  assumes "holds a r0 E n F fd" "tiny_fd_send_packet_to (\<lambda>fd. fd) (\<lambda>fd. fd) fd address data timeout = (r, fd')"
  shows "stays a r0 E n fd'"
proof -
  note h = holds_stalled [OF assms(1)]
  have "repeat_view (peer_of fd' 0) = repeat_view (peer_of fd 0)" using repeat_send_packet assms(2) by (metis snd_conv)
  moreover have "in_place fd fd'" using in_place_send_packet assms(2) by (metis snd_conv)
  moreover note send_packet_keeps [OF h(2) assms(2)]
  ultimately show ?thesis
    using holds_same [OF assms(1), of fd' F] holds_same [OF assms(1), of fd' "F\<lparr>accepted := accepted F @ [data]\<rparr>"]
    by (auto simp: in_place_def split: if_splits)
qed

lemma stays_timeouts:
  assumes "holds a r0 E n F fd" "p_state (peer_of (check_idle_timeout fd 0) 0) = TINY_FD_STATE_CONNECTED"
  shows "stays a r0 E n (check_idle_timeout fd 0)"
proof -
  note h = holds_stalled [OF assms(1)]
  have reg: "registered fd 0" using station_rep_registered [OF h(2)] .
  have na: "\<not> all_frames_are_sent (ctl fd 0)" using stalled_next(1) [OF reg h(1)] .
  have up: "p_state (peer_of fd 0) = TINY_FD_STATE_CONNECTED" using station_rep_up [OF h(2)] .
  have off: "p_state (peer_of (switch_to_disconnected_state (fd\<lparr>ticks := t\<rparr>) 0) 0) = TINY_FD_STATE_DISCONNECTED" for t
  proof -
    have "registered (fd\<lparr>ticks := t\<rparr>) 0" using keeps_registered [OF keeps_events(4) [OF keeps_refl [OF registeredD(1) [OF reg]]] reg] .
    then show ?thesis by (rule switch_ops(2))
  qed
  have "repeat_view (peer_of (check_idle_timeout fd 0) 0) = repeat_view (peer_of fd 0)"
    using assms(2) na up off
    by (simp add: check_idle_timeout_def tiny_fd_connected_check_idle_timeout_def Let_def tiny_millis_def
        time_passed_since_last_frame_received_def time_passed_since_last_frame_sent_def repeat_upd state_put split: if_splits)
  then show ?thesis
    using idle_keeps [OF h(2) assms(2)] in_place_idle [of fd 0]
      holds_same [OF assms(1), of "check_idle_timeout fd 0" F] holds_same [OF assms(1), of "check_idle_timeout fd 0" "F\<lparr>queued := queued F @ [length (got F)]\<rparr>"]
    by (auto simp: in_place_def)
qed

text \<open>Every frame that confirms no more than what is accepted.\<close>

lemma receive_confirming:
  assumes "station_rep a r0 fd F" "addressed fd data" "drop_bit 5 (data ! 1) = seq_of r" "confirmed F \<le> r" "r \<le> length (accepted F)"
  obtains F' where "station_rep a r0 (on_frame_read fd data) F'" "confirmed F' = r" "accepted F' = accepted F"
proof -
  note n = assms(2) [unfolded addressed_def]
  have a: "peer_to_address_field fd 0 = a" using assms(1) by (simp add: station_rep_def station_up_def)
  have "\<exists>F'. station_rep a r0 (on_frame_read fd data) F' \<and> confirmed F' = r \<and> accepted F' = accepted F"
  proof (cases "even (data ! 1)")
    case True
    define d where "d = seq_dist (seq_of (length (got F))) (drop_bit 1 (data ! 1) AND 7)"
    have "drop_bit 1 (data ! 1) AND 7 = seq_of (length (got F) + d)"
      using seq_add_dist [OF seq_of_less and_7_less, of "length (got F)" "drop_bit 1 (data ! 1)"] by (simp add: d_def seq_add_seq_of)
    then have i: "i_frame a (length (got F) + d) (drop 2 data) data" using n True a by (simp add: i_frame_def seq_of_def)
    have "d < 8" by (simp add: d_def)
    then show ?thesis
      using receive_i_packet [OF assms(1) i assms(3-5)] by (auto simp: intro: exI)
  next
    case False
    then have "service_packet a r data" using n assms(3) a by (auto simp: service_packet_def s_frame_def i_or_rr_def)
    from receive_s_packet [OF assms(1) this assms(4,5)] show ?thesis by (auto intro: exI)
  qed
  then show thesis using that by blast
qed

lemma read_in_place:
  assumes "addressed fd data"
  shows "repeat_view (peer_of (on_frame_read fd data) q) = repeat_view (peer_of fd q)" "fixed_slots (i_queue fd) (i_queue (on_frame_read fd data))"
  using repeat_read assms in_place_read [of fd data] by (auto simp: addressed_def in_place_def)

lemma stays_receive:
  assumes "holds a r0 E n F fd" "confirms_sent w fd data" "n + w = length (accepted E)"
  shows "stays a r0 E n (on_frame_read fd data)"
proof -
  note h = assms(1) [unfolded holds_def]
  have ad: "addressed fd data" using assms(2) by (simp add: confirms_sent_def)
  define r where "r = n + seq_dist (seq_of n) (drop_bit 5 (data ! 1))"
  have nr: "drop_bit 5 (data ! 1) = seq_of r"
    using seq_add_dist [OF seq_of_less nr_less_8, of n "data ! 1"] by (simp add: r_def seq_add_seq_of)
  have c: "next_ns (ctl fd 0) = seq_of n" "confirm_ns (ctl fd 0) = seq_of (confirmed F)"
    using h by (simp_all add: repeat_view_def station_rep_def)
  have "seq_dist (seq_of n) (seq_of (confirmed F)) = confirmed F - n" using h by (intro seq_dist_apart) linarith+
  then have "confirmed F - n \<le> r - n" "r - n \<le> w" using assms(2) c by (simp_all add: confirms_sent_def r_def)
  then have r: "confirmed F \<le> r" "r \<le> length (accepted E)" using assms(3) h unfolding r_def by linarith+
  have "r \<le> length (accepted F)" using r(2) h prefix_length_le [of "accepted E" "accepted F"] by linarith
  then obtain F' where F': "station_rep a r0 (on_frame_read fd data) F'" "confirmed F' = r" "accepted F' = accepted F"
    using receive_confirming [OF holds_stalled(2) [OF assms(1)] ad nr r(1)] by blast
  show ?thesis using holds_rep [OF assms(1) F'(1) _ _ _ read_in_place [OF ad]] F'(2,3) r by simp
qed

lemma s_odd: "c AND HDLC_S_FRAME_MASK = HDLC_S_FRAME_BITS \<Longrightarrow> odd (c :: u8)"
proof -
  assume "c AND HDLC_S_FRAME_MASK = HDLC_S_FRAME_BITS"
  then have "bit (c AND HDLC_S_FRAME_MASK) 0" by (simp add: HDLC_S_FRAME_BITS_def)
  then have "bit c 0" by (simp add: bit_and_iff)
  then show "odd c" by (simp add: bit_0)
qed

lemma repeat_on_send:
  "fd_mode (on_frame_send fd header data) = fd_mode fd"
  "fd_mode fd \<noteq> TINY_FD_MODE_NRM \<Longrightarrow> peer_of (on_frame_send fd header data) q = peer_of fd q"
  by (simp_all add: on_frame_send_def Let_def switch_to_next_peer_def clear_events_def)

lemma stays_transmit:
  assumes "holds a r0 E n F fd" "send_frame fd = (fs, fd')"
  shows "stays a r0 E n fd' \<and> (\<forall>f \<in> set fs. odd (f ! 1))"
proof -
  note h = holds_stalled [OF assms(1)]
  obtain action fd1 where c: "tx_choose fd 0 = (action, fd1)" by fastforce
  note slots = in_place_tx_choose [OF c]
  have st: "stalled (fd\<lparr>events := e\<rparr>)" for e using h(1) by (simp add: stalled_def)
  have rp: "station_rep a r0 (fd\<lparr>events := e\<rparr>) F" for e using station_rep_fields [OF h(2), where e = e and t = "ticks fd"] by simp
  have sent: "repeat_view (peer_of (sent_frame fd2 0 r) 0) = repeat_view (peer_of fd2 0)" for fd2 r
    by (simp add: sent_frame_def Let_def repeat_upd log_keeps_queues mark_poll_def)
  have none: ?thesis
    if "\<And>r. action \<noteq> Put_frame r" "station_rep a r0 fd1 F" "repeat_view (peer_of fd1 0) = repeat_view (peer_of fd 0)"
  proof -
    have "fs = []" "fd' = fd1" using assms(2) c that(1) by (auto simp: send_frame_def split: tx_action.splits)
    then show ?thesis using holds_same [OF assms(1) that(2) HOL.refl prefix_order.refl that(3) slots(1)] by simp
  qed
  show ?thesis
  proof (rule tx_choose_cases [OF c])
    fix e t assume "\<And>r. action \<noteq> Put_frame r" "fd1 = fd\<lparr>events := e, ticks := t\<rparr>"
    then show ?thesis using none station_rep_fields [OF h(2), where e = e and t = t] by simp
  next
    fix e assume n: "\<And>r. action \<noteq> Put_frame r" "choose_frame (fd\<lparr>events := e\<rparr>) 0 = (None, fd1)"
    then have "waiting (s_queue (fd\<lparr>events := e\<rparr>)) = []" using choose_service(3) [OF rp _ n(2)] by (meson neq_Nil_conv option.distinct(1))
    then have "fd1 = fd\<lparr>events := e\<rparr>" using choose_none [OF rp] stalled_sends_nothing [OF rp st] n(2) by simp
    then show ?thesis using none n(1) rp by simp
  next
    fix e e' r fd2 assume p: "action = Put_frame r" "choose_frame (fd\<lparr>events := e\<rparr>) 0 = (Some r, fd2)" "fd1 = (sent_frame fd2 0 r)\<lparr>events := e'\<rparr>"
    have "waiting (s_queue (fd\<lparr>events := e\<rparr>)) \<noteq> []" using choose_none [OF rp] stalled_sends_nothing [OF rp st] p(2) by (auto split: prod.splits)
    then obtain f gs where w: "waiting (s_queue (fd\<lparr>events := e\<rparr>)) = f # gs" by (meson neq_Nil_conv)
    have "repeat_view (peer_of fd2 0) = repeat_view (peer_of fd 0)"
      using choose_service(6) [OF rp w p(2)]
      by (auto simp: tiny_fd_get_next_s_u_frame_to_send_def Let_def repeat_upd split: option.splits if_splits)
    moreover note ss = send_service [OF rp w p(2), of e', folded p(3)]
    have fs: "fs = [frame_bytes (frame_at fd1 r)]" "fd' = on_frame_send fd1 (f_header (frame_at fd1 r)) (frame_bytes (frame_at fd1 r))"
      using assms(2) c p(1) by (auto simp: send_frame_def)
    obtain n ns where rep': "packet_frame a (S_packet n) (frame_bytes (frame_at fd1 r))" "station_rep a r0 fd' (F\<lparr>queued := ns\<rparr>)"
      using ss by (auto simp: fs)
    have "fd_mode fd' = TINY_FD_MODE_ABM" using rep'(2) by (simp add: station_rep_def station_up_def)
    then have "fd_mode fd1 \<noteq> TINY_FD_MODE_NRM" by (simp add: fs repeat_on_send TINY_FD_MODE_ABM_def TINY_FD_MODE_NRM_def)
    then have "repeat_view (peer_of fd' 0) = repeat_view (peer_of (sent_frame fd2 0 r) 0)" by (simp add: fs repeat_on_send p(3))
    ultimately have "repeat_view (peer_of fd' 0) = repeat_view (peer_of fd 0)" using sent by simp
    moreover have "fixed_slots (i_queue fd) (i_queue fd')"
      using fixed_slots_trans [OF slots(1)] in_place_send [of fd1] by (simp add: in_place_def fs)
    ultimately show ?thesis
      using holds_same [OF assms(1) rep'(2)] rep'(1) s_odd by (auto simp: fs service_packet_def s_frame_def)
  qed
qed

lemma stays_step:
  assumes "own_step w fd gs fd'" "stays a r0 E n fd" "n + w = length (accepted E)" "p_state (peer_of fd' 0) = TINY_FD_STATE_CONNECTED"
  shows "stays a r0 E n fd' \<and> (\<forall>f \<in> set gs. odd (f ! 1))"
proof -
  obtain F where F: "holds a r0 E n F fd" using assms(2) by (auto simp: stays_def)
  show ?thesis
    using assms(1)
  proof cases
    case (own_packet address data timeout r)
    then show ?thesis using stays_packet [OF F] by simp
  next
    case own_timeouts
    then show ?thesis using stays_timeouts [OF F] assms(4) by simp
  next
    case own_transmit
    then show ?thesis using stays_transmit [OF F] by simp
  next
    case (own_receive data)
    then show ?thesis using stays_receive [OF F _ assms(3)] by simp
  qed
qed

lemma stays_run:
  assumes "own_run w fd0 fs fd" "stays a r0 E n fd0" "n + w = length (accepted E)"
  shows "stays a r0 E n fd \<and> (\<forall>f \<in> set fs. odd (f ! 1))"
  using assms(1)
proof (induction rule: own_run.induct)
  case (own_more fs fd gs fd')
  then show ?case using stays_step [of w fd gs fd' a r0 E n] assms(3) by auto
qed (simp add: assms(2))

text \<open>The confirmation that comes too late.\<close>

lemma late_ack_stays:
  assumes "station_rep a r0 fd E" "addressed fd data" "srej_req_mask (peer_of fd 0) = 0"
  defines "d \<equiv> seq_dist (confirm_ns (ctl fd 0)) (next_ns (ctl fd 0))"
  defines "m \<equiv> seq_dist (confirm_ns (ctl fd 0)) (drop_bit 5 (data ! 1))"
  assumes "d < m" "m \<le> length (tx_window fd 0)" "q_size (i_queue fd) + (length (tx_window fd 0) - d) < 8"
  shows "stays a r0 E (confirmed E + d) (on_frame_read fd data)" "confirmed E + d + (length (tx_window fd 0) - d) = length (accepted E)"
proof -
  have rep: "confirm_ns (ctl fd 0) = seq_of (confirmed E)" "tx_window fd 0 = drop (confirmed E) (accepted E)" "confirmed E \<le> length (accepted E)"
    using assms(1) by (simp_all add: station_rep_def)
  note r = registeredD(1,2) [OF station_rep_registered [OF assms(1)]]
  have "next_ns (ctl fd 0) < 8" using r by (simp add: fd_wf_def peer_wf_def control_wf_def)
  then have n: "next_ns (ctl fd 0) = seq_of (confirmed E + d)"
    using seq_add_dist [OF seq_of_less, of "next_ns (ctl fd 0)" "confirmed E"] by (simp add: d_def rep(1) seq_add_seq_of)
  have nr: "drop_bit 5 (data ! 1) = seq_of (confirmed E + m)"
    using seq_add_dist [OF seq_of_less nr_less_8, of "confirmed E" "data ! 1"] by (simp add: m_def rep(1) seq_add_seq_of)
  have m: "confirmed E + m \<le> length (accepted E)" using assms(7) rep(2,3) by simp
  obtain F' where F': "station_rep a r0 (on_frame_read fd data) F'" "confirmed F' = confirmed E + m" "accepted F' = accepted E"
    using receive_confirming [OF assms(1,2) nr le_add1 m] by blast
  note k = read_in_place [OF assms(2)]
  have "q_size (i_queue (on_frame_read fd data)) = q_size (i_queue fd)" using k(2) by (metis fixed_slots_def length_map)
  then have "holds a r0 E (confirmed E + d) F' (on_frame_read fd data)"
    using F' k(1) [of 0] n m assms(3,6-8) rep(2,3) by (simp add: holds_def repeat_view_def)
  then show "stays a r0 E (confirmed E + d) (on_frame_read fd data)" by (auto simp: stays_def)
  show "confirmed E + d + (length (tx_window fd 0) - d) = length (accepted E)" using assms(6,7) rep(2,3) by simp
qed

subsection \<open>The property\<close>

text \<open>
  C31: A confirmation that arrives after the timeout for repetition, before the frame is sent again, can stop a station. In a session of two
  stations, from two fresh ends, let \<open>x\<close> have gone back to repeat the frames of its window: the number it sends next is the one of the packet at position
  \<open>d\<close> of the window (0 right after the timeout), and it has no request for single frames. Now an I-frame or RR comes that confirms more than
  \<open>d\<close> packets of the window, and the queue is not so large that the numbers meet again: the slots and the packets of the window from
  position \<open>d\<close> on are fewer than 8, which is always so with up to 3 slots. Then, whatever the application, the timeouts and the transmitter do, and whichever
  I-frames and RR come that confirm no more than the packets of that window, for as long as the connection lasts, \<open>x\<close> sends
  frames with an odd control byte only, that is no I-frame: there is none it may send, and the condition for the timer for repetition does not hold. What was in the window and is not confirmed stays
  there. A received REJ, or a connection that ends, is outside of this.
\<close>

theorem late_ack_stalls:
  assumes "fresh_side a x0" "fresh_side a y0" "session (x0, y0) (x, y)"
    and "addressed (station x) data" "srej_req_mask (peer_of (station x) 0) = 0"
    and "d = seq_dist (confirm_ns (ctl (station x) 0)) (next_ns (ctl (station x) 0))"
    and "d < seq_dist (confirm_ns (ctl (station x) 0)) (drop_bit 5 (data ! 1))"
    and "seq_dist (confirm_ns (ctl (station x) 0)) (drop_bit 5 (data ! 1)) \<le> length (tx_window (station x) 0)"
    and "q_size (i_queue (station x)) + (length (tx_window (station x) 0) - d) < 8"
    and "own_run (length (tx_window (station x) 0) - d) (on_frame_read (station x) data) fs fd"
  shows "(\<forall>f \<in> set fs. odd (f ! 1)) \<and> tiny_fd_get_next_i_frame fd 0 a = (None, fd) \<and> \<not> all_frames_are_sent (ctl fd 0)
    \<and> (\<exists>i \<le> length (tx_window (station x) 0). prefix (drop i (tx_window (station x) 0)) (tx_window fd 0))"
proof -
  have "session_rep a (reads (calls (station x0)), reads (calls (station y0))) (x0, y0) (empty_end, empty_end)"
    using fresh_side_rep assms(1,2) by (simp add: session_rep_def)
  from session_simulates [OF assms(3) this empty_ends] obtain E r where E: "station_rep a r (station x) E"
    by (auto simp: session_rep_def side_rep_def)
  note l = late_ack_stays [OF E assms(4,5), folded assms(6), OF assms(7-9)]
  note s = stays_run [OF assms(10) l]
  then obtain F where F: "holds a r E (confirmed E + d) F fd" by (auto simp: stays_def)
  note h = F [unfolded holds_def] and f = holds_stalled [OF F]
  obtain zs where zs: "accepted F = accepted E @ zs" using h by (auto simp: prefix_def)
  define i where "i = confirmed F - confirmed E"
  have w: "tx_window (station x) 0 = drop (confirmed E) (accepted E)" "tx_window fd 0 = drop (confirmed F) (accepted F)"
    using E h by (simp_all add: station_rep_def)
  have i: "i \<le> length (tx_window (station x) 0)" "confirmed F = i + confirmed E" using h by (auto simp: i_def w(1) intro: diff_le_mono)
  have "prefix (drop i (tx_window (station x) 0)) (tx_window fd 0)" using h i by (simp add: w zs)
  then show ?thesis
    using s i(1) stalled_sends_nothing [OF f(2,1)] stalled_next(1) [OF station_rep_registered [OF f(2)] f(1)] by blast
qed

subsection \<open>A station that stalls\<close>

text \<open>
  The first packet goes out and is received; its confirmation arrives when the station has just gone back to repeat it; then the application
  gives the second packet. The clock of this station advances by 100 ms with each call.
\<close>

definition slow_side :: fd_side where
  "slow_side = demo_side\<lparr>station := (station demo_side)\<lparr>clock := \<lambda>n. of_nat (100 * n)\<rparr>\<rparr>"

definition slow_packet :: tiny_fd_data where
  "slow_packet = snd (tiny_fd_send_packet_to (\<lambda>fd. fd) (\<lambda>fd. fd) (station slow_side) 0 [7, 8] 100)"

definition slow_sent :: tiny_fd_data where
  "slow_sent = snd (send_frame slow_packet)"

definition fast_got :: tiny_fd_data where
  "fast_got = on_frame_read (station demo_side) [1, 0, 7, 8]"

definition fast_sent :: tiny_fd_data where
  "fast_sent = snd (send_frame fast_got)"

definition slow_back :: tiny_fd_data where
  "slow_back = check_idle_timeout slow_sent 0"

definition slow_confirmed :: tiny_fd_data where
  "slow_confirmed = on_frame_read slow_back [1, 33]"

definition slow_stalled :: tiny_fd_data where
  "slow_stalled = snd (tiny_fd_send_packet_to (\<lambda>fd. fd) (\<lambda>fd. fd) slow_confirmed 0 [9] 100)"

definition slow_later :: tiny_fd_data where
  "slow_later = snd (send_frame (check_idle_timeout slow_stalled 0))"

lemma slow_side_fresh: "fresh_side 1 slow_side"
proof -
  have "fd_wf (station slow_side)"
    using demo_side_fresh fd_wf_cong [of "station slow_side" "station demo_side"]
    by (simp add: fresh_side_def station_up_def slow_side_def peer_of_def)
  moreover have "address_field_to_peer (station slow_side) 1 = 0" by code_simp
  moreover have "tx_window (station slow_side) 0 = []" by code_simp
  moreover have "peer_to_address_field (station slow_side) 0 = 1" by code_simp
  ultimately show ?thesis using demo_side_fresh by (simp add: fresh_side_def station_up_def slow_side_def peer_of_def)
qed

lemma slow_late:
  "addressed slow_back [1, 33]" "srej_req_mask (peer_of slow_back 0) = 0"
  "0 = seq_dist (confirm_ns (ctl slow_back 0)) (next_ns (ctl slow_back 0))"
  "0 < seq_dist (confirm_ns (ctl slow_back 0)) (drop_bit 5 ([1, 33] ! 1))"
  "seq_dist (confirm_ns (ctl slow_back 0)) (drop_bit 5 ([1, 33] ! 1)) \<le> length (tx_window slow_back 0)"
  "q_size (i_queue slow_back) + (length (tx_window slow_back 0) - 0) < 8"
proof -
  have "peer_to_address_field slow_back 0 = 1" by code_simp
  then show "addressed slow_back [1, 33]"
    by (simp add: addressed_def i_or_rr_def hdlc_s_type_defs HDLC_S_FRAME_MASK_def HDLC_S_FRAME_BITS_def HDLC_S_FRAME_TYPE_MASK_def)
  show "srej_req_mask (peer_of slow_back 0) = 0" by code_simp
  show "0 = seq_dist (confirm_ns (ctl slow_back 0)) (next_ns (ctl slow_back 0))" by code_simp
  show "0 < seq_dist (confirm_ns (ctl slow_back 0)) (drop_bit 5 ([1, 33] ! 1))" by code_simp
  show "seq_dist (confirm_ns (ctl slow_back 0)) (drop_bit 5 ([1, 33] ! 1)) \<le> length (tx_window slow_back 0)" by code_simp
  show "q_size (i_queue slow_back) + (length (tx_window slow_back 0) - 0) < 8" by code_simp
qed

lemma slow_results:
  "fst (tiny_fd_send_packet_to (\<lambda>fd. fd) (\<lambda>fd. fd) (station slow_side) 0 [7, 8] 100) = TINY_SUCCESS"
  "fst (send_frame slow_packet) = [[1, 0, 7, 8]]"
  "fst (send_frame fast_got) = [[1, 33]]"
  "fst (tiny_fd_send_packet_to (\<lambda>fd. fd) (\<lambda>fd. fd) slow_confirmed 0 [9] 100) = TINY_SUCCESS"
  "tx_window slow_later 0 = [[9]]"
  "fst (send_frame (check_idle_timeout slow_stalled 0)) = []"
proof -
  show "fst (tiny_fd_send_packet_to (\<lambda>fd. fd) (\<lambda>fd. fd) (station slow_side) 0 [7, 8] 100) = TINY_SUCCESS" by code_simp
  show "fst (send_frame slow_packet) = [[1, 0, 7, 8]]" by code_simp
  show "fst (send_frame fast_got) = [[1, 33]]" by code_simp
  show "fst (tiny_fd_send_packet_to (\<lambda>fd. fd) (\<lambda>fd. fd) slow_confirmed 0 [9] 100) = TINY_SUCCESS" by code_simp
  show "tx_window slow_later 0 = [[9]]" by code_simp
  show "fst (send_frame (check_idle_timeout slow_stalled 0)) = []" by code_simp
qed

lemma slow_connected:
  "\<forall>fd \<in> set [slow_packet, slow_sent, fast_got, fast_sent, slow_back, slow_confirmed, slow_stalled,
     check_idle_timeout slow_stalled 0, slow_later]. p_state (peer_of fd 0) = TINY_FD_STATE_CONNECTED"
  by code_simp

lemma explicit_steps:
  "tiny_fd_send_packet_to (\<lambda>fd. fd) (\<lambda>fd. fd) fd address data timeout = (TINY_SUCCESS, fd') \<Longrightarrow>
    session_step (\<lparr>station = fd, taken = ts, wire = ws\<rparr>, y) (\<lparr>station = fd', taken = ts @ [data], wire = ws\<rparr>, y)"
  "session_step (\<lparr>station = fd, taken = ts, wire = ws\<rparr>, y) (\<lparr>station = check_idle_timeout fd 0, taken = ts, wire = ws\<rparr>, y)"
  "send_frame fd = (fs, fd') \<Longrightarrow>
    session_step (\<lparr>station = fd, taken = ts, wire = ws\<rparr>, y) (\<lparr>station = fd', taken = ts, wire = ws @ fs\<rparr>, y)"
  "session_step (\<lparr>station = fd, taken = ts, wire = ws\<rparr>, \<lparr>station = gd, taken = us, wire = f # vs\<rparr>)
    (\<lparr>station = on_frame_read fd f, taken = ts, wire = ws\<rparr>, \<lparr>station = gd, taken = us, wire = vs\<rparr>)"
  using session_step.packet [of "\<lparr>station = fd, taken = ts, wire = ws\<rparr>" address data timeout TINY_SUCCESS fd' y]
    session_step.timeouts [of "\<lparr>station = fd, taken = ts, wire = ws\<rparr>" y]
    session_step.transmit [of "\<lparr>station = fd, taken = ts, wire = ws\<rparr>" fs fd' y]
    session_step.receive_frame [of "\<lparr>station = gd, taken = us, wire = f # vs\<rparr>" f vs "\<lparr>station = fd, taken = ts, wire = ws\<rparr>"]
  by simp_all

lemma slow_session:
  "session (slow_side, demo_side)
     (\<lparr>station = slow_back, taken = [[7, 8]], wire = []\<rparr>, \<lparr>station = fast_sent, taken = [], wire = [[1, 33]]\<rparr>)"
proof -
  have up: "p_state (peer_of slow_packet 0) = TINY_FD_STATE_CONNECTED" "p_state (peer_of slow_sent 0) = TINY_FD_STATE_CONNECTED"
    "p_state (peer_of fast_got 0) = TINY_FD_STATE_CONNECTED" "p_state (peer_of fast_sent 0) = TINY_FD_STATE_CONNECTED"
    "p_state (peer_of slow_back 0) = TINY_FD_STATE_CONNECTED" "p_state (peer_of slow_confirmed 0) = TINY_FD_STATE_CONNECTED"
    "p_state (peer_of slow_stalled 0) = TINY_FD_STATE_CONNECTED" "p_state (peer_of (station demo_side) 0) = TINY_FD_STATE_CONNECTED"
    using slow_connected demo_connected(1) by simp_all
  have sends: "tiny_fd_send_packet_to (\<lambda>fd. fd) (\<lambda>fd. fd) (station slow_side) 0 [7, 8] 100 = (TINY_SUCCESS, slow_packet)"
    "send_frame slow_packet = ([[1, 0, 7, 8]], slow_sent)" "send_frame fast_got = ([[1, 33]], fast_sent)"
    using slow_results(1-3) by (simp_all add: slow_packet_def slow_sent_def fast_sent_def prod_eq_iff)
  let ?run = "session (slow_side, demo_side)"
  define y where "y = station demo_side"
  have y: "demo_side = \<lparr>station = y, taken = [], wire = []\<rparr>" "fast_got = on_frame_read y [1, 0, 7, 8]"
    by (simp_all add: y_def demo_side_def fast_got_def)
  have x: "slow_side = \<lparr>station = station slow_side, taken = [], wire = []\<rparr>" by (simp add: slow_side_def demo_side_def)
  have both: "both_connected (u, v) \<longleftrightarrow> p_state (peer_of (station u) 0) = TINY_FD_STATE_CONNECTED \<and> p_state (peer_of (station v) 0) = TINY_FD_STATE_CONNECTED" for u v
    by (simp add: both_connected_def)
  have 1: "?run (\<lparr>station = slow_packet, taken = [[7, 8]], wire = []\<rparr>, demo_side)"
    using session_more [OF session_start] explicit_steps(1) [OF sends(1), of "[]" "[]" demo_side, folded x] up by (simp add: both)
  have 2: "?run (\<lparr>station = slow_sent, taken = [[7, 8]], wire = [[1, 0, 7, 8]]\<rparr>, demo_side)"
    using session_more [OF 1] explicit_steps(3) [OF sends(2), of "[[7, 8]]" "[]" demo_side] up by (simp add: both)
  have 3: "?run (\<lparr>station = slow_sent, taken = [[7, 8]], wire = []\<rparr>, \<lparr>station = fast_got, taken = [], wire = []\<rparr>)"
    using session_more [OF 2] session_step.other_side [OF explicit_steps(4) [of y "[]" "[]" slow_sent "[[7, 8]]" "[1, 0, 7, 8]" "[]"], folded y] up by (simp add: both)
  have 4: "?run (\<lparr>station = slow_sent, taken = [[7, 8]], wire = []\<rparr>, \<lparr>station = fast_sent, taken = [], wire = [[1, 33]]\<rparr>)"
    using session_more [OF 3] session_step.other_side [OF explicit_steps(3) [OF sends(3), of "[]" "[]"]] up by (simp add: both)
  show "?run (\<lparr>station = slow_back, taken = [[7, 8]], wire = []\<rparr>, \<lparr>station = fast_sent, taken = [], wire = [[1, 33]]\<rparr>)"
    using session_more [OF 4] explicit_steps(2) [of slow_sent "[[7, 8]]" "[]", folded slow_back_def] up by (simp add: both)
qed

text \<open>After the late confirmation the application gives a packet, the timeouts are looked at, and the transmitter asks for a frame.\<close>

lemma slow_run: "own_run 1 slow_confirmed [] slow_later"
proof -
  have up: "p_state (peer_of slow_stalled 0) = TINY_FD_STATE_CONNECTED"
    "p_state (peer_of (check_idle_timeout slow_stalled 0) 0) = TINY_FD_STATE_CONNECTED" "p_state (peer_of slow_later 0) = TINY_FD_STATE_CONNECTED"
    using slow_connected by simp_all
  have p: "tiny_fd_send_packet_to (\<lambda>fd. fd) (\<lambda>fd. fd) slow_confirmed 0 [9] 100 = (TINY_SUCCESS, slow_stalled)"
    and t: "send_frame (check_idle_timeout slow_stalled 0) = ([], slow_later)"
    using slow_results(4,6) by (simp_all add: slow_stalled_def slow_later_def prod_eq_iff)
  from own_more [OF own_more [OF own_more [OF own_start own_packet [OF p] up(1)] own_timeouts up(2)] own_transmit [OF t] up(3)] show ?thesis by simp
qed

lemma slow_window: "length (tx_window slow_back 0) - 0 = 1"
  by code_simp

theorem late_ack_stalls_witness:
  "tiny_fd_get_next_i_frame slow_later 0 1 = (None, slow_later) \<and> tx_window slow_later 0 = [[9]]"
proof -
  have "own_run (length (tx_window slow_back 0) - 0) (on_frame_read slow_back [1, 33]) [] slow_later"
    using slow_run slow_window by (simp add: slow_confirmed_def)
  then show ?thesis
    using late_ack_stalls [OF slow_side_fresh demo_side_fresh slow_session, of "[1, 33]" 0 "[]" slow_later] slow_late slow_results(5) by simp
qed

end
