(* ===== verification/FdInit.thy ===== *)
theory FdInit
  imports FdApiSpec "HOL-Library.Signed_Division"
begin

unbundle bit_operations_syntax

section \<open>Starting and closing the full duplex protocol: tiny_fd.c\<close>

text \<open>
  \<open>tiny_fd_init\<close> lays out one buffer of the application: the protocol data, the low level with its receive
  buffer, the two frame queues and the table of peers. The parameters of the platform are those of
  \<open>c_abi\<close>; \<open>clk\<close> is the clock the station will see, \<open>m\<close> the memory of the program.
  \<^item> The handle and the \<open>init\<close> pointer are not \<open>NULL\<close>, and \<open>mtu\<close> is not negative.
  \<^item> Callbacks are present or absent; the user data that they get is not modelled.
\<close>

subsection \<open>Data and operations\<close>

record tiny_fd_init_t =
  in_on_read_cb :: bool
  in_on_send_cb :: bool
  in_buffer :: nat
  in_buffer_size :: u16
  in_send_timeout :: u16
  in_retry_timeout :: u16
  in_retries :: u8
  in_crc_type :: hdlc_crc_t
  in_window_frames :: u8
  in_mtu :: int
  in_on_connect_event_cb :: bool
  in_log_frame_cb :: bool
  in_addr :: u8
  in_peers_count :: u8
  in_mode :: u8
  in_on_read_ui_cb :: bool

text \<open>The check computes the mtu if it is 0; the result is the error, or the parameters with the mtu.\<close>

definition tiny_fd_init_validate :: "c_abi \<Rightarrow> tiny_fd_init_t \<Rightarrow> u8 \<Rightarrow> int + tiny_fd_init_t" where
  "tiny_fd_init_validate abi init npeers =
     (let buffer_size = int (unat (in_buffer_size init));
          window = int (unat (in_window_frames init))
      in if \<not> in_on_read_cb init \<or> in_buffer init = 0 \<or> in_buffer_size init = 0 then Inl TINY_ERR_INVALID_DATA
         else
           let size = tiny_fd_buffer_size_by_mtu_ex abi npeers 0 window (in_crc_type init) 1;
               mtu = (if in_mtu init = 0 then (buffer_size - size) sdiv (window + 1) else in_mtu init)
           in if in_mtu init = 0 \<and> mtu < 2 then Inl TINY_ERR_OUT_OF_MEMORY
              else if buffer_size < tiny_fd_buffer_size_by_mtu_ex abi npeers mtu window (in_crc_type init) 1
              then Inl TINY_ERR_OUT_OF_MEMORY
              else if in_window_frames init < 2 then Inl TINY_ERR_INVALID_DATA
              else if in_window_frames init > seq_bits_mask then Inl TINY_ERR_INVALID_DATA
              else if in_retry_timeout init = 0 \<and> in_send_timeout init = 0 then Inl TINY_ERR_INVALID_DATA
              else Inr (init\<lparr>in_mtu := mtu\<rparr>))"

text \<open>Memory that \<open>memset\<close> has cleared: an entry of the table, and a low level structure.\<close>

definition zero_peer :: tiny_fd_peer_info where
  "zero_peer = \<lparr>p_state = TINY_FD_STATE_IDLE, p_addr = 0, sent_nr = 0, sent_reject = False, srej_req_mask = 0,
     i_queue_ctl = \<lparr>last_ns = 0, confirm_ns = 0, next_ns = 0, next_nr = 0\<rparr>, last_sent_i_ts = 0,
     last_sent_frame_ts = 0, last_received_frame_ts = 0, ka_confirmed = False, p_retries = 0, p_events = 0\<rparr>"

definition zero_hdlc :: "(nat \<Rightarrow> u8) \<Rightarrow> 'u \<Rightarrow> 'u hdlc_ll" where
  "zero_hdlc m u = \<lparr>mem = m, on_frame_read = None, on_frame_send = None, rx_buf = 0, rx_buf_size = 0,
     crc_type = HDLC_CRC_DEFAULT, user_data = u, phys_mtu = 0, rx_state = Read_start, rx_ptr = 0, rx_escape = False,
     rx_active = 0, tx_state = Send_start, tx_out = [], tx_out_len = 0, tx_origin = 0, tx_data = 0, tx_len = 0,
     tx_crc = 0, tx_escape = False\<rparr>"

definition cleared :: "tiny_fd_init_t \<Rightarrow> (nat \<Rightarrow> u8) \<Rightarrow> nat \<Rightarrow> u8" where
  "cleared init m = (\<lambda>a. if in_buffer init \<le> a \<and> a < in_buffer init + unat (in_buffer_size init) then 0 else m a)"

text \<open>The layout: the error, or the address and size of the low level and the two queues.\<close>

definition tiny_fd_layout :: "c_abi \<Rightarrow> tiny_fd_init_t \<Rightarrow> u8 \<Rightarrow> int + (nat \<times> int \<times> tiny_fd_queue \<times> tiny_fd_queue)" where
  "tiny_fd_layout abi init npeers =
     (let limit = in_buffer init + unat (in_buffer_size init);
          window = unat (in_window_frames init);
          mtu = nat (in_mtu init);
          hdlc_ll_ptr = align_up (align_struct abi) (in_buffer init) + sizeof_fd_data abi;
          hdlc_ll_size = int limit - int hdlc_ll_ptr - 4
            - int (window * (sizeof_ptr abi + mtu + sizeof_frame_info abi - 2))
            - int (TINY_FD_U_QUEUE_MAX_SIZE * (sizeof_ptr abi + sizeof_frame_info abi))
            - int (unat npeers * sizeof_peer_info abi);
          hdlc_ll_size = hdlc_ll_size div int (align_struct abi) * int (align_struct abi);
          ptr = align_up (align_struct abi) (nat (int hdlc_ll_ptr + hdlc_ll_size))
      in case tiny_fd_queue_init abi ptr (int limit - int ptr) window mtu of
           Inl err \<Rightarrow> Inl err
         | Inr (queue_size, iq) \<Rightarrow>
             let ptr = align_up (align_struct abi) (ptr + queue_size)
             in case tiny_fd_queue_init abi ptr (int limit - int ptr) TINY_FD_U_QUEUE_MAX_SIZE 2 of
                  Inl err \<Rightarrow> Inl err
                | Inr (queue_size, sq) \<Rightarrow>
                    let ptr = align_up (align_struct abi) (ptr + queue_size);
                        ptr = ptr + sizeof_peer_info abi * unat npeers
                    in if ptr > limit then Inl TINY_ERR_OUT_OF_MEMORY
                       else Inr (hdlc_ll_ptr, hdlc_ll_size, iq, sq))"

text \<open>The fields that are set once the low level is ready.\<close>

definition tiny_fd_fields :: "tiny_fd_init_t \<Rightarrow> u8 \<Rightarrow> tiny_fd_queue \<Rightarrow> tiny_fd_queue \<Rightarrow> (nat \<Rightarrow> u32) \<Rightarrow> tiny_fd_data" where
  "tiny_fd_fields init npeers iq sq clk =
     (let addr = (if in_addr init \<noteq> 0 then push_bit 2 (in_addr init) else HDLC_PRIMARY_ADDR) OR HDLC_E_BIT;
          fd = \<lparr>on_read_cb = in_on_read_cb init, on_send_cb = in_on_send_cb init, on_read_ui_cb = in_on_read_ui_cb init,
             on_connect_event_cb = in_on_connect_event_cb init, log_frame_cb = in_log_frame_cb init,
             send_timeout = in_send_timeout init,
             retry_timeout = (if in_retry_timeout init \<noteq> 0 then in_retry_timeout init
                              else in_send_timeout init div (ucast (in_retries init) + 1)),
             ka_timeout = 5000, retries = in_retries init, i_queue = iq, s_queue = sq, peers_count = npeers,
             peers = replicate (unat npeers) zero_peer, fd_addr = addr, next_peer = 0, last_marker_ts = 0,
             fd_mode = in_mode init, events = 0, calls = [], clock = clk, ticks = 0\<rparr>;
          fd = fd\<lparr>peers := map (\<lambda>p. p\<lparr>p_retries := in_retries init,
                 p_addr := (if is_secondary_station fd \<or> fd_mode fd = TINY_FD_MODE_ABM then fd_addr fd else HDLC_INVALID_PEER_INDEX),
                 p_state := TINY_FD_STATE_DISCONNECTED, p_events := 0\<rparr>) (peers fd)\<rparr>
      in set_events (FD_EVENT_QUEUE_HAS_FREE_SLOTS OR (if is_primary_station fd then FD_EVENT_HAS_MARKER else 0)) fd)"

definition tiny_fd_init :: "c_abi \<Rightarrow> tiny_fd_init_t \<Rightarrow> (nat \<Rightarrow> u32) \<Rightarrow> (nat \<Rightarrow> u8) \<Rightarrow> int + tiny_fd" where
  "tiny_fd_init abi init clk m =
     (let npeers = (if in_peers_count init = 0 then 1 else in_peers_count init)
      in case tiny_fd_init_validate abi init npeers of
           Inl err \<Rightarrow> Inl err
         | Inr init \<Rightarrow>
             (case tiny_fd_layout abi init npeers of
                Inl err \<Rightarrow> Inl err
              | Inr (hdlc_ll_ptr, hdlc_ll_size, iq, sq) \<Rightarrow>
                  let fd = tiny_fd_fields init npeers iq sq clk
                  in hdlc_ll_init abi \<lparr>init_on_frame_read = Some on_frame_read, init_on_frame_send = Some on_frame_send,
                       init_buf = hdlc_ll_ptr, init_buf_size = hdlc_ll_size, init_crc_type = in_crc_type init,
                       init_user_data = fd, init_mtu = in_mtu init + 2\<rparr> (zero_hdlc (cleared init m) fd)))"

definition tiny_fd_close :: "tiny_fd \<Rightarrow> tiny_fd" where
  "tiny_fd_close h = snd (hdlc_ll_close h)"


subsection \<open>A fresh queue\<close>

definition fresh_slot :: "c_abi \<Rightarrow> nat \<Rightarrow> nat \<Rightarrow> nat \<Rightarrow> tiny_fd_frame_info" where
  "fresh_slot abi first mtu i = \<lparr>f_type = TINY_FD_QUEUE_FREE, f_len = 0, f_address = 0, f_control = 0,
     f_payload = replicate mtu 0, f_header = first + (mtu + sizeof_frame_info abi - 2) * i + offset_header abi\<rparr>"

definition fresh_queue :: "c_abi \<Rightarrow> nat \<Rightarrow> nat \<Rightarrow> nat \<Rightarrow> tiny_fd_queue" where
  "fresh_queue abi first n mtu = \<lparr>q_frames = map (fresh_slot abi first mtu) [0..<n], q_lookup_index = 0, q_mtu = int mtu\<rparr>"

text \<open>A slot has room for its header and two bytes at least.\<close>

definition frame_info_ok :: "c_abi \<Rightarrow> bool" where
  "frame_info_ok abi \<longleftrightarrow> offset_header abi + 4 \<le> sizeof_frame_info abi"

abbreviation stride :: "c_abi \<Rightarrow> nat \<Rightarrow> nat" where
  "stride abi mtu \<equiv> mtu + sizeof_frame_info abi - 2"

lemma stride: "frame_info_ok abi \<Longrightarrow> offset_header abi + mtu + 2 \<le> stride abi mtu"
  "frame_info_ok abi \<Longrightarrow> sizeof_ptr abi + mtu + sizeof_frame_info abi - 2 = sizeof_ptr abi + stride abi mtu"
  by (auto simp: frame_info_ok_def)

lemma queue_init_fresh:
  assumes "int (buffer + (sizeof_ptr abi + stride abi mtu) * n) \<le> int buffer + max_size"
  shows "tiny_fd_queue_init abi buffer max_size n mtu =
    Inr ((sizeof_ptr abi + stride abi mtu) * n, fresh_queue abi (buffer + sizeof_ptr abi * n) n mtu)"
proof -
  define st where "st = stride abi mtu"
  have "int (buffer + sizeof_ptr abi * n + st * n) \<le> int buffer + max_size"
    using assms unfolding st_def [symmetric] by (simp add: distrib_right)
  then show ?thesis
    unfolding tiny_fd_queue_init_def st_def [symmetric]
    by (simp add: Let_def tiny_fd_queue_reset_def fresh_queue_def fresh_slot_def distrib_right comp_def st_def)
qed

lemma stride_step: "i < j \<Longrightarrow> st * i + st \<le> st * (j :: nat)"
  using mult_le_mono2 [of "Suc i" j st] by simp

lemma fresh_slot_at:
  assumes "frame_info_ok abi" "i < j"
  shows "first \<le> f_header (fresh_slot abi first mtu i)"
    "f_header (fresh_slot abi first mtu i) + length (slot_bytes (fresh_slot abi first mtu i)) \<le> first + stride abi mtu * j"
    "slots_disjoint (fresh_slot abi first mtu i) (fresh_slot abi first mtu j)"
proof -
  define st where "st = stride abi mtu"
  have h: "f_header (fresh_slot abi first mtu k) = first + st * k + offset_header abi" "length (slot_bytes (fresh_slot abi first mtu k)) = mtu + 2" for k
    by (simp_all add: fresh_slot_def st_def slot_bytes_def)
  have "offset_header abi + mtu + 2 \<le> st" "st * i + st \<le> st * j"
    using stride(1) [OF assms(1)] stride_step [OF assms(2)] by (simp_all add: st_def)
  then show "first \<le> f_header (fresh_slot abi first mtu i)"
    "f_header (fresh_slot abi first mtu i) + length (slot_bytes (fresh_slot abi first mtu i)) \<le> first + stride abi mtu * j"
    "slots_disjoint (fresh_slot abi first mtu i) (fresh_slot abi first mtu j)"
    unfolding slots_disjoint_def h st_def [symmetric] by linarith+
qed

lemma fresh_queue_wf:
  assumes "frame_info_ok abi" "0 < n"
  shows "queue_wf (fresh_queue abi first n mtu)" "\<forall>f \<in> set (q_frames (fresh_queue abi first n mtu)). f_type f = TINY_FD_QUEUE_FREE"
    "q_size (fresh_queue abi first n mtu) = n" "q_mtu (fresh_queue abi first n mtu) = int mtu"
    "sorted_wrt slots_disjoint (q_frames (fresh_queue abi first n mtu))"
proof -
  have "0 < mtu + sizeof_frame_info abi - 2" using assms(1) by (simp add: frame_info_ok_def)
  then have "inj (\<lambda>i. f_header (fresh_slot abi first mtu i))" by (auto simp: fresh_slot_def inj_on_def)
  then have "distinct (map (\<lambda>i. f_header (fresh_slot abi first mtu i)) [0..<n])" by (simp add: distinct_map inj_on_def)
  then show "queue_wf (fresh_queue abi first n mtu)"
    using assms(2) by (auto simp: queue_wf_def fresh_queue_def comp_def slot_wf_def fresh_slot_def)
  show "\<forall>f \<in> set (q_frames (fresh_queue abi first n mtu)). f_type f = TINY_FD_QUEUE_FREE"
    "q_size (fresh_queue abi first n mtu) = n" "q_mtu (fresh_queue abi first n mtu) = int mtu"
    by (auto simp: fresh_queue_def fresh_slot_def)
  show "sorted_wrt slots_disjoint (q_frames (fresh_queue abi first n mtu))"
    using fresh_slot_at(3) [OF assms(1)] by (simp add: fresh_queue_def sorted_wrt_map sorted_wrt_iff_nth_less)
qed

subsection \<open>The layout\<close>

lemma align_up_dvd: "A dvd align_up A p"
  by (simp add: align_up_def)

lemma align_up_id: "0 < A \<Longrightarrow> A dvd p \<Longrightarrow> align_up A p = p"
proof -
  assume "0 < A" "A dvd p"
  then obtain k where p: "p = A * k" by (auto elim: dvdE)
  have "p + A - 1 = (A - 1) + A * k" using \<open>0 < A\<close> p by simp
  then have "(p + A - 1) div A = k" using \<open>0 < A\<close> by (simp only: div_mult_self2) simp
  then show ?thesis by (simp add: align_up_def p)
qed

text \<open>The sizes of the structures are multiples of the alignment, which is more than four bytes.\<close>

definition abi_ok :: "c_abi \<Rightarrow> bool" where
  "abi_ok abi \<longleftrightarrow> 4 < align_struct abi \<and> align_struct abi dvd sizeof_fd_data abi \<and> align_struct abi dvd sizeof_peer_info abi
     \<and> align_struct abi dvd TINY_FD_U_QUEUE_MAX_SIZE * (sizeof_ptr abi + sizeof_frame_info abi) \<and> frame_info_ok abi"

lemma layout_ready:
  assumes "abi_ok abi" "npeers \<noteq> 0" "0 < in_mtu init"
    and "align_struct abi dvd in_buffer init" "align_struct abi dvd unat (in_buffer_size init)"
    and "tiny_fd_buffer_size_by_mtu_ex abi npeers (in_mtu init) (int (unat (in_window_frames init))) (in_crc_type init) 1
           \<le> int (unat (in_buffer_size init))"
  shows "\<exists>hp L f1 f2. tiny_fd_layout abi init npeers = Inr (hp, L, fresh_queue abi f1 (unat (in_window_frames init)) (nat (in_mtu init)),
        fresh_queue abi f2 TINY_FD_U_QUEUE_MAX_SIZE 2)
      \<and> hp = in_buffer init + sizeof_fd_data abi \<and> align_struct abi dvd hp
      \<and> get_crc_field_size (in_crc_type init) + in_mtu init + 2 + int (sizeof_hdlc_ll abi) \<le> L
      \<and> int hp + L \<le> int f1 \<and> f1 + stride abi (nat (in_mtu init)) * unat (in_window_frames init) \<le> f2"
proof -
  define A B S W mtu n where "A = align_struct abi" and "B = in_buffer init" and "S = unat (in_buffer_size init)"
    and "W = unat (in_window_frames init)" and "mtu = nat (in_mtu init)" and "n = unat npeers"
  define T where "T = (sizeof_ptr abi + stride abi mtu) * W"
  define U where "U = TINY_FD_U_QUEUE_MAX_SIZE * (sizeof_ptr abi + sizeof_frame_info abi)"
  define hp where "hp = B + sizeof_fd_data abi"
  define size where "size = int (B + S) - int hp - 4 - int T - int U - int (n * sizeof_peer_info abi)"
  define L where "L = size div int A * int A"
  have abi: "4 < A" "A dvd sizeof_fd_data abi" "A dvd sizeof_peer_info abi" "A dvd U" "frame_info_ok abi"
    using assms(1) by (simp_all add: abi_ok_def A_def U_def)
  have dv: "A dvd B" "A dvd S" "A dvd hp" using assms(4,5) abi(2) by (simp_all add: A_def B_def S_def hp_def)
  have mtu: "in_mtu init = int mtu" using assms(3) by (simp add: mtu_def)
  have n0: "(if npeers = 0 then 1 else npeers) = npeers" using assms(2) by simp
  have "int (sizeof_fd_data abi) + int A - 1 + int n * int (sizeof_peer_info abi)
      + (get_crc_field_size (in_crc_type init) + (int mtu + 2) + int (sizeof_hdlc_ll abi) + int A - 1)
      + (int (sizeof_ptr abi) + int (sizeof_frame_info abi) + int mtu - 2) * int W + int U \<le> int S"
    using assms(6) unfolding tiny_fd_buffer_size_by_mtu_ex_def Let_def n0 hdlc_ll_get_buf_size_ex_def
    by (simp add: mtu A_def S_def W_def n_def U_def algebra_simps)
  moreover have "(int (sizeof_ptr abi) + int (sizeof_frame_info abi) + int mtu - 2) * int W = int T"
  proof -
    have "int (sizeof_ptr abi) + int (sizeof_frame_info abi) + int mtu - 2 = int (sizeof_ptr abi + stride abi mtu)"
      using abi(5) by (simp add: frame_info_ok_def of_nat_diff)
    then show ?thesis by (simp only: T_def of_nat_mult)
  qed
  ultimately have room: "get_crc_field_size (in_crc_type init) + int mtu + 2 + int (sizeof_hdlc_ll abi) + 2 * int A - 6 \<le> size"
    by (simp add: size_def hp_def)
  have L: "L \<le> size" "size < L + int A" "int A dvd L"
  proof -
    have "size = L + size mod int A" by (simp add: L_def)
    then show "L \<le> size" "size < L + int A" using abi(1) pos_mod_bound [of "int A" size] pos_mod_sign [of "int A" size] by linarith+
  qed (simp add: L_def)
  have C0: "0 \<le> get_crc_field_size (in_crc_type init)" by (cases "in_crc_type init") (simp_all add: get_crc_field_size_def)
  have L0: "get_crc_field_size (in_crc_type init) + int mtu + 2 + int (sizeof_hdlc_ll abi) \<le> L" using room L(2) abi(1) by linarith
  define p1 where "p1 = hp + nat L"
  have natL: "int (nat L) = L" using L0 C0 by simp
  then have "A dvd nat L" using L(3) by (metis of_nat_dvd_iff)
  then have p1: "A dvd p1" "int p1 = int hp + L" using dv(3) natL by (simp_all add: p1_def)
  define p2 where "p2 = align_up A (p1 + T)"
  have p2: "p1 + T \<le> p2" "p2 \<le> p1 + T + A - 1" "A dvd p2"
    using align_up_bounds [of A "p1 + T"] abi(1) align_up_dvd by (simp_all add: p2_def)
  define e where "e = p2 + U + n * sizeof_peer_info abi"
  have e: "p2 + U \<le> e" by (simp add: e_def)
  have "A dvd e" using p2(3) abi(3,4) by (simp add: e_def)
  have "int e \<le> int (B + S)"
  proof -
    have "int A dvd int (B + S) - int e" using \<open>A dvd e\<close> dv(1,2) by (simp flip: of_nat_add)
    then obtain k where k: "int (B + S) - int e = int A * k" by (rule dvdE)
    have "- int A < int (B + S) - int e"
      using p1(2) p2(2) L(1) abi(1) unfolding e_def size_def by linarith
    then have "int A * (- 1) < int A * k" unfolding k by simp
    then have "- 1 < k" using mult_left_mono [of k "- 1" "int A"] by (cases "k \<le> - 1") auto
    then have "0 \<le> int A * k" by simp
    then show ?thesis using k by simp
  qed
  have ptr1: "align_up A (nat (int hp + L)) = p1" using align_up_id [of A p1] abi(1) p1(1) by (simp flip: p1(2))
  have q1: "tiny_fd_queue_init abi p1 (int (B + S) - int p1) W mtu = Inr (T, fresh_queue abi (p1 + sizeof_ptr abi * W) W mtu)"
    by (rule queue_init_fresh [of p1 abi mtu W, folded T_def]) (use \<open>int e \<le> int (B + S)\<close> p2(1) e in linarith)
  have q2: "tiny_fd_queue_init abi p2 (int (B + S) - int p2) TINY_FD_U_QUEUE_MAX_SIZE 2
      = Inr (U, fresh_queue abi (p2 + sizeof_ptr abi * TINY_FD_U_QUEUE_MAX_SIZE) TINY_FD_U_QUEUE_MAX_SIZE 2)"
  proof -
    have "(sizeof_ptr abi + stride abi 2) * TINY_FD_U_QUEUE_MAX_SIZE = U" by (simp add: U_def mult.commute)
    from queue_init_fresh [of p2 abi 2 TINY_FD_U_QUEUE_MAX_SIZE, unfolded this] show ?thesis
      by this (use \<open>int e \<le> int (B + S)\<close> e in linarith)
  qed
  have p3: "align_up A (p2 + U) = p2 + U" using align_up_id [of A "p2 + U"] abi(1,4) p2(3) by simp
  have stT: "W * (sizeof_ptr abi + mtu + sizeof_frame_info abi - 2) = T"
    using stride(2) [OF abi(5)] by (simp add: T_def mult.commute)
  have "tiny_fd_layout abi init npeers = Inr (hp, L, fresh_queue abi (p1 + sizeof_ptr abi * W) W mtu,
      fresh_queue abi (p2 + sizeof_ptr abi * TINY_FD_U_QUEUE_MAX_SIZE) TINY_FD_U_QUEUE_MAX_SIZE 2)"
  proof -
    have alB: "align_up A B = B" using align_up_id [of A B] abi(1) dv(1) by simp
    have pe: "p2 + U + sizeof_peer_info abi * n = e" by (simp add: e_def mult.commute)
    have fits: "\<not> B + S < e" using \<open>int e \<le> int (B + S)\<close> by linarith
    show ?thesis
      unfolding tiny_fd_layout_def Let_def A_def [symmetric] B_def [symmetric] S_def [symmetric] W_def [symmetric] mtu_def [symmetric]
        n_def [symmetric] U_def [symmetric] stT alB hp_def [symmetric]
      unfolding size_def [symmetric] L_def [symmetric] ptr1 q1 sum.case prod.case p2_def [symmetric]
      unfolding q2 sum.case prod.case p3 pe using fits by simp
  qed
  moreover have "p1 + sizeof_ptr abi * W + stride abi mtu * W \<le> p2 + sizeof_ptr abi * TINY_FD_U_QUEUE_MAX_SIZE"
    using p2(1) by (simp add: T_def distrib_right)
  ultimately show ?thesis
    using dv(3) L0 p1(2) mtu unfolding A_def [symmetric] B_def [symmetric] W_def [symmetric] mtu_def [symmetric] hp_def [symmetric]
    by (intro exI [of _ hp] exI [of _ L] exI [of _ "p1 + sizeof_ptr abi * W"] exI [of _ "p2 + sizeof_ptr abi * TINY_FD_U_QUEUE_MAX_SIZE"])
      simp
qed

subsection \<open>The state of a fresh station\<close>

definition plain_addresses :: "tiny_fd_data \<Rightarrow> bool" where
  "plain_addresses fd \<longleftrightarrow> (\<forall>p < peers_count fd. p_addr (peer_of fd p) = HDLC_INVALID_PEER_INDEX \<or> p_addr (peer_of fd p) AND HDLC_CR_BIT = 0)"

lemma no_cr: "a AND HDLC_CR_BIT = 0 \<longleftrightarrow> a AND NOT HDLC_CR_BIT = a"
proof -
  have "a = (a AND HDLC_CR_BIT) OR (a AND NOT HDLC_CR_BIT)" by (simp flip: bit.conj_disj_distrib)
  moreover have "a AND NOT HDLC_CR_BIT = a \<Longrightarrow> a AND HDLC_CR_BIT = 0"
    by (metis and.assoc and.commute and_zero_eq bit.conj_cancel_right)
  ultimately show ?thesis by (metis or.left_neutral)
qed

lemma address_field_no_cr: "address_field a AND HDLC_CR_BIT = 0"
  by (simp add: no_cr address_field_low(2))

text \<open>Stations that keep their own address in the table.\<close>

definition own_address_only :: "tiny_fd_init_t \<Rightarrow> bool" where
  "own_address_only init \<longleftrightarrow> in_mode init = TINY_FD_MODE_ABM \<or> \<not> is_primary_address (address_field (in_addr init))"

lemma fields:
  fixes init npeers iq sq clk
  defines "fd \<equiv> tiny_fd_fields init npeers iq sq clk"
  shows "fd_addr fd = address_field (in_addr init)" "peers_count fd = npeers" "length (peers fd) = unat npeers" "i_queue fd = iq"
    "s_queue fd = sq" "next_peer fd = 0" "fd_mode fd = in_mode init" "on_read_cb fd = in_on_read_cb init" "calls fd = []"
    "p < npeers \<Longrightarrow> peer_of fd p = zero_peer\<lparr>p_retries := in_retries init, p_state := TINY_FD_STATE_DISCONNECTED,
       p_addr := (if own_address_only init then address_field (in_addr init) else HDLC_INVALID_PEER_INDEX)\<rparr>"
    "is_primary_station fd = is_primary_address (address_field (in_addr init))" "clock fd = clk"
    "events fd AND FD_EVENT_HAS_MARKER \<noteq> 0 \<longleftrightarrow> is_primary_station fd"
proof -
  have af: "(if in_addr init \<noteq> 0 then push_bit 2 (in_addr init) else HDLC_PRIMARY_ADDR) OR HDLC_E_BIT = address_field (in_addr init)"
    by (simp add: address_field_def HDLC_PRIMARY_ADDR_def TINY_FD_PRIMARY_ADDR_def)
  show "fd_addr fd = address_field (in_addr init)" "peers_count fd = npeers" "length (peers fd) = unat npeers" "i_queue fd = iq"
    "s_queue fd = sq" "next_peer fd = 0" "fd_mode fd = in_mode init" "on_read_cb fd = in_on_read_cb init" "calls fd = []"
    "clock fd = clk"
    by (simp_all add: fd_def tiny_fd_fields_def Let_def set_events_def af)
  then show p: "is_primary_station fd = is_primary_address (address_field (in_addr init))" by (simp add: is_primary_station_def)
  show "events fd AND FD_EVENT_HAS_MARKER \<noteq> 0 \<longleftrightarrow> is_primary_station fd"
    unfolding p by (simp add: fd_def tiny_fd_fields_def Let_def set_events_def af is_primary_station_def event_ops fd_event_defs)
  show "peer_of fd p = zero_peer\<lparr>p_retries := in_retries init, p_state := TINY_FD_STATE_DISCONNECTED,
       p_addr := (if own_address_only init then address_field (in_addr init) else HDLC_INVALID_PEER_INDEX)\<rparr>" if "p < npeers"
    using that unfolding fd_def tiny_fd_fields_def Let_def af
    by (simp add: peer_of_def set_events_def zero_peer_def own_address_only_def is_secondary_station_def is_primary_station_def word_less_nat_alt)
qed

lemma fields_wf:
  fixes init npeers iq sq clk
  assumes "iq_wf iq" "\<forall>f \<in> set (q_frames iq). f_type f = TINY_FD_QUEUE_FREE" "s_queue_wf sq"
    and "npeers \<noteq> 0" "npeers < 255" "own_address_only init \<Longrightarrow> npeers = 1"
  defines "fd \<equiv> tiny_fd_fields init npeers iq sq clk"
  shows "fd_wf fd" "plain_addresses fd" "p < npeers \<Longrightarrow> tx_window fd p = []"
proof -
  note f = fields [where init = init and npeers = npeers and iq = iq and sq = sq and clk = clk, folded fd_def]
  note none = i_lookup_all_free [OF assms(1,2)]
  have n: "0 < npeers" "unat npeers < 255" using assms(4,5) by (auto simp: word_less_nat_alt unat_gt_0)
  have ctl: "ctl fd p = \<lparr>last_ns = 0, confirm_ns = 0, next_ns = 0, next_nr = 0\<rparr>" if "p < npeers" for p
    using f(10) [OF that] by (simp add: zero_peer_def)
  have addr: "p_addr (peer_of fd p) = (if own_address_only init then address_field (in_addr init) else HDLC_INVALID_PEER_INDEX)"
    if "p < npeers" for p using f(10) [OF that] by simp
  show "tx_window fd p = []" if "p < npeers" using ctl [OF that] by (simp add: tx_window_def)
  show "plain_addresses fd" unfolding plain_addresses_def f(2) by (simp add: addr address_field_no_cr)
  have "peer_wf fd p" if p: "p < npeers" for p
    using address_field_low(3) [of "in_addr init"] unfolding peer_wf_def window_ok_def ctl [OF p] f(4) addr [OF p]
    by (simp add: none dom_def control_wf_def HDLC_INVALID_PEER_INDEX_def HDLC_E_BIT_def)
  moreover have "table_wf fd" using n by (simp add: table_wf_def f)
  moreover have "station_ok fd"
    using addr [OF n(1)] by (auto simp: station_ok_def is_secondary_station_def f own_address_only_def)
  moreover have "addresses_distinct fd"
  proof (cases "own_address_only init")
    case True
    then show ?thesis using assms(6) by (simp add: addresses_distinct_def f u8_less_1)
  next
    case False
    then show ?thesis unfolding addresses_distinct_def f(2) by (simp add: addr)
  qed
  ultimately show "fd_wf fd" using assms(1,3) by (simp add: fd_wf_def f)
qed

lemma validated:
  assumes "tiny_fd_init_validate abi init npeers = Inr init'" "0 \<le> in_mtu init"
  shows "init' = init\<lparr>in_mtu := in_mtu init'\<rparr>" "0 < in_mtu init'" "in_on_read_cb init" "in_buffer init \<noteq> 0"
    "tiny_fd_buffer_size_by_mtu_ex abi npeers (in_mtu init') (int (unat (in_window_frames init))) (in_crc_type init) 1
      \<le> int (unat (in_buffer_size init))"
    "2 \<le> unat (in_window_frames init)" "unat (in_window_frames init) \<le> 7"
proof -
  define mtu where "mtu = (if in_mtu init = 0 then (int (unat (in_buffer_size init)) -
    tiny_fd_buffer_size_by_mtu_ex abi npeers 0 (int (unat (in_window_frames init))) (in_crc_type init) 1)
    sdiv (int (unat (in_window_frames init)) + 1) else in_mtu init)"
  have "in_on_read_cb init \<and> in_buffer init \<noteq> 0 \<and> \<not> (in_mtu init = 0 \<and> mtu < 2) \<and>
    tiny_fd_buffer_size_by_mtu_ex abi npeers mtu (int (unat (in_window_frames init))) (in_crc_type init) 1 \<le> int (unat (in_buffer_size init)) \<and>
    \<not> in_window_frames init < 2 \<and> \<not> seq_bits_mask < in_window_frames init \<and> init' = init\<lparr>in_mtu := mtu\<rparr>"
    using assms(1) unfolding tiny_fd_init_validate_def Let_def mtu_def [symmetric] by (auto split: if_splits)
  then show "init' = init\<lparr>in_mtu := in_mtu init'\<rparr>" "0 < in_mtu init'" "in_on_read_cb init" "in_buffer init \<noteq> 0"
    "tiny_fd_buffer_size_by_mtu_ex abi npeers (in_mtu init') (int (unat (in_window_frames init))) (in_crc_type init) 1
      \<le> int (unat (in_buffer_size init))"
    "2 \<le> unat (in_window_frames init)" "unat (in_window_frames init) \<le> 7"
    using assms(2) by (auto simp: mtu_def word_less_nat_alt seq_bits_mask_def split: if_splits)
qed

subsection \<open>A station that is ready\<close>

text \<open>What \<open>tiny_fd_init\<close> is to deliver, with the memory of its parts apart.\<close>

definition fresh_station :: "tiny_fd_init_t \<Rightarrow> u8 \<Rightarrow> tiny_fd \<Rightarrow> bool" where
  "fresh_station init npeers h \<longleftrightarrow>
     fd_wf (fd_of h) \<and> plain_addresses (fd_of h) \<and> fd_addr (fd_of h) = address_field (in_addr init)
     \<and> fd_mode (fd_of h) = in_mode init \<and> peers_count (fd_of h) = npeers \<and> calls (fd_of h) = []
     \<and> on_read_cb (fd_of h) = in_on_read_cb init
     \<and> (events (fd_of h) AND FD_EVENT_HAS_MARKER \<noteq> 0 \<longleftrightarrow> is_primary_station (fd_of h))
     \<and> (\<forall>p < npeers. p_state (peer_of (fd_of h) p) = TINY_FD_STATE_DISCONNECTED \<and> tx_window (fd_of h) p = [])
     \<and> (\<forall>f \<in> set (q_frames (i_queue (fd_of h)) @ q_frames (s_queue (fd_of h))).
          f_type f = TINY_FD_QUEUE_FREE \<and> int (rx_buf h) + rx_buf_size h \<le> int (f_header f))
     \<and> slots_apart (fd_of h) \<and> tx_idle h \<and> rx_listening h
     \<and> in_buffer init \<le> rx_buf h \<and> phys_mtu h = tiny_fd_get_mtu (fd_of h) + 2 + get_crc_field_size (crc_type h)"

lemma hdlc_init_part:
  assumes "0 < align_struct abi" "align_struct abi dvd hp" "hp \<noteq> 0" "crc \<noteq> HDLC_CRC_OFF" "0 < mtu"
    and "get_crc_field_size crc + mtu + 2 + int (sizeof_hdlc_ll abi) \<le> L"
  shows "\<exists>h. hdlc_ll_init abi \<lparr>init_on_frame_read = Some FdOnRx.on_frame_read, init_on_frame_send = Some FdOnRx.on_frame_send, init_buf = hp,
      init_buf_size = L, init_crc_type = crc, init_user_data = fd, init_mtu = mtu + 2\<rparr> (zero_hdlc m fd) = Inr h
    \<and> fd_of h = fd \<and> tx_idle h \<and> rx_listening h \<and> rx_buf h = hp + sizeof_hdlc_ll abi
    \<and> int (rx_buf h) + rx_buf_size h = int hp + L \<and> phys_mtu h = mtu + 2 + get_crc_field_size (crc_type h)"
proof -
  have "0 \<le> get_crc_field_size crc" by (cases crc) (simp_all add: get_crc_field_size_def)
  then show ?thesis
    using assms align_up_id [OF assms(1,2)]
    by (simp add: hdlc_ll_init_def Let_def hdlc_ll_reset_def zero_hdlc_def ll_flags tx_idle_def rx_listening_def rx_wf_def rx_view_def hdlc_aligned_def)
qed

text \<open>The slots of the two queues lie one behind the other.\<close>

lemma fresh_queues_apart:
  assumes "frame_info_ok abi" "0 < n1" "0 < n2" "0 < f1" "f1 + stride abi mtu1 * n1 \<le> f2"
    and "i_queue fd = fresh_queue abi f1 n1 mtu1" "s_queue fd = fresh_queue abi f2 n2 mtu2"
  shows "slots_apart fd" "f \<in> set (q_frames (i_queue fd) @ q_frames (s_queue fd)) \<Longrightarrow> f1 \<le> f_header f"
proof -
  have place: "f1 \<le> f_header f \<and> f_header f + length (slot_bytes f) \<le> f2" if "f \<in> set (q_frames (i_queue fd))" for f
    using that fresh_slot_at(1,2) [OF assms(1), of _ n1 f1 mtu1] assms(5) by (force simp: assms(6) fresh_queue_def)
  have place2: "f2 \<le> f_header f" if "f \<in> set (q_frames (s_queue fd))" for f
    using that fresh_slot_at(1) [OF assms(1), of _ n2 f2 mtu2] by (force simp: assms(7) fresh_queue_def)
  have "f1 \<le> f2" using assms(5) by linarith
  then have all: "f1 \<le> f_header f" if "f \<in> set (q_frames (i_queue fd) @ q_frames (s_queue fd))" for f
    using that place [of f] place2 [of f] by fastforce
  show "f \<in> set (q_frames (i_queue fd) @ q_frames (s_queue fd)) \<Longrightarrow> f1 \<le> f_header f" by (rule all)
  show "slots_apart fd"
    unfolding slots_apart_def sorted_wrt_append
  proof (intro conjI ballI)
    show "slots_disjoint f g" if "f \<in> set (q_frames (i_queue fd))" "g \<in> set (q_frames (s_queue fd))" for f g
      using place [OF that(1)] place2 [OF that(2)] by (simp add: slots_disjoint_def)
    show "f_header f \<noteq> 0" if "f \<in> set (q_frames (i_queue fd) @ q_frames (s_queue fd))" for f
      using all [OF that] assms(4) by simp
  qed (use fresh_queue_wf(5) [OF assms(1,2), of f1 mtu1] fresh_queue_wf(5) [OF assms(1,3), of f2 mtu2] assms(6,7) in simp_all)
qed


subsection \<open>A 64-bit host\<close>

definition linux_abi :: c_abi where
  "linux_abi = \<lparr>align_struct = 8, sizeof_hdlc_ll = 136, sizeof_ptr = 8, sizeof_fd_data = 280,
     sizeof_frame_info = 12, offset_header = 8, sizeof_peer_info = 128\<rparr>"

definition demo_init :: tiny_fd_init_t where
  "demo_init = \<lparr>in_on_read_cb = True, in_on_send_cb = True, in_buffer = 4096, in_buffer_size = 2048, in_send_timeout = 1000,
     in_retry_timeout = 0, in_retries = 2, in_crc_type = HDLC_CRC_16, in_window_frames = 2, in_mtu = 64,
     in_on_connect_event_cb = True, in_log_frame_cb = False, in_addr = 0, in_peers_count = 2, in_mode = TINY_FD_MODE_NRM,
     in_on_read_ui_cb = False\<rparr>"

lemmas init_eval = tiny_fd_init_validate_def tiny_fd_buffer_size_by_mtu_ex_def tiny_fd_buffer_size_by_mtu_def
  hdlc_ll_get_buf_size_ex_def get_crc_field_size_def TINY_FD_U_QUEUE_MAX_SIZE_def seq_bits_mask_def demo_init_def linux_abi_def

lemma linux_abi_ok: "abi_ok linux_abi"
  by (simp add: abi_ok_def linux_abi_def frame_info_ok_def TINY_FD_U_QUEUE_MAX_SIZE_def)

lemma demo_init_facts: "in_peers_count demo_init = 2" "0 \<le> in_mtu demo_init" "in_crc_type demo_init \<noteq> HDLC_CRC_OFF"
  "align_struct linux_abi dvd in_buffer demo_init" "align_struct linux_abi dvd unat (in_buffer_size demo_init)"
  "in_mode demo_init \<noteq> TINY_FD_MODE_ABM" "is_primary_address (address_field (in_addr demo_init))" "\<not> own_address_only demo_init"
  by (simp_all add: demo_init_def linux_abi_def own_address_only_def address_field_def is_primary_address_def hdlc_addr_defs
      TINY_FD_MODE_ABM_def TINY_FD_MODE_NRM_def)

lemma demo_init_valid: "tiny_fd_init_validate linux_abi demo_init 2 = Inr demo_init"
  by (simp add: init_eval)


text \<open>
  Without the alignment the size that \<open>tiny_fd_buffer_size_by_mtu\<close> computes is not always enough: an aligned buffer
  of that size is refused for some mtu, and in a buffer that starts seven bytes after an aligned address the
  receive buffer is shorter than the frames that the low level lets in.
\<close>

definition tight_init :: "nat \<Rightarrow> int \<Rightarrow> tiny_fd_init_t" where
  "tight_init buffer mtu = demo_init\<lparr>in_buffer := buffer, in_mtu := mtu, in_peers_count := 1,
     in_buffer_size := of_int (tiny_fd_buffer_size_by_mtu linux_abi mtu 2)\<rparr>"

lemma tight_init_valid:
  "tiny_fd_init_validate linux_abi (tight_init 4096 19) 1 = Inr (tight_init 4096 19)"
  "tiny_fd_init_validate linux_abi (tight_init 4097 64) 1 = Inr (tight_init 4097 64)"
  by (simp_all add: init_eval tight_init_def)

lemma tight_buffer_refused: "tiny_fd_init linux_abi (tight_init 4096 19) clk m = Inl TINY_ERR_OUT_OF_MEMORY"
proof -
  have "tiny_fd_layout linux_abi (tight_init 4096 19) 1 = Inl TINY_ERR_OUT_OF_MEMORY"
    by (simp add: tiny_fd_layout_def init_eval tight_init_def align_up_def tiny_fd_queue_init_def)
  then show ?thesis using tight_init_valid(1) by (simp add: tiny_fd_init_def tight_init_def demo_init_def)
qed

lemma misaligned_buffer_short: "\<exists>h. tiny_fd_init linux_abi (tight_init 4097 64) clk m = Inr h \<and> rx_buf_size h < phys_mtu h"
proof -
  have l: "\<exists>iq sq. tiny_fd_layout linux_abi (tight_init 4097 64) 1 = Inr (4384, 200, iq, sq)"
    by (simp add: tiny_fd_layout_def init_eval tight_init_def align_up_def tiny_fd_queue_init_def)
  then obtain iq sq where l: "tiny_fd_layout linux_abi (tight_init 4097 64) 1 = Inr (4384, 200, iq, sq)" by blast
  have n: "in_peers_count (tight_init 4097 64) = 1" "in_crc_type (tight_init 4097 64) = HDLC_CRC_16" "in_mtu (tight_init 4097 64) = 64"
    by (simp_all add: tight_init_def demo_init_def)
  show ?thesis
    unfolding tiny_fd_init_def n using l tight_init_valid(2)
    by (simp add: n hdlc_ll_init_def linux_abi_def align_up_def hdlc_ll_reset_def Let_def get_crc_field_size_def)
qed

end
