(* ===== verification/FdConnect.thy ===== *)
theory FdConnect
  imports FdWire FdInit
begin

unbundle bit_operations_syntax

section \<open>How a connection comes up\<close>

text \<open>
  Two disconnected stations in ABM mode. When the timeout of one of them has passed, it sends SABM; the other answers UA, and after these two frames both
  stations are as \<open>fresh_side\<close> describes them, so that the sessions of \<open>FdSession\<close> and \<open>FdWire\<close> start where the
  connection of the code starts.
\<close>

subsection \<open>A U-frame through the service queue\<close>

lemma ring_no_slot_busy:
  assumes "ring_ok q" "waiting q = []" "i < q_size q"
  shows "\<not> busy (q_frames q ! i)"
  using waiting_members [OF assms(1)] assms(2,3) nth_mem [of i "q_frames q"] by auto

text \<open>An empty queue takes a frame.\<close>

lemma put_first:
  assumes "registered fd p" "ring_ok (s_queue fd)" "waiting (s_queue fd) = []" "2 \<le> length data" "length data \<le> 4"
  defines "fd' \<equiv> snd (put_u_s_frame_to_tx_queue fd TINY_FD_QUEUE_U_FRAME data)"
  obtains f where "waiting (s_queue fd') = [f]" "ring_ok (s_queue fd')" "f_type f = TINY_FD_QUEUE_U_FRAME" "frame_bytes f = data"
    "events fd' = tiny_events_set (events fd) FD_EVENT_TX_DATA_AVAILABLE"
proof -
  have sw: "s_queue_wf (s_queue fd)" using registeredD(1) [OF assms(1)] by (simp add: fd_wf_def)
  have wf: "queue_wf (s_queue fd)" using assms(2) by (simp add: ring_ok_def)
  have sz: "0 < q_size (s_queue fd)" using wf unfolding queue_wf_def by linarith
  have "takeWhile (\<lambda>f. \<not> frame_matches TINY_FD_QUEUE_FREE 0 0 f) (ring (s_queue fd)) = []" using all_free_match [OF assms(2)] assms(3) by simp
  then have "tiny_fd_queue_get_next (s_queue fd) TINY_FD_QUEUE_FREE 0 0 \<noteq> None" using get_next_ring [OF wf] sz by (simp add: Let_def)
  moreover have "int (length (drop 2 data)) \<le> q_mtu (s_queue fd)" using sw assms(5) by (simp add: s_queue_wf_def)
  ultimately obtain i q where al: "tiny_fd_queue_allocate (s_queue fd) TINY_FD_QUEUE_U_FRAME (drop 2 data) = (Some i, q)"
    by (auto simp: tiny_fd_queue_allocate_def)
  then have "put_u_s_frame_to_tx_queue fd TINY_FD_QUEUE_U_FRAME data = (Some i, fd')" by (simp add: fd'_def put_u_s_frame_to_tx_queue_def)
  note sh = put_u_s_frame_shape(4) [OF sw this su_types(2) assms(4) HOL.refl]
  show thesis
  proof (rule put_u_s_frame_last [of fd TINY_FD_QUEUE_U_FRAME data, OF sw assms(2) su_types(2) assms(4,5), folded fd'_def])
    assume "s_queue fd' = s_queue fd"
    then show thesis using ring_no_slot_busy [OF assms(2,3), of i] sh by (simp add: busy_def queue_type_defs)
  next
    fix f assume "waiting (s_queue fd') = waiting (s_queue fd) @ [f]" "ring_ok (s_queue fd')" "f_type f = TINY_FD_QUEUE_U_FRAME" "frame_bytes f = data"
    then show thesis using that [of f] assms(3) sh by simp
  qed
qed

text \<open>The poll bit is set in the slot.\<close>

lemma waiting_set_first:
  assumes "ring_ok q" "waiting q = f # fs" "busy g" "slot_wf (q_mtu q) g" "f_header g = f_header f"
  shows "waiting (set_slot q (q_lookup_index q) g) = g # fs" "ring_ok (set_slot q (q_lookup_index q) g)"
    "q_frames q ! q_lookup_index q = f" "q_lookup_index q < q_size q"
proof -
  have wf: "queue_wf q" using assms(1) by (simp add: ring_ok_def)
  then show i: "q_lookup_index q < q_size q" by (simp add: queue_wf_def)
  have r: "ring q = f # fs @ dropWhile busy (ring q)" using ring_split [of q] assms(2) by simp
  have "ring q ! 0 = f" by (subst r) simp
  then show f: "q_frames q ! q_lookup_index q = f" using ring_nth [of 0 q] i by (cases "q_frames q") auto
  have "ring (set_slot q (q_lookup_index q) g) = (ring q)[0 := g]"
    using ring_set_slot [of 0 q g] i by (cases "q_frames q") auto
  also have "\<dots> = (g # fs) @ dropWhile busy (ring q)" by (subst r) simp
  finally have "ring (set_slot q (q_lookup_index q) g) = (g # fs) @ dropWhile busy (ring q)" .
  moreover have "\<forall>h \<in> set (f # fs). busy h" using assms(2) by (metis waiting_def set_takeWhileD)
  moreover have "queue_wf (set_slot q (q_lookup_index q) g)" using queue_wf_set_slot [OF wf i assms(4)] assms(5) f by simp
  ultimately show "waiting (set_slot q (q_lookup_index q) g) = g # fs" "ring_ok (set_slot q (q_lookup_index q) g)"
    using waiting_split [of _ "g # fs" "dropWhile busy (ring q)"] assms(1,3) by (auto simp: ring_ok_def)
qed

text \<open>The numbers of a peer beside its window: the N(R) sent last, and the requests for repetition.\<close>

definition request_view :: "tiny_fd_peer_info \<Rightarrow> u8 \<times> bool \<times> u8" where
  "request_view x = (sent_nr x, sent_reject x, srej_req_mask x)"

text \<open>What the state keeps while a U-frame goes out.\<close>

definition same_link :: "tiny_fd_data \<Rightarrow> tiny_fd_data \<Rightarrow> bool" where
  "same_link fd fd' \<longleftrightarrow> keeps fd fd' \<and> p_state (peer_of fd' 0) = p_state (peer_of fd 0) \<and> ctl fd' 0 = ctl fd 0
     \<and> tx_window fd' 0 = tx_window fd 0 \<and> request_view (peer_of fd' 0) = request_view (peer_of fd 0)"

lemma u_frame_sent:
  assumes "registered fd 0" "fd_mode fd = TINY_FD_MODE_ABM" "events fd AND FD_EVENT_HAS_MARKER \<noteq> 0" "events fd AND FD_EVENT_TX_DATA_AVAILABLE \<noteq> 0"
    and "ring_ok (s_queue fd)" "waiting (s_queue fd) = [f]" "f_type f = TINY_FD_QUEUE_U_FRAME" "frame_bytes f = [x, c]"
    and "x AND NOT HDLC_CR_BIT = peer_to_address_field fd 0" "address_field_to_peer fd x = 0" "c AND HDLC_U_FRAME_MASK = HDLC_U_FRAME_BITS"
  obtains fd' where "send_frame fd = ([[x, c OR HDLC_P_BIT]], fd')" "same_link fd fd'" "waiting (s_queue fd') = []" "ring_ok (s_queue fd')"
proof -
  define a where "a = peer_to_address_field fd 0"
  define k where "k = q_lookup_index (s_queue fd)"
  define fd1 where "fd1 = fd\<lparr>events := events fd AND NOT FD_EVENT_TX_DATA_AVAILABLE\<rparr>"
  have f: "f_address f = x" "f_control f = c" "frame_data f = []" using assms(8) by (simp_all add: frame_bytes_def)
  have cp: "(c OR HDLC_P_BIT) AND HDLC_U_FRAME_MASK = HDLC_U_FRAME_BITS" "(c OR HDLC_P_BIT) AND HDLC_I_FRAME_MASK \<noteq> HDLC_I_FRAME_BITS"
  proof -
    show u: "(c OR HDLC_P_BIT) AND HDLC_U_FRAME_MASK = HDLC_U_FRAME_BITS"
      using assms(11) by (simp add: bit.conj_disj_distrib2 HDLC_P_BIT_def HDLC_U_FRAME_MASK_def HDLC_U_FRAME_BITS_def)
    have "bit (((c OR HDLC_P_BIT) AND HDLC_U_FRAME_MASK)) 0" by (simp add: u) (simp add: HDLC_U_FRAME_BITS_def)
    then have "bit ((c OR HDLC_P_BIT) AND HDLC_I_FRAME_MASK) 0" by (simp add: bit_and_iff HDLC_I_FRAME_MASK_def)
    then show "(c OR HDLC_P_BIT) AND HDLC_I_FRAME_MASK \<noteq> HDLC_I_FRAME_BITS" by (auto simp: HDLC_I_FRAME_BITS_def)
  qed
  have r1: "registered fd1 0" unfolding fd1_def by (rule keeps_registered [OF keeps_events(3) [OF keeps_refl [OF registeredD(1) [OF assms(1)]]] assms(1)])
  have a1: "peer_to_address_field fd1 0 = a" by (simp add: a_def fd1_def peer_to_address_field_def)
  obtain s fd2 where s: "tiny_fd_get_next_s_u_frame_to_send fd1 0 a = (s, fd2)" by fastforce
  note su = next_s_u_facts [OF r1 s]
  have q2: "s_queue fd2 = s_queue fd" using su(3) by (simp add: fd1_def)
  have "(x AND NOT HDLC_CR_BIT) AND 0xFC = x AND 0xFC" by (simp add: and.assoc HDLC_CR_BIT_def)
  then have "same_address a (f_address f)" unfolding same_address_def f(1) a_def assms(9) [symmetric] .
  then have "next_s_u (s_queue fd) a = Some k" "q_frames (s_queue fd) ! k = f"
    using next_first(1) [of "s_queue fd" a f "[]"] assms(5-7) by (simp_all add: k_def)
  then have sk: "s = Some k" "frame_at fd2 (S_slot k) = f" using su(9) by (simp_all add: fd1_def q2)
  then have ch: "choose_frame fd1 0 = (Some (S_slot k), fd2)" using s by (simp add: choose_frame_def a1)
  have "c AND HDLC_S_FRAME_MASK \<noteq> HDLC_S_FRAME_BITS"
    using assms(11) by (simp add: HDLC_U_FRAME_MASK_def HDLC_U_FRAME_BITS_def HDLC_S_FRAME_MASK_def HDLC_S_FRAME_BITS_def)
  then have req2: "request_view (peer_of fd2 0) = request_view (peer_of fd 0)"
    using s sk q2 f(2) by (auto simp: tiny_fd_get_next_s_u_frame_to_send_def Let_def fd1_def split: option.splits)
  define fd3 where "fd3 = sent_frame fd2 0 (S_slot k)"
  have r2: "registered fd2 0" using touches_registered [OF su(1) r1] .
  note t3 = touches_sent_frame [OF r2 su(11) [OF sk(1)], folded fd3_def]
  have m2: "fd_mode fd2 = TINY_FD_MODE_ABM" using config_fields(5) [OF su(1)] assms(2) by (simp add: fd1_def)
  have mp: "mark_poll fd2 0 (S_slot k) = upd_frame (S_slot k) set_poll fd2"
    using m2 cp(1) assms(11) sk(2) by (simp add: mark_poll_def Let_def TINY_FD_MODE_ABM_def TINY_FD_MODE_NRM_def f)
  have q3: "s_queue fd3 = set_slot (s_queue fd) k (set_poll f)"
    using sk(2) by (simp add: fd3_def sent_frame_def Let_def log_keeps_queues mp q2)
  define fd4 where "fd4 = set_events FD_EVENT_TX_SENDING (set_events FD_EVENT_TX_DATA_AVAILABLE fd3)"
  have "events fd \<noteq> 0" using assms(3) by auto
  then have c: "tx_choose fd 0 = (Put_frame (S_slot k), fd4)"
    using assms(3,4) ch by (simp add: tx_choose_def wait_events_def tiny_events_wait_def fd1_def [symmetric] get_next_frame_eq fd3_def fd4_def)
  have abm: "TINY_FD_MODE_ABM \<noteq> TINY_FD_MODE_NRM" by (simp add: TINY_FD_MODE_ABM_def TINY_FD_MODE_NRM_def)
  define g where "g = set_poll f"
  have k4: "keeps fd fd4"
  proof -
    have "keeps fd fd1" unfolding fd1_def by (rule keeps_events(3) [OF keeps_refl [OF registeredD(1) [OF assms(1)]]])
    then show ?thesis using keeps_events(1) [OF keeps_events(1) [OF keeps_trans [OF keeps_trans [OF _ keeps_touches [OF su(1)]] keeps_touches [OF t3]]]]
      by (simp add: fd4_def)
  qed
  have wf: "fd_wf fd" "queue_wf (s_queue fd)" using registeredD(1) [OF assms(1)] assms(5) by (simp_all add: ring_ok_def)
  have "f \<in> set (q_frames (s_queue fd))" using waiting_members [OF assms(5)] assms(6) by auto
  then have "slot_wf (q_mtu (s_queue fd)) g" using wf(2) by (auto simp: queue_wf_def g_def set_poll_def slot_wf_def)
  moreover have "busy g" using assms(7) by (simp add: g_def set_poll_def busy_def queue_type_defs)
  ultimately have w: "waiting (set_slot (s_queue fd) k g) = [g]" "ring_ok (set_slot (s_queue fd) k g)" "k < q_size (s_queue fd)"
    using waiting_set_first [OF assms(5,6), of g] by (simp_all add: k_def g_def set_poll_def)
  have q4: "s_queue fd4 = set_slot (s_queue fd) k g" using q3 by (simp add: fd4_def g_def)
  have g: "frame_at fd4 (S_slot k) = g" "frame_bytes g = [x, c OR HDLC_P_BIT]"
    using w(3) f by (simp_all add: q4 set_slot_def g_def set_poll_def frame_bytes_def frame_data_def)
  define fd' where "fd' = on_frame_send fd4 (f_header g) (frame_bytes g)"
  have send: "send_frame fd = ([[x, c OR HDLC_P_BIT]], fd')" using g(1) by (simp add: send_frame_def c fd'_def g(2))
  have cf: "same_config fd fd4" using k4 by (simp add: keeps_def)
  have "fd_mode fd4 = TINY_FD_MODE_ABM" "address_field_to_peer fd4 x = 0"
    using cf address_field_to_peer_config [OF wf(1) cf] assms(2,10) by (simp_all add: same_config_def)
  then have fd': "fd' = clear_events FD_EVENT_TX_SENDING (fd4\<lparr>s_queue := tiny_fd_queue_free_by_header (s_queue fd4) (f_header g)\<rparr>)"
    using cp by (simp add: fd'_def on_frame_send_def Let_def g(2) abm HDLC_INVALID_PEER_INDEX_def)
  have free: "waiting (s_queue fd') = []" "ring_ok (s_queue fd')" using free_first [OF w(2,1)] by (simp_all add: fd' q4)
  have "tx_window fd4 0 = tx_window fd1 0" "ctl fd4 0 = ctl fd1 0" "p_state (peer_of fd4 0) = p_state (peer_of fd1 0)"
    "request_view (peer_of fd4 0) = request_view (peer_of fd2 0)"
    using registeredD(4) [OF r2] su(6-8)
    by (simp_all add: request_view_def fd4_def fd3_def set_events_def sent_frame_def Let_def tx_window_def peer_to_address_field_def log_keeps_queues mp peer_of_upd_peer)
  moreover have "keeps fd fd'" using keeps_trans [OF k4 on_frame_send_keeps [OF keeps_wf [OF k4]]] by (simp add: fd'_def)
  moreover have "tx_window fd' 0 = tx_window fd4 0" "ctl fd' 0 = ctl fd4 0" "p_state (peer_of fd' 0) = p_state (peer_of fd4 0)"
    "request_view (peer_of fd' 0) = request_view (peer_of fd4 0)" "tx_window fd1 0 = tx_window fd 0" "ctl fd1 0 = ctl fd 0" "p_state (peer_of fd1 0) = p_state (peer_of fd 0)"
    by (simp_all add: fd' fd1_def clear_events_def tx_window_def peer_to_address_field_def)
  ultimately have "same_link fd fd'" using req2 by (simp add: same_link_def)
  then show thesis using that send free by blast
qed

subsection \<open>The two stations\<close>

text \<open>A station that nothing has happened to: disconnected, with an empty service queue, and with the marker, which a station in ABM mode always has.\<close>

definition link_station :: "u8 \<Rightarrow> tiny_fd_state \<Rightarrow> tiny_fd_data \<Rightarrow> bool" where
  "link_station a st fd \<longleftrightarrow> fd_wf fd \<and> on_read_cb fd \<and> fd_mode fd = TINY_FD_MODE_ABM \<and> address_field_to_peer fd a = 0
     \<and> peer_to_address_field fd 0 = a \<and> p_state (peer_of fd 0) = st"

definition idle_station :: "u8 \<Rightarrow> tiny_fd_data \<Rightarrow> bool" where
  "idle_station a fd \<longleftrightarrow> link_station a TINY_FD_STATE_DISCONNECTED fd \<and> ring_ok (s_queue fd) \<and> waiting (s_queue fd) = []
     \<and> events fd AND FD_EVENT_HAS_MARKER \<noteq> 0"

lemma link_station_registered: "link_station a st fd \<Longrightarrow> registered fd 0"
  using address_field_to_peer_registered(1) [of fd a 0] by (simp add: link_station_def HDLC_INVALID_PEER_INDEX_def)

lemma link_station_up: "station_up a fd \<longleftrightarrow> link_station a TINY_FD_STATE_CONNECTED fd"
  by (auto simp: station_up_def link_station_def)

lemma link_station_keeps:
  assumes "link_station a st fd" "keeps fd fd'"
  shows "link_station a (p_state (peer_of fd' 0)) fd'"
  using assms address_field_to_peer_config [of fd fd' a] by (auto simp: link_station_def keeps_def same_config_def peer_to_address_field_def)

text \<open>A peer whose link starts anew: all its numbers are 0, nothing is in its window, and no repetition is asked for.\<close>

definition restarted :: "tiny_fd_data \<Rightarrow> bool" where
  "restarted fd \<longleftrightarrow> ctl fd 0 = \<lparr>last_ns = 0, confirm_ns = 0, next_ns = 0, next_nr = 0\<rparr> \<and> tx_window fd 0 = []
     \<and> request_view (peer_of fd 0) = (0, False, 0)"

lemma restarted_same_link: "restarted fd \<Longrightarrow> same_link fd fd' \<Longrightarrow> restarted fd'"
  by (simp add: restarted_def same_link_def)

text \<open>A U-frame in the queue of such a station, ready to be sent.\<close>

definition to_send :: "u8 \<Rightarrow> tiny_fd_state \<Rightarrow> u8 list \<Rightarrow> tiny_fd_data \<Rightarrow> bool" where
  "to_send a st data fd \<longleftrightarrow> link_station a st fd \<and> ring_ok (s_queue fd) \<and> events fd AND FD_EVENT_HAS_MARKER \<noteq> 0
     \<and> events fd AND FD_EVENT_TX_DATA_AVAILABLE \<noteq> 0
     \<and> (\<exists>f. waiting (s_queue fd) = [f] \<and> f_type f = TINY_FD_QUEUE_U_FRAME \<and> frame_bytes f = data)"

lemma to_send_sent:
  assumes "to_send a st [x, c] fd" "x AND NOT HDLC_CR_BIT = a" "c AND HDLC_U_FRAME_MASK = HDLC_U_FRAME_BITS"
  obtains fd' where "send_frame fd = ([[x, c OR HDLC_P_BIT]], fd')" "same_link fd fd'" "link_station a st fd'"
    "waiting (s_queue fd') = []" "ring_ok (s_queue fd')"
proof -
  note t = assms(1) [unfolded to_send_def]
  have l: "link_station a st fd" using t by simp
  obtain f where f: "waiting (s_queue fd) = [f]" "f_type f = TINY_FD_QUEUE_U_FRAME" "frame_bytes f = [x, c]" using t by blast
  note b = l [unfolded link_station_def]
  have "address_field_to_peer fd x = 0"
    using address_field_to_peer_cr [of x a fd] b assms(2) by (metis peer_to_address_field_def and.assoc and.idem)
  moreover have "x AND NOT HDLC_CR_BIT = peer_to_address_field fd 0" using b assms(2) by simp
  moreover have "fd_mode fd = TINY_FD_MODE_ABM" "events fd AND FD_EVENT_HAS_MARKER \<noteq> 0" "events fd AND FD_EVENT_TX_DATA_AVAILABLE \<noteq> 0"
    "ring_ok (s_queue fd)" using t b by simp_all
  ultimately obtain fd' where s: "send_frame fd = ([[x, c OR HDLC_P_BIT]], fd')" "same_link fd fd'" "waiting (s_queue fd') = []" "ring_ok (s_queue fd')"
    using u_frame_sent [OF link_station_registered [OF l] _ _ _ _ f _ _ assms(3)] by blast
  have "link_station a st fd'" using link_station_keeps [OF l, of fd'] s(2) b by (simp add: same_link_def)
  then show thesis using that s by blast
qed

lemma events_set_bits:
  fixes e :: u8
  shows "e AND b \<noteq> 0 \<Longrightarrow> tiny_events_set e c AND b \<noteq> 0" and "b \<noteq> 0 \<Longrightarrow> tiny_events_set e b AND b \<noteq> 0"
  by (simp_all add: event_ops bit.conj_disj_distrib2 or_eq_0_iff)

lemma station_asks:
  assumes "idle_station a fd" "is_primary_station fd" "ucast (retry_timeout fd) \<le> clock fd (ticks fd) - last_received_frame_ts (peer_of fd 0)"
  shows "to_send a TINY_FD_STATE_CONNECTING [a OR HDLC_CR_BIT, HDLC_U_FRAME_TYPE_SABM OR HDLC_U_FRAME_BITS] (check_idle_timeout fd 0)"
proof -
  note i = assms(1) [unfolded idle_station_def]
  have l: "link_station a TINY_FD_STATE_DISCONNECTED fd" using i by simp
  note b = l [unfolded link_station_def] and r = link_station_registered [OF l]
  define fd0 where "fd0 = fd\<lparr>ticks := Suc (ticks fd)\<rparr>"
  have r0: "registered fd0 0" unfolding fd0_def by (rule keeps_registered [OF keeps_events(4) [OF keeps_refl [OF registeredD(1) [OF r]]] r])
  let ?d = "[a OR HDLC_CR_BIT, HDLC_U_FRAME_TYPE_SABM OR HDLC_U_FRAME_BITS]"
  define fd1 where "fd1 = snd (put_u_s_frame_to_tx_queue fd0 TINY_FD_QUEUE_U_FRAME ?d)"
  obtain f where f: "waiting (s_queue fd1) = [f]" "ring_ok (s_queue fd1)" "f_type f = TINY_FD_QUEUE_U_FRAME" "frame_bytes f = ?d"
    "events fd1 = tiny_events_set (events fd0) FD_EVENT_TX_DATA_AVAILABLE"
    using put_first [of fd0 0 ?d thesis, folded fd1_def] r0 i that by (simp add: fd0_def)
  have k1: "keeps fd fd1"
    using keeps_touches [OF touches_put(1) [OF r0 su_types(2), of ?d, folded fd1_def]] keeps_trans [OF keeps_events(4) [OF keeps_refl [OF registeredD(1) [OF r]]]]
    by (simp add: fd0_def)
  define fd2 where "fd2 = check_idle_timeout fd 0"
  have a0: "peer_to_address_field fd0 0 = a" "fd_mode fd0 = TINY_FD_MODE_ABM" "is_primary_station fd0" "retry_timeout fd0 = retry_timeout fd" "peer_of fd0 = peer_of fd"
    using assms(2) b by (simp_all add: fd0_def peer_to_address_field_def is_primary_station_def peer_of_def [abs_def])
  have abm: "TINY_FD_MODE_ABM \<noteq> TINY_FD_MODE_NRM" by (simp add: TINY_FD_MODE_ABM_def TINY_FD_MODE_NRM_def)
  have fd2: "fd2 = upd_peer 0 (\<lambda>p. p\<lparr>last_received_frame_ts := clock fd1 (ticks fd1)\<rparr>)
      ((upd_peer 0 (\<lambda>p. p\<lparr>p_state := TINY_FD_STATE_CONNECTING\<rparr>) fd1)\<lparr>ticks := ticks fd1 + 1\<rparr>)"
    using assms(3) b a0 abm
    by (simp add: fd2_def check_idle_timeout_def tiny_fd_disconnected_check_idle_timeout_def Let_def tiny_millis_def
        time_passed_since_last_frame_received_def
        flip: fd0_def fd1_def)
  have "keeps fd fd2" using keeps_touches [OF touches_idle [OF r]] by (simp add: fd2_def)
  moreover have "p_state (peer_of fd2 0) = TINY_FD_STATE_CONNECTING"
    using registeredD(4) [OF keeps_registered [OF k1 r]] by (simp add: fd2 peer_of_upd_peer)
  ultimately have "link_station a TINY_FD_STATE_CONNECTING fd2" using link_station_keeps [OF l] by metis
  moreover have "s_queue fd2 = s_queue fd1" "events fd2 = tiny_events_set (events fd) FD_EVENT_TX_DATA_AVAILABLE" by (simp_all add: fd2 f(5) fd0_def)
  ultimately show ?thesis
    using f i events_set_bits by (auto simp: to_send_def fd2_def [symmetric] FD_EVENT_TX_DATA_AVAILABLE_def)
qed

text \<open>Coming up.\<close>

lemma events_connected:
  assumes "registered fd p" "events fd AND b \<noteq> 0"
  shows "events (switch_to_connected_state fd p) AND b \<noteq> 0"
proof (cases "p_state (peer_of fd p) = TINY_FD_STATE_CONNECTED")
  case False
  obtain c where "switch_to_connected_state fd p = connect_event p True (set_events c
        ((flush_peer p (connected_peer (clock fd (ticks fd)) (clock fd (ticks fd + 1))) fd)\<lparr>ticks := ticks fd + 2\<rparr>))"
    using switch_to_connected_state_eq [OF registeredD(4) [OF assms(1)] False] by blast
  moreover have "events (connect_event p True x) = events x" for x by (simp add: connect_event_def call_def)
  moreover have "events (flush_peer p g fd) = events fd" for g by (simp add: flush_peer_def)
  ultimately show ?thesis using events_set_bits(1) [OF assms(2)] by (simp add: set_events_def)
qed (simp add: switch_same assms(2))

lemma switched_up:
  assumes "registered fd 0" "p_state (peer_of fd 0) \<noteq> TINY_FD_STATE_CONNECTED"
  defines "fd' \<equiv> switch_to_connected_state fd 0"
  shows "p_state (peer_of fd' 0) = TINY_FD_STATE_CONNECTED" "keeps fd fd'" "s_queue fd' = s_queue fd" "restarted fd'"
  using switch_to_connected [OF registeredD(1-3) [OF assms(1)] assms(2), folded fd'_def]
  by (simp_all add: switched_def keeps_def restarted_def request_view_def)

lemma u_frame_read:
  assumes "link_station a st fd" "x AND NOT HDLC_CR_BIT = a" "c AND HDLC_U_FRAME_MASK = HDLC_U_FRAME_MASK"
    and "c AND HDLC_U_FRAME_TYPE_MASK \<noteq> HDLC_U_FRAME_TYPE_RSET"
  defines "fd1 \<equiv> noted 0 [x, c] fd"
  shows "on_frame_read fd [x, c] = snd (on_u_frame_read fd1 0 [x, c])" "keeps fd fd1" "link_station a st fd1" "s_queue fd1 = s_queue fd" "events fd1 = events fd"
proof -
  note l = assms(1) [unfolded link_station_def] and r = link_station_registered [OF assms(1)]
  have "address_field_to_peer fd x = 0"
    using address_field_to_peer_cr [of x a fd] l assms(2) by (metis and.assoc and.idem)
  then have rd: "on_frame_read fd [x, c] = marked [x, c] (on_frame_read_by_type fd1 0 [x, c])"
    using on_frame_read_registered(1) [of fd "[x, c]" 0] l by (simp add: fd1_def HDLC_INVALID_PEER_INDEX_def)
  note n = noted_facts [OF r, of "[x, c]", folded fd1_def]
  show k: "keeps fd fd1" using keeps_touches n(1) by blast
  show "link_station a st fd1" using link_station_keeps [OF assms(1) k] noted_ops(1) [OF r, of "[x, c]"] l by (simp add: fd1_def)
  show "s_queue fd1 = s_queue fd" using noted_ops(5) [OF r] by (simp add: fd1_def)
  obtain cs where "tiny_fd_log_frame TINY_FD_FRAME_DIRECTION_IN [x, c] fd = fd\<lparr>calls := calls fd @ cs\<rparr>" using log_frame_eq by blast
  then show "events fd1 = events fd" by (simp add: fd1_def noted_def)
  have bt: "on_frame_read_by_type fd1 0 [x, c] = snd (on_u_frame_read fd1 0 [x, c])" using assms(3) by (simp add: on_frame_read_by_type_def Let_def)
  have "fd_mode (snd (on_u_frame_read fd1 0 [x, c])) = TINY_FD_MODE_ABM"
    using config_fields(5) [OF touches_u_frame [OF keeps_registered [OF k r], of "[x, c]"]] config_fields(5) [OF n(1)] l assms(4) by simp
  then show "on_frame_read fd [x, c] = snd (on_u_frame_read fd1 0 [x, c])"
    by (simp add: rd bt marked_def TINY_FD_MODE_ABM_def TINY_FD_MODE_NRM_def)
qed

lemma station_answers:
  assumes "idle_station a fd" "x AND NOT HDLC_CR_BIT = a" "c AND HDLC_U_FRAME_MASK = HDLC_U_FRAME_MASK"
    and "c AND HDLC_U_FRAME_TYPE_MASK = HDLC_U_FRAME_TYPE_SABM"
  defines "fd' \<equiv> on_frame_read fd [x, c]"
  shows "to_send a TINY_FD_STATE_CONNECTED [a, HDLC_U_FRAME_TYPE_UA OR HDLC_U_FRAME_BITS] fd'" "restarted fd'"
proof -
  note i = assms(1) [unfolded idle_station_def]
  have l: "link_station a TINY_FD_STATE_DISCONNECTED fd" using i by simp
  define fd1 where "fd1 = noted 0 [x, c] fd"
  have nr: "c AND HDLC_U_FRAME_TYPE_MASK \<noteq> HDLC_U_FRAME_TYPE_RSET" using assms(4) by (simp add: hdlc_u_type_defs)
  note u = u_frame_read [OF l assms(2,3) nr, folded fd1_def]
  note l1 = u(3) [unfolded link_station_def] and r1 = link_station_registered [OF u(3)]
  let ?d = "[a, HDLC_U_FRAME_TYPE_UA OR HDLC_U_FRAME_BITS]"
  define fd2 where "fd2 = snd (put_u_s_frame_to_tx_queue fd1 TINY_FD_QUEUE_U_FRAME ?d)"
  obtain f where f: "waiting (s_queue fd2) = [f]" "ring_ok (s_queue fd2)" "f_type f = TINY_FD_QUEUE_U_FRAME" "frame_bytes f = ?d"
    "events fd2 = tiny_events_set (events fd1) FD_EVENT_TX_DATA_AVAILABLE"
    using put_first [of fd1 0 ?d thesis, folded fd2_def] r1 i u that by simp
  have t2: "touches 0 fd1 fd2" using touches_put(1) [OF r1 su_types(2), of ?d] by (simp add: fd2_def)
  have r2: "registered fd2 0" using touches_registered [OF t2 r1] .
  have s2: "p_state (peer_of fd2 0) = TINY_FD_STATE_DISCONNECTED"
    using put_ops(1) [of fd1 TINY_FD_QUEUE_U_FRAME ?d 0] registeredD(1) [OF r1] l1 by (simp add: fd_wf_def fd2_def)
  have fd': "fd' = switch_to_connected_state fd2 0"
    using u(1) l1 s2 assms(4) by (simp add: fd'_def on_u_frame_read_def Let_def flip: fd2_def)
  note sw = switched_up [OF r2, folded fd', unfolded s2]
  have "keeps fd fd'" using keeps_trans [OF u(2) keeps_trans [OF keeps_touches [OF t2] sw(2)]] by simp
  then have "link_station a TINY_FD_STATE_CONNECTED fd'" using link_station_keeps [OF l] sw(1) by fastforce
  moreover have "events fd2 AND b \<noteq> 0 \<Longrightarrow> events fd' AND b \<noteq> 0" for b using events_connected [OF r2] by (simp add: fd')
  ultimately show "to_send a TINY_FD_STATE_CONNECTED ?d fd'"
    using f i u(5) sw(3) events_set_bits by (auto simp: to_send_def FD_EVENT_TX_DATA_AVAILABLE_def)
  show "restarted fd'" using sw by simp
qed

lemma answer_received:
  assumes "link_station a TINY_FD_STATE_CONNECTING fd" "waiting (s_queue fd) = []" "ring_ok (s_queue fd)"
    and "x AND NOT HDLC_CR_BIT = a" "c AND HDLC_U_FRAME_MASK = HDLC_U_FRAME_MASK" "c AND HDLC_U_FRAME_TYPE_MASK = HDLC_U_FRAME_TYPE_UA"
  shows "fresh_side a \<lparr>station = on_frame_read fd [x, c], taken = [], wire = []\<rparr> \<and> restarted (on_frame_read fd [x, c])"
proof -
  define fd1 where "fd1 = noted 0 [x, c] fd"
  have nr: "c AND HDLC_U_FRAME_TYPE_MASK \<noteq> HDLC_U_FRAME_TYPE_RSET" using assms(6) by (simp add: hdlc_u_type_defs)
  note u = u_frame_read [OF assms(1,4,5) nr, folded fd1_def]
  note l1 = u(3) [unfolded link_station_def] and r1 = link_station_registered [OF u(3)]
  have fd': "on_frame_read fd [x, c] = switch_to_connected_state fd1 0"
    using u(1) l1 assms(6) u_types_distinct by (simp add: on_u_frame_read_def Let_def)
  note sw = switched_up [OF r1]
  have "link_station a TINY_FD_STATE_CONNECTED (switch_to_connected_state fd1 0)" using link_station_keeps [OF u(3) sw(2)] sw(1) l1 by simp
  then show ?thesis using sw l1 u(4) assms(2,3) by (simp add: fresh_side_def link_station_up fd' restarted_def)
qed

text \<open>The stations of \<open>tiny_fd_init\<close> are of this kind, in ABM mode with the address 0.\<close>

lemma fresh_station_idle:
  assumes "fresh_station init 1 h" "in_mode init = TINY_FD_MODE_ABM" "in_addr init = 0" "in_on_read_cb init"
  shows "idle_station 1 (fd_of h) \<and> is_primary_station (fd_of h)"
proof -
  note f = assms(1) [unfolded fresh_station_def]
  have af: "address_field 0 = 1" by (simp add: address_field_def HDLC_E_BIT_def)
  have abm: "fd_mode (fd_of h) = TINY_FD_MODE_ABM" "fd_addr (fd_of h) = 1" using f assms(2,3) af by simp_all
  have prim: "is_primary_station (fd_of h)"
    using abm by (simp add: is_primary_station_def is_primary_address_def HDLC_PRIMARY_ADDR_def TINY_FD_PRIMARY_ADDR_def HDLC_E_BIT_def HDLC_CR_BIT_def)
  have wf: "fd_wf (fd_of h)" using f by simp
  then have "p_addr (peer_of (fd_of h) 0) = 1" using abm by (simp add: fd_wf_def station_ok_def)
  then have "link_station 1 TINY_FD_STATE_DISCONNECTED (fd_of h)"
    using f assms(4) abm by (simp add: link_station_def peer_to_address_field_def address_field_to_peer_def HDLC_CR_BIT_def HDLC_E_BIT_def)
  moreover have "queue_wf (s_queue (fd_of h))" using wf by (simp add: fd_wf_def s_queue_wf_def)
  then have "waiting (s_queue (fd_of h)) = []" "ring_ok (s_queue (fd_of h))"
    using waiting_split [of "s_queue (fd_of h)" "[]" "ring (s_queue (fd_of h))"] f by (simp_all add: ring_members busy_def)
  ultimately show ?thesis using f prim by (simp add: idle_station_def)
qed

subsection \<open>The connection\<close>

text \<open>
  C2: How a connection comes up. Two stations in ABM mode are disconnected, nothing is queued in them, and nothing has come from the other one for as long as the
  timeout of the first. Then the first station sends SABM, and the other answers it with UA. When both frames have arrived, both stations
  are connected with an empty service queue and have restarted their link: the numbers of the first frame waiting, of the next one to send, of
  the next one to queue and of the next one to receive are 0, the window is empty, the N(R) sent last is 0, and no reject and no selective reject is open.
  This implies \<open>fresh_side\<close>, from which the sessions of two stations start.
\<close>

theorem fd_connects:
  assumes "idle_station a A" "idle_station a B"
    and "is_primary_station A" "ucast (retry_timeout A) \<le> clock A (ticks A) - last_received_frame_ts (peer_of A 0)"
    and "send_frame (check_idle_timeout A 0) = (fs, A')" "send_frame (on_frame_read B (hd fs)) = (gs, B')"
  shows "fs = [[a OR HDLC_CR_BIT, HDLC_U_FRAME_TYPE_SABM OR HDLC_U_FRAME_BITS OR HDLC_P_BIT]]
    \<and> gs = [[a, HDLC_U_FRAME_TYPE_UA OR HDLC_U_FRAME_BITS OR HDLC_P_BIT]]
    \<and> fresh_side a \<lparr>station = on_frame_read A' (hd gs), taken = [], wire = []\<rparr> \<and> restarted (on_frame_read A' (hd gs))
    \<and> fresh_side a \<lparr>station = B', taken = [], wire = []\<rparr> \<and> restarted B'"
proof -
  let ?sabm = "HDLC_U_FRAME_TYPE_SABM OR HDLC_U_FRAME_BITS" and ?ua = "HDLC_U_FRAME_TYPE_UA OR HDLC_U_FRAME_BITS"
  have a: "a AND NOT HDLC_CR_BIT = a"
    using assms(1) by (auto simp: idle_station_def link_station_def peer_to_address_field_def)
  then have cr: "(a OR HDLC_CR_BIT) AND NOT HDLC_CR_BIT = a" by (simp add: cr_address)
  note bits = hdlc_u_type_defs HDLC_U_FRAME_BITS_def HDLC_U_FRAME_MASK_def HDLC_U_FRAME_TYPE_MASK_def HDLC_P_BIT_def
  obtain A1 where A1: "send_frame (check_idle_timeout A 0) = ([[a OR HDLC_CR_BIT, ?sabm OR HDLC_P_BIT]], A1)"
    "link_station a TINY_FD_STATE_CONNECTING A1" "waiting (s_queue A1) = []" "ring_ok (s_queue A1)"
    using to_send_sent [OF station_asks [OF assms(1,3,4)] cr] by (auto simp: bits)
  have fs: "fs = [[a OR HDLC_CR_BIT, ?sabm OR HDLC_P_BIT]]" "A' = A1" using A1(1) assms(5) by simp_all
  define B1 where "B1 = on_frame_read B [a OR HDLC_CR_BIT, ?sabm OR HDLC_P_BIT]"
  have B1: "to_send a TINY_FD_STATE_CONNECTED [a, ?ua] B1" "restarted B1"
    using station_answers [OF assms(2) cr, of "?sabm OR HDLC_P_BIT", folded B1_def] by (simp_all add: bits)
  obtain B2 where B2: "send_frame B1 = ([[a, ?ua OR HDLC_P_BIT]], B2)" "same_link B1 B2" "link_station a TINY_FD_STATE_CONNECTED B2"
    "waiting (s_queue B2) = []" "ring_ok (s_queue B2)"
    using to_send_sent [OF B1(1) a] by (auto simp: bits)
  have gs: "gs = [[a, ?ua OR HDLC_P_BIT]]" "B' = B2" using B2(1) assms(6) by (simp_all add: fs(1) B1_def)
  have "restarted B2" using restarted_same_link [OF B1(2) B2(2)] .
  then have "fresh_side a \<lparr>station = B2, taken = [], wire = []\<rparr> \<and> restarted B2"
    using B2(3-5) by (simp add: fresh_side_def link_station_up restarted_def)
  moreover have "fresh_side a \<lparr>station = on_frame_read A1 [a, ?ua OR HDLC_P_BIT], taken = [], wire = []\<rparr>
      \<and> restarted (on_frame_read A1 [a, ?ua OR HDLC_P_BIT])"
    using answer_received [OF A1(2-4) a, of "?ua OR HDLC_P_BIT"] by (simp add: bits)
  ultimately show ?thesis by (simp add: fs gs or.assoc)
qed

text \<open>Two stations that have seen nothing yet.\<close>

definition demo_idle :: tiny_fd_data where
  "demo_idle = (station demo_side)\<lparr>peers := [demo_peer\<lparr>p_state := TINY_FD_STATE_DISCONNECTED,
     i_queue_ctl := \<lparr>last_ns = 0, confirm_ns = 0, next_ns = 0, next_nr = 0\<rparr>\<rparr>], clock := \<lambda>n. 1000 + of_nat n\<rparr>"

lemma demo_idle_station: "idle_station 1 demo_idle"
proof -
  have "fd_wf (station demo_side)" "ring_ok (s_queue (station demo_side))" "waiting (s_queue (station demo_side)) = []"
    using demo_side_fresh by (simp_all add: fresh_side_def station_up_def)
  then have "fd_wf demo_idle" "ring_ok (s_queue demo_idle)" "waiting (s_queue demo_idle) = []"
    using fd_wf_cong [of demo_idle "station demo_side"] by (simp_all add: demo_idle_def demo_side_def peer_of_def u8_less_1 demo_fd_def)
  moreover have "address_field_to_peer demo_idle 1 = 0" by code_simp
  moreover have "peer_to_address_field demo_idle 0 = 1" by code_simp
  moreover have "events demo_idle AND FD_EVENT_HAS_MARKER \<noteq> 0" by code_simp
  ultimately show ?thesis
    by (simp add: idle_station_def link_station_def) (simp add: demo_idle_def demo_side_def peer_of_def demo_fd_def)
qed

lemma demo_idle_timeout: "is_primary_station demo_idle"
  "ucast (retry_timeout demo_idle) \<le> clock demo_idle (ticks demo_idle) - last_received_frame_ts (peer_of demo_idle 0)"
proof -
  show "is_primary_station demo_idle" by code_simp
  show "ucast (retry_timeout demo_idle) \<le> clock demo_idle (ticks demo_idle) - last_received_frame_ts (peer_of demo_idle 0)" by code_simp
qed

theorem fd_connects_witness:
  "fst (send_frame (check_idle_timeout demo_idle 0)) = [[3, 0x3F]]
    \<and> fst (send_frame (on_frame_read demo_idle [3, 0x3F])) = [[1, 0x73]]
    \<and> fresh_side 1 \<lparr>station = on_frame_read (snd (send_frame (check_idle_timeout demo_idle 0))) [1, 0x73], taken = [], wire = []\<rparr>
    \<and> restarted (on_frame_read (snd (send_frame (check_idle_timeout demo_idle 0))) [1, 0x73])
    \<and> restarted (snd (send_frame (on_frame_read demo_idle [3, 0x3F])))"
proof -
  note bits = hdlc_u_type_defs HDLC_U_FRAME_BITS_def HDLC_P_BIT_def HDLC_CR_BIT_def
  note w = fd_connects [OF demo_idle_station demo_idle_station demo_idle_timeout surjective_pairing surjective_pairing]
  have 1: "fst (send_frame (check_idle_timeout demo_idle 0)) = [[3, 0x3F]]" using w by (simp add: bits)
  note w1 = w [unfolded 1 list.sel]
  have 2: "fst (send_frame (on_frame_read demo_idle [3, 0x3F])) = [[1, 0x73]]" using w1 by (simp add: bits)
  show ?thesis using w1 [unfolded 2 list.sel] 1 2 by blast
qed

end
