(* ===== verification/FdRegister.thy ===== *)
theory FdRegister
  imports FdInit
begin

unbundle bit_operations_syntax

section \<open>Peers: registration, disconnection, unnumbered information\<close>

text \<open>
  The table of peers of a primary station: lookup, free entries, and \<open>tiny_fd_register_peer\<close>. Then the calls
  that put a frame of their own into the service queue: \<open>tiny_fd_disconnect\<close> and \<open>tiny_fd_send_ui_packet_to\<close>.
\<close>

subsection \<open>The table\<close>

lemma u8_of_suc: "(i :: u8) + 1 + of_nat k = i + of_nat (Suc k)"
  by (simp add: add.assoc)

lemma find_peer_none:
  "unat i + length ps < 255 \<Longrightarrow> find_peer ps a i = HDLC_INVALID_PEER_INDEX \<longleftrightarrow> a \<notin> p_addr ` set ps"
proof (induction ps a i rule: find_peer.induct)
  case (2 p ps a i)
  have "i \<noteq> HDLC_INVALID_PEER_INDEX" using 2(2) by (auto simp: HDLC_INVALID_PEER_INDEX_def)
  moreover have "unat (i + 1) = unat i + 1" using 2(2) by (simp add: unat_word_ariths)
  ultimately show ?case using 2 by auto
qed simp

lemma find_peer_new:
  "a \<notin> p_addr ` set ps \<Longrightarrow> k < length ps \<Longrightarrow> p_addr x = a \<Longrightarrow> find_peer (ps[k := x]) a i = i + of_nat k"
proof (induction ps arbitrary: i k)
  case (Cons p ps)
  show ?case
  proof (cases k)
    case (Suc j)
    then show ?thesis using Cons.IH [of j "i + 1"] Cons.prems u8_of_suc [of i j] by auto
  qed (use Cons.prems in simp)
qed simp

lemma find_peer_old:
  "k < length ps \<Longrightarrow> p_addr x \<noteq> a \<Longrightarrow> p_addr (ps ! k) \<noteq> a \<Longrightarrow> find_peer (ps[k := x]) a i = find_peer ps a i"
proof (induction ps arbitrary: i k)
  case (Cons p ps)
  then show ?case by (cases k) auto
qed simp

lemma find_free_peer_cases:
  "case find_free_peer ps i of
     None \<Rightarrow> HDLC_INVALID_PEER_INDEX \<notin> p_addr ` set ps
   | Some p \<Rightarrow> (\<exists>k < length ps. p = i + of_nat k \<and> p_addr (ps ! k) = HDLC_INVALID_PEER_INDEX
       \<and> (\<forall>j < k. p_addr (ps ! j) \<noteq> HDLC_INVALID_PEER_INDEX))"
proof (induction ps i rule: find_free_peer.induct)
  case (2 p ps i)
  show ?case
  proof (cases "p_addr p = HDLC_INVALID_PEER_INDEX")
    case True
    then show ?thesis by (auto intro: exI [of _ 0])
  next
    case False
    show ?thesis
    proof (cases "find_free_peer ps (i + 1)")
      case None
      then show ?thesis using 2 [OF False] False by auto
    next
      case (Some q)
      then obtain k where k: "k < length ps" "q = i + 1 + of_nat k" "p_addr (ps ! k) = HDLC_INVALID_PEER_INDEX"
          "\<forall>j < k. p_addr (ps ! j) \<noteq> HDLC_INVALID_PEER_INDEX"
        using 2 [OF False] by auto
      have "\<forall>j < Suc k. p_addr ((p # ps) ! j) \<noteq> HDLC_INVALID_PEER_INDEX" using False k(4) by (auto simp: less_Suc_eq_0_disj)
      then show ?thesis using Some False k(1-3) u8_of_suc [of i k] by (auto intro!: exI [of _ "Suc k"])
    qed
  qed
qed simp

subsection \<open>Registering a peer\<close>

lemma primary_table:
  assumes "fd_wf fd" "is_primary_station fd" "fd_mode fd \<noteq> TINY_FD_MODE_ABM"
  shows "target_peer fd a = find_peer (peers fd) (address_field a) 0"
    and "address_field_to_peer fd (address_field a) = find_peer (peers fd) (address_field a) 0"
proof -
  have "unat (peers_count fd) = length (peers fd)" using assms(1) by (simp add: fd_wf_def table_wf_def)
  then show "address_field_to_peer fd (address_field a) = find_peer (peers fd) (address_field a) 0"
    using assms(2,3) address_field_low(2,3) [of a] by (simp add: address_field_to_peer_def is_secondary_station_def)
  then show "target_peer fd a = find_peer (peers fd) (address_field a) 0"
    using assms(2) by (simp add: target_peer_def is_secondary_station_def address_field_def)
qed


text \<open>What a registration changes: the entry \<open>p\<close> gets the address.\<close>

lemma register_keeps_wf:
  fixes t :: u32
  assumes "fd_wf fd" "plain_addresses fd" "is_primary_station fd" "fd_mode fd \<noteq> TINY_FD_MODE_ABM"
    and "a < 63" "address_field a \<notin> p_addr ` set (peers fd)"
    and "p < peers_count fd" "p_addr (peer_of fd p) = HDLC_INVALID_PEER_INDEX"
    and "i_lookup (address_field a) (i_queue fd) = Map.empty"
  defines "fd' \<equiv> upd_peer p (\<lambda>x. x\<lparr>p_addr := address_field a, last_received_frame_ts := t\<rparr>) fd"
  shows "fd_wf fd'" "plain_addresses fd'" "tx_window fd' p = []"
proof -
  note wf = assms(1) [unfolded fd_wf_def]
  have len: "unat p < length (peers fd)" by (rule fd_wf_index [OF assms(1,7)])
  have peer: "peer_of fd' q = (if q = p then (peer_of fd p)\<lparr>p_addr := address_field a, last_received_frame_ts := t\<rparr> else peer_of fd q)" for q
    using len unfolding fd'_def by (simp add: peer_of_upd_peer)
  have field: "peer_to_address_field fd' q = (if q = p then address_field a else peer_to_address_field fd q)" for q
    by (simp add: peer_to_address_field_def peer address_field_low(2))
  have apart: "\<not> same_address (address_field a) (peer_to_address_field fd q)" if q: "q < peers_count fd" "q \<noteq> p" for q
  proof
    assume "same_address (address_field a) (peer_to_address_field fd q)"
    then have eq: "address_field a = peer_to_address_field fd q"
      using same_address_eq address_field_low(1) peer_address_bits [OF assms(1) q(1)] by blast
    show False
    proof (cases "p_addr (peer_of fd q) = HDLC_INVALID_PEER_INDEX")
      case True
      then have "address_field a = address_field 63"
        unfolding eq by (simp add: peer_to_address_field_def address_field_def HDLC_INVALID_PEER_INDEX_def hdlc_addr_defs)
      then show False using assms(5) address_field_inj [of a 63] by (simp add: word_less_nat_alt)
    next
      case False
      then have "p_addr (peer_of fd q) AND HDLC_CR_BIT = 0" using assms(2) q by (auto simp: plain_addresses_def)
      then have "p_addr (peer_of fd q) = address_field a" unfolding eq peer_to_address_field_def by (simp add: no_cr)
      moreover have "peer_of fd q \<in> set (peers fd)" using fd_wf_index [OF assms(1) q(1)] by (simp add: peer_of_def)
      ultimately show False using assms(6) by force
    qed
  qed
  have pc: "peers_count fd' = peers_count fd" "i_queue fd' = i_queue fd" by (simp_all add: fd'_def)
  note cr = address_field_no_cr [of a]
  show "plain_addresses fd'"
    using assms(2) cr unfolding plain_addresses_def pc by (simp add: peer)
  have idle: "confirm_ns (ctl fd p) = last_ns (ctl fd p)" and pw: "peer_wf fd p"
    using wf assms(7,8) by (auto simp: peer_wf_def)
  show "tx_window fd' p = []" using idle by (simp add: tx_window_def peer)
  have "peer_wf fd' q" if q: "q < peers_count fd" for q
  proof (cases "q = p")
    case True
    then show ?thesis
      using pw idle assms(9) address_field_low(3) by (simp add: peer_wf_def window_ok_def peer field pc in_window_def)
  next
    case False
    have "peer_wf fd q" using wf q by blast
    then show ?thesis by (rule peer_wf_other(1)) (use False in \<open>simp_all add: peer field pc\<close>)
  qed
  moreover have "addresses_distinct fd'"
    unfolding addresses_distinct_def pc
  proof (intro allI impI)
    fix q r assume q: "q < peers_count fd" "r < peers_count fd" "q \<noteq> r" "p_addr (peer_of fd' q) \<noteq> HDLC_INVALID_PEER_INDEX"
    show "\<not> same_address (peer_to_address_field fd' q) (peer_to_address_field fd' r)"
    proof (cases "q = p")
      case True
      then show ?thesis using apart [OF q(2)] q(3) by (simp add: field)
    next
      case qp: False
      show ?thesis
      proof (cases "r = p")
        case True
        then show ?thesis using apart [OF q(1) qp] qp unfolding same_address_def by (simp add: field)
      next
        case False
        then show ?thesis using peers_separate(1) [OF assms(1) q(1-3)] q(4) qp by (simp add: field peer)
      qed
    qed
  qed
  moreover have "table_wf fd'" "station_ok fd'" "s_queue fd' = s_queue fd"
    using wf assms(3,4) by (simp_all add: fd'_def table_wf_def station_ok_def is_secondary_station_def is_primary_station_def)
  ultimately show "fd_wf fd'"
    using wf by (simp add: fd_wf_def pc)
qed


lemma register_eq:
  assumes "fd_wf fd" "is_primary_station fd" "fd_mode fd \<noteq> TINY_FD_MODE_ABM" "a < 64"
  shows "tiny_fd_register_peer fd a =
    (if a = 0 \<or> target_peer fd a \<noteq> HDLC_INVALID_PEER_INDEX then (TINY_ERR_FAILED, fd)
     else case find_free_peer (peers fd) 0 of
       None \<Rightarrow> (TINY_ERR_FAILED, fd)
     | Some p \<Rightarrow> (TINY_SUCCESS, upd_peer p (\<lambda>x. x\<lparr>p_addr := address_field a,
         last_received_frame_ts := clock fd (ticks fd) - ucast (retry_timeout fd)\<rparr>) (fd\<lparr>ticks := ticks fd + 1\<rparr>)))"
proof -
  have "\<not> 63 < a" using assms(4) by (simp add: word_less_nat_alt)
  moreover have "address_field a = HDLC_PRIMARY_ADDR OR HDLC_E_BIT \<longleftrightarrow> a = 0"
    using address_field_inj [OF assms(4), of 0] by (simp add: address_field_def hdlc_addr_defs)
  moreover have "take (unat (peers_count fd)) (peers fd) = peers fd" using assms(1) by (simp add: fd_wf_def table_wf_def)
  ultimately show ?thesis
    using primary_table [OF assms(1-3), of a]
    by (simp add: tiny_fd_register_peer_def Let_def tiny_millis_def flip: address_field_def split: option.split)
qed

text \<open>A new address gets the entry that the search for a free one finds.\<close>

lemma register_free_entry:
  assumes "fd_wf fd" "plain_addresses fd" "is_primary_station fd" "fd_mode fd \<noteq> TINY_FD_MODE_ABM" "a < 63"
    and "i_lookup (address_field a) (i_queue fd) = Map.empty" "target_peer fd a = HDLC_INVALID_PEER_INDEX"
    and "find_free_peer (peers fd) 0 = Some p"
    and "fd' = upd_peer p (\<lambda>x. x\<lparr>p_addr := address_field a, last_received_frame_ts := t\<rparr>) (fd\<lparr>ticks := ticks fd + 1\<rparr>)"
  shows "p < peers_count fd" "p_addr (peer_of fd p) = HDLC_INVALID_PEER_INDEX" "fd_wf fd'" "plain_addresses fd'" "tx_window fd' p = []"
    "target_peer fd' a = p" "b < 64 \<Longrightarrow> b \<noteq> a \<Longrightarrow> target_peer fd' b = target_peer fd b"
    "peer_of fd' q = (if q = p then (peer_of fd p)\<lparr>p_addr := address_field a, last_received_frame_ts := t\<rparr> else peer_of fd q)"
proof -
  define fd0 where "fd0 = fd\<lparr>ticks := ticks fd + 1\<rparr>"
  have n: "unat (peers_count fd) = length (peers fd)" "length (peers fd) < 255" using assms(1) by (simp_all add: fd_wf_def table_wf_def)
  obtain k where k: "k < length (peers fd)" "p = of_nat k" "p_addr (peers fd ! k) = HDLC_INVALID_PEER_INDEX"
    using find_free_peer_cases [of "peers fd" 0] assms(8) by auto
  have p: "unat p = k" using k(1,2) n(2) by (simp add: unat_of_nat)
  show pc: "p < peers_count fd" using p k(1) n(1) by (simp add: word_less_nat_alt)
  show inv: "p_addr (peer_of fd p) = HDLC_INVALID_PEER_INDEX" using k(3) p by (simp add: peer_of_def)
  have unused: "address_field a \<notin> p_addr ` set (peers fd)"
    using assms(7) primary_table(1) [OF assms(1,3,4)] find_peer_none [of 0 "peers fd" "address_field a"] n(2) by simp
  have wf0: "fd_wf fd0" unfolding fd0_def by (rule keeps_wf [OF keeps_events(4) [OF keeps_refl [OF assms(1)]]])
  have prems: "plain_addresses fd0" "is_primary_station fd0" "fd_mode fd0 \<noteq> TINY_FD_MODE_ABM" "peers fd0 = peers fd"
    "peers_count fd0 = peers_count fd" "i_queue fd0 = i_queue fd" "peer_of fd0 q = peer_of fd q" for q
    using assms(2-4) by (simp_all add: fd0_def plain_addresses_def is_primary_station_def)
  note res = assms(9) [folded fd0_def]
  show keep: "fd_wf fd'" "plain_addresses fd'" "tx_window fd' p = []"
    using register_keeps_wf [where t = t, OF wf0 prems(1-3) assms(5), unfolded prems(4-7), OF unused pc inv assms(6), folded res] .
  have peers': "peers fd' = (peers fd)[k := (peers fd ! k)\<lparr>p_addr := address_field a, last_received_frame_ts := t\<rparr>]"
    using p by (simp add: res upd_peer_def prems peer_of_def)
  show "peer_of fd' q = (if q = p then (peer_of fd p)\<lparr>p_addr := address_field a, last_received_frame_ts := t\<rparr> else peer_of fd q)"
    using p k(1) word_unat_eq_iff [of q p] by (auto simp: peer_of_def peers' nth_list_update)
  have same: "is_primary_station fd'" "fd_mode fd' \<noteq> TINY_FD_MODE_ABM"
    using prems(2,3) by (simp_all add: res is_primary_station_def)
  have found: "target_peer fd' b = find_peer (peers fd') (address_field b) 0" for b
    by (rule primary_table(1) [OF keep(1) same])
  show "target_peer fd' a = p"
    using find_peer_new [OF unused k(1), of "(peers fd ! k)\<lparr>p_addr := address_field a, last_received_frame_ts := t\<rparr>" 0] k(2)
    by (simp add: found peers')
  show "target_peer fd' b = target_peer fd b" if b: "b < 64" "b \<noteq> a"
  proof -
    have a: "a < 64" using assms(5) by (simp add: word_less_nat_alt)
    have "address_field b \<noteq> HDLC_INVALID_PEER_INDEX" using address_field_low(1) [of b] by (auto simp: HDLC_INVALID_PEER_INDEX_def)
    then show ?thesis
      using k(1,3) address_field_inj [OF a b(1)] b(2) unfolding found peers' primary_table(1) [OF assms(1,3,4)]
      by (intro find_peer_old) auto
  qed
qed

text \<open>The search takes the first free entry, whatever the address is.\<close>

lemma first_free_entry:
  assumes "fd_wf fd" "find_free_peer (peers fd) 0 = Some p"
  shows "p < peers_count fd" "p_addr (peer_of fd p) = HDLC_INVALID_PEER_INDEX"
    and "q < p \<Longrightarrow> p_addr (peer_of fd q) \<noteq> HDLC_INVALID_PEER_INDEX"
proof -
  have n: "unat (peers_count fd) = length (peers fd)" "length (peers fd) < 255" using assms(1) by (simp_all add: fd_wf_def table_wf_def)
  obtain k where k: "k < length (peers fd)" "p = of_nat k" "p_addr (peers fd ! k) = HDLC_INVALID_PEER_INDEX"
      "\<forall>j < k. p_addr (peers fd ! j) \<noteq> HDLC_INVALID_PEER_INDEX"
    using find_free_peer_cases [of "peers fd" 0] assms(2) by auto
  have p: "unat p = k" using k(1,2) n(2) by (simp add: unat_of_nat)
  show "p < peers_count fd" using p k(1) n(1) by (simp add: word_less_nat_alt)
  show "p_addr (peer_of fd p) = HDLC_INVALID_PEER_INDEX" using k(3) p by (simp add: peer_of_def)
  show "q < p \<Longrightarrow> p_addr (peer_of fd q) \<noteq> HDLC_INVALID_PEER_INDEX" using k(4) p by (simp add: peer_of_def word_less_nat_alt)
qed

lemma no_free_entry:
  assumes "fd_wf fd" "find_free_peer (peers fd) 0 = None" "p < peers_count fd"
  shows "p_addr (peer_of fd p) \<noteq> HDLC_INVALID_PEER_INDEX"
proof
  assume inv: "p_addr (peer_of fd p) = HDLC_INVALID_PEER_INDEX"
  have "peer_of fd p \<in> set (peers fd)" using fd_wf_index [OF assms(1,3)] by (simp add: peer_of_def)
  then have "HDLC_INVALID_PEER_INDEX \<in> p_addr ` set (peers fd)" by (intro image_eqI [where x = "peer_of fd p"] inv [symmetric])
  then show False using find_free_peer_cases [of "peers fd" 0] assms(2) by simp
qed

text \<open>
  C22: \<open>tiny_fd_register_peer\<close> of a primary station fails and changes nothing for the address 0, for an address above 63, for an address that is registered
  already and when the table is full. Otherwise it succeeds: the first free entry gets the address and the time at which the timeout is over at once, the clock is read once, and nothing else of
  the state changes. For an address up to 62 with no frames left in the queue the invariant holds, the new peer has an empty window, the address leads to
  it, and every other address still leads to the peer it led to. The address 63, which the header file excludes, is taken like the
  others; its address field is then that of a free entry.
\<close>

theorem tiny_fd_register_peer_spec:
  assumes "fd_wf fd" "plain_addresses fd" "is_primary_station fd" "fd_mode fd \<noteq> TINY_FD_MODE_ABM" "tiny_fd_register_peer fd a = (r, fd')"
  shows "if a = 0 \<or> 63 < a \<or> target_peer fd a \<noteq> HDLC_INVALID_PEER_INDEX
       \<or> (\<forall>p < peers_count fd. p_addr (peer_of fd p) \<noteq> HDLC_INVALID_PEER_INDEX)
    then r = TINY_ERR_FAILED \<and> fd' = fd
    else r = TINY_SUCCESS \<and>
      (\<exists>p < peers_count fd. p_addr (peer_of fd p) = HDLC_INVALID_PEER_INDEX \<and> (\<forall>q < p. p_addr (peer_of fd q) \<noteq> HDLC_INVALID_PEER_INDEX)
         \<and> fd' = upd_peer p (\<lambda>x. x\<lparr>p_addr := address_field a,
             last_received_frame_ts := clock fd (ticks fd) - ucast (retry_timeout fd)\<rparr>) (fd\<lparr>ticks := ticks fd + 1\<rparr>)
         \<and> (a \<noteq> 63 \<and> i_lookup (address_field a) (i_queue fd) = Map.empty \<longrightarrow>
               fd_wf fd' \<and> plain_addresses fd' \<and> tx_window fd' p = [] \<and> target_peer fd' a = p
             \<and> (\<forall>b < 64. b \<noteq> a \<longrightarrow> target_peer fd' b = target_peer fd b)))"
proof (cases "63 < a \<or> a = 0 \<or> target_peer fd a \<noteq> HDLC_INVALID_PEER_INDEX")
  case True
  then show ?thesis
  proof (cases "63 < a")
    case False
    then have "a < 64" by (simp add: word_less_nat_alt)
    then show ?thesis using register_eq [OF assms(1,3,4), of a, unfolded assms(5)] True False by auto
  qed (use assms(5) in \<open>simp add: tiny_fd_register_peer_def\<close>)
next
  case new: False
  then have a: "a < 64" by (simp add: word_less_nat_alt)
  note eq = register_eq [OF assms(1,3,4) a, unfolded assms(5)]
  show ?thesis
  proof (cases "find_free_peer (peers fd) 0")
    case None
    then show ?thesis using eq new no_free_entry [OF assms(1) None] by auto
  next
    case (Some p)
    have res: "r = TINY_SUCCESS" "fd' = upd_peer p (\<lambda>x. x\<lparr>p_addr := address_field a,
        last_received_frame_ts := clock fd (ticks fd) - ucast (retry_timeout fd)\<rparr>) (fd\<lparr>ticks := ticks fd + 1\<rparr>)"
      using eq new Some by simp_all
    note free = first_free_entry [OF assms(1) Some]
    have none: "target_peer fd a = HDLC_INVALID_PEER_INDEX" using new by simp
    have "a \<noteq> 63 \<and> i_lookup (address_field a) (i_queue fd) = Map.empty \<longrightarrow>
               fd_wf fd' \<and> plain_addresses fd' \<and> tx_window fd' p = [] \<and> target_peer fd' a = p
             \<and> (\<forall>b < 64. b \<noteq> a \<longrightarrow> target_peer fd' b = target_peer fd b)"
    proof
      assume e: "a \<noteq> 63 \<and> i_lookup (address_field a) (i_queue fd) = Map.empty"
      then have a63: "a < 63" using a by (auto simp: word_less_nat_alt word_unat_eq_iff)
      note reg = register_free_entry [OF assms(1-4) a63 conjunct2 [OF e] none Some res(2)]
      show "fd_wf fd' \<and> plain_addresses fd' \<and> tx_window fd' p = [] \<and> target_peer fd' a = p
          \<and> (\<forall>b < 64. b \<noteq> a \<longrightarrow> target_peer fd' b = target_peer fd b)"
        using reg(3-7) by blast
    qed
    then have "\<exists>p < peers_count fd. p_addr (peer_of fd p) = HDLC_INVALID_PEER_INDEX \<and> (\<forall>q < p. p_addr (peer_of fd q) \<noteq> HDLC_INVALID_PEER_INDEX)
         \<and> fd' = upd_peer p (\<lambda>x. x\<lparr>p_addr := address_field a,
             last_received_frame_ts := clock fd (ticks fd) - ucast (retry_timeout fd)\<rparr>) (fd\<lparr>ticks := ticks fd + 1\<rparr>)
         \<and> (a \<noteq> 63 \<and> i_lookup (address_field a) (i_queue fd) = Map.empty \<longrightarrow>
               fd_wf fd' \<and> plain_addresses fd' \<and> tx_window fd' p = [] \<and> target_peer fd' a = p
             \<and> (\<forall>b < 64. b \<noteq> a \<longrightarrow> target_peer fd' b = target_peer fd b))"
      using free(1,2) free(3) res(2) by blast
    moreover have "\<not> (a = 0 \<or> 63 < a \<or> target_peer fd a \<noteq> HDLC_INVALID_PEER_INDEX
        \<or> (\<forall>p < peers_count fd. p_addr (peer_of fd p) \<noteq> HDLC_INVALID_PEER_INDEX))" using new free(1,2) by blast
    ultimately show ?thesis using res(1) by (simp only: if_False simp_thms)
  qed
qed

text \<open>A primary station with room for two peers.\<close>

definition demo_primary :: tiny_fd_data where
  "demo_primary = tiny_fd_fields demo_init 2 (fresh_queue linux_abi 5000 2 64) (fresh_queue linux_abi 6000 4 2) of_nat"

lemma demo_primary: "fd_wf demo_primary" "plain_addresses demo_primary" "is_primary_station demo_primary"
  "fd_mode demo_primary \<noteq> TINY_FD_MODE_ABM" "i_lookup a (i_queue demo_primary) = Map.empty"
  "target_peer demo_primary 5 = HDLC_INVALID_PEER_INDEX" "peers_count demo_primary = 2"
  "p_addr (peer_of demo_primary 0) = HDLC_INVALID_PEER_INDEX"
proof -
  have fi: "frame_info_ok linux_abi" by (simp add: frame_info_ok_def linux_abi_def)
  note q = fresh_queue_wf [OF fi, of 2 5000 64] fresh_queue_wf [OF fi, of 4 6000 2]
  have iq: "iq_wf (fresh_queue linux_abi 5000 2 64)" using q(1-3) by (intro iq_wf_all_free) simp_all
  have sq: "s_queue_wf (fresh_queue linux_abi 6000 4 2)" using q(6,7,9) by (simp add: s_queue_wf_def)
  note f = fields [where init = demo_init and npeers = 2 and clk = of_nat, folded demo_primary_def]
  have two: "(2 :: u8) \<noteq> 0" "(2 :: u8) < 255" by simp_all
  show wf: "fd_wf demo_primary" "plain_addresses demo_primary"
    using fields_wf [OF iq q(2) sq two, where init = demo_init and clk = of_nat] demo_init_facts(8) by (simp_all add: demo_primary_def)
  show prim: "is_primary_station demo_primary" "fd_mode demo_primary \<noteq> TINY_FD_MODE_ABM" "peers_count demo_primary = 2"
    using demo_init_facts(6,7) by (simp_all add: f demo_primary_def)
  show "i_lookup a (i_queue demo_primary) = Map.empty"
    using i_lookup_all_free [OF iq] q(2) by (auto simp: demo_primary_def fields)
  have none: "p_addr (peer_of demo_primary p) = HDLC_INVALID_PEER_INDEX" if "p < 2" for p
    using that demo_init_facts(8) by (simp add: demo_primary_def fields)
  show "p_addr (peer_of demo_primary 0) = HDLC_INVALID_PEER_INDEX" by (rule none) simp
  have "peers demo_primary = [peer_of demo_primary 0, peer_of demo_primary 1]"
    by (rule nth_equalityI) (auto simp: demo_primary_def fields(3) peer_of_def less_2_cases_iff)
  then have "address_field 5 \<notin> p_addr ` set (peers demo_primary)" "length (peers demo_primary) = 2"
    using none [of 0] none [of 1] by (simp_all add: address_field_def hdlc_addr_defs HDLC_INVALID_PEER_INDEX_def)
  then show "target_peer demo_primary 5 = HDLC_INVALID_PEER_INDEX"
    using find_peer_none [of 0 "peers demo_primary" "address_field 5"] primary_table(1) [OF wf(1) prim(1,2)] by simp
qed

theorem tiny_fd_register_peer_spec_witness:
  "\<exists>fd'. tiny_fd_register_peer demo_primary 5 = (TINY_SUCCESS, fd') \<and> fd_wf fd'
     \<and> (\<exists>p < 2. target_peer fd' 5 = p \<and> fd' = upd_peer p (\<lambda>x. x\<lparr>p_addr := address_field 5,
           last_received_frame_ts := clock demo_primary (ticks demo_primary) - ucast (retry_timeout demo_primary)\<rparr>)
         (demo_primary\<lparr>ticks := ticks demo_primary + 1\<rparr>))"
proof -
  obtain r fd' where run: "tiny_fd_register_peer demo_primary 5 = (r, fd')" by fastforce
  have ok: "\<not> ((5 :: u8) = 0 \<or> 63 < (5 :: u8) \<or> target_peer demo_primary 5 \<noteq> HDLC_INVALID_PEER_INDEX
      \<or> (\<forall>p < peers_count demo_primary. p_addr (peer_of demo_primary p) \<noteq> HDLC_INVALID_PEER_INDEX))"
    using demo_primary(6-8) by (auto intro!: exI [of _ 0])
  show ?thesis
    using tiny_fd_register_peer_spec [OF demo_primary(1-4) run] run demo_primary(5) [of "address_field 5"]
    unfolding if_not_P [OF ok] unfolding demo_primary(7) by auto
qed

subsection \<open>Disconnection\<close>

lemma allocate_free:
  "int (length data) \<le> q_mtu q \<Longrightarrow> fst (tiny_fd_queue_allocate q type data) = None \<longleftrightarrow> \<not> tiny_fd_queue_has_free_slots q"
  by (simp add: tiny_fd_queue_has_free_slots_def tiny_fd_queue_allocate_def split: option.split)

text \<open>
  \<open>tiny_fd_disconnect\<close>: with a free slot in the service queue it queues one \<open>DISC\<close> command for peer 0 and
  puts that peer into the state \<open>TINY_FD_STATE_DISCONNECTING\<close>, whatever state it was in; afterwards
  \<open>tiny_fd_get_status\<close> reports success, also for a peer that was not connected. Without a free slot it fails
  and changes nothing. The invariant holds and no frame of any window is lost.
\<close>

theorem tiny_fd_disconnect_spec:
  assumes "fd_wf fd" "tiny_fd_disconnect fd = (r, fd')"
  shows "fd_wf fd' \<and> tx_window fd' q = tx_window fd q \<and>
    (if tiny_fd_queue_has_free_slots (s_queue fd)
     then r = TINY_SUCCESS \<and> p_state (peer_of fd' 0) = TINY_FD_STATE_DISCONNECTING \<and> tiny_fd_get_status fd' = TINY_SUCCESS
       \<and> service_frames (s_queue fd') = add_mset (peer_to_address_field fd 0 OR HDLC_CR_BIT,
           HDLC_U_FRAME_TYPE_DISC OR HDLC_U_FRAME_BITS, []) (service_frames (s_queue fd))
     else r = TINY_ERR_FAILED \<and> fd' = fd)"
proof -
  let ?fr = "[peer_to_address_field fd 0 OR HDLC_CR_BIT, HDLC_U_FRAME_TYPE_DISC OR HDLC_U_FRAME_BITS]"
  obtain o1 fd1 where put: "put_u_s_frame_to_tx_queue fd TINY_FD_QUEUE_U_FRAME ?fr = (o1, fd1)" by fastforce
  have s: "s_queue_wf (s_queue fd)" and n: "0 < peers_count fd" using assms(1) by (auto simp: fd_wf_def table_wf_def word_less_nat_alt)
  note len = fd_wf_index [OF assms(1) n]
  have pr: "fd_wf fd1" "same_but_service fd fd1"
    using put_u_s_frame_preserves [OF assms(1), of TINY_FD_QUEUE_U_FRAME ?fr] put by simp_all
  note ops = put_ops [OF s, of TINY_FD_QUEUE_U_FRAME ?fr, unfolded put snd_conv]
  have free: "o1 = None \<longleftrightarrow> \<not> tiny_fd_queue_has_free_slots (s_queue fd)"
    using allocate_free [of "[]" "s_queue fd" TINY_FD_QUEUE_U_FRAME] s put
    by (auto simp: put_u_s_frame_to_tx_queue_def s_queue_wf_def split: prod.splits option.splits)
  show ?thesis
  proof (cases o1)
    case None
    then have "fd1 = fd" using put_u_s_frame_shape(3) [OF s put] by simp
    then show ?thesis using assms free None put by (simp add: tiny_fd_disconnect_def)
  next
    case (Some i)
    then have res: "r = TINY_SUCCESS" "fd' = upd_peer 0 (\<lambda>p. p\<lparr>p_state := TINY_FD_STATE_DISCONNECTING\<rparr>) fd1"
      using assms(2) put by (simp_all add: tiny_fd_disconnect_def)
    have pc: "0 < peers_count fd1" "unat 0 < length (peers fd1)" using same_but_service_fields(1,5) [OF pr(2)] n len by simp_all
    have "fd_wf fd'" unfolding res(2) by (rule fd_wf_upd_peer [OF pr(1) pc(1)]) simp_all
    moreover have "tx_window fd' q = tx_window fd q"
      using window_upd_peer [OF pc(2), of "\<lambda>p. p\<lparr>p_state := TINY_FD_STATE_DISCONNECTING\<rparr>"] ops(3) by (simp add: res(2))
    moreover have "p_state (peer_of fd' 0) = TINY_FD_STATE_DISCONNECTING" using pc(2) by (simp add: res(2) peer_of_upd_peer)
    ultimately show ?thesis using free Some res(1) ops(7) by (simp add: tiny_fd_get_status_def) (simp add: res(2))
  qed
qed

theorem tiny_fd_disconnect_spec_witness:
  "\<exists>fd'. tiny_fd_disconnect demo_fd2 = (TINY_SUCCESS, fd') \<and> p_state (peer_of fd' 0) = TINY_FD_STATE_DISCONNECTING
     \<and> tx_window fd' 0 = [[7], [8, 9]]"
proof -
  obtain r fd' where run: "tiny_fd_disconnect demo_fd2 = (r, fd')" by fastforce
  have "tiny_fd_queue_has_free_slots (s_queue demo_fd2)" by code_simp
  then show ?thesis using tiny_fd_disconnect_spec [OF demo_fd2_facts(1) run, of 0] run by (simp add: demo_fd2_facts)
qed

subsection \<open>Unnumbered information\<close>

text \<open>
  C23: \<open>tiny_fd_send_ui_packet_to\<close>: the service queue has slots for two bytes of payload, whatever the mtu of the
  protocol is, so every UI packet of more than two bytes is refused with \<open>TINY_ERR_DATA_TOO_LARGE\<close>. A shorter one
  is refused for an unknown peer and when no slot is free, without any change; otherwise exactly this frame joins
  the service frames that wait to be sent. The invariant holds in every case.
\<close>

theorem tiny_fd_send_ui_packet_outcome:
  assumes "fd_wf fd" "target_peer fd address = p" "tiny_fd_send_ui_packet_to fd address data = (r, fd')"
  shows "fd_wf fd' \<and>
    (if 2 < length data then r = TINY_ERR_DATA_TOO_LARGE \<and> fd' = fd
     else if p = HDLC_INVALID_PEER_INDEX then r = TINY_ERR_UNKNOWN_PEER \<and> fd' = fd
     else if \<not> tiny_fd_queue_has_free_slots (s_queue fd) then r = TINY_ERR_FAILED \<and> fd' = fd
     else r = TINY_SUCCESS \<and> service_frames (s_queue fd')
       = add_mset (peer_to_address_field fd p, HDLC_U_FRAME_TYPE_UI OR HDLC_U_FRAME_BITS, data) (service_frames (s_queue fd)))"
proof -
  have s: "s_queue_wf (s_queue fd)" and q: "queue_wf (s_queue fd)" "q_mtu (s_queue fd) = 2" using assms(1) by (simp_all add: fd_wf_def s_queue_wf_def)
  obtain o1 q1 where al: "tiny_fd_queue_allocate (s_queue fd) TINY_FD_QUEUE_U_FRAME data = (o1, q1)" by fastforce
  consider (large) "2 < length data" | (unknown) "length data \<le> 2" "p = HDLC_INVALID_PEER_INDEX"
    | (full) "length data \<le> 2" "p \<noteq> HDLC_INVALID_PEER_INDEX" "o1 = None"
    | (put) i where "length data \<le> 2" "p \<noteq> HDLC_INVALID_PEER_INDEX" "o1 = Some i" by force
  then show ?thesis
  proof cases
    case large
    then show ?thesis using assms q(2) by (simp add: tiny_fd_send_ui_packet_to_def tiny_fd_queue_get_mtu_def)
  next
    case unknown
    then show ?thesis using assms q(2) by (simp add: tiny_fd_send_ui_packet_to_def tiny_fd_queue_get_mtu_def)
  next
    case full
    then have "q1 = s_queue fd" using al allocate_None_same by blast
    moreover have "\<not> tiny_fd_queue_has_free_slots (s_queue fd)" using allocate_free [of data "s_queue fd" TINY_FD_QUEUE_U_FRAME] al full q(2) by simp
    ultimately show ?thesis
      using full assms al q(2) by (auto simp: tiny_fd_send_ui_packet_to_def tiny_fd_queue_get_mtu_def)
  next
    case put
    note a = allocate_Some [OF q(1) al [unfolded put(3)]]
    define f where "f = (put_payload data (q_frames (s_queue fd) ! i))\<lparr>f_type := TINY_FD_QUEUE_U_FRAME,
      f_address := peer_to_address_field fd p, f_control := HDLC_U_FRAME_TYPE_UI OR HDLC_U_FRAME_BITS\<rparr>"
    have res: "r = TINY_SUCCESS" "fd' = set_events FD_EVENT_TX_DATA_AVAILABLE (fd\<lparr>s_queue := set_slot (s_queue fd) i f\<rparr>)"
      using assms(2,3) al put a(1,4) q(2)
      by (auto simp: tiny_fd_send_ui_packet_to_def tiny_fd_queue_get_mtu_def f_def set_slot_def)
    have "slot_wf 2 f" using queue_wf_nth [OF q(1) a(1)] put(1) q(2) by (auto simp: f_def slot_wf_def put_payload_def)
    then have "s_queue_wf (set_slot (s_queue fd) i f)"
      using s_queue_wf_set_slot [OF s a(1)] by (auto simp: f_def put_payload_def)
    moreover have "frame_data f = data" by (simp add: f_def frame_data_def put_payload_def)
    moreover have "tiny_fd_queue_has_free_slots (s_queue fd)" using allocate_free [of data "s_queue fd" TINY_FD_QUEUE_U_FRAME] al put q(2) by simp
    moreover have "f_type f \<noteq> TINY_FD_QUEUE_FREE" by (simp add: f_def queue_type_defs)
    ultimately show ?thesis
      using put(1,2) fd_wf_s_queue [OF assms(1)] service_frames_set_slot [OF a(1,2), of f] res
      by (simp add: f_def) (simp add: set_events_def)
  qed
qed

theorem tiny_fd_send_ui_packet_outcome_witness:
  "tiny_fd_send_ui_packet_to demo_primary 5 [1, 2, 3] = (TINY_ERR_DATA_TOO_LARGE, demo_primary) \<and> tiny_fd_get_mtu demo_primary = 64"
proof -
  obtain r fd' where run: "tiny_fd_send_ui_packet_to demo_primary 5 [1, 2, 3] = (r, fd')" by fastforce
  have "tiny_fd_get_mtu demo_primary = 64"
    by (simp add: tiny_fd_get_mtu_def tiny_fd_queue_get_mtu_def demo_primary_def fields fresh_queue_def)
  then show ?thesis using tiny_fd_send_ui_packet_outcome [OF demo_primary(1) refl run] run by simp
qed

end
