(* ===== verification/TinyList.thy ===== *)
theory TinyList
  imports TinyPrelude
begin

unbundle bit_operations_syntax

section \<open>Doubly linked lists: src/hal/tiny_list.c\<close>

text \<open>
  The elements belong to the callers; the list links them. The state of the two link fields is a heap, with
  addresses as pointers and 0 as the null pointer. Every operation holds the one mutex of the module from start to
  end, so an operation is one step; \<open>tiny_list_init\<close>, which creates that mutex, has nothing else to do.
\<close>

subsection \<open>Operations\<close>

record list_heap =
  pnext :: "nat \<Rightarrow> nat"
  pprev :: "nat \<Rightarrow> nat"
  s_uid :: u16

text \<open>The result holds the new value of \<open>*head\<close>.\<close>

definition tiny_list_add :: "nat \<Rightarrow> nat \<Rightarrow> list_heap \<Rightarrow> u16 \<times> nat \<times> list_heap" where
  "tiny_list_add head element s =
     (let uid = s_uid s;
          s = s\<lparr>s_uid := uid + 1\<rparr>;
          s = s\<lparr>pnext := (pnext s)(element := head)\<rparr>;
          s = s\<lparr>pprev := (pprev s)(element := 0)\<rparr>;
          s = (if head \<noteq> 0 then s\<lparr>pprev := (pprev s)(head := element)\<rparr> else s)
      in (uid AND 0x0FFF, element, s))"

definition tiny_list_remove :: "nat \<Rightarrow> nat \<Rightarrow> list_heap \<Rightarrow> nat \<times> list_heap" where
  "tiny_list_remove head element s =
     (let (head, s) =
        (if element = head then
           let head = pnext s element
           in (head, if head \<noteq> 0 then s\<lparr>pprev := (pprev s)(head := 0)\<rparr> else s)
         else
           let s = (if pprev s element \<noteq> 0 then s\<lparr>pnext := (pnext s)(pprev s element := pnext s element)\<rparr> else s);
               s = (if pnext s element \<noteq> 0 then s\<lparr>pprev := (pprev s)(pnext s element := pprev s element)\<rparr> else s)
           in (head, s));
          s = s\<lparr>pprev := (pprev s)(element := 0)\<rparr>;
          s = s\<lparr>pnext := (pnext s)(element := 0)\<rparr>
      in (head, s))"

definition tiny_list_clear :: "nat \<Rightarrow> nat" where
  "tiny_list_clear head = 0"

text \<open>
  The callback works on a state \<open>'a\<close> of the caller; it runs under the mutex and cannot use the list. \<open>None\<close>: the
  loop does not end.
\<close>

partial_function (option) tiny_list_enumerate :: "nat \<Rightarrow> (nat \<Rightarrow> u16 \<Rightarrow> 'a \<Rightarrow> u8 \<times> 'a) \<Rightarrow> u16 \<Rightarrow> list_heap \<Rightarrow> 'a \<Rightarrow> 'a option" where
  "tiny_list_enumerate head enumerate_func data s a =
     (if head = 0 then Some a
      else case enumerate_func head data a of (r, a) \<Rightarrow>
        if r = 0 then Some a else tiny_list_enumerate (pnext s head) enumerate_func data s a)"

subsection \<open>The list in the heap\<close>

text \<open>From \<open>p\<close>, reached from \<open>prev\<close>, the links lead through the elements \<open>xs\<close> to \<open>q\<close>, and back.\<close>

fun dpath :: "list_heap \<Rightarrow> nat \<Rightarrow> nat \<Rightarrow> nat list \<Rightarrow> nat \<Rightarrow> bool" where
  "dpath s prev p [] q \<longleftrightarrow> p = q"
| "dpath s prev p (x # xs) q \<longleftrightarrow> p \<noteq> 0 \<and> x = p \<and> pprev s p = prev \<and> dpath s p (pnext s p) xs q"

definition dlist :: "list_heap \<Rightarrow> nat \<Rightarrow> nat list \<Rightarrow> bool" where
  "dlist s head xs \<longleftrightarrow> dpath s 0 head xs 0 \<and> distinct xs"

lemma dpath_append: "dpath s prev p (xs @ ys) q \<longleftrightarrow> (\<exists>r. dpath s prev p xs r \<and> dpath s (last (prev # xs)) r ys q)"
  by (induction xs arbitrary: prev p) auto

lemma dpath_cong:
  "(\<And>x. x \<in> set xs \<Longrightarrow> pnext s' x = pnext s x \<and> pprev s' x = pprev s x) \<Longrightarrow> dpath s' prev p xs q = dpath s prev p xs q"
  by (induction xs arbitrary: prev p) auto

lemma dpath_nonzero: "dpath s prev p xs q \<Longrightarrow> 0 \<notin> set xs"
  by (induction xs arbitrary: prev p) auto

lemma tiny_list_add_dlist:
  assumes "dlist s head xs" "e \<noteq> 0" "e \<notin> set xs" "tiny_list_add head e s = (uid, head', s')"
  shows "dlist s' head' (e # xs)" "uid = s_uid s AND 0x0FFF" "s_uid s' = s_uid s + 1"
proof -
  show "dlist s' head' (e # xs)"
  proof (cases xs)
    case Nil
    then show ?thesis using assms by (auto simp: tiny_list_add_def dlist_def Let_def)
  next
    case (Cons x ys)
    then have x: "x = head" "head \<noteq> 0" "head \<notin> set ys" "e \<noteq> head" "e \<notin> set ys" "dpath s head (pnext s head) ys 0" "distinct ys"
      using assms(1,3) by (auto simp: dlist_def)
    have s': "head' = e" "pnext s' e = head" "pprev s' e = 0" "pprev s' head = e" "pnext s' head = pnext s head"
      "\<And>y. y \<in> set ys \<Longrightarrow> pnext s' y = pnext s y \<and> pprev s' y = pprev s y"
      using assms(4) x by (auto simp: tiny_list_add_def Let_def)
    have "dpath s' head (pnext s head) ys 0" using x(6) s'(6) dpath_cong by blast
    then show ?thesis using s' x assms(2) Cons by (simp add: dlist_def)
  qed
  show "uid = s_uid s AND 0x0FFF" "s_uid s' = s_uid s + 1" using assms(4) by (auto simp: tiny_list_add_def Let_def split: if_splits)
qed

text \<open>What the removal does to the links.\<close>

lemma tiny_list_remove_links:
  assumes "e \<notin> {pprev s e, pnext s e}" "pprev s e = 0 \<longleftrightarrow> e = head"
    and "tiny_list_remove head e s = (head', s')"
  shows "head' = (if e = head then pnext s e else head)" "s_uid s' = s_uid s"
    "pnext s' = (if e = head then pnext s else (pnext s)(pprev s e := pnext s e))(e := 0)"
    "pprev s' = (if pnext s e \<noteq> 0 then (pprev s)(pnext s e := pprev s e) else pprev s)(e := 0)"
  using assms by (auto simp: tiny_list_remove_def Let_def split: if_splits)

lemma tiny_list_remove_dlist:
  assumes "dlist s head xs" "e \<in> set xs" "tiny_list_remove head e s = (head', s')"
  shows "dlist s' head' (remove1 e xs)" "s_uid s' = s_uid s" "pnext s' e = 0" "pprev s' e = 0"
proof -
  obtain ys zs where xs: "xs = ys @ e # zs" using split_list [OF assms(2)] by blast
  have d: "e \<notin> set ys" "e \<notin> set zs" "distinct ys" "distinct zs" "set ys \<inter> set zs = {}"
    using assms(1) by (auto simp: dlist_def xs)
  have path: "dpath s 0 head ys e" "pprev s e = last (0 # ys)" "dpath s e (pnext s e) zs 0" "e \<noteq> 0"
    using assms(1) by (auto simp: dlist_def xs dpath_append)
  have last: "last (0 # ys) = 0 \<longleftrightarrow> ys = []" "last (0 # ys) \<in> insert 0 (set ys)"
    using dpath_nonzero [OF path(1)] by (cases ys rule: rev_cases; auto)+
  have head: "e = head \<longleftrightarrow> ys = []" using path(1) d(1) by (cases ys) auto
  have nxt: "pnext s e = (case zs of [] \<Rightarrow> 0 | z # _ \<Rightarrow> z)" using path(3) by (cases zs) auto
  have "e \<notin> {pprev s e, pnext s e}" using path(2,4) last d(1,2) nxt by (auto split: list.splits)
  moreover have "pprev s e = 0 \<longleftrightarrow> e = head" using path(2) last(1) head by simp
  ultimately have s': "head' = (if e = head then pnext s e else head)" "s_uid s' = s_uid s"
    "pnext s' = (if e = head then pnext s else (pnext s)(last (0 # ys) := pnext s e))(e := 0)"
    "pprev s' = (if pnext s e \<noteq> 0 then (pprev s)(pnext s e := last (0 # ys)) else pprev s)(e := 0)"
    using tiny_list_remove_links [OF _ _ assms(3)] path(2) by simp_all
  have front: "dpath s' 0 head' ys (pnext s e)"
  proof (cases ys rule: rev_cases)
    case Nil
    then show ?thesis using s'(1) head by simp
  next
    case (snoc us u)
    have u: "u \<notin> set us" "u \<noteq> e" "u \<noteq> pnext s e" "pnext s e \<notin> set us" "e \<notin> set us"
      using d nxt dpath_nonzero [OF path(1)] by (auto simp: snoc split: list.splits)
    have "dpath s' 0 head us r = dpath s 0 head us r" for r
      by (rule dpath_cong) (use s'(3,4) head u snoc in auto)
    moreover have "pnext s' u = pnext s e" "pprev s' u = pprev s u" using s'(3,4) head u snoc by auto
    ultimately show ?thesis using path(1) s'(1) head by (auto simp: snoc dpath_append)
  qed
  have "dpath s' (last (0 # ys)) (pnext s e) zs 0"
  proof (cases zs)
    case Nil
    then show ?thesis using nxt by simp
  next
    case (Cons z zs')
    obtain l where l: "l = last (0 # ys)" by blast
    have z: "pnext s e = z" "z \<noteq> 0" "z \<noteq> e" "z \<notin> set zs'" "e \<notin> set zs'" "dpath s z (pnext s z) zs' 0"
      using path(3) d by (auto simp: Cons)
    have lz: "l \<noteq> z" "l \<notin> set zs'" using last(2) d(5) dpath_nonzero [OF path(3)] unfolding l [symmetric] by (auto simp: Cons)
    have r: "pnext s' = (if e = head then pnext s else (pnext s)(l := z))(e := 0)" "pprev s' = (pprev s)(z := l, e := 0)"
      using s'(3,4) z(2) unfolding l [symmetric] z(1) by simp_all
    have "dpath s' z (pnext s z) zs' 0 = dpath s z (pnext s z) zs' 0"
      by (rule dpath_cong) (use r z(4,5) lz in auto)
    moreover have "pnext s' z = pnext s z" "pprev s' z = last (0 # ys)" using r z(3) lz l by simp_all
    ultimately show ?thesis using z Cons by simp
  qed
  with front have "dpath s' 0 head' (ys @ zs) 0" by (auto simp: dpath_append)
  then show "dlist s' head' (remove1 e xs)" using d by (simp add: dlist_def xs remove1_append)
  show "s_uid s' = s_uid s" "pnext s' e = 0" "pprev s' e = 0" using s' by auto
qed

subsection \<open>Any sequence of calls\<close>

datatype list_op = LAdd nat | LRemove nat | LClear

text \<open>The code, with the results of \<open>tiny_list_add\<close>; and the list as the callers see it.\<close>

fun run_list :: "list_op list \<Rightarrow> nat \<times> list_heap \<Rightarrow> u16 list \<times> nat \<times> list_heap" where
  "run_list [] (head, s) = ([], head, s)"
| "run_list (LAdd e # ops) (head, s) =
     (case tiny_list_add head e s of (uid, head, s) \<Rightarrow> case run_list ops (head, s) of (uids, r) \<Rightarrow> (uid # uids, r))"
| "run_list (LRemove e # ops) (head, s) = run_list ops (tiny_list_remove head e s)"
| "run_list (LClear # ops) (head, s) = run_list ops (tiny_list_clear head, s)"

fun list_spec :: "list_op list \<Rightarrow> nat list \<Rightarrow> nat list" where
  "list_spec [] xs = xs"
| "list_spec (LAdd e # ops) xs = list_spec ops (e # xs)"
| "list_spec (LRemove e # ops) xs = list_spec ops (remove1 e xs)"
| "list_spec (LClear # ops) xs = list_spec ops []"

text \<open>The callers add what is not in the list and remove what is.\<close>

fun list_ops_ok :: "list_op list \<Rightarrow> nat list \<Rightarrow> bool" where
  "list_ops_ok [] xs \<longleftrightarrow> True"
| "list_ops_ok (LAdd e # ops) xs \<longleftrightarrow> e \<noteq> 0 \<and> e \<notin> set xs \<and> list_ops_ok ops (e # xs)"
| "list_ops_ok (LRemove e # ops) xs \<longleftrightarrow> e \<in> set xs \<and> list_ops_ok ops (remove1 e xs)"
| "list_ops_ok (LClear # ops) xs \<longleftrightarrow> list_ops_ok ops []"

fun adds :: "list_op list \<Rightarrow> nat" where
  "adds [] = 0"
| "adds (LAdd e # ops) = Suc (adds ops)"
| "adds (LRemove e # ops) = adds ops"
| "adds (LClear # ops) = adds ops"

text \<open>The elements in order, up to the first for which the callback returns 0.\<close>

fun visit :: "(nat \<Rightarrow> u16 \<Rightarrow> 'a \<Rightarrow> u8 \<times> 'a) \<Rightarrow> u16 \<Rightarrow> nat list \<Rightarrow> 'a \<Rightarrow> 'a" where
  "visit f data [] a = a"
| "visit f data (x # xs) a = (case f x data a of (r, a) \<Rightarrow> if r = 0 then a else visit f data xs a)"

lemma tiny_list_enumerate_visits: "dpath s prev p xs 0 \<Longrightarrow> tiny_list_enumerate p f data s a = Some (visit f data xs a)"
proof (induction xs arbitrary: prev p a)
  case Nil
  then show ?case by (subst tiny_list_enumerate.simps) simp
next
  case (Cons x xs)
  then show ?case by (subst tiny_list_enumerate.simps) (auto split: prod.splits)
qed

lemma run_list_uids:
  "run_list ops (head, s) = (uids, head', s') \<Longrightarrow> list_ops_ok ops xs \<Longrightarrow> dlist s head xs
     \<Longrightarrow> dlist s' head' (list_spec ops xs) \<and> uids = map (\<lambda>i. (s_uid s + of_nat i) AND 0x0FFF) [0..<adds ops]"
proof (induction ops "(head, s)" arbitrary: uids head s xs rule: run_list.induct)
  case (1 head s)
  then show ?case by simp
next
  case (2 e ops head s)
  obtain uid head1 s1 where add: "tiny_list_add head e s = (uid, head1, s1)" by (metis prod_cases3)
  obtain uids1 head2 s2 where r: "run_list ops (head1, s1) = (uids1, head2, s2)" by (metis prod_cases3)
  have "dlist s1 head1 (e # xs)" "uid = s_uid s AND 0x0FFF" "s_uid s1 = s_uid s + 1"
    using tiny_list_add_dlist [OF 2(4) _ _ add] 2(3) by simp_all
  moreover from this have "dlist s' head' (list_spec ops (e # xs)) \<and> uids1 = map (\<lambda>i. (s_uid s1 + of_nat i) AND 0x0FFF) [0..<adds ops]"
    using 2(1) [OF add [symmetric] refl, of uids1 "e # xs"] 2(2,3) add r by simp
  moreover have "uids = uid # uids1" using 2(2) add r by simp
  ultimately show ?case by (simp add: upt_conv_Cons map_Suc_upt [symmetric] add.assoc del: upt_Suc)
next
  case (3 e ops head s)
  obtain head1 s1 where rem: "tiny_list_remove head e s = (head1, s1)" by fastforce
  then have "dlist s1 head1 (remove1 e xs)" "s_uid s1 = s_uid s" using tiny_list_remove_dlist [OF 3(4) _ rem] 3(3) by simp_all
  then show ?case using 3(1) [OF rem, of uids "remove1 e xs"] 3(2,3) rem by simp
next
  case (4 ops head s)
  have "dlist s (tiny_list_clear head) []" by (simp add: tiny_list_clear_def dlist_def)
  then show ?case using 4(1) [of uids "[]"] 4(2,3) by simp
qed

text \<open>
  C35: After any sequence of calls in which the callers add only elements that are not in the list and remove only elements that
  are, the heap holds exactly the list that the callers expect, newest element first and linked both ways; the identifiers
  handed out count up modulo 4096; and \<open>tiny_list_enumerate\<close> returns, having called the callback on the
  elements in order up to the first for which it returns 0.
\<close>

theorem tiny_list_refines:
  assumes "dlist s head xs" "list_ops_ok ops xs" "run_list ops (head, s) = (uids, head', s')"
  shows "dlist s' head' (list_spec ops xs) \<and> uids = map (\<lambda>i. (s_uid s + of_nat i) AND 0x0FFF) [0..<adds ops]
    \<and> tiny_list_enumerate head' f data s' a = Some (visit f data (list_spec ops xs) a)"
  using run_list_uids [OF assms(3,2,1)] tiny_list_enumerate_visits by (auto simp: dlist_def)

theorem tiny_list_refines_witness:
  "\<exists>s' head'. run_list [LAdd 10, LAdd 20, LAdd 30, LRemove 20] (0, \<lparr>pnext = \<lambda>_. 0, pprev = \<lambda>_. 0, s_uid = 0xFFFF\<rparr>) = ([0xFFF, 0, 1], head', s')
     \<and> dlist s' head' [30, 10] \<and> tiny_list_enumerate head' (\<lambda>x _ l. (1, l @ [x])) 0 s' [] = Some [30, 10]"
proof -
  let ?s = "\<lparr>pnext = \<lambda>_. 0, pprev = \<lambda>_. 0, s_uid = 0xFFFF\<rparr>" and ?ops = "[LAdd 10, LAdd 20, LAdd 30, LRemove 20]"
  obtain uids head' s' where r: "run_list ?ops (0, ?s) = (uids, head', s')" by (metis prod_cases3)
  have "dlist ?s 0 []" "list_ops_ok ?ops []" by (simp_all add: dlist_def)
  from tiny_list_refines [OF this r, of "\<lambda>x _ l. (1, l @ [x])" 0 "[]"] r show ?thesis
    by (simp add: numeral_3_eq_3)
qed

end
