(* ===== verification/LineDevice.thy ===== *)
theory LineDevice
  imports HdlcTx
begin

section \<open>The device of the application\<close>

text \<open>
  The blocking protocols write to and read from a device through functions of the application
  (\<open>write_block_cb_t\<close> and \<open>read_block_cb_t\<close> of \<open>src/hal/tiny_types.h\<close>, \<open>send_tx\<close> of the HDLC protocol). A device is a
  state \<open>'d\<close>; a write returns a count or an error with the new state, a read (of one byte) the byte as well. This
  theory says what it means that a device takes or supplies a sequence of bytes, and holds two devices for the
  concrete instances.
\<close>

type_synonym 'd write_block = "'d \<Rightarrow> u8 list \<Rightarrow> int \<times> 'd"
type_synonym 'd read_block = "'d \<Rightarrow> int \<times> u8 \<times> 'd"

text \<open>
  The device takes the bytes one by one and may be busy in between; it supplies the bytes one by one and may
  be idle in between.
\<close>

inductive takes :: "'d write_block \<Rightarrow> 'd \<Rightarrow> u8 list \<Rightarrow> 'd \<Rightarrow> bool" for w :: "'d write_block" where
  takes_Nil: "takes w d [] d"
| takes_byte: "w d [b] = (1, d1) \<Longrightarrow> takes w d1 bs d' \<Longrightarrow> takes w d (b # bs) d'"
| takes_busy: "w d [b] = (0, d1) \<Longrightarrow> takes w d1 (b # bs) d' \<Longrightarrow> takes w d (b # bs) d'"

inductive supplies :: "'d read_block \<Rightarrow> 'd \<Rightarrow> u8 list \<Rightarrow> 'd \<Rightarrow> bool" for r :: "'d read_block" where
  supplies_Nil: "supplies r d [] d"
| supplies_byte: "r d = (1, b, d1) \<Longrightarrow> supplies r d1 bs d' \<Longrightarrow> supplies r d (b # bs) d'"
| supplies_idle: "r d = (0, b, d1) \<Longrightarrow> bs \<noteq> [] \<Longrightarrow> supplies r d1 bs d' \<Longrightarrow> supplies r d bs d'"

inductive_cases takes_NilE: "takes w d [] d'"

lemma takes_appendE: "takes w d (xs @ ys) d' \<Longrightarrow> (\<And>d1. takes w d xs d1 \<Longrightarrow> takes w d1 ys d' \<Longrightarrow> P) \<Longrightarrow> P"
proof (induction d "xs @ ys" d' arbitrary: xs P rule: takes.induct)
  case (takes_byte d b d1 bs d')
  then show ?case by (cases xs) (auto intro: takes.intros)
next
  case (takes_busy d b d1 bs d')
  then show ?case by (cases xs) (auto intro: takes.intros)
qed (auto intro: takes_Nil)

subsection \<open>The frame in the low level\<close>

text \<open>The handle of such a protocol is a low level handle whose \<open>user_data\<close> is the state of the protocol.\<close>

lemma tx_user [simp]:
  "tx_wf (h\<lparr>user_data := u\<rparr>) = tx_wf h" "tx_remaining (h\<lparr>user_data := u\<rparr>) = tx_remaining h"
  by (cases "tx_state h"; simp add: tx_wf_def tx_remaining_def)+

lemma tx_origin_remaining: "tx_wf h \<Longrightarrow> tx_origin h = 0 \<longleftrightarrow> tx_remaining h = []"
  by (auto simp: tx_remaining_eq_Nil_iff tx_wf_def split: tx_fn.splits)

subsection \<open>A line without losses\<close>

definition line_write :: "u8 list write_block" where
  "line_write d bs = (int (length bs), d @ bs)"

definition line_read :: "u8 list read_block" where
  "line_read d = (case d of [] \<Rightarrow> (0, 0, []) | b # bs \<Rightarrow> (1, b, bs))"

lemma line_takes: "takes line_write d bs (d @ bs)"
proof (induction bs arbitrary: d)
  case (Cons b bs)
  show ?case by (rule takes_byte [of _ d b "d @ [b]"]) (use Cons [of "d @ [b]"] in \<open>simp_all add: line_write_def\<close>)
qed (simp add: takes_Nil)

lemma line_supplies: "supplies line_read bs bs []"
  by (induction bs) (auto simp: line_read_def intro: supplies.intros)

text \<open>A line that breaks at its third byte and works again afterwards.\<close>

definition broken_write :: "u8 list write_block" where
  "broken_write d bs = (if length d = 2 then (TINY_ERR_FAILED, d @ [0]) else (int (length bs), d @ bs))"

lemma broken_takes: "length d \<noteq> 2 \<Longrightarrow> 2 < length d \<or> length d + length bs \<le> 2 \<Longrightarrow> takes broken_write d bs (d @ bs)"
proof (induction bs arbitrary: d)
  case (Cons b bs)
  show ?case
  proof (rule takes_byte [of _ d b "d @ [b]"])
    show "broken_write d [b] = (1, d @ [b])" using Cons.prems by (simp add: broken_write_def)
    show "takes broken_write (d @ [b]) bs (d @ b # bs)"
      using Cons.IH [of "d @ [b]"] Cons.prems by (cases bs) (auto simp: takes_Nil)
  qed
qed (simp add: takes_Nil)

end
