(* ===== verification/TinyPacket.thy ===== *)
theory TinyPacket
  imports HdlcTx
begin

unbundle bit_operations_syntax

section \<open>Packets: src/TinyPacket.h\<close>

text \<open>
  The class \<open>IPacket\<close> writes to and reads from a buffer that it does not own: two packets may share one. So a
  packet is a record with the address of its buffer, and an operation takes the memory and gives it back.
  No operation but one compares a position with the size of the buffer; what lies outside the buffer is
  memory like any other here.
  \<^item> Pointers are addresses, 0 is the null pointer; an \<open>int\<close> of the class is an \<open>int\<close>.
  \<^item> A \<open>char\<close> and an \<open>int16_t\<close> are the words of their representation.
  \<^item> A string is the list of its characters, without the zero that ends it.
\<close>

subsection \<open>The class\<close>

type_synonym memory = "nat \<Rightarrow> u8"

record ipacket =
  m_buf :: nat
  m_next :: nat
  m_prev :: nat
  m_size :: int
  m_len :: int
  m_p :: int

definition packet_new :: "nat \<Rightarrow> int \<Rightarrow> ipacket" where
  "packet_new buf sz = \<lparr>m_buf = buf, m_next = 0, m_prev = 0, m_size = sz, m_len = 0, m_p = 0\<rparr>"

definition packet_empty :: ipacket where
  "packet_empty = \<lparr>m_buf = 0, m_next = 0, m_prev = 0, m_size = 0, m_len = 0, m_p = 0\<rparr>"

definition packet_copy :: "ipacket \<Rightarrow> ipacket" where
  "packet_copy packet = \<lparr>m_buf = m_buf packet, m_next = 0, m_prev = 0, m_size = m_size packet, m_len = m_len packet, m_p = 0\<rparr>"

definition packet_assign :: "ipacket \<Rightarrow> ipacket \<Rightarrow> ipacket" where
  "packet_assign k source = k\<lparr>m_size := m_size source, m_buf := m_buf source\<rparr>"

definition packet_clear :: "ipacket \<Rightarrow> ipacket" where
  "packet_clear k = k\<lparr>m_len := 0, m_p := 0\<rparr>"

definition packet_allocate :: "int \<Rightarrow> ipacket \<Rightarrow> ipacket" where
  "packet_allocate bytes k = k\<lparr>m_len := m_len k + bytes\<rparr>"

definition packet_size :: "ipacket \<Rightarrow> int" where "packet_size k = m_len k"
definition packet_max_size :: "ipacket \<Rightarrow> int" where "packet_max_size k = m_size k"
definition packet_data :: "ipacket \<Rightarrow> nat" where "packet_data k = m_buf k"

text \<open>\<open>size_t\<close> has the width of a pointer.\<close>

definition size_t :: "c_abi \<Rightarrow> int \<Rightarrow> nat" where
  "size_t abi i = nat (i mod 2 ^ (8 * sizeof_ptr abi))"

definition packet_available_bytes :: "c_abi \<Rightarrow> ipacket \<Rightarrow> nat" where
  "packet_available_bytes abi k = size_t abi (m_len k - m_p k)"

text \<open>The address of \<open>m_buf[i]\<close>.\<close>

definition packet_at :: "ipacket \<Rightarrow> int \<Rightarrow> nat" where
  "packet_at k i = nat (int (m_buf k) + i)"

subsection \<open>Writing\<close>

definition put_u8 :: "u8 \<Rightarrow> memory \<times> ipacket \<Rightarrow> memory \<times> ipacket" where
  "put_u8 b = (\<lambda>(m, k). (m(packet_at k (m_len k) := b), k\<lparr>m_len := m_len k + 1\<rparr>))"

definition put_char :: "u8 \<Rightarrow> memory \<times> ipacket \<Rightarrow> memory \<times> ipacket" where
  "put_char chr = put_u8 chr"

definition put_u16 :: "u16 \<Rightarrow> memory \<times> ipacket \<Rightarrow> memory \<times> ipacket" where
  "put_u16 d = (\<lambda>(m, k).
     let m = m(packet_at k (m_len k) := ucast (d AND 0x00FF)); k = k\<lparr>m_len := m_len k + 1\<rparr>;
         m = m(packet_at k (m_len k) := ucast (drop_bit 8 d)); k = k\<lparr>m_len := m_len k + 1\<rparr>
     in (m, k))"

definition put_u32 :: "u32 \<Rightarrow> memory \<times> ipacket \<Rightarrow> memory \<times> ipacket" where
  "put_u32 d s = put_u16 (ucast (drop_bit 16 d)) (put_u16 (ucast (d AND 0x0000FFFF)) s)"

definition put_i16 :: "u16 \<Rightarrow> memory \<times> ipacket \<Rightarrow> memory \<times> ipacket" where
  "put_i16 d = put_u16 d"

text \<open>\<open>strncpy\<close> copies the string, and fills up with zeros; \<open>memcpy\<close> copies bytes.\<close>

definition strncpy :: "nat \<Rightarrow> u8 list \<Rightarrow> nat \<Rightarrow> memory \<Rightarrow> memory" where
  "strncpy dst str n m = (\<lambda>a. if dst \<le> a \<and> a < dst + n then if a - dst < length str then str ! (a - dst) else 0 else m a)"

definition memcpy :: "nat \<Rightarrow> nat \<Rightarrow> nat \<Rightarrow> memory \<Rightarrow> memory" where
  "memcpy dst src n m = (\<lambda>a. if dst \<le> a \<and> a < dst + n then m (src + (a - dst)) else m a)"

definition put_str :: "c_abi \<Rightarrow> u8 list \<Rightarrow> memory \<times> ipacket \<Rightarrow> memory \<times> ipacket" where
  "put_str abi str = (\<lambda>(m, k).
     let room = m_size k - m_len k - 1 in
     if room = 0 then (m, k)
     else let str_size = int (length str);
              m = strncpy (packet_at k (m_len k)) str (size_t abi room) m;
              k = k\<lparr>m_len := m_len k + (if str_size < room then str_size else room)\<rparr>
          in (m(packet_at k (m_len k) := 0), k\<lparr>m_len := m_len k + 1\<rparr>))"

definition put_packet :: "ipacket \<Rightarrow> memory \<times> ipacket \<Rightarrow> memory \<times> ipacket" where
  "put_packet pkt = (\<lambda>(m, k). (memcpy (packet_at k (m_len k)) (m_buf pkt) (nat (m_len pkt)) m, k\<lparr>m_len := m_len k + m_len pkt\<rparr>))"

text \<open>A copy on the heap; \<open>buf\<close> is the address of the new memory.\<close>

definition heap_packet :: "nat \<Rightarrow> int \<Rightarrow> ipacket" where
  "heap_packet buf sz = packet_new buf sz"

definition heap_packet_copy :: "nat \<Rightarrow> ipacket \<Rightarrow> memory \<Rightarrow> memory \<times> ipacket" where
  "heap_packet_copy buf src m =
     (let k = packet_new buf (packet_size src) in (memcpy (packet_data k) (packet_data src) (nat (packet_size src)) m, k))"

subsection \<open>Reading\<close>

definition get_byte :: "memory \<Rightarrow> ipacket \<Rightarrow> u8 \<times> ipacket" where
  "get_byte m k = (m (packet_at k (m_p k)), k\<lparr>m_p := m_p k + 1\<rparr>)"

definition get_char :: "memory \<Rightarrow> ipacket \<Rightarrow> u8 \<times> ipacket" where
  "get_char m k = get_byte m k"

definition get_u16 :: "memory \<Rightarrow> ipacket \<Rightarrow> u16 \<times> ipacket" where
  "get_u16 m k =
     (let t = ucast (m (packet_at k (m_p k))); k = k\<lparr>m_p := m_p k + 1\<rparr>
      in (t OR push_bit 8 (ucast (m (packet_at k (m_p k)))), k\<lparr>m_p := m_p k + 1\<rparr>))"

definition get_i16 :: "memory \<Rightarrow> ipacket \<Rightarrow> u16 \<times> ipacket" where
  "get_i16 m k = get_u16 m k"

text \<open>
  The two operands of the expression call \<open>getUint16\<close>, and C++ does not fix the order of the calls: the
  argument \<open>left_first\<close> is the choice of the compiler.
\<close>

definition get_u32 :: "bool \<Rightarrow> memory \<Rightarrow> ipacket \<Rightarrow> u32 \<times> ipacket" where
  "get_u32 left_first m k =
     (case get_u16 m k of (t1, k) \<Rightarrow> case get_u16 m k of (t2, k) \<Rightarrow>
        (if left_first then ucast t1 OR push_bit 16 (ucast t2) else ucast t2 OR push_bit 16 (ucast t1), k))"

text \<open>\<open>None\<close>: no zero follows, and the search runs on.\<close>

partial_function (option) strlen :: "memory \<Rightarrow> nat \<Rightarrow> nat option" where
  "strlen m a = (if m a = 0 then Some 0 else Option.bind (strlen m (a + 1)) (\<lambda>n. Some (n + 1)))"

definition get_string :: "memory \<Rightarrow> ipacket \<Rightarrow> (nat \<times> ipacket) option" where
  "get_string m k =
     (let p = packet_at k (m_p k) in Option.bind (strlen m p) (\<lambda>n. Some (p, k\<lparr>m_p := m_p k + int n + 1\<rparr>)))"

subsection \<open>What the writing operations append\<close>

lemma packet_at_nonneg: "0 \<le> i \<Longrightarrow> packet_at k i = m_buf k + nat i"
  by (simp add: packet_at_def nat_add_distrib)

lemma packet_at_update [simp]: "packet_at (k\<lparr>m_len := n\<rparr>) i = packet_at k i" "packet_at (k\<lparr>m_p := n\<rparr>) i = packet_at k i"
  by (simp_all add: packet_at_def)

definition packet_wf :: "ipacket \<Rightarrow> bool" where
  "packet_wf k \<longleftrightarrow> 0 \<le> m_len k \<and> m_len k \<le> m_size k"

text \<open>
  From \<open>s\<close> to \<open>s'\<close> the packet has grown by the bytes \<open>bs\<close>; memory before their place and after the buffer is
  as it was.
\<close>

definition appends :: "u8 list \<Rightarrow> memory \<times> ipacket \<Rightarrow> memory \<times> ipacket \<Rightarrow> bool" where
  "appends bs = (\<lambda>(m, k) (m', k'). k' = k\<lparr>m_len := m_len k + int (length bs)\<rparr>
     \<and> bytes_at m' (packet_at k (m_len k)) (length bs) = bs
     \<and> (\<forall>a. a < packet_at k (m_len k) \<or> packet_at k (m_size k) \<le> a \<longrightarrow> m' a = m a))"

lemma bytes_at_cong: "(\<And>i. i < n \<Longrightarrow> m (p + i) = m' (p + i)) \<Longrightarrow> bytes_at m p n = bytes_at m' p n"
  by (simp add: bytes_at_def)

lemma appends_trans:
  assumes "appends xs (m, k) s1" "appends ys s1 s2" "0 \<le> m_len k" "m_len k + int (length xs) \<le> m_size k"
  shows "appends (xs @ ys) (m, k) s2"
proof -
  obtain m1 k1 m2 k2 where s: "s1 = (m1, k1)" "s2 = (m2, k2)" by fastforce
  note a = assms(1,2) [unfolded s appends_def prod.case]
  have k1: "k1 = k\<lparr>m_len := m_len k + int (length xs)\<rparr>" using a(1) by blast
  have at: "packet_at k1 (m_len k1) = packet_at k (m_len k) + length xs" "packet_at k1 (m_size k1) = packet_at k (m_size k)"
    using assms(3,4) by (simp_all add: k1 packet_at_nonneg nat_add_distrib)
  have "bytes_at m2 (packet_at k (m_len k)) (length xs) = bytes_at m1 (packet_at k (m_len k)) (length xs)"
    by (rule bytes_at_cong) (use a(2) at in auto)
  then have "bytes_at m2 (packet_at k (m_len k)) (length (xs @ ys)) = xs @ ys"
    using a at(1) by (simp add: bytes_at_add)
  moreover have "m2 b = m b" if "b < packet_at k (m_len k) \<or> packet_at k (m_size k) \<le> b" for b
    using a at that assms(3,4) by (metis trans_less_add1)
  ultimately show ?thesis using a(2) by (simp add: appends_def s k1)
qed

lemma put_u8_appends:
  assumes "0 \<le> m_len k" "m_len k < m_size k"
  shows "appends [b] (m, k) (put_u8 b (m, k))"
  using assms by (auto simp: appends_def put_u8_def bytes_at_Suc packet_at_nonneg)

lemma low_byte: "(ucast (d AND 0x00FF) :: u8) = ucast (d :: u16)"
  by (rule bit_word_eqI) (auto simp: bit_simps word_and_0xff)

lemma low_half: "(ucast (d AND 0x0000FFFF) :: u16) = ucast (d :: u32)"
proof -
  have "d AND 0xFFFF = take_bit 16 d" using take_bit_eq_mask [of 16 d] by (simp add: mask_eq_exp_minus_1)
  then show ?thesis by (simp only:) (rule bit_word_eqI, auto simp: bit_simps)
qed

lemma put_u16_u8: "put_u16 d s = put_u8 (ucast (drop_bit 8 d)) (put_u8 (ucast d) s)"
  by (cases s) (simp add: put_u16_def put_u8_def low_byte)

lemma put_u8_packet: "snd (put_u8 b (m, k)) = k\<lparr>m_len := m_len k + 1\<rparr>"
  by (simp add: put_u8_def)

lemma put_u16_appends:
  assumes "0 \<le> m_len k" "m_len k + 2 \<le> m_size k"
  shows "appends [ucast d, ucast (drop_bit 8 d)] (m, k) (put_u16 d (m, k))"
proof -
  obtain m1 k1 where s1: "put_u8 (ucast d) (m, k) = (m1, k1)" by fastforce
  have k1: "k1 = k\<lparr>m_len := m_len k + 1\<rparr>" using put_u8_packet [of "ucast d" m k] s1 by simp
  have "appends [ucast d] (m, k) (m1, k1)" using put_u8_appends [of k "ucast d" m] assms s1 by simp
  from appends_trans [OF this put_u8_appends] show ?thesis
    using assms by (simp add: put_u16_u8 s1 k1)
qed

lemma put_u32_appends:
  assumes "0 \<le> m_len k" "m_len k + 4 \<le> m_size k"
  shows "appends [ucast d, ucast (drop_bit 8 d), ucast (drop_bit 16 d), ucast (drop_bit 24 d)] (m, k) (put_u32 d (m, k))"
proof -
  obtain m1 k1 where s1: "put_u16 (ucast d) (m, k) = (m1, k1)" by fastforce
  have a: "appends [ucast (ucast d :: u16), ucast (drop_bit 8 (ucast d :: u16))] (m, k) (m1, k1)"
    using put_u16_appends [of k "ucast d" m] assms s1 by simp
  then have k1: "k1 = k\<lparr>m_len := m_len k + 2\<rparr>" by (simp add: appends_def)
  have b: "(ucast (ucast d :: u16) :: u8) = ucast d" "(ucast (drop_bit 8 (ucast d :: u16)) :: u8) = ucast (drop_bit 8 d)"
    "(ucast (ucast (drop_bit 16 d) :: u16) :: u8) = ucast (drop_bit 16 d)"
    "(ucast (drop_bit 8 (ucast (drop_bit 16 d) :: u16)) :: u8) = ucast (drop_bit 24 d)"
    by (rule bit_word_eqI, auto simp: bit_simps add.commute)+
  from appends_trans [OF a put_u16_appends [of k1 "ucast (drop_bit 16 d)" m1]] show ?thesis
    using assms by (simp add: put_u32_def low_half s1 k1 b)
qed

lemma size_t_small: "0 \<le> i \<Longrightarrow> i < 2 ^ (8 * sizeof_ptr abi) \<Longrightarrow> size_t abi i = nat i"
  by (simp add: size_t_def)

lemma put_str_appends:
  assumes "0 \<le> m_len k" "m_len k + int (length str) < m_size k" "m_size k - m_len k \<noteq> 1" "m_size k < 2 ^ (8 * sizeof_ptr abi)"
  shows "appends (str @ [0]) (m, k) (put_str abi str (m, k))"
proof -
  let ?room = "m_size k - m_len k - 1" and ?p = "packet_at k (m_len k)"
  have room: "?room \<noteq> 0" "size_t abi ?room = nat ?room" "int (length str) \<le> ?room"
    using assms by (auto intro!: size_t_small)
  obtain m' where m': "m' = (strncpy ?p str (nat ?room) m)(?p + length str := 0)" by blast
  have s: "put_str abi str (m, k) = (m', k\<lparr>m_len := m_len k + int (length str) + 1\<rparr>)"
  proof (cases "int (length str) < ?room")
    case False
    have "?room = int (length str)" using False room(3) by simp
    then show ?thesis using room assms(1) by (simp add: assms(3) put_str_def Let_def packet_at_nonneg nat_add_distrib add.assoc m')
  qed (use room assms(1) in \<open>simp add: put_str_def Let_def packet_at_nonneg nat_add_distrib add.assoc m'\<close>)
  have top: "packet_at k (m_size k) = ?p + nat (m_size k - m_len k)" using assms by (simp add: packet_at_nonneg nat_diff_distrib)
  have "bytes_at m' ?p (length str + 1) = str @ [0]"
    using room(3) by (intro nth_equalityI) (auto simp: m' strncpy_def nth_append less_Suc_eq)
  moreover have "m' a = m a" if "a < ?p \<or> packet_at k (m_size k) \<le> a" for a
    using that room(3) by (auto simp: m' strncpy_def top)
  ultimately show ?thesis by (simp add: appends_def s)
qed

lemma put_packet_appends:
  assumes "0 \<le> m_len k" "0 \<le> m_len pkt" "m_len k + m_len pkt \<le> m_size k"
  shows "appends (bytes_at m (m_buf pkt) (nat (m_len pkt))) (m, k) (put_packet pkt (m, k))"
  using assms by (auto simp: appends_def put_packet_def memcpy_def packet_at_nonneg nat_add_distrib intro!: nth_equalityI)

subsection \<open>Messages\<close>

text \<open>What an application writes to a packet, and reads on the other side in the same order.\<close>

datatype packet_item = PByte u8 | PUint16 u16 | PInt16 u16 | PUint32 u32 | PString "u8 list"

fun put_item :: "c_abi \<Rightarrow> packet_item \<Rightarrow> memory \<times> ipacket \<Rightarrow> memory \<times> ipacket" where
  "put_item abi (PByte b) s = put_u8 b s"
| "put_item abi (PUint16 d) s = put_u16 d s"
| "put_item abi (PInt16 d) s = put_i16 d s"
| "put_item abi (PUint32 d) s = put_u32 d s"
| "put_item abi (PString str) s = put_str abi str s"

text \<open>The reader calls the operation for an item of the same kind; the string is what the result points to.\<close>

fun get_item :: "bool \<Rightarrow> memory \<Rightarrow> packet_item \<Rightarrow> ipacket \<Rightarrow> (packet_item \<times> ipacket) option" where
  "get_item lf m (PByte _) k = (case get_byte m k of (b, k) \<Rightarrow> Some (PByte b, k))"
| "get_item lf m (PUint16 _) k = (case get_u16 m k of (d, k) \<Rightarrow> Some (PUint16 d, k))"
| "get_item lf m (PInt16 _) k = (case get_i16 m k of (d, k) \<Rightarrow> Some (PInt16 d, k))"
| "get_item lf m (PUint32 _) k = (case get_u32 lf m k of (d, k) \<Rightarrow> Some (PUint32 d, k))"
| "get_item lf m (PString _) k = Option.bind (get_string m k) (\<lambda>(p, k). Option.bind (strlen m p) (\<lambda>n. Some (PString (bytes_at m p n), k)))"

fun get_items :: "bool \<Rightarrow> memory \<Rightarrow> packet_item list \<Rightarrow> ipacket \<Rightarrow> (packet_item list \<times> ipacket) option" where
  "get_items lf m [] k = Some ([], k)"
| "get_items lf m (i # is) k =
     Option.bind (get_item lf m i k) (\<lambda>(j, k). Option.bind (get_items lf m is k) (\<lambda>(js, k). Some (j # js, k)))"

fun item_bytes :: "packet_item \<Rightarrow> u8 list" where
  "item_bytes (PByte b) = [b]"
| "item_bytes (PUint16 d) = [ucast d, ucast (drop_bit 8 d)]"
| "item_bytes (PInt16 d) = [ucast d, ucast (drop_bit 8 d)]"
| "item_bytes (PUint32 d) = [ucast d, ucast (drop_bit 8 d), ucast (drop_bit 16 d), ucast (drop_bit 24 d)]"
| "item_bytes (PString str) = str @ [0]"

definition message_bytes :: "packet_item list \<Rightarrow> u8 list" where
  "message_bytes is = concat (map item_bytes is)"

text \<open>A string holds no zero, and there is room: an empty string does not fit in the last byte.\<close>

fun items_fit :: "int \<Rightarrow> packet_item list \<Rightarrow> bool" where
  "items_fit room [] \<longleftrightarrow> True"
| "items_fit room (i # is) \<longleftrightarrow> int (length (item_bytes i)) \<le> room
     \<and> (case i of PString str \<Rightarrow> room \<noteq> 1 \<and> 0 \<notin> set str | _ \<Rightarrow> True) \<and> items_fit (room - int (length (item_bytes i))) is"

lemma put_item_appends:
  assumes "0 \<le> m_len k" "items_fit (m_size k - m_len k) [i]" "m_size k < 2 ^ (8 * sizeof_ptr abi)"
  shows "appends (item_bytes i) (m, k) (put_item abi i (m, k))"
  using assms by (cases i) (simp_all add: put_u8_appends put_u16_appends put_i16_def put_u32_appends put_str_appends)

lemma put_items_append:
  assumes "0 \<le> m_len k" "items_fit (m_size k - m_len k) is" "m_size k < 2 ^ (8 * sizeof_ptr abi)"
  shows "appends (message_bytes is) (m, k) (fold (put_item abi) is (m, k))"
  using assms
proof (induction "is" arbitrary: m k)
  case Nil
  then show ?case by (simp add: appends_def message_bytes_def)
next
  case (Cons i "is")
  obtain m1 k1 where s1: "put_item abi i (m, k) = (m1, k1)" by fastforce
  have a: "appends (item_bytes i) (m, k) (m1, k1)" using put_item_appends [of k i abi m] Cons.prems s1 by simp
  then have k1: "k1 = k\<lparr>m_len := m_len k + int (length (item_bytes i))\<rparr>" by (simp add: appends_def)
  have "items_fit (m_size k1 - m_len k1) is" using Cons.prems(2) by (simp add: k1 algebra_simps)
  then have "appends (message_bytes is) (m1, k1) (fold (put_item abi) is (m1, k1))"
    using Cons by (simp add: k1)
  from appends_trans [OF a this] show ?case using Cons.prems by (simp add: s1 message_bytes_def)
qed

subsection \<open>What the reading operations find\<close>

lemma u16_bytes: "(ucast (ucast d :: u8) :: u16) OR push_bit 8 (ucast (ucast (drop_bit 8 d) :: u8)) = d"
  by (rule bit_word_eqI) (auto simp: bit_simps)

lemma u32_halves: "(ucast (ucast d :: u16) :: u32) OR push_bit 16 (ucast (ucast (drop_bit 16 d) :: u16)) = d"
  by (rule bit_word_eqI) (auto simp: bit_simps)

lemma bytes_at_snoc: "bytes_at m p (Suc n) = bytes_at m p n @ [m (p + n)]"
  using bytes_at_add [of m p n 1] by (simp add: bytes_at_Suc)

lemma get_u16_finds:
  assumes "bytes_at m (packet_at k (m_p k)) 2 = [ucast d, ucast (drop_bit 8 d)]" "0 \<le> m_p k"
  shows "get_u16 m k = (d, k\<lparr>m_p := m_p k + 2\<rparr>)"
  using assms by (simp add: get_u16_def numeral_2_eq_2 bytes_at_Suc packet_at_nonneg nat_add_distrib u16_bytes Let_def)

lemma strlen_finds: "bytes_at m p (length str) = str \<Longrightarrow> m (p + length str) = 0 \<Longrightarrow> 0 \<notin> set str \<Longrightarrow> strlen m p = Some (length str)"
proof (induction str arbitrary: p)
  case Nil
  then show ?case by (simp add: strlen.simps)
next
  case (Cons c str)
  then have "m p = c" "c \<noteq> 0" "strlen m (Suc p) = Some (length str)" by (auto simp: bytes_at_Suc)
  then show ?case by (simp add: strlen.simps [of m p])
qed

lemma get_item_finds:
  assumes "bytes_at m (packet_at k (m_p k)) (length (item_bytes i)) = item_bytes i" "0 \<le> m_p k"
    and "case i of PString str \<Rightarrow> 0 \<notin> set str | _ \<Rightarrow> True"
  shows "get_item True m i k = Some (i, k\<lparr>m_p := m_p k + int (length (item_bytes i))\<rparr>)"
proof (cases i)
  case (PByte b)
  then show ?thesis using assms by (simp add: get_byte_def bytes_at_Suc)
next
  case (PUint16 d)
  then show ?thesis using assms by (simp add: get_u16_finds numeral_2_eq_2)
next
  case (PInt16 d)
  then show ?thesis using assms by (simp add: get_i16_def get_u16_finds numeral_2_eq_2)
next
  case (PUint32 d)
  let ?p = "packet_at k (m_p k)"
  have b: "(ucast (ucast d :: u16) :: u8) = ucast d" "(ucast (drop_bit 8 (ucast d :: u16)) :: u8) = ucast (drop_bit 8 d)"
    "(ucast (ucast (drop_bit 16 d) :: u16) :: u8) = ucast (drop_bit 16 d)"
    "(ucast (drop_bit 8 (ucast (drop_bit 16 d) :: u16)) :: u8) = ucast (drop_bit 24 d)"
    by (rule bit_word_eqI, auto simp: bit_simps add.commute)+
  have "bytes_at m ?p 2 = [ucast d, ucast (drop_bit 8 d)] \<and> bytes_at m (?p + 2) 2 = [ucast (drop_bit 16 d), ucast (drop_bit 24 d)]"
    using assms(1) PUint32 by (simp add: bytes_at_Suc numeral_2_eq_2)
  then have "get_u16 m k = (ucast d, k\<lparr>m_p := m_p k + 2\<rparr>)"
    "get_u16 m (k\<lparr>m_p := m_p k + 2\<rparr>) = (ucast (drop_bit 16 d), k\<lparr>m_p := m_p k + 4\<rparr>)"
    using get_u16_finds [of m k "ucast d"] get_u16_finds [of m "k\<lparr>m_p := m_p k + 2\<rparr>" "ucast (drop_bit 16 d)"] assms(2)
    by (simp_all add: b packet_at_nonneg nat_add_distrib)
  then show ?thesis using PUint32 by (simp add: get_u32_def u32_halves)
next
  case (PString str)
  have "strlen m (packet_at k (m_p k)) = Some (length str)"
    using assms PString by (intro strlen_finds) (simp_all add: bytes_at_snoc)
  moreover have "bytes_at m (packet_at k (m_p k)) (length str) = str" using assms(1) PString by (simp add: bytes_at_snoc)
  ultimately show ?thesis using PString by (simp add: get_string_def Let_def add.assoc)
qed

lemma get_items_find:
  assumes "bytes_at m (packet_at k (m_p k)) (length (message_bytes is)) = message_bytes is" "0 \<le> m_p k" "items_fit room is"
  shows "get_items True m is k = Some (is, k\<lparr>m_p := m_p k + int (length (message_bytes is))\<rparr>)"
  using assms
proof (induction "is" arbitrary: k room)
  case Nil
  then show ?case by (simp add: message_bytes_def)
next
  case (Cons i "is")
  have b: "bytes_at m (packet_at k (m_p k)) (length (item_bytes i)) = item_bytes i"
    "bytes_at m (packet_at k (m_p k) + length (item_bytes i)) (length (message_bytes is)) = message_bytes is"
    using Cons.prems(1) by (simp_all add: message_bytes_def bytes_at_add)
  define k1 where "k1 = k\<lparr>m_p := m_p k + int (length (item_bytes i))\<rparr>"
  have g: "get_item True m i k = Some (i, k1)"
    unfolding k1_def using Cons.prems b(1) by (intro get_item_finds) (auto split: packet_item.splits)
  have "get_items True m is k1 = Some (is, k1\<lparr>m_p := m_p k1 + int (length (message_bytes is))\<rparr>)"
    using Cons.prems b(2) by (intro Cons.IH) (auto simp: k1_def packet_at_nonneg nat_add_distrib add.assoc)
  then show ?case using g by (simp add: message_bytes_def k1_def)
qed

text \<open>
  C29: What is written to a cleared packet is read back from it: for any message of bytes, integers and strings that fits the
  buffer, reading the same kinds in the same order gives the same values, no byte is left over, the size of the packet is the
  length of the message and nothing outside the buffer is written. (For 32-bit integers this holds
  when the compiler evaluates operands from left to right.)
\<close>

theorem packet_roundtrip:
  assumes "items_fit (m_size k) is" "0 \<le> m_size k" "m_size k < 2 ^ (8 * sizeof_ptr abi)"
    and "fold (put_item abi) is (m, packet_clear k) = (m', k')"
  shows "\<exists>k''. get_items True m' is k' = Some (is, k'') \<and> packet_available_bytes abi k'' = 0
    \<and> packet_size k' = int (length (message_bytes is)) \<and> bytes_at m' (m_buf k) (length (message_bytes is)) = message_bytes is
    \<and> (\<forall>a. a < m_buf k \<or> m_buf k + nat (m_size k) \<le> a \<longrightarrow> m' a = m a)"
proof -
  have "appends (message_bytes is) (m, packet_clear k) (m', k')"
    using put_items_append [of "packet_clear k" "is" abi m] assms by (simp add: packet_clear_def)
  then have k': "k' = (packet_clear k)\<lparr>m_len := int (length (message_bytes is))\<rparr>"
    and b: "bytes_at m' (m_buf k) (length (message_bytes is)) = message_bytes is"
    and o: "\<forall>a. a < m_buf k \<or> m_buf k + nat (m_size k) \<le> a \<longrightarrow> m' a = m a"
    using assms(2) by (auto simp: appends_def packet_clear_def packet_at_nonneg)
  have "get_items True m' is k' = Some (is, k'\<lparr>m_p := int (length (message_bytes is))\<rparr>)"
    using get_items_find [of m' k' "is"] b assms(1) by (simp add: k' packet_clear_def packet_at_nonneg)
  moreover have "packet_available_bytes abi (k'\<lparr>m_p := int (length (message_bytes is))\<rparr>) = 0"
    by (simp add: packet_available_bytes_def size_t_def k' packet_clear_def)
  ultimately show ?thesis using b o by (auto simp: packet_size_def k' packet_clear_def)
qed

text \<open>
  C30: The room check of \<open>put(const char *)\<close> looks for no room with \<open>== 0\<close> where one byte is left over. With one byte left, nothing
  is written, not even the zero of an empty string. In a full packet the room is -1, which as a size is the whole address
  space: the string goes over the memory behind the buffer, zeros over everything after it, and the last byte of the
  buffer is lost, while the size of the packet stays the same.
\<close>

theorem put_str_without_room:
  assumes "0 < m_size k" "0 < sizeof_ptr abi"
  shows "(m_len k = m_size k - 1 \<longrightarrow> put_str abi str (m, k) = (m, k))
    \<and> (m_len k = m_size k \<longrightarrow> (\<exists>m'. put_str abi str (m, k) = (m', k)
          \<and> (\<forall>i < 2 ^ (8 * sizeof_ptr abi) - 1. m' (m_buf k + nat (m_size k) + i) = (if i < length str then str ! i else 0))
          \<and> m' (m_buf k + nat (m_size k) - 1) = 0))"
proof (intro conjI impI)
  assume "m_len k = m_size k - 1"
  then show "put_str abi str (m, k) = (m, k)" by (simp add: put_str_def)
next
  assume full: "m_len k = m_size k"
  let ?p = "packet_at k (m_size k)"
  have one: "(1 :: int) < 2 ^ (8 * sizeof_ptr abi)" using assms(2) by (intro one_less_power) simp_all
  have "(-1 :: int) mod 2 ^ (8 * sizeof_ptr abi) = 2 ^ (8 * sizeof_ptr abi) - 1" using one by (simp add: zmod_minus1)
  then have room: "size_t abi (- 1) = 2 ^ (8 * sizeof_ptr abi) - 1" by (simp add: size_t_def nat_diff_distrib nat_power_eq)
  have p: "packet_at k (m_size k) = m_buf k + nat (m_size k)" "packet_at k (m_size k - 1) = m_buf k + nat (m_size k) - 1"
    using assms(1) by (simp_all add: packet_at_nonneg nat_diff_distrib)
  have s: "put_str abi str (m, k) = ((strncpy ?p str (2 ^ (8 * sizeof_ptr abi) - 1) m)(packet_at k (m_size k - 1) := 0), k)"
    using full by (simp add: put_str_def Let_def room)
  have "m_buf k + nat (m_size k) - 1 < m_buf k + nat (m_size k)" using assms(1) by simp
  then have "\<forall>i < 2 ^ (8 * sizeof_ptr abi) - 1. fst (put_str abi str (m, k)) (m_buf k + nat (m_size k) + i) = (if i < length str then str ! i else 0)"
    "fst (put_str abi str (m, k)) (m_buf k + nat (m_size k) - 1) = 0"
    by (auto simp: s p strncpy_def)
  then show "\<exists>m'. put_str abi str (m, k) = (m', k)
      \<and> (\<forall>i < 2 ^ (8 * sizeof_ptr abi) - 1. m' (m_buf k + nat (m_size k) + i) = (if i < length str then str ! i else 0))
      \<and> m' (m_buf k + nat (m_size k) - 1) = 0" by (simp add: s)
qed

subsection \<open>Concrete packets\<close>

definition demo_abi :: c_abi where
  "demo_abi = \<lparr>align_struct = 8, sizeof_hdlc_ll = 136, sizeof_ptr = 8, sizeof_fd_data = 400, sizeof_frame_info = 16,
     offset_header = 8, sizeof_peer_info = 40\<rparr>"

definition demo_items :: "packet_item list" where
  "demo_items = [PByte 7, PUint16 0x1234, PString [0x41, 0x42], PUint32 0xDEADBEEF, PInt16 0xFFFE, PString []]"

theorem packet_roundtrip_witness:
  "\<exists>m' k' k''. fold (put_item demo_abi) demo_items (\<lambda>_. 0, packet_clear (packet_new 100 20)) = (m', k')
     \<and> get_items True m' demo_items k' = Some (demo_items, k'') \<and> packet_size k' = 13 \<and> bytes_at m' 100 3 = [7, 0x34, 0x12]"
proof -
  obtain m' k' where p: "fold (put_item demo_abi) demo_items (\<lambda>_. 0, packet_clear (packet_new 100 20)) = (m', k')" by fastforce
  have fit: "items_fit (m_size (packet_new 100 20)) demo_items" "0 \<le> m_size (packet_new 100 20)"
    "m_size (packet_new 100 20) < 2 ^ (8 * sizeof_ptr demo_abi)"
    by (simp_all add: packet_new_def demo_items_def demo_abi_def)
  have bytes: "message_bytes demo_items = [7, 0x34, 0x12] @ [0x41, 0x42, 0, 0xEF, 0xBE, 0xAD, 0xDE, 0xFE, 0xFF, 0]" by code_simp
  have len: "length (message_bytes demo_items) = 13" by (simp add: bytes)
  from packet_roundtrip [OF fit p] obtain k'' where r: "get_items True m' demo_items k' = Some (demo_items, k'')"
    "packet_size k' = 13" "bytes_at m' 100 13 = message_bytes demo_items"
    by (auto simp: len packet_new_def)
  have "bytes_at m' 100 3 = take 3 (bytes_at m' 100 13)" by (simp add: take_bytes_at)
  also have "\<dots> = [7, 0x34, 0x12]" by (simp add: r(3) bytes)
  finally show ?thesis using p r(1,2) by blast
qed

theorem put_str_without_room_witness:
  "put_str demo_abi [0x41] (\<lambda>_. 9, (packet_new 100 4)\<lparr>m_len := 3\<rparr>) = (\<lambda>_. 9, (packet_new 100 4)\<lparr>m_len := 3\<rparr>)
     \<and> fst (put_str demo_abi [0x41] (\<lambda>_. 9, (packet_new 100 4)\<lparr>m_len := 4\<rparr>)) 104 = 0x41
     \<and> fst (put_str demo_abi [0x41] (\<lambda>_. 9, (packet_new 100 4)\<lparr>m_len := 4\<rparr>)) 1000 = 0"
proof -
  have k: "0 < m_size ((packet_new 100 4)\<lparr>m_len := l\<rparr>)" "0 < sizeof_ptr demo_abi" for l
    by (simp_all add: packet_new_def demo_abi_def)
  have "put_str demo_abi [0x41] (\<lambda>_. 9, (packet_new 100 4)\<lparr>m_len := 3\<rparr>) = (\<lambda>_. 9, (packet_new 100 4)\<lparr>m_len := 3\<rparr>)"
    using put_str_without_room [OF k, of 3 "[0x41]" "\<lambda>_. 9"] by (simp add: packet_new_def)
  moreover obtain m' where "put_str demo_abi [0x41] (\<lambda>_. 9, (packet_new 100 4)\<lparr>m_len := 4\<rparr>) = (m', (packet_new 100 4)\<lparr>m_len := 4\<rparr>)"
    "\<forall>i < 2 ^ (8 * sizeof_ptr demo_abi) - 1. m' (104 + i) = (if i < length [0x41 :: u8] then [0x41] ! i else 0)"
    using put_str_without_room [OF k, of 4 "[0x41]" "\<lambda>_. 9"] by (auto simp: packet_new_def)
  moreover have "(0 :: nat) < 2 ^ (8 * sizeof_ptr demo_abi) - 1" "(896 :: nat) < 2 ^ (8 * sizeof_ptr demo_abi) - 1"
    by (simp_all add: demo_abi_def)
  ultimately show ?thesis by fastforce
qed

end
