(* ===== verification/TinyProto.thy ===== *)
theory TinyProto
  imports TinyPacket HalEvents
begin

unbundle bit_operations_syntax

section \<open>Messages over any link: src/TinyProtocol.cpp\<close>

text \<open>
  The class \<open>Proto\<close> sends and reads packets over a link layer. Received messages wait in a queue of packets
  that the application has put into a pool before; it gives them back with \<open>release\<close>.
  \<^item> The object is a record; the packets that the pool and the queue link are a heap of packets, and the buffers
    of the packets lie in a memory. \<open>'a\<close> is the state of the application that its callbacks work on.
  \<^item> The link layer is virtual: its operations are the argument \<open>L\<close>. They work on a state \<open>'w\<close> which holds
    this object too, since the link calls it back.
  \<^item> What the other threads do while a call blocks is the argument \<open>env\<close>. An operation under the mutex is one step.
  \<^item> \<open>None\<close> stands for a loop that does not end; the link may have such loops too. The message of a received frame is a list of bytes, with the
    address where the link has it.
\<close>

subsection \<open>The object\<close>

definition PROTO_RX_MESSAGE :: u8 where "PROTO_RX_MESSAGE = 1"

record 'a proto =
  pr_on_rx :: "('a \<Rightarrow> u8 list \<Rightarrow> 'a) option"
  pr_on_tx :: "('a \<Rightarrow> u8 list \<Rightarrow> 'a) option"
  pr_multithread :: bool
  pr_terminate :: bool
  pr_pool :: nat
  pr_queue :: nat
  pr_last :: nat
  pr_tx_delay :: u32
  pr_lost_rx_frames :: int
  pr_events :: u8
  pr_packets :: "nat \<Rightarrow> ipacket"
  pr_memory :: memory
  pr_app :: 'a
  pr_clock :: "nat \<Rightarrow> u32"
  pr_ticks :: nat

definition proto_new :: "bool \<Rightarrow> (nat \<Rightarrow> ipacket) \<Rightarrow> memory \<Rightarrow> 'a \<Rightarrow> (nat \<Rightarrow> u32) \<Rightarrow> 'a proto" where
  "proto_new multithread packets m a clock =
     \<lparr>pr_on_rx = None, pr_on_tx = None, pr_multithread = multithread, pr_terminate = True, pr_pool = 0, pr_queue = 0, pr_last = 0,
      pr_tx_delay = 0, pr_lost_rx_frames = 0, pr_events = 0, pr_packets = packets, pr_memory = m, pr_app = a,
      pr_clock = clock, pr_ticks = 0\<rparr>"

abbreviation upd_packet :: "nat \<Rightarrow> (ipacket \<Rightarrow> ipacket) \<Rightarrow> 'a proto \<Rightarrow> 'a proto" where
  "upd_packet p f s \<equiv> s\<lparr>pr_packets := (pr_packets s)(p := f (pr_packets s p))\<rparr>"

text \<open>\<open>memcpy\<close> of bytes that the link has elsewhere.\<close>

definition store_bytes :: "nat \<Rightarrow> u8 list \<Rightarrow> memory \<Rightarrow> memory" where
  "store_bytes dst bs m = (\<lambda>a. if dst \<le> a \<and> a < dst + length bs then bs ! (a - dst) else m a)"

subsection \<open>Received and sent frames\<close>

text \<open>The three parts of \<open>onRead\<close>: the packet \<open>p\<close> leaves the pool, joins the queue, and gets the data.\<close>

definition proto_take_pool :: "nat \<Rightarrow> 'a proto \<Rightarrow> 'a proto" where
  "proto_take_pool p s =
     (let s = s\<lparr>pr_pool := m_next (pr_packets s p)\<rparr>
      in if pr_pool s \<noteq> 0 then upd_packet (pr_pool s) (\<lambda>k. k\<lparr>m_prev := 0\<rparr>) s else s)"

definition proto_add_queue :: "nat \<Rightarrow> 'a proto \<Rightarrow> 'a proto" where
  "proto_add_queue p s =
     (let s = upd_packet p (\<lambda>k. k\<lparr>m_next := 0\<rparr>) s;
          s = upd_packet p (\<lambda>k. k\<lparr>m_prev := pr_last s\<rparr>) s;
          s = (if pr_last s \<noteq> 0 then upd_packet (pr_last s) (\<lambda>k. k\<lparr>m_next := p\<rparr>) s else s);
          s = s\<lparr>pr_last := p\<rparr>
      in if pr_queue s = 0 then s\<lparr>pr_queue := p\<rparr> else s)"

definition proto_fill :: "nat \<Rightarrow> nat \<Rightarrow> u8 list \<Rightarrow> 'a proto \<Rightarrow> 'a proto" where
  "proto_fill p buf data s =
     (if m_size (pr_packets s p) = 0 then upd_packet p (\<lambda>k. k\<lparr>m_buf := buf, m_len := int (length data)\<rparr>) s
      else
        let n = (if m_size (pr_packets s p) < int (length data) then m_size (pr_packets s p) else int (length data));
            s = upd_packet p (\<lambda>k. k\<lparr>m_len := n\<rparr>) s
        in s\<lparr>pr_memory := store_bytes (m_buf (pr_packets s p)) (take (nat n) data) (pr_memory s)\<rparr>)"

definition proto_on_read :: "nat \<Rightarrow> u8 list \<Rightarrow> 'a proto \<Rightarrow> 'a proto" where
  "proto_on_read buf data s =
     (case pr_on_rx s of
        Some f \<Rightarrow> s\<lparr>pr_app := f (pr_app s) data\<rparr>
      | None \<Rightarrow>
          let p = pr_pool s in
          if p = 0 then s\<lparr>pr_lost_rx_frames := pr_lost_rx_frames s + 1\<rparr>
          else
            let s = proto_fill p buf data (proto_add_queue p (proto_take_pool p s));
                s = upd_packet p (\<lambda>k. k\<lparr>m_p := 0\<rparr>) s
            in s\<lparr>pr_events := tiny_events_set (pr_events s) PROTO_RX_MESSAGE\<rparr>)"

definition proto_on_send :: "u8 list \<Rightarrow> 'a proto \<Rightarrow> 'a proto" where
  "proto_on_send data s = (case pr_on_tx s of Some f \<Rightarrow> s\<lparr>pr_app := f (pr_app s) data\<rparr> | None \<Rightarrow> s)"

definition proto_add_rx_pool :: "nat \<Rightarrow> 'a proto \<Rightarrow> 'a proto" where
  "proto_add_rx_pool message s =
     (let s = upd_packet message (\<lambda>k. k\<lparr>m_next := pr_pool s\<rparr>) s;
          s = upd_packet message (\<lambda>k. k\<lparr>m_prev := 0\<rparr>) s;
          s = (if pr_pool s \<noteq> 0 then upd_packet (pr_pool s) (\<lambda>k. k\<lparr>m_prev := message\<rparr>) s else s)
      in s\<lparr>pr_pool := message\<rparr>)"

definition proto_release :: "nat \<Rightarrow> 'a proto \<Rightarrow> 'a proto" where
  "proto_release message s = proto_add_rx_pool message s"

definition proto_set_rx_callback :: "('a \<Rightarrow> u8 list \<Rightarrow> 'a) option \<Rightarrow> 'a proto \<Rightarrow> 'a proto" where
  "proto_set_rx_callback f s = s\<lparr>pr_on_rx := f\<rparr>"

definition proto_set_tx_callback :: "('a \<Rightarrow> u8 list \<Rightarrow> 'a) option \<Rightarrow> 'a proto \<Rightarrow> 'a proto" where
  "proto_set_tx_callback f s = s\<lparr>pr_on_tx := f\<rparr>"

definition proto_set_tx_delay :: "u32 \<Rightarrow> 'a proto \<Rightarrow> 'a proto" where
  "proto_set_tx_delay delay s = s\<lparr>pr_tx_delay := delay\<rparr>"

definition proto_get_lost_rx_frames :: "'a proto \<Rightarrow> int \<times> 'a proto" where
  "proto_get_lost_rx_frames s = (pr_lost_rx_frames s, s\<lparr>pr_lost_rx_frames := 0\<rparr>)"

text \<open>The part of \<open>read\<close> under the mutex: the packet, or 0 for none.\<close>

definition proto_read_queue :: "'a proto \<Rightarrow> nat \<times> 'a proto" where
  "proto_read_queue s =
     (if pr_queue s \<noteq> 0 then
        let p = pr_queue s;
            s = s\<lparr>pr_queue := m_next (pr_packets s p)\<rparr>;
            s = (if pr_queue s \<noteq> 0 then
                   (upd_packet (pr_queue s) (\<lambda>k. k\<lparr>m_prev := 0\<rparr>) s)\<lparr>pr_events := tiny_events_set (pr_events s) PROTO_RX_MESSAGE\<rparr>
                 else s\<lparr>pr_last := 0\<rparr>)
        in (p, s)
      else (0, s))"

subsection \<open>The link layer\<close>

record ('a, 'w) link_layer =
  ll_begin :: "'w \<Rightarrow> bool \<times> 'w"
  ll_end :: "'w \<Rightarrow> 'w"
  ll_run_rx :: "'w \<Rightarrow> 'w option"
  ll_run_tx :: "'w \<Rightarrow> 'w option"
  ll_put :: "nat \<Rightarrow> int \<Rightarrow> u32 \<Rightarrow> 'w \<Rightarrow> bool \<times> 'w"
  ll_flush_tx :: "'w \<Rightarrow> 'w"
  ll_get_timeout :: "'w \<Rightarrow> u32"
  ll_set_timeout :: "u32 \<Rightarrow> 'w \<Rightarrow> 'w"
  ll_proto :: "'w \<Rightarrow> 'a proto"
  ll_upd_proto :: "('a proto \<Rightarrow> 'a proto) \<Rightarrow> 'w \<Rightarrow> 'w"

definition proto_millis :: "('a, 'w) link_layer \<Rightarrow> 'w \<Rightarrow> u32 \<times> 'w" where
  "proto_millis L w = (pr_clock (ll_proto L w) (pr_ticks (ll_proto L w)), ll_upd_proto L (\<lambda>s. s\<lparr>pr_ticks := pr_ticks s + 1\<rparr>) w)"

definition proto_wait_events :: "('a, 'w) link_layer \<Rightarrow> ('w \<Rightarrow> 'w) \<Rightarrow> u32 \<Rightarrow> 'w \<Rightarrow> 'w" where
  "proto_wait_events L env timeout w =
     (let w = (if pr_events (ll_proto L w) AND PROTO_RX_MESSAGE = 0 \<and> timeout \<noteq> 0 then env w else w)
      in ll_upd_proto L (\<lambda>s. s\<lparr>pr_events := snd (tiny_events_wait (pr_events s) PROTO_RX_MESSAGE True)\<rparr>) w)"

subsection \<open>The calls of the application\<close>

definition proto_begin :: "('a, 'w) link_layer \<Rightarrow> 'w \<Rightarrow> bool \<times> 'w" where
  "proto_begin L w =
     (let timeout = ll_get_timeout L w;
          timeout = (if pr_multithread (ll_proto L w) \<and> timeout = 0 then 1000
                     else if \<not> pr_multithread (ll_proto L w) then 0 else timeout);
          w = ll_set_timeout L timeout w;
          (ok, w) = ll_begin L w
      in if \<not> ok then (False, ll_upd_proto L (\<lambda>s. s\<lparr>pr_terminate := True\<rparr>) w)
         else (True, if pr_multithread (ll_proto L w) then ll_upd_proto L (\<lambda>s. s\<lparr>pr_terminate := False\<rparr>) w else w))"

definition proto_end :: "('a, 'w) link_layer \<Rightarrow> 'w \<Rightarrow> 'w" where
  "proto_end L w =
     (if pr_terminate (ll_proto L w) then w else ll_end L (ll_upd_proto L (\<lambda>s. s\<lparr>pr_terminate := True\<rparr>) w))"

text \<open>Without threads of its own the object runs the link itself.\<close>

definition proto_run_link :: "('a, 'w) link_layer \<Rightarrow> 'w \<Rightarrow> 'w option" where
  "proto_run_link L w = (if \<not> pr_multithread (ll_proto L w) then Option.bind (ll_run_tx L w) (ll_run_rx L) else Some w)"

partial_function (option) proto_send_loop :: "('a, 'w) link_layer \<Rightarrow> u32 \<Rightarrow> nat \<Rightarrow> int \<Rightarrow> u32 \<Rightarrow> 'w \<Rightarrow> (bool \<times> 'w) option" where
  "proto_send_loop L start_ts buf len timeout w =
     (case ll_put L buf len (if pr_multithread (ll_proto L w) then timeout else 0) w of (result, w) \<Rightarrow>
        if result then Some (True, w)
        else case proto_millis L w of (now, w) \<Rightarrow>
          if now - start_ts \<ge> timeout then Some (False, ll_flush_tx L w)
          else Option.bind (proto_run_link L w) (proto_send_loop L start_ts buf len timeout))"

definition proto_send :: "('a, 'w) link_layer \<Rightarrow> ipacket \<Rightarrow> u32 \<Rightarrow> 'w \<Rightarrow> (bool \<times> 'w) option" where
  "proto_send L packet timeout w =
     (case proto_millis L w of (start_ts, w) \<Rightarrow> proto_send_loop L start_ts (m_buf packet) (m_len packet) timeout w)"

partial_function (option) proto_read_loop :: "('a, 'w) link_layer \<Rightarrow> ('w \<Rightarrow> 'w) \<Rightarrow> u32 \<Rightarrow> u32 \<Rightarrow> 'w \<Rightarrow> (nat \<times> 'w) option" where
  "proto_read_loop L env start_ts timeout w =
     (let w = proto_wait_events L env (if pr_multithread (ll_proto L w) then timeout else 0) w;
          (p, s) = proto_read_queue (ll_proto L w)
      in if p \<noteq> 0 then Some (p, ll_upd_proto L (\<lambda>_. s) w)
         else Option.bind (proto_run_link L w) (\<lambda>w.
           case proto_millis L w of (now, w) \<Rightarrow>
             if now - start_ts \<ge> timeout then Some (0, w) else proto_read_loop L env start_ts timeout w))"

definition proto_read :: "('a, 'w) link_layer \<Rightarrow> ('w \<Rightarrow> 'w) \<Rightarrow> u32 \<Rightarrow> 'w \<Rightarrow> (nat \<times> 'w) option" where
  "proto_read L env timeout w = (case proto_millis L w of (start_ts, w) \<Rightarrow> proto_read_loop L env start_ts timeout w)"

subsection \<open>The queue and the pool as lists\<close>

fun chain :: "(nat \<Rightarrow> ipacket) \<Rightarrow> nat \<Rightarrow> nat list \<Rightarrow> bool" where
  "chain K p [] \<longleftrightarrow> p = 0"
| "chain K p (x # xs) \<longleftrightarrow> p \<noteq> 0 \<and> x = p \<and> chain K (m_next (K p)) xs"

lemma chain_cong: "(\<And>x. x \<in> set xs \<Longrightarrow> m_next (K' x) = m_next (K x)) \<Longrightarrow> chain K' p xs = chain K p xs"
  by (induction xs arbitrary: p) auto

lemma chain_nonzero: "chain K p xs \<Longrightarrow> 0 \<notin> set xs"
  by (induction xs arbitrary: p) auto

text \<open>An element is linked behind the last one.\<close>

lemma chain_snoc:
  assumes "chain K p xs" "e \<noteq> 0" "distinct (xs @ [e])" "m_next (K' e) = 0" "xs \<noteq> [] \<longrightarrow> m_next (K' (last xs)) = e"
    and "\<And>x. x \<in> set (butlast xs) \<Longrightarrow> m_next (K' x) = m_next (K x)"
  shows "chain K' (if xs = [] then e else p) (xs @ [e])"
  using assms
proof (induction xs arbitrary: p)
  case (Cons x xs)
  then show ?case
  proof (cases xs)
    case Nil
    then show ?thesis using Cons.prems by simp
  next
    case (Cons y ys)
    have x: "m_next (K' x) = m_next (K x)" "chain K (m_next (K p)) xs" "p = x" "p \<noteq> 0"
      using Cons.prems(1,6) Cons by auto
    have "chain K' (if xs = [] then e else m_next (K p)) (xs @ [e])"
      by (rule Cons.IH [OF x(2)]) (use Cons.prems Cons in auto)
    then show ?thesis using x Cons by simp
  qed
qed simp

definition rx_lists :: "nat list \<Rightarrow> nat list \<Rightarrow> 'a proto \<Rightarrow> bool" where
  "rx_lists q f s \<longleftrightarrow> chain (pr_packets s) (pr_queue s) q \<and> chain (pr_packets s) (pr_pool s) f \<and> distinct (q @ f)
     \<and> pr_last s = (if q = [] then 0 else last q)"

lemma rx_lists_read:
  assumes "rx_lists q f s"
  shows "q = [] \<Longrightarrow> proto_read_queue s = (0, s)"
    and "q = e # q' \<Longrightarrow> \<exists>s'. proto_read_queue s = (e, s') \<and> e \<noteq> 0 \<and> rx_lists q' f s'
      \<and> (\<forall>x. m_buf (pr_packets s' x) = m_buf (pr_packets s x) \<and> m_size (pr_packets s' x) = m_size (pr_packets s x)
            \<and> m_len (pr_packets s' x) = m_len (pr_packets s x) \<and> m_p (pr_packets s' x) = m_p (pr_packets s x))
      \<and> pr_memory s' = pr_memory s \<and> pr_lost_rx_frames s' = pr_lost_rx_frames s \<and> pr_on_rx s' = pr_on_rx s"
proof -
  show "proto_read_queue s = (0, s)" if "q = []" using assms that by (simp add: rx_lists_def proto_read_queue_def)
  assume q: "q = e # q'"
  obtain p s' where s': "proto_read_queue s = (p, s')" by fastforce
  have c: "pr_queue s = e" "e \<noteq> 0" "chain (pr_packets s) (m_next (pr_packets s e)) q'" "chain (pr_packets s) (pr_pool s) f"
    "distinct (q' @ f)" "pr_last s = (if q' = [] then e else last q')"
    using assms q by (auto simp: rx_lists_def)
  have n: "m_next (pr_packets s e) = 0 \<longleftrightarrow> q' = []" using c(3) by (cases q') auto
  have f: "p = e" "pr_queue s' = m_next (pr_packets s e)" "pr_pool s' = pr_pool s" "pr_last s' = (if q' = [] then 0 else pr_last s)"
    "pr_memory s' = pr_memory s" "pr_lost_rx_frames s' = pr_lost_rx_frames s" "pr_on_rx s' = pr_on_rx s"
    "m_next (pr_packets s' x) = m_next (pr_packets s x)" "m_buf (pr_packets s' x) = m_buf (pr_packets s x)"
    "m_size (pr_packets s' x) = m_size (pr_packets s x)" "m_len (pr_packets s' x) = m_len (pr_packets s x)"
    "m_p (pr_packets s' x) = m_p (pr_packets s x)" for x
    using s' c(1,2) n by (auto simp: proto_read_queue_def Let_def)
  have "rx_lists q' f s'"
    using c f(2-4) chain_cong [of q' "pr_packets s'" "pr_packets s"] chain_cong [of f "pr_packets s'" "pr_packets s"] f(8)
    by (simp add: rx_lists_def)
  then show "\<exists>s'. proto_read_queue s = (e, s') \<and> e \<noteq> 0 \<and> rx_lists q' f s'
      \<and> (\<forall>x. m_buf (pr_packets s' x) = m_buf (pr_packets s x) \<and> m_size (pr_packets s' x) = m_size (pr_packets s x)
            \<and> m_len (pr_packets s' x) = m_len (pr_packets s x) \<and> m_p (pr_packets s' x) = m_p (pr_packets s x))
      \<and> pr_memory s' = pr_memory s \<and> pr_lost_rx_frames s' = pr_lost_rx_frames s \<and> pr_on_rx s' = pr_on_rx s"
    using s' f c(2) by auto
qed

lemma rx_lists_release:
  assumes "rx_lists q f s" "e \<noteq> 0" "e \<notin> set (q @ f)"
  shows "rx_lists q (e # f) (proto_release e s)"
    "m_buf (pr_packets (proto_release e s) x) = m_buf (pr_packets s x)" "m_size (pr_packets (proto_release e s) x) = m_size (pr_packets s x)"
    "m_len (pr_packets (proto_release e s) x) = m_len (pr_packets s x)" "m_p (pr_packets (proto_release e s) x) = m_p (pr_packets s x)"
    "pr_memory (proto_release e s) = pr_memory s" "pr_lost_rx_frames (proto_release e s) = pr_lost_rx_frames s"
    "pr_on_rx (proto_release e s) = pr_on_rx s"
proof -
  define s' where "s' = proto_release e s"
  have f: "pr_pool s' = e" "pr_queue s' = pr_queue s" "pr_last s' = pr_last s" "m_next (pr_packets s' e) = pr_pool s"
    "x \<noteq> e \<Longrightarrow> m_next (pr_packets s' x) = m_next (pr_packets s x)" for x
    by (auto simp: s'_def proto_release_def proto_add_rx_pool_def Let_def)
  have same: "m_next (pr_packets s' y) = m_next (pr_packets s y)" if "y \<in> set (q @ f)" for y
    using f(5) assms(3) that by metis
  have "chain (pr_packets s') (pr_queue s) q = chain (pr_packets s) (pr_queue s) q"
    "chain (pr_packets s') (pr_pool s) f = chain (pr_packets s) (pr_pool s) f"
    by (rule chain_cong, use same in simp)+
  then have "chain (pr_packets s') (pr_queue s) q" "chain (pr_packets s') (pr_pool s) f"
    using assms(1) by (simp_all add: rx_lists_def)
  then show "rx_lists q (e # f) (proto_release e s)"
    using assms f unfolding s'_def [symmetric] by (auto simp: rx_lists_def)
  show "m_buf (pr_packets (proto_release e s) x) = m_buf (pr_packets s x)" "m_size (pr_packets (proto_release e s) x) = m_size (pr_packets s x)"
    "m_len (pr_packets (proto_release e s) x) = m_len (pr_packets s x)" "m_p (pr_packets (proto_release e s) x) = m_p (pr_packets s x)"
    "pr_memory (proto_release e s) = pr_memory s" "pr_lost_rx_frames (proto_release e s) = pr_lost_rx_frames s"
    "pr_on_rx (proto_release e s) = pr_on_rx s"
    by (auto simp: proto_release_def proto_add_rx_pool_def Let_def)
qed

text \<open>What a frame does to the fields, when there is a packet for it.\<close>

lemma proto_take_pool_fields:
  "pr_pool (proto_take_pool p s) = m_next (pr_packets s p)" "pr_last (proto_take_pool p s) = pr_last s"
  "pr_queue (proto_take_pool p s) = pr_queue s" "m_next (pr_packets (proto_take_pool p s) x) = m_next (pr_packets s x)"
  "m_buf (pr_packets (proto_take_pool p s) x) = m_buf (pr_packets s x)" "m_size (pr_packets (proto_take_pool p s) x) = m_size (pr_packets s x)"
  "m_len (pr_packets (proto_take_pool p s) x) = m_len (pr_packets s x)" "m_p (pr_packets (proto_take_pool p s) x) = m_p (pr_packets s x)"
  "pr_memory (proto_take_pool p s) = pr_memory s" "pr_lost_rx_frames (proto_take_pool p s) = pr_lost_rx_frames s"
  "pr_on_rx (proto_take_pool p s) = pr_on_rx s"
  by (auto simp: proto_take_pool_def Let_def)

lemma proto_add_queue_fields:
  "pr_pool (proto_add_queue p s) = pr_pool s" "pr_last (proto_add_queue p s) = p"
  "pr_queue (proto_add_queue p s) = (if pr_queue s = 0 then p else pr_queue s)"
  "m_next (pr_packets (proto_add_queue p s) x)
     = (if x = pr_last s \<and> x \<noteq> 0 then p else if x = p then 0 else m_next (pr_packets s x))"
  "m_buf (pr_packets (proto_add_queue p s) x) = m_buf (pr_packets s x)" "m_size (pr_packets (proto_add_queue p s) x) = m_size (pr_packets s x)"
  "m_len (pr_packets (proto_add_queue p s) x) = m_len (pr_packets s x)" "m_p (pr_packets (proto_add_queue p s) x) = m_p (pr_packets s x)"
  "pr_memory (proto_add_queue p s) = pr_memory s" "pr_lost_rx_frames (proto_add_queue p s) = pr_lost_rx_frames s"
  "pr_on_rx (proto_add_queue p s) = pr_on_rx s"
  by (auto simp: proto_add_queue_def Let_def)

lemma proto_fill_fields:
  assumes "m_size (pr_packets s p) \<noteq> 0"
  shows "pr_pool (proto_fill p buf data s) = pr_pool s" "pr_last (proto_fill p buf data s) = pr_last s"
    "pr_queue (proto_fill p buf data s) = pr_queue s" "m_next (pr_packets (proto_fill p buf data s) x) = m_next (pr_packets s x)"
    "m_buf (pr_packets (proto_fill p buf data s) x) = m_buf (pr_packets s x)"
    "m_size (pr_packets (proto_fill p buf data s) x) = m_size (pr_packets s x)"
    "m_len (pr_packets (proto_fill p buf data s) x)
       = (if x = p then min (m_size (pr_packets s p)) (int (length data)) else m_len (pr_packets s x))"
    "m_p (pr_packets (proto_fill p buf data s) x) = m_p (pr_packets s x)"
    "pr_memory (proto_fill p buf data s)
       = store_bytes (m_buf (pr_packets s p)) (take (nat (min (m_size (pr_packets s p)) (int (length data)))) data) (pr_memory s)"
    "pr_lost_rx_frames (proto_fill p buf data s) = pr_lost_rx_frames s" "pr_on_rx (proto_fill p buf data s) = pr_on_rx s"
  using assms by (auto simp: proto_fill_def Let_def min_def)

lemmas proto_rx_fields = proto_take_pool_fields proto_add_queue_fields proto_fill_fields

lemma rx_lists_frame:
  fixes s :: "'a proto" and buf data x
  assumes "rx_lists q (e # f) s" "pr_on_rx s = None" "0 < m_size (pr_packets s e)"
  defines "s' \<equiv> proto_on_read buf data s" and "n \<equiv> min (m_size (pr_packets s e)) (int (length data))"
  shows "rx_lists (q @ [e]) f s'"
    "m_buf (pr_packets s' x) = m_buf (pr_packets s x)" "m_size (pr_packets s' x) = m_size (pr_packets s x)"
    "x \<noteq> e \<Longrightarrow> m_len (pr_packets s' x) = m_len (pr_packets s x)" "m_len (pr_packets s' e) = n"
    "x \<noteq> e \<Longrightarrow> m_p (pr_packets s' x) = m_p (pr_packets s x)" "m_p (pr_packets s' e) = 0"
    "pr_memory s' = store_bytes (m_buf (pr_packets s e)) (take (nat n) data) (pr_memory s)"
    "pr_lost_rx_frames s' = pr_lost_rx_frames s" "pr_on_rx s' = None"
proof -
  have c: "chain (pr_packets s) (pr_queue s) q" "pr_pool s = e" "e \<noteq> 0" "chain (pr_packets s) (m_next (pr_packets s e)) f"
    "distinct (q @ [e])" "distinct (q @ f)" "e \<notin> set f" "pr_last s = (if q = [] then 0 else last q)"
    using assms(1) by (auto simp: rx_lists_def)
  have ne: "pr_last s \<noteq> e" using c(3,5,8) last_in_set [of q] by (auto split: if_splits)
  have size: "m_size (pr_packets s e) \<noteq> 0" using assms(3) by simp
  define s3 where "s3 = proto_fill e buf data (proto_add_queue e (proto_take_pool e s))"
  have s': "s' = (upd_packet e (\<lambda>k. k\<lparr>m_p := 0\<rparr>) s3)\<lparr>pr_events := tiny_events_set (pr_events s3) PROTO_RX_MESSAGE\<rparr>"
    using c(2,3) assms(2) by (simp add: s'_def proto_on_read_def Let_def s3_def)
  have s3: "pr_pool s3 = m_next (pr_packets s e)" "pr_last s3 = e" "pr_queue s3 = (if pr_queue s = 0 then e else pr_queue s)"
    "m_next (pr_packets s3 x) = (if x = pr_last s \<and> x \<noteq> 0 then e else if x = e then 0 else m_next (pr_packets s x))"
    "m_buf (pr_packets s3 x) = m_buf (pr_packets s x)" "m_size (pr_packets s3 x) = m_size (pr_packets s x)"
    "m_len (pr_packets s3 x) = (if x = e then n else m_len (pr_packets s x))" "m_p (pr_packets s3 x) = m_p (pr_packets s x)"
    "pr_memory s3 = store_bytes (m_buf (pr_packets s e)) (take (nat n) data) (pr_memory s)"
    "pr_lost_rx_frames s3 = pr_lost_rx_frames s" "pr_on_rx s3 = None" for x
    using size assms(2) by (simp_all add: s3_def proto_rx_fields n_def)
  have next_s': "m_next (pr_packets s' x) = m_next (pr_packets s3 x)" for x by (simp add: s')
  have q0: "pr_queue s = 0 \<longleftrightarrow> q = []" using c(1) by (cases q) auto
  have last: "pr_last s \<notin> set f" "pr_last s \<notin> set (butlast q)"
    using c chain_nonzero [OF c(4)] chain_nonzero [OF c(1)] last_in_set [of q]
    by (auto, metis disjoint_iff, metis append_butlast_last_id distinct_append not_distinct_conv_prefix)
  have "chain (pr_packets s') (m_next (pr_packets s e)) f = chain (pr_packets s) (m_next (pr_packets s e)) f"
    by (rule chain_cong) (use c(7) last(1) in \<open>auto simp: next_s' s3\<close>)
  then have "chain (pr_packets s') (pr_pool s') f" using c(4) by (simp add: s' s3)
  moreover have "chain (pr_packets s') (if q = [] then e else pr_queue s) (q @ [e])"
  proof (rule chain_snoc [OF c(1,3,5)])
    show "m_next (pr_packets s' e) = 0" using ne by (simp add: next_s' s3)
    show "q \<noteq> [] \<longrightarrow> m_next (pr_packets s' (last q)) = e"
    proof
      assume "q \<noteq> []"
      then have "last q \<noteq> 0" using chain_nonzero [OF c(1)] last_in_set by metis
      then show "m_next (pr_packets s' (last q)) = e" using \<open>q \<noteq> []\<close> c(8) by (simp add: next_s' s3)
    qed
    show "m_next (pr_packets s' y) = m_next (pr_packets s y)" if "y \<in> set (butlast q)" for y
      using that last(2) c(5) in_set_butlastD [OF that] by (auto simp: next_s' s3)
  qed
  ultimately show "rx_lists (q @ [e]) f s'" using q0 c(5-7) by (auto simp: rx_lists_def s' s3)
  show "m_buf (pr_packets s' x) = m_buf (pr_packets s x)" "m_size (pr_packets s' x) = m_size (pr_packets s x)"
    "x \<noteq> e \<Longrightarrow> m_len (pr_packets s' x) = m_len (pr_packets s x)" "m_len (pr_packets s' e) = n"
    "x \<noteq> e \<Longrightarrow> m_p (pr_packets s' x) = m_p (pr_packets s x)" "m_p (pr_packets s' e) = 0"
    "pr_memory s' = store_bytes (m_buf (pr_packets s e)) (take (nat n) data) (pr_memory s)"
    "pr_lost_rx_frames s' = pr_lost_rx_frames s" "pr_on_rx s' = None"
    by (simp_all add: s' s3)
qed

subsection \<open>Messages in order\<close>

text \<open>
  What happens on the receiving side: the link delivers a frame, the application reads, the application gives a
  packet back. A reading yields the packet and the bytes in it.
\<close>

datatype rx_event = Frame nat "u8 list" | Read_packet | Release nat

type_synonym message = "nat \<times> u8 list"

fun rx_event_step :: "rx_event \<Rightarrow> 'a proto \<Rightarrow> message list \<times> 'a proto" where
  "rx_event_step (Frame buf data) s = ([], proto_on_read buf data s)"
| "rx_event_step Read_packet s = (case proto_read_queue s of (p, s) \<Rightarrow>
     (if p = 0 then [] else [(p, bytes_at (pr_memory s) (m_buf (pr_packets s p)) (nat (m_len (pr_packets s p))))], s))"
| "rx_event_step (Release p) s = ([], proto_release p s)"

fun rx_events :: "rx_event list \<Rightarrow> 'a proto \<Rightarrow> message list \<times> 'a proto" where
  "rx_events [] s = ([], s)"
| "rx_events (e # es) s = (case rx_event_step e s of (out1, s) \<Rightarrow> case rx_events es s of (out2, s) \<Rightarrow> (out1 @ out2, s))"

text \<open>
  The specification: messages that wait, in order; free packets; lost frames. A message longer than the buffer is cut.
\<close>

type_synonym rx_spec = "message list \<times> nat list \<times> nat"

fun rx_spec_step :: "(nat \<Rightarrow> nat) \<Rightarrow> rx_event \<Rightarrow> rx_spec \<Rightarrow> message list \<times> rx_spec" where
  "rx_spec_step sz (Frame buf data) (ws, [], lost) = ([], (ws, [], lost + 1))"
| "rx_spec_step sz (Frame buf data) (ws, e # f, lost) = ([], (ws @ [(e, take (sz e) data)], f, lost))"
| "rx_spec_step sz Read_packet ([], f, lost) = ([], ([], f, lost))"
| "rx_spec_step sz Read_packet (w # ws, f, lost) = ([w], (ws, f, lost))"
| "rx_spec_step sz (Release e) (ws, f, lost) = ([], (ws, e # f, lost))"

fun rx_spec_run :: "(nat \<Rightarrow> nat) \<Rightarrow> rx_event list \<Rightarrow> rx_spec \<Rightarrow> message list \<times> rx_spec" where
  "rx_spec_run sz [] a = ([], a)"
| "rx_spec_run sz (e # es) a = (case rx_spec_step sz e a of (out1, a) \<Rightarrow> case rx_spec_run sz es a of (out2, a) \<Rightarrow> (out1 @ out2, a))"

text \<open>The application gives back only packets that it has: packets of \<open>P\<close> that neither wait nor are free.\<close>

fun rx_events_ok :: "nat set \<Rightarrow> (nat \<Rightarrow> nat) \<Rightarrow> rx_event list \<Rightarrow> rx_spec \<Rightarrow> bool" where
  "rx_events_ok P sz [] a \<longleftrightarrow> True"
| "rx_events_ok P sz (e # es) a \<longleftrightarrow> (case e of Release p \<Rightarrow> p \<in> P \<and> p \<notin> set (map fst (fst a) @ fst (snd a)) | _ \<Rightarrow> True)
     \<and> rx_events_ok P sz es (snd (rx_spec_step sz e a))"

text \<open>The packets of the application: buffers of a size, apart from each other.\<close>

definition packets_apart :: "nat set \<Rightarrow> (nat \<Rightarrow> nat) \<Rightarrow> (nat \<Rightarrow> nat) \<Rightarrow> bool" where
  "packets_apart P buf sz \<longleftrightarrow> (\<forall>e \<in> P. e \<noteq> 0 \<and> 0 < sz e)
     \<and> (\<forall>e \<in> P. \<forall>d \<in> P. e \<noteq> d \<longrightarrow> buf e + sz e \<le> buf d \<or> buf d + sz d \<le> buf e)"

text \<open>The packet holds the message.\<close>

definition holds :: "'a proto \<Rightarrow> message \<Rightarrow> bool" where
  "holds s w \<longleftrightarrow> m_len (pr_packets s (fst w)) = int (length (snd w)) \<and> m_p (pr_packets s (fst w)) = 0
     \<and> bytes_at (pr_memory s) (m_buf (pr_packets s (fst w))) (length (snd w)) = snd w"

definition rx_refines :: "nat set \<Rightarrow> (nat \<Rightarrow> nat) \<Rightarrow> (nat \<Rightarrow> nat) \<Rightarrow> rx_spec \<Rightarrow> 'a proto \<Rightarrow> bool" where
  "rx_refines P buf sz = (\<lambda>(ws, f, lost) s. pr_on_rx s = None \<and> rx_lists (map fst ws) f s
     \<and> set (map fst ws @ f) \<subseteq> P \<and> (\<forall>e \<in> P. m_buf (pr_packets s e) = buf e \<and> m_size (pr_packets s e) = int (sz e))
     \<and> (\<forall>w \<in> set ws. holds s w \<and> length (snd w) \<le> sz (fst w)) \<and> pr_lost_rx_frames s = int lost)"

lemma bytes_at_store_other: "p + n \<le> dst \<or> dst + length bs \<le> p \<Longrightarrow> bytes_at (store_bytes dst bs m) p n = bytes_at m p n"
  by (rule bytes_at_cong) (auto simp: store_bytes_def)

lemma bytes_at_store: "bytes_at (store_bytes dst bs m) dst (length bs) = bs"
  by (intro nth_equalityI) (simp_all add: store_bytes_def)

lemma rx_refines_frame:
  assumes "packets_apart P buf sz" "rx_refines P buf sz (ws, f, lost) s"
  shows "rx_refines P buf sz (snd (rx_spec_step sz (Frame adr data) (ws, f, lost))) (proto_on_read adr data s)"
proof (cases f)
  case Nil
  have "pr_pool s = 0" "pr_on_rx s = None" using assms(2) Nil by (auto simp: rx_refines_def rx_lists_def)
  then show ?thesis using assms(2) Nil by (simp add: proto_on_read_def rx_refines_def rx_lists_def holds_def)
next
  case (Cons e f')
  have r: "pr_on_rx s = None" "rx_lists (map fst ws) (e # f') s" "set (map fst ws @ f) \<subseteq> P" "e \<in> P"
    "\<And>d. d \<in> P \<Longrightarrow> m_buf (pr_packets s d) = buf d \<and> m_size (pr_packets s d) = int (sz d)"
    "\<And>w. w \<in> set ws \<Longrightarrow> holds s w \<and> length (snd w) \<le> sz (fst w)" "pr_lost_rx_frames s = int lost"
    using assms(2) Cons by (auto simp: rx_refines_def)
  have size: "0 < m_size (pr_packets s e)" using r(4,5) assms(1) by (simp add: packets_apart_def)
  note F = rx_lists_frame [OF r(2,1) size, where buf = adr and data = data]
  define s' where "s' = proto_on_read adr data s"
  define bs where "bs = take (sz e) data"
  have bs: "take (nat (min (m_size (pr_packets s e)) (int (length data)))) data = bs"
    "min (m_size (pr_packets s e)) (int (length data)) = int (length bs)"
    using r(4,5) by (auto simp: bs_def min_def)
  have mem: "pr_memory s' = store_bytes (buf e) bs (pr_memory s)" using F(8) bs(1) r(4,5) by (simp add: s'_def)
  have "holds s' w" if "w \<in> set ws" for w
  proof -
    have w: "fst w \<in> P" "fst w \<noteq> e" "holds s w" "length (snd w) \<le> sz (fst w)"
    proof -
      have "fst w \<in> fst ` set ws" "fst ` set ws \<subseteq> P" "e \<notin> fst ` set ws" using that r(2,3) by (auto simp: rx_lists_def)
      then show "fst w \<in> P" "fst w \<noteq> e" by auto
    qed (use r(6) [OF that] in auto)
    have "buf (fst w) + length (snd w) \<le> buf e \<or> buf e + length bs \<le> buf (fst w)"
    proof -
      have "buf (fst w) + sz (fst w) \<le> buf e \<or> buf e + sz e \<le> buf (fst w)"
        using assms(1) r(4) w(1,2) by (simp add: packets_apart_def)
      moreover have "length bs \<le> sz e" by (simp add: bs_def)
      ultimately show ?thesis using w(4) by linarith
    qed
    then show ?thesis using w F(2,4,6) [of "fst w"] r(5) mem by (simp add: holds_def s'_def bytes_at_store_other)
  qed
  moreover have "holds s' (e, bs)" using F(2) [of e] F(5,7) bs(2) mem r(4,5) by (simp add: holds_def s'_def bytes_at_store)
  moreover have "length bs \<le> sz e" by (simp add: bs_def)
  moreover have "m_buf (pr_packets s' d) = buf d \<and> m_size (pr_packets s' d) = int (sz d)" if "d \<in> P" for d
    using F(2,3) [of d] r(5) [OF that] by (simp add: s'_def)
  moreover have "rx_lists (map fst (ws @ [(e, bs)])) f' s'" "pr_lost_rx_frames s' = int lost" "pr_on_rx s' = None"
    using F(1,9,10) r(7) by (simp_all add: s'_def)
  ultimately show ?thesis using r(3,6) Cons by (auto simp: rx_refines_def bs_def s'_def)
qed

lemma rx_refines_read:
  assumes "rx_refines P buf sz (ws, f, lost) s"
  shows "fst (rx_event_step Read_packet s) = fst (rx_spec_step sz Read_packet (ws, f, lost))"
    and "rx_refines P buf sz (snd (rx_spec_step sz Read_packet (ws, f, lost))) (snd (rx_event_step Read_packet s))"
proof -
  have r: "rx_lists (map fst ws) f s" using assms by (simp add: rx_refines_def)
  have "fst (rx_event_step Read_packet s) = fst (rx_spec_step sz Read_packet (ws, f, lost))
    \<and> rx_refines P buf sz (snd (rx_spec_step sz Read_packet (ws, f, lost))) (snd (rx_event_step Read_packet s))"
  proof (cases ws)
    case Nil
    then show ?thesis using rx_lists_read(1) [OF r] assms by simp
  next
    case (Cons w ws')
    then obtain s' where s': "proto_read_queue s = (fst w, s')" "fst w \<noteq> 0" "rx_lists (map fst ws') f s'"
      "\<And>x. m_buf (pr_packets s' x) = m_buf (pr_packets s x) \<and> m_size (pr_packets s' x) = m_size (pr_packets s x)
            \<and> m_len (pr_packets s' x) = m_len (pr_packets s x) \<and> m_p (pr_packets s' x) = m_p (pr_packets s x)"
      "pr_memory s' = pr_memory s" "pr_lost_rx_frames s' = pr_lost_rx_frames s" "pr_on_rx s' = pr_on_rx s"
      using rx_lists_read(2) [OF r, of "fst w" "map fst ws'"] by auto
    have "holds s w" using assms Cons by (simp add: rx_refines_def)
    then have "bytes_at (pr_memory s') (m_buf (pr_packets s' (fst w))) (nat (m_len (pr_packets s' (fst w)))) = snd w"
      using s'(4,5) by (simp add: holds_def)
    moreover have "rx_refines P buf sz (ws', f, lost) s'"
      using assms Cons s' by (auto simp: rx_refines_def holds_def)
    ultimately show ?thesis using s'(1,2) Cons by simp
  qed
  then show "fst (rx_event_step Read_packet s) = fst (rx_spec_step sz Read_packet (ws, f, lost))"
    "rx_refines P buf sz (snd (rx_spec_step sz Read_packet (ws, f, lost))) (snd (rx_event_step Read_packet s))" by blast+
qed

lemma rx_refines_release:
  assumes "packets_apart P buf sz" "rx_refines P buf sz (ws, f, lost) s" "p \<in> P" "p \<notin> set (map fst ws @ f)"
  shows "rx_refines P buf sz (ws, p # f, lost) (proto_release p s)"
proof -
  have "rx_lists (map fst ws) f s" "p \<noteq> 0" using assms by (auto simp: rx_refines_def packets_apart_def)
  note R = rx_lists_release [OF this assms(4)]
  show ?thesis using assms(2,3) R by (auto simp: rx_refines_def holds_def)
qed

lemma rx_refines_step:
  assumes "packets_apart P buf sz" "rx_refines P buf sz a s" "rx_events_ok P sz [e] a"
  shows "fst (rx_event_step e s) = fst (rx_spec_step sz e a) \<and> rx_refines P buf sz (snd (rx_spec_step sz e a)) (snd (rx_event_step e s))"
proof -
  obtain ws f lost where a: "a = (ws, f, lost)" by (metis prod_cases3)
  show ?thesis
  proof (cases e)
    case (Frame adr data)
    have "fst (rx_spec_step sz (Frame adr data) (ws, f, lost)) = []" by (cases f) simp_all
    then show ?thesis using rx_refines_frame [OF assms(1)] assms(2) Frame by (simp add: a)
  next
    case Read_packet
    then show ?thesis using rx_refines_read [OF assms(2) [unfolded a]] by (simp only: a simp_thms)
  next
    case (Release p)
    then show ?thesis using rx_refines_release [OF assms(1) assms(2) [unfolded a], of p] assms(3) by (simp add: a)
  qed
qed

text \<open>
  C6: Received messages reach the application in order, each exactly once: for any interleaving of frames from the link, readings and
  packets given back, the packets that \<open>read\<close> yields and the bytes in them are those of a queue: the messages that found a free
  packet, oldest first, cut to the size of the buffer; the others are counted as lost. The links of queue and pool stay
  intact. This is for packets with buffers apart from each other, of which the application gives back only those that it holds.
\<close>

theorem proto_messages_in_order:
  assumes "packets_apart P buf sz" "rx_refines P buf sz a s" "rx_events_ok P sz es a"
  shows "fst (rx_events es s) = fst (rx_spec_run sz es a) \<and> rx_refines P buf sz (snd (rx_spec_run sz es a)) (snd (rx_events es s))"
  using assms(2,3)
proof (induction es arbitrary: a s)
  case (Cons e es)
  obtain out1 s1 out2 a1 where e: "rx_event_step e s = (out1, s1)" "rx_spec_step sz e a = (out2, a1)" by (metis surj_pair)
  have "out1 = out2" "rx_refines P buf sz a1 s1" "rx_events_ok P sz es a1"
    using rx_refines_step [OF assms(1) Cons.prems(1), of e] Cons.prems(2) e by simp_all
  then show ?case using Cons.IH [of a1 s1] e by (simp add: split_beta)
qed simp

text \<open>
  A pool of two packets, of 4 and 2 bytes, and three frames for them.
\<close>

definition demo_proto :: "unit proto" where
  "demo_proto = proto_release 1 (proto_release 2 (proto_new False
     ((\<lambda>_. packet_empty)(1 := packet_new 100 4, 2 := packet_new 200 2)) (\<lambda>_. 0) () (\<lambda>_. 0)))"

theorem proto_messages_in_order_witness:
  "fst (rx_events [Frame 500 [1, 2, 3], Frame 500 [4, 5, 6], Frame 500 [7], Read_packet, Release 1, Read_packet, Frame 500 [8], Read_packet] demo_proto)
     = [(1, [1, 2, 3]), (2, [4, 5]), (1, [8])]"
proof -
  let ?P = "{1, 2} :: nat set" and ?buf = "\<lambda>p :: nat. if p = 1 then 100 else 200 :: nat" and ?sz = "\<lambda>p :: nat. if p = 1 then 4 else 2 :: nat"
  let ?es = "[Frame 500 [1, 2, 3], Frame 500 [4, 5, 6], Frame 500 [7], Read_packet, Release 1, Read_packet, Frame 500 [8], Read_packet]"
  have "packets_apart ?P ?buf ?sz" by (simp add: packets_apart_def)
  moreover have "rx_refines ?P ?buf ?sz ([], [1, 2], 0) demo_proto"
    by (simp add: rx_refines_def rx_lists_def demo_proto_def proto_release_def proto_add_rx_pool_def Let_def proto_new_def packet_new_def)
  moreover have "rx_events_ok ?P ?sz ?es ([], [1, 2], 0)" by simp
  ultimately have "fst (rx_events ?es demo_proto) = fst (rx_spec_run ?sz ?es ([], [1, 2], 0))"
    using proto_messages_in_order [of ?P ?buf ?sz "([], [1, 2], 0)" demo_proto ?es] by blast
  then show ?thesis by simp
qed

end
