(* ===== verification/HdlcLink.thy ===== *)
theory HdlcLink
  imports HdlcDuplex LineDevice TinyProto
begin

unbundle bit_operations_syntax

section \<open>The HDLC link over a serial line: src/link/TinyHdlcLinkLayer.cpp\<close>

text \<open>
  The link layer class for HDLC frames, and the class template for serial lines
  (\<open>src/link/TinySerialLinkLayer.h\<close>) that is instantiated with it. The object is the structure behind
  \<open>user_data\<close> of the low level handle; a handle with that structure is the state of the link.
  \<^item> \<open>'o\<close> is the owner that the callbacks get as \<open>m_udata\<close>.
  \<^item> The serial line is a parameter: functions that write and read on a state, one state for each direction.
  \<^item> \<open>env\<close> is what other threads do while a call waits for an event.
\<close>

definition TX_QUEUE_FREE :: u8 where "TX_QUEUE_FREE = 1"
definition TX_MESSAGE_SENDING :: u8 where "TX_MESSAGE_SENDING = 4"

record ('o, 'd, 'e) hdlc_link =
  lk_on_read :: "'o \<Rightarrow> u8 \<Rightarrow> u8 list \<Rightarrow> 'o"
  lk_on_send :: "'o \<Rightarrow> u8 \<Rightarrow> u8 list \<Rightarrow> 'o"
  lk_udata :: 'o
  lk_events :: u8
  lk_temp_buffer :: nat
  lk_buffer :: nat
  lk_buffer_size :: int
  lk_crc :: hdlc_crc_t
  lk_flush_flag :: bool
  lk_mtu :: int
  lk_timeout :: u32
  lk_out :: 'd
  lk_in :: 'e

type_synonym ('o, 'd, 'e) hlink = "('o, 'd, 'e) hdlc_link hdlc_ll"

abbreviation upd_lk :: "(('o, 'd, 'e) hdlc_link \<Rightarrow> ('o, 'd, 'e) hdlc_link) \<Rightarrow> ('o, 'd, 'e) hlink \<Rightarrow> ('o, 'd, 'e) hlink" where
  "upd_lk f h \<equiv> h\<lparr>user_data := f (user_data h)\<rparr>"

definition lk_set_events :: "u8 \<Rightarrow> ('o, 'd, 'e) hdlc_link \<Rightarrow> ('o, 'd, 'e) hdlc_link" where
  "lk_set_events bits s = s\<lparr>lk_events := tiny_events_set (lk_events s) bits\<rparr>"

definition lk_clear_events :: "u8 \<Rightarrow> ('o, 'd, 'e) hdlc_link \<Rightarrow> ('o, 'd, 'e) hdlc_link" where
  "lk_clear_events bits s = s\<lparr>lk_events := tiny_events_clear (lk_events s) bits\<rparr>"

definition lk_wait_events :: "(('o, 'd, 'e) hlink \<Rightarrow> ('o, 'd, 'e) hlink) \<Rightarrow> u32 \<Rightarrow> u8 \<Rightarrow> bool \<Rightarrow> ('o, 'd, 'e) hlink \<Rightarrow> u8 \<times> ('o, 'd, 'e) hlink" where
  "lk_wait_events env timeout bits clear h =
     (let h = (if lk_events (user_data h) AND bits = 0 \<and> timeout \<noteq> 0 then env h else h);
          (r, e) = tiny_events_wait (lk_events (user_data h)) bits clear
      in (r, upd_lk (\<lambda>s. s\<lparr>lk_events := e\<rparr>) h))"

subsection \<open>The link layer\<close>

definition hlink_on_send :: "('o, 'd, 'e) hdlc_link \<Rightarrow> nat \<Rightarrow> u8 list \<Rightarrow> ('o, 'd, 'e) hdlc_link" where
  "hlink_on_send layer p data =
     (let layer = lk_set_events TX_QUEUE_FREE (lk_clear_events TX_MESSAGE_SENDING layer)
      in layer\<lparr>lk_udata := lk_on_send layer (lk_udata layer) 0 data\<rparr>)"

definition hlink_on_read :: "('o, 'd, 'e) hdlc_link \<Rightarrow> u8 list \<Rightarrow> ('o, 'd, 'e) hdlc_link" where
  "hlink_on_read layer data = layer\<lparr>lk_udata := lk_on_read layer (lk_udata layer) 0 data\<rparr>"

definition hlink_begin :: "c_abi \<Rightarrow> ('o \<Rightarrow> u8 \<Rightarrow> u8 list \<Rightarrow> 'o) \<Rightarrow> ('o \<Rightarrow> u8 \<Rightarrow> u8 list \<Rightarrow> 'o) \<Rightarrow> 'o
    \<Rightarrow> ('o, 'd, 'e) hlink \<Rightarrow> bool \<times> ('o, 'd, 'e) hlink" where
  "hlink_begin abi on_read on_send udata h0 =
     (let layer = (user_data h0)\<lparr>lk_on_read := on_read, lk_on_send := on_send, lk_udata := udata\<rparr>;
          init = \<lparr>init_on_frame_read = Some hlink_on_read, init_on_frame_send = Some hlink_on_send,
                  init_buf = lk_buffer layer, init_buf_size = lk_buffer_size layer, init_crc_type = lk_crc layer,
                  init_user_data = layer, init_mtu = lk_mtu layer\<rparr>;
          (ok, h) = (case hdlc_ll_init abi init h0 of Inl e \<Rightarrow> (False, h0\<lparr>user_data := layer\<rparr>) | Inr h \<Rightarrow> (True, h))
      in (ok, upd_lk (\<lambda>s. lk_clear_events TX_MESSAGE_SENDING (lk_set_events TX_QUEUE_FREE (s\<lparr>lk_flush_flag := False\<rparr>))) h))"

definition hlink_end :: "('o, 'd, 'e) hlink \<Rightarrow> ('o, 'd, 'e) hlink" where
  "hlink_end h = snd (hdlc_ll_close (upd_lk (lk_clear_events TX_MESSAGE_SENDING) h))"

definition hlink_put :: "(('o, 'd, 'e) hlink \<Rightarrow> ('o, 'd, 'e) hlink) \<Rightarrow> nat \<Rightarrow> int \<Rightarrow> u32 \<Rightarrow> ('o, 'd, 'e) hlink \<Rightarrow> bool \<times> ('o, 'd, 'e) hlink" where
  "hlink_put env buf sz timeout h =
     (case lk_wait_events env timeout TX_QUEUE_FREE True h of (bits, h) \<Rightarrow>
        if bits \<noteq> 0 then
          let h = upd_lk (\<lambda>s. s\<lparr>lk_flush_flag := False\<rparr>) h in
          if lk_temp_buffer (user_data h) = buf then
            (True, upd_lk (\<lambda>s. lk_set_events TX_QUEUE_FREE (s\<lparr>lk_temp_buffer := 0\<rparr>)) h)
          else case hdlc_ll_put_frame h buf (nat sz) of (r, h) \<Rightarrow>
            if r = TINY_SUCCESS then (False, upd_lk (\<lambda>s. lk_set_events TX_MESSAGE_SENDING (s\<lparr>lk_temp_buffer := buf\<rparr>)) h)
            else (False, upd_lk (lk_set_events TX_QUEUE_FREE) h)
        else (False, h))"

definition hlink_flush_tx :: "('o, 'd, 'e) hlink \<Rightarrow> ('o, 'd, 'e) hlink" where
  "hlink_flush_tx h = upd_lk (\<lambda>s. s\<lparr>lk_flush_flag := True\<rparr>) h"

definition hlink_parse_data :: "u8 list \<Rightarrow> ('o, 'd, 'e) hlink \<Rightarrow> int \<times> ('o, 'd, 'e) hlink" where
  "hlink_parse_data data h = (case hdlc_ll_run_rx h data of (n, e, h) \<Rightarrow> (n, h))"

text \<open>The count, with the bytes in \<open>tx_out\<close> of the handle.\<close>

definition hlink_get_data :: "(('o, 'd, 'e) hlink \<Rightarrow> ('o, 'd, 'e) hlink) \<Rightarrow> nat \<Rightarrow> ('o, 'd, 'e) hlink \<Rightarrow> int \<times> ('o, 'd, 'e) hlink" where
  "hlink_get_data env sz h =
     (case lk_wait_events env (lk_timeout (user_data h)) TX_MESSAGE_SENDING False h of (bits, h) \<Rightarrow>
        if bits \<noteq> 0 then
          if lk_flush_flag (user_data h) then
            (0, upd_lk (\<lambda>s. lk_set_events TX_QUEUE_FREE (lk_clear_events TX_MESSAGE_SENDING s))
                  (hdlc_ll_reset (upd_lk (\<lambda>s. s\<lparr>lk_flush_flag := False\<rparr>) h) HDLC_LL_RESET_TX_ONLY))
          else hdlc_ll_run_tx h sz
        else (0, h))"

subsection \<open>The serial line\<close>

definition SERIAL_HDLC_BSIZE :: nat where "SERIAL_HDLC_BSIZE = 32"

function serial_write_loop :: "('d \<Rightarrow> u8 list \<Rightarrow> int \<times> 'd) \<Rightarrow> u8 list \<Rightarrow> 'd \<Rightarrow> 'd" where
  "serial_write_loop wr ptr d =
     (if ptr \<noteq> [] then
        case wr d ptr of (sent, d) \<Rightarrow> if sent \<le> 0 then d else serial_write_loop wr (drop (nat sent) ptr) d
      else d)"
  by pat_completeness auto
termination by (relation "measure (\<lambda>(wr, ptr, d). length ptr)") auto

declare serial_write_loop.simps [simp del]

definition serial_run_tx :: "('d \<Rightarrow> u8 list \<Rightarrow> int \<times> 'd) \<Rightarrow> (('o, 'd, 'e) hlink \<Rightarrow> ('o, 'd, 'e) hlink) \<Rightarrow> ('o, 'd, 'e) hlink \<Rightarrow> ('o, 'd, 'e) hlink option" where
  "serial_run_tx wr env h =
     (case hlink_get_data env SERIAL_HDLC_BSIZE h of (len, h) \<Rightarrow>
        Some (upd_lk (\<lambda>s. s\<lparr>lk_out := serial_write_loop wr (take (nat len) (tx_out h)) (lk_out s)\<rparr>) h))"

partial_function (option) serial_parse_loop :: "u8 list \<Rightarrow> ('o, 'd, 'e) hlink \<Rightarrow> ('o, 'd, 'e) hlink option" where
  "serial_parse_loop p h =
     (if p \<noteq> [] then
        case hlink_parse_data p h of (temp, h) \<Rightarrow> if temp < 0 then Some h else serial_parse_loop (drop (nat temp) p) h
      else Some h)"

definition serial_run_rx :: "('e \<Rightarrow> nat \<Rightarrow> int \<times> u8 list \<times> 'e) \<Rightarrow> ('o, 'd, 'e) hlink \<Rightarrow> ('o, 'd, 'e) hlink option" where
  "serial_run_rx rd h =
     (case rd (lk_in (user_data h)) SERIAL_HDLC_BSIZE of (len, data, d) \<Rightarrow>
        serial_parse_loop (take (nat len) data) (upd_lk (\<lambda>s. s\<lparr>lk_in := d\<rparr>) h))"

text \<open>The link as \<open>Proto\<close> sees it; the frame that arrives is at the address \<open>buf\<close>.\<close>

definition proto_on_read_cb :: "nat \<Rightarrow> 'a proto \<Rightarrow> u8 \<Rightarrow> u8 list \<Rightarrow> 'a proto" where
  "proto_on_read_cb buf proto addr data = proto_on_read buf data proto"

definition proto_on_send_cb :: "'a proto \<Rightarrow> u8 \<Rightarrow> u8 list \<Rightarrow> 'a proto" where
  "proto_on_send_cb proto addr data = proto_on_send data proto"

definition serial_hdlc_link :: "c_abi \<Rightarrow> nat \<Rightarrow> ('d \<Rightarrow> u8 list \<Rightarrow> int \<times> 'd) \<Rightarrow> ('e \<Rightarrow> nat \<Rightarrow> int \<times> u8 list \<times> 'e)
    \<Rightarrow> (('a proto, 'd, 'e) hlink \<Rightarrow> ('a proto, 'd, 'e) hlink) \<Rightarrow> ('a, ('a proto, 'd, 'e) hlink) link_layer" where
  "serial_hdlc_link abi buf wr rd env =
     \<lparr>ll_begin = (\<lambda>h. hlink_begin abi (proto_on_read_cb buf) proto_on_send_cb (lk_udata (user_data h)) h),
      ll_end = hlink_end, ll_run_rx = serial_run_rx rd, ll_run_tx = serial_run_tx wr env, ll_put = hlink_put env,
      ll_flush_tx = hlink_flush_tx, ll_get_timeout = (\<lambda>h. lk_timeout (user_data h)),
      ll_set_timeout = (\<lambda>t. upd_lk (\<lambda>s. s\<lparr>lk_timeout := t\<rparr>)), ll_proto = (\<lambda>h. lk_udata (user_data h)),
      ll_upd_proto = (\<lambda>f. upd_lk (\<lambda>s. s\<lparr>lk_udata := f (lk_udata s)\<rparr>))\<rparr>"

subsection \<open>The serial line and the receiver\<close>

text \<open>A line that takes at least one byte of every block; \<open>log\<close> tells what it has taken.\<close>

definition takes_blocks :: "('d \<Rightarrow> u8 list \<Rightarrow> int \<times> 'd) \<Rightarrow> ('d \<Rightarrow> u8 list) \<Rightarrow> bool" where
  "takes_blocks wr log \<longleftrightarrow> (\<forall>d c. c \<noteq> [] \<longrightarrow> (\<exists>k d1. wr d c = (int k, d1) \<and> 0 < k \<and> k \<le> length c \<and> log d1 = log d @ take k c))"

lemma serial_write_loop_log: "takes_blocks wr log \<Longrightarrow> log (serial_write_loop wr bs d) = log d @ bs"
proof (induction wr bs d rule: serial_write_loop.induct)
  case (1 wr ptr d)
  show ?case
  proof (cases "ptr = []")
    case False
    then obtain k d1 where k: "wr d ptr = (int k, d1)" "0 < k" "log d1 = log d @ take k ptr"
      using 1(2) unfolding takes_blocks_def by blast
    then show ?thesis using 1(1) [OF False k(1) [symmetric]] 1(2) False by (simp add: serial_write_loop.simps [of wr ptr])
  qed (simp add: serial_write_loop.simps)
qed

lemma serial_parse_loop_feed: "rx_wf h \<Longrightarrow> rx_state h \<noteq> Read_end \<Longrightarrow> serial_parse_loop data h = Some (rx_feed h data)"
proof (induction h data rule: rx_feed.induct)
  case (1 h data)
  obtain n e h' where run: "hdlc_ll_run_rx h data = (n, e, h')" by (metis prod_cases3)
  show ?case
  proof (cases "data = []")
    case False
    obtain k es where k: "0 < k" "n = int k" "rx_reads h (take k data) es h'"
      using hdlc_ll_run_rx_reads [OF 1(2,3) run] False by metis
    then have "rx_wf h'" "rx_state h' \<noteq> Read_end" by (simp_all add: rx_reads_def)
    then have "serial_parse_loop (drop k data) h' = Some (rx_feed h' (drop k data))"
      using 1(1) [OF False run [symmetric] refl] k by simp
    then show ?thesis using False run k by (simp add: rx_feed.simps [of h data] serial_parse_loop.simps [of data h] hlink_parse_data_def)
  qed (simp add: rx_feed.simps serial_parse_loop.simps)
qed

text \<open>The parts of the owner that a callback leaves alone.\<close>

definition proto_same :: "'a proto \<Rightarrow> 'a proto \<Rightarrow> bool" where
  "proto_same s s' \<longleftrightarrow> pr_multithread s' = pr_multithread s \<and> pr_clock s' = pr_clock s \<and> pr_ticks s' = pr_ticks s"

lemma proto_same_refl [simp]: "proto_same s s"
  by (simp add: proto_same_def)

lemma proto_same_trans: "proto_same s s1 \<Longrightarrow> proto_same s1 s2 \<Longrightarrow> proto_same s s2"
  by (simp add: proto_same_def)

lemma proto_on_read_same: "proto_same s (proto_on_read buf data s)"
proof (cases "pr_on_rx s")
  case None
  have "proto_same s (proto_take_pool p s)" "proto_same s (proto_add_queue p s)" "proto_same s (proto_fill p buf data s)" for p and s :: "'a proto"
    by (auto simp: proto_same_def proto_take_pool_def proto_add_queue_def proto_fill_def Let_def)
  then have "proto_same s (proto_fill p buf data (proto_add_queue p (proto_take_pool p s)))" for p
    using proto_same_trans by metis
  then show ?thesis using None by (auto simp: proto_on_read_def Let_def proto_same_def)
qed (simp add: proto_on_read_def proto_same_def)

lemma proto_on_send_same: "proto_same s (proto_on_send data s)"
  by (simp add: proto_on_send_def proto_same_def split: option.split)

text \<open>Received frames change only the owner.\<close>

definition link_same :: "('a proto, 'd, 'e) hdlc_link \<Rightarrow> ('a proto, 'd, 'e) hdlc_link \<Rightarrow> bool" where
  "link_same s s' \<longleftrightarrow> (\<exists>u. s' = s\<lparr>lk_udata := u\<rparr> \<and> proto_same (lk_udata s) u)"

lemma notify_frames_link_same:
  assumes "lk_on_read s = proto_on_read_cb buf"
  shows "link_same s (notify_frames (Some hlink_on_read) fs s)"
proof -
  have "link_same s (fold (\<lambda>f u. hlink_on_read u f) fs (s\<lparr>lk_udata := u\<rparr>))" if "proto_same (lk_udata s) u" for u
    using that
  proof (induction fs arbitrary: u)
    case Nil
    then show ?case by (auto simp: link_same_def)
  next
    case (Cons f fs)
    have "hlink_on_read (s\<lparr>lk_udata := u\<rparr>) f = s\<lparr>lk_udata := proto_on_read buf f u\<rparr>"
      using assms by (simp add: hlink_on_read_def proto_on_read_cb_def)
    moreover have "proto_same (lk_udata s) (proto_on_read buf f u)"
      using Cons.prems proto_on_read_same proto_same_trans by blast
    ultimately show ?case using Cons.IH by simp
  qed
  from this [of "lk_udata s"] show ?thesis by (simp add: notify_frames_def)
qed

subsection \<open>Events\<close>

lemma lk_bits:
  "((x AND NOT TX_MESSAGE_SENDING) OR TX_QUEUE_FREE) AND TX_QUEUE_FREE = TX_QUEUE_FREE"
  "((x AND NOT TX_MESSAGE_SENDING) OR TX_QUEUE_FREE) AND TX_MESSAGE_SENDING = 0"
  "((x AND NOT TX_QUEUE_FREE) OR TX_MESSAGE_SENDING) AND TX_QUEUE_FREE = 0"
  "((x AND NOT TX_QUEUE_FREE) OR TX_MESSAGE_SENDING) AND TX_MESSAGE_SENDING = TX_MESSAGE_SENDING"
  "(x OR TX_QUEUE_FREE) AND TX_QUEUE_FREE = TX_QUEUE_FREE"
proof -
  have bits: "n \<in> {0, 1, 2, 3, 4, 5, 6, 7}" if "n < LENGTH(8)" for n :: nat using that by auto
  show "((x AND NOT TX_MESSAGE_SENDING) OR TX_QUEUE_FREE) AND TX_QUEUE_FREE = TX_QUEUE_FREE"
    "((x AND NOT TX_MESSAGE_SENDING) OR TX_QUEUE_FREE) AND TX_MESSAGE_SENDING = 0"
    "((x AND NOT TX_QUEUE_FREE) OR TX_MESSAGE_SENDING) AND TX_QUEUE_FREE = 0"
    "((x AND NOT TX_QUEUE_FREE) OR TX_MESSAGE_SENDING) AND TX_MESSAGE_SENDING = TX_MESSAGE_SENDING"
    "(x OR TX_QUEUE_FREE) AND TX_QUEUE_FREE = TX_QUEUE_FREE"
    by (rule bit_word_eqI, drule bits, auto simp: TX_QUEUE_FREE_def TX_MESSAGE_SENDING_def bit_and_iff bit_or_iff bit_not_iff)+
qed

lemma lk_bits_nonzero [simp]: "TX_QUEUE_FREE \<noteq> 0" "TX_MESSAGE_SENDING \<noteq> 0"
  by (simp_all add: TX_QUEUE_FREE_def TX_MESSAGE_SENDING_def)

lemma upd_lk_same: "upd_lk (\<lambda>s. s\<lparr>lk_events := lk_events s\<rparr>) h = h"
  by simp

lemma lk_wait_seen: "lk_events (user_data h) AND bits \<noteq> 0 \<Longrightarrow> lk_wait_events env t bits False h = (lk_events (user_data h), h)"
  by (simp add: lk_wait_events_def tiny_events_wait_def)

lemma lk_wait_taken: "lk_events (user_data h) AND bits \<noteq> 0
  \<Longrightarrow> lk_wait_events env t bits True h = (lk_events (user_data h), upd_lk (\<lambda>s. s\<lparr>lk_events := lk_events s AND NOT bits\<rparr>) h)"
  by (simp add: lk_wait_events_def tiny_events_wait_def)

lemma lk_wait_none: "lk_events (user_data h) AND bits = 0 \<Longrightarrow> lk_wait_events env 0 bits c h = (0, h)"
  by (simp add: lk_wait_events_def tiny_events_wait_def)

subsection \<open>Running the link\<close>

text \<open>The handle between two calls, when the frame to be sent, if any, lies in \<open>n\<close> bytes from \<open>p\<close>.\<close>

definition link_ready :: "nat \<Rightarrow> nat \<Rightarrow> nat \<Rightarrow> ('a proto, 'd, 'e) hlink \<Rightarrow> bool" where
  "link_ready buf p n h \<longleftrightarrow> tx_wf h \<and> tx_inside p n h \<and> rx_apart p n h \<and> rx_wf h \<and> rx_state h \<noteq> Read_end
     \<and> on_frame_send h = Some hlink_on_send \<and> on_frame_read h = Some hlink_on_read
     \<and> lk_on_read (user_data h) = proto_on_read_cb buf \<and> lk_on_send (user_data h) = proto_on_send_cb"

lemma link_ready_user:
  "link_ready buf p n h \<Longrightarrow> lk_on_read u = lk_on_read (user_data h) \<Longrightarrow> lk_on_send u = lk_on_send (user_data h)
     \<Longrightarrow> link_ready buf p n (h\<lparr>user_data := u\<rparr>)"
  by (simp add: link_ready_def tx_inside_def rx_apart_def rx_wf_def)

lemma serial_run_rx_keeps:
  assumes "link_ready buf p n h"
  shows "\<exists>h' d. serial_run_rx rd h = Some h' \<and> link_ready buf p n h' \<and> tx_remaining h' = tx_remaining h
    \<and> link_same ((user_data h)\<lparr>lk_in := d\<rparr>) (user_data h')"
proof -
  obtain len data d where rd: "rd (lk_in (user_data h)) SERIAL_HDLC_BSIZE = (len, data, d)" by (metis prod_cases3)
  define h0 where "h0 = upd_lk (\<lambda>s. s\<lparr>lk_in := d\<rparr>) h"
  have h0: "link_ready buf p n h0" unfolding h0_def by (rule link_ready_user [OF assms]) simp_all
  then have "rx_wf h0" "rx_state h0 \<noteq> Read_end" by (simp_all add: link_ready_def)
  from rx_feed_reads [OF this] obtain es where re: "rx_reads h0 (take (nat len) data) es (rx_feed h0 (take (nat len) data))" by blast
  define h' where "h' = rx_feed h0 (take (nat len) data)"
  have r: "rx_wf h'" "rx_state h' \<noteq> Read_end" "rx_only h0 h'" "user_data h' = notify_frames (on_frame_read h0) (delivered es) (user_data h0)"
    using re by (simp_all add: rx_reads_def h'_def)
  have t: "tx_wf h0" "tx_inside p n h0" "rx_apart p n h0" "on_frame_read h0 = Some hlink_on_read" "lk_on_read (user_data h0) = proto_on_read_cb buf"
    using h0 by (simp_all add: link_ready_def)
  note k = rx_only_keeps_tx [OF r(3) t(1-3)] and f = rx_only_fields [OF r(3)]
  have same: "link_same (user_data h0) (user_data h')"
    using notify_frames_link_same [OF t(5)] r(4) t(4) by simp
  then have "lk_on_read (user_data h') = proto_on_read_cb buf" "lk_on_send (user_data h') = proto_on_send_cb"
    using h0 by (auto simp: link_same_def link_ready_def)
  then have "link_ready buf p n h'" using k r(1,2) f h0 by (simp add: link_ready_def)
  moreover have "serial_run_rx rd h = Some h'"
    using serial_parse_loop_feed [OF \<open>rx_wf h0\<close> \<open>rx_state h0 \<noteq> Read_end\<close>] rd by (simp add: serial_run_rx_def h0_def h'_def)
  moreover have "tx_remaining h' = tx_remaining h" using k(2) by (simp add: h0_def)
  moreover have "user_data h0 = (user_data h)\<lparr>lk_in := d\<rparr>" by (simp add: h0_def)
  ultimately show ?thesis using same by metis
qed

lemma serial_run_tx_sends:
  assumes "link_ready buf p n h" "tx_remaining h \<noteq> []" "lk_events (user_data h) AND TX_MESSAGE_SENDING \<noteq> 0"
    and "\<not> lk_flush_flag (user_data h)" "takes_blocks wr log"
  shows "\<exists>h' e u. serial_run_tx wr env h = Some h' \<and> link_ready buf p n h' \<and> tx_remaining h' = drop 32 (tx_remaining h)
    \<and> log (lk_out (user_data h')) = log (lk_out (user_data h)) @ take 32 (tx_remaining h)
    \<and> user_data h' = (user_data h)\<lparr>lk_events := e, lk_udata := u, lk_out := lk_out (user_data h')\<rparr> \<and> proto_same (lk_udata (user_data h)) u
    \<and> (if drop 32 (tx_remaining h) = [] then e AND TX_QUEUE_FREE \<noteq> 0 \<and> e AND TX_MESSAGE_SENDING = 0 else e = lk_events (user_data h))"
proof -
  obtain r h1 where run: "hdlc_ll_run_tx h 32 = (r, h1)" by fastforce
  have w: "tx_wf h" "tx_inside p n h" "on_frame_send h = Some hlink_on_send" "lk_on_send (user_data h) = proto_on_send_cb"
    using assms(1) by (simp_all add: link_ready_def)
  note sp = hdlc_ll_run_tx_spec [OF w(1) run] and keep = run_tx_keeps_rx [OF w(1,2) run]
  have u1: "\<exists>e u. user_data h1 = (user_data h)\<lparr>lk_events := e, lk_udata := u\<rparr> \<and> proto_same (lk_udata (user_data h)) u
    \<and> (if drop 32 (tx_remaining h) = [] then e AND TX_QUEUE_FREE \<noteq> 0 \<and> e AND TX_MESSAGE_SENDING = 0 else e = lk_events (user_data h))"
  proof (cases "drop 32 (tx_remaining h) = []")
    case True
    then have "user_data h1 = tx_notify h" using sp(3,8) assms(2) by simp
    then have "user_data h1 = hlink_on_send (user_data h) (tx_origin h) (tx_frame h)" using w(3) by (simp add: tx_notify_def)
    then show ?thesis using True w(4)
      by (intro exI [of _ "(lk_events (user_data h) AND NOT TX_MESSAGE_SENDING) OR TX_QUEUE_FREE"] exI [of _ "lk_udata (user_data h1)"])
        (simp add: hlink_on_send_def lk_set_events_def lk_clear_events_def event_ops lk_bits proto_on_send_cb_def proto_on_send_same)
  next
    case False
    then have "user_data h1 = user_data h" using sp(3,9) by simp
    then show ?thesis using False by (intro exI [of _ "lk_events (user_data h)"] exI [of _ "lk_udata (user_data h)"]) simp
  qed
  then obtain e u where u: "user_data h1 = (user_data h)\<lparr>lk_events := e, lk_udata := u\<rparr>" "proto_same (lk_udata (user_data h)) u"
    "if drop 32 (tx_remaining h) = [] then e AND TX_QUEUE_FREE \<noteq> 0 \<and> e AND TX_MESSAGE_SENDING = 0 else e = lk_events (user_data h)"
    by blast
  define o' where "o' = serial_write_loop wr (take 32 (tx_remaining h)) (lk_out (user_data h))"
  define h' where "h' = upd_lk (\<lambda>s. s\<lparr>lk_out := o'\<rparr>) h1"
  have bits: "lk_events (user_data h) \<noteq> 0" using assms(3) by auto
  have "hlink_get_data env 32 h = (r, h1)"
    using lk_wait_seen [OF assms(3)] assms(4) run bits by (simp add: hlink_get_data_def)
  moreover have "take (nat r) (tx_out h1) = take 32 (tx_remaining h)" using sp(1,2) by (simp add: min_def)
  ultimately have tx: "serial_run_tx wr env h = Some h'"
    using u(1) by (simp add: serial_run_tx_def SERIAL_HDLC_BSIZE_def h'_def o'_def)
  have "rx_wf h1" "rx_state h1 \<noteq> Read_end" "rx_apart p n h1" "on_frame_read h1 = Some hlink_on_read"
    using rx_same_wf(1) [OF keep(1)] keep(1) assms(1) by (simp_all add: link_ready_def rx_same_def rx_apart_def)
  then have "link_ready buf p n h1" using sp(4,7) keep(2) assms(1) u(1) by (simp add: link_ready_def)
  then have "link_ready buf p n h'" unfolding h'_def by (rule link_ready_user) simp_all
  moreover have "tx_remaining h' = drop 32 (tx_remaining h)" using sp(3) by (simp add: h'_def)
  moreover have "log (lk_out (user_data h')) = log (lk_out (user_data h)) @ take 32 (tx_remaining h)"
    using serial_write_loop_log [OF assms(5)] by (simp add: h'_def o'_def)
  moreover have "user_data h' = (user_data h)\<lparr>lk_events := e, lk_udata := u, lk_out := lk_out (user_data h')\<rparr>"
    by (simp add: h'_def u(1))
  ultimately show ?thesis using tx u(2,3) by blast
qed

subsection \<open>Sending a packet over the link\<close>

text \<open>The frame put from \<open>p\<close> is on its way: the bytes \<open>rest\<close> are still to be sent.\<close>

definition link_sending :: "nat \<Rightarrow> u8 list \<Rightarrow> ('a proto, 'd, 'e) hlink \<Rightarrow> bool" where
  "link_sending p rest h \<longleftrightarrow> tx_remaining h = rest \<and> lk_temp_buffer (user_data h) = p
     \<and> (if rest = [] then lk_events (user_data h) AND TX_QUEUE_FREE \<noteq> 0
        else lk_events (user_data h) AND TX_QUEUE_FREE = 0 \<and> lk_events (user_data h) AND TX_MESSAGE_SENDING \<noteq> 0)"

definition proto_in_time :: "u32 \<Rightarrow> u32 \<Rightarrow> 'a proto \<Rightarrow> bool" where
  "proto_in_time ts timeout s \<longleftrightarrow> (\<forall>k \<ge> pr_ticks s. pr_clock s k - ts < timeout)"

lemma proto_in_time_same: "proto_same s s' \<Longrightarrow> proto_in_time ts timeout s' = proto_in_time ts timeout s"
  by (simp add: proto_same_def proto_in_time_def)

text \<open>The owner after a reading of the clock.\<close>

abbreviation tick :: "'a proto \<Rightarrow> 'a proto" where "tick s \<equiv> s\<lparr>pr_ticks := pr_ticks s + 1\<rparr>"

lemma link_ops:
  "ll_run_rx (serial_hdlc_link abi buf wr rd env) = serial_run_rx rd" "ll_run_tx (serial_hdlc_link abi buf wr rd env) = serial_run_tx wr env"
  "ll_put (serial_hdlc_link abi buf wr rd env) = hlink_put env" "ll_flush_tx (serial_hdlc_link abi buf wr rd env) = hlink_flush_tx"
  "ll_proto (serial_hdlc_link abi buf wr rd env) = (\<lambda>h. lk_udata (user_data h))"
  "ll_upd_proto (serial_hdlc_link abi buf wr rd env) = (\<lambda>f. upd_lk (\<lambda>s. s\<lparr>lk_udata := f (lk_udata s)\<rparr>))"
  by (simp_all add: serial_hdlc_link_def)

text \<open>One turn of the loop of \<open>send\<close> in which the link does not accept the packet and the time is not over.\<close>

lemma send_loop_turn:
  assumes "hlink_put env p n 0 h = (False, h1)" "lk_udata (user_data h1) = lk_udata (user_data h)"
    and "\<not> pr_multithread (lk_udata (user_data h))" "proto_in_time ts timeout (lk_udata (user_data h))"
  shows "proto_send_loop (serial_hdlc_link abi buf wr rd env) ts p n timeout h
    = Option.bind (Option.bind (serial_run_tx wr env (upd_lk (\<lambda>s. s\<lparr>lk_udata := tick (lk_udata s)\<rparr>) h1)) (serial_run_rx rd))
        (proto_send_loop (serial_hdlc_link abi buf wr rd env) ts p n timeout)"
proof -
  have "\<not> timeout \<le> pr_clock (lk_udata (user_data h)) (pr_ticks (lk_udata (user_data h))) - ts"
    using assms(4) by (simp add: proto_in_time_def not_le)
  then show ?thesis using assms(1-3)
    by (subst proto_send_loop.simps) (simp add: link_ops proto_millis_def proto_run_link_def)
qed

lemma send_loop_accepted:
  assumes "lk_events (user_data h) AND TX_QUEUE_FREE \<noteq> 0" "lk_temp_buffer (user_data h) = p" "\<not> pr_multithread (lk_udata (user_data h))"
  shows "\<exists>h' e. proto_send_loop (serial_hdlc_link abi buf wr rd env) ts p n timeout h = Some (True, h')
    \<and> h' = upd_lk (\<lambda>s. s\<lparr>lk_temp_buffer := 0, lk_flush_flag := False, lk_events := e\<rparr>) h \<and> e AND TX_QUEUE_FREE \<noteq> 0"
proof -
  define e where "e = (lk_events (user_data h) AND NOT TX_QUEUE_FREE) OR TX_QUEUE_FREE"
  have "lk_events (user_data h) \<noteq> 0" using assms(1) by auto
  then have "hlink_put env p n 0 h = (True, upd_lk (\<lambda>s. s\<lparr>lk_temp_buffer := 0, lk_flush_flag := False, lk_events := e\<rparr>) h)"
    using lk_wait_taken [OF assms(1)] assms(2)
    by (simp add: hlink_put_def lk_set_events_def event_ops e_def)
  then have "proto_send_loop (serial_hdlc_link abi buf wr rd env) ts p n timeout h
      = Some (True, upd_lk (\<lambda>s. s\<lparr>lk_temp_buffer := 0, lk_flush_flag := False, lk_events := e\<rparr>) h)"
    using assms(3) by (subst proto_send_loop.simps) (simp add: link_ops)
  moreover have "e AND TX_QUEUE_FREE \<noteq> 0" by (simp add: e_def lk_bits)
  ultimately show ?thesis by blast
qed

lemma put_while_sending: "lk_events (user_data h) AND TX_QUEUE_FREE = 0 \<Longrightarrow> hlink_put env p n 0 h = (False, h)"
  by (simp add: hlink_put_def lk_wait_none)

lemma send_loop_finishes:
  assumes "link_ready buf p n h" "link_sending p rest h" "\<not> lk_flush_flag (user_data h)" "takes_blocks wr log"
    and "\<not> pr_multithread (lk_udata (user_data h))" "proto_in_time ts timeout (lk_udata (user_data h))"
  shows "\<exists>h'. proto_send_loop (serial_hdlc_link abi buf wr rd env) ts p len timeout h = Some (True, h')
    \<and> log (lk_out (user_data h')) = log (lk_out (user_data h)) @ rest \<and> tx_origin h' = 0
    \<and> lk_events (user_data h') AND TX_QUEUE_FREE \<noteq> 0 \<and> lk_temp_buffer (user_data h') = 0"
  using assms
proof (induction "length rest" arbitrary: rest h rule: less_induct)
  case less
  have s: "tx_remaining h = rest" "lk_temp_buffer (user_data h) = p" using less.prems(2) by (simp_all add: link_sending_def)
  show ?case
  proof (cases "rest = []")
    case True
    have free: "lk_events (user_data h) AND TX_QUEUE_FREE \<noteq> 0" using less.prems(2) True by (simp add: link_sending_def)
    have "tx_origin h = 0" using tx_origin_remaining [of h] less.prems(1) s(1) True by (simp add: link_ready_def)
    then show ?thesis using send_loop_accepted [OF free s(2) less.prems(5), of abi buf wr rd env ts len timeout] True by auto
  next
    case False
    then have ev: "lk_events (user_data h) AND TX_QUEUE_FREE = 0" "lk_events (user_data h) AND TX_MESSAGE_SENDING \<noteq> 0"
      using less.prems(2) by (simp_all add: link_sending_def)
    define h1 where "h1 = upd_lk (\<lambda>s. s\<lparr>lk_udata := tick (lk_udata s)\<rparr>) h"
    have r1: "link_ready buf p n h1" unfolding h1_def by (rule link_ready_user [OF less.prems(1)]) simp_all
    have t1: "tx_remaining h1 \<noteq> []" "lk_events (user_data h1) AND TX_MESSAGE_SENDING \<noteq> 0" "\<not> lk_flush_flag (user_data h1)"
      using s(1) False ev(2) less.prems(3) by (simp_all add: h1_def)
    from serial_run_tx_sends [OF r1 t1 less.prems(4), of env] s(1) obtain h2 e u where h2: "serial_run_tx wr env h1 = Some h2" "link_ready buf p n h2"
      "tx_remaining h2 = drop 32 rest" "log (lk_out (user_data h2)) = log (lk_out (user_data h)) @ take 32 rest"
      "user_data h2 = (user_data h1)\<lparr>lk_events := e, lk_udata := u, lk_out := lk_out (user_data h2)\<rparr>" "proto_same (lk_udata (user_data h1)) u"
      "if drop 32 rest = [] then e AND TX_QUEUE_FREE \<noteq> 0 \<and> e AND TX_MESSAGE_SENDING = 0 else e = lk_events (user_data h1)"
      by (auto simp: h1_def)
    obtain h3 d where h3: "serial_run_rx rd h2 = Some h3" "link_ready buf p n h3" "tx_remaining h3 = drop 32 rest"
      "link_same ((user_data h2)\<lparr>lk_in := d\<rparr>) (user_data h3)"
      using serial_run_rx_keeps [OF h2(2), of rd] h2(3) by auto
    obtain u3 where u3: "user_data h3 = (user_data h2)\<lparr>lk_in := d, lk_udata := u3\<rparr>" "proto_same (lk_udata (user_data h2)) u3"
      using h3(4) by (auto simp: link_same_def)
    have f2: "lk_udata (user_data h2) = u" "lk_events (user_data h2) = e" "lk_temp_buffer (user_data h2) = p" "\<not> lk_flush_flag (user_data h2)"
      by (subst h2(5), use s(2) less.prems(3) in \<open>simp add: h1_def\<close>)+
    have owner: "proto_same (lk_udata (user_data h1)) u3" using proto_same_trans [OF h2(6)] u3(2) f2(1) by simp
    have "link_sending p (drop 32 rest) h3"
      using h3(3) h2(7) ev f2 by (auto simp: link_sending_def u3(1) h1_def split: if_splits)
    moreover have "\<not> pr_multithread (lk_udata (user_data h3))" using owner less.prems(5) by (simp add: u3(1) proto_same_def h1_def)
    moreover have "proto_in_time ts timeout (lk_udata (user_data h3))"
      using proto_in_time_same [OF owner, of ts timeout] less.prems(6) by (simp add: u3(1) h1_def proto_in_time_def)
    moreover have "\<not> lk_flush_flag (user_data h3)" "length (drop 32 rest) < length rest" using f2(4) False by (simp_all add: u3(1))
    ultimately obtain h' where h': "proto_send_loop (serial_hdlc_link abi buf wr rd env) ts p len timeout h3 = Some (True, h')"
      "log (lk_out (user_data h')) = log (lk_out (user_data h3)) @ drop 32 rest" "tx_origin h' = 0"
      "lk_events (user_data h') AND TX_QUEUE_FREE \<noteq> 0" "lk_temp_buffer (user_data h') = 0"
      using less.hyps [of "drop 32 rest" h3] h3(2) less.prems(4) by blast
    have "proto_send_loop (serial_hdlc_link abi buf wr rd env) ts p len timeout h = Some (True, h')"
      using send_loop_turn [OF put_while_sending [OF ev(1)] refl less.prems(5,6), of abi buf wr rd] h2(1) h3(1) h'(1) by (simp add: h1_def)
    moreover have "log (lk_out (user_data h')) = log (lk_out (user_data h)) @ rest"
      using h'(2) h2(4) by (simp add: u3(1))
    ultimately show ?thesis using h'(3-5) by blast
  qed
qed

text \<open>The link takes a packet: the frame is put, but the answer is \<open>False\<close> until it has been sent.\<close>

lemma put_idle:
  assumes "link_ready buf p n h" "tx_origin h = 0" "p \<noteq> 0" "0 < n" "lk_temp_buffer (user_data h) \<noteq> p"
    and "lk_events (user_data h) AND TX_QUEUE_FREE \<noteq> 0"
  obtains h1 where "hlink_put env p (int n) t h = (False, h1)" "link_ready buf p n h1"
    "link_sending p (hdlc_encode (crc_type h) (bytes_at (mem h) p n)) h1" "\<not> lk_flush_flag (user_data h1)"
    "lk_udata (user_data h1) = lk_udata (user_data h)" "lk_out (user_data h1) = lk_out (user_data h)"
proof -
  define h0 where "h0 = upd_lk (\<lambda>s. s\<lparr>lk_events := lk_events s AND NOT TX_QUEUE_FREE, lk_flush_flag := False\<rparr>) h"
  have r0: "link_ready buf p n h0" unfolding h0_def by (rule link_ready_user [OF assms(1)]) simp_all
  obtain r h2 where put: "hdlc_ll_put_frame h0 p n = (r, h2)" by fastforce
  have st: "tx_state h0 = Send_start" "tx_origin h0 = 0" "crc_type h0 \<noteq> HDLC_CRC_OFF"
    using r0 assms(2) by (auto simp: h0_def link_ready_def tx_wf_def split: tx_fn.splits)
  note ready = put_frame_ready [OF st assms(3,4) put]
  have h2: "h2 = h0\<lparr>tx_origin := p, tx_data := p, tx_len := n\<rparr>" using put st assms(3,4) by (simp add: hdlc_ll_put_frame_def)
  define h1 where "h1 = upd_lk (\<lambda>s. lk_set_events TX_MESSAGE_SENDING (s\<lparr>lk_temp_buffer := p\<rparr>)) h2"
  have "lk_events (user_data h) \<noteq> 0" using assms(6) by auto
  then have "hlink_put env p (int n) t h = (False, h1)"
    using lk_wait_taken [OF assms(6)] assms(5) put ready(1) by (simp add: hlink_put_def h0_def h1_def)
  moreover have "link_ready buf p n h2"
    using r0 ready(2) by (simp add: h2 link_ready_def tx_inside_def rx_apart_def rx_wf_def)
  then have "link_ready buf p n h1" unfolding h1_def by (rule link_ready_user) (simp_all add: lk_set_events_def)
  moreover have "link_sending p (hdlc_encode (crc_type h) (bytes_at (mem h) p n)) h1"
    using ready(3,5) by (simp add: link_sending_def h1_def h0_def hdlc_encode_def lk_set_events_def event_ops lk_bits)
  ultimately show ?thesis using that [of h1] ready(3) by (simp add: h1_def h0_def lk_set_events_def)
qed

text \<open>
  \<open>Proto::send\<close> over a serial HDLC link, without threads of its own: when the link is idle and the line takes at least one
  byte of every block, and whatever is received in the meantime, the call returns \<open>True\<close>, the line has taken exactly the
  encoded frame of the packet, in order and once, and the link is idle again. (The call gives the packet to the link, runs the link
  until the frame is out, and puts the packet a second time to learn that.) The packet is not empty, lies outside the receive buffer, and the
  timeout does not pass before that.
\<close>

theorem proto_send_over_hdlc:
  assumes "link_ready buf (m_buf pkt) n h" "tx_origin h = 0" "m_buf pkt \<noteq> 0" "0 < n" "m_len pkt = int n"
    and "lk_temp_buffer (user_data h) \<noteq> m_buf pkt" "lk_events (user_data h) AND TX_QUEUE_FREE \<noteq> 0" "takes_blocks wr log"
    and "\<not> pr_multithread (lk_udata (user_data h))"
    and "proto_in_time (pr_clock (lk_udata (user_data h)) (pr_ticks (lk_udata (user_data h)))) timeout (lk_udata (user_data h))"
  shows "\<exists>h'. proto_send (serial_hdlc_link abi buf wr rd env) pkt timeout h = Some (True, h')
    \<and> log (lk_out (user_data h')) = log (lk_out (user_data h)) @ hdlc_encode (crc_type h) (bytes_at (mem h) (m_buf pkt) n)
    \<and> tx_origin h' = 0 \<and> lk_events (user_data h') AND TX_QUEUE_FREE \<noteq> 0 \<and> lk_temp_buffer (user_data h') = 0"
proof -
  let ?L = "serial_hdlc_link abi buf wr rd env" and ?ts = "pr_clock (lk_udata (user_data h)) (pr_ticks (lk_udata (user_data h)))"
  define h0 where "h0 = upd_lk (\<lambda>s. s\<lparr>lk_udata := tick (lk_udata s)\<rparr>) h"
  have r0: "link_ready buf (m_buf pkt) n h0" unfolding h0_def by (rule link_ready_user [OF assms(1)]) simp_all
  have i0: "tx_origin h0 = 0" "lk_temp_buffer (user_data h0) \<noteq> m_buf pkt" "lk_events (user_data h0) AND TX_QUEUE_FREE \<noteq> 0"
    using assms(2,6,7) by (simp_all add: h0_def)
  obtain h1 where h1: "hlink_put env (m_buf pkt) (int n) 0 h0 = (False, h1)" "link_ready buf (m_buf pkt) n h1"
    "link_sending (m_buf pkt) (hdlc_encode (crc_type h0) (bytes_at (mem h0) (m_buf pkt) n)) h1" "\<not> lk_flush_flag (user_data h1)"
    "lk_udata (user_data h1) = lk_udata (user_data h0)" "lk_out (user_data h1) = lk_out (user_data h0)"
    using put_idle [OF r0 i0(1) assms(3,4) i0(2,3)] by metis
  have own: "\<not> pr_multithread (lk_udata (user_data h0))" "proto_in_time ?ts timeout (lk_udata (user_data h0))"
    using assms(9,10) by (simp_all add: h0_def proto_in_time_def)
  have again: "hlink_put env (m_buf pkt) (int n) 0 h1 = (False, h1)"
    using h1(3) by (intro put_while_sending) (simp add: link_sending_def hdlc_encode_def)
  have "proto_send ?L pkt timeout h = proto_send_loop ?L ?ts (m_buf pkt) (int n) timeout h0"
    by (simp add: proto_send_def proto_millis_def link_ops assms(5) h0_def)
  also have "\<dots> = proto_send_loop ?L ?ts (m_buf pkt) (int n) timeout h1"
    using send_loop_turn [OF h1(1,5) own] send_loop_turn [OF again refl] own h1(5) by simp
  finally show ?thesis
    using send_loop_finishes [OF h1(2,3,4) assms(8), of ?ts timeout abi rd env "int n"] own h1(5,6) by (simp add: h0_def)
qed

text \<open>What \<open>flushTx\<close> leads to: the frame is dropped, and the queue is free again.\<close>

lemma serial_run_tx_flushes:
  assumes "link_ready buf p n h" "lk_events (user_data h) AND TX_MESSAGE_SENDING \<noteq> 0" "lk_flush_flag (user_data h)"
  shows "\<exists>h' e. serial_run_tx wr env h = Some h' \<and> link_ready buf p n h' \<and> tx_origin h' = 0
    \<and> user_data h' = (user_data h)\<lparr>lk_events := e, lk_flush_flag := False\<rparr> \<and> e AND TX_QUEUE_FREE \<noteq> 0"
proof -
  define e where "e = (lk_events (user_data h) AND NOT TX_MESSAGE_SENDING) OR TX_QUEUE_FREE"
  define h' where "h' = (hdlc_ll_reset h HDLC_LL_RESET_TX_ONLY)\<lparr>user_data := (user_data h)\<lparr>lk_events := e, lk_flush_flag := False\<rparr>\<rparr>"
  have "lk_events (user_data h) \<noteq> 0" using assms(2) by auto
  then have "serial_run_tx wr env h = Some h'"
    using lk_wait_seen [OF assms(2)] assms(3)
    by (simp add: serial_run_tx_def hlink_get_data_def serial_write_loop.simps hdlc_ll_reset_def h'_def e_def ll_flags lk_set_events_def lk_clear_events_def event_ops)
  moreover have "link_ready buf p n h'" "tx_origin h' = 0"
    using assms(1) by (auto simp: h'_def hdlc_ll_reset_def ll_flags link_ready_def tx_wf_def
        tx_inside_def rx_apart_def rx_wf_def split: tx_fn.splits)
  moreover have "e AND TX_QUEUE_FREE \<noteq> 0" by (simp add: e_def lk_bits)
  ultimately show ?thesis by (auto simp: h'_def)
qed

text \<open>A packet without time to be sent: the link has taken its frame, and is asked to drop it.\<close>

lemma send_without_time:
  assumes "link_ready buf (m_buf pkt) n h" "tx_origin h = 0" "m_buf pkt \<noteq> 0" "0 < n" "m_len pkt = int n"
    and "lk_temp_buffer (user_data h) \<noteq> m_buf pkt" "lk_events (user_data h) AND TX_QUEUE_FREE \<noteq> 0" "\<not> pr_multithread (lk_udata (user_data h))"
  obtains h2 where "proto_send (serial_hdlc_link abi buf wr rd env) pkt 0 h = Some (False, h2)" "link_ready buf (m_buf pkt) n h2"
    "lk_events (user_data h2) AND TX_QUEUE_FREE = 0" "lk_events (user_data h2) AND TX_MESSAGE_SENDING \<noteq> 0"
    "lk_temp_buffer (user_data h2) = m_buf pkt" "lk_flush_flag (user_data h2)" "lk_out (user_data h2) = lk_out (user_data h)"
    "lk_udata (user_data h2) = tick (tick (lk_udata (user_data h)))"
proof -
  let ?L = "serial_hdlc_link abi buf wr rd env" and ?p = "m_buf pkt"
  define h0 where "h0 = upd_lk (\<lambda>s. s\<lparr>lk_udata := tick (lk_udata s)\<rparr>) h"
  have r0: "link_ready buf ?p n h0" unfolding h0_def by (rule link_ready_user [OF assms(1)]) simp_all
  have i0: "tx_origin h0 = 0" "lk_temp_buffer (user_data h0) \<noteq> ?p" "lk_events (user_data h0) AND TX_QUEUE_FREE \<noteq> 0"
    using assms(2,6,7) by (simp_all add: h0_def)
  obtain h1 where h1: "hlink_put env ?p (int n) 0 h0 = (False, h1)" "link_ready buf ?p n h1"
    "link_sending ?p (hdlc_encode (crc_type h0) (bytes_at (mem h0) ?p n)) h1"
    "lk_udata (user_data h1) = lk_udata (user_data h0)" "lk_out (user_data h1) = lk_out (user_data h0)"
    using put_idle [OF r0 i0(1) assms(3,4) i0(2,3)] by metis
  define h2 where "h2 = upd_lk (\<lambda>s. s\<lparr>lk_udata := tick (lk_udata s), lk_flush_flag := True\<rparr>) h1"
  have "\<not> pr_multithread (lk_udata (user_data h0))" using assms(8) by (simp add: h0_def)
  then have "proto_send_loop ?L ts ?p (int n) 0 h0 = Some (False, h2)" for ts
    using h1(1) by (subst proto_send_loop.simps) (simp add: link_ops proto_millis_def hlink_flush_tx_def h2_def)
  then have "proto_send ?L pkt 0 h = Some (False, h2)" by (simp add: proto_send_def proto_millis_def link_ops assms(5) h0_def)
  moreover have "link_ready buf ?p n h2" unfolding h2_def by (rule link_ready_user [OF h1(2)]) simp_all
  moreover have "lk_events (user_data h1) AND TX_QUEUE_FREE = 0" "lk_events (user_data h1) AND TX_MESSAGE_SENDING \<noteq> 0"
    "lk_temp_buffer (user_data h1) = ?p"
    using h1(3) by (simp_all add: link_sending_def hdlc_encode_def)
  ultimately show ?thesis using that [of h2] h1(4,5) by (simp add: h2_def h0_def)
qed

text \<open>The next run of the link drops the frame; the address of the packet stays.\<close>

lemma run_drops_frame:
  assumes "link_ready buf p n h" "lk_events (user_data h) AND TX_MESSAGE_SENDING \<noteq> 0" "lk_flush_flag (user_data h)"
  obtains h' where "Option.bind (serial_run_tx wr env h) (serial_run_rx rd) = Some h'" "tx_origin h' = 0"
    "lk_events (user_data h') AND TX_QUEUE_FREE \<noteq> 0" "lk_temp_buffer (user_data h') = lk_temp_buffer (user_data h)"
    "lk_out (user_data h') = lk_out (user_data h)" "proto_same (lk_udata (user_data h)) (lk_udata (user_data h'))"
proof -
  obtain h5 e where h5: "serial_run_tx wr env h = Some h5" "link_ready buf p n h5" "tx_origin h5 = 0"
    "user_data h5 = (user_data h)\<lparr>lk_events := e, lk_flush_flag := False\<rparr>" "e AND TX_QUEUE_FREE \<noteq> 0"
    using serial_run_tx_flushes [OF assms, of wr env] by auto
  obtain h6 d where h6: "serial_run_rx rd h5 = Some h6" "link_ready buf p n h6" "tx_remaining h6 = tx_remaining h5"
    "link_same ((user_data h5)\<lparr>lk_in := d\<rparr>) (user_data h6)"
    using serial_run_rx_keeps [OF h5(2), of rd] by auto
  obtain u6 where u6: "user_data h6 = (user_data h5)\<lparr>lk_in := d, lk_udata := u6\<rparr>" "proto_same (lk_udata (user_data h5)) u6"
    using h6(4) by (auto simp: link_same_def)
  have "tx_origin h6 = 0" using tx_origin_remaining [of h5] tx_origin_remaining [of h6] h5(2,3) h6(2,3) by (simp add: link_ready_def)
  then show ?thesis using that [of h6] h5(1,5) h6(1) u6 by (simp add: h5(4))
qed

text \<open>
  C28: A packet that was not sent in time is lost when it is sent again. \<open>Proto::send\<close> with timeout 0 returns \<open>False\<close> and asks the link
  to drop the frame. The link does so the next time it runs, but it still remembers the address of the packet as the one that has been put: the
  next \<open>send\<close> of a packet in that buffer, whatever is in it now, returns \<open>True\<close>, and the line has not got a byte of either.
\<close>

theorem proto_send_again_lost:
  assumes "link_ready buf (m_buf pkt) n h" "tx_origin h = 0" "m_buf pkt \<noteq> 0" "0 < n" "m_len pkt = int n"
    and "lk_temp_buffer (user_data h) \<noteq> m_buf pkt" "lk_events (user_data h) AND TX_QUEUE_FREE \<noteq> 0"
    and "\<not> pr_multithread (lk_udata (user_data h))"
    and "\<forall>j k. j \<le> k \<longrightarrow> pr_clock (lk_udata (user_data h)) k - pr_clock (lk_udata (user_data h)) j < timeout" "m_buf pkt2 = m_buf pkt"
  shows "\<exists>h1 h2. proto_send (serial_hdlc_link abi buf wr rd env) pkt 0 h = Some (False, h1)
    \<and> proto_send (serial_hdlc_link abi buf wr rd env) pkt2 timeout h1 = Some (True, h2)
    \<and> lk_out (user_data h2) = lk_out (user_data h) \<and> tx_origin h2 = 0"
proof -
  let ?L = "serial_hdlc_link abi buf wr rd env" and ?p = "m_buf pkt"
  obtain h2 where h2: "proto_send ?L pkt 0 h = Some (False, h2)" "link_ready buf ?p n h2"
    "lk_events (user_data h2) AND TX_QUEUE_FREE = 0" "lk_events (user_data h2) AND TX_MESSAGE_SENDING \<noteq> 0"
    "lk_temp_buffer (user_data h2) = ?p" "lk_flush_flag (user_data h2)" "lk_out (user_data h2) = lk_out (user_data h)"
    "lk_udata (user_data h2) = tick (tick (lk_udata (user_data h)))"
    using send_without_time [OF assms(1-8)] by metis
  define h3 where "h3 = upd_lk (\<lambda>s. s\<lparr>lk_udata := tick (lk_udata s)\<rparr>) h2"
  define h4 where "h4 = upd_lk (\<lambda>s. s\<lparr>lk_udata := tick (lk_udata s)\<rparr>) h3"
  have "link_ready buf ?p n h4" unfolding h4_def h3_def by (intro link_ready_user) (use h2(2) in simp_all)
  moreover have f4: "lk_events (user_data h4) AND TX_MESSAGE_SENDING \<noteq> 0" "lk_flush_flag (user_data h4)"
    "lk_temp_buffer (user_data h4) = ?p" "lk_out (user_data h4) = lk_out (user_data h)" "\<not> pr_multithread (lk_udata (user_data h4))"
    using h2(4-8) assms(8) by (simp_all add: h4_def h3_def)
  ultimately obtain h6 where h6: "Option.bind (serial_run_tx wr env h4) (serial_run_rx rd) = Some h6" "tx_origin h6 = 0"
    "lk_events (user_data h6) AND TX_QUEUE_FREE \<noteq> 0" "lk_temp_buffer (user_data h6) = ?p" "lk_out (user_data h6) = lk_out (user_data h)"
    "proto_same (lk_udata (user_data h4)) (lk_udata (user_data h6))"
    using run_drops_frame [of buf ?p n h4 wr env rd] by metis
  have own: "\<not> pr_multithread (lk_udata (user_data h6))" using h6(6) f4(5) by (simp add: proto_same_def)
  let ?ts = "pr_clock (lk_udata (user_data h2)) (pr_ticks (lk_udata (user_data h2)))"
  obtain h7 e7 where h7: "proto_send_loop ?L ?ts ?p (m_len pkt2) timeout h6 = Some (True, h7)"
    "h7 = upd_lk (\<lambda>s. s\<lparr>lk_temp_buffer := 0, lk_flush_flag := False, lk_events := e7\<rparr>) h6"
    using send_loop_accepted [OF h6(3,4) own] by blast
  have put3: "hlink_put env ?p (m_len pkt2) 0 h3 = (False, h3)" using h2(3) by (intro put_while_sending) (simp add: h3_def)
  have own3: "\<not> pr_multithread (lk_udata (user_data h3))" "proto_in_time ?ts timeout (lk_udata (user_data h3))"
    using assms(8,9) by (simp_all add: h3_def h2(8) proto_in_time_def)
  have "proto_send ?L pkt2 timeout h2 = proto_send_loop ?L ?ts ?p (m_len pkt2) timeout h3"
    by (simp add: proto_send_def proto_millis_def link_ops assms(10) h3_def)
  also have "\<dots> = Some (True, h7)"
    using send_loop_turn [OF put3 refl own3, of abi buf wr rd, folded h4_def] h6(1) h7(1) by simp
  finally show ?thesis using h2(1) h7(2) h6(2,5) by auto
qed

text \<open>
  Without threads of its own \<open>begin\<close> leaves \<open>m_terminate\<close> set, as the constructor has set it: \<open>end\<close> takes that for an object that
  has ended, and never closes the link.
\<close>

lemma hdlc_ll_init_user: "hdlc_ll_init abi init h0 = Inr h \<Longrightarrow> user_data h = init_user_data init"
  by (auto simp: hdlc_ll_init_def hdlc_ll_reset_def Let_def split: if_splits)

lemma hlink_begin_owner: "hlink_begin abi f g u h = (ok, h') \<Longrightarrow> lk_udata (user_data h') = u"
  by (auto simp: hlink_begin_def Let_def lk_set_events_def lk_clear_events_def dest!: hdlc_ll_init_user split: sum.splits)

lemma proto_end_without_threads:
  fixes abi buf wr rd env
  assumes "\<not> pr_multithread (lk_udata (user_data h))" "pr_terminate (lk_udata (user_data h))"
  defines "L \<equiv> serial_hdlc_link abi buf wr rd env"
  shows "proto_end L (snd (proto_begin L h)) = snd (proto_begin L h)"
proof -
  define h0 where "h0 = upd_lk (\<lambda>s. s\<lparr>lk_timeout := 0\<rparr>) h"
  obtain ok h1 where b: "hlink_begin abi (proto_on_read_cb buf) proto_on_send_cb (lk_udata (user_data h0)) h0 = (ok, h1)" by fastforce
  have o: "lk_udata (user_data h1) = lk_udata (user_data h)" using hlink_begin_owner [OF b] by (simp add: h0_def)
  have "pr_terminate (lk_udata (user_data (snd (proto_begin L h))))"
    using b o assms(1,2) by (simp add: proto_begin_def L_def serial_hdlc_link_def h0_def Let_def)
  then show ?thesis by (simp add: proto_end_def L_def link_ops)
qed

subsection \<open>A concrete link\<close>

definition demo_link :: "(unit proto, u8 list, unit) hlink" where
  "demo_link = \<lparr>mem = of_nat, on_frame_read = Some hlink_on_read, on_frame_send = Some hlink_on_send,
     rx_buf = 500, rx_buf_size = 16, crc_type = HDLC_CRC_8,
     user_data = \<lparr>lk_on_read = proto_on_read_cb 500, lk_on_send = proto_on_send_cb,
       lk_udata = proto_new False (\<lambda>_. packet_empty) (\<lambda>_. 0) () (\<lambda>_. 7), lk_events = TX_QUEUE_FREE, lk_temp_buffer = 0,
       lk_buffer = 400, lk_buffer_size = 116, lk_crc = HDLC_CRC_8, lk_flush_flag = False, lk_mtu = 0, lk_timeout = 0,
       lk_out = [], lk_in = ()\<rparr>,
     phys_mtu = 16, rx_state = Read_start, rx_ptr = 500, rx_escape = False, rx_active = 500, tx_state = Send_start, tx_out = [],
     tx_out_len = 0, tx_origin = 0, tx_data = 0, tx_len = 0, tx_crc = 0, tx_escape = False\<rparr>"

definition demo_packet :: ipacket where
  "demo_packet = (packet_new 16 8)\<lparr>m_len := 3\<rparr>"

lemma demo_link: "link_ready 500 (m_buf demo_packet) 3 demo_link" "tx_origin demo_link = 0" "m_buf demo_packet \<noteq> 0" "m_len demo_packet = int 3"
  "lk_temp_buffer (user_data demo_link) \<noteq> m_buf demo_packet" "lk_events (user_data demo_link) AND TX_QUEUE_FREE \<noteq> 0"
  "\<not> pr_multithread (lk_udata (user_data demo_link))" "lk_out (user_data demo_link) = []" "crc_type demo_link = HDLC_CRC_8"
  "mem demo_link = of_nat" "m_buf demo_packet = 16" "pr_clock (lk_udata (user_data demo_link)) k = 7"
  by (simp_all add: demo_link_def demo_packet_def packet_new_def link_ready_def tx_wf_def tx_inside_def rx_apart_def rx_wf_def proto_new_def)

lemma line_takes_blocks: "takes_blocks line_write (\<lambda>d. d)"
  by (auto simp: takes_blocks_def line_write_def)

lemma demo_packet_bytes: "bytes_at (of_nat :: nat \<Rightarrow> u8) 16 3 = [0x10, 0x11, 0x12]"
  by (simp add: bytes_at_def upt_rec numeral_eq_Suc)

theorem proto_send_over_hdlc_witness:
  "\<exists>h'. proto_send (serial_hdlc_link demo_abi 500 line_write (\<lambda>d n. (0, [], d)) id) demo_packet 100 demo_link = Some (True, h')
     \<and> lk_out (user_data h') = hdlc_encode HDLC_CRC_8 [0x10, 0x11, 0x12]"
proof -
  have t: "proto_in_time (pr_clock (lk_udata (user_data demo_link)) (pr_ticks (lk_udata (user_data demo_link)))) 100 (lk_udata (user_data demo_link))"
    by (simp add: proto_in_time_def demo_link(12))
  have "(0 :: nat) < 3" by simp
  from proto_send_over_hdlc [OF demo_link(1-3) this demo_link(4-6) line_takes_blocks demo_link(7) t, of demo_abi "\<lambda>d n. (0, [], d)" id]
  show ?thesis by (auto simp: demo_link(8-11) demo_packet_bytes)
qed

theorem proto_send_again_lost_witness:
  "\<exists>h1 h2. proto_send (serial_hdlc_link demo_abi 500 line_write (\<lambda>d n. (0, [], d)) id) demo_packet 0 demo_link = Some (False, h1)
     \<and> proto_send (serial_hdlc_link demo_abi 500 line_write (\<lambda>d n. (0, [], d)) id) demo_packet 100 h1 = Some (True, h2)
     \<and> lk_out (user_data h2) = [] \<and> tx_origin h2 = 0"
proof -
  have t: "\<forall>j k. j \<le> k \<longrightarrow> pr_clock (lk_udata (user_data demo_link)) k - pr_clock (lk_udata (user_data demo_link)) j < 100"
    by (simp add: demo_link(12))
  have "(0 :: nat) < 3" by simp
  from proto_send_again_lost [OF demo_link(1-3) this demo_link(4-7) t refl, of demo_abi line_write "\<lambda>d n. (0, [], d)" id]
  show ?thesis by (simp add: demo_link(8))
qed

end
