(* ===== verification/ProtoOverHdlc.thy ===== *)
theory ProtoOverHdlc
  imports HdlcLink
begin

section \<open>Packets from one station to another\<close>

text \<open>
  What \<open>Proto::read\<close> relies on in a link is the locale \<open>proto_link\<close>: how running the link changes what the object sees. The
  serial HDLC link meets it. With \<open>Proto::send\<close> on the other side this gives the transfer of a packet.
\<close>

subsection \<open>What the received frames do to the object\<close>

lemma rx_refines_bookkeeping [simp]:
  "rx_refines P buf sz a (s\<lparr>pr_events := e\<rparr>) = rx_refines P buf sz a s"
  "rx_refines P buf sz a (s\<lparr>pr_ticks := k\<rparr>) = rx_refines P buf sz a s"
  by (cases a; simp add: rx_refines_def rx_lists_def holds_def)+

definition spec_frames :: "(nat \<Rightarrow> nat) \<Rightarrow> u8 list list \<Rightarrow> rx_spec \<Rightarrow> rx_spec" where
  "spec_frames sz fs a = fold (\<lambda>data a. snd (rx_spec_step sz (Frame 0 data) a)) fs a"

lemma spec_frames_simps [simp]:
  "spec_frames sz [] a = a"
  "spec_frames sz (data # fs) a = spec_frames sz fs (snd (rx_spec_step sz (Frame adr data) a))"
proof -
  have "rx_spec_step sz (Frame 0 data) a = rx_spec_step sz (Frame adr data) a" by (cases "(sz, Frame adr data, a)" rule: rx_spec_step.cases) simp_all
  then show "spec_frames sz (data # fs) a = spec_frames sz fs (snd (rx_spec_step sz (Frame adr data) a))" by (simp add: spec_frames_def)
qed (simp add: spec_frames_def)

lemma rx_refines_frames:
  assumes "packets_apart P buf sz"
  shows "rx_refines P buf sz a s \<Longrightarrow> rx_refines P buf sz (spec_frames sz fs a) (fold (proto_on_read adr) fs s)"
proof (induction fs arbitrary: a s)
  case (Cons data fs)
  obtain ws f lost where a: "a = (ws, f, lost)" by (metis prod_cases3)
  have "rx_refines P buf sz (snd (rx_spec_step sz (Frame adr data) a)) (proto_on_read adr data s)"
    using rx_refines_frame [OF assms] Cons.prems unfolding a by blast
  then show ?case using Cons.IH by (simp add: spec_frames_simps(2) [of sz data fs a adr])
qed simp

lemma spec_frames_first: "\<exists>ws f' l. spec_frames sz fs (w # ws0, f, lost) = (w # ws, f', l)"
proof (induction fs arbitrary: ws0 f lost)
  case (Cons data fs)
  then show ?case by (cases f) (simp_all add: spec_frames_simps(2) [of sz data fs _ 0])
qed simp

lemma fold_on_read_same: "proto_same s (fold (proto_on_read adr) fs s)"
proof (induction fs arbitrary: s)
  case (Cons data fs)
  then show ?case using proto_same_trans [OF proto_on_read_same] by fastforce
qed simp

subsection \<open>The contract of a link\<close>

text \<open>
  One run of the link, \<open>turn\<close>, yields the frames that it receives; how it goes on depends on \<open>view\<close>, what the link sees of the
  line. Here a message arrives after some runs that receive none.
\<close>

inductive arrives :: "('v \<Rightarrow> u8 list list \<times> 'v) \<Rightarrow> 'v \<Rightarrow> u8 list \<Rightarrow> bool" for turn :: "'v \<Rightarrow> u8 list list \<times> 'v" where
  arrives_now: "turn v = (data # fs, v') \<Longrightarrow> arrives turn v data"
| arrives_later: "turn v = ([], v') \<Longrightarrow> arrives turn v' data \<Longrightarrow> arrives turn v data"

locale proto_link =
  fixes L :: "('a, 'w) link_layer" and ready :: "'w \<Rightarrow> bool" and view :: "'w \<Rightarrow> 'v"
    and turn :: "'v \<Rightarrow> u8 list list \<times> 'v" and adr :: nat
  assumes proto_upd: "ll_proto L (ll_upd_proto L f w) = f (ll_proto L w)"
    and ready_upd: "ready w \<Longrightarrow> ready (ll_upd_proto L f w)"
    and view_upd: "view (ll_upd_proto L f w) = view w"
    and runs: "ready w \<Longrightarrow> turn (view w) = (fs, v) \<Longrightarrow> \<exists>w1 w2. ll_run_tx L w = Some w1 \<and> ll_run_rx L w1 = Some w2
      \<and> ready w2 \<and> view w2 = v \<and> ll_proto L w2 = fold (proto_on_read adr) fs (ll_proto L w)"
begin

lemma waits:
  "proto_wait_events L env 0 w = ll_upd_proto L (\<lambda>s. s\<lparr>pr_events := snd (tiny_events_wait (pr_events s) PROTO_RX_MESSAGE True)\<rparr>) w"
  "ll_proto L (proto_wait_events L env 0 w)
     = (ll_proto L w)\<lparr>pr_events := snd (tiny_events_wait (pr_events (ll_proto L w)) PROTO_RX_MESSAGE True)\<rparr>"
  by (simp_all add: proto_wait_events_def proto_upd)

text \<open>A message that waits is read at once.\<close>

lemma read_found:
  assumes "\<not> pr_multithread (ll_proto L w)" "rx_refines P buf sz (m # ws, f, lost) (ll_proto L w)"
  shows "\<exists>w'. proto_read_loop L env ts timeout w = Some (fst m, w') \<and> rx_refines P buf sz (ws, f, lost) (ll_proto L w')
    \<and> bytes_at (pr_memory (ll_proto L w')) (m_buf (pr_packets (ll_proto L w') (fst m))) (nat (m_len (pr_packets (ll_proto L w') (fst m)))) = snd m"
proof -
  obtain e where w0: "ll_proto L (proto_wait_events L env 0 w) = (ll_proto L w)\<lparr>pr_events := e\<rparr>" using waits(2) by blast
  define s where "s = (ll_proto L w)\<lparr>pr_events := e\<rparr>"
  have s: "rx_refines P buf sz (m # ws, f, lost) s" using assms(2) by (simp add: s_def)
  obtain p s' where q: "proto_read_queue s = (p, s')" by fastforce
  from rx_refines_read [OF s] q have p: "p = fst m" "p \<noteq> 0" "rx_refines P buf sz (ws, f, lost) s'"
    "bytes_at (pr_memory s') (m_buf (pr_packets s' p)) (nat (m_len (pr_packets s' p))) = snd m"
    by (auto split: if_splits)
  define w' where "w' = ll_upd_proto L (\<lambda>_. s') (proto_wait_events L env 0 w)"
  have "proto_read_loop L env ts timeout w = Some (p, w')"
    using assms(1) q p(2) w0 by (subst proto_read_loop.simps) (simp add: w'_def s_def)
  moreover have "ll_proto L w' = s'" by (simp add: w'_def proto_upd)
  ultimately show ?thesis using p by auto
qed

text \<open>When none waits, the link runs, and the loop goes on with what it has received.\<close>

lemma read_turn:
  assumes "packets_apart P buf sz" "ready w" "\<not> pr_multithread (ll_proto L w)" "rx_refines P buf sz ([], f, lost) (ll_proto L w)"
    and "turn (view w) = (fs, v)" "proto_in_time ts timeout (ll_proto L w)"
  shows "\<exists>w'. proto_read_loop L env ts timeout w = proto_read_loop L env ts timeout w' \<and> ready w' \<and> view w' = v
    \<and> \<not> pr_multithread (ll_proto L w') \<and> rx_refines P buf sz (spec_frames sz fs ([], f, lost)) (ll_proto L w')
    \<and> proto_in_time ts timeout (ll_proto L w')"
proof -
  define w0 where "w0 = proto_wait_events L env 0 w"
  define e where "e = snd (tiny_events_wait (pr_events (ll_proto L w)) PROTO_RX_MESSAGE True)"
  have w0: "w0 = ll_upd_proto L (\<lambda>s. s\<lparr>pr_events := snd (tiny_events_wait (pr_events s) PROTO_RX_MESSAGE True)\<rparr>) w"
    "ll_proto L w0 = (ll_proto L w)\<lparr>pr_events := e\<rparr>" by (simp_all only: w0_def waits(1) e_def proto_upd)
  define s0 where "s0 = ll_proto L w0"
  define w1 where "w1 = ll_upd_proto L (\<lambda>_. s0) w0"
  have s0: "rx_refines P buf sz ([], f, lost) s0" using assms(4) by (simp add: s0_def w0(2))
  have q: "proto_read_queue s0 = (0, s0)" using s0 rx_lists_read(1) [of "[]" f s0] by (simp add: rx_refines_def)
  have w1: "ready w0" "view w0 = view w" using assms(2) by (simp_all add: w0(1) ready_upd view_upd)
  obtain w2 w3 where run: "ll_run_tx L w0 = Some w2" "ll_run_rx L w2 = Some w3" "ready w3" "view w3 = v"
    "ll_proto L w3 = fold (proto_on_read adr) fs s0"
    using runs [OF w1(1), of fs v] assms(5) w1(2) by (auto simp: s0_def)
  define w' where "w' = ll_upd_proto L (\<lambda>s. s\<lparr>pr_ticks := pr_ticks s + 1\<rparr>) w3"
  have same: "proto_same s0 (ll_proto L w3)" using fold_on_read_same by (simp add: run(5))
  have own: "\<not> pr_multithread s0" "pr_clock s0 = pr_clock (ll_proto L w)" "pr_ticks s0 = pr_ticks (ll_proto L w)"
    using assms(3) by (simp_all add: s0_def w0(2))
  have "proto_in_time ts timeout s0" using assms(6) own by (simp add: proto_in_time_def)
  then have t3: "proto_in_time ts timeout (ll_proto L w3)" using proto_in_time_same [OF same] by simp
  have in_time: "\<not> timeout \<le> pr_clock (ll_proto L w3) (pr_ticks (ll_proto L w3)) - ts" using t3 by (auto simp: proto_in_time_def not_le)
  have "proto_read_loop L env ts timeout w = proto_read_loop L env ts timeout w'"
    using assms(3) q own(1) run(1,2) in_time
    by (subst proto_read_loop.simps) (simp add: proto_run_link_def proto_millis_def w'_def flip: w0_def s0_def)
  moreover have "rx_refines P buf sz (spec_frames sz fs ([], f, lost)) (ll_proto L w3)"
    using rx_refines_frames [OF assms(1) s0] by (simp add: run(5))
  then have "rx_refines P buf sz (spec_frames sz fs ([], f, lost)) (ll_proto L w')" by (simp add: w'_def proto_upd)
  moreover have "\<not> pr_multithread (ll_proto L w')" using same own(1) by (simp add: w'_def proto_upd proto_same_def)
  moreover have "proto_in_time ts timeout (ll_proto L w')" using t3 by (simp add: w'_def proto_upd proto_in_time_def)
  ultimately show ?thesis using run(3,4) by (auto simp: w'_def ready_upd view_upd)
qed

text \<open>A message that arrives in time is read.\<close>

lemma read_gets:
  assumes "arrives turn v data" "packets_apart P buf sz" "ready w" "view w = v" "\<not> pr_multithread (ll_proto L w)"
    and "rx_refines P buf sz ([], e # f, lost) (ll_proto L w)" "proto_in_time ts timeout (ll_proto L w)"
  shows "\<exists>w'. proto_read_loop L env ts timeout w = Some (e, w')
    \<and> bytes_at (pr_memory (ll_proto L w')) (m_buf (pr_packets (ll_proto L w') e)) (nat (m_len (pr_packets (ll_proto L w') e))) = take (sz e) data"
  using assms
proof (induction arbitrary: w rule: arrives.induct)
  case (arrives_now v data fs v')
  obtain w' where w': "proto_read_loop L env ts timeout w = proto_read_loop L env ts timeout w'" "\<not> pr_multithread (ll_proto L w')"
    "rx_refines P buf sz (spec_frames sz (data # fs) ([], e # f, lost)) (ll_proto L w')"
    using read_turn [OF arrives_now(2,3,5,6) _ arrives_now(7)] arrives_now(1,4) by blast
  obtain ws f' l where "spec_frames sz (data # fs) ([], e # f, lost) = ((e, take (sz e) data) # ws, f', l)"
    using spec_frames_first [of sz fs "(e, take (sz e) data)" "[]" f lost] by (auto simp: spec_frames_simps(2) [of sz data fs _ 0])
  then show ?case using read_found [OF w'(2), of P buf sz "(e, take (sz e) data)" ws f' l env ts timeout] w'(1,3) by auto
next
  case (arrives_later v v' data)
  obtain w' where w': "proto_read_loop L env ts timeout w = proto_read_loop L env ts timeout w'" "ready w'" "view w' = v'"
    "\<not> pr_multithread (ll_proto L w')" "rx_refines P buf sz ([], e # f, lost) (ll_proto L w')" "proto_in_time ts timeout (ll_proto L w')"
    using read_turn [OF arrives_later(4,5,7,8) _ arrives_later(9)] arrives_later(1,6) by fastforce
  then show ?case using arrives_later.IH [OF arrives_later(4) w'(2-6)] by simp
qed

end

subsection \<open>The serial HDLC link\<close>

text \<open>The link as it is between two calls, with no frame to send.\<close>

definition link_idle :: "nat \<Rightarrow> nat \<Rightarrow> nat \<Rightarrow> ('a proto, 'd, 'e) hlink \<Rightarrow> bool" where
  "link_idle buf p n h \<longleftrightarrow> link_ready buf p n h \<and> lk_events (user_data h) AND TX_MESSAGE_SENDING = 0 \<and> lk_timeout (user_data h) = 0"

type_synonym 'e hdlc_view = "hdlc_crc_t \<times> nat \<times> rx_view \<times> 'e"

definition hdlc_view :: "('a proto, 'd, 'e) hlink \<Rightarrow> 'e hdlc_view" where
  "hdlc_view h = (crc_type h, nat (phys_mtu h), rx_view h, lk_in (user_data h))"

fun hdlc_turn :: "('e \<Rightarrow> nat \<Rightarrow> int \<times> u8 list \<times> 'e) \<Rightarrow> 'e hdlc_view \<Rightarrow> u8 list list \<times> 'e hdlc_view" where
  "hdlc_turn rd (crc, mtu, v, d) =
     (case rd d SERIAL_HDLC_BSIZE of (len, data, d) \<Rightarrow>
        case rx_bytes crc mtu v (take (nat len) data) of (v, es) \<Rightarrow> (delivered es, (crc, mtu, v, d)))"

lemma notify_frames_link:
  assumes "lk_on_read s = proto_on_read_cb buf"
  shows "notify_frames (Some hlink_on_read) fs s = s\<lparr>lk_udata := fold (proto_on_read buf) fs (lk_udata s)\<rparr>"
proof -
  have "fold (\<lambda>f u. hlink_on_read u f) fs (s\<lparr>lk_udata := u\<rparr>) = s\<lparr>lk_udata := fold (proto_on_read buf) fs u\<rparr>" for u
    using assms by (induction fs arbitrary: u) (simp_all add: hlink_on_read_def proto_on_read_cb_def)
  from this [of "lk_udata s"] show ?thesis by (simp add: notify_frames_def)
qed

lemma idle_run_tx:
  assumes "link_idle buf p n h"
  shows "serial_run_tx wr env h = Some h"
proof -
  have "hlink_get_data env k h = (0, h)" for k
    using lk_wait_none [of h TX_MESSAGE_SENDING env False] assms by (simp add: hlink_get_data_def link_idle_def)
  then show ?thesis by (simp add: serial_run_tx_def serial_write_loop.simps)
qed

lemma idle_run_rx:
  assumes "link_idle buf p n h" "hdlc_turn rd (hdlc_view h) = (fs, v)"
  shows "\<exists>h'. serial_run_rx rd h = Some h' \<and> link_idle buf p n h' \<and> hdlc_view h' = v
    \<and> lk_udata (user_data h') = fold (proto_on_read buf) fs (lk_udata (user_data h))"
proof -
  obtain len data d where rd: "rd (lk_in (user_data h)) SERIAL_HDLC_BSIZE = (len, data, d)" by (metis prod_cases3)
  obtain v1 es where es: "rx_bytes (crc_type h) (nat (phys_mtu h)) (rx_view h) (take (nat len) data) = (v1, es)" by fastforce
  have fv: "fs = delivered es" "v = (crc_type h, nat (phys_mtu h), v1, d)" using assms(2) rd es by (simp_all add: hdlc_view_def)
  have ready: "link_ready buf p n h" using assms(1) by (simp add: link_idle_def)
  define h0 where "h0 = upd_lk (\<lambda>s. s\<lparr>lk_in := d\<rparr>) h"
  have h0: "link_ready buf p n h0" unfolding h0_def by (rule link_ready_user [OF ready]) simp_all
  then have wf: "rx_wf h0" "rx_state h0 \<noteq> Read_end" by (simp_all add: link_ready_def)
  define h' where "h' = rx_feed h0 (take (nat len) data)"
  from rx_feed_reads [OF wf] obtain es1 where "rx_reads h0 (take (nat len) data) es1 h'" unfolding h'_def by blast
  moreover have "rx_view h0 = rx_view h" "crc_type h0 = crc_type h" "phys_mtu h0 = phys_mtu h"
    by (simp_all add: h0_def rx_view_def rx_frame_def)
  ultimately have r: "rx_view h' = v1" "rx_only h0 h'" "user_data h' = notify_frames (on_frame_read h0) fs (user_data h0)"
    using es by (auto simp: rx_reads_def fv)
  have u: "user_data h' = (user_data h)\<lparr>lk_in := d, lk_udata := fold (proto_on_read buf) fs (lk_udata (user_data h))\<rparr>"
    using r(3) h0 notify_frames_link [of "user_data h0" buf fs] by (simp add: link_ready_def) (simp add: h0_def)
  have run: "serial_run_rx rd h = Some h'" using serial_parse_loop_feed [OF wf] rd by (simp add: serial_run_rx_def h0_def h'_def)
  then have "link_ready buf p n h'" using serial_run_rx_keeps [OF ready, of rd] by auto
  moreover have "hdlc_view h' = v" using rx_only_fields [OF r(2)] by (simp add: hdlc_view_def fv r(1) u) (simp add: h0_def)
  ultimately show ?thesis using run u assms(1) by (simp add: link_idle_def)
qed

interpretation hl: proto_link "serial_hdlc_link abi buf wr rd env" "link_idle buf p n" hdlc_view "hdlc_turn rd" buf
  for abi :: c_abi and buf p n :: nat and wr :: "'d \<Rightarrow> u8 list \<Rightarrow> int \<times> 'd" and rd :: "'e \<Rightarrow> nat \<Rightarrow> int \<times> u8 list \<times> 'e"
    and env :: "('a proto, 'd, 'e) hlink \<Rightarrow> ('a proto, 'd, 'e) hlink"
proof
  let ?L = "serial_hdlc_link abi buf wr rd env"
  show "ll_proto ?L (ll_upd_proto ?L f w) = f (ll_proto ?L w)" for f w by (simp add: link_ops)
  show "link_idle buf p n (ll_upd_proto ?L f w)" if "link_idle buf p n w" for f w
    using link_ready_user [of buf p n w] that by (simp add: link_ops link_idle_def)
  show "hdlc_view (ll_upd_proto ?L f w) = hdlc_view w" for f and w :: "('a proto, 'd, 'e) hlink"
    by (simp add: link_ops hdlc_view_def rx_view_def rx_frame_def)
  show "\<exists>w1 w2. ll_run_tx ?L w = Some w1 \<and> ll_run_rx ?L w1 = Some w2 \<and> link_idle buf p n w2 \<and> hdlc_view w2 = v
      \<and> ll_proto ?L w2 = fold (proto_on_read buf) fs (ll_proto ?L w)"
    if "link_idle buf p n w" "hdlc_turn rd (hdlc_view w) = (fs, v)" for w fs v
    using idle_run_rx [OF that] idle_run_tx [OF that(1), of wr env] by (simp add: link_ops)
qed

text \<open>The line gives the blocks \<open>cs\<close>, one to each read.\<close>

inductive gives_blocks :: "('e \<Rightarrow> nat \<Rightarrow> int \<times> u8 list \<times> 'e) \<Rightarrow> 'e \<Rightarrow> u8 list list \<Rightarrow> bool" for rd :: "'e \<Rightarrow> nat \<Rightarrow> int \<times> u8 list \<times> 'e" where
  gives_none: "gives_blocks rd d []"
| gives_block: "rd d SERIAL_HDLC_BSIZE = (int (length c), c, d') \<Longrightarrow> gives_blocks rd d' cs \<Longrightarrow> gives_blocks rd d (c # cs)"

lemma blocks_arrive:
  assumes "gives_blocks rd d cs" "rx_bytes crc mtu v (concat cs) = (v', es)" "delivered es = data # rest"
  shows "arrives (hdlc_turn rd) (crc, mtu, v, d) data"
  using assms
proof (induction arbitrary: v es rule: gives_blocks.induct)
  case (gives_block d c d' cs)
  obtain v1 es1 where c: "rx_bytes crc mtu v c = (v1, es1)" by fastforce
  obtain v2 es2 where cs: "rx_bytes crc mtu v1 (concat cs) = (v2, es2)" by fastforce
  have es: "es = es1 @ es2" "v' = v2" using gives_block.prems(1) c cs by (simp_all add: rx_bytes_append)
  have turn: "hdlc_turn rd (crc, mtu, v, d) = (delivered es1, (crc, mtu, v1, d'))" using gives_block(1) c by simp
  show ?case
  proof (cases "delivered es1")
    case Nil
    then have "arrives (hdlc_turn rd) (crc, mtu, v1, d') data" using gives_block.IH [of v1 es2] cs es gives_block.prems(2) by simp
    then show ?thesis using turn Nil arrives_later by metis
  next
    case (Cons data1 fs)
    then have "data1 = data" using gives_block.prems(2) es(1) by simp
    then show ?thesis using turn Cons arrives_now by metis
  qed
qed simp

subsection \<open>From one station to the other\<close>

text \<open>
  C5: A packet goes from one station to another: \<open>Proto::send\<close> over a serial HDLC link returns \<open>True\<close>, whatever is received in the
  meantime, and leaves the link idle; and when the other station's serial port gives what the line has taken, in blocks of any sizes, \<open>Proto::read\<close> there returns
  the first free packet of its pool, with the bytes that were sent, cut to the size of its buffer. Neither side has threads of its own. The
  packet is not empty, lies outside the receive buffer, and its frame fits the receiver's; the receiver is aligned with the frames and uses the same check sequence; the line takes at
  least one byte of every block; no message waits yet; and the timeouts do not pass before.
\<close>

theorem proto_end_to_end:
  assumes "link_ready buf (m_buf pkt) n h" "tx_origin h = 0" "m_buf pkt \<noteq> 0" "0 < n" "m_len pkt = int n"
    and "lk_temp_buffer (user_data h) \<noteq> m_buf pkt" "lk_events (user_data h) AND TX_QUEUE_FREE \<noteq> 0" "takes_blocks wr log"
    and "\<not> pr_multithread (lk_udata (user_data h))"
    and "proto_in_time (pr_clock (lk_udata (user_data h)) (pr_ticks (lk_udata (user_data h)))) timeout (lk_udata (user_data h))"
    and "link_idle buf2 p2 n2 g" "crc_type g = crc_type h" "hdlc_aligned (rx_view g)"
    and "hdlc_fits (crc_type h) (nat (phys_mtu g)) (bytes_at (mem h) (m_buf pkt) n)"
    and "\<not> pr_multithread (lk_udata (user_data g))" "packets_apart P bf sz" "rx_refines P bf sz ([], e # f, lost) (lk_udata (user_data g))"
    and "proto_in_time (pr_clock (lk_udata (user_data g)) (pr_ticks (lk_udata (user_data g)))) timeout2 (lk_udata (user_data g))"
  shows "\<exists>h'. proto_send (serial_hdlc_link abi buf wr rd env) pkt timeout h = Some (True, h') \<and> tx_origin h' = 0
    \<and> (\<forall>cs. log (lk_out (user_data h')) = log (lk_out (user_data h)) @ concat cs \<longrightarrow> gives_blocks rd2 (lk_in (user_data g)) cs
         \<longrightarrow> (\<exists>g'. proto_read (serial_hdlc_link abi2 buf2 wr2 rd2 env2) env3 timeout2 g = Some (e, g')
              \<and> bytes_at (pr_memory (lk_udata (user_data g'))) (m_buf (pr_packets (lk_udata (user_data g')) e))
                  (nat (m_len (pr_packets (lk_udata (user_data g')) e))) = take (sz e) (bytes_at (mem h) (m_buf pkt) n)))"
proof -
  let ?data = "bytes_at (mem h) (m_buf pkt) n" and ?L = "serial_hdlc_link abi2 buf2 wr2 rd2 env2"
  obtain h' where h': "proto_send (serial_hdlc_link abi buf wr rd env) pkt timeout h = Some (True, h')" "tx_origin h' = 0"
    "log (lk_out (user_data h')) = log (lk_out (user_data h)) @ hdlc_encode (crc_type h) ?data"
    using proto_send_over_hdlc [OF assms(1-10), of abi rd env] by blast
  have crc: "crc_type h \<noteq> HDLC_CRC_OFF" using assms(1) by (simp add: link_ready_def rx_wf_def)
  have "\<exists>g'. proto_read ?L env3 timeout2 g = Some (e, g') \<and> bytes_at (pr_memory (lk_udata (user_data g'))) (m_buf (pr_packets (lk_udata (user_data g')) e))
      (nat (m_len (pr_packets (lk_udata (user_data g')) e))) = take (sz e) ?data"
    if "concat cs = hdlc_encode (crc_type h) ?data" "gives_blocks rd2 (lk_in (user_data g)) cs" for cs
  proof -
    have "rx_bytes (crc_type g) (nat (phys_mtu g)) (rx_view g) (concat cs) = (Hunting, [Delivered ?data])"
      using rx_bytes_encode_aligned [OF crc assms(14,13)] that(1) assms(12) by simp
    then have arr: "arrives (hdlc_turn rd2) (hdlc_view g) ?data"
      unfolding hdlc_view_def by (rule blocks_arrive [OF that(2)]) simp
    define g0 where "g0 = ll_upd_proto ?L (\<lambda>s. s\<lparr>pr_ticks := pr_ticks s + 1\<rparr>) g"
    have g0: "lk_udata (user_data g0) = tick (lk_udata (user_data g))" by (simp add: g0_def link_ops)
    have "link_idle buf2 p2 n2 g0" "hdlc_view g0 = hdlc_view g"
      unfolding g0_def by (rule hl.ready_upd [OF assms(11)], rule hl.view_upd)
    moreover have "\<not> pr_multithread (ll_proto ?L g0)" "rx_refines P bf sz ([], e # f, lost) (ll_proto ?L g0)"
      "proto_in_time (pr_clock (lk_udata (user_data g)) (pr_ticks (lk_udata (user_data g)))) timeout2 (ll_proto ?L g0)"
      using assms(15,17,18) by (simp_all add: link_ops g0 proto_in_time_def)
    ultimately show ?thesis
      using hl.read_gets [OF arr assms(16), where w = g0 and p = p2 and n = n2]
      by (simp add: proto_read_def proto_millis_def link_ops g0_def)
  qed
  then show ?thesis using h' by (intro exI [of _ h']) auto
qed

text \<open>A serial port that gives the blocks of a list, and a receiver with two free packets of 4 and 2 bytes.\<close>

definition blocks_read :: "u8 list list \<Rightarrow> nat \<Rightarrow> int \<times> u8 list \<times> u8 list list" where
  "blocks_read d n = (case d of [] \<Rightarrow> (0, [], []) | c # cs \<Rightarrow> (int (length c), c, cs))"

lemma blocks_read_gives: "gives_blocks blocks_read cs cs"
  by (induction cs) (auto intro: gives_blocks.intros simp: blocks_read_def)

definition demo_receiver :: "u8 list list \<Rightarrow> (unit proto, u8 list, u8 list list) hlink" where
  "demo_receiver line = \<lparr>mem = (\<lambda>_. 0), on_frame_read = Some hlink_on_read, on_frame_send = Some hlink_on_send,
     rx_buf = 500, rx_buf_size = 16, crc_type = HDLC_CRC_8,
     user_data = \<lparr>lk_on_read = proto_on_read_cb 500, lk_on_send = proto_on_send_cb, lk_udata = demo_proto, lk_events = TX_QUEUE_FREE,
       lk_temp_buffer = 0, lk_buffer = 400, lk_buffer_size = 116, lk_crc = HDLC_CRC_8, lk_flush_flag = False, lk_mtu = 0, lk_timeout = 0,
       lk_out = [], lk_in = line\<rparr>,
     phys_mtu = 16, rx_state = Read_start, rx_ptr = 500, rx_escape = False, rx_active = 500, tx_state = Send_start, tx_out = [],
     tx_out_len = 0, tx_origin = 0, tx_data = 0, tx_len = 0, tx_crc = 0, tx_escape = False\<rparr>"

lemma demo_receiver:
  "link_idle 500 0 0 (demo_receiver line)" "crc_type (demo_receiver line) = HDLC_CRC_8" "hdlc_aligned (rx_view (demo_receiver line))"
  "nat (phys_mtu (demo_receiver line)) = 16" "lk_udata (user_data (demo_receiver line)) = demo_proto" "lk_in (user_data (demo_receiver line)) = line"
  by (simp_all add: demo_receiver_def link_idle_def link_ready_def tx_wf_def tx_inside_def rx_apart_def rx_wf_def rx_view_def hdlc_aligned_def
      TX_QUEUE_FREE_def TX_MESSAGE_SENDING_def)

lemma demo_pool:
  "packets_apart {1, 2} (\<lambda>p. if p = 1 then 100 else 200) (\<lambda>p. if p = 1 then 4 else 2)"
  "rx_refines {1, 2} (\<lambda>p. if p = 1 then 100 else 200) (\<lambda>p. if p = 1 then 4 else 2) ([], [1, 2], 0) demo_proto"
  "\<not> pr_multithread demo_proto" "proto_in_time (pr_clock demo_proto (pr_ticks demo_proto)) 5 demo_proto"
  by (simp_all add: packets_apart_def rx_refines_def rx_lists_def proto_in_time_def demo_proto_def proto_release_def proto_add_rx_pool_def
      Let_def proto_new_def packet_new_def)

theorem proto_end_to_end_witness:
  "\<exists>h'. proto_send (serial_hdlc_link demo_abi 500 line_write (\<lambda>d n. (0, [], d)) id) demo_packet 100 demo_link = Some (True, h')
     \<and> (\<forall>a b. lk_out (user_data h') = a @ b \<longrightarrow>
          (\<exists>g'. proto_read (serial_hdlc_link demo_abi 500 line_write blocks_read id) id 5 (demo_receiver [a, b]) = Some (1, g')
             \<and> bytes_at (pr_memory (lk_udata (user_data g'))) (m_buf (pr_packets (lk_udata (user_data g')) 1))
                 (nat (m_len (pr_packets (lk_udata (user_data g')) 1))) = [0x10, 0x11, 0x12]))"
proof -
  let ?S = "serial_hdlc_link demo_abi 500 line_write (\<lambda>d n. (0, [], d)) id"
  have t: "proto_in_time (pr_clock (lk_udata (user_data demo_link)) (pr_ticks (lk_udata (user_data demo_link)))) 100 (lk_udata (user_data demo_link))"
    by (simp add: proto_in_time_def demo_link(12))
  have pos: "(0 :: nat) < 3" by simp
  have both: "\<exists>h'. proto_send ?S demo_packet 100 demo_link = Some (True, h') \<and> tx_origin h' = 0
    \<and> (\<forall>cs. lk_out (user_data h') = lk_out (user_data demo_link) @ concat cs \<longrightarrow> gives_blocks blocks_read (lk_in (user_data (demo_receiver line))) cs
         \<longrightarrow> (\<exists>g'. proto_read (serial_hdlc_link demo_abi 500 line_write blocks_read id) id 5 (demo_receiver line) = Some (1, g')
              \<and> bytes_at (pr_memory (lk_udata (user_data g'))) (m_buf (pr_packets (lk_udata (user_data g')) 1))
                  (nat (m_len (pr_packets (lk_udata (user_data g')) 1))) = take 4 (bytes_at (mem demo_link) (m_buf demo_packet) 3)))" for line
  proof -
    have own: "\<not> pr_multithread (lk_udata (user_data (demo_receiver line)))"
      "rx_refines {1, 2} (\<lambda>p. if p = 1 then 100 else 200) (\<lambda>p. if p = 1 then 4 else 2) ([], [1, 2], 0) (lk_udata (user_data (demo_receiver line)))"
      "proto_in_time (pr_clock (lk_udata (user_data (demo_receiver line))) (pr_ticks (lk_udata (user_data (demo_receiver line))))) 5
         (lk_udata (user_data (demo_receiver line)))"
      using demo_pool(2-4) by (simp_all only: demo_receiver(5) simp_thms)
    have crc: "crc_type (demo_receiver line) = crc_type demo_link" by (simp add: demo_receiver(2) demo_link(9))
    have fits: "hdlc_fits (crc_type demo_link) (nat (phys_mtu (demo_receiver line))) (bytes_at (mem demo_link) (m_buf demo_packet) 3)"
      by (simp add: demo_link(9-11) demo_receiver(4) demo_packet_bytes hdlc_fits_def fcs_len_def)
    from proto_end_to_end [OF demo_link(1-3) pos demo_link(4-6) line_takes_blocks demo_link(7) t demo_receiver(1) crc demo_receiver(3) fits own(1)
        demo_pool(1) own(2,3), of demo_abi "\<lambda>d n. (0, [], d)" id blocks_read demo_abi line_write id id]
    show ?thesis by simp
  qed
  from both [of "[]"] obtain h' where h': "proto_send ?S demo_packet 100 demo_link = Some (True, h')" by blast
  have "\<exists>g'. proto_read (serial_hdlc_link demo_abi 500 line_write blocks_read id) id 5 (demo_receiver [a, b]) = Some (1, g')
      \<and> bytes_at (pr_memory (lk_udata (user_data g'))) (m_buf (pr_packets (lk_udata (user_data g')) 1))
          (nat (m_len (pr_packets (lk_udata (user_data g')) 1))) = [0x10, 0x11, 0x12]" if "lk_out (user_data h') = a @ b" for a b
  proof -
    have "gives_blocks blocks_read (lk_in (user_data (demo_receiver [a, b]))) [a, b]" by (simp add: demo_receiver(6) blocks_read_gives)
    moreover have "lk_out (user_data h') = lk_out (user_data demo_link) @ concat [a, b]" using that by (simp add: demo_link(8))
    moreover have "take 4 (bytes_at (mem demo_link) (m_buf demo_packet) 3) = [0x10, 0x11, 0x12]" by (simp add: demo_link(10,11) demo_packet_bytes)
    ultimately show ?thesis using both [of "[a, b]"] h' by (metis Pair_inject option.inject)
  qed
  then show ?thesis using h' by blast
qed

end
