(* ===== verification/SerialLinks.thy ===== *)
theory SerialLinks
  imports ProtoOverHdlc
begin

unbundle bit_operations_syntax

section \<open>Starting and ending a serial link\<close>

text \<open>
  What surrounds the links while they run: the serial port (\<open>src/interface/TinySerial.cpp\<close>), the start and the end of a link on it
  (\<open>src/link/TinySerialLinkLayer.h\<close>, \<open>src/link/TinySerialHdlcLink.cpp\<close>), the threads of \<open>Proto\<close>, and the settings of these objects. The
  port of the operating system is a parameter. The last part shows that \<open>begin\<close> leaves a link in the state in which
  packets go through it.
\<close>

subsection \<open>The serial port\<close>

text \<open>\<open>'h\<close> is the handle of the operating system; \<open>None\<close> is \<open>TINY_SERIAL_INVALID\<close>.\<close>

record 'h serial =
  se_handle :: "'h option"
  se_timeout :: u32

definition serial_new :: "'h serial" where "serial_new = \<lparr>se_handle = None, se_timeout = 0\<rparr>"
definition serial_set_timeout :: "u32 \<Rightarrow> 'h serial \<Rightarrow> 'h serial" where "serial_set_timeout timeout s = s\<lparr>se_timeout := timeout\<rparr>"

definition serial_begin :: "(u32 \<Rightarrow> 'h option) \<Rightarrow> u32 \<Rightarrow> 'h serial \<Rightarrow> bool \<times> 'h serial" where
  "serial_begin open_port speed s = (open_port speed \<noteq> None, s\<lparr>se_handle := open_port speed\<rparr>)"

definition serial_end :: "'h serial \<Rightarrow> 'h serial" where "serial_end s = s\<lparr>se_handle := None\<rparr>"

definition serial_read_bytes :: "('h option \<Rightarrow> nat \<Rightarrow> u32 \<Rightarrow> 'r) \<Rightarrow> nat \<Rightarrow> 'h serial \<Rightarrow> 'r" where
  "serial_read_bytes read_port len s = read_port (se_handle s) len (se_timeout s)"

definition serial_write :: "('h option \<Rightarrow> u8 list \<Rightarrow> u32 \<Rightarrow> 'r) \<Rightarrow> u8 list \<Rightarrow> 'h serial \<Rightarrow> 'r" where
  "serial_write write_port buf s = write_port (se_handle s) buf (se_timeout s)"

subsection \<open>The link on the port\<close>

text \<open>The link below is given by its operations; the state holds the link and the port. The port is opened only if the link has begun.\<close>

definition serial_link_begin :: "('w \<Rightarrow> bool \<times> 'w) \<Rightarrow> ('w \<Rightarrow> u32) \<Rightarrow> (u32 \<Rightarrow> 'h option) \<Rightarrow> u32 \<Rightarrow> 'w \<times> 'h serial \<Rightarrow> bool \<times> 'w \<times> 'h serial" where
  "serial_link_begin base_begin get_timeout open_port speed = (\<lambda>(w, s).
     let (result, w) = base_begin w;
         s = serial_set_timeout (get_timeout w) s
     in if result then let (ok, s) = serial_begin open_port speed s in (ok, w, s) else (False, w, s))"

definition serial_link_end :: "('w \<Rightarrow> 'w) \<Rightarrow> 'w \<times> 'h serial \<Rightarrow> 'w \<times> 'h serial" where
  "serial_link_end base_end = (\<lambda>(w, s). (base_end w, serial_end s))"

definition hlink_set_crc :: "hdlc_crc_t \<Rightarrow> ('o, 'd, 'e) hdlc_link \<Rightarrow> ('o, 'd, 'e) hdlc_link" where
  "hlink_set_crc crc layer = layer\<lparr>lk_crc := crc\<rparr>"

definition hlink_set_buffer :: "nat \<Rightarrow> int \<Rightarrow> ('o, 'd, 'e) hdlc_link \<Rightarrow> ('o, 'd, 'e) hdlc_link" where
  "hlink_set_buffer buffer sz layer = layer\<lparr>lk_buffer := buffer, lk_buffer_size := sz\<rparr>"

text \<open>The HDLC link allocates its buffer; \<open>buf\<close> is its address, 0 if there is no memory.\<close>

definition serial_hdlc_buffer_size :: "c_abi \<Rightarrow> ('o, 'd, 'e) hdlc_link \<Rightarrow> int" where
  "serial_hdlc_buffer_size abi layer = hdlc_ll_get_buf_size_ex abi (lk_mtu layer) (lk_crc layer) 3"

definition serial_hdlc_begin :: "c_abi \<Rightarrow> nat \<Rightarrow> ('o \<Rightarrow> u8 \<Rightarrow> u8 list \<Rightarrow> 'o) \<Rightarrow> ('o \<Rightarrow> u8 \<Rightarrow> u8 list \<Rightarrow> 'o) \<Rightarrow> 'o
    \<Rightarrow> (u32 \<Rightarrow> 'h option) \<Rightarrow> u32 \<Rightarrow> ('o, 'd, 'e) hlink \<times> 'h serial \<Rightarrow> bool \<times> ('o, 'd, 'e) hlink \<times> 'h serial" where
  "serial_hdlc_begin abi buf on_read on_send udata open_port speed = (\<lambda>(h, s).
     serial_link_begin (hlink_begin abi on_read on_send udata) (\<lambda>h. lk_timeout (user_data h)) open_port speed
       (upd_lk (\<lambda>layer. hlink_set_buffer buf (serial_hdlc_buffer_size abi layer) layer) h, s))"

definition serial_hdlc_end :: "('o, 'd, 'e) hlink \<times> 'h serial \<Rightarrow> ('o, 'd, 'e) hlink \<times> 'h serial" where
  "serial_hdlc_end = serial_link_end hlink_end"

subsection \<open>The threads of Proto\<close>

text \<open>The bodies of the two threads; \<open>env\<close> is what the others do in between.\<close>

partial_function (option) proto_run_tx_loop :: "('a, 'w) link_layer \<Rightarrow> ('w \<Rightarrow> 'w) \<Rightarrow> 'w \<Rightarrow> 'w option" where
  "proto_run_tx_loop L env w =
     (if \<not> pr_terminate (ll_proto L w) then Option.bind (ll_run_tx L w) (\<lambda>w. proto_run_tx_loop L env (env w)) else Some w)"

definition proto_run_tx :: "('a, 'w) link_layer \<Rightarrow> ('w \<Rightarrow> 'w) \<Rightarrow> 'w \<Rightarrow> 'w option" where
  "proto_run_tx L env w =
     (if pr_multithread (ll_proto L w) then proto_run_tx_loop L env (if pr_tx_delay (ll_proto L w) \<noteq> 0 then env w else w) else Some w)"

partial_function (option) proto_run_rx_loop :: "('a, 'w) link_layer \<Rightarrow> ('w \<Rightarrow> 'w) \<Rightarrow> 'w \<Rightarrow> 'w option" where
  "proto_run_rx_loop L env w =
     (if \<not> pr_terminate (ll_proto L w) then Option.bind (ll_run_rx L w) (\<lambda>w. proto_run_rx_loop L env (env w)) else Some w)"

definition proto_run_rx :: "('a, 'w) link_layer \<Rightarrow> ('w \<Rightarrow> 'w) \<Rightarrow> 'w \<Rightarrow> 'w option" where
  "proto_run_rx L env w = (if pr_multithread (ll_proto L w) then proto_run_rx_loop L env w else Some w)"

subsection \<open>A link that has begun\<close>

text \<open>The size that the link computes is enough for the low level, also without a check sequence, for which the low level takes its default.\<close>

lemma serial_hdlc_size_enough:
  fixes f g u and h0 :: "('o, 'd, 'e) hlink" and layer :: "('o, 'd, 'e) hdlc_link"
  assumes "0 < align_struct abi" "2 \<le> lk_mtu layer" "buf \<noteq> 0"
  defines "init \<equiv> \<lparr>init_on_frame_read = f, init_on_frame_send = g, init_buf = buf, init_buf_size = serial_hdlc_buffer_size abi layer,
       init_crc_type = lk_crc layer, init_user_data = u, init_mtu = lk_mtu layer\<rparr>"
  shows "\<exists>h. hdlc_ll_init abi init h0 = Inr h \<and> rx_wf h \<and> rx_view h = Hunting \<and> tx_wf h \<and> tx_state h = Send_start \<and> tx_origin h = 0
    \<and> on_frame_read h = f \<and> on_frame_send h = g \<and> user_data h = u \<and> mem h = mem h0
    \<and> crc_type h = (if lk_crc layer = HDLC_CRC_OFF then HDLC_CRC_DEFAULT else lk_crc layer)
    \<and> phys_mtu h = lk_mtu layer + get_crc_field_size (crc_type h)
    \<and> buf + sizeof_hdlc_ll abi \<le> rx_buf h \<and> int (rx_buf h) + rx_buf_size h = int buf + serial_hdlc_buffer_size abi layer"
proof -
  define al where "al = align_up (align_struct abi) buf"
  define crc where "crc = (if lk_crc layer = HDLC_CRC_OFF then HDLC_CRC_DEFAULT else lk_crc layer)"
  have al: "buf \<le> al" "al \<le> buf + align_struct abi - 1" using align_up_bounds [OF assms(1)] by (simp_all add: al_def)
  have pad: "int (al - buf) \<le> int (align_struct abi) - 1" using al assms(1) by linarith
  have crc: "crc \<noteq> HDLC_CRC_OFF" "0 \<le> get_crc_field_size crc"
    by (cases "lk_crc layer"; simp add: crc_def get_crc_field_size_def)+
  have enough: "get_crc_field_size crc + lk_mtu layer \<le> (get_crc_field_size (lk_crc layer) + lk_mtu layer) * 3"
    using assms(2) by (cases "lk_crc layer") (simp_all add: crc_def get_crc_field_size_def)
  have size: "int (sizeof_hdlc_ll abi) + lk_mtu layer + get_crc_field_size crc + int (al - buf) \<le> serial_hdlc_buffer_size abi layer"
    using enough pad by (simp add: serial_hdlc_buffer_size_def hdlc_ll_get_buf_size_ex_def)
  have crc_eq: "lk_crc layer = HDLC_CRC_OFF \<Longrightarrow> crc = HDLC_CRC_DEFAULT" "lk_crc layer \<noteq> HDLC_CRC_OFF \<Longrightarrow> lk_crc layer = crc"
    by (simp_all add: crc_def)
  have init: "hdlc_ll_init abi init h0 = Inr (h0\<lparr>rx_buf := al + sizeof_hdlc_ll abi,
     rx_buf_size := serial_hdlc_buffer_size abi layer - int (al - buf) - int (sizeof_hdlc_ll abi),
     crc_type := crc, on_frame_read := f, on_frame_send := g, user_data := u, phys_mtu := lk_mtu layer + get_crc_field_size crc,
     rx_active := al + sizeof_hdlc_ll abi, rx_state := Read_start, tx_data := 0, tx_origin := 0, tx_escape := False, tx_state := Send_start\<rparr>)"
    using assms(2,3) size crc crc_eq by (cases "lk_crc layer = HDLC_CRC_OFF") (simp_all add: init_def hdlc_ll_init_def Let_def hdlc_ll_reset_def ll_flags flip: al_def)
  show ?thesis unfolding init
    using assms(2) size crc al by (simp add: rx_wf_def tx_wf_def rx_view_def crc_def)
qed

text \<open>
  C7: \<open>begin\<close> of the HDLC link over a serial port: when memory is there and the port opens, it succeeds for every maximum transmission unit above 1, every
  check sequence and every address of the buffer, and the link is then as the transfer of packets asks for it, wherever the packets lie outside the receive buffer: idle, aligned with the frames, free to take a packet, with
  nothing to send, with room for a frame of the maximum size, and with its receive buffer inside the memory allocated. (No packet was put before, and the timeout is 0, as \<open>Proto\<close> sets it without threads.)
\<close>

theorem serial_hdlc_begin_ready:
  assumes "0 < align_struct abi" "2 \<le> lk_mtu (user_data h)" "buf \<noteq> 0" "open_port speed \<noteq> None" "lk_timeout (user_data h) = 0"
    and "lk_events (user_data h) = 0"
  shows "\<exists>h' s'. serial_hdlc_begin abi buf (proto_on_read_cb lbuf) proto_on_send_cb udata open_port speed (h, s) = (True, h', s')
    \<and> (\<forall>p n. rx_apart p n h' \<longrightarrow> link_idle lbuf p n h') \<and> tx_origin h' = 0 \<and> hdlc_aligned (rx_view h') \<and> lk_events (user_data h') AND TX_QUEUE_FREE \<noteq> 0
    \<and> lk_udata (user_data h') = udata \<and> lk_temp_buffer (user_data h') = lk_temp_buffer (user_data h)
    \<and> phys_mtu h' = lk_mtu (user_data h) + get_crc_field_size (crc_type h')
    \<and> buf \<le> rx_buf h' \<and> int (rx_buf h') + rx_buf_size h' \<le> int buf + serial_hdlc_buffer_size abi (user_data h)
    \<and> se_handle s' \<noteq> None"
proof -
  define layer where "layer = (hlink_set_buffer buf (serial_hdlc_buffer_size abi (user_data h)) (user_data h))\<lparr>lk_on_read := proto_on_read_cb lbuf,
     lk_on_send := proto_on_send_cb, lk_udata := udata\<rparr>"
  define h0 where "h0 = upd_lk (\<lambda>layer. hlink_set_buffer buf (serial_hdlc_buffer_size abi layer) layer) h"
  obtain g where g: "hdlc_ll_init abi \<lparr>init_on_frame_read = Some hlink_on_read, init_on_frame_send = Some hlink_on_send, init_buf = buf,
      init_buf_size = serial_hdlc_buffer_size abi (user_data h), init_crc_type = lk_crc (user_data h), init_user_data = layer,
      init_mtu = lk_mtu (user_data h)\<rparr> h0 = Inr g"
    "rx_wf g" "rx_view g = Hunting" "tx_wf g" "tx_state g = Send_start" "tx_origin g = 0" "on_frame_read g = Some hlink_on_read"
    "on_frame_send g = Some hlink_on_send" "user_data g = layer" "phys_mtu g = lk_mtu (user_data h) + get_crc_field_size (crc_type g)"
    "buf \<le> rx_buf g" "int (rx_buf g) + rx_buf_size g = int buf + serial_hdlc_buffer_size abi (user_data h)"
    using serial_hdlc_size_enough [OF assms(1-3), where f = "Some hlink_on_read" and g = "Some hlink_on_send" and u = layer and ?h0.0 = h0]
    by fastforce
  define h' where "h' = upd_lk (\<lambda>s. lk_clear_events TX_MESSAGE_SENDING (lk_set_events TX_QUEUE_FREE (s\<lparr>lk_flush_flag := False\<rparr>))) g"
  have "hlink_begin abi (proto_on_read_cb lbuf) proto_on_send_cb udata h0 = (True, h')"
    using g(1) by (simp add: hlink_begin_def h0_def h'_def hlink_set_buffer_def layer_def Let_def)
  then have run: "serial_hdlc_begin abi buf (proto_on_read_cb lbuf) proto_on_send_cb udata open_port speed (h, s)
    = (True, h', s\<lparr>se_timeout := lk_timeout (user_data h'), se_handle := open_port speed\<rparr>)"
    using assms(4) by (simp add: serial_hdlc_begin_def serial_link_begin_def serial_begin_def serial_set_timeout_def h0_def Let_def)
  have u: "user_data h' = layer\<lparr>lk_flush_flag := False, lk_events := (0 OR TX_QUEUE_FREE) AND NOT TX_MESSAGE_SENDING\<rparr>"
    using assms(6) by (simp add: h'_def g(9) layer_def hlink_set_buffer_def lk_set_events_def lk_clear_events_def event_ops)
  have bits: "((0 OR TX_QUEUE_FREE) AND NOT TX_MESSAGE_SENDING) AND TX_MESSAGE_SENDING = 0"
    "((0 OR TX_QUEUE_FREE) AND NOT TX_MESSAGE_SENDING) AND TX_QUEUE_FREE \<noteq> 0"
    by (simp_all add: TX_QUEUE_FREE_def TX_MESSAGE_SENDING_def)
  have "rx_state g \<noteq> Read_end" using g(3) by (auto simp: rx_view_def split: if_splits)
  then have ready: "link_ready lbuf p n g" if "rx_apart p n g" for p n using g that by (simp add: link_ready_def tx_inside_def layer_def)
  have "link_idle lbuf p n h'" if "rx_apart p n h'" for p n
  proof -
    have "rx_apart p n g" using that by (simp add: h'_def rx_apart_def)
    then have "link_ready lbuf p n h'" unfolding h'_def
      by (intro link_ready_user [OF ready]) (simp_all add: g(9) lk_set_events_def lk_clear_events_def)
    then show ?thesis using bits(1) assms(5) by (simp add: link_idle_def u layer_def hlink_set_buffer_def)
  qed
  moreover have "rx_view h' = rx_view g" "rx_buf h' = rx_buf g" "rx_buf_size h' = rx_buf_size g" "phys_mtu h' = phys_mtu g"
    "crc_type h' = crc_type g" "tx_origin h' = tx_origin g" by (simp_all add: h'_def rx_view_def rx_frame_def)
  moreover have "lk_udata (user_data h') = udata" "lk_temp_buffer (user_data h') = lk_temp_buffer (user_data h)"
    "lk_events (user_data h') AND TX_QUEUE_FREE \<noteq> 0" using bits(2) by (simp_all add: u layer_def hlink_set_buffer_def)
  ultimately show ?thesis
    using g(3,6,10-12) assms(4)
    by (intro exI [of _ h'] exI [of _ "s\<lparr>se_timeout := lk_timeout (user_data h'), se_handle := open_port speed\<rparr>"] conjI run)
      (simp_all add: hdlc_aligned_def)
qed

text \<open>A link over a port that opens, for an mtu of 32.\<close>

theorem serial_hdlc_begin_ready_witness:
  "\<exists>h' s'. serial_hdlc_begin demo_abi 1001 (proto_on_read_cb 500) proto_on_send_cb demo_proto (\<lambda>speed. Some (1 :: nat)) 115200
       (upd_lk (\<lambda>s. s\<lparr>lk_events := 0, lk_mtu := 32\<rparr>) (demo_receiver []), serial_new) = (True, h', s') \<and> link_idle 500 0 0 h'"
proof -
  let ?h = "upd_lk (\<lambda>s. s\<lparr>lk_events := 0, lk_mtu := 32\<rparr>) (demo_receiver [])"
  have pre: "0 < align_struct demo_abi" "2 \<le> lk_mtu (user_data ?h)" "(1001 :: nat) \<noteq> 0" "(\<lambda>speed. Some (1 :: nat)) 115200 \<noteq> None"
    "lk_timeout (user_data ?h) = 0" "lk_events (user_data ?h) = 0"
    by (simp_all add: demo_receiver_def demo_abi_def)
  have "rx_apart 0 0 h" for h :: "(unit proto, u8 list, u8 list list) hlink" by (simp add: rx_apart_def)
  then show ?thesis
    using serial_hdlc_begin_ready [where lbuf = 500 and udata = demo_proto and s = serial_new and speed = 115200
        and open_port = "\<lambda>speed. Some (1 :: nat)", OF pre] by blast
qed

end
