(* ===== verification/HdlcSafety.thy ===== *)
theory HdlcSafety
  imports HdlcDuplex
begin

section \<open>The state of a handle stays well formed\<close>

text \<open>
  The calls of \<open>hdlc.c\<close> on one handle in any order, with any received bytes: the handle stays well formed, and the
  library writes nothing outside the buffer that it was given.
\<close>

text \<open>The well-formed states: both directions are, and the frame that is being sent does not lie in the receive buffer.\<close>

definition hdlc_ll_safe :: "'u hdlc_ll \<Rightarrow> bool" where
  "hdlc_ll_safe h \<longleftrightarrow> rx_wf h \<and> rx_state h \<noteq> Read_end \<and> tx_wf h \<and> (\<exists>p n. tx_inside p n h \<and> rx_apart p n h)"

text \<open>The calls on a handle, and what each makes of it.\<close>

datatype ll_call = Put_frame nat nat | Run_tx nat | Run_rx "u8 list" | Reset_ll u8 | Close_ll

fun ll_step :: "ll_call \<Rightarrow> 'u hdlc_ll \<Rightarrow> 'u hdlc_ll" where
  "ll_step (Put_frame data len) h = snd (hdlc_ll_put_frame h data len)"
| "ll_step (Run_tx n) h = snd (hdlc_ll_run_tx h n)"
| "ll_step (Run_rx bs) h = snd (snd (hdlc_ll_run_rx h bs))"
| "ll_step (Reset_ll flags) h = hdlc_ll_reset h flags"
| "ll_step Close_ll h = snd (hdlc_ll_close h)"

text \<open>The frames that are put lie outside the addresses from \<open>lo\<close> to below \<open>hi\<close>.\<close>

fun frame_outside :: "nat \<Rightarrow> int \<Rightarrow> ll_call \<Rightarrow> bool" where
  "frame_outside lo hi (Put_frame data len) = (data + len \<le> lo \<or> hi \<le> int data)"
| "frame_outside lo hi _ = True"

text \<open>What a call leaves alone: the settings, and the memory outside the receive buffer.\<close>

definition ll_frame :: "'u hdlc_ll \<Rightarrow> 'u hdlc_ll \<Rightarrow> bool" where
  "ll_frame h h' \<longleftrightarrow> rx_buf h' = rx_buf h \<and> rx_buf_size h' = rx_buf_size h \<and> crc_type h' = crc_type h \<and> phys_mtu h' = phys_mtu h
     \<and> on_frame_read h' = on_frame_read h \<and> on_frame_send h' = on_frame_send h
     \<and> (\<forall>a. a < rx_buf h \<or> int (rx_buf h) + rx_buf_size h \<le> int a \<longrightarrow> mem h' a = mem h a)"

lemma ll_frame_trans: "ll_frame h h' \<Longrightarrow> ll_frame h' h'' \<Longrightarrow> ll_frame h h''"
  by (simp add: ll_frame_def)

lemma put_frame_safe:
  assumes "hdlc_ll_safe h" "frame_outside (rx_buf h) (int (rx_buf h) + rx_buf_size h) (Put_frame data len)"
  shows "hdlc_ll_safe (ll_step (Put_frame data len) h) \<and> ll_frame h (ll_step (Put_frame data len) h)"
proof (cases "tx_origin h \<noteq> 0 \<or> len = 0 \<or> data = 0")
  case True
  then show ?thesis using assms(1) by (auto simp: hdlc_ll_put_frame_def ll_frame_def)
next
  case False
  define h' where "h' = h\<lparr>tx_origin := data, tx_data := data, tx_len := len\<rparr>"
  have step: "ll_step (Put_frame data len) h = h'" using False by (simp add: hdlc_ll_put_frame_def h'_def)
  have "tx_state h = Send_start" using assms(1) False by (auto simp: hdlc_ll_safe_def tx_wf_def split: tx_fn.splits)
  then have "tx_wf h'" "tx_inside data len h'" using assms(1) False by (simp_all add: hdlc_ll_safe_def tx_wf_def h'_def tx_inside_def)
  moreover have "rx_wf h'" "rx_state h' \<noteq> Read_end" "rx_apart data len h'" "ll_frame h h'"
    using assms by (simp_all add: hdlc_ll_safe_def rx_wf_def h'_def rx_apart_def ll_frame_def)
  ultimately show ?thesis unfolding step hdlc_ll_safe_def by blast
qed

lemma run_tx_safe:
  assumes "hdlc_ll_safe h"
  shows "hdlc_ll_safe (ll_step (Run_tx n) h) \<and> ll_frame h (ll_step (Run_tx n) h)"
proof -
  obtain r h' where run: "hdlc_ll_run_tx h n = (r, h')" by fastforce
  obtain p k where wf: "rx_wf h" "rx_state h \<noteq> Read_end" "tx_wf h" and pk: "tx_inside p k h" "rx_apart p k h"
    using assms by (auto simp: hdlc_ll_safe_def)
  note keep = run_tx_keeps_rx [OF wf(3) pk(1) run] and sp = hdlc_ll_run_tx_spec [OF wf(3) run]
  have "rx_apart p k h'" "rx_state h' \<noteq> Read_end" "ll_frame h h'"
    using keep(1) pk(2) wf(2) sp(7) by (simp_all add: rx_same_def rx_apart_def ll_frame_def)
  then show ?thesis using rx_same_wf(1) [OF keep(1)] wf(1) sp(4) keep(2) run by (auto simp: hdlc_ll_safe_def)
qed

lemma run_rx_safe:
  assumes "hdlc_ll_safe h"
  shows "hdlc_ll_safe (ll_step (Run_rx bs) h) \<and> ll_frame h (ll_step (Run_rx bs) h)"
proof -
  obtain c e h' where run: "hdlc_ll_run_rx h bs = (c, e, h')" by (metis prod_cases3)
  obtain p k where wf: "rx_wf h" "rx_state h \<noteq> Read_end" "tx_wf h" and pk: "tx_inside p k h" "rx_apart p k h"
    using assms by (auto simp: hdlc_ll_safe_def)
  obtain j es where "rx_reads h (take j bs) es h'" using hdlc_ll_run_rx_reads [OF wf(1,2) run] by blast
  then have r: "rx_wf h'" "rx_state h' \<noteq> Read_end" "rx_only h h'" by (simp_all add: rx_reads_def)
  have "ll_frame h h'" using rx_only_fields [OF r(3)] r(3) by (simp add: ll_frame_def rx_only_def)
  then show ?thesis using rx_only_keeps_tx [OF r(3) wf(3) pk] r run by (auto simp: hdlc_ll_safe_def)
qed

lemma safe_keep_tx:
  assumes "hdlc_ll_safe h" "h' = h\<lparr>rx_state := s, user_data := u\<rparr>" "s = Read_start \<or> s = rx_state h"
  shows "hdlc_ll_safe h' \<and> ll_frame h h'"
proof -
  obtain p n where pn: "tx_inside p n h" "rx_apart p n h" using assms(1) by (auto simp: hdlc_ll_safe_def)
  have "tx_inside p n h'" "rx_apart p n h'" "ll_frame h h'" using pn assms(2) by (simp_all add: tx_inside_def rx_apart_def ll_frame_def)
  moreover have "rx_wf h'" "rx_state h' \<noteq> Read_end" using assms by (auto simp: hdlc_ll_safe_def rx_wf_def)
  moreover have "tx_wf h'" using assms(1) unfolding assms(2) hdlc_ll_safe_def tx_wf_def by (cases "tx_state h") simp_all
  ultimately show ?thesis unfolding hdlc_ll_safe_def by blast
qed

lemma safe_tx_reset:
  assumes "hdlc_ll_safe h" "h' = h\<lparr>tx_data := 0, tx_origin := 0, tx_escape := False, tx_state := Send_start\<rparr>"
  shows "hdlc_ll_safe h' \<and> ll_frame h h'"
proof -
  have "tx_inside 0 0 h'" "rx_apart 0 0 h'" "ll_frame h h'" using assms(2) by (simp_all add: tx_inside_def rx_apart_def ll_frame_def)
  moreover have "rx_wf h'" "rx_state h' \<noteq> Read_end" "tx_wf h'" using assms by (simp_all add: hdlc_ll_safe_def rx_wf_def tx_wf_def)
  ultimately show ?thesis unfolding hdlc_ll_safe_def by blast
qed

lemma reset_safe:
  assumes "hdlc_ll_safe h"
  shows "hdlc_ll_safe (ll_step (Reset_ll flags) h) \<and> ll_frame h (ll_step (Reset_ll flags) h)"
proof -
  define h1 where "h1 = (if flags \<noteq> HDLC_LL_RESET_TX_ONLY then h\<lparr>rx_state := Read_start\<rparr> else h)"
  have h1: "hdlc_ll_safe h1 \<and> ll_frame h h1"
    using safe_keep_tx [OF assms, where s = Read_start and u = "user_data h"] safe_keep_tx [OF assms, where s = "rx_state h" and u = "user_data h"] by (simp add: h1_def)
  show ?thesis using h1 safe_tx_reset [of h1] ll_frame_trans [of h h1] by (simp add: hdlc_ll_reset_def Let_def flip: h1_def)
qed

lemma close_safe:
  assumes "hdlc_ll_safe h"
  shows "hdlc_ll_safe (ll_step Close_ll h) \<and> ll_frame h (ll_step Close_ll h)"
proof -
  have "\<exists>u. ll_step Close_ll h = h\<lparr>rx_state := rx_state h, user_data := u\<rparr>"
    by (cases "on_frame_send h") (auto simp: hdlc_ll_close_def intro: exI [of _ "user_data h"])
  then show ?thesis using safe_keep_tx [OF assms] by blast
qed

lemma ll_step_safe:
  assumes "hdlc_ll_safe h" "frame_outside (rx_buf h) (int (rx_buf h) + rx_buf_size h) c"
  shows "hdlc_ll_safe (ll_step c h) \<and> ll_frame h (ll_step c h)"
  using assms put_frame_safe run_tx_safe run_rx_safe reset_safe close_safe by (cases c) blast+

lemma ll_steps_safe:
  assumes "hdlc_ll_safe h" "\<forall>c \<in> set cs. frame_outside (rx_buf h) (int (rx_buf h) + rx_buf_size h) c"
  shows "hdlc_ll_safe (fold ll_step cs h) \<and> ll_frame h (fold ll_step cs h)"
  using assms
proof (induction cs arbitrary: h)
  case Nil
  then show ?case by (simp add: ll_frame_def)
next
  case (Cons c cs)
  have step: "hdlc_ll_safe (ll_step c h)" "ll_frame h (ll_step c h)" using ll_step_safe [OF Cons.prems(1)] Cons.prems(2) by simp_all
  then have "hdlc_ll_safe (fold ll_step cs (ll_step c h)) \<and> ll_frame (ll_step c h) (fold ll_step cs (ll_step c h))"
    using Cons.IH [OF step(1)] Cons.prems(2) by (simp add: ll_frame_def)
  then show ?case using ll_frame_trans [OF step(2)] by simp
qed

lemma frame_outside_mono: "frame_outside lo hi c \<Longrightarrow> lo \<le> lo' \<Longrightarrow> hi' \<le> hi \<Longrightarrow> frame_outside lo' hi' c"
  by (cases c) auto

text \<open>
  C13: A handle that \<open>hdlc_ll_init\<close> has made in a buffer of the size of \<open>hdlc_ll_get_buf_size\<close> stays well formed through any sequence of
  calls, whatever bytes are received, in any chunks, whatever is put while a frame is pending, and with resets at
  any moment: the receiver's pointers stay inside its buffer, no frame is left half processed, and the transmitter is in a state that
  belongs to a frame. No byte outside the buffer of the application is ever written, and the settings stay. The frames that are
  sent lie outside that buffer.
\<close>

theorem hdlc_ll_stays_well_formed:
  assumes "0 < align_struct abi" "init_buf init \<noteq> 0" "0 < init_mtu init"
    and "hdlc_ll_get_buf_size abi (init_mtu init) \<le> init_buf_size init"
    and "hdlc_ll_init abi init h0 = Inr h"
    and "\<forall>c \<in> set calls. frame_outside (init_buf init) (int (init_buf init) + init_buf_size init) c"
  defines "h' \<equiv> fold ll_step calls h"
  shows "rx_wf h' \<and> tx_wf h' \<and> rx_state h' \<noteq> Read_end \<and> crc_type h' = crc_type h \<and> phys_mtu h' = phys_mtu h
    \<and> (\<forall>a. a < init_buf init \<or> int (init_buf init) + init_buf_size init \<le> int a \<longrightarrow> mem h' a = mem h0 a)"
proof -
  have r: "rx_wf h" "rx_view h = Hunting" "tx_wf h" "tx_origin h = 0" "init_buf init \<le> rx_buf h"
    "int (rx_buf h) + rx_buf_size h = int (init_buf init) + init_buf_size init"
    using hdlc_ll_init_ready [OF assms(1-4), of h0] assms(5) by auto
  have m: "mem h = mem h0" using assms(5) by (auto simp: hdlc_ll_init_def Let_def hdlc_ll_reset_def split: if_splits)
  have "rx_state h \<noteq> Read_end" using r(2) by (auto simp: rx_view_def split: if_splits)
  moreover have "tx_inside 0 0 h" "rx_apart 0 0 h" using r(4) by (simp_all add: tx_inside_def rx_apart_def)
  ultimately have safe: "hdlc_ll_safe h" using r(1,3) by (auto simp: hdlc_ll_safe_def)
  have "\<forall>c \<in> set calls. frame_outside (rx_buf h) (int (rx_buf h) + rx_buf_size h) c"
    using assms(6) frame_outside_mono [OF _ r(5) order_refl] unfolding r(6) by blast
  from ll_steps_safe [OF safe this] have "hdlc_ll_safe h'" "ll_frame h h'" by (simp_all add: h'_def)
  then show ?thesis using r(5,6) m by (simp add: hdlc_ll_safe_def ll_frame_def)
qed

theorem hdlc_ll_stays_well_formed_witness:
  defines "init \<equiv> \<lparr>init_on_frame_read = Some (\<lambda>u f. u @ [f]), init_on_frame_send = None, init_buf = 1001,
       init_buf_size = 139, init_crc_type = HDLC_CRC_16, init_user_data = [], init_mtu = 16\<rparr>"
    and "calls \<equiv> [Put_frame 16 3, Run_tx 2, Run_rx (replicate 300 0x7D @ [0x7E]), Reset_ll 2, Put_frame 40 5, Run_rx [0x7E, 1, 2, 3, 0x7E], Run_tx 9, Close_ll]"
  shows "\<exists>h. hdlc_ll_init demo_abi init demo_ll = Inr h \<and> rx_wf (fold ll_step calls h) \<and> mem (fold ll_step calls h) 1000 = mem demo_ll 1000"
proof -
  have pre: "0 < align_struct demo_abi" "init_buf init \<noteq> 0" "0 < init_mtu init" "hdlc_ll_get_buf_size demo_abi (init_mtu init) \<le> init_buf_size init"
    "init_buf init = 1001" by (simp_all add: init_def demo_abi_def hdlc_ll_get_buf_size_def get_crc_field_size_def)
  obtain h where h: "hdlc_ll_init demo_abi init demo_ll = Inr h" using hdlc_ll_init_ready [OF pre(1-4), of demo_ll] by blast
  have "\<forall>c \<in> set calls. frame_outside (init_buf init) (int (init_buf init) + init_buf_size init) c" by (simp add: calls_def init_def)
  from hdlc_ll_stays_well_formed [OF pre(1-4) h this] show ?thesis using h pre(5) by auto
qed

end
