(* ===== verification/HdlcHighLevel.thy ===== *)
theory HdlcHighLevel
  imports HdlcFraming HalEvents LineDevice
begin

unbundle bit_operations_syntax

section \<open>The HDLC protocol without acknowledgement: src/proto/hdlc/high_level/hdlc.c\<close>

text \<open>
  The low level with the callbacks of the application around it, and events for the calls that block.
  \<^item> A handle is the low level whose \<open>user_data\<close> is the structure of this layer, as \<open>hdlc_init\<close> sets it up; the
    state of the application, \<open>'d\<close>, is a field of that structure, and its callbacks are functions on it.
  \<^item> A call that blocks in \<open>tiny_events_wait\<close> lets other threads run; what they do is the argument \<open>env\<close>.
  \<^item> The loops that need not end give an \<open>option\<close>: \<open>None\<close> when the call does not return. Both have a buffer
    of one byte.
  \<^item> The handle is not \<open>NULL\<close>; a pointer with a length is an address in the memory of the low level, or for
    received data a list of bytes. Null checks on callbacks are kept.
\<close>

subsection \<open>Data\<close>

definition TX_ACCEPT_BIT :: u8 where "TX_ACCEPT_BIT = 0x01"
definition TX_DATA_READY_BIT :: u8 where "TX_DATA_READY_BIT = 0x02"
definition TX_DATA_SENT_BIT :: u8 where "TX_DATA_SENT_BIT = 0x04"
definition RX_DATA_READY_BIT :: u8 where "RX_DATA_READY_BIT = 0x08"

lemmas hl_event_defs = TX_ACCEPT_BIT_def TX_DATA_READY_BIT_def TX_DATA_SENT_BIT_def RX_DATA_READY_BIT_def

record 'd hdlc_struct =
  hl_send_tx :: "'d write_block option"
  hl_on_frame_read :: "('d \<Rightarrow> u8 list \<Rightarrow> 'd) option"
  hl_on_frame_send :: "('d \<Rightarrow> u8 list \<Rightarrow> 'd) option"
  hl_rx_buf :: nat
  hl_rx_buf_size :: int
  hl_crc_type :: hdlc_crc_t
  hl_multithread_mode :: bool
  hl_user_data :: 'd
  hl_events :: u8
  hl_rx_len :: int
  hl_clock :: "nat \<Rightarrow> u32"
  hl_ticks :: nat

type_synonym 'd hdlc = "'d hdlc_struct hdlc_ll"

abbreviation upd_hl :: "('d hdlc_struct \<Rightarrow> 'd hdlc_struct) \<Rightarrow> 'd hdlc \<Rightarrow> 'd hdlc" where
  "upd_hl f h \<equiv> h\<lparr>user_data := f (user_data h)\<rparr>"

definition hl_set_events :: "u8 \<Rightarrow> 'd hdlc_struct \<Rightarrow> 'd hdlc_struct" where
  "hl_set_events bits s = s\<lparr>hl_events := tiny_events_set (hl_events s) bits\<rparr>"

definition hl_clear_events :: "u8 \<Rightarrow> 'd hdlc_struct \<Rightarrow> 'd hdlc_struct" where
  "hl_clear_events bits s = s\<lparr>hl_events := tiny_events_clear (hl_events s) bits\<rparr>"

definition hl_wait_events :: "('d hdlc \<Rightarrow> 'd hdlc) \<Rightarrow> u32 \<Rightarrow> u8 \<Rightarrow> 'd hdlc \<Rightarrow> u8 \<times> 'd hdlc" where
  "hl_wait_events env timeout bits h =
     (let h = (if hl_events (user_data h) AND bits = 0 \<and> timeout \<noteq> 0 then env h else h);
          (r, e) = tiny_events_wait (hl_events (user_data h)) bits True
      in (r, upd_hl (\<lambda>s. s\<lparr>hl_events := e\<rparr>) h))"

definition hl_millis :: "'d hdlc \<Rightarrow> u32 \<times> 'd hdlc" where
  "hl_millis h = (hl_clock (user_data h) (hl_ticks (user_data h)), upd_hl (\<lambda>s. s\<lparr>hl_ticks := hl_ticks s + 1\<rparr>) h)"

subsection \<open>Callbacks\<close>

definition hl_frame_sent :: "'d hdlc_struct \<Rightarrow> nat \<Rightarrow> u8 list \<Rightarrow> 'd hdlc_struct" where
  "hl_frame_sent s p data =
     (let s = (case hl_on_frame_send s of None \<Rightarrow> s | Some f \<Rightarrow> s\<lparr>hl_user_data := f (hl_user_data s) data\<rparr>)
      in hl_set_events TX_ACCEPT_BIT (hl_set_events TX_DATA_SENT_BIT s))"

definition hl_frame_read :: "'d hdlc_struct \<Rightarrow> u8 list \<Rightarrow> 'd hdlc_struct" where
  "hl_frame_read s data =
     (let s = (case hl_on_frame_read s of None \<Rightarrow> s | Some f \<Rightarrow> s\<lparr>hl_user_data := f (hl_user_data s) data\<rparr>)
      in hl_set_events RX_DATA_READY_BIT (s\<lparr>hl_rx_len := int (length data)\<rparr>))"

subsection \<open>Starting, resetting, closing\<close>

definition hdlc_reset :: "'d hdlc \<Rightarrow> 'd hdlc" where
  "hdlc_reset h = upd_hl (\<lambda>s. hl_set_events TX_ACCEPT_BIT (hl_clear_events 0xFF s)) (hdlc_ll_reset h HDLC_LL_RESET_BOTH)"

text \<open>\<open>h0\<close> is what the memory of the low level structure held before; \<open>None\<close> is the null handle.\<close>

definition hdlc_init :: "c_abi \<Rightarrow> 'd hdlc_struct \<Rightarrow> 'd hdlc \<Rightarrow> 'd hdlc option" where
  "hdlc_init abi s h0 =
     (case hdlc_ll_init abi \<lparr>init_on_frame_read = Some hl_frame_read, init_on_frame_send = Some hl_frame_sent,
             init_buf = hl_rx_buf s, init_buf_size = hl_rx_buf_size s, init_crc_type = hl_crc_type s,
             init_user_data = s, init_mtu = 0\<rparr> h0 of
        Inl err \<Rightarrow> None
      | Inr h \<Rightarrow> Some (hdlc_reset (upd_hl (\<lambda>s. hl_set_events TX_ACCEPT_BIT (s\<lparr>hl_events := 0\<rparr>)) h)))"

definition hdlc_close :: "'d hdlc \<Rightarrow> int \<times> 'd hdlc" where
  "hdlc_close h = (0, snd (hdlc_ll_close h))"

subsection \<open>Sending\<close>

definition hdlc_send_terminate :: "'d hdlc \<Rightarrow> 'd hdlc" where
  "hdlc_send_terminate h =
     upd_hl (hl_set_events TX_ACCEPT_BIT) (hdlc_ll_reset (upd_hl (hl_clear_events TX_DATA_READY_BIT) h) HDLC_LL_RESET_TX_ONLY)"

text \<open>The loop that hands the bytes of the buffer to \<open>send_tx\<close>: what is left, or the error, and what was taken.\<close>

partial_function (option) hl_write_loop ::
  "'d write_block \<Rightarrow> u8 list \<Rightarrow> int \<Rightarrow> int \<Rightarrow> 'd hdlc \<Rightarrow> (int \<times> int \<times> 'd hdlc) option" where
  "hl_write_loop send_tx buf left taken h =
     (if left > 0 then
        case send_tx (hl_user_data (user_data h)) (take (nat left) buf) of (temp, d) \<Rightarrow>
          if temp < 0 then Some (temp, taken, upd_hl (\<lambda>s. s\<lparr>hl_user_data := d\<rparr>) h)
          else hl_write_loop send_tx buf (left - temp) (taken + temp) (upd_hl (\<lambda>s. s\<lparr>hl_user_data := d\<rparr>) h)
      else Some (left, taken, h))"

partial_function (option) hdlc_run_tx_loop :: "'d write_block \<Rightarrow> int \<Rightarrow> 'd hdlc \<Rightarrow> (int \<times> 'd hdlc) option" where
  "hdlc_run_tx_loop send_tx result h =
     (case hdlc_ll_run_tx h 1 of (temp_result, h) \<Rightarrow>
        Option.bind (hl_write_loop send_tx (tx_out h) temp_result result h) (\<lambda>(temp_result, result, h).
          if temp_result \<le> 0 then Some (if result \<noteq> 0 then result else temp_result, h)
          else hdlc_run_tx_loop send_tx result h))"

definition hdlc_run_tx :: "'d write_block \<Rightarrow> 'd hdlc \<Rightarrow> (int \<times> 'd hdlc) option" where
  "hdlc_run_tx send_tx h = hdlc_run_tx_loop send_tx 0 h"

definition hdlc_get_tx_data :: "'d hdlc \<Rightarrow> int \<Rightarrow> int \<times> 'd hdlc" where
  "hdlc_get_tx_data h len = (if len < 0 then (TINY_ERR_INVALID_DATA, h) else hdlc_ll_run_tx h (nat len))"

partial_function (option) hdlc_until_sent_loop :: "'d write_block \<Rightarrow> u32 \<Rightarrow> u32 \<Rightarrow> 'd hdlc \<Rightarrow> (int \<times> 'd hdlc) option" where
  "hdlc_until_sent_loop send_tx ts timeout h =
     (case hdlc_ll_run_tx h 1 of (result, h) \<Rightarrow>
        Option.bind (hl_write_loop send_tx (tx_out h) result 0 h) (\<lambda>(result, taken, h).
          if result < 0 then Some (result, hdlc_send_terminate h)
          else case hl_wait_events (\<lambda>h. h) 0 TX_DATA_SENT_BIT h of (bits, h) \<Rightarrow>
            if bits \<noteq> 0 then Some (TINY_SUCCESS, h)
            else case hl_millis h of (now, h) \<Rightarrow>
              if now - ts \<ge> timeout \<and> timeout \<noteq> 0xFFFFFFFF then Some (TINY_ERR_TIMEOUT, hdlc_send_terminate h)
              else hdlc_until_sent_loop send_tx ts timeout h))"

definition hdlc_run_tx_until_sent :: "'d hdlc \<Rightarrow> u32 \<Rightarrow> (int \<times> 'd hdlc) option" where
  "hdlc_run_tx_until_sent h timeout =
     (case hl_send_tx (user_data h) of
        None \<Rightarrow> Some (TINY_ERR_INVALID_DATA, h)
      | Some send_tx \<Rightarrow> (case hl_millis h of (ts, h) \<Rightarrow> hdlc_until_sent_loop send_tx ts timeout h))"

text \<open>The data is at address \<open>data\<close>; 0 is the null pointer.\<close>

definition hdlc_put :: "('d hdlc \<Rightarrow> 'd hdlc) \<Rightarrow> 'd hdlc \<Rightarrow> nat \<Rightarrow> int \<Rightarrow> u32 \<Rightarrow> int \<times> 'd hdlc" where
  "hdlc_put env h data len timeout =
     (if len \<le> 0 \<or> data = 0 then (TINY_ERR_INVALID_DATA, h)
      else case hl_wait_events env timeout TX_ACCEPT_BIT h of (bits, h) \<Rightarrow>
        if bits = 0 then (TINY_ERR_TIMEOUT, h)
        else (TINY_SUCCESS, upd_hl (hl_set_events TX_DATA_READY_BIT) (snd (hdlc_ll_put_frame h data (nat len)))))"

definition hdlc_send :: "('d hdlc \<Rightarrow> 'd hdlc) \<Rightarrow> ('d hdlc \<Rightarrow> 'd hdlc) \<Rightarrow> 'd hdlc \<Rightarrow> nat \<Rightarrow> int \<Rightarrow> u32 \<Rightarrow> (int \<times> 'd hdlc) option" where
  "hdlc_send env1 env2 h data len timeout =
     (if len < 0 then Some (TINY_ERR_INVALID_DATA, h)
      else case (if data \<noteq> 0 then hdlc_put env1 h data len timeout else (TINY_SUCCESS, h)) of (result, h) \<Rightarrow>
        let result = (if data \<noteq> 0 \<and> result = TINY_ERR_TIMEOUT then TINY_ERR_BUSY else result)
        in if result \<ge> 0 \<and> timeout \<noteq> 0 then
             if hl_multithread_mode (user_data h) then
               case hl_wait_events env2 timeout TX_DATA_SENT_BIT h of (bits, h) \<Rightarrow>
                 Some (if bits = 0 then TINY_ERR_TIMEOUT else TINY_SUCCESS, h)
             else hdlc_run_tx_until_sent h timeout
           else Some (result, h))"

subsection \<open>Receiving\<close>

text \<open>The number of processed bytes, the error, and the new state.\<close>

definition hdlc_run_rx :: "'d hdlc \<Rightarrow> u8 list \<Rightarrow> int \<times> int \<times> 'd hdlc" where
  "hdlc_run_rx h data = hdlc_ll_run_rx h data"

subsection \<open>One byte at a time\<close>

abbreviation set_user :: "'d \<Rightarrow> 'd hdlc \<Rightarrow> 'd hdlc" where
  "set_user d h \<equiv> upd_hl (\<lambda>s. s\<lparr>hl_user_data := d\<rparr>) h"

lemma hl_write_one:
  assumes "takes w d (b # bs) d'" "hl_user_data (user_data h) = d"
  shows "\<exists>d1. hl_write_loop w [b] 1 t h = Some (0, t + 1, set_user d1 h) \<and> takes w d1 bs d'"
  using assms
proof (induction d "b # bs" d' arbitrary: h rule: takes.induct)
  case (takes_byte d d1 d')
  have "hl_write_loop w [b] 1 t h = Some (0, t + 1, set_user d1 h)"
    using takes_byte(1,4) by (subst hl_write_loop.simps) (simp add: hl_write_loop.simps [of w "[b]" 0])
  then show ?case using takes_byte(2) by blast
next
  case (takes_busy d d1 d')
  have loop: "hl_write_loop w [b] 1 t h = hl_write_loop w [b] 1 t (set_user d1 h)"
    using takes_busy(1,4) by (subst hl_write_loop.simps) simp
  obtain d2 where "hl_write_loop w [b] 1 t (set_user d1 h) = Some (0, t + 1, set_user d2 (set_user d1 h))" "takes w d2 bs d'"
    using takes_busy(3) [of "set_user d1 h"] by auto
  then show ?case unfolding loop by auto
qed

text \<open>
  \<open>hdlc_run_tx\<close> never goes round its loop: after one byte nothing is left of the buffer, and that ends the
  call. It hands over the next byte of the frame that is being sent.
\<close>

lemma hdlc_run_tx_one_byte:
  assumes "tx_wf h" "tx_remaining h = b # bs" "hl_user_data (user_data (snd (hdlc_ll_run_tx h 1))) = d" "takes w d [b] d1"
  shows "\<exists>h'. hdlc_run_tx w h = Some (1, h') \<and> tx_wf h' \<and> tx_remaining h' = bs \<and> hl_user_data (user_data h') = d1"
proof -
  obtain n h1 where run: "hdlc_ll_run_tx h 1 = (n, h1)" by fastforce
  note sp = hdlc_ll_run_tx_spec [OF assms(1) run, unfolded assms(2)]
  obtain d2 where w: "hl_write_loop w [b] 1 0 h1 = Some (0, 1, set_user d2 h1)" "takes w d2 [] d1"
    using hl_write_one [OF assms(4), of h1 0] assms(3) run by auto
  have "d2 = d1" using w(2) by (cases rule: takes.cases) simp_all
  then have "hdlc_run_tx w h = Some (1, set_user d1 h1)"
    unfolding hdlc_run_tx_def using w(1) run sp(1,2) by (subst hdlc_run_tx_loop.simps) simp
  then show ?thesis using sp(3,4) by (intro exI [of _ "set_user d1 h1"]) simp
qed

subsection \<open>Sending a frame\<close>

definition hl_in_time :: "u32 \<Rightarrow> u32 \<Rightarrow> 'd hdlc_struct \<Rightarrow> bool" where
  "hl_in_time ts timeout s \<longleftrightarrow> timeout = 0xFFFFFFFF \<or> (\<forall>k \<ge> hl_ticks s. hl_clock s k - ts < timeout)"

text \<open>The state of this layer after some bytes: the application's state and the clock have moved.\<close>

abbreviation hl_later :: "nat \<Rightarrow> 'd \<Rightarrow> 'd hdlc_struct \<Rightarrow> 'd hdlc_struct" where
  "hl_later k d s \<equiv> s\<lparr>hl_user_data := d, hl_ticks := hl_ticks s + k\<rparr>"

lemma until_sent_bytes:
  assumes "tx_wf h" "tx_remaining h = bs @ rest" "rest \<noteq> []" "takes w (hl_user_data (user_data h)) bs d'"
    and "hl_events (user_data h) AND TX_DATA_SENT_BIT = 0" "hl_in_time ts timeout (user_data h)"
  shows "\<exists>k h'. hdlc_until_sent_loop w ts timeout h = hdlc_until_sent_loop w ts timeout h' \<and> tx_wf h' \<and> tx_remaining h' = rest
    \<and> user_data h' = hl_later k d' (user_data h) \<and> mem h' = mem h \<and> on_frame_send h' = on_frame_send h"
  using assms
proof (induction bs arbitrary: h)
  case Nil
  then have "d' = hl_user_data (user_data h)" by (auto elim: takes_NilE)
  then show ?case using Nil by (intro exI [of _ 0] exI [of _ h]) simp
next
  case (Cons b bs)
  obtain n h1 where run: "hdlc_ll_run_tx h 1 = (n, h1)" by fastforce
  note sp = hdlc_ll_run_tx_spec [OF Cons.prems(1) run, unfolded Cons.prems(2)]
  have rem: "tx_remaining h1 = bs @ rest" "tx_remaining h1 \<noteq> []" using sp(3) Cons.prems(3) by simp_all
  have u1: "user_data h1 = user_data h" using sp(9) rem by simp
  obtain d1 where w: "hl_write_loop w [b] 1 0 h1 = Some (0, 1, set_user d1 h1)" "takes w d1 bs d'"
    using hl_write_one [OF Cons.prems(4), of h1 0] u1 by auto
  define h2 where "h2 = h1\<lparr>user_data := hl_later 1 d1 (user_data h1)\<rparr>"
  have early: "\<not> (hl_clock (user_data h) (hl_ticks (user_data h)) - ts \<ge> timeout \<and> timeout \<noteq> 0xFFFFFFFF)"
    using Cons.prems(6) by (auto simp: hl_in_time_def not_le)
  have loop: "hdlc_until_sent_loop w ts timeout h = hdlc_until_sent_loop w ts timeout h2"
    using run sp(1,2) w(1) Cons.prems(5) early
    by (subst hdlc_until_sent_loop.simps) (auto simp: hl_wait_events_def tiny_events_wait_def hl_millis_def u1 h2_def)
  have h2: "tx_wf h2" "tx_remaining h2 = bs @ rest" "takes w (hl_user_data (user_data h2)) bs d'"
    "hl_events (user_data h2) AND TX_DATA_SENT_BIT = 0" "hl_in_time ts timeout (user_data h2)"
    using sp(4) rem w(2) Cons.prems(5,6) by (auto simp: h2_def u1 hl_in_time_def)
  from Cons.IH [OF h2(1,2) Cons.prems(3) h2(3-5)] obtain k h' where h': "hdlc_until_sent_loop w ts timeout h2 = hdlc_until_sent_loop w ts timeout h'"
    "tx_wf h'" "tx_remaining h' = rest" "user_data h' = hl_later k d' (user_data h2)" "mem h' = mem h2" "on_frame_send h' = on_frame_send h2"
    by blast
  show ?case unfolding loop
    by (rule exI [of _ "1 + k"], rule exI [of _ h']) (use h' in \<open>simp add: h2_def u1 sp(5,7)\<close>)
qed

lemma hl_bits:
  "(x AND NOT TX_DATA_SENT_BIT) AND TX_DATA_SENT_BIT = 0" "(x AND NOT TX_DATA_SENT_BIT) AND TX_ACCEPT_BIT = x AND TX_ACCEPT_BIT"
  "((x OR TX_DATA_SENT_BIT) OR TX_ACCEPT_BIT) AND TX_DATA_SENT_BIT = TX_DATA_SENT_BIT"
  "((x OR TX_DATA_SENT_BIT) OR TX_ACCEPT_BIT) AND TX_ACCEPT_BIT = TX_ACCEPT_BIT"
  "(x AND NOT TX_ACCEPT_BIT) AND TX_DATA_SENT_BIT = x AND TX_DATA_SENT_BIT" "(x AND NOT TX_ACCEPT_BIT) AND TX_ACCEPT_BIT = 0"
  "(x OR TX_DATA_READY_BIT) AND TX_DATA_SENT_BIT = x AND TX_DATA_SENT_BIT" "(x OR TX_DATA_READY_BIT) AND TX_ACCEPT_BIT = x AND TX_ACCEPT_BIT"
proof -
  have bits: "n \<in> {0, 1, 2, 3, 4, 5, 6, 7}" if "n < LENGTH(8)" for n :: nat using that by auto
  show "(x AND NOT TX_DATA_SENT_BIT) AND TX_DATA_SENT_BIT = 0" "(x AND NOT TX_DATA_SENT_BIT) AND TX_ACCEPT_BIT = x AND TX_ACCEPT_BIT"
    "((x OR TX_DATA_SENT_BIT) OR TX_ACCEPT_BIT) AND TX_DATA_SENT_BIT = TX_DATA_SENT_BIT"
    "((x OR TX_DATA_SENT_BIT) OR TX_ACCEPT_BIT) AND TX_ACCEPT_BIT = TX_ACCEPT_BIT"
    "(x AND NOT TX_ACCEPT_BIT) AND TX_DATA_SENT_BIT = x AND TX_DATA_SENT_BIT" "(x AND NOT TX_ACCEPT_BIT) AND TX_ACCEPT_BIT = 0"
    "(x OR TX_DATA_READY_BIT) AND TX_DATA_SENT_BIT = x AND TX_DATA_SENT_BIT" "(x OR TX_DATA_READY_BIT) AND TX_ACCEPT_BIT = x AND TX_ACCEPT_BIT"
    by (rule bit_word_eqI, drule bits, auto simp: hl_event_defs bit_and_iff bit_or_iff bit_not_iff)+
qed

lemma hl_bits_nonzero: "TX_DATA_SENT_BIT \<noteq> 0" "TX_ACCEPT_BIT \<noteq> 0"
  by (simp_all add: hl_event_defs)

text \<open>The last byte: the callback of the low level sets the bits, and the loop ends.\<close>

lemma until_sent_ends:
  assumes "tx_wf h" "tx_remaining h = b # bs" "takes w (hl_user_data (user_data h)) [b] d'"
    and "on_frame_send h = Some hl_frame_sent" "hl_on_frame_send (user_data h) = None"
    and "bs = [] \<or> hl_events (user_data h) AND TX_DATA_SENT_BIT \<noteq> 0"
  shows "\<exists>h'. hdlc_until_sent_loop w ts timeout h = Some (TINY_SUCCESS, h') \<and> hl_user_data (user_data h') = d' \<and> tx_wf h'
    \<and> tx_remaining h' = bs \<and> hl_events (user_data h') AND TX_DATA_SENT_BIT = 0
    \<and> hl_events (user_data h') AND TX_ACCEPT_BIT = (if bs = [] then TX_ACCEPT_BIT else hl_events (user_data h) AND TX_ACCEPT_BIT)"
proof -
  obtain n h1 where run: "hdlc_ll_run_tx h 1 = (n, h1)" by fastforce
  note sp = hdlc_ll_run_tx_spec [OF assms(1) run, unfolded assms(2)]
  have u1: "user_data h1 = (if bs = [] then hl_set_events TX_ACCEPT_BIT (hl_set_events TX_DATA_SENT_BIT (user_data h)) else user_data h)"
    using sp(3,8,9) assms(4,5) by (auto simp: tx_notify_def hl_frame_sent_def)
  have d: "hl_user_data (user_data h1) = hl_user_data (user_data h)" by (simp add: u1 hl_set_events_def)
  obtain d2 where w: "hl_write_loop w [b] 1 0 h1 = Some (0, 1, set_user d2 h1)" "takes w d2 [] d'"
    using hl_write_one [OF assms(3), of h1 0] d by auto
  have "d2 = d'" using w(2) by (cases rule: takes.cases) simp_all
  define h2 where "h2 = set_user d' h1"
  define e where "e = hl_events (user_data h2)"
  have e: "e = (if bs = [] then (hl_events (user_data h) OR TX_DATA_SENT_BIT) OR TX_ACCEPT_BIT else hl_events (user_data h))"
    by (simp add: e_def h2_def u1 hl_set_events_def event_ops)
  have sent: "e AND TX_DATA_SENT_BIT \<noteq> 0" using assms(6) by (auto simp: e hl_bits hl_bits_nonzero)
  define h3 where "h3 = upd_hl (\<lambda>s. s\<lparr>hl_events := e AND NOT TX_DATA_SENT_BIT\<rparr>) h2"
  have "e \<noteq> 0" using sent by auto
  then have "hdlc_until_sent_loop w ts timeout h = Some (TINY_SUCCESS, h3)"
    using run sp(1,2) w(1) \<open>d2 = d'\<close> sent
    by (subst hdlc_until_sent_loop.simps) (simp add: hl_wait_events_def tiny_events_wait_def h3_def flip: h2_def e_def)
  moreover have "tx_wf h3" "tx_remaining h3 = bs" "hl_user_data (user_data h3) = d'"
    using sp(3,4) by (simp_all add: h3_def h2_def)
  moreover have "hl_events (user_data h3) AND TX_DATA_SENT_BIT = 0"
    "hl_events (user_data h3) AND TX_ACCEPT_BIT = (if bs = [] then TX_ACCEPT_BIT else hl_events (user_data h) AND TX_ACCEPT_BIT)"
    by (simp_all add: h3_def hl_bits) (simp add: e hl_bits)
  ultimately show ?thesis by blast
qed

text \<open>
  \<open>hdlc_put\<close> on a handle that accepts a frame: it does not wait, so no other thread runs.
\<close>

lemma hdlc_put_accepted:
  assumes "0 < n" "p \<noteq> 0" "hl_events (user_data h) AND TX_ACCEPT_BIT \<noteq> 0"
  obtains h0 where "h0 = upd_hl (hl_clear_events TX_ACCEPT_BIT) h"
    "hdlc_put env h p (int n) timeout = (TINY_SUCCESS, upd_hl (hl_set_events TX_DATA_READY_BIT) (snd (hdlc_ll_put_frame h0 p n)))"
proof -
  have "hl_events (user_data h) \<noteq> 0" using assms(3) by auto
  then show ?thesis using assms that [OF refl]
    by (simp add: hdlc_put_def hl_wait_events_def tiny_events_wait_def hl_clear_events_def event_ops)
qed

lemma hdlc_send_starts:
  assumes "tx_wf h" "tx_origin h = 0" "p \<noteq> 0" "0 < n" "hl_events (user_data h) AND TX_ACCEPT_BIT \<noteq> 0"
    and "timeout \<noteq> 0" "\<not> hl_multithread_mode (user_data h)" "hl_send_tx (user_data h) = Some w"
  obtains h1 e where "hdlc_send env1 env2 h p (int n) timeout
      = hdlc_until_sent_loop w (hl_clock (user_data h) (hl_ticks (user_data h))) timeout h1"
    "tx_wf h1" "tx_remaining h1 = hdlc_encode (crc_type h) (bytes_at (mem h) p n)" "on_frame_send h1 = on_frame_send h"
    "user_data h1 = (user_data h)\<lparr>hl_events := e, hl_ticks := hl_ticks (user_data h) + 1\<rparr>"
    "e AND TX_DATA_SENT_BIT = hl_events (user_data h) AND TX_DATA_SENT_BIT"
    "e AND TX_ACCEPT_BIT = 0"
proof -
  obtain h0 where h0: "h0 = upd_hl (hl_clear_events TX_ACCEPT_BIT) h"
    "hdlc_put env1 h p (int n) timeout = (TINY_SUCCESS, upd_hl (hl_set_events TX_DATA_READY_BIT) (snd (hdlc_ll_put_frame h0 p n)))"
    using hdlc_put_accepted [OF assms(4,3,5)] by blast
  obtain e h2 where put: "hdlc_ll_put_frame h0 p n = (e, h2)" by fastforce
  have st: "tx_state h0 = Send_start" "tx_origin h0 = 0" "crc_type h0 \<noteq> HDLC_CRC_OFF"
    using assms(1,2) by (auto simp: h0(1) tx_wf_def split: tx_fn.splits)
  note ready = put_frame_ready [OF st assms(3,4) put]
  define h1 where "h1 = upd_hl (\<lambda>s. s\<lparr>hl_ticks := hl_ticks s + 1\<rparr>) (upd_hl (hl_set_events TX_DATA_READY_BIT) h2)"
  obtain e where e: "e = (hl_events (user_data h) AND NOT TX_ACCEPT_BIT) OR TX_DATA_READY_BIT" by blast
  have s2: "user_data h2 = hl_clear_events TX_ACCEPT_BIT (user_data h)" using ready(3) by (simp add: h0(1))
  have "hdlc_send env1 env2 h p (int n) timeout
      = hdlc_until_sent_loop w (hl_clock (user_data h) (hl_ticks (user_data h))) timeout h1"
    using assms(3,6-8) put
    by (simp add: hdlc_send_def h0(2) hdlc_run_tx_until_sent_def hl_millis_def h1_def s2 hl_set_events_def hl_clear_events_def)
  moreover have "user_data h1 = (user_data h)\<lparr>hl_events := e, hl_ticks := hl_ticks (user_data h) + 1\<rparr>"
    by (simp add: h1_def s2 e hl_set_events_def hl_clear_events_def event_ops)
  moreover have "e AND TX_DATA_SENT_BIT = hl_events (user_data h) AND TX_DATA_SENT_BIT"
    "e AND TX_ACCEPT_BIT = 0"
    by (simp_all add: e hl_bits)
  moreover have "tx_wf h1" "tx_remaining h1 = hdlc_encode (crc_type h) (bytes_at (mem h) p n)" "on_frame_send h1 = on_frame_send h"
    using ready(2,4,5) by (simp_all add: h1_def h0(1))
  ultimately show ?thesis using that by blast
qed

lemma hl_in_time_next: "hl_in_time ts timeout s \<Longrightarrow> hl_in_time ts timeout (s\<lparr>hl_events := e, hl_ticks := hl_ticks s + 1\<rparr>)"
  by (auto simp: hl_in_time_def)

text \<open>
  C26: \<open>hdlc_send\<close> without a second thread: on a handle with no frame pending, whose device takes the bytes of the encoded
  frame (being busy now and then) before the timeout, the call hands over exactly the encoded frame and returns
  success, whatever the number of bytes and of busy periods. The handle is then ready for the next frame: nothing is pending, the
  bit that accepts a frame is set and the bit that tells of a sent frame is clear.
\<close>

theorem hdlc_send_sends:
  assumes "tx_wf h" "tx_origin h = 0" "on_frame_send h = Some hl_frame_sent" "hl_on_frame_send (user_data h) = None"
    and "p \<noteq> 0" "0 < n" "hl_send_tx (user_data h) = Some w" "\<not> hl_multithread_mode (user_data h)"
    and "hl_events (user_data h) AND TX_ACCEPT_BIT \<noteq> 0" "hl_events (user_data h) AND TX_DATA_SENT_BIT = 0"
    and "takes w (hl_user_data (user_data h)) (hdlc_encode (crc_type h) (bytes_at (mem h) p n)) d'"
    and "timeout \<noteq> 0" "hl_in_time (hl_clock (user_data h) (hl_ticks (user_data h))) timeout (user_data h)"
  shows "\<exists>h'. hdlc_send env1 env2 h p (int n) timeout = Some (TINY_SUCCESS, h') \<and> hl_user_data (user_data h') = d' \<and> tx_origin h' = 0
    \<and> hl_events (user_data h') AND TX_ACCEPT_BIT = TX_ACCEPT_BIT \<and> hl_events (user_data h') AND TX_DATA_SENT_BIT = 0"
proof -
  let ?ts = "hl_clock (user_data h) (hl_ticks (user_data h))"
  let ?code = "hdlc_encode (crc_type h) (bytes_at (mem h) p n)"
  obtain h1 e where h1: "hdlc_send env1 env2 h p (int n) timeout = hdlc_until_sent_loop w ?ts timeout h1"
    "tx_wf h1" "tx_remaining h1 = ?code" "on_frame_send h1 = on_frame_send h"
    "user_data h1 = (user_data h)\<lparr>hl_events := e, hl_ticks := hl_ticks (user_data h) + 1\<rparr>"
    "e AND TX_DATA_SENT_BIT = hl_events (user_data h) AND TX_DATA_SENT_BIT"
    using hdlc_send_starts [OF assms(1,2,5,6,9,12,8,7)] by blast
  obtain bs b where code: "?code = bs @ [b]" by (metis hdlc_encode_def append.assoc append_Cons append_Nil)
  have u: "hl_user_data (user_data h1) = hl_user_data (user_data h)" "hl_on_frame_send (user_data h1) = None" "hl_in_time ?ts timeout (user_data h1)"
    using assms(4) hl_in_time_next [OF assms(13), of e] by (simp_all add: h1(5))
  obtain d1 where d1: "takes w (hl_user_data (user_data h1)) bs d1" "takes w d1 [b] d'"
    using takes_appendE [OF assms(11) [unfolded code]] u(1) by metis
  have "hl_events (user_data h1) AND TX_DATA_SENT_BIT = 0" using h1(6) assms(10) by (simp add: h1(5))
  from until_sent_bytes [OF h1(2) h1(3) [unfolded code] _ d1(1) this u(3)]
  obtain k h2 where h2: "hdlc_until_sent_loop w ?ts timeout h1 = hdlc_until_sent_loop w ?ts timeout h2" "tx_wf h2" "tx_remaining h2 = [b]"
    "user_data h2 = hl_later k d1 (user_data h1)" "on_frame_send h2 = on_frame_send h1" by blast
  have "takes w (hl_user_data (user_data h2)) [b] d'" "on_frame_send h2 = Some hl_frame_sent" "hl_on_frame_send (user_data h2) = None"
    using d1(2) h1(4) h2(4,5) u(2) assms(3) by simp_all
  from until_sent_ends [OF h2(2,3) this] obtain h' where h': "hdlc_until_sent_loop w ?ts timeout h2 = Some (TINY_SUCCESS, h')"
    "hl_user_data (user_data h') = d'" "tx_wf h'" "tx_remaining h' = []" "hl_events (user_data h') AND TX_DATA_SENT_BIT = 0"
    "hl_events (user_data h') AND TX_ACCEPT_BIT = TX_ACCEPT_BIT" by force
  then show ?thesis using h1(1) h2(1) tx_origin_remaining by fastforce
qed

text \<open>
  C27: The bit that tells of a sent frame is never cleared when a new frame is put. When it is still set from an earlier
  frame (sent with timeout 0, say, or received by nobody), \<open>hdlc_send\<close> takes it for its own: it returns success when
  the device has taken the opening flag alone, with the rest of the frame, the data included, still pending.
\<close>

theorem hdlc_send_stale_bit:
  assumes "tx_wf h" "tx_origin h = 0" "on_frame_send h = Some hl_frame_sent" "hl_on_frame_send (user_data h) = None"
    and "p \<noteq> 0" "0 < n" "hl_send_tx (user_data h) = Some w" "\<not> hl_multithread_mode (user_data h)"
    and "hl_events (user_data h) AND TX_ACCEPT_BIT \<noteq> 0" "hl_events (user_data h) AND TX_DATA_SENT_BIT \<noteq> 0"
    and "takes w (hl_user_data (user_data h)) [FLAG_SEQUENCE] d'" "timeout \<noteq> 0"
  shows "\<exists>h'. hdlc_send env1 env2 h p (int n) timeout = Some (TINY_SUCCESS, h') \<and> hl_user_data (user_data h') = d'
    \<and> FLAG_SEQUENCE # tx_remaining h' = hdlc_encode (crc_type h) (bytes_at (mem h) p n) \<and> tx_origin h' \<noteq> 0
    \<and> hl_events (user_data h') AND TX_ACCEPT_BIT = 0"
proof -
  let ?ts = "hl_clock (user_data h) (hl_ticks (user_data h))"
  let ?code = "hdlc_encode (crc_type h) (bytes_at (mem h) p n)"
  obtain h1 e where h1: "hdlc_send env1 env2 h p (int n) timeout = hdlc_until_sent_loop w ?ts timeout h1"
    "tx_wf h1" "tx_remaining h1 = ?code" "on_frame_send h1 = on_frame_send h"
    "user_data h1 = (user_data h)\<lparr>hl_events := e, hl_ticks := hl_ticks (user_data h) + 1\<rparr>"
    "e AND TX_DATA_SENT_BIT = hl_events (user_data h) AND TX_DATA_SENT_BIT"
    "e AND TX_ACCEPT_BIT = 0"
    using hdlc_send_starts [OF assms(1,2,5,6,9,12,8,7)] by blast
  obtain bs where code: "?code = FLAG_SEQUENCE # bs" "bs \<noteq> []" by (simp add: hdlc_encode_def)
  have u: "hl_user_data (user_data h1) = hl_user_data (user_data h)" "hl_on_frame_send (user_data h1) = None"
    using assms(4) by (simp_all add: h1(5))
  have "takes w (hl_user_data (user_data h1)) [FLAG_SEQUENCE] d'" "on_frame_send h1 = Some hl_frame_sent"
    "bs = [] \<or> hl_events (user_data h1) AND TX_DATA_SENT_BIT \<noteq> 0"
    using assms(3,10,11) h1(4,6) u(1) by (simp_all add: h1(5))
  from until_sent_ends [OF h1(2) h1(3) [unfolded code(1)] this(1,2) u(2) this(3)]
  obtain h' where h': "hdlc_until_sent_loop w ?ts timeout h1 = Some (TINY_SUCCESS, h')"
    "hl_user_data (user_data h') = d'" "tx_wf h'" "tx_remaining h' = bs" "hl_events (user_data h') AND TX_ACCEPT_BIT = 0"
    using code(2) h1(5,7) by auto
  then show ?thesis using h1(1) code tx_origin_remaining [OF h'(3)] by auto
qed

subsection \<open>A concrete handle\<close>

definition demo_hdlc :: "u8 \<Rightarrow> u8 list hdlc" where
  "demo_hdlc e = \<lparr>mem = of_nat, on_frame_read = Some hl_frame_read, on_frame_send = Some hl_frame_sent,
     rx_buf = 500, rx_buf_size = 0, crc_type = HDLC_CRC_8,
     user_data = \<lparr>hl_send_tx = Some line_write, hl_on_frame_read = None, hl_on_frame_send = None, hl_rx_buf = 500, hl_rx_buf_size = 0,
       hl_crc_type = HDLC_CRC_8, hl_multithread_mode = False, hl_user_data = [], hl_events = e, hl_rx_len = 0,
       hl_clock = (\<lambda>_. 7), hl_ticks = 0\<rparr>,
     phys_mtu = 0, rx_state = Read_start, rx_ptr = 500, rx_escape = False, rx_active = 500, tx_state = Send_start, tx_out = [],
     tx_out_len = 0, tx_origin = 0, tx_data = 0, tx_len = 0, tx_crc = 0, tx_escape = False\<rparr>"

lemma demo_hdlc: "tx_wf (demo_hdlc e)" "tx_origin (demo_hdlc e) = 0" "on_frame_send (demo_hdlc e) = Some hl_frame_sent"
  "hl_on_frame_send (user_data (demo_hdlc e)) = None" "hl_send_tx (user_data (demo_hdlc e)) = Some line_write"
  "\<not> hl_multithread_mode (user_data (demo_hdlc e))" "hl_events (user_data (demo_hdlc e)) = e" "hl_user_data (user_data (demo_hdlc e)) = []"
  "mem (demo_hdlc e) = of_nat" "crc_type (demo_hdlc e) = HDLC_CRC_8"
  "hl_in_time (hl_clock (user_data (demo_hdlc e)) (hl_ticks (user_data (demo_hdlc e)))) 100 (user_data (demo_hdlc e))"
  by (simp_all add: demo_hdlc_def tx_wf_def hl_in_time_def)

lemma demo_hdlc_code: "hdlc_encode (crc_type (demo_hdlc e)) (bytes_at (mem (demo_hdlc e)) 16 3) = hdlc_encode HDLC_CRC_8 [0x10, 0x11, 0x12]"
  by (simp only: demo_hdlc) (simp add: bytes_at_def upt_rec numeral_eq_Suc)

theorem hdlc_send_sends_witness:
  "\<exists>h'. hdlc_send id id (demo_hdlc TX_ACCEPT_BIT) 16 3 100 = Some (TINY_SUCCESS, h')
     \<and> hl_user_data (user_data h') = hdlc_encode HDLC_CRC_8 [0x10, 0x11, 0x12] \<and> tx_origin h' = 0"
proof -
  let ?h = "demo_hdlc TX_ACCEPT_BIT"
  have "takes line_write (hl_user_data (user_data ?h)) (hdlc_encode (crc_type ?h) (bytes_at (mem ?h) 16 3))
      (hdlc_encode HDLC_CRC_8 [0x10, 0x11, 0x12])"
    using line_takes [of "[]"] by (simp add: demo_hdlc_code demo_hdlc(8))
  note w = this
  have ev: "hl_events (user_data ?h) AND TX_ACCEPT_BIT \<noteq> 0" "hl_events (user_data ?h) AND TX_DATA_SENT_BIT = 0"
    by (simp_all add: demo_hdlc(7) hl_event_defs)
  have "(16 :: nat) \<noteq> 0" "0 < (3 :: nat)" "(100 :: u32) \<noteq> 0" by simp_all
  from hdlc_send_sends [OF demo_hdlc(1-4) this(1,2) demo_hdlc(5,6) ev w this(3) demo_hdlc(11), of id id]
  show ?thesis by auto
qed

theorem hdlc_send_stale_bit_witness:
  "\<exists>h'. hdlc_send id id (demo_hdlc (TX_ACCEPT_BIT OR TX_DATA_SENT_BIT)) 16 3 100 = Some (TINY_SUCCESS, h')
     \<and> hl_user_data (user_data h') = [FLAG_SEQUENCE] \<and> tx_origin h' \<noteq> 0"
proof -
  let ?h = "demo_hdlc (TX_ACCEPT_BIT OR TX_DATA_SENT_BIT)"
  have "takes line_write (hl_user_data (user_data ?h)) [FLAG_SEQUENCE] [FLAG_SEQUENCE]"
    using line_takes [of "[]" "[FLAG_SEQUENCE]"] by (simp add: demo_hdlc(8))
  note w = this
  have ev: "hl_events (user_data ?h) AND TX_ACCEPT_BIT \<noteq> 0" "hl_events (user_data ?h) AND TX_DATA_SENT_BIT \<noteq> 0"
    by (simp_all add: demo_hdlc(7) hl_event_defs)
  have "(16 :: nat) \<noteq> 0" "0 < (3 :: nat)" "(100 :: u32) \<noteq> 0" by simp_all
  from hdlc_send_stale_bit [OF demo_hdlc(1-4) this(1,2) demo_hdlc(5,6) ev w this(3), of id id]
  show ?thesis by auto
qed

end
