(* ===== verification/TinyLight.thy ===== *)
theory TinyLight
  imports HdlcFraming LineDevice
begin

section \<open>The light protocol: src/proto/light/tiny_light.c\<close>

text \<open>
  Frames sent and read in blocking calls over a device of the application. The device is a parameter: a state
  \<open>'d\<close> and the functions \<open>write_func\<close> and \<open>read_func\<close> of the application, which return a count or an error
  with the new state. \<open>tiny_millis\<close> reads a clock, one value per call. The buffer \<open>stream\<close> of both loops has
  one byte. A loop that need not end gives an \<open>option\<close>: \<open>None\<close> when the call does not return.
\<close>

subsection \<open>Data and operations\<close>

record 'd light_user =
  l_rx_len :: int
  l_dev :: 'd
  l_clock :: "nat \<Rightarrow> u32"
  l_ticks :: nat

type_synonym 'd light = "'d light_user hdlc_ll"

definition light_on_frame_send :: "'d light_user \<Rightarrow> nat \<Rightarrow> u8 list \<Rightarrow> 'd light_user" where
  "light_on_frame_send u p data = u"

definition light_on_frame_read :: "'d light_user \<Rightarrow> u8 list \<Rightarrow> 'd light_user" where
  "light_on_frame_read u data = u\<lparr>l_rx_len := int (length data)\<rparr>"

abbreviation set_dev :: "'d \<Rightarrow> 'd light \<Rightarrow> 'd light" where
  "set_dev d h \<equiv> h\<lparr>user_data := (user_data h)\<lparr>l_dev := d\<rparr>\<rparr>"

definition light_millis :: "'d light \<Rightarrow> u32 \<times> 'd light" where
  "light_millis h = (l_clock (user_data h) (l_ticks (user_data h)),
     h\<lparr>user_data := (user_data h)\<lparr>l_ticks := l_ticks (user_data h) + 1\<rparr>\<rparr>)"

text \<open>
  The structure of the low level lives in a buffer inside the handle, at address \<open>buffer\<close>; \<open>h0\<close> is what its
  memory held. \<open>crc_type\<close> is set by the application beforehand, \<open>u\<close> is the rest of the handle.
\<close>

definition LIGHT_BUF_SIZE :: "c_abi \<Rightarrow> int" where
  "LIGHT_BUF_SIZE abi = int (sizeof_ptr abi) * 18"

definition tiny_light_init :: "c_abi \<Rightarrow> nat \<Rightarrow> hdlc_crc_t \<Rightarrow> 'd write_block option \<Rightarrow> 'd read_block option
    \<Rightarrow> 'd light_user \<Rightarrow> 'd light \<Rightarrow> int + 'd light" where
  "tiny_light_init abi buffer crc write_func read_func u h0 =
     (if write_func = None \<or> read_func = None then Inl TINY_ERR_FAILED
      else hdlc_ll_init abi \<lparr>init_on_frame_read = Some light_on_frame_read, init_on_frame_send = Some light_on_frame_send,
             init_buf = buffer, init_buf_size = LIGHT_BUF_SIZE abi, init_crc_type = crc, init_user_data = u, init_mtu = 0\<rparr> h0)"

definition tiny_light_close :: "'d light \<Rightarrow> int \<times> 'd light" where
  "tiny_light_close h = (TINY_SUCCESS, snd (hdlc_ll_close h))"

text \<open>The inner loop of \<open>tiny_light_send\<close>; the result tells whether the call returns at once.\<close>

partial_function (option) light_write_loop ::
  "'d write_block \<Rightarrow> u32 \<Rightarrow> u8 list \<Rightarrow> 'd light \<Rightarrow> (bool \<times> int \<times> 'd light) option" where
  "light_write_loop write_func ts stream h =
     (case write_func (l_dev (user_data h)) stream of (result, d) \<Rightarrow>
        if result < 0 then Some (True, result, set_dev d h)
        else case light_millis (set_dev d h) of (now, h) \<Rightarrow>
          if now - ts \<ge> 1000 then Some (False, TINY_ERR_TIMEOUT, hdlc_ll_reset h HDLC_LL_RESET_TX_ONLY)
          else if result < int (length stream) then light_write_loop write_func ts stream h
          else Some (False, result, h))"

partial_function (option) light_send_loop :: "'d write_block \<Rightarrow> u32 \<Rightarrow> int \<Rightarrow> 'd light \<Rightarrow> (int \<times> 'd light) option" where
  "light_send_loop write_func ts result h =
     (if tx_origin h \<noteq> 0 then
        case hdlc_ll_run_tx h 1 of (stream_len, h) \<Rightarrow>
          Option.bind (light_write_loop write_func ts (tx_out h) h)
            (\<lambda>(stop, result, h). if stop then Some (result, h) else light_send_loop write_func ts result h)
      else Some (result, h))"

definition tiny_light_send :: "'d write_block \<Rightarrow> 'd light \<Rightarrow> nat \<Rightarrow> nat \<Rightarrow> (int \<times> 'd light) option" where
  "tiny_light_send write_func h pbuf len =
     (case light_millis h of (ts, h) \<Rightarrow>
        Option.bind (light_send_loop write_func ts TINY_SUCCESS (snd (hdlc_ll_put_frame h pbuf len)))
          (\<lambda>(result, h). Some (if result \<ge> 0 then int len else result, h)))"

partial_function (option) light_read_loop :: "'d read_block \<Rightarrow> u32 \<Rightarrow> 'd light \<Rightarrow> (int \<times> 'd light) option" where
  "light_read_loop read_func ts h =
     (case read_func (l_dev (user_data h)) of (stream_len, b, d) \<Rightarrow>
        if stream_len < 0 then Some (stream_len, set_dev d h)
        else case hdlc_ll_run_rx (set_dev d h) (take (nat stream_len) [b]) of (n, result, h) \<Rightarrow>
          case (if result = TINY_SUCCESS then hdlc_ll_run_rx h [] else (0, result, h)) of (n, result, h) \<Rightarrow>
            if result \<noteq> TINY_SUCCESS then Some (result, h)
            else case light_millis h of (now, h) \<Rightarrow>
              if now - ts \<ge> 1000 then Some (TINY_ERR_TIMEOUT, hdlc_ll_reset h HDLC_LL_RESET_RX_ONLY)
              else if l_rx_len (user_data h) = 0 then light_read_loop read_func ts h
              else Some (result, h))"

definition tiny_light_read :: "'d read_block \<Rightarrow> 'd light \<Rightarrow> nat \<Rightarrow> nat \<Rightarrow> (int \<times> 'd light) option" where
  "tiny_light_read read_func h pbuf len =
     (case light_millis h of (ts, h) \<Rightarrow>
        Option.bind (light_read_loop read_func ts
            (h\<lparr>rx_buf := pbuf, rx_active := pbuf, rx_buf_size := int len, phys_mtu := int len,
               user_data := (user_data h)\<lparr>l_rx_len := 0\<rparr>\<rparr>))
          (\<lambda>(result, h). Some (if l_rx_len (user_data h) \<noteq> 0 then l_rx_len (user_data h) else result, h)))"

subsection \<open>Time\<close>

text \<open>The second that a call may take is not over yet, now and at every later reading of the clock.\<close>

definition in_time :: "u32 \<Rightarrow> 'd light_user \<Rightarrow> bool" where
  "in_time ts u \<longleftrightarrow> (\<forall>k \<ge> l_ticks u. l_clock u k - ts < 1000)"

abbreviation later :: "nat \<Rightarrow> 'd \<Rightarrow> 'd light_user \<Rightarrow> 'd light_user" where
  "later k d u \<equiv> u\<lparr>l_dev := d, l_ticks := l_ticks u + k\<rparr>"

lemma in_time_later [simp]: "in_time ts u \<Longrightarrow> in_time ts (later k d u)"
  by (simp add: in_time_def)

subsection \<open>Sending\<close>

lemma light_write_one:
  assumes "takes w d (b # bs) d'" "l_dev (user_data h) = d" "in_time ts (user_data h)"
  shows "\<exists>k d1. light_write_loop w ts [b] h = Some (False, 1, h\<lparr>user_data := later k d1 (user_data h)\<rparr>) \<and> takes w d1 bs d'"
  using assms
proof (induction d "b # bs" d' arbitrary: h rule: takes.induct)
  case (takes_byte d d1 d')
  have "\<not> 1000 \<le> l_clock (user_data h) (l_ticks (user_data h)) - ts" using takes_byte(5) by (simp add: in_time_def not_le)
  then have "light_write_loop w ts [b] h = Some (False, 1, h\<lparr>user_data := later 1 d1 (user_data h)\<rparr>)"
    using takes_byte(1,4) by (subst light_write_loop.simps) (simp add: light_millis_def)
  then show ?case using takes_byte(2) by blast
next
  case (takes_busy d d1 d')
  define h1 where "h1 = h\<lparr>user_data := later 1 d1 (user_data h)\<rparr>"
  have "\<not> 1000 \<le> l_clock (user_data h) (l_ticks (user_data h)) - ts" using takes_busy(5) by (simp add: in_time_def not_le)
  then have loop: "light_write_loop w ts [b] h = light_write_loop w ts [b] h1"
    using takes_busy(1,4) by (subst light_write_loop.simps) (simp add: light_millis_def h1_def)
  obtain k d2 where "light_write_loop w ts [b] h1 = Some (False, 1, h1\<lparr>user_data := later k d2 (user_data h1)\<rparr>)" "takes w d2 bs d'"
  proof -
    have "l_dev (user_data h1) = d1" "in_time ts (user_data h1)" using takes_busy(5) by (simp_all add: h1_def in_time_def)
    then show ?thesis using takes_busy(3) that by blast
  qed
  then show ?case unfolding loop by (intro exI [of _ "1 + k"] exI [of _ d2]) (simp add: h1_def)
qed

text \<open>The loop over the bytes that the device takes.\<close>

lemma light_send_loop_takes:
  assumes "tx_wf h" "tx_remaining h = bs @ rest" "takes w (l_dev (user_data h)) bs d'" "in_time ts (user_data h)"
    and "on_frame_send h = Some light_on_frame_send" "0 \<le> res"
  shows "\<exists>res' k h'. light_send_loop w ts res h = light_send_loop w ts res' h' \<and> 0 \<le> res' \<and> tx_wf h' \<and> tx_remaining h' = rest
    \<and> user_data h' = later k d' (user_data h) \<and> mem h' = mem h \<and> on_frame_send h' = Some light_on_frame_send"
  using assms
proof (induction bs arbitrary: h res)
  case Nil
  then have "d' = l_dev (user_data h)" by (auto elim: takes_NilE)
  then show ?case using Nil by (intro exI [of _ res] exI [of _ 0] exI [of _ h]) simp
next
  case (Cons b bs)
  obtain n h1 where run: "hdlc_ll_run_tx h 1 = (n, h1)" by fastforce
  note sp = hdlc_ll_run_tx_spec [OF Cons.prems(1) run, unfolded Cons.prems(2)]
  have u1: "user_data h1 = user_data h"
    using sp(8,9) Cons.prems(5) by (cases "tx_remaining h1 = []") (auto simp: tx_notify_def light_on_frame_send_def)
  obtain k d1 where w: "light_write_loop w ts [b] h1 = Some (False, 1, h1\<lparr>user_data := later k d1 (user_data h1)\<rparr>)" "takes w d1 bs d'"
    using light_write_one [OF Cons.prems(3), of h1 ts] Cons.prems(4) u1 by auto
  define h2 where "h2 = h1\<lparr>user_data := later k d1 (user_data h1)\<rparr>"
  have o: "tx_origin h \<noteq> 0" using tx_origin_remaining [OF Cons.prems(1)] Cons.prems(2) by force
  have loop: "light_send_loop w ts res h = light_send_loop w ts 1 h2"
    using o run sp(2) w(1) by (subst light_send_loop.simps) (simp add: h2_def)
  have "tx_remaining h2 = bs @ rest" using sp(3) by (simp add: h2_def)
  then obtain res' j h' where "light_send_loop w ts 1 h2 = light_send_loop w ts res' h'" "0 \<le> res'" "tx_wf h'" "tx_remaining h' = rest"
    "user_data h' = later j d' (user_data h2)" "mem h' = mem h2" "on_frame_send h' = Some light_on_frame_send"
    using Cons.IH [of h2 1] sp(4,7) w(2) Cons.prems(4,5) u1 by (auto simp: h2_def)
  then show ?case unfolding loop by (intro exI [of _ res'] exI [of _ "k + j"] exI [of _ h']) (simp add: h2_def u1 sp(5))
qed

lemma light_send_loop_sends:
  assumes "tx_wf h" "takes w (l_dev (user_data h)) (tx_remaining h) d'" "in_time ts (user_data h)"
    and "on_frame_send h = Some light_on_frame_send" "0 \<le> res"
  shows "\<exists>r k h'. light_send_loop w ts res h = Some (r, h') \<and> 0 \<le> r \<and> tx_wf h' \<and> tx_remaining h' = []
    \<and> user_data h' = later k d' (user_data h) \<and> mem h' = mem h"
proof -
  obtain res' k h' where h': "light_send_loop w ts res h = light_send_loop w ts res' h'" "0 \<le> res'" "tx_wf h'" "tx_remaining h' = []"
    "user_data h' = later k d' (user_data h)" "mem h' = mem h"
    using light_send_loop_takes [OF assms(1) _ assms(2-5), of "[]"] by auto
  then have "light_send_loop w ts res' h' = Some (res', h')" using tx_origin_remaining [OF h'(3)] by (simp add: light_send_loop.simps)
  then show ?thesis using h' by metis
qed

text \<open>A byte that the device refuses ends the call; the rest of the frame stays where it is.\<close>

lemma light_send_loop_fails:
  assumes "tx_wf h" "tx_remaining h = bs @ b # rest" "takes w (l_dev (user_data h)) bs d1" "in_time ts (user_data h)"
    and "on_frame_send h = Some light_on_frame_send" "w d1 [b] = (e, d2)" "e < 0" "0 \<le> res"
  shows "\<exists>k h'. light_send_loop w ts res h = Some (e, h') \<and> tx_wf h' \<and> tx_remaining h' = rest
    \<and> user_data h' = later k d2 (user_data h) \<and> on_frame_send h' = Some light_on_frame_send"
proof -
  obtain res' k h1 where h1: "light_send_loop w ts res h = light_send_loop w ts res' h1" "tx_wf h1" "tx_remaining h1 = b # rest"
    "user_data h1 = later k d1 (user_data h)" "on_frame_send h1 = Some light_on_frame_send"
    using light_send_loop_takes [OF assms(1-5,8)] by blast
  obtain n h2 where run: "hdlc_ll_run_tx h1 1 = (n, h2)" by fastforce
  note sp = hdlc_ll_run_tx_spec [OF h1(2) run, unfolded h1(3)]
  have u2: "user_data h2 = user_data h1"
    using sp(8,9) h1(5) by (cases "tx_remaining h2 = []") (auto simp: tx_notify_def light_on_frame_send_def)
  have "light_write_loop w ts [b] h2 = Some (True, e, set_dev d2 h2)"
    using assms(6,7) by (subst light_write_loop.simps) (simp add: u2 h1(4))
  moreover have "tx_origin h1 \<noteq> 0" using tx_origin_remaining [OF h1(2)] h1(3) by force
  ultimately have "light_send_loop w ts res' h1 = Some (e, set_dev d2 h2)"
    using run sp(2) by (subst light_send_loop.simps) simp
  then show ?thesis using h1 sp(3,4,7) u2 by (intro exI [of _ k] exI [of _ "set_dev d2 h2"]) simp
qed

text \<open>What goes to the device: the frame, or the rest of the frame that a failed call has left behind.\<close>

definition light_output :: "'d light \<Rightarrow> nat \<Rightarrow> nat \<Rightarrow> u8 list" where
  "light_output h p n = (if tx_origin h = 0 then hdlc_encode (crc_type h) (bytes_at (mem h) p n) else tx_remaining h)"

lemma tiny_light_send_starts:
  assumes "tx_wf h" "p \<noteq> 0" "0 < n"
  obtains h1 where "tiny_light_send w h p n = Option.bind (light_send_loop w (l_clock (user_data h) (l_ticks (user_data h))) TINY_SUCCESS h1)
      (\<lambda>(result, h). Some (if result \<ge> 0 then int n else result, h))"
    "tx_wf h1" "tx_remaining h1 = light_output h p n" "user_data h1 = later 1 (l_dev (user_data h)) (user_data h)"
    "on_frame_send h1 = on_frame_send h" "mem h1 = mem h"
proof -
  define h0 where "h0 = h\<lparr>user_data := (user_data h)\<lparr>l_ticks := l_ticks (user_data h) + 1\<rparr>\<rparr>"
  obtain e h1 where put: "hdlc_ll_put_frame h0 p n = (e, h1)" by fastforce
  have "tx_wf h1 \<and> tx_remaining h1 = light_output h p n \<and> user_data h1 = user_data h0 \<and> on_frame_send h1 = on_frame_send h0 \<and> mem h1 = mem h"
  proof (cases "tx_origin h = 0")
    case True
    then have st: "tx_state h0 = Send_start" "tx_origin h0 = 0" "crc_type h0 \<noteq> HDLC_CRC_OFF"
      using assms(1) by (auto simp: h0_def tx_wf_def split: tx_fn.splits)
    have "mem h1 = mem h0" using put by (auto simp: hdlc_ll_put_frame_def split: if_splits)
    then show ?thesis using put_frame_ready [OF st assms(2,3) put] True by (simp add: light_output_def h0_def)
  next
    case False
    then have "h1 = h0" using put by (simp add: hdlc_ll_put_frame_def h0_def)
    then show ?thesis using assms(1) False by (simp add: light_output_def h0_def)
  qed
  then show ?thesis using that [of h1] put by (simp add: tiny_light_send_def light_millis_def h0_def)
qed

lemma tiny_light_send_sends:
  assumes "tx_wf h" "on_frame_send h = Some light_on_frame_send" "p \<noteq> 0" "0 < n"
    and "takes w (l_dev (user_data h)) (light_output h p n) d'"
    and "in_time (l_clock (user_data h) (l_ticks (user_data h))) (user_data h)"
  shows "\<exists>h'. tiny_light_send w h p n = Some (int n, h') \<and> l_dev (user_data h') = d' \<and> tx_wf h' \<and> tx_origin h' = 0 \<and> mem h' = mem h"
proof -
  obtain h1 where h1: "tiny_light_send w h p n = Option.bind (light_send_loop w (l_clock (user_data h) (l_ticks (user_data h))) TINY_SUCCESS h1)
      (\<lambda>(result, h). Some (if result \<ge> 0 then int n else result, h))"
    "tx_wf h1" "tx_remaining h1 = light_output h p n" "user_data h1 = later 1 (l_dev (user_data h)) (user_data h)"
    "on_frame_send h1 = on_frame_send h" "mem h1 = mem h"
    using tiny_light_send_starts [OF assms(1,3,4)] by blast
  obtain r k h' where l: "light_send_loop w (l_clock (user_data h) (l_ticks (user_data h))) TINY_SUCCESS h1 = Some (r, h')" "0 \<le> r"
    "tx_wf h'" "tx_remaining h' = []" "user_data h' = later k d' (user_data h1)" "mem h' = mem h1"
    using light_send_loop_sends [of h1 w d' "l_clock (user_data h) (l_ticks (user_data h))" TINY_SUCCESS] h1(2-5) assms(2,5,6)
    by (auto simp: in_time_def)
  then show ?thesis using h1(1,6) tx_origin_remaining [OF l(3)] by simp
qed

subsection \<open>Reading\<close>

lemma run_rx_empty: "rx_state h \<noteq> Read_end \<Longrightarrow> hdlc_ll_run_rx h [] = (0, TINY_SUCCESS, h)"
  by (simp add: hdlc_ll_run_rx_def run_rx_loop.simps)

lemma run_rx_one:
  assumes "rx_wf h" "rx_state h \<noteq> Read_end" "rx_byte (crc_type h) (nat (phys_mtu h)) (rx_view h) b = (v, es)" "\<not> rejects es"
  obtains h' where "hdlc_ll_run_rx h [b] = (1, TINY_SUCCESS, h')" "rx_reads h [b] es h'" "rx_view h' = v"
proof -
  obtain n e h' where run: "hdlc_ll_run_rx h [b] = (n, e, h')" by (metis prod_cases3)
  obtain k fs where k: "k \<le> length [b]" "[b] \<noteq> [] \<Longrightarrow> 0 < k" "n = int k" "rx_reads h (take k [b]) fs h'"
    "e = (if rejects fs then TINY_ERR_WRONG_CRC else TINY_SUCCESS)"
    using hdlc_ll_run_rx_reads [OF assms(1,2) run] by blast
  have "k = 1" using k(1,2) by simp
  then have r: "rx_reads h [b] fs h'" using k(4) by simp
  then have "fs = es" "rx_view h' = v" using assms(3) by (simp_all add: rx_reads_def)
  then show ?thesis using that run r k(3,5) assms(4) \<open>k = 1\<close> by simp
qed

text \<open>With the buffer of the caller as receive buffer, a frame is collected at its start.\<close>

definition light_rx :: "nat \<Rightarrow> nat \<Rightarrow> 'd light \<Rightarrow> bool" where
  "light_rx p n h \<longleftrightarrow> rx_wf h \<and> rx_state h \<noteq> Read_end \<and> rx_buf h = p \<and> rx_buf_size h = int n \<and> phys_mtu h = int n
     \<and> on_frame_read h = Some light_on_frame_read"

lemma light_rx_active: "light_rx p n h \<Longrightarrow> rx_active h = p"
  by (auto simp: light_rx_def rx_wf_def)

lemma light_rx_reads: "light_rx p n h \<Longrightarrow> rx_reads h bs es h' \<Longrightarrow> light_rx p n h'"
  using rx_only_fields [of h h'] by (simp add: light_rx_def rx_reads_def)

lemma rx_user [simp]:
  "light_rx p n (h\<lparr>user_data := u\<rparr>) = light_rx p n h" "rx_view (h\<lparr>user_data := u\<rparr>) = rx_view h"
  by (simp_all add: light_rx_def rx_wf_def rx_view_def rx_frame_def)

text \<open>The flag that closes a frame leaves the memory alone.\<close>

lemma flag_keeps_memory:
  assumes "rx_state h = Read_data" "hdlc_ll_run_rx h [FLAG_SEQUENCE] = (n, e, h')"
  shows "mem h' = mem h"
proof -
  define h1 where "h1 = h\<lparr>rx_state := Read_end\<rparr>"
  obtain r h2 where e: "hdlc_ll_read_end h1 = (r, h2)" by fastforce
  have m: "mem h2 = mem h" and r: "r \<le> 0"
    using e by (auto simp: h1_def hdlc_ll_read_end_def Let_def split: if_splits prod.splits option.splits)
  have "h' = h2"
    using assms e r by (simp add: hdlc_ll_run_rx_def run_rx_loop.simps [of h] run_rx_loop.simps [of h1] rx_dispatch_def flip: h1_def)
       (simp add: h1_def rx_dispatch_def)
  then show ?thesis using m by simp
qed

lemma rx_bytes_quiet: "FLAG_SEQUENCE \<notin> set bs \<Longrightarrow> snd (rx_bytes crc mtu v bs) = []"
proof (induction bs arbitrary: v)
  case (Cons b bs)
  have "snd (rx_byte crc mtu v b) = []" using Cons.prems by (cases v) auto
  then show ?case using Cons.IH [of "fst (rx_byte crc mtu v b)"] Cons.prems by (auto simp: case_prod_beta)
qed simp

lemma notify_light:
  "notify_frames (Some light_on_frame_read) ps u = (if ps = [] then u else u\<lparr>l_rx_len := int (length (last ps))\<rparr>)"
proof -
  have "fold (\<lambda>p u. light_on_frame_read u p) ps u = (if ps = [] then u else u\<lparr>l_rx_len := int (length (last ps))\<rparr>)"
    by (induction ps arbitrary: u) (simp_all add: light_on_frame_read_def)
  then show ?thesis by (simp add: notify_frames_def)
qed

lemma rx_only_user: "rx_only h h' \<Longrightarrow> rx_only (h\<lparr>user_data := u\<rparr>) (h'\<lparr>user_data := v\<rparr>)"
  by (cases h, cases h') (simp add: rx_only_def)

text \<open>The reading loop as long as no frame ends.\<close>

lemma light_read_byte:
  assumes "light_rx p n h" "rx_byte (crc_type h) n (rx_view h) b = (v, es)" "\<not> rejects es" "in_time ts (user_data h)"
    and "r (l_dev (user_data h)) = (1, b, d1)"
  obtains h1 where "light_rx p n h1" "crc_type h1 = crc_type h" "rx_view h1 = v" "rx_only h h1"
    "user_data h1 = later 1 d1 (notify_frames (Some light_on_frame_read) (delivered es) (user_data h))"
    "light_read_loop r ts h = (if l_rx_len (user_data h1) = 0 then light_read_loop r ts h1 else Some (TINY_SUCCESS, h1))"
    "rx_state h = Read_data \<Longrightarrow> b = FLAG_SEQUENCE \<Longrightarrow> mem h1 = mem h"
proof -
  define h0 where "h0 = set_dev d1 h"
  have l0: "light_rx p n h0" using assms(1) by (simp add: h0_def)
  have pre: "rx_wf h0" "rx_state h0 \<noteq> Read_end" "rx_byte (crc_type h0) (nat (phys_mtu h0)) (rx_view h0) b = (v, es)"
    using assms(1,2) l0 by (simp_all add: h0_def light_rx_def)
  obtain h1 where h1: "hdlc_ll_run_rx h0 [b] = (1, TINY_SUCCESS, h1)" "rx_reads h0 [b] es h1" "rx_view h1 = v"
    using run_rx_one [OF pre assms(3)] by blast
  have l1: "light_rx p n h1" by (rule light_rx_reads [OF l0 h1(2)])
  have u1: "user_data h1 = notify_frames (Some light_on_frame_read) (delivered es) (user_data h0)"
    using h1(2) l0 by (simp add: rx_reads_def light_rx_def)
  define h2 where "h2 = h1\<lparr>user_data := (user_data h1)\<lparr>l_ticks := l_ticks (user_data h1) + 1\<rparr>\<rparr>"
  have early: "\<not> 1000 \<le> l_clock (user_data h1) (l_ticks (user_data h1)) - ts"
    using assms(4) by (simp add: u1 notify_light h0_def in_time_def not_le)
  have "rx_state h1 \<noteq> Read_end" using l1 by (simp add: light_rx_def)
  then have loop: "light_read_loop r ts h = (if l_rx_len (user_data h2) = 0 then light_read_loop r ts h2 else Some (TINY_SUCCESS, h2))"
    using assms(5) h1(1) early
    by (subst light_read_loop.simps) (simp add: run_rx_empty light_millis_def h2_def flip: h0_def)
  show ?thesis
  proof (rule that)
    show "light_rx p n h2" "rx_view h2 = v" using l1 h1(3) by (simp_all add: h2_def)
    have o: "rx_only h0 h1" using h1(2) by (simp add: rx_reads_def)
    show "rx_only h h2" using rx_only_user [OF o, of "user_data h" "user_data h2"] by (simp add: h0_def h2_def)
    show "crc_type h2 = crc_type h" using rx_only_fields(5) [OF o] by (simp add: h0_def h2_def)
    show "user_data h2 = later 1 d1 (notify_frames (Some light_on_frame_read) (delivered es) (user_data h))"
      by (simp add: h2_def u1 notify_light h0_def)
    show "light_read_loop r ts h = (if l_rx_len (user_data h2) = 0 then light_read_loop r ts h2 else Some (TINY_SUCCESS, h2))"
      by (rule loop)
    show "mem h2 = mem h" if "rx_state h = Read_data" "b = FLAG_SEQUENCE"
      using flag_keeps_memory [of h0 1 TINY_SUCCESS h1] h1(1) that by (simp add: h0_def h2_def)
  qed
qed

lemma light_read_idle:
  assumes "light_rx p n h" "in_time ts (user_data h)" "r (l_dev (user_data h)) = (0, b, d1)" "l_rx_len (user_data h) = 0"
  shows "light_read_loop r ts h = light_read_loop r ts (h\<lparr>user_data := later 1 d1 (user_data h)\<rparr>)"
proof -
  have early: "\<not> 1000 \<le> l_clock (user_data h) (l_ticks (user_data h)) - ts" using assms(2) by (simp add: in_time_def not_le)
  have "rx_state (set_dev d1 h) \<noteq> Read_end" using assms(1) by (simp add: light_rx_def)
  then show ?thesis
    using assms(3,4) early by (subst light_read_loop.simps) (simp add: run_rx_empty light_millis_def)
qed

lemma in_time_ticks: "in_time ts u \<Longrightarrow> in_time ts (later k d u)"
  by (simp add: in_time_def)

lemma light_read_quiet:
  assumes "supplies r d xs d'" "xs = bs @ [b]" "light_rx p n h" "l_dev (user_data h) = d" "in_time ts (user_data h)"
    and "l_rx_len (user_data h) = 0" "rx_bytes (crc_type h) n (rx_view h) bs = (v, [])"
  shows "\<exists>k d1 h1. light_read_loop r ts h = light_read_loop r ts h1 \<and> light_rx p n h1 \<and> crc_type h1 = crc_type h
    \<and> rx_view h1 = v \<and> rx_only h h1 \<and> user_data h1 = later k d1 (user_data h) \<and> r d1 = (1, b, d')"
  using assms
proof (induction arbitrary: bs h rule: supplies.induct)
  case (supplies_byte d c d1 ys d')
  show ?case
  proof (cases bs)
    case Nil
    then have "c = b" "ys = []" "v = rx_view h" using supplies_byte.prems(1,6) by simp_all
    moreover have "d1 = d'" using supplies_byte.hyps(2) \<open>ys = []\<close> by (cases rule: supplies.cases) simp_all
    ultimately show ?thesis
      using supplies_byte.hyps(1) supplies_byte.prems(2,3) by (intro exI [of _ 0] exI [of _ d] exI [of _ h]) simp
  next
    case (Cons c' cs)
    then have c: "c' = c" "ys = cs @ [b]" using supplies_byte.prems(1) by simp_all
    obtain v1 e1 where v1: "rx_byte (crc_type h) n (rx_view h) c = (v1, e1)" by fastforce
    have e: "e1 = []" "rx_bytes (crc_type h) n v1 cs = (v, [])" using supplies_byte.prems(6) v1 by (auto simp: Cons c split: prod.splits)
    obtain h1 where h1: "light_rx p n h1" "crc_type h1 = crc_type h" "rx_view h1 = v1" "rx_only h h1" "user_data h1 = later 1 d1 (user_data h)"
      "light_read_loop r ts h = (if l_rx_len (user_data h1) = 0 then light_read_loop r ts h1 else Some (TINY_SUCCESS, h1))"
      using light_read_byte [OF supplies_byte.prems(2) v1 _ supplies_byte.prems(4), of r d1] supplies_byte.hyps(1) supplies_byte.prems(3) e(1) by auto
    have "l_dev (user_data h1) = d1" "in_time ts (user_data h1)" "l_rx_len (user_data h1) = 0"
      "rx_bytes (crc_type h1) n (rx_view h1) cs = (v, [])"
      using h1(2,3,5) supplies_byte.prems(4,5) in_time_ticks [of ts _ 1] e(2) by simp_all
    from supplies_byte.IH [OF c(2) h1(1) this] obtain k d2 h2 where h2: "light_read_loop r ts h1 = light_read_loop r ts h2"
      "light_rx p n h2" "crc_type h2 = crc_type h1" "rx_view h2 = v" "rx_only h1 h2" "user_data h2 = later k d2 (user_data h1)" "r d2 = (1, b, d')"
      by blast
    show ?thesis
      using h2 h1 rx_only_trans [OF h1(4) h2(5)] supplies_byte.prems(5)
      by (intro exI [of _ "1 + k"] exI [of _ d2] exI [of _ h2]) simp
  qed
next
  case (supplies_idle d c d1 ys d')
  define h1 where "h1 = h\<lparr>user_data := later 1 d1 (user_data h)\<rparr>"
  have loop: "light_read_loop r ts h = light_read_loop r ts h1"
    unfolding h1_def using light_read_idle [OF supplies_idle.prems(2,4)] supplies_idle.hyps(1) supplies_idle.prems(3,5) by simp
  have "light_rx p n h1" "l_dev (user_data h1) = d1" "in_time ts (user_data h1)" "l_rx_len (user_data h1) = 0"
      "rx_bytes (crc_type h1) n (rx_view h1) bs = (v, [])"
    using supplies_idle.prems(2-) in_time_ticks [of ts _ 1] by (simp_all add: h1_def)
  from supplies_idle.IH [OF supplies_idle.prems(1) this] obtain k d2 h2 where h2: "light_read_loop r ts h1 = light_read_loop r ts h2"
      "light_rx p n h2" "crc_type h2 = crc_type h1" "rx_view h2 = v" "rx_only h1 h2" "user_data h2 = later k d2 (user_data h1)" "r d2 = (1, b, d')"
    by blast
  have "rx_only h h1" using rx_only_user [OF rx_only_refl [of h], where u = "user_data h" and v = "user_data h1"] by (simp add: h1_def)
  then show ?case
    using h2 loop rx_only_trans [of h h1 h2] by (intro exI [of _ "1 + k"] exI [of _ d2] exI [of _ h2]) (simp add: h1_def)
qed simp

text \<open>
  A frame that fits the buffer, with bytes other than flags before it, is read into the buffer.
\<close>

lemma tiny_light_read_reads:
  assumes "rx_state h = Read_start" "crc_type h \<noteq> HDLC_CRC_OFF" "on_frame_read h = Some light_on_frame_read"
    and "hdlc_fits (crc_type h) n f" "FLAG_SEQUENCE \<notin> set noise" "supplies r (l_dev (user_data h)) (noise @ hdlc_encode (crc_type h) f) d'"
    and "in_time (l_clock (user_data h) (l_ticks (user_data h))) (user_data h)"
  shows "\<exists>h'. tiny_light_read r h p n = Some (int (length f), h') \<and> bytes_at (mem h') p (length f) = f
    \<and> l_dev (user_data h') = d' \<and> rx_state h' = Read_start
    \<and> (\<forall>a. a < p \<or> p + n \<le> a \<longrightarrow> mem h' a = mem h a)"
proof -
  define ts where "ts = l_clock (user_data h) (l_ticks (user_data h))"
  define h0 where "h0 = h\<lparr>rx_buf := p, rx_active := p, rx_buf_size := int n, phys_mtu := int n,
    user_data := (user_data h)\<lparr>l_ticks := l_ticks (user_data h) + 1, l_rx_len := 0\<rparr>\<rparr>"
  define crc where "crc = crc_type h"
  define body where "body = noise @ FLAG_SEQUENCE # stuffing (f @ fcs_bytes crc f)"
  have n: "f \<noteq> []" "length f + fcs_len crc \<le> n" using assms(4) by (simp_all add: hdlc_fits_def crc_def)
  then have n0: "0 < n" by (cases f) simp_all
  have l0: "light_rx p n h0" "rx_view h0 = Hunting" "crc_type h0 = crc" "l_dev (user_data h0) = l_dev (user_data h)"
    "in_time ts (user_data h0)" "l_rx_len (user_data h0) = 0"
    using assms(1-3,7) n0 by (auto simp: h0_def light_rx_def rx_wf_def rx_view_def crc_def in_time_def ts_def)
  have body: "rx_bytes crc n Hunting body = (Collecting (f @ fcs_bytes crc f) False, [])"
    using rx_bytes_stuffing [of "[]" "f @ fcs_bytes crc f" n crc] n(2) rx_bytes_hunting [OF assms(5)]
    by (simp add: body_def rx_bytes_append del: stuffing_append)
  have code: "noise @ hdlc_encode crc f = body @ [FLAG_SEQUENCE]" by (simp add: body_def hdlc_encode_def)
  obtain k d1 h1 where h1: "light_read_loop r ts h0 = light_read_loop r ts h1" "light_rx p n h1" "crc_type h1 = crc_type h0"
    "rx_view h1 = Collecting (f @ fcs_bytes crc f) False" "rx_only h0 h1" "user_data h1 = later k d1 (user_data h0)" "r d1 = (1, FLAG_SEQUENCE, d')"
    using light_read_quiet [OF assms(6) [folded crc_def] code l0(1,4-6), of "Collecting (f @ fcs_bytes crc f) False"] body l0(2,3) by auto
  have state: "rx_state h1 = Read_data" using h1(2,4) by (cases "rx_state h1") (auto simp: rx_view_def light_rx_def)
  have last: "rx_byte (crc_type h1) n (rx_view h1) FLAG_SEQUENCE = (Hunting, [Delivered f])"
    using n(1) frame_event_fcs [of crc f] assms(2) by (simp add: h1(3,4) l0(3) crc_def)
  have t: "in_time ts (user_data h1)" "r (l_dev (user_data h1)) = (1, FLAG_SEQUENCE, d')" using l0(5) h1(6,7) in_time_ticks by simp_all
  have "\<not> rejects [Delivered f]" by (simp add: rejects_def)
  then obtain h2 where h2: "light_rx p n h2" "rx_view h2 = Hunting" "rx_only h1 h2"
    "user_data h2 = later 1 d' (notify_frames (Some light_on_frame_read) [f] (user_data h1))"
    "light_read_loop r ts h1 = (if l_rx_len (user_data h2) = 0 then light_read_loop r ts h2 else Some (TINY_SUCCESS, h2))"
    "mem h2 = mem h1"
    using light_read_byte [OF h1(2) last _ t(1), of r d'] t(2) state by auto
  have len: "l_rx_len (user_data h2) = int (length f)" "l_dev (user_data h2) = d'" by (simp_all add: h2(4) notify_light)
  have "tiny_light_read r h p n = Some (int (length f), h2)"
    using h1(1) h2(5) len n(1) by (simp add: tiny_light_read_def light_millis_def h0_def flip: ts_def)
  moreover have "bytes_at (mem h2) p (length f) = f"
  proof -
    have "bytes_at (mem h1) p (rx_ptr h1 - p) = f @ fcs_bytes crc f"
      using h1(4) light_rx_active [OF h1(2)] state by (simp add: rx_view_def rx_frame_def)
    then show ?thesis
      using take_bytes_at [of "length f" "rx_ptr h1 - p" "mem h1" p] length_bytes_at [of "mem h1" p "rx_ptr h1 - p"] by (simp add: h2(6) del: length_bytes_at)
  qed
  moreover have "rx_state h2 = Read_start" using h2(2) by (auto simp: rx_view_def split: if_splits)
  moreover have "mem h2 a = mem h a" if "a < p \<or> p + n \<le> a" for a
    using rx_only_trans [OF h1(5) h2(3)] that by (auto simp: rx_only_def h0_def)
  ultimately show ?thesis using len(2) by blast
qed

subsection \<open>The link\<close>

text \<open>
  C33: A frame sent with \<open>tiny_light_send\<close> to a device that takes the bytes, busy now and then, and read on the
  other side with \<open>tiny_light_read\<close> from a device that supplies the same bytes, after noise without flags, where each call ends within its
  limit of one second: both calls
  return the length of the data, the buffer of the reader holds the data, and nothing outside that buffer is
  written. Both sides use the same check sequence, the buffer has room for the data and the check sequence.
\<close>

theorem tiny_light_roundtrip:
  assumes "tx_wf hs" "tx_origin hs = 0" "on_frame_send hs = Some light_on_frame_send" "p \<noteq> 0" "0 < n"
    and "takes w (l_dev (user_data hs)) code dw" "in_time (l_clock (user_data hs) (l_ticks (user_data hs))) (user_data hs)"
    and "code = hdlc_encode (crc_type hs) (bytes_at (mem hs) p n)"
    and "rx_state hr = Read_start" "crc_type hr = crc_type hs" "on_frame_read hr = Some light_on_frame_read"
    and "n + fcs_len (crc_type hs) \<le> m" "FLAG_SEQUENCE \<notin> set noise"
    and "supplies r (l_dev (user_data hr)) (noise @ code) dr" "in_time (l_clock (user_data hr) (l_ticks (user_data hr))) (user_data hr)"
  shows "\<exists>hs' hr'. tiny_light_send w hs p n = Some (int n, hs') \<and> l_dev (user_data hs') = dw \<and> tx_origin hs' = 0
    \<and> tiny_light_read r hr q m = Some (int n, hr') \<and> bytes_at (mem hr') q n = bytes_at (mem hs) p n
    \<and> (\<forall>a. a < q \<or> q + m \<le> a \<longrightarrow> mem hr' a = mem hr a)"
proof -
  have out: "light_output hs p n = code" using assms(2,8) by (simp add: light_output_def)
  have crc: "crc_type hr \<noteq> HDLC_CRC_OFF" using assms(1,10) by (simp add: tx_wf_def)
  have fits: "hdlc_fits (crc_type hr) m (bytes_at (mem hs) p n)" using assms(5,10,12) by (simp add: hdlc_fits_def)
  show ?thesis
    using tiny_light_send_sends [OF assms(1,3-5) _ assms(7), of w dw, unfolded out] assms(6)
      tiny_light_read_reads [OF assms(9) crc assms(11) fits assms(13) _ assms(15), of r dr q] assms(8,10,14)
    by auto
qed

text \<open>
  C34: A device error during \<open>tiny_light_send\<close> is returned, but the frame stays pending in the low level, and the byte that
  was refused is lost. The next call of \<open>tiny_light_send\<close>, whatever data it is given, does not send them: it sends what is
  left of the old frame, and returns the length of the new data as if these had been sent.
\<close>

theorem tiny_light_send_after_error:
  assumes "tx_wf h" "tx_origin h = 0" "on_frame_send h = Some light_on_frame_send" "p \<noteq> 0" "0 < n"
    and "hdlc_encode (crc_type h) (bytes_at (mem h) p n) = sent @ b # rest" "rest \<noteq> []"
    and "takes w (l_dev (user_data h)) sent d1" "w d1 [b] = (e, d2)" "e < 0" "takes w d2 rest d3"
    and "\<forall>j k. j \<le> k \<longrightarrow> l_clock (user_data h) k - l_clock (user_data h) j < 1000" "q \<noteq> 0" "0 < m"
  shows "\<exists>h1 h2. tiny_light_send w h p n = Some (e, h1) \<and> l_dev (user_data h1) = d2
    \<and> tiny_light_send w h1 q m = Some (int m, h2) \<and> l_dev (user_data h2) = d3"
proof -
  obtain h0 where h0: "tiny_light_send w h p n = Option.bind (light_send_loop w (l_clock (user_data h) (l_ticks (user_data h))) TINY_SUCCESS h0)
      (\<lambda>(result, h). Some (if result \<ge> 0 then int n else result, h))"
    "tx_wf h0" "tx_remaining h0 = light_output h p n" "user_data h0 = later 1 (l_dev (user_data h)) (user_data h)"
    "on_frame_send h0 = on_frame_send h" "mem h0 = mem h"
    using tiny_light_send_starts [OF assms(1,4,5)] by blast
  have rem: "tx_remaining h0 = sent @ b # rest" using h0(3) assms(2,6) by (simp add: light_output_def)
  have t: "in_time (l_clock (user_data h) (l_ticks (user_data h))) (user_data h0)" using assms(12) by (simp add: h0(4) in_time_def)
  obtain k h1 where h1: "light_send_loop w (l_clock (user_data h) (l_ticks (user_data h))) TINY_SUCCESS h0 = Some (e, h1)"
    "tx_wf h1" "tx_remaining h1 = rest" "user_data h1 = later k d2 (user_data h0)" "on_frame_send h1 = Some light_on_frame_send"
  proof -
    have "takes w (l_dev (user_data h0)) sent d1" "on_frame_send h0 = Some light_on_frame_send" using assms(3,8) h0(4,5) by simp_all
    from light_send_loop_fails [OF h0(2) rem this(1) t this(2) assms(9,10) order_refl] show ?thesis using that by blast
  qed
  have "tx_origin h1 \<noteq> 0" using tx_origin_remaining [OF h1(2)] h1(3) assms(7) by simp
  then have "takes w (l_dev (user_data h1)) (light_output h1 q m) d3" using h1(3,4) assms(11) by (simp add: light_output_def)
  moreover have "in_time (l_clock (user_data h1) (l_ticks (user_data h1))) (user_data h1)"
    using assms(12) by (simp add: h1(4) h0(4) in_time_def)
  ultimately obtain h2 where "tiny_light_send w h1 q m = Some (int m, h2)" "l_dev (user_data h2) = d3"
    using tiny_light_send_sends [OF h1(2,5) assms(13,14)] by blast
  then show ?thesis using h0(1) h1(1,4) assms(10) by simp
qed

subsection \<open>Concrete handles\<close>

definition demo_light :: "u8 list \<Rightarrow> u8 list light" where
  "demo_light d = \<lparr>mem = of_nat, on_frame_read = Some light_on_frame_read, on_frame_send = Some light_on_frame_send,
     rx_buf = 500, rx_buf_size = 0, crc_type = HDLC_CRC_8, user_data = \<lparr>l_rx_len = 0, l_dev = d, l_clock = (\<lambda>_. 7), l_ticks = 0\<rparr>,
     phys_mtu = 0, rx_state = Read_start, rx_ptr = 500, rx_escape = False, rx_active = 500, tx_state = Send_start, tx_out = [],
     tx_out_len = 0, tx_origin = 0, tx_data = 0, tx_len = 0, tx_crc = 0, tx_escape = False\<rparr>"

lemma demo_light: "tx_wf (demo_light d)" "tx_origin (demo_light d) = 0" "on_frame_send (demo_light d) = Some light_on_frame_send"
  "l_dev (user_data (demo_light d)) = d" "l_clock (user_data (demo_light d)) k = 7" "in_time 7 (user_data (demo_light d))"
  "rx_state (demo_light d) = Read_start" "crc_type (demo_light d) = HDLC_CRC_8" "mem (demo_light d) = of_nat"
  "on_frame_read (demo_light d) = Some light_on_frame_read"
  by (simp_all add: demo_light_def tx_wf_def in_time_def)

lemma demo_bytes: "bytes_at (of_nat :: nat \<Rightarrow> u8) 16 3 = [0x10, 0x11, 0x12]"
  by (simp add: bytes_at_def upt_rec numeral_eq_Suc)

lemma demo_time: "in_time (l_clock (user_data (demo_light d)) (l_ticks (user_data (demo_light d)))) (user_data (demo_light d))"
  using demo_light(6) by (simp add: demo_light(5))

theorem tiny_light_roundtrip_witness:
  "\<exists>hs' hr'. tiny_light_send line_write (demo_light []) 16 3 = Some (3, hs')
     \<and> l_dev (user_data hs') = hdlc_encode HDLC_CRC_8 [0x10, 0x11, 0x12]
     \<and> tiny_light_read line_read (demo_light (1 # hdlc_encode HDLC_CRC_8 [0x10, 0x11, 0x12])) 300 4 = Some (3, hr')
     \<and> bytes_at (mem hr') 300 3 = [0x10, 0x11, 0x12]"
proof -
  define code where "code = hdlc_encode HDLC_CRC_8 [0x10, 0x11, 0x12]"
  have code: "code = hdlc_encode (crc_type (demo_light [])) (bytes_at (mem (demo_light [])) 16 3)"
    by (simp only: code_def demo_light demo_bytes)
  have w: "takes line_write (l_dev (user_data (demo_light []))) code code" using line_takes [of "[]" code] by (simp add: demo_light(4))
  have r: "supplies line_read (l_dev (user_data (demo_light (1 # code)))) ([1] @ code) []"
    using line_supplies [of "1 # code"] by (simp add: demo_light(4))
  have noise: "FLAG_SEQUENCE \<notin> set [1]" by (simp add: FLAG_SEQUENCE_def)
  have crc: "crc_type (demo_light (1 # code)) = crc_type (demo_light [])" "3 + fcs_len (crc_type (demo_light [])) \<le> 4"
    by (simp_all add: demo_light(8) fcs_len_def)
  have "(16 :: nat) \<noteq> 0" "0 < (3 :: nat)" by simp_all
  from tiny_light_roundtrip [OF demo_light(1-3) this w demo_time code demo_light(7) crc(1) demo_light(10) crc(2) noise r demo_time, of 300]
  show ?thesis unfolding code_def [symmetric] unfolding demo_light(9) demo_bytes by auto
qed

theorem tiny_light_send_after_error_witness:
  "\<exists>h1 h2. tiny_light_send broken_write (demo_light []) 16 3 = Some (TINY_ERR_FAILED, h1)
     \<and> tiny_light_send broken_write h1 32 5 = Some (5, h2)
     \<and> l_dev (user_data h2) = take 2 (hdlc_encode HDLC_CRC_8 [0x10, 0x11, 0x12]) @ 0 # drop 3 (hdlc_encode HDLC_CRC_8 [0x10, 0x11, 0x12])"
proof -
  define code where "code = hdlc_encode HDLC_CRC_8 [0x10, 0x11, 0x12]"
  have code: "code = [126, 16] @ 17 # [18, 204, 126]" unfolding code_def by code_simp
  have enc: "hdlc_encode (crc_type (demo_light [])) (bytes_at (mem (demo_light [])) 16 3) = [126, 16] @ 17 # [18, 204, 126]"
    using code by (simp only: code_def demo_light demo_bytes)
  have "takes broken_write (l_dev (user_data (demo_light []))) [126, 16] [126, 16]"
    using broken_takes [of "[]" "[126, 16]"] by (simp add: demo_light(4))
  moreover have "broken_write [126, 16] [17] = (TINY_ERR_FAILED, [126, 16, 0])" by (simp add: broken_write_def)
  moreover have "takes broken_write [126, 16, 0] [18, 204, 126] [126, 16, 0, 18, 204, 126]"
    using broken_takes [of "[126, 16, 0]" "[18, 204, 126]"] by simp
  ultimately show ?thesis
    using tiny_light_send_after_error [OF demo_light(1-3) _ _ enc, where w = broken_write and ?d1.0 = "[126, 16]" and e = TINY_ERR_FAILED and ?d2.0 = "[126, 16, 0]"
        and ?d3.0 = "[126, 16, 0, 18, 204, 126]" and q = 32 and m = 5]
    unfolding code_def [symmetric] by (auto simp: code demo_light(5))
qed

end
