(* ===== verification/CppClasses.thy ===== *)
theory CppClasses
  imports FdInit FdRegister HdlcHighLevel TinyLight TinyPacket
begin

section \<open>The C++ classes over the protocols\<close>

text \<open>
  The full duplex link layer (\<open>src/link/TinyFdLinkLayer.cpp\<close>, \<open>src/link/TinySerialFdLink.cpp\<close>) and the classes
  \<open>IFd\<close>, \<open>Hdlc\<close> and \<open>Light\<close> (\<open>src/TinyProtocolFd.cpp\<close>, \<open>src/TinyProtocolHdlc.cpp\<close>, \<open>src/TinyLightProtocol.cpp\<close>).
  They pass their settings to the C library, and the calls on. An object is a record of its settings; the handle
  of the protocol is the state that the calls work on. What a C++ \<open>int\<close> loses when it is stored in a field of 16 or 8
  bits is kept.
  \<^item> \<open>clk\<close> is the clock, \<open>m\<close> the memory, \<open>env\<close> what other threads do while a call blocks.
  \<^item> A write function of the application is a parameter \<open>'d write_block\<close> on a device.
\<close>

subsection \<open>The full duplex link layer\<close>

record fd_link =
  fl_buffer :: nat
  fl_buffer_size :: int
  fl_tx_window :: u8
  fl_crc :: hdlc_crc_t
  fl_mtu :: int
  fl_timeout :: u32

definition fd_link_new :: "nat \<Rightarrow> int \<Rightarrow> fd_link" where
  "fd_link_new buffer sz = \<lparr>fl_buffer = buffer, fl_buffer_size = sz, fl_tx_window = 2, fl_crc = HDLC_CRC_8, fl_mtu = 16384, fl_timeout = 0\<rparr>"

definition fd_link_init :: "fd_link \<Rightarrow> tiny_fd_init_t" where
  "fd_link_init l = \<lparr>in_on_read_cb = True, in_on_send_cb = True, in_buffer = fl_buffer l, in_buffer_size = of_int (fl_buffer_size l),
     in_send_timeout = ucast (fl_timeout l), in_retry_timeout = (if fl_timeout l \<noteq> 0 then ucast (fl_timeout l div 4) else 100),
     in_retries = 2, in_crc_type = fl_crc l, in_window_frames = fl_tx_window l, in_mtu = fl_mtu l, in_on_connect_event_cb = False,
     in_log_frame_cb = False, in_addr = 0, in_peers_count = 0, in_mode = TINY_FD_MODE_ABM, in_on_read_ui_cb = False\<rparr>"

definition fd_link_set_crc :: "hdlc_crc_t \<Rightarrow> fd_link \<Rightarrow> fd_link" where "fd_link_set_crc crc l = l\<lparr>fl_crc := crc\<rparr>"
definition fd_link_set_window :: "int \<Rightarrow> fd_link \<Rightarrow> fd_link" where "fd_link_set_window window l = l\<lparr>fl_tx_window := of_int window\<rparr>"
definition fd_link_set_buffer :: "nat \<Rightarrow> int \<Rightarrow> fd_link \<Rightarrow> fd_link" where "fd_link_set_buffer buffer sz l = l\<lparr>fl_buffer := buffer, fl_buffer_size := sz\<rparr>"
definition fd_link_set_mtu :: "int \<Rightarrow> fd_link \<Rightarrow> fd_link" where "fd_link_set_mtu mtu l = l\<lparr>fl_mtu := mtu\<rparr>"
definition fd_link_set_timeout :: "u32 \<Rightarrow> fd_link \<Rightarrow> fd_link" where "fd_link_set_timeout timeout l = l\<lparr>fl_timeout := timeout\<rparr>"

text \<open>The result, with the handle if there is one.\<close>

definition fd_link_begin :: "c_abi \<Rightarrow> (nat \<Rightarrow> u32) \<Rightarrow> memory \<Rightarrow> fd_link \<Rightarrow> bool \<times> tiny_fd option" where
  "fd_link_begin abi clk m l =
     (case tiny_fd_init abi (fd_link_init l) clk m of Inl e \<Rightarrow> (False, None) | Inr h \<Rightarrow> (True, Some h))"

definition fd_link_end :: "tiny_fd \<Rightarrow> tiny_fd" where
  "fd_link_end h = tiny_fd_close h"

definition fd_link_put :: "(tiny_fd_data \<Rightarrow> tiny_fd_data) \<Rightarrow> (tiny_fd_data \<Rightarrow> tiny_fd_data) \<Rightarrow> u8 list \<Rightarrow> u32 \<Rightarrow> tiny_fd \<Rightarrow> bool \<times> tiny_fd" where
  "fd_link_put env1 env2 data timeout h =
     (case tiny_fd_send_packet env1 env2 (user_data h) data timeout of (r, fd) \<Rightarrow> (r \<ge> 0, h\<lparr>user_data := fd\<rparr>))"

definition fd_link_flush_tx :: "tiny_fd \<Rightarrow> tiny_fd" where
  "fd_link_flush_tx h = h"

definition fd_link_parse_data :: "u8 list \<Rightarrow> tiny_fd \<Rightarrow> int \<times> tiny_fd" where
  "fd_link_parse_data data h =
     (case tiny_fd_on_rx_data h data of (code, h) \<Rightarrow> (if code = TINY_SUCCESS then int (length data) else code, h))"

text \<open>The count, the bytes and the handle; the timeout of the waits inside has no effect in the view of one thread.\<close>

definition fd_link_get_data :: "nat \<Rightarrow> tiny_fd \<Rightarrow> int \<times> u8 list \<times> tiny_fd" where
  "fd_link_get_data sz h = tiny_fd_get_tx_data h sz"

text \<open>The link over a serial line allocates its buffer, at the address \<open>buf\<close> (0 if there is no memory).\<close>

definition serial_fd_buffer_size :: "c_abi \<Rightarrow> fd_link \<Rightarrow> int" where
  "serial_fd_buffer_size abi l = tiny_fd_buffer_size_by_mtu_ex abi 1 (fl_mtu l) (int (unat (fl_tx_window l))) (fl_crc l) 3"

definition serial_fd_begin :: "c_abi \<Rightarrow> (nat \<Rightarrow> u32) \<Rightarrow> memory \<Rightarrow> nat \<Rightarrow> fd_link \<Rightarrow> bool \<times> tiny_fd option" where
  "serial_fd_begin abi clk m buf l =
     fd_link_begin abi clk m (fd_link_set_buffer buf (serial_fd_buffer_size abi l) l)"

subsection \<open>The class IFd\<close>

record fd_class =
  fc_buffer :: nat
  fc_buffer_size :: int
  fc_crc :: hdlc_crc_t
  fc_send_timeout :: u16
  fc_window :: u8

definition fd_class_new :: "nat \<Rightarrow> int \<Rightarrow> fd_class" where
  "fd_class_new buffer sz = \<lparr>fc_buffer = buffer, fc_buffer_size = sz, fc_crc = HDLC_CRC_DEFAULT, fc_send_timeout = 0, fc_window = 3\<rparr>"

definition ifd_init :: "fd_class \<Rightarrow> tiny_fd_init_t" where
  "ifd_init c = \<lparr>in_on_read_cb = True, in_on_send_cb = True, in_buffer = fc_buffer c, in_buffer_size = of_int (fc_buffer_size c),
     in_send_timeout = fc_send_timeout c, in_retry_timeout = 200, in_retries = 2, in_crc_type = fc_crc c, in_window_frames = fc_window c,
     in_mtu = 0, in_on_connect_event_cb = True, in_log_frame_cb = False, in_addr = 0, in_peers_count = 0,
     in_mode = TINY_FD_MODE_ABM, in_on_read_ui_cb = False\<rparr>"

definition ifd_begin :: "c_abi \<Rightarrow> (nat \<Rightarrow> u32) \<Rightarrow> memory \<Rightarrow> fd_class \<Rightarrow> tiny_fd option" where
  "ifd_begin abi clk m c = (case tiny_fd_init abi (ifd_init c) clk m of Inl e \<Rightarrow> None | Inr h \<Rightarrow> Some h)"

definition ifd_end :: "fd_class \<Rightarrow> tiny_fd \<Rightarrow> tiny_fd" where
  "ifd_end c h = (if fc_buffer_size c = 0 then h else tiny_fd_close h)"

definition ifd_write :: "(tiny_fd_data \<Rightarrow> tiny_fd_data) \<Rightarrow> (tiny_fd_data \<Rightarrow> tiny_fd_data) \<Rightarrow> fd_class \<Rightarrow> u8 list \<Rightarrow> tiny_fd \<Rightarrow> int \<times> tiny_fd" where
  "ifd_write env1 env2 c data h =
     (case tiny_fd_send_packet env1 env2 (user_data h) data (ucast (fc_send_timeout c)) of (r, fd) \<Rightarrow> (r, h\<lparr>user_data := fd\<rparr>))"

definition ifd_write_packet :: "(tiny_fd_data \<Rightarrow> tiny_fd_data) \<Rightarrow> (tiny_fd_data \<Rightarrow> tiny_fd_data) \<Rightarrow> fd_class \<Rightarrow> memory \<Rightarrow> ipacket \<Rightarrow> tiny_fd \<Rightarrow> int \<times> tiny_fd" where
  "ifd_write_packet env1 env2 c m pkt h = ifd_write env1 env2 c (bytes_at m (m_buf pkt) (nat (m_len pkt))) h"

definition ifd_run_rx :: "u8 list \<Rightarrow> tiny_fd \<Rightarrow> int \<times> tiny_fd" where
  "ifd_run_rx data h = tiny_fd_on_rx_data h data"

text \<open>The result of \<open>read_func\<close>, and what it has put into the buffer of 64 bytes.\<close>

definition ifd_run_rx_read :: "int \<Rightarrow> u8 list \<Rightarrow> tiny_fd \<Rightarrow> int \<times> tiny_fd" where
  "ifd_run_rx_read len buf h = (if len \<le> 0 then (len, h) else tiny_fd_on_rx_data h (take (nat len) buf))"

definition ifd_run_tx :: "nat \<Rightarrow> tiny_fd \<Rightarrow> int \<times> u8 list \<times> tiny_fd" where
  "ifd_run_tx max_size h = tiny_fd_get_tx_data h max_size"

function ifd_write_loop :: "'d write_block \<Rightarrow> u8 list \<Rightarrow> 'd \<Rightarrow> int \<times> 'd" where
  "ifd_write_loop write_func ptr d =
     (if ptr \<noteq> [] then
        case write_func d ptr of (result, d) \<Rightarrow>
          if result \<le> 0 then (if result < 0 then result else TINY_ERR_FAILED, d)
          else ifd_write_loop write_func (drop (nat result) ptr) d
      else (TINY_SUCCESS, d))"
  by pat_completeness auto
termination by (relation "measure (\<lambda>(w, ptr, d). length ptr)") auto

declare ifd_write_loop.simps [simp del]

definition ifd_run_tx_write :: "'d write_block \<Rightarrow> tiny_fd \<Rightarrow> 'd \<Rightarrow> int \<times> tiny_fd \<times> 'd" where
  "ifd_run_tx_write write_func h d =
     (case tiny_fd_get_tx_data h 64 of (len, buf, h) \<Rightarrow>
        if len \<le> 0 then (len, h, d)
        else case ifd_write_loop write_func buf d of (r, d) \<Rightarrow> (r, h, d))"

definition ifd_disable_crc :: "fd_class \<Rightarrow> fd_class" where "ifd_disable_crc c = c\<lparr>fc_crc := HDLC_CRC_OFF\<rparr>"
definition ifd_enable_crc :: "hdlc_crc_t \<Rightarrow> fd_class \<Rightarrow> fd_class" where "ifd_enable_crc crc c = c\<lparr>fc_crc := crc\<rparr>"
definition ifd_enable_checksum :: "fd_class \<Rightarrow> bool \<times> fd_class" where "ifd_enable_checksum c = (True, c\<lparr>fc_crc := HDLC_CRC_8\<rparr>)"
definition ifd_enable_crc16 :: "fd_class \<Rightarrow> bool \<times> fd_class" where "ifd_enable_crc16 c = (True, c\<lparr>fc_crc := HDLC_CRC_16\<rparr>)"
definition ifd_enable_crc32 :: "fd_class \<Rightarrow> bool \<times> fd_class" where "ifd_enable_crc32 c = (True, c\<lparr>fc_crc := HDLC_CRC_32\<rparr>)"

definition ifd_set_window_size :: "u8 \<Rightarrow> fd_class \<Rightarrow> fd_class" where "ifd_set_window_size window c = c\<lparr>fc_window := window\<rparr>"
definition ifd_set_send_timeout :: "u16 \<Rightarrow> fd_class \<Rightarrow> fd_class" where "ifd_set_send_timeout timeout c = c\<lparr>fc_send_timeout := timeout\<rparr>"

text \<open>
  A device that takes nothing ends the loop with an error, and the rest of the block, which has left the protocol, is
  never offered again: only the retransmission after a timeout sends these bytes.
\<close>

lemma ifd_run_tx_write_busy:
  assumes "tiny_fd_get_tx_data h 64 = (len, buf, h')" "0 < len" "buf \<noteq> []" "write_func d buf = (0, d')"
  shows "ifd_run_tx_write write_func h d = (TINY_ERR_FAILED, h', d')"
  using assms by (simp add: ifd_run_tx_write_def ifd_write_loop.simps [of write_func buf])

subsection \<open>The class Hdlc\<close>

record hdlc_class =
  hc_buffer :: nat
  hc_buffer_size :: int
  hc_crc :: hdlc_crc_t

text \<open>\<open>on_receive\<close> and \<open>on_send\<close> are what the object does with a frame; \<open>s\<close> is what the structure held.\<close>

definition hdlc_class_begin :: "c_abi \<Rightarrow> ('d \<Rightarrow> u8 list \<Rightarrow> 'd) \<Rightarrow> ('d \<Rightarrow> u8 list \<Rightarrow> 'd) \<Rightarrow> 'd write_block option \<Rightarrow> hdlc_class
    \<Rightarrow> 'd hdlc_struct \<Rightarrow> 'd hdlc \<Rightarrow> 'd hdlc option" where
  "hdlc_class_begin abi on_receive on_send writecb c s h0 =
     hdlc_init abi (s\<lparr>hl_send_tx := writecb, hl_on_frame_read := Some on_receive, hl_on_frame_send := Some on_send,
       hl_rx_buf := hc_buffer c, hl_rx_buf_size := hc_buffer_size c, hl_crc_type := hc_crc c, hl_multithread_mode := False\<rparr>) h0"

definition hdlc_class_end :: "hdlc_class \<Rightarrow> 'd hdlc \<Rightarrow> 'd hdlc" where
  "hdlc_class_end c h = (if hc_buffer_size c = 0 then h else snd (hdlc_close h))"

definition hdlc_class_write :: "('d hdlc \<Rightarrow> 'd hdlc) \<Rightarrow> ('d hdlc \<Rightarrow> 'd hdlc) \<Rightarrow> nat \<Rightarrow> int \<Rightarrow> 'd hdlc \<Rightarrow> (int \<times> 'd hdlc) option" where
  "hdlc_class_write env1 env2 buf sz h = hdlc_send env1 env2 h buf sz 0"

definition hdlc_class_write_packet :: "('d hdlc \<Rightarrow> 'd hdlc) \<Rightarrow> ('d hdlc \<Rightarrow> 'd hdlc) \<Rightarrow> ipacket \<Rightarrow> 'd hdlc \<Rightarrow> (int \<times> 'd hdlc) option" where
  "hdlc_class_write_packet env1 env2 pkt h = hdlc_class_write env1 env2 (m_buf pkt) (m_len pkt) h"

definition hdlc_class_run_rx :: "u8 list \<Rightarrow> 'd hdlc \<Rightarrow> int \<times> 'd hdlc" where
  "hdlc_class_run_rx data h = (case hdlc_run_rx h data of (n, e, h) \<Rightarrow> (n, h))"

definition hdlc_class_run_tx :: "int \<Rightarrow> 'd hdlc \<Rightarrow> int \<times> 'd hdlc" where
  "hdlc_class_run_tx max_len h = hdlc_get_tx_data h max_len"

definition hdlc_disable_crc :: "hdlc_class \<Rightarrow> hdlc_class" where "hdlc_disable_crc c = c\<lparr>hc_crc := HDLC_CRC_OFF\<rparr>"
definition hdlc_enable_crc :: "hdlc_crc_t \<Rightarrow> hdlc_class \<Rightarrow> hdlc_class" where "hdlc_enable_crc crc c = c\<lparr>hc_crc := crc\<rparr>"
definition hdlc_enable_checksum :: "hdlc_class \<Rightarrow> bool \<times> hdlc_class" where "hdlc_enable_checksum c = (True, c\<lparr>hc_crc := HDLC_CRC_8\<rparr>)"
definition hdlc_enable_crc16 :: "hdlc_class \<Rightarrow> bool \<times> hdlc_class" where "hdlc_enable_crc16 c = (True, c\<lparr>hc_crc := HDLC_CRC_16\<rparr>)"
definition hdlc_enable_crc32 :: "hdlc_class \<Rightarrow> bool \<times> hdlc_class" where "hdlc_enable_crc32 c = (True, c\<lparr>hc_crc := HDLC_CRC_32\<rparr>)"

subsection \<open>The class Light\<close>

definition light_begin :: "c_abi \<Rightarrow> nat \<Rightarrow> hdlc_crc_t \<Rightarrow> 'd write_block option \<Rightarrow> 'd read_block option \<Rightarrow> 'd light_user \<Rightarrow> 'd light \<Rightarrow> int + 'd light" where
  "light_begin abi buffer crc writecb readcb u h0 = tiny_light_init abi buffer crc writecb readcb u h0"

definition light_end :: "'d light \<Rightarrow> 'd light" where
  "light_end h = snd (tiny_light_close h)"

definition light_write :: "'d write_block \<Rightarrow> nat \<Rightarrow> nat \<Rightarrow> 'd light \<Rightarrow> (int \<times> 'd light) option" where
  "light_write w buf sz h = tiny_light_send w h buf sz"

definition light_read :: "'d read_block \<Rightarrow> nat \<Rightarrow> nat \<Rightarrow> 'd light \<Rightarrow> (int \<times> 'd light) option" where
  "light_read r buf sz h = tiny_light_read r h buf sz"

definition light_write_packet :: "'d write_block \<Rightarrow> ipacket \<Rightarrow> 'd light \<Rightarrow> (int \<times> 'd light) option" where
  "light_write_packet w pkt h = tiny_light_send w h (m_buf pkt) (nat (m_len pkt))"

text \<open>The result goes into the length of the packet, an error too.\<close>

definition light_read_packet :: "'d read_block \<Rightarrow> ipacket \<Rightarrow> 'd light \<Rightarrow> (int \<times> ipacket \<times> 'd light) option" where
  "light_read_packet r pkt h =
     map_option (\<lambda>(len, h). (len, pkt\<lparr>m_p := 0, m_len := len\<rparr>, h)) (tiny_light_read r h (m_buf pkt) (nat (m_size pkt)))"

text \<open>\<open>configured\<close> says whether the check sequence is compiled in.\<close>

record light_class = lc_crc :: hdlc_crc_t

definition light_disable_crc :: "light_class \<Rightarrow> light_class" where "light_disable_crc c = c\<lparr>lc_crc := HDLC_CRC_OFF\<rparr>"
definition light_enable_crc :: "hdlc_crc_t \<Rightarrow> light_class \<Rightarrow> light_class" where "light_enable_crc crc c = c\<lparr>lc_crc := crc\<rparr>"
definition light_enable_checksum :: "bool \<Rightarrow> light_class \<Rightarrow> bool \<times> light_class" where
  "light_enable_checksum configured c = (if configured then (True, c\<lparr>lc_crc := HDLC_CRC_8\<rparr>) else (False, c))"
definition light_enable_crc16 :: "bool \<Rightarrow> light_class \<Rightarrow> bool \<times> light_class" where
  "light_enable_crc16 configured c = (if configured then (True, c\<lparr>lc_crc := HDLC_CRC_16\<rparr>) else (False, c))"
definition light_enable_crc32 :: "bool \<Rightarrow> light_class \<Rightarrow> bool \<times> light_class" where
  "light_enable_crc32 configured c = (if configured then (True, c\<lparr>lc_crc := HDLC_CRC_32\<rparr>) else (False, c))"

subsection \<open>Settings that do not fit\<close>

lemma tiny_fd_init_too_small:
  assumes "0 < in_mtu init" "in_peers_count init = 0"
    and "int (unat (in_buffer_size init)) < tiny_fd_buffer_size_by_mtu_ex abi 1 (in_mtu init) (int (unat (in_window_frames init))) (in_crc_type init) 1"
  shows "\<exists>e. tiny_fd_init abi init clk m = Inl e"
  using assms by (auto simp: tiny_fd_init_def tiny_fd_init_validate_def Let_def)

lemma buffer_size_rx_window:
  "tiny_fd_buffer_size_by_mtu_ex abi n mtu tx crc 3
     = tiny_fd_buffer_size_by_mtu_ex abi n mtu tx crc 1 + 2 * (get_crc_field_size crc + mtu + 2)"
  by (simp add: tiny_fd_buffer_size_by_mtu_ex_def hdlc_ll_get_buf_size_ex_def Let_def algebra_simps)

text \<open>
  C32: The serial full duplex link computes the size of its buffer as an \<open>int\<close>, but the protocol takes it in a field of 16 bits. From the
  size 65536 on, for a maximum transmission unit up to 32000, what is left of the size is less than the protocol needs, so \<open>begin\<close>
  always fails, wherever the buffer lies. The defaults of the class (16384 bytes, window 2) are such settings.
\<close>

theorem serial_fd_begin_too_large:
  assumes "65536 \<le> serial_fd_buffer_size abi l" "0 < fl_mtu l" "fl_mtu l \<le> 32000"
  shows "serial_fd_begin abi clk m buf l = (False, None)"
proof -
  let ?need = "\<lambda>w. tiny_fd_buffer_size_by_mtu_ex abi 1 (fl_mtu l) (int (unat (fl_tx_window l))) (fl_crc l) w"
  let ?size = "serial_fd_buffer_size abi l"
  define init where "init = fd_link_init (l\<lparr>fl_buffer := buf, fl_buffer_size := ?size\<rparr>)"
  have size: "int (unat (in_buffer_size init)) = ?size mod 65536"
    by (simp add: init_def fd_link_init_def unsigned_of_int take_bit_eq_mod)
  have extra: "?size = ?need 1 + 2 * (get_crc_field_size (fl_crc l) + fl_mtu l + 2)"
    by (simp add: serial_fd_buffer_size_def buffer_size_rx_window)
  have crc: "0 \<le> get_crc_field_size (fl_crc l)" "get_crc_field_size (fl_crc l) \<le> 4"
    by (cases "fl_crc l"; simp add: get_crc_field_size_def)+
  have "?size mod 65536 < ?need 1"
  proof (cases "?need 1 < 65536")
    case True
    have "x - 65536 < y" if "x = y + 2 * (g + m + 2)" "g \<le> 4" "m \<le> 32000" for x y g m :: int using that by simp
    from this [OF extra crc(2) assms(3)] have less: "?size - 65536 < ?need 1" .
    have "?size mod 65536 = (?size - 65536) mod 65536" using assms(1) by (intro mod_pos_geq) simp_all
    moreover have "(?size - 65536) mod 65536 = ?size - 65536" using True assms(1) less by (intro mod_pos_pos_trivial) linarith+
    ultimately have "?size mod 65536 = ?size - 65536" by (rule trans)
    then show ?thesis using less by simp
  next
    case False
    have "?size mod 65536 < 65536" by simp
    then show ?thesis using False by linarith
  qed
  then have "\<exists>e. tiny_fd_init abi init clk m = Inl e"
    using assms(2) size by (intro tiny_fd_init_too_small) (simp_all add: init_def fd_link_init_def)
  then show ?thesis by (auto simp: serial_fd_begin_def fd_link_begin_def fd_link_set_buffer_def init_def)
qed

theorem serial_fd_begin_too_large_witness:
  "serial_fd_begin linux_abi (\<lambda>_. 0) (\<lambda>_. 0) 4096 (fd_link_new 0 0) = (False, None)"
  by (rule serial_fd_begin_too_large)
     (simp_all add: serial_fd_buffer_size_def fd_link_new_def tiny_fd_buffer_size_by_mtu_ex_def hdlc_ll_get_buf_size_ex_def
       get_crc_field_size_def TINY_FD_U_QUEUE_MAX_SIZE_def linux_abi_def Let_def)

end
