(* ===== verification/LinuxEvents.thy ===== *)
theory LinuxEvents
  imports HalEvents
begin

unbundle bit_operations_syntax

section \<open>Event groups on Linux\<close>

text \<open>
  The event groups of \<open>src/hal/linux/linux_hal.inl\<close>: a byte of bits under a mutex, with a condition variable for the
  threads that wait. The steps of several threads are interleaved: as all of the code runs under the mutex, the code from one
  \<open>pthread_mutex_lock\<close>, or the end of a wait on the condition variable, to the next unlock or wait is one step.
  \<^item> A thread is \<open>Running\<close> outside these functions, \<open>Sleeping\<close> inside \<open>pthread_cond_wait\<close> or \<open>pthread_cond_timedwait\<close>, or
    \<open>Woken\<close>, when that call has ended but has not got the mutex again; its last field is \<open>res = ETIMEDOUT\<close>.
  \<^item> As POSIX has it, a thread may wake without a reason, and a broadcast wakes every thread that sleeps. A wait with a limit may
    expire at any time, which covers every clock.
\<close>

subsection \<open>The code\<close>

record linux_events =
  le_bits :: u8
  le_waiters :: u16

definition linux_events_create :: linux_events where
  "linux_events_create = \<lparr>le_bits = 0, le_waiters = 0\<rparr>"

definition linux_wait_enter :: "linux_events \<Rightarrow> linux_events" where
  "linux_wait_enter e = e\<lparr>le_waiters := le_waiters e + 1\<rparr>"

text \<open>From the test of the loop on: \<open>None\<close> is another wait on the condition variable.\<close>

definition linux_wait_section :: "u8 \<Rightarrow> bool \<Rightarrow> bool \<Rightarrow> linux_events \<Rightarrow> (u8 \<times> linux_events) option" where
  "linux_wait_section bits clear timed_out e =
     (if \<not> timed_out \<and> le_bits e AND bits = 0 then None
      else
        let (locked, e) = (if \<not> timed_out
               then (le_bits e, if clear then e\<lparr>le_bits := le_bits e AND NOT bits\<rparr> else e)
               else (0, e))
        in Some (locked, e\<lparr>le_waiters := le_waiters e - 1\<rparr>))"

definition linux_events_set :: "u8 \<Rightarrow> linux_events \<Rightarrow> linux_events" where
  "linux_events_set bits e = e\<lparr>le_bits := le_bits e OR bits\<rparr>"

definition linux_events_clear :: "u8 \<Rightarrow> linux_events \<Rightarrow> linux_events" where
  "linux_events_clear bits e = e\<lparr>le_bits := le_bits e AND NOT bits\<rparr>"

text \<open>The end of the wait as seconds and nanoseconds.\<close>

definition linux_deadline :: "int \<times> int \<Rightarrow> u32 \<Rightarrow> int \<times> int" where
  "linux_deadline ts timeout =
     (let (sec, nsec) = (fst ts + int (unat timeout div 1000), snd ts + int (unat timeout mod 1000) * 1000000)
      in if nsec \<ge> 1000000000 then (sec + 1, nsec - 1000000000) else (sec, nsec))"

definition linux_millis :: "int \<times> int \<Rightarrow> u32" where
  "linux_millis ts = of_int (fst ts * 1000 + snd ts div 1000000)"

definition linux_micros :: "int \<times> int \<Rightarrow> u32" where
  "linux_micros ts = of_int (fst ts * 1000000 + snd ts div 1000)"

text \<open>The end of the wait is a time in the form that the condition variable asks for, \<open>timeout\<close> milliseconds later.\<close>

lemma linux_deadline_normal:
  assumes "0 \<le> snd ts" "snd ts < 1000000000" "linux_deadline ts timeout = (sec, nsec)"
  shows "0 \<le> nsec" "nsec < 1000000000" "sec * 1000000000 + nsec = fst ts * 1000000000 + snd ts + int (unat timeout) * 1000000"
proof -
  have m: "int (unat timeout mod 1000) < 1000" by simp
  have d: "int (unat timeout) = 1000 * int (unat timeout div 1000) + int (unat timeout mod 1000)" by (metis mult_div_mod_eq of_nat_add of_nat_mult of_nat_numeral)
  show "0 \<le> nsec" "nsec < 1000000000" "sec * 1000000000 + nsec = fst ts * 1000000000 + snd ts + int (unat timeout) * 1000000"
    using assms m d by (auto simp: linux_deadline_def Let_def split: if_splits)
qed

subsection \<open>Threads\<close>

datatype le_pc = Running | Sleeping u8 bool u32 | Woken u8 bool u32 bool

datatype le_label = Waits nat | Wakes nat | Returns nat u8 bool u8 | Sets u8 | Clears u8

type_synonym le_sys = "linux_events \<times> (nat \<Rightarrow> le_pc)"

definition wake_pc :: "le_pc \<Rightarrow> le_pc" where
  "wake_pc p = (case p of Sleeping b c to \<Rightarrow> Woken b c to False | _ \<Rightarrow> p)"

inductive le_step :: "le_sys \<Rightarrow> le_label \<Rightarrow> le_sys \<Rightarrow> bool" where
  wait_returns: "pc t = Running \<Longrightarrow> linux_wait_section b c False (linux_wait_enter e) = Some (r, e')
    \<Longrightarrow> le_step (e, pc) (Returns t b c r) (e', pc)"
| wait_sleeps: "pc t = Running \<Longrightarrow> linux_wait_section b c False (linux_wait_enter e) = None
    \<Longrightarrow> le_step (e, pc) (Waits t) (linux_wait_enter e, pc(t := Sleeping b c to))"
| wakes: "pc t = Sleeping b c to \<Longrightarrow> le_step (e, pc) (Wakes t) (e, pc(t := Woken b c to False))"
| expires: "pc t = Sleeping b c to \<Longrightarrow> to \<noteq> 0xFFFFFFFF \<Longrightarrow> le_step (e, pc) (Wakes t) (e, pc(t := Woken b c to True))"
| resumes_returns: "pc t = Woken b c to x \<Longrightarrow> linux_wait_section b c x e = Some (r, e')
    \<Longrightarrow> le_step (e, pc) (Returns t b c r) (e', pc(t := Running))"
| resumes_sleeps: "pc t = Woken b c to x \<Longrightarrow> linux_wait_section b c x e = None
    \<Longrightarrow> le_step (e, pc) (Waits t) (e, pc(t := Sleeping b c to))"
| sets: "pc t = Running \<Longrightarrow> le_step (e, pc) (Sets b) (linux_events_set b e, \<lambda>u. wake_pc (pc u))"
| clears: "pc t = Running \<Longrightarrow> le_step (e, pc) (Clears b) (linux_events_clear b e, pc)"

inductive le_run :: "le_label list \<Rightarrow> le_sys \<Rightarrow> bool" where
  le_start: "le_run [] (linux_events_create, \<lambda>t. Running)"
| le_next: "le_run ls s \<Longrightarrow> le_step s l s' \<Longrightarrow> le_run (ls @ [l]) s'"

subsection \<open>Invariant\<close>

text \<open>How often the bit \<open>n\<close> has been set, and how often a wait has taken it.\<close>

fun sets_bit :: "nat \<Rightarrow> le_label \<Rightarrow> bool" where
  "sets_bit n (Sets b) = bit b n"
| "sets_bit n _ = False"

fun takes_bit :: "nat \<Rightarrow> le_label \<Rightarrow> bool" where
  "takes_bit n (Returns t b c r) = (c \<and> bit b n \<and> bit r n)"
| "takes_bit n _ = False"

definition count_labels :: "(le_label \<Rightarrow> bool) \<Rightarrow> le_label list \<Rightarrow> nat" where
  "count_labels P ls = length (filter P ls)"

lemma count_labels_simps [simp]:
  "count_labels P [] = 0" "count_labels P (ls @ [l]) = count_labels P ls + (if P l then 1 else 0)"
  by (simp_all add: count_labels_def)

definition no_lost_wakeup :: "le_sys \<Rightarrow> bool" where
  "no_lost_wakeup s \<longleftrightarrow> (\<forall>t b c to. snd s t = Sleeping b c to \<longrightarrow> le_bits (fst s) AND b = 0)"

definition waiting :: "(nat \<Rightarrow> le_pc) \<Rightarrow> nat set" where
  "waiting pc = {t. pc t \<noteq> Running}"

definition waiters_counted :: "le_sys \<Rightarrow> bool" where
  "waiters_counted s \<longleftrightarrow> finite (waiting (snd s)) \<and> le_waiters (fst s) = of_nat (card (waiting (snd s)))"

lemma wait_section_cases:
  assumes "linux_wait_section b c x e = Some (r, e')"
  shows "le_waiters e' = le_waiters e - 1"
    and "x \<Longrightarrow> r = 0 \<and> le_bits e' = le_bits e"
    and "\<not> x \<Longrightarrow> r = le_bits e \<and> r AND b \<noteq> 0 \<and> le_bits e' = (if c then le_bits e AND NOT b else le_bits e)"
  using assms by (auto simp: linux_wait_section_def Let_def split: if_splits)

lemma wait_section_None: "linux_wait_section b c x e = None \<longleftrightarrow> \<not> x \<and> le_bits e AND b = 0"
  by (auto simp: linux_wait_section_def Let_def)

lemma wake_pc_simps [simp]: "wake_pc p \<noteq> Sleeping b c to" "wake_pc p = Running \<longleftrightarrow> p = Running"
  by (cases p; simp add: wake_pc_def)+

lemma and_zero_clear: "(x :: u8) AND b = 0 \<Longrightarrow> (x AND NOT d) AND b = 0"
  by (simp add: bit_eq_iff bit_simps)

lemma bits_shrink_keep:
  assumes "no_lost_wakeup (e, pc)" "\<forall>u b c to. pc' u = Sleeping b c to \<longrightarrow> pc u = Sleeping b c to \<or> le_bits e' AND b = 0"
    and "le_bits e' = le_bits e \<or> (\<exists>d. le_bits e' = le_bits e AND NOT d)"
  shows "no_lost_wakeup (e', pc')"
  using assms and_zero_clear unfolding no_lost_wakeup_def fst_conv snd_conv by metis

lemma le_step_no_lost_wakeup: "le_step s l s' \<Longrightarrow> no_lost_wakeup s \<Longrightarrow> no_lost_wakeup s'"
proof (induction rule: le_step.induct)
  case (wait_returns pc t b c e r e')
  from wait_section_cases [OF wait_returns(2)] have "le_bits e' = le_bits e \<or> (\<exists>d. le_bits e' = le_bits e AND NOT d)"
    by (auto simp: linux_wait_enter_def)
  then show ?case using bits_shrink_keep [OF wait_returns(3)] by blast
next
  case (wait_sleeps pc t b c e to)
  then show ?case using bits_shrink_keep [OF wait_sleeps(3), of "pc(t := Sleeping b c to)" "linux_wait_enter e"]
    by (auto simp: wait_section_None linux_wait_enter_def)
next
  case (resumes_returns pc t b c to x e r e')
  from wait_section_cases [OF resumes_returns(2)] have "le_bits e' = le_bits e \<or> (\<exists>d. le_bits e' = le_bits e AND NOT d)"
    by (cases x) auto
  then show ?case using bits_shrink_keep [OF resumes_returns(3), of "pc(t := Running)" e'] by (auto split: if_splits)
next
  case (clears pc t e b)
  then show ?case using bits_shrink_keep [OF clears(2), of pc "linux_events_clear b e"] by (auto simp: linux_events_clear_def)
next
  case (sets pc t e b)
  then show ?case by (simp add: no_lost_wakeup_def)
qed (auto simp: no_lost_wakeup_def wait_section_None)

lemma waiting_upd: "waiting (pc(t := p)) = (if p = Running then waiting pc - {t} else insert t (waiting pc))"
  by (auto simp: waiting_def)

lemma waiting_same: "pc t \<noteq> Running \<Longrightarrow> p \<noteq> Running \<Longrightarrow> waiting (pc(t := p)) = waiting pc"
  by (auto simp: waiting_def)

lemma card_u16: "finite A \<Longrightarrow> t \<in> A \<Longrightarrow> (of_nat (card (A - {t})) :: u16) = of_nat (card A) - 1"
  by (metis add_diff_cancel_left' card.remove of_nat_Suc)

lemma le_step_waiters: "le_step s l s' \<Longrightarrow> waiters_counted s \<Longrightarrow> waiters_counted s'"
proof (induction rule: le_step.induct)
  case (wait_returns pc t b c e r e')
  then show ?case using wait_section_cases(1) [OF wait_returns(2)] by (simp add: waiters_counted_def linux_wait_enter_def)
next
  case (wait_sleeps pc t b c e to)
  then have "t \<notin> waiting pc" by (simp add: waiting_def)
  then show ?case using wait_sleeps(3) by (simp add: waiters_counted_def linux_wait_enter_def waiting_upd)
next
  case (resumes_returns pc t b c to x e r e')
  then have "t \<in> waiting pc" by (simp add: waiting_def)
  then show ?case using resumes_returns(3) wait_section_cases(1) [OF resumes_returns(2)] card_u16 [of "waiting pc" t]
    by (simp add: waiters_counted_def waiting_upd)
next
  case (sets pc t e b)
  then show ?case by (simp add: waiters_counted_def waiting_def linux_events_set_def)
next
  case (clears pc t e b)
  then show ?case by (simp add: waiters_counted_def linux_events_clear_def)
qed (simp_all add: waiters_counted_def waiting_same)

text \<open>A bit that is there, or has been taken, has been set that often.\<close>

lemma wait_section_takes:
  assumes "linux_wait_section b c x e = Some (r, e')"
  shows "(if takes_bit n (Returns t b c r) then 1 else 0) + (if bit (le_bits e') n then 1 else 0) \<le> (if bit (le_bits e) n then 1 else (0::nat))"
proof (cases x)
  case True
  then show ?thesis using wait_section_cases(2) [OF assms] by simp
next
  case False
  have "bit (le_bits e) n \<Longrightarrow> n < 8" using bit_imp_le_length [of "le_bits e" n] by simp
  then show ?thesis using wait_section_cases(3) [OF assms False] by (cases c) (auto simp: bit_and_iff bit_not_iff)
qed

lemma le_step_takes:
  assumes "le_step s l s'"
  shows "(if takes_bit n l then 1 else 0) + (if bit (le_bits (fst s')) n then 1 else 0)
    \<le> (if sets_bit n l then 1 else 0) + (if bit (le_bits (fst s)) n then 1 else (0::nat))"
  using assms
proof cases
  case (wait_returns pc t b c e r e')
  then show ?thesis using wait_section_takes [OF wait_returns(5), of n t] by (simp add: linux_wait_enter_def)
next
  case (resumes_returns pc t b c to x e r e')
  then show ?thesis using wait_section_takes [OF resumes_returns(5), of n t] by simp
qed (auto simp: linux_wait_enter_def linux_events_set_def linux_events_clear_def bit_or_iff bit_and_iff)

lemma le_run_takes:
  "le_run ls s \<Longrightarrow> count_labels (takes_bit n) ls + (if bit (le_bits (fst s)) n then 1 else 0) \<le> count_labels (sets_bit n) ls"
proof (induction rule: le_run.induct)
  case le_start
  then show ?case by (simp add: linux_events_create_def)
next
  case (le_next ls s l s')
  then show ?case using le_step_takes [OF le_next(2), of n] by simp
qed

lemma le_run_invariant: "le_run ls s \<Longrightarrow> no_lost_wakeup s \<and> waiters_counted s"
proof (induction rule: le_run.induct)
  case le_start
  then show ?case by (simp add: no_lost_wakeup_def waiters_counted_def waiting_def linux_events_create_def)
next
  case (le_next ls s l s')
  then show ?case using le_step_no_lost_wakeup le_step_waiters by blast
qed

text \<open>
  C40: On Linux no wake-up is lost and no event is seen twice. Whatever any number of threads do, in any order, with
  wake-ups without a reason and with waits that expire at any moment: no thread sleeps while a bit that it waits for
  is set, and a thread that has been woken while one of its bits is set does not fall asleep again but returns; every bit that waits have
  taken away has been set that often at least; and \<open>waiters\<close> is the number of the threads inside \<open>tiny_events_wait\<close>, mod 65536.
\<close>

theorem linux_events_no_lost_wakeup:
  assumes "le_run ls (e, pc)"
  shows "(\<forall>t b c to. pc t = Sleeping b c to \<longrightarrow> le_bits e AND b = 0)
    \<and> (\<forall>t b c to. pc t = Woken b c to False \<longrightarrow> le_bits e AND b \<noteq> 0
         \<longrightarrow> (\<exists>e'. linux_wait_section b c False e = Some (le_bits e, e') \<and> le_step (e, pc) (Returns t b c (le_bits e)) (e', pc(t := Running))))
    \<and> (\<forall>n. count_labels (takes_bit n) ls + (if bit (le_bits e) n then 1 else 0) \<le> count_labels (sets_bit n) ls)
    \<and> le_waiters e = of_nat (card {t. pc t \<noteq> Running})"
proof -
  have "\<exists>e'. linux_wait_section b c False e = Some (le_bits e, e')" if "le_bits e AND b \<noteq> 0" for b c
    using that by (simp add: linux_wait_section_def Let_def)
  then have woken: "\<exists>e'. linux_wait_section b c False e = Some (le_bits e, e') \<and> le_step (e, pc) (Returns t b c (le_bits e)) (e', pc(t := Running))"
    if "pc t = Woken b c to False" "le_bits e AND b \<noteq> 0" for t b c to
    using that le_step.resumes_returns by blast
  have "\<forall>t b c to. pc t = Sleeping b c to \<longrightarrow> le_bits e AND b = 0" "le_waiters e = of_nat (card {t. pc t \<noteq> Running})"
    using le_run_invariant [OF assms] by (simp_all add: no_lost_wakeup_def waiters_counted_def waiting_def)
  then show ?thesis using woken le_run_takes [OF assms] by simp
qed

theorem linux_events_no_lost_wakeup_witness:
  "\<exists>e pc. le_run [Waits 1, Waits 2, Sets 4, Returns 1 4 True 4] (e, pc) \<and> pc 2 = Woken 12 True 0xFFFFFFFF False
     \<and> le_bits e = 0 \<and> le_waiters e = of_nat (card {t. pc t \<noteq> Running})"
proof -
  define e1 where "e1 = linux_wait_enter linux_events_create"
  define e2 where "e2 = linux_wait_enter e1"
  define e3 where "e3 = linux_events_set 4 e2"
  define e4 where "e4 = e3\<lparr>le_bits := 0, le_waiters := 1\<rparr>"
  define p1 where "p1 = (\<lambda>t :: nat. Running)(1 := Sleeping 4 True 100)"
  define p2 where "p2 = p1(2 := Sleeping 12 True 0xFFFFFFFF)"
  define p3 where "p3 = (\<lambda>u. wake_pc (p2 u))"
  note defs = e1_def e2_def e3_def e4_def linux_wait_enter_def linux_events_create_def linux_events_set_def linux_wait_section_def Let_def
  have "le_run [] (linux_events_create, \<lambda>t. Running)" by (rule le_start)
  from le_next [OF this wait_sleeps [where t = 1 and b = 4 and c = True and to = 100]] have "le_run [Waits 1] (e1, p1)" by (simp add: p1_def defs)
  from le_next [OF this wait_sleeps [where t = 2 and b = 12 and c = True and to = "0xFFFFFFFF"]] have "le_run [Waits 1, Waits 2] (e2, p2)" by (simp add: p1_def p2_def defs)
  from le_next [OF this sets [of _ 3 _ 4]] have "le_run [Waits 1, Waits 2, Sets 4] (e3, p3)" by (simp add: p1_def p2_def p3_def defs)
  moreover have "p3 1 = Woken 4 True 100 False" by (simp add: p1_def p2_def p3_def wake_pc_def)
  moreover have "linux_wait_section 4 True False e3 = Some (4, e4)" by (simp add: defs)
  ultimately have "le_run [Waits 1, Waits 2, Sets 4, Returns 1 4 True 4] (e4, p3(1 := Running))"
    using le_next [OF _ resumes_returns [of p3 1 4 True 100 False]] by fastforce
  from this linux_events_no_lost_wakeup [OF this] show ?thesis
    by (intro exI [of _ e4] exI [of _ "p3(1 := Running)"]) (simp add: p1_def p2_def p3_def wake_pc_def e4_def)
qed

end
