(* ===== verification/Spec2Isabelle.thy ===== *)
theory Spec2Isabelle
  imports FdStall FdConnect FdRegister TinyList SerialLinks HdlcSafety CppClasses LinuxEvents
begin

text \<open>
  Tiny Protocol (lexus2k/tinyproto): the C library and the C++ classes over it. All paths are below \<open>src/\<close> of the repository.

  \<^bold>\<open>The program.\<close> At the bottom, \<open>proto/hdlc/low_level\<close> makes frames of bytes, with one of three check sequences of \<open>proto/crc\<close>, and finds
  frames in received bytes. Three protocols use it: \<open>proto/light\<close> and \<open>proto/hdlc/high_level\<close> send frames and do not confirm them;
  \<open>proto/fd\<close>, the full duplex protocol, numbers, confirms and repeats frames between two stations (mode ABM), or between a primary station and its
  peers (mode NRM). The classes of \<open>link\<close> put a protocol on a serial line, \<open>TinyProtocol.cpp\<close> exchanges packets (\<open>TinyPacket.h\<close>)
  over any such link, and \<open>TinyProtocolFd.cpp\<close>, \<open>TinyProtocolHdlc.cpp\<close>, \<open>TinyLightProtocol.cpp\<close> wrap the C calls. Mutexes, event groups
  and clocks come from \<open>hal\<close>.

  \<^bold>\<open>The theories,\<close> bottom up. A C structure or an object is a record, an operation a function of the same name on it; results of C are
  values (an error code as \<open>int\<close>, or a sum type where there is no other result).
  \<^item> \<open>TinyPrelude\<close>: machine words, error codes, shared lemmas.
  \<^item> \<open>TinyCrc\<close>: \<open>proto/crc/tiny_crc.c\<close>. The table-driven code is division by the generator polynomial (locale \<open>crc_register\<close>); which
    errors are found.
  \<^item> \<open>HdlcLowLevel\<close>: \<open>proto/hdlc/low_level/hdlc.c\<close>, both state machines over a flat memory. \<open>HdlcTx\<close> and \<open>HdlcRx\<close> show that they
    refine a reference encoder and decoder, however their buffers cut the bytes; \<open>HdlcFraming\<close> (locale \<open>framing\<close>) that what is sent is received, that a
    receiver finds back into the stream, and that a frame whose payload does not fit its check sequence is dropped; \<open>HdlcDuplex\<close> that the two
    directions of a handle do not disturb each other; \<open>HdlcSafety\<close> that no sequence of calls leaves the well-formed states or writes outside the buffer.
  \<^item> \<open>HalEvents\<close>: the mutexes and event groups of \<open>hal/no_platform\<close> and \<open>hal/single_core\<close> (locales \<open>mutex_impl\<close>, \<open>event_group\<close>);
    \<open>LinuxEvents\<close>: those of \<open>hal/linux/linux_hal.inl\<close>, as steps of several threads. \<open>TinyList\<close>: \<open>hal/tiny_list.c\<close>, a heap of linked elements that refines a list.
  \<^item> \<open>FdFramesQueue\<close> (\<open>tiny_fd_frames_queue.c\<close>, locale \<open>frame_store\<close>), \<open>FdIQueueControl\<close> (the window of sequence numbers,
    \<open>tiny_fd_i_queue_control.c\<close>), \<open>FdData\<close> (the state, peers, service queue, transmit control, frame log): the parts of \<open>proto/fd\<close>.
  \<^item> \<open>FdOnRx\<close> and \<open>FdRxSpec\<close>: received and sent frames, \<open>tiny_fd_on_rx_int.h\<close>; the invariant \<open>fd_wf\<close>, the connection state machine, delivery of data
    in order, exactly once.
  \<^item> \<open>FdTxPath\<close> and \<open>FdTxSpec\<close>: choice of the next frame, timeouts, \<open>tiny_fd_get_tx_data\<close>. \<open>FdLink\<close>: what one
    station sends, the other gives to its application.
  \<^item> \<open>SlidingWindow\<close>: the abstract sliding window protocol, with counts that do not wrap around, over a line that loses packets.
    \<open>FdServiceRing\<close> (the queue of service frames is first in, first out), \<open>FdEndpoint\<close> (a connected station represents an end of the abstract protocol, and
    so does the state after each of its operations), \<open>FdSession\<close> (two stations and the frames between them refine the abstract protocol), \<open>FdSlots\<close> (an
    operation of the protocol leaves every slot at its address, with its size), \<open>FdWire\<close> (two stations and the bytes between them refine the session). \<open>FdConnect\<close>: SABM and UA
    bring two stations of \<open>tiny_fd_init\<close> to the start of a session. \<open>FdStall\<close>: in a session, a confirmation that
    comes late stops the I-frames of a station for as long as its connection lasts.
  \<^item> \<open>FdApi\<close>, \<open>FdApiSpec\<close>, \<open>FdInit\<close>, \<open>FdRegister\<close>: the other calls of \<open>tiny_fd.c\<close>: sending, status, layout of the buffer and initialisation, peers,
    disconnection, UI frames.
  \<^item> \<open>LineDevice\<close>: the devices that applications provide. \<open>TinyLight\<close>: \<open>proto/light/tiny_light.c\<close>. \<open>HdlcHighLevel\<close>:
    \<open>proto/hdlc/high_level/hdlc.c\<close>.
  \<^item> \<open>TinyPacket\<close>: \<open>TinyPacket.h\<close>. \<open>TinyProto\<close>: \<open>TinyProtocol.cpp\<close> over any link layer; its queue and its pool, linked by pointers, refine lists.
    \<open>HdlcLink\<close>: \<open>link/TinyHdlcLinkLayer.cpp\<close> and \<open>link/TinySerialLinkLayer.h\<close>. \<open>ProtoOverHdlc\<close> (locale \<open>proto_link\<close>): a packet from one station
    to the other. \<open>SerialLinks\<close>: the serial port, beginning and ending a link on it, the threads of \<open>Proto\<close>. \<open>CppClasses\<close>: the full duplex link and the classes over the C calls.

  \<^bold>\<open>What the properties show.\<close> Round trips and refinements of the framing; invariants of the full duplex protocol for both directions, and what it does with each kind
  of frame, with timeouts and with each call of the application; the way of a frame or packet through all layers; that
  loops and waits end; what happens on errors. Some properties state what the code does where it does not do what it
  means to: \<open>hdlc_send_stale_bit\<close>, \<open>tiny_light_send_after_error\<close>, \<open>proto_send_again_lost\<close>, \<open>put_str_without_room\<close>, \<open>serial_fd_begin_too_large\<close>,
  \<open>late_ack_stalls\<close>.

  \<^bold>\<open>Fuel and loops.\<close> Loops are recursive functions with a measure. The loops over the window and the queue of a peer have fuel: 8 for the sequence
  numbers, which are below 8; 256 for the search of the next peer, whose numbers are bytes; the length of the data for \<open>tiny_fd_send_to\<close>.
  Loops that wait for a device, an event or a link may not end: they are \<open>partial_function\<close>s with the value \<open>None\<close> for
  that, and the properties on them show that they return.

  \<^bold>\<open>The session\<close> of \<open>FdWire\<close>. Two stations in ABM mode from a fresh connection until one of them gives it up. A step is one call of
  \<open>tiny_fd_send_packet_to\<close>, one call of \<open>tiny_fd_get_tx_data\<close> (with its look at the timeouts) that has room for a frame, the calls of
  \<open>tiny_fd_on_rx_data\<close> that take the bytes of one frame in any chunks, or the loss of a whole frame. So frames keep their order, a frame that is damaged so that the receiver rejects it counts as lost
  (\<open>damaged_frame_rejected\<close> and \<open>hdlc_ll_resynchronises\<close> are about that), damage that the receiver does not notice is no part of the session, no other call comes between the chunks of one frame,
  a call that waits is not interleaved with other steps, and there are no UI frames. The mtu is at least 2.

  \<^bold>\<open>Parameters.\<close> The clock (call \<open>n\<close> returns \<open>clock n\<close>), sizes and alignment of C structures (\<open>c_abi\<close>), the devices and serial ports (a function on a state), and \<open>env\<close>: what
  the other threads of the program do while a call waits. Without a wait, a call is one step, as the mutexes make it.

  \<^bold>\<open>Not modelled.\<close> Log output. The ports of \<open>hal\<close> to other systems and its serial devices, which pass calls to the operating system. Null handles.
  The freeing of memory, templates that only provide buffers.
  The Rust port, which is a second implementation of the check sequences and the framing in another language; the Python binding; tests, examples and tools.
\<close>

end
